(* ===== verification/Prelude.thy ===== *)
theory Prelude
  imports Main "HOL-Library.Sublist" "HOL-Library.Multiset"
begin

text \<open>
  What every component shares: the collections of facts the proofs pass to the simplifier, the
  types that name Go values, and lemmas on lists and options that the library does not hold.

  Go's \<open>string\<close> is a sequence of bytes, so it is HOL's \<open>string\<close>, a list of 8-bit characters.
  A Go \<open>int\<close> that only counts is a \<open>nat\<close>, one that may be negative is an \<open>int\<close>; where an
  overflow is possible at the sizes the code allows the width is kept as a word.
\<close>

section \<open>Collections\<close>

named_theorems go_defs \<open>definitions of small straight-line operations, for unfolding\<close>
named_theorems inv_intros \<open>introduction rules for component invariants\<close>

section \<open>Lists\<close>

lemma take_drop_append3: "i \<le> j \<Longrightarrow> take i xs @ take (j - i) (drop i xs) @ drop j xs = xs"
  by (metis append_take_drop_id drop_drop le_add_diff_inverse2)

lemma take_mid_drop: "p \<le> k \<Longrightarrow> take p xs @ drop p (take k xs) @ drop k xs = xs"
  by (metis append.assoc append_take_drop_id min.absorb1 take_take)

lemma nth_drop_Cons: "i < length xs \<Longrightarrow> drop i xs = xs ! i # drop (Suc i) xs"
  by (rule Cons_nth_drop_Suc [symmetric])

lemma filter_take_drop_mid:
  "i \<le> j \<Longrightarrow> filter P (take j xs) = filter P (take i xs) @ filter P (take (j - i) (drop i xs))"
  by (metis filter_append le_add_diff_inverse take_add)

lemma length_filter_take_mono: "i \<le> j \<Longrightarrow> length (filter P (take i xs)) \<le> length (filter P (take j xs))"
  by (simp add: filter_take_drop_mid)

lemma append_eq_self_iff [simp]: "(xs = xs @ ys) = (ys = [])" "(xs @ ys = xs) = (ys = [])"
  by auto

lemma subset_mset_filter_append [simp]: "mset (filter P xs) + mset (filter (\<lambda>x. \<not> P x) xs) = mset xs"
  by (induction xs) auto

lemma subseq_elem: "subseq xs ys \<Longrightarrow> x \<in> set xs \<Longrightarrow> x \<in> set ys"
  by (auto elim: list_emb_set)

lemma subseq_drop_nth: "subseq (take k xs @ drop (Suc k) xs) xs"
proof -
  have "subseq (take k xs @ drop (Suc k) xs) (take k xs @ drop k xs)"
    by (metis drop_Suc list_emb_append_mono list_emb_Cons subseq_order.refl list.exhaust_sel tl_drop tl_Nil)
  then show ?thesis by simp
qed

lemma subseq_distinct: "subseq xs ys \<Longrightarrow> distinct ys \<Longrightarrow> distinct xs"
  by (induction rule: list_emb.induct) (auto dest: subseq_elem)

section \<open>Options and sums\<close>

definition is_Inr :: "'a + 'b \<Rightarrow> bool" where
  "is_Inr r = (case r of Inl _ \<Rightarrow> False | Inr _ \<Rightarrow> True)"

lemma is_Inr_simps [simp]: "is_Inr (Inl a) = False" "is_Inr (Inr b) = True"
  by (simp_all add: is_Inr_def)

fun bind_sum :: "'e + 'a \<Rightarrow> ('a \<Rightarrow> 'e + 'b) \<Rightarrow> 'e + 'b" where
  "bind_sum (Inl e) f = Inl e"
| "bind_sum (Inr a) f = f a"

section \<open>Rounding as \<open>float64\<close> does it\<close>

fun bit_length :: "nat \<Rightarrow> nat" where
  "bit_length n = (if n = 0 then 0 else Suc (bit_length (n div 2)))"

declare bit_length.simps [simp del]

definition round_half_even :: "int \<Rightarrow> int \<Rightarrow> int" where
  "round_half_even p d =
     (let q = p div d; r = p mod d in
      if 2 * r < d then q else if 2 * r > d then q + 1 else if even q then q else q + 1)"

section \<open>Signed 64-bit arithmetic\<close>

definition wrap64 :: "int \<Rightarrow> int" where
  "wrap64 i = (i + 2 ^ 63) mod 2 ^ 64 - 2 ^ 63"

lemma wrap64_id: "- (2 ^ 63) \<le> i \<Longrightarrow> i < 2 ^ 63 \<Longrightarrow> wrap64 i = i"
  by (simp add: wrap64_def)

end
