(* ===== verification/GoString.thy ===== *)
theory GoString
  imports Prelude
begin

text \<open>
  The functions of Go's \<open>strings\<close> and \<open>strconv\<close> packages that the code calls, on byte strings:
  \<open>HasPrefix\<close>, \<open>TrimSuffix\<close>, \<open>Split\<close> on a newline, \<open>Join\<close>, \<open>TrimSpace\<close> and \<open>Itoa\<close>.
\<close>

section \<open>Prefixes, suffixes, splitting and joining\<close>

definition has_prefix :: "string \<Rightarrow> string \<Rightarrow> bool" where
  "has_prefix p s \<longleftrightarrow> take (length p) s = p"

lemma has_prefix_iff: "has_prefix p s \<longleftrightarrow> (\<exists>t. s = p @ t)"
  by (metis append_eq_conv_conj append_take_drop_id has_prefix_def)

abbreviation NL :: char where "NL \<equiv> CHR 0x0A"

definition trim_suffix_nl :: "string \<Rightarrow> string" where
  "trim_suffix_nl s = (if s \<noteq> [] \<and> last s = NL then butlast s else s)"

fun split_char :: "char \<Rightarrow> string \<Rightarrow> string list" where
  "split_char c [] = [[]]"
| "split_char c (x # xs) =
     (if x = c then [] # split_char c xs
      else (case split_char c xs of [] \<Rightarrow> [[x]] | p # ps \<Rightarrow> (x # p) # ps))"

fun join_with :: "string \<Rightarrow> string list \<Rightarrow> string" where
  "join_with sep [] = []"
| "join_with sep [x] = x"
| "join_with sep (x # y # ys) = x @ sep @ join_with sep (y # ys)"

lemma split_char_nonempty [simp]: "split_char c s \<noteq> []"
  by (induction s) (auto split: list.splits)

lemma join_split [simp]: "join_with [c] (split_char c s) = s"
proof (induction s)
  case (Cons x xs)
  show ?case
  proof (cases "x = c")
    case True
    with Cons show ?thesis by (cases "split_char c xs") auto
  next
    case False
    with Cons show ?thesis
      by (cases "split_char c xs"; cases "tl (split_char c xs)") auto
  qed
qed simp

lemma split_char_inject: "split_char c s = split_char c t \<Longrightarrow> s = t"
  by (metis join_split)

lemma split_char_no_sep: "p \<in> set (split_char c s) \<Longrightarrow> c \<notin> set p"
  by (induction s arbitrary: p) (auto split: list.splits if_splits)

section \<open>Trimming a character, searching and comparing\<close>

definition trim_char :: "char \<Rightarrow> string \<Rightarrow> string" where
  "trim_char c s = rev (dropWhile (\<lambda>x. x = c) (rev (dropWhile (\<lambda>x. x = c) s)))"

definition trim_right :: "char \<Rightarrow> string \<Rightarrow> string" where
  "trim_right c s = rev (dropWhile (\<lambda>x. x = c) (rev s))"

fun contains_str :: "string \<Rightarrow> string \<Rightarrow> bool" where
  "contains_str sub [] = (sub = [])"
| "contains_str sub (c # s) = (has_prefix sub (c # s) \<or> contains_str sub s)"

text \<open>Go compares strings byte by byte.\<close>

fun str_less :: "string \<Rightarrow> string \<Rightarrow> bool" where
  "str_less [] t = (t \<noteq> [])"
| "str_less (a # s) [] = False"
| "str_less (a # s) (b # t) =
     ((of_char a :: nat) < of_char b \<or> (a = b \<and> str_less s t))"

lemma str_less_irrefl [simp]: "\<not> str_less s s"
  by (induction s) auto

lemma str_less_trans: "str_less s t \<Longrightarrow> str_less t u \<Longrightarrow> str_less s u"
proof (induction s t arbitrary: u rule: str_less.induct)
  case (1 t)
  then show ?case by (cases u; cases t) auto
next
  case (3 a s b t)
  then show ?case by (cases u) auto
qed simp

lemma str_less_total: "s \<noteq> t \<Longrightarrow> str_less s t \<or> str_less t s"
proof (induction s t rule: str_less.induct)
  case (3 a s b t)
  have "(of_char a :: nat) = of_char b \<Longrightarrow> a = b" by (metis char_of_char)
  with 3 linorder_less_linear [of "of_char a :: nat" "of_char b"] show ?case by auto
qed auto

section \<open>TrimSpace\<close>

text \<open>
  The UTF-8 encodings of the runes \<open>unicode.IsSpace\<close> accepts. A byte sequence in this list is a
  complete encoding, so stripping it at either end is what \<open>strings.TrimSpace\<close> does, also next to
  bytes that are not valid UTF-8.
\<close>

definition space_seqs :: "string list" where
  "space_seqs =
     [[CHR 0x09], [CHR 0x0A], [CHR 0x0B], [CHR 0x0C], [CHR 0x0D], [CHR 0x20],
      [CHR 0xC2, CHR 0x85], [CHR 0xC2, CHR 0xA0], [CHR 0xE1, CHR 0x9A, CHR 0x80],
      [CHR 0xE2, CHR 0x80, CHR 0x80], [CHR 0xE2, CHR 0x80, CHR 0x81], [CHR 0xE2, CHR 0x80, CHR 0x82],
      [CHR 0xE2, CHR 0x80, CHR 0x83], [CHR 0xE2, CHR 0x80, CHR 0x84], [CHR 0xE2, CHR 0x80, CHR 0x85],
      [CHR 0xE2, CHR 0x80, CHR 0x86], [CHR 0xE2, CHR 0x80, CHR 0x87], [CHR 0xE2, CHR 0x80, CHR 0x88],
      [CHR 0xE2, CHR 0x80, CHR 0x89], [CHR 0xE2, CHR 0x80, CHR 0x8A], [CHR 0xE2, CHR 0x80, CHR 0xA8],
      [CHR 0xE2, CHR 0x80, CHR 0xA9], [CHR 0xE2, CHR 0x80, CHR 0xAF], [CHR 0xE2, CHR 0x81, CHR 0x9F],
      [CHR 0xE3, CHR 0x80, CHR 0x80]]"

function trim_front :: "string list \<Rightarrow> string \<Rightarrow> string" where
  "trim_front seqs s =
     (case find (\<lambda>p. p \<noteq> [] \<and> has_prefix p s) seqs of
        None \<Rightarrow> s
      | Some p \<Rightarrow> trim_front seqs (drop (length p) s))"
  by pat_completeness auto
termination
  by (relation "measure (\<lambda>(seqs, s). length s)")
     (auto simp: find_Some_iff has_prefix_def, metis diff_less length_greater_0_conv take_Nil)

declare trim_front.simps [simp del]

definition trim_space :: "string \<Rightarrow> string" where
  "trim_space s = rev (trim_front (map rev space_seqs) (rev (trim_front space_seqs s)))"

lemma trim_front_suffix: "\<exists>p. s = p @ trim_front seqs s"
proof (induction seqs s rule: trim_front.induct)
  case (1 seqs s)
  show ?case
  proof (cases "find (\<lambda>p. p \<noteq> [] \<and> has_prefix p s) seqs")
    case None
    then show ?thesis by (simp add: trim_front.simps [of seqs s])
  next
    case (Some p)
    from 1 [OF Some] obtain q where "drop (length p) s = q @ trim_front seqs (drop (length p) s)" by blast
    then have "s = (take (length p) s @ q) @ trim_front seqs (drop (length p) s)"
      by (metis append.assoc append_take_drop_id)
    then have "s = (take (length p) s @ q) @ trim_front seqs s"
      using Some by (simp add: trim_front.simps [of seqs s])
    then show ?thesis by blast
  qed
qed

lemma length_trim_front: "length (trim_front seqs s) \<le> length s"
  using trim_front_suffix [of s seqs] by (metis le_add2 length_append)

lemma length_trim_space: "length (trim_space s) \<le> length s"
  unfolding trim_space_def
  by (metis length_rev length_trim_front le_trans)

lemma trim_front_Nil [simp]: "trim_front seqs [] = []"
  using length_trim_front [of seqs "[]"] by simp

lemma trim_space_Nil [simp]: "trim_space [] = []"
  by (simp add: trim_space_def)

lemma trim_front_idle: "find (\<lambda>p. p \<noteq> [] \<and> has_prefix p s) seqs = None \<Longrightarrow> trim_front seqs s = s"
  by (simp add: trim_front.simps [of seqs s])

lemma trim_front_fixed: "find (\<lambda>p. p \<noteq> [] \<and> has_prefix p (trim_front seqs s)) seqs = None"
proof (induction seqs s rule: trim_front.induct)
  case (1 seqs s)
  then show ?case
    by (cases "find (\<lambda>p. p \<noteq> [] \<and> has_prefix p s) seqs") (simp_all add: trim_front.simps [of seqs s])
qed

section \<open>Itoa\<close>

fun nat_digits :: "nat \<Rightarrow> string" where
  "nat_digits n = (if n < 10 then [char_of (48 + n)] else nat_digits (n div 10) @ [char_of (48 + n mod 10)])"

declare nat_digits.simps [simp del]

definition itoa :: "int \<Rightarrow> string" where
  "itoa i = (if i < 0 then CHR ''-'' # nat_digits (nat (- i)) else nat_digits (nat i))"

definition digit_val :: "char \<Rightarrow> nat" where
  "digit_val c = of_char c - 48"

definition read_digits :: "string \<Rightarrow> nat" where
  "read_digits s = foldl (\<lambda>v c. 10 * v + digit_val c) 0 s"

lemma digit_val_digit [simp]: "n < 10 \<Longrightarrow> digit_val (char_of (48 + n)) = n"
  by (simp add: digit_val_def)

lemma read_nat_digits: "read_digits (nat_digits n) = n"
proof (induction n rule: nat_digits.induct)
  case (1 n)
  show ?case
  proof (cases "n < 10")
    case True
    then show ?thesis by (simp add: nat_digits.simps [of n] read_digits_def)
  next
    case False
    with 1 have "read_digits (nat_digits (n div 10)) = n div 10" by simp
    moreover have "10 * (n div 10) + n mod 10 = n" by simp
    ultimately show ?thesis using False
      by (simp add: nat_digits.simps [of n] read_digits_def)
  qed
qed

lemma nat_digits_inject [simp]: "nat_digits m = nat_digits n \<longleftrightarrow> m = n"
  by (metis read_nat_digits)

definition is_digit :: "char \<Rightarrow> bool" where
  "is_digit c \<longleftrightarrow> 48 \<le> (of_char c :: nat) \<and> (of_char c :: nat) < 58"

lemma nat_digits_digits: "c \<in> set (nat_digits n) \<Longrightarrow> is_digit c"
proof (induction n rule: nat_digits.induct)
  case (1 n)
  have "n mod 10 < 10" by simp
  then have "48 + n mod 10 < 256" by arith
  with 1 show ?case
    by (cases "n < 10") (auto simp: nat_digits.simps [of n] is_digit_def)
qed

lemma nat_digits_nonempty [simp]: "nat_digits n \<noteq> []"
  by (simp add: nat_digits.simps [of n])

end
