(* ===== verification/TextDiff.thy ===== *)
theory TextDiff
  imports GoString "HOL-Library.Word"
begin

text \<open>
  The line-based unified-diff engine of \<open>internal/loop/textdiff.go\<close>: splitting into lines, the
  edit script (common prefix and suffix, then a longest-common-subsequence dynamic program or a
  whole replacement), the grouping of an edit script into hunks, and the rendering. The dynamic
  program keeps its \<open>int32\<close> cells as 32-bit words. \<open>HumanSize\<close>, which formats a float, is left out.
\<close>

section \<open>Constants, lines and edit scripts\<close>

definition diffContextLines :: nat where "diffContextLines = 3"
definition diffMaxLines :: nat where "diffMaxLines = 20000"
definition diffMaxCells :: nat where "diffMaxCells = 4000000"

definition splitDiffLines :: "string \<Rightarrow> string list" where
  "splitDiffLines s = (if s = [] then [] else split_char NL (trim_suffix_nl s))"

datatype op_kind = Context | Deleted | Added

fun kind_byte :: "op_kind \<Rightarrow> char" where
  "kind_byte Context = CHR '' ''"
| "kind_byte Deleted = CHR ''-''"
| "kind_byte Added = CHR ''+''"

record diffOp =
  op_kind :: op_kind
  op_text :: string

abbreviation ctx_op :: "string \<Rightarrow> diffOp" where "ctx_op l \<equiv> \<lparr>op_kind = Context, op_text = l\<rparr>"
abbreviation del_op :: "string \<Rightarrow> diffOp" where "del_op l \<equiv> \<lparr>op_kind = Deleted, op_text = l\<rparr>"
abbreviation add_op :: "string \<Rightarrow> diffOp" where "add_op l \<equiv> \<lparr>op_kind = Added, op_text = l\<rparr>"

definition replaceOps :: "string list \<Rightarrow> string list \<Rightarrow> diffOp list" where
  "replaceOps a b = map del_op a @ map add_op b"

subsection \<open>The dynamic program\<close>

type_synonym cell = "32 word"

text \<open>
  One row, computed from the right end as the inner loop does: \<open>nxt\<close> is row \<open>i+1\<close>, and the result
  is row \<open>i\<close>, one cell longer than \<open>b\<close>.
\<close>

fun lcs_row :: "string \<Rightarrow> string list \<Rightarrow> cell list \<Rightarrow> cell list" where
  "lcs_row x [] nxt = [0]"
| "lcs_row x (y # ys) nxt =
     (let r = lcs_row x ys (tl nxt) in
      (if x = y then nxt ! 1 + 1
       else if hd r \<le>s nxt ! 0 then nxt ! 0
       else hd r) # r)"

fun lcs_table :: "string list \<Rightarrow> string list \<Rightarrow> cell list list" where
  "lcs_table [] b = [replicate (Suc (length b)) 0]"
| "lcs_table (x # xs) b = (let t = lcs_table xs b in lcs_row x b (hd t) # t)"

text \<open>The walk from the top left corner, and the two loops that drain the leftover lines.\<close>

function lcs_walk :: "string list \<Rightarrow> string list \<Rightarrow> cell list list \<Rightarrow> nat \<Rightarrow> nat \<Rightarrow> diffOp list" where
  "lcs_walk a b dp i j =
     (if i < length a \<and> j < length b then
        (if a ! i = b ! j then ctx_op (a ! i) # lcs_walk a b dp (Suc i) (Suc j)
         else if dp ! i ! Suc j \<le>s dp ! Suc i ! j then del_op (a ! i) # lcs_walk a b dp (Suc i) j
         else add_op (b ! j) # lcs_walk a b dp i (Suc j))
      else map del_op (drop i a) @ map add_op (drop j b))"
  by pat_completeness auto
termination
  by (relation "measure (\<lambda>(a, b, dp, i, j). (length a - i) + (length b - j))") auto

declare lcs_walk.simps [simp del]

definition lcsOps :: "string list \<Rightarrow> string list \<Rightarrow> diffOp list" where
  "lcsOps a b =
     (if length a = 0 \<or> length b = 0 then replaceOps a b
      else lcs_walk a b (lcs_table a b) 0 0)"

subsection \<open>The edit script\<close>

function common_prefix :: "string list \<Rightarrow> string list \<Rightarrow> nat \<Rightarrow> nat" where
  "common_prefix a b p =
     (if p < length a \<and> p < length b \<and> a ! p = b ! p then common_prefix a b (Suc p) else p)"
  by pat_completeness auto
termination
  by (relation "measure (\<lambda>(a, b, p). length a - p)") auto

function common_suffix :: "string list \<Rightarrow> string list \<Rightarrow> nat \<Rightarrow> nat \<Rightarrow> nat" where
  "common_suffix a b p s =
     (if s < length a - p \<and> s < length b - p \<and> a ! (length a - 1 - s) = b ! (length b - 1 - s)
      then common_suffix a b p (Suc s) else s)"
  by pat_completeness auto
termination
  by (relation "measure (\<lambda>(a, b, p, s). length a - p - s)") auto

declare common_prefix.simps [simp del] common_suffix.simps [simp del]

definition diffOps :: "string list \<Rightarrow> string list \<Rightarrow> diffOp list" where
  "diffOps a b =
     (let p = common_prefix a b 0;
          s = common_suffix a b p 0;
          ma = drop p (take (length a - s) a);
          mb = drop p (take (length b - s) b);
          middle = (if length ma * length mb > diffMaxCells then replaceOps ma mb else lcsOps ma mb)
      in map ctx_op (take p a) @ middle @ map ctx_op (drop (length a - s) a))"

section \<open>Hunks\<close>

record hunk =
  old_start :: nat
  old_count :: nat
  new_start :: nat
  new_count :: nat
  hunk_ops :: "diffOp list"

definition is_change :: "diffOp \<Rightarrow> bool" where "is_change op \<longleftrightarrow> op_kind op \<noteq> Context"
definition in_old :: "diffOp \<Rightarrow> bool" where "in_old op \<longleftrightarrow> op_kind op \<noteq> Added"
definition in_new :: "diffOp \<Rightarrow> bool" where "in_new op \<longleftrightarrow> op_kind op \<noteq> Deleted"

definition change_indices :: "diffOp list \<Rightarrow> nat list" where
  "change_indices ops = filter (\<lambda>i. is_change (ops ! i)) [0..<length ops]"

definition oldAt :: "diffOp list \<Rightarrow> nat \<Rightarrow> nat" where
  "oldAt ops i = length (filter in_old (take i ops))"

definition newAt :: "diffOp list \<Rightarrow> nat \<Rightarrow> nat" where
  "newAt ops i = length (filter in_new (take i ops))"

text \<open>The inner loop: the last change of the hunk that starts at \<open>c\<close>, and the changes left over.\<close>

fun extend_hunk :: "nat \<Rightarrow> nat list \<Rightarrow> nat \<times> nat list" where
  "extend_hunk c [] = (c, [])"
| "extend_hunk c (d # ds) =
     (if d - c \<le> 2 * diffContextLines then extend_hunk d ds else (c, d # ds))"

lemma length_extend_hunk: "length (snd (extend_hunk c cs)) \<le> length cs"
  by (induction c cs rule: extend_hunk.induct) auto

function hunk_ranges :: "nat \<Rightarrow> nat list \<Rightarrow> (nat \<times> nat) list" where
  "hunk_ranges n [] = []"
| "hunk_ranges n (c # cs) =
     (let (e, rest) = extend_hunk c cs
      in (c - diffContextLines, min (e + diffContextLines + 1) n) # hunk_ranges n rest)"
  by pat_completeness auto
termination
  by (relation "measure (\<lambda>(n, cs). length cs)")
     (auto, metis le_imp_less_Suc length_extend_hunk snd_conv)

definition make_hunk :: "diffOp list \<Rightarrow> nat \<times> nat \<Rightarrow> hunk" where
  "make_hunk ops r =
     (let start = fst r; stop = snd r;
          oldCount = oldAt ops stop - oldAt ops start;
          newCount = newAt ops stop - newAt ops start
      in \<lparr>old_start = (if oldCount = 0 then oldAt ops start else oldAt ops start + 1),
          old_count = oldCount,
          new_start = (if newCount = 0 then newAt ops start else newAt ops start + 1),
          new_count = newCount,
          hunk_ops = drop start (take stop ops)\<rparr>)"

definition hunks :: "diffOp list \<Rightarrow> hunk list" where
  "hunks ops = map (make_hunk ops) (hunk_ranges (length ops) (change_indices ops))"

definition render_op :: "diffOp \<Rightarrow> string" where
  "render_op op = kind_byte (op_kind op) # op_text op @ [NL]"

definition render_hunk :: "hunk \<Rightarrow> string" where
  "render_hunk h =
     ''@@ -'' @ nat_digits (old_start h) @ '','' @ nat_digits (old_count h)
     @ '' +'' @ nat_digits (new_start h) @ '','' @ nat_digits (new_count h) @ '' @@'' @ [NL]
     @ concat (map render_op (hunk_ops h))"

definition renderHunks :: "diffOp list \<Rightarrow> string" where
  "renderHunks ops =
     (if ops = [] \<or> change_indices ops = [] then []
      else trim_suffix_nl (concat (map render_hunk (hunks ops))))"

section \<open>The exported operations\<close>

definition unifiedDiff :: "string \<Rightarrow> string \<Rightarrow> string \<Rightarrow> string \<Rightarrow> string" where
  "unifiedDiff fromLabel toLabel oldText newText =
     (if oldText = newText then []
      else
        let a = splitDiffLines oldText;
            b = splitDiffLines newText;
            header = ''--- '' @ fromLabel @ [NL] @ ''+++ '' @ toLabel @ [NL]
        in if length a > diffMaxLines \<or> length b > diffMaxLines then
             header @ ''(diff too large for a line diff: '' @ nat_digits (length a) @ '' -> ''
               @ nat_digits (length b) @ '' lines; showing a whole-file replacement)'' @ [NL]
               @ renderHunks (replaceOps a b)
           else
             (let body = renderHunks (diffOps a b)
              in if body = [] then [] else header @ body))"

definition CountLineChanges :: "string \<Rightarrow> string \<Rightarrow> nat \<times> nat" where
  "CountLineChanges before after =
     (let ops = diffOps (splitDiffLines before) (splitDiffLines after)
      in (length (filter (\<lambda>op. op_kind op = Added) ops), length (filter (\<lambda>op. op_kind op = Deleted) ops)))"

definition CountLines :: "string \<Rightarrow> nat" where
  "CountLines s = length (splitDiffLines s)"

definition Plural :: "int \<Rightarrow> string \<Rightarrow> string \<Rightarrow> string" where
  "Plural n one many = (if n = 1 then ''1 '' @ one else itoa n @ '' '' @ many)"


section \<open>The edit script turns one text into the other\<close>

definition old_side :: "diffOp list \<Rightarrow> string list" where
  "old_side ops = map op_text (filter in_old ops)"

definition new_side :: "diffOp list \<Rightarrow> string list" where
  "new_side ops = map op_text (filter in_new ops)"

definition kept :: "diffOp list \<Rightarrow> string list" where
  "kept ops = map op_text (filter (\<lambda>op. op_kind op = Context) ops)"

lemma sides_Nil [simp]: "old_side [] = []" "new_side [] = []" "kept [] = []"
  by (simp_all add: old_side_def new_side_def kept_def)

lemma sides_append [simp]:
  "old_side (xs @ ys) = old_side xs @ old_side ys"
  "new_side (xs @ ys) = new_side xs @ new_side ys"
  "kept (xs @ ys) = kept xs @ kept ys"
  by (simp_all add: old_side_def new_side_def kept_def)

lemma sides_Cons [simp]:
  "old_side (op # ops) = (if in_old op then [op_text op] else []) @ old_side ops"
  "new_side (op # ops) = (if in_new op then [op_text op] else []) @ new_side ops"
  "kept (op # ops) = (if op_kind op = Context then [op_text op] else []) @ kept ops"
  by (simp_all add: old_side_def new_side_def kept_def)

lemma in_side_simps [simp]:
  "in_old (ctx_op l)" "in_old (del_op l)" "\<not> in_old (add_op l)"
  "in_new (ctx_op l)" "\<not> in_new (del_op l)" "in_new (add_op l)"
  by (simp_all add: in_old_def in_new_def)

lemma sides_map [simp]:
  "old_side (map ctx_op ls) = ls" "old_side (map del_op ls) = ls" "old_side (map add_op ls) = []"
  "new_side (map ctx_op ls) = ls" "new_side (map del_op ls) = []" "new_side (map add_op ls) = ls"
  "kept (map ctx_op ls) = ls" "kept (map del_op ls) = []" "kept (map add_op ls) = []"
  by (induction ls) simp_all

lemma length_sides:
  "length (old_side ops) = length (filter in_old ops)"
  "length (new_side ops) = length (filter in_new ops)"
  by (simp_all add: old_side_def new_side_def)

lemma replaceOps_sides [simp]:
  "old_side (replaceOps a b) = a" "new_side (replaceOps a b) = b" "kept (replaceOps a b) = []"
  by (simp_all add: replaceOps_def)

lemma lcs_walk_sides:
  "i \<le> length a \<Longrightarrow> j \<le> length b \<Longrightarrow>
   old_side (lcs_walk a b dp i j) = drop i a \<and> new_side (lcs_walk a b dp i j) = drop j b"
proof (induction a b dp i j rule: lcs_walk.induct)
  case (1 a b dp i j)
  then show ?case
    by (subst (1 2) lcs_walk.simps) (auto simp: nth_drop_Cons [of i a] nth_drop_Cons [of j b])
qed

lemma lcsOps_sides: "old_side (lcsOps a b) = a" "new_side (lcsOps a b) = b"
  using lcs_walk_sides [of 0 a 0 b "lcs_table a b"] by (auto simp: lcsOps_def)

lemma common_prefix_spec:
  "take p a = take p b \<Longrightarrow> p \<le> length a \<Longrightarrow> p \<le> length b \<Longrightarrow>
   take (common_prefix a b p) a = take (common_prefix a b p) b
   \<and> common_prefix a b p \<le> length a \<and> common_prefix a b p \<le> length b"
proof (induction a b p rule: common_prefix.induct)
  case (1 a b p)
  then show ?case
    by (subst (1 2 3 4) common_prefix.simps) (auto simp: take_Suc_conv_app_nth)
qed

lemma common_suffix_spec:
  "drop (length a - s) a = drop (length b - s) b \<Longrightarrow> s \<le> length a - p \<Longrightarrow> s \<le> length b - p \<Longrightarrow>
   drop (length a - common_suffix a b p s) a = drop (length b - common_suffix a b p s) b
   \<and> common_suffix a b p s \<le> length a - p \<and> common_suffix a b p s \<le> length b - p"
proof (induction a b p s rule: common_suffix.induct)
  case (1 a b p s)
  let ?go = "s < length a - p \<and> s < length b - p \<and> a ! (length a - 1 - s) = b ! (length b - 1 - s)"
  show ?case
  proof (cases ?go)
    case True
    then have "drop (length a - Suc s) a = a ! (length a - 1 - s) # drop (length a - s) a"
      by (metis Cons_nth_drop_Suc Suc_diff_Suc diff_Suc_1 diff_Suc_eq_diff_pred diff_less
            less_le_trans diff_le_self zero_less_Suc length_greater_0_conv list.size(3) not_less_zero)
    moreover from True have "drop (length b - Suc s) b = b ! (length b - 1 - s) # drop (length b - s) b"
      by (metis Cons_nth_drop_Suc Suc_diff_Suc diff_Suc_1 diff_Suc_eq_diff_pred diff_less
            less_le_trans diff_le_self zero_less_Suc length_greater_0_conv list.size(3) not_less_zero)
    ultimately have "drop (length a - Suc s) a = drop (length b - Suc s) b"
      using True 1 by simp
    with True 1 show ?thesis
      by (simp add: common_suffix.simps [of a b p s])
  next
    case False
    with 1 show ?thesis by (auto simp: common_suffix.simps [of a b p s])
  qed
qed

text \<open>The cut of both texts into the common prefix, the middles and the common suffix.\<close>

lemma diffOps_cut:
  fixes a b :: "string list"
  defines "p \<equiv> common_prefix a b 0"
  defines "s \<equiv> common_suffix a b p 0"
  defines "pre \<equiv> take p a" and "suf \<equiv> drop (length a - s) a"
  defines "ma \<equiv> drop p (take (length a - s) a)" and "mb \<equiv> drop p (take (length b - s) b)"
  shows "a = pre @ ma @ suf" and "b = pre @ mb @ suf"
    and "diffOps a b = map ctx_op pre
           @ (if length ma * length mb > diffMaxCells then replaceOps ma mb else lcsOps ma mb)
           @ map ctx_op suf"
proof -
  have p: "take p a = take p b" "p \<le> length a" "p \<le> length b"
    using common_prefix_spec [of 0 a b] by (simp_all add: p_def)
  have s: "suf = drop (length b - s) b" "s \<le> length a - p" "s \<le> length b - p"
    using common_suffix_spec [of a 0 b p] by (simp_all add: s_def suf_def)
  have "p \<le> length a - s" "p \<le> length b - s" using p s by auto
  then show "a = pre @ ma @ suf" "b = pre @ mb @ suf"
    unfolding pre_def ma_def mb_def
    by (simp_all add: suf_def take_mid_drop) (simp add: p(1) s(1) [unfolded suf_def] take_mid_drop)
  show "diffOps a b = map ctx_op pre
           @ (if length ma * length mb > diffMaxCells then replaceOps ma mb else lcsOps ma mb)
           @ map ctx_op suf"
    by (simp add: diffOps_def Let_def p_def s_def pre_def suf_def ma_def mb_def)
qed

lemma diffOps_sides: "old_side (diffOps a b) = a" "new_side (diffOps a b) = b"
proof -
  note cut = diffOps_cut [where a = a and b = b]
  show "old_side (diffOps a b) = a"
    by (rule trans [OF _ cut(1) [symmetric]]) (simp add: cut(3) lcsOps_sides)
  show "new_side (diffOps a b) = b"
    by (rule trans [OF _ cut(2) [symmetric]]) (simp add: cut(3) lcsOps_sides)
qed


section \<open>The dynamic program is optimal and its cells do not overflow\<close>

text \<open>The specification: the length of a longest common subsequence, by recursion on both texts.\<close>

fun lcs_len :: "'a list \<Rightarrow> 'a list \<Rightarrow> nat" where
  "lcs_len [] ys = 0"
| "lcs_len xs [] = 0"
| "lcs_len (x # xs) (y # ys) =
     (if x = y then Suc (lcs_len xs ys) else max (lcs_len xs (y # ys)) (lcs_len (x # xs) ys))"

lemma lcs_len_Nil2 [simp]: "lcs_len xs [] = 0"
  by (cases xs) simp_all

lemma lcs_len_le: "lcs_len xs ys \<le> length xs" "lcs_len xs ys \<le> length ys"
  by (induction xs ys rule: lcs_len.induct) auto

lemma lcs_len_upper: "subseq zs xs \<Longrightarrow> subseq zs ys \<Longrightarrow> length zs \<le> lcs_len xs ys"
proof (induction xs ys arbitrary: zs rule: lcs_len.induct)
  case (3 x xs y ys)
  show ?case
  proof (cases zs)
    case (Cons z zs')
    consider "x = y" "z = x" | "x = y" "z \<noteq> x" | "x \<noteq> y" "z \<noteq> x" | "x \<noteq> y" "z \<noteq> y"
      by blast
    then show ?thesis
    proof cases
      case 1
      with 3 Cons show ?thesis by simp
    next
      case 2
      with "3.prems" Cons have "subseq zs xs" "subseq zs ys" by simp_all
      with "3.IH"(1) 2 show ?thesis by (simp add: le_SucI)
    next
      case 3
      with "3.prems" Cons have "subseq zs xs" by simp
      with "3.IH"(2) "3.prems"(2) 3 show ?thesis by (simp add: le_max_iff_disj)
    next
      case 4
      with "3.prems" Cons have "subseq zs ys" by simp
      with "3.IH"(3) "3.prems"(1) 4 show ?thesis by (simp add: le_max_iff_disj)
    qed
  qed simp
qed simp_all

fun dp_row :: "string list \<Rightarrow> string list \<Rightarrow> cell list" where
  "dp_row xs [] = [0]"
| "dp_row xs (y # ys) = of_nat (lcs_len xs (y # ys)) # dp_row xs ys"

lemma hd_dp_row [simp]: "hd (dp_row xs ys) = of_nat (lcs_len xs ys)"
  by (cases ys) simp_all

lemma dp_row_nth0 [simp]: "dp_row xs ys ! 0 = of_nat (lcs_len xs ys)"
  by (cases ys) simp_all

lemma dp_row_nth: "j \<le> length ys \<Longrightarrow> dp_row xs ys ! j = of_nat (lcs_len xs (drop j ys))"
  by (induction ys arbitrary: j) (auto simp: nth_Cons split: nat.splits)

lemma dp_row_Nil: "dp_row [] ys = replicate (Suc (length ys)) 0"
  by (induction ys) simp_all

text \<open>Signed comparison of cells is comparison of the counts, while these stay below \<open>2 ^ 31\<close>.\<close>

lemma cell_le_iff:
  assumes "m < 2 ^ 31" "n < 2 ^ 31"
  shows "(of_nat m :: cell) \<le>s of_nat n \<longleftrightarrow> m \<le> n"
proof -
  have "sint (of_nat k :: cell) = int k" if "k < 2 ^ 31" for k
    using that by (simp add: signed_of_nat signed_take_bit_int_eq_self)
  with assms show ?thesis by (simp add: word_sle_eq)
qed

lemma lcs_row_dp:
  assumes "length (x # xs) < 2 ^ 31 \<or> length b < 2 ^ 31"
  shows "lcs_row x b (dp_row xs b) = dp_row (x # xs) b"
  using assms
proof (induction b)
  case (Cons y ys)
  have small: "lcs_len xs (y # ys) < 2 ^ 31" "lcs_len (x # xs) ys < 2 ^ 31"
    using Cons.prems lcs_len_le [of xs "y # ys"] lcs_len_le [of "x # xs" ys] by auto
  have IH: "lcs_row x ys (dp_row xs ys) = dp_row (x # xs) ys"
    using Cons by auto
  show ?case
    using cell_le_iff [OF small(2) small(1)] by (auto simp: IH Let_def max_def)
qed simp

lemma lcs_table_dp:
  assumes "length a < 2 ^ 31 \<or> length b < 2 ^ 31"
  shows "lcs_table a b = map (\<lambda>i. dp_row (drop i a) b) [0..<Suc (length a)]"
  using assms
proof (induction a)
  case Nil
  then show ?case by (simp add: dp_row_Nil)
next
  case (Cons x xs)
  then have IH: "lcs_table xs b = map (\<lambda>i. dp_row (drop i xs) b) [0..<Suc (length xs)]" by auto
  then have "hd (lcs_table xs b) = dp_row xs b" by (simp add: upt_conv_Cons del: upt_Suc)
  with Cons.prems have "lcs_table (x # xs) b = dp_row (x # xs) b # lcs_table xs b"
    by (simp only: lcs_table.simps Let_def lcs_row_dp)
  then show ?case
    by (simp only: IH) (simp add: map_upt_Suc del: upt_Suc)
qed

lemma lcs_walk_kept:
  "dp = lcs_table a b \<Longrightarrow> length a < 2 ^ 31 \<or> length b < 2 ^ 31 \<Longrightarrow> i \<le> length a \<Longrightarrow> j \<le> length b \<Longrightarrow>
   length (kept (lcs_walk a b dp i j)) = lcs_len (drop i a) (drop j b)"
proof (induction a b dp i j rule: lcs_walk.induct)
  case (1 a b dp i j)
  show ?case
  proof (cases "i < length a \<and> j < length b")
    case True
    have cells: "dp ! i ! Suc j = of_nat (lcs_len (drop i a) (drop (Suc j) b))"
      "dp ! Suc i ! j = of_nat (lcs_len (drop (Suc i) a) (drop j b))"
      using True "1.prems" by (simp_all add: lcs_table_dp dp_row_nth del: upt_Suc)
    have small: "lcs_len (drop i a) (drop (Suc j) b) < 2 ^ 31" "lcs_len (drop (Suc i) a) (drop j b) < 2 ^ 31"
      using "1.prems"(2) lcs_len_le [of "drop i a" "drop (Suc j) b"]
        lcs_len_le [of "drop (Suc i) a" "drop j b"] by auto
    have le: "dp ! i ! Suc j \<le>s dp ! Suc i ! j
        \<longleftrightarrow> lcs_len (drop i a) (drop (Suc j) b) \<le> lcs_len (drop (Suc i) a) (drop j b)"
      unfolding cells by (rule cell_le_iff [OF small])
    have heads: "drop i a = a ! i # drop (Suc i) a" "drop j b = b ! j # drop (Suc j) b"
      using True by (simp_all add: nth_drop_Cons)
    show ?thesis
    proof (cases "a ! i = b ! j")
      case True
      with 1 \<open>i < length a \<and> j < length b\<close> show ?thesis
        by (simp add: lcs_walk.simps [of a b "lcs_table a b" i j] heads)
    next
      case False
      have "lcs_len (drop i a) (drop j b)
          = max (lcs_len (drop (Suc i) a) (drop j b)) (lcs_len (drop i a) (drop (Suc j) b))"
        using False by (simp add: heads)
      moreover have "length (kept (lcs_walk a b dp i j))
          = (if dp ! i ! Suc j \<le>s dp ! Suc i ! j then lcs_len (drop (Suc i) a) (drop j b)
             else lcs_len (drop i a) (drop (Suc j) b))"
        using 1 True False by (simp add: lcs_walk.simps [of a b "lcs_table a b" i j])
      ultimately show ?thesis by (simp add: le max_def)
    qed
  next
    case False
    then have "lcs_walk a b dp i j = map del_op (drop i a) @ map add_op (drop j b)"
      by (subst lcs_walk.simps) (simp only: if_False)
    with False "1.prems" show ?thesis by auto
  qed
qed

lemma lcsOps_kept:
  "length a < 2 ^ 31 \<or> length b < 2 ^ 31 \<Longrightarrow> length (kept (lcsOps a b)) = lcs_len a b"
  by (auto simp: lcsOps_def lcs_walk_kept)

lemma kept_subseq: "subseq (kept ops) (old_side ops)" "subseq (kept ops) (new_side ops)"
  by (induction ops) (auto simp: in_old_def in_new_def intro: list_emb.intros)

text \<open>The longest common subsequence is attained, and cutting equal ends keeps it.\<close>

lemma lcs_len_attained: "\<exists>zs. subseq zs xs \<and> subseq zs ys \<and> length zs = lcs_len xs ys"
proof (induction xs ys rule: lcs_len.induct)
  case (3 x xs y ys)
  show ?case
  proof (cases "x = y")
    case True
    with "3.IH"(1) obtain zs where "subseq zs xs" "subseq zs ys" "length zs = lcs_len xs ys" by blast
    with True have "subseq (x # zs) (x # xs)" "subseq (x # zs) (y # ys)"
      "length (x # zs) = lcs_len (x # xs) (y # ys)" by simp_all
    then show ?thesis by blast
  next
    case False
    with "3.IH"(2,3) obtain us vs
      where "subseq us xs" "subseq us (y # ys)" "length us = lcs_len xs (y # ys)"
        and "subseq vs (x # xs)" "subseq vs ys" "length vs = lcs_len (x # xs) ys" by blast
    with False show ?thesis
      by (cases "lcs_len (x # xs) ys \<le> lcs_len xs (y # ys)") (auto simp: max_def intro: list_emb_Cons)
  qed
qed auto

lemma lcs_len_append_left: "lcs_len (p @ xs) (p @ ys) = length p + lcs_len xs ys"
  by (induction p) simp_all

lemma subseq_rev_mono: "subseq xs ys \<Longrightarrow> subseq (rev xs) (rev ys)"
proof (induction rule: list_emb.induct)
  case (list_emb_Cons xs ys y)
  then show ?case by (simp add: subseq_rev_drop_many)
next
  case (list_emb_Cons2 x y xs ys)
  then show ?case by (auto intro: list_emb_append_mono)
qed simp

lemma lcs_len_rev: "lcs_len (rev xs) (rev ys) = lcs_len xs ys"
proof (rule antisym)
  have le: "lcs_len (rev us) (rev vs) \<le> lcs_len us vs" for us vs :: "'a list"
  proof -
    obtain zs where "subseq zs (rev us)" "subseq zs (rev vs)" "length zs = lcs_len (rev us) (rev vs)"
      using lcs_len_attained by blast
    then show ?thesis
      using lcs_len_upper [of "rev zs" us vs] by (metis length_rev rev_rev_ident subseq_rev_mono)
  qed
  show "lcs_len (rev xs) (rev ys) \<le> lcs_len xs ys" by (rule le)
  show "lcs_len xs ys \<le> lcs_len (rev xs) (rev ys)" using le [of "rev xs" "rev ys"] by simp
qed

lemma lcs_len_append_right: "lcs_len (xs @ q) (ys @ q) = lcs_len xs ys + length q"
  using lcs_len_rev [of "xs @ q" "ys @ q"] by (simp add: lcs_len_append_left lcs_len_rev)

lemma product_small: "m * n \<le> diffMaxCells \<Longrightarrow> (m::nat) < 2 ^ 31 \<or> n < 2 ^ 31"
proof (rule ccontr)
  assume "m * n \<le> diffMaxCells" "\<not> (m < 2 ^ 31 \<or> n < 2 ^ 31)"
  then have "2 ^ 31 * 2 ^ 31 \<le> m * n" by (intro mult_le_mono) auto
  with \<open>m * n \<le> diffMaxCells\<close> show False by (simp add: diffMaxCells_def)
qed

lemma diffOps_kept:
  assumes "length a * length b \<le> diffMaxCells"
  shows "length (kept (diffOps a b)) = lcs_len a b"
proof -
  define p where "p = common_prefix a b 0"
  define s where "s = common_suffix a b p 0"
  define pre suf ma mb where parts: "pre = take p a" "suf = drop (length a - s) a"
    "ma = drop p (take (length a - s) a)" "mb = drop p (take (length b - s) b)"
  note cut = diffOps_cut [where a = a and b = b, folded p_def, folded s_def, folded parts]
  have "length ma \<le> length a" "length mb \<le> length b" by (subst cut cut(2), simp)+
  with assms have fits: "length ma * length mb \<le> diffMaxCells"
    by (meson le_trans mult_le_mono)
  then have "length (kept (diffOps a b)) = length pre + lcs_len ma mb + length suf"
    by (simp add: cut(3) lcsOps_kept [OF product_small [OF fits]])
  also have "\<dots> = lcs_len (pre @ ma @ suf) (pre @ mb @ suf)"
    by (simp add: lcs_len_append_left lcs_len_append_right flip: append_assoc)
  finally show ?thesis using cut(1,2) by simp
qed


section \<open>The hunks are a patch\<close>

text \<open>
  What a reader of the unified diff does: copy the old lines up to the start the header names,
  check that the hunk's old side is there, put its new side in its place, and go on. With an
  \<open>old_count\<close> of zero the header's start is the line before.
\<close>

primrec apply_hunks :: "hunk list \<Rightarrow> nat \<Rightarrow> string list \<Rightarrow> string list option" where
  "apply_hunks [] pos old = Some old"
| "apply_hunks (h # hs) pos old =
     (let skip = (if old_count h = 0 then old_start h else old_start h - 1) - pos;
          here = take (old_count h) (drop skip old)
      in if here = old_side (hunk_ops h) \<and> length (new_side (hunk_ops h)) = new_count h
         then map_option (\<lambda>r. take skip old @ new_side (hunk_ops h) @ r)
                (apply_hunks hs (pos + skip + old_count h) (drop (skip + old_count h) old))
         else None)"

text \<open>Ranges that lie in order from \<open>p\<close> on and leave only context lines outside.\<close>

fun ranges_ok :: "diffOp list \<Rightarrow> nat \<Rightarrow> (nat \<times> nat) list \<Rightarrow> bool" where
  "ranges_ok ops p [] \<longleftrightarrow> p \<le> length ops \<and> (\<forall>i. p \<le> i \<and> i < length ops \<longrightarrow> \<not> is_change (ops ! i))"
| "ranges_ok ops p ((s, e) # rs) \<longleftrightarrow>
     p \<le> s \<and> s \<le> e \<and> e \<le> length ops \<and> (\<forall>i. p \<le> i \<and> i < s \<longrightarrow> \<not> is_change (ops ! i))
     \<and> ranges_ok ops e rs"

lemma all_context_sides:
  "\<forall>op\<in>set ops. \<not> is_change op \<Longrightarrow> new_side ops = old_side ops \<and> length (old_side ops) = length ops"
  by (induction ops) (auto simp: is_change_def in_old_def in_new_def)

lemma oldAt_split: "i \<le> j \<Longrightarrow> oldAt ops j = oldAt ops i + length (old_side (drop i (take j ops)))"
  by (simp add: oldAt_def length_sides filter_take_drop_mid [of i j] drop_take)

lemma newAt_split: "i \<le> j \<Longrightarrow> newAt ops j = newAt ops i + length (new_side (drop i (take j ops)))"
  by (simp add: newAt_def length_sides filter_take_drop_mid [of i j] drop_take)

lemma slice_set:
  assumes "op \<in> set (drop i (take j ops))"
  obtains k where "i \<le> k" "k < j" "k < length ops" "op = ops ! k"
proof -
  obtain m where m: "m < length (drop i (take j ops))" "op = drop i (take j ops) ! m"
    using assms by (metis in_set_conv_nth)
  then show ?thesis using that [of "i + m"] by simp
qed

lemma slices_append: "i \<le> j \<Longrightarrow> drop i ops = drop i (take j ops) @ drop j ops"
  using append_take_drop_id [of "j - i" "drop i ops"] by (simp add: drop_take)

lemma apply_hunks_step:
  assumes "(if old_count h = 0 then old_start h else old_start h - 1) = pos + length gap"
    and "old_count h = length (old_side (hunk_ops h))" "new_count h = length (new_side (hunk_ops h))"
    and "apply_hunks hs (pos + length gap + old_count h) rest = Some r"
  shows "apply_hunks (h # hs) pos (gap @ old_side (hunk_ops h) @ rest)
    = Some (gap @ new_side (hunk_ops h) @ r)"
proof -
  have "(if old_count h = 0 then old_start h else old_start h - 1) - pos = length gap"
    unfolding assms(1) by simp
  with assms(2-4) show ?thesis by (simp only: apply_hunks.simps Let_def) simp
qed

lemma apply_hunks_ranges:
  "ranges_ok ops p rs \<Longrightarrow>
   apply_hunks (map (make_hunk ops) rs) (oldAt ops p) (old_side (drop p ops)) = Some (new_side (drop p ops))"
proof (induction rs arbitrary: p)
  case Nil
  then have "\<forall>op\<in>set (drop p ops). \<not> is_change op"
    using slice_set [of _ p "length ops" ops] by (auto elim!: slice_set [of _ p "length ops" ops, simplified])
  from all_context_sides [OF this] show ?case by simp
next
  case (Cons r rs)
  obtain s e where r: "r = (s, e)" by (cases r)
  define gap body rest where parts: "gap = drop p (take s ops)" "body = drop s (take e ops)" "rest = drop e ops"
  from Cons.prems r have ok: "p \<le> s" "s \<le> e" "e \<le> length ops" "ranges_ok ops e rs"
    and quiet: "\<And>i. p \<le> i \<Longrightarrow> i < s \<Longrightarrow> \<not> is_change (ops ! i)" by auto
  have whole: "drop p ops = gap @ body @ rest"
    using slices_append [OF ok(1), of ops] slices_append [OF ok(2), of ops] by (simp add: parts)
  have "\<not> is_change op" if mem: "op \<in> set gap" for op
  proof -
    obtain k where "p \<le> k" "k < s" "op = ops ! k"
      by (rule slice_set [OF mem [unfolded parts]])
    with quiet show ?thesis by simp
  qed
  then have gap: "new_side gap = old_side gap" by (simp add: all_context_sides)
  have at_s: "oldAt ops s = oldAt ops p + length (old_side gap)"
    and at_e: "oldAt ops e = oldAt ops s + length (old_side body)"
    and new_e: "newAt ops e = newAt ops s + length (new_side body)"
    unfolding parts using ok by (simp_all add: oldAt_split newAt_split)
  let ?h = "make_hunk ops r"
  have h: "hunk_ops ?h = body" "old_count ?h = length (old_side body)" "new_count ?h = length (new_side body)"
    "(if old_count ?h = 0 then old_start ?h else old_start ?h - 1) = oldAt ops s"
    by (simp_all add: make_hunk_def r at_e new_e Let_def parts)
  have "apply_hunks (map (make_hunk ops) rs) (oldAt ops e) (old_side rest) = Some (new_side rest)"
    using Cons.IH [OF ok(4)] by (simp add: parts)
  then have "apply_hunks (?h # map (make_hunk ops) rs) (oldAt ops p)
      (old_side gap @ old_side (hunk_ops ?h) @ old_side rest)
    = Some (old_side gap @ new_side (hunk_ops ?h) @ new_side rest)"
    by (intro apply_hunks_step h(4) [unfolded at_s]) (simp_all add: h(1-3) at_e at_s add.assoc)
  then show ?case by (simp add: whole h(1) gap)
qed

lemma extend_hunk_spec:
  assumes "extend_hunk c cs = (e, rest)" "sorted (c # cs)"
  shows "\<exists>mid. c # cs = mid @ rest \<and> e \<in> set mid \<and> (\<forall>x\<in>set mid. x \<le> e) \<and> c \<le> e
    \<and> (rest = [] \<or> e + 2 * diffContextLines < hd rest)"
  using assms
proof (induction c cs rule: extend_hunk.induct)
  case (2 c d ds)
  show ?case
  proof (cases "d - c \<le> 2 * diffContextLines")
    case True
    with 2 obtain mid where mid: "d # ds = mid @ rest" "e \<in> set mid" "\<forall>x\<in>set mid. x \<le> e" "d \<le> e"
      "rest = [] \<or> e + 2 * diffContextLines < hd rest" by auto
    have "c # d # ds = (c # mid) @ rest" using mid(1) by simp
    moreover have "\<forall>x\<in>set (c # mid). x \<le> e" using mid 2(3) by auto
    moreover have "e \<in> set (c # mid)" using mid(2) by simp
    moreover have "c \<le> e" using calculation(2) by simp
    ultimately show ?thesis using mid(5) by blast
  next
    case False
    with 2 show ?thesis by (intro exI [of _ "[c]"]) auto
  qed
qed auto

lemma hunk_ranges_ok:
  "sorted cs \<Longrightarrow> p \<le> length ops \<Longrightarrow> (cs \<noteq> [] \<Longrightarrow> p \<le> hd cs - diffContextLines) \<Longrightarrow>
   (\<And>i. p \<le> i \<Longrightarrow> i < length ops \<Longrightarrow> is_change (ops ! i) \<Longrightarrow> i \<in> set cs) \<Longrightarrow> (\<forall>c\<in>set cs. c < length ops) \<Longrightarrow>
   ranges_ok ops p (hunk_ranges (length ops) cs)"
proof (induction "length ops" cs arbitrary: p rule: hunk_ranges.induct)
  case 1
  then show ?case by auto
next
  case (2 c cs)
  obtain e rest where ext: "extend_hunk c cs = (e, rest)" by fastforce
  obtain mid where mid: "c # cs = mid @ rest" "e \<in> set mid" "\<forall>x\<in>set mid. x \<le> e" "c \<le> e"
    "rest = [] \<or> e + 2 * diffContextLines < hd rest"
    using extend_hunk_spec [OF ext "2.prems"(1)] by blast
  have e: "e < length ops" using mid(1,2) "2.prems"(5) by auto
  let ?stop = "min (e + diffContextLines + 1) (length ops)"
  have rest_le: "\<forall>x\<in>set rest. hd rest \<le> x" and sorted_rest: "sorted rest"
    using "2.prems"(1) unfolding mid(1) by (cases rest; auto simp: sorted_append)+
  have "ranges_ok ops ?stop (hunk_ranges (length ops) rest)"
  proof (rule "2.hyps" [OF ext [symmetric] refl])
    show "sorted rest" by (rule sorted_rest)
    show "rest \<noteq> [] \<Longrightarrow> ?stop \<le> hd rest - diffContextLines"
      using mid(5) by (auto simp: diffContextLines_def)
    show "i \<in> set rest" if "?stop \<le> i" "i < length ops" "is_change (ops ! i)" for i
    proof -
      have "p \<le> i" using that "2.prems"(3) mid(4) by auto
      then have "i \<in> set (mid @ rest)" using "2.prems"(4) that mid(1) by metis
      with mid(3) that show ?thesis by auto
    qed
    show "\<forall>x\<in>set rest. x < length ops" using "2.prems"(5) mid(1) by (metis Un_iff set_append)
  qed simp
  moreover have "\<not> is_change (ops ! i)" if "p \<le> i" "i < c - diffContextLines" for i
  proof
    assume "is_change (ops ! i)"
    moreover have "i < length ops" using that(2) "2.prems"(5) by (auto intro: less_le_trans)
    ultimately have "i \<in> set (c # cs)" using that(1) "2.prems"(4) by blast
    then have "c \<le> i" using "2.prems"(1) by auto
    with that(2) show False by simp
  qed
  ultimately show ?case
    using ext mid(4) "2.prems"(3) e by (auto simp: min_def)
qed

lemma change_indices_props:
  "sorted (change_indices ops)" "\<forall>c\<in>set (change_indices ops). c < length ops"
  "i < length ops \<Longrightarrow> is_change (ops ! i) \<Longrightarrow> i \<in> set (change_indices ops)"
  by (auto simp: change_indices_def sorted_wrt_filter)

lemma apply_hunks_hunks: "apply_hunks (hunks ops) 0 (old_side ops) = Some (new_side ops)"
proof -
  have "ranges_ok ops 0 (hunk_ranges (length ops) (change_indices ops))"
    by (rule hunk_ranges_ok) (auto simp: change_indices_props)
  from apply_hunks_ranges [OF this] show ?thesis by (simp add: hunks_def oldAt_def)
qed

lemma change_indices_empty: "change_indices ops = [] \<longleftrightarrow> (\<forall>op\<in>set ops. \<not> is_change op)"
  by (auto simp: change_indices_def filter_empty_conv in_set_conv_nth Ball_def)

lemma render_hunks_nonempty: "hs \<noteq> [] \<Longrightarrow> trim_suffix_nl (concat (map render_hunk hs)) \<noteq> []"
  by (cases hs) (auto simp: trim_suffix_nl_def render_hunk_def butlast_append)

lemma hunk_ranges_nonempty: "cs \<noteq> [] \<Longrightarrow> hunk_ranges n cs \<noteq> []"
  by (cases cs) (auto split: prod.splits)

lemma renderHunks_empty_iff: "renderHunks ops = [] \<longleftrightarrow> (\<forall>op\<in>set ops. \<not> is_change op)"
proof (cases "change_indices ops = []")
  case True
  then show ?thesis by (simp add: renderHunks_def change_indices_empty)
next
  case False
  then have "ops \<noteq> []" by (auto simp: change_indices_def)
  moreover have "hunks ops \<noteq> []" using False by (simp add: hunks_def hunk_ranges_nonempty)
  ultimately show ?thesis
    using False render_hunks_nonempty [of "hunks ops"]
    by (simp add: renderHunks_def) (simp add: change_indices_empty)
qed

lemma diffOps_no_change_iff: "(\<forall>op\<in>set (diffOps a b). \<not> is_change op) \<longleftrightarrow> a = b"
proof
  assume "\<forall>op\<in>set (diffOps a b). \<not> is_change op"
  from all_context_sides [OF this] show "a = b" by (simp add: diffOps_sides)
next
  assume "a = b"
  have "common_prefix a a p = length a" if "p \<le> length a" for p
    using that
  proof (induction "length a - p" arbitrary: p)
    case 0
    then show ?case by (simp add: common_prefix.simps [of a a p])
  next
    case (Suc k)
    then have "common_prefix a a (Suc p) = length a" by auto
    with Suc show ?case by (simp add: common_prefix.simps [of a a p])
  qed
  then have "diffOps a a = map ctx_op a"
    by (simp add: diffOps_def Let_def lcsOps_def replaceOps_def common_suffix.simps [of a a "length a" 0])
  with \<open>a = b\<close> show "\<forall>op\<in>set (diffOps a b). \<not> is_change op" by (auto simp: is_change_def)
qed


section \<open>Properties\<close>

text \<open>
  C21. A unified diff is a correct patch: whatever the two texts are, including the whole-replacement
  fallback, applying the computed hunks (with the starts and counts their headers state) to the old
  lines reproduces exactly the new lines.
\<close>

theorem diff_patch_roundtrip: "apply_hunks (hunks (diffOps a b)) 0 a = Some b"
  using apply_hunks_hunks [of "diffOps a b"] by (simp add: diffOps_sides)

text \<open>
  C22. While the texts fit the cell budget, the lines the edit script keeps are a longest common
  subsequence of the two texts, computed on 32-bit cells: trimming the common prefix and suffix loses
  nothing and no cell overflows.
\<close>

theorem diffOps_minimal:
  assumes "length a * length b \<le> diffMaxCells"
  shows "subseq (kept (diffOps a b)) a \<and> subseq (kept (diffOps a b)) b
    \<and> (\<forall>zs. subseq zs a \<and> subseq zs b \<longrightarrow> length zs \<le> length (kept (diffOps a b)))"
  using kept_subseq [of "diffOps a b"] assms
  by (simp add: diffOps_sides diffOps_kept lcs_len_upper)

theorem diffOps_minimal_witness:
  "subseq (kept (diffOps [''a'', ''b'', ''c''] [''b'', ''a'', ''c''])) [''a'', ''b'', ''c'']"
  using diffOps_minimal [of "[''a'', ''b'', ''c'']" "[''b'', ''a'', ''c'']"]
  by (simp add: diffMaxCells_def)

text \<open>
  Within the line limit the rendered diff is empty exactly when the two texts have the same lines,
  that is, when they differ by a trailing newline at most.
\<close>

theorem unifiedDiff_empty_iff:
  assumes "CountLines oldText \<le> diffMaxLines" "CountLines newText \<le> diffMaxLines"
  shows "unifiedDiff fromLabel toLabel oldText newText = [] \<longleftrightarrow> splitDiffLines oldText = splitDiffLines newText"
  using assms
  by (auto simp: unifiedDiff_def Let_def CountLines_def renderHunks_empty_iff diffOps_no_change_iff)

theorem unifiedDiff_empty_iff_witness:
  "unifiedDiff ''a'' ''b'' [CHR ''x'', NL] ''x'' = []"
  using unifiedDiff_empty_iff [of "[CHR ''x'', NL]" "''x''" "''a''" "''b''"]
  by (simp add: CountLines_def splitDiffLines_def trim_suffix_nl_def diffMaxLines_def)

text \<open>
  The change summary agrees with the texts: lines after plus lines removed is lines before plus
  lines added, and both counts are zero exactly when the lines are the same.
\<close>

theorem CountLineChanges_balance:
  "CountLines after + snd (CountLineChanges before after) = CountLines before + fst (CountLineChanges before after)
   \<and> (CountLineChanges before after = (0, 0) \<longleftrightarrow> splitDiffLines before = splitDiffLines after)"
proof -
  define ops where "ops = diffOps (splitDiffLines before) (splitDiffLines after)"
  let ?n = "\<lambda>k. length (filter (\<lambda>op. op_kind op = k) ops)"
  have "length (filter in_old xs) + length (filter (\<lambda>op. op_kind op = Added) xs)
      = length (filter in_new xs) + length (filter (\<lambda>op. op_kind op = Deleted) xs)" for xs
  proof (induction xs)
    case (Cons x xs)
    then show ?case by (cases "op_kind x") (simp_all add: in_old_def in_new_def)
  qed simp
  then have "length (splitDiffLines before) + ?n Added = length (splitDiffLines after) + ?n Deleted"
    using length_sides [of ops] by (metis diffOps_sides ops_def)
  moreover have "?n Added = 0 \<and> ?n Deleted = 0 \<longleftrightarrow> (\<forall>op\<in>set ops. \<not> is_change op)"
    by (auto simp: is_change_def filter_empty_conv) (metis op_kind.exhaust)
  ultimately show ?thesis
    by (simp add: CountLineChanges_def CountLines_def Let_def diffOps_no_change_iff flip: ops_def) 
       (simp add: ops_def diffOps_no_change_iff)
qed

end
