(* ===== verification/Utf8.thy ===== *)
theory Utf8
  imports GoString
begin

text \<open>
  Runes and their UTF-8 encodings as Go's \<open>unicode/utf8\<close> reads and writes them (an invalid byte
  decodes to U+FFFD and has width one), and the decoding of a JSON string literal as
  \<open>encoding/json\<close> does it. A rune is a \<open>nat\<close>.
\<close>

section \<open>Encoding and decoding runes\<close>

definition RuneError :: nat where "RuneError = 65533"

abbreviation byte :: "char \<Rightarrow> nat" where "byte c \<equiv> of_char c"

definition in_range :: "nat \<Rightarrow> nat \<Rightarrow> char \<Rightarrow> bool" where
  "in_range lo hi c \<longleftrightarrow> lo \<le> byte c \<and> byte c \<le> hi"

definition cont_bits :: "char \<Rightarrow> nat" where
  "cont_bits c = byte c mod 64"

text \<open>The accepted range of the second byte, by the first one; \<open>None\<close> for a byte that starts nothing.\<close>

definition lead_info :: "char \<Rightarrow> (nat \<times> nat \<times> nat) option" where
  "lead_info c =
     (let b = byte c in
      if 194 \<le> b \<and> b \<le> 223 then Some (2, 128, 191)
      else if b = 224 then Some (3, 160, 191)
      else if b = 237 then Some (3, 128, 159)
      else if 225 \<le> b \<and> b \<le> 239 then Some (3, 128, 191)
      else if b = 240 then Some (4, 144, 191)
      else if 241 \<le> b \<and> b \<le> 243 then Some (4, 128, 191)
      else if b = 244 then Some (4, 128, 143)
      else None)"

definition decode_rune :: "string \<Rightarrow> nat \<times> nat" where
  "decode_rune s =
     (case s of
        [] \<Rightarrow> (RuneError, 0)
      | c0 # r \<Rightarrow>
          if byte c0 < 128 then (byte c0, 1)
          else (case lead_info c0 of
              None \<Rightarrow> (RuneError, 1)
            | Some (n, lo, hi) \<Rightarrow>
                (case r of
                   [] \<Rightarrow> (RuneError, 1)
                 | c1 # r1 \<Rightarrow>
                     if \<not> in_range lo hi c1 then (RuneError, 1)
                     else if n = 2 then ((byte c0 mod 32) * 64 + cont_bits c1, 2)
                     else (case r1 of
                         [] \<Rightarrow> (RuneError, 1)
                       | c2 # r2 \<Rightarrow>
                           if \<not> in_range 128 191 c2 then (RuneError, 1)
                           else if n = 3 then ((byte c0 mod 16) * 4096 + cont_bits c1 * 64 + cont_bits c2, 3)
                           else (case r2 of
                               [] \<Rightarrow> (RuneError, 1)
                             | c3 # _ \<Rightarrow>
                                 if \<not> in_range 128 191 c3 then (RuneError, 1)
                                 else ((byte c0 mod 8) * 262144 + cont_bits c1 * 4096
                                        + cont_bits c2 * 64 + cont_bits c3, 4))))))"

definition valid_rune :: "nat \<Rightarrow> bool" where
  "valid_rune r \<longleftrightarrow> r < 55296 \<or> (57343 < r \<and> r \<le> 1114111)"

definition encode_valid :: "nat \<Rightarrow> string" where
  "encode_valid r =
     (if r < 128 then [char_of r]
      else if r < 2048 then [char_of (192 + r div 64), char_of (128 + r mod 64)]
      else if r < 65536 then
        [char_of (224 + r div 4096), char_of (128 + r div 64 mod 64), char_of (128 + r mod 64)]
      else
        [char_of (240 + r div 262144), char_of (128 + r div 4096 mod 64),
         char_of (128 + r div 64 mod 64), char_of (128 + r mod 64)])"

definition encode_rune :: "nat \<Rightarrow> string" where
  "encode_rune r = encode_valid (if valid_rune r then r else RuneError)"

lemma decode_rune_width: "s \<noteq> [] \<Longrightarrow> 1 \<le> snd (decode_rune s) \<and> snd (decode_rune s) \<le> length s"
  by (auto simp: decode_rune_def split: list.splits option.splits)

lemma decode_rune_shrinks: "Suc (length s) - snd (decode_rune (c # s)) < Suc (length s)"
  using decode_rune_width [of "c # s"] by simp

lemma byte_char_of [simp]: "n < 256 \<Longrightarrow> byte (char_of n) = n"
  by simp

lemma lead_info_char:
  fixes q :: nat
  shows
  "2 \<le> q \<Longrightarrow> q < 32 \<Longrightarrow> lead_info (char_of (192 + q)) = Some (2, 128, 191)"
  "q < 16 \<Longrightarrow> lead_info (char_of (224 + q)) = Some (3, if q = 0 then 160 else 128, if q = 13 then 159 else 191)"
  "q < 5 \<Longrightarrow> lead_info (char_of (240 + q)) = Some (4, if q = 0 then 144 else 128, if q = 4 then 143 else 191)"
  by (simp_all add: lead_info_def Let_def)

lemma cont_char [simp]:
  fixes m :: nat
  shows
  "m < 64 \<Longrightarrow> in_range lo hi (char_of (128 + m)) \<longleftrightarrow> lo \<le> 128 + m \<and> 128 + m \<le> hi"
  "m < 64 \<Longrightarrow> cont_bits (char_of (128 + m)) = m"
proof -
  assume m: "m < 64"
  then have "(128 + m) mod 64 = m" using mod_mult_self3 [of 2 64 m] by simp
  with m show "in_range lo hi (char_of (128 + m)) \<longleftrightarrow> lo \<le> 128 + m \<and> 128 + m \<le> hi"
    and "cont_bits (char_of (128 + m)) = m"
    by (simp_all add: in_range_def cont_bits_def)
qed

lemma decode_two:
  assumes "2 \<le> q" "q < 32" "m < 64"
  shows "decode_rune (char_of (192 + q) # char_of (128 + m) # t) = (q * 64 + m, 2)"
proof -
  have "(192 + q) mod 32 = q" using mod_mult_self3 [of 6 32 q] assms by simp
  with assms show ?thesis by (simp add: decode_rune_def lead_info_char)
qed

lemma decode_three:
  assumes "q < 16" "m < 64" "l < 64" "q = 0 \<Longrightarrow> 32 \<le> m" "q = 13 \<Longrightarrow> m < 32"
  shows "decode_rune (char_of (224 + q) # char_of (128 + m) # char_of (128 + l) # t) = (q * 4096 + m * 64 + l, 3)"
proof -
  have "(224 + q) mod 16 = q" using mod_mult_self3 [of 14 16 q] assms by simp
  moreover obtain lo hi where "lead_info (char_of (224 + q)) = Some (3, lo, hi)" "lo \<le> 128 + m" "128 + m \<le> hi"
    using lead_info_char(2) [OF assms(1)] assms by (cases "q = 0"; cases "q = 13") auto
  ultimately show ?thesis using assms by (simp add: decode_rune_def)
qed

lemma decode_four:
  assumes "q < 5" "m < 64" "l < 64" "k < 64" "q = 0 \<Longrightarrow> 16 \<le> m" "q = 4 \<Longrightarrow> m < 16"
  shows "decode_rune (char_of (240 + q) # char_of (128 + m) # char_of (128 + l) # char_of (128 + k) # t)
    = (q * 262144 + m * 4096 + l * 64 + k, 4)"
proof -
  have "(240 + q) mod 8 = q" using mod_mult_self3 [of 30 8 q] assms by simp
  moreover obtain lo hi where "lead_info (char_of (240 + q)) = Some (4, lo, hi)" "lo \<le> 128 + m" "128 + m \<le> hi"
    using lead_info_char(3) [OF assms(1)] assms by (cases "q = 0"; cases "q = 4") auto
  ultimately show ?thesis using assms by (simp add: decode_rune_def)
qed

lemma decode_encode_valid:
  assumes "valid_rune r"
  shows "decode_rune (encode_valid r @ t) = (r, length (encode_valid r))"
proof -
  consider "r < 128" | "128 \<le> r" "r < 2048" | "2048 \<le> r" "r < 65536" | "65536 \<le> r" by linarith
  then show ?thesis
  proof cases
    case 1
    then show ?thesis by (simp add: encode_valid_def decode_rune_def)
  next
    case 2
    then have "decode_rune (char_of (192 + r div 64) # char_of (128 + r mod 64) # t) = (r div 64 * 64 + r mod 64, 2)"
      by (intro decode_two) auto
    with 2 show ?thesis by (simp add: encode_valid_def)
  next
    case 3
    have dd: "r div 64 div 64 = r div 4096" by (simp flip: div_mult2_eq)
    have mid: "r div 64 mod 64 = r div 64 - r div 4096 * 64"
      by (simp add: modulo_nat_def dd)
    have "r div 4096 = 13 \<Longrightarrow> r div 64 mod 64 < 32"
      using assms unfolding valid_rune_def mid by linarith
    moreover have "r div 4096 = 0 \<Longrightarrow> 32 \<le> r div 64 mod 64" using 3 unfolding mid by linarith
    moreover have "r div 4096 * 4096 + r div 64 mod 64 * 64 + r mod 64 = r"
    proof -
      have "r = 64 * (64 * (r div 4096) + r div 64 mod 64) + r mod 64"
        by (simp only: dd [symmetric] mult_div_mod_eq)
      then show ?thesis by (simp add: algebra_simps)
    qed
    ultimately have "decode_rune (char_of (224 + r div 4096) # char_of (128 + r div 64 mod 64)
        # char_of (128 + r mod 64) # t) = (r, 3)"
      using decode_three [of "r div 4096" "r div 64 mod 64" "r mod 64" t] 3 by simp
    with 3 show ?thesis by (simp add: encode_valid_def)
  next
    case 4
    have dd: "r div 64 div 64 = r div 4096" "r div 4096 div 64 = r div 262144" by (simp_all flip: div_mult2_eq)
    have mid: "r div 4096 mod 64 = r div 4096 - r div 262144 * 64"
      by (simp add: modulo_nat_def dd)
    have "r div 262144 = 4 \<Longrightarrow> r div 4096 mod 64 < 16"
      using assms unfolding valid_rune_def mid by linarith
    moreover have "r div 262144 = 0 \<Longrightarrow> 16 \<le> r div 4096 mod 64" using 4 unfolding mid by linarith
    moreover have "r div 262144 * 262144 + r div 4096 mod 64 * 4096 + r div 64 mod 64 * 64 + r mod 64 = r"
    proof -
      have "r = 64 * (64 * (64 * (r div 262144) + r div 4096 mod 64) + r div 64 mod 64) + r mod 64"
        by (simp only: dd [symmetric] mult_div_mod_eq)
      then show ?thesis by (simp add: algebra_simps)
    qed
    moreover have "r div 262144 < 5" using assms unfolding valid_rune_def by auto
    ultimately have "decode_rune (char_of (240 + r div 262144) # char_of (128 + r div 4096 mod 64)
        # char_of (128 + r div 64 mod 64) # char_of (128 + r mod 64) # t) = (r, 4)"
      using decode_four [of "r div 262144" "r div 4096 mod 64" "r div 64 mod 64" "r mod 64" t] by simp
    with 4 show ?thesis by (simp add: encode_valid_def)
  qed
qed

lemma valid_RuneError [simp]: "valid_rune RuneError"
  by (simp add: valid_rune_def RuneError_def)

lemma encode_rune_nonempty [simp]: "encode_rune r \<noteq> []"
  by (simp add: encode_rune_def encode_valid_def)

lemma decode_encode_rune:
  "decode_rune (encode_rune r @ t) = (if valid_rune r then r else RuneError, length (encode_rune r))"
  by (simp add: encode_rune_def decode_encode_valid)

section \<open>Ranging over a string\<close>

function runes :: "string \<Rightarrow> nat list" where
  "runes [] = []"
| "runes (c # s) = fst (decode_rune (c # s)) # runes (drop (snd (decode_rune (c # s))) (c # s))"
  by pat_completeness auto
termination
  by (relation "measure length") (auto simp: decode_rune_shrinks)

declare runes.simps(2) [simp del]

definition rune_count :: "string \<Rightarrow> nat" where
  "rune_count s = length (runes s)"

definition encode_runes :: "nat list \<Rightarrow> string" where
  "encode_runes rs = concat (map encode_rune rs)"

lemma runes_nonempty: "s \<noteq> [] \<Longrightarrow> runes s = fst (decode_rune s) # runes (drop (snd (decode_rune s)) s)"
  by (cases s) (auto simp: runes.simps)

lemma runes_encode_rune: "runes (encode_rune r @ t) = (if valid_rune r then r else RuneError) # runes t"
  by (simp add: runes_nonempty decode_encode_rune)

lemma runes_encode_runes:
  "runes (encode_runes rs) = map (\<lambda>r. if valid_rune r then r else RuneError) rs"
  by (induction rs) (simp_all add: encode_runes_def runes_encode_rune)

lemma rune_count_encode [simp]: "rune_count (encode_runes rs) = length rs"
  by (simp add: rune_count_def runes_encode_runes)

section \<open>JSON string literals\<close>

definition hex_val :: "char \<Rightarrow> nat option" where
  "hex_val c =
     (let b = byte c in
      if 48 \<le> b \<and> b \<le> 57 then Some (b - 48)
      else if 97 \<le> b \<and> b \<le> 102 then Some (b - 87)
      else if 65 \<le> b \<and> b \<le> 70 then Some (b - 55)
      else None)"

text \<open>\<open>getu4\<close>: the value of a \<open>\uXXXX\<close> at the start of the text, or none.\<close>

fun getu4 :: "string \<Rightarrow> nat option" where
  "getu4 (b # u # h1 # h2 # h3 # h4 # _) =
     (if b = CHR 0x5C \<and> u = CHR ''u'' then
        (case (hex_val h1, hex_val h2, hex_val h3, hex_val h4) of
           (Some a1, Some a2, Some a3, Some a4) \<Rightarrow> Some (((a1 * 16 + a2) * 16 + a3) * 16 + a4)
         | _ \<Rightarrow> None)
      else None)"
| "getu4 _ = None"

definition is_surrogate :: "nat \<Rightarrow> bool" where
  "is_surrogate r \<longleftrightarrow> 55296 \<le> r \<and> r < 57344"

definition utf16_decode :: "nat \<Rightarrow> nat option \<Rightarrow> nat" where
  "utf16_decode r1 r2 =
     (case r2 of
        None \<Rightarrow> RuneError
      | Some r2 \<Rightarrow> if 55296 \<le> r1 \<and> r1 < 56320 \<and> 56320 \<le> r2 \<and> r2 < 57344
                  then (r1 - 55296) * 1024 + (r2 - 56320) + 65536 else RuneError)"

text \<open>
  The body of a literal, between its quotes. The literal escapes are those the scanner of
  \<open>json.Unmarshal\<close> accepts, so \<open>\'\<close> is refused.
\<close>

definition simple_escape :: "char \<Rightarrow> char option" where
  "simple_escape c =
     (if c = CHR 0x22 \<or> c = CHR 0x5C \<or> c = CHR ''/'' then Some c
      else if c = CHR ''b'' then Some (CHR 0x08)
      else if c = CHR ''f'' then Some (CHR 0x0C)
      else if c = CHR ''n'' then Some (CHR 0x0A)
      else if c = CHR ''r'' then Some (CHR 0x0D)
      else if c = CHR ''t'' then Some (CHR 0x09)
      else None)"

function unescape :: "string \<Rightarrow> string option" where
  "unescape [] = Some []"
| "unescape (c # s) =
     (if c = CHR 0x5C then
        (case s of
           [] \<Rightarrow> None
         | e # t \<Rightarrow>
             if e = CHR ''u'' then
               (case getu4 (c # s) of
                  None \<Rightarrow> None
                | Some rr \<Rightarrow>
                    if is_surrogate rr \<and> utf16_decode rr (getu4 (drop 6 (c # s))) \<noteq> RuneError
                    then map_option ((@) (encode_rune (utf16_decode rr (getu4 (drop 6 (c # s))))))
                           (unescape (drop 12 (c # s)))
                    else map_option ((@) (encode_rune (if is_surrogate rr then RuneError else rr)))
                           (unescape (drop 6 (c # s))))
             else (case simple_escape e of
                     None \<Rightarrow> None
                   | Some x \<Rightarrow> map_option ((#) x) (unescape t)))
      else if c = CHR 0x22 \<or> byte c < 32 then None
      else if byte c < 128 then map_option ((#) c) (unescape s)
      else map_option ((@) (encode_rune (fst (decode_rune (c # s)))))
             (unescape (drop (snd (decode_rune (c # s))) (c # s))))"
  by pat_completeness auto
termination
  by (relation "measure length") (auto simp: decode_rune_shrinks)

declare unescape.simps(2) [simp del]

definition json_string :: "string \<Rightarrow> string option" where
  "json_string raw =
     (if 2 \<le> length raw \<and> hd raw = CHR 0x22 \<and> last raw = CHR 0x22
      then unescape (butlast (tl raw)) else None)"

lemma json_string_quoted [simp]: "json_string (CHR 0x22 # body @ [CHR 0x22]) = unescape body"
  by (simp add: json_string_def)

text \<open>A body of printable ASCII without quotes and backslashes is its own decoding.\<close>

definition plain_char :: "char \<Rightarrow> bool" where
  "plain_char c \<longleftrightarrow> 32 \<le> byte c \<and> byte c < 128 \<and> c \<noteq> CHR 0x22 \<and> c \<noteq> CHR 0x5C"

lemma unescape_plain: "\<forall>c\<in>set s. plain_char c \<Longrightarrow> unescape s = Some s"
  by (induction s) (auto simp: plain_char_def unescape.simps)

section \<open>TruncateRunes\<close>

definition TruncateRunes :: "string \<Rightarrow> int \<Rightarrow> string \<times> bool" where
  "TruncateRunes s maxRunes =
     (if maxRunes \<le> 0 \<or> int (rune_count s) \<le> maxRunes then (s, False)
      else (trim_space (encode_runes (take (nat maxRunes) (runes s))), True))"

end
