(* ===== verification/ArgScan.thy ===== *)
theory ArgScan
  imports Utf8
begin

text \<open>
  The incremental scanner of \<open>internal/loop/argscan.go\<close>: it is fed the arguments object of a tool
  call one delta at a time and reports each top-level member the moment its value ends. The state
  record has the fields of \<open>argScanner\<close>; the two string builders are strings.
\<close>

section \<open>The scanner\<close>

datatype argScanState =
    scanStart | scanKeyOrEnd | scanKey | scanColon | scanValueStart | scanValString
  | scanValNested | scanValScalar | scanAfterValue | scanDone | scanDead

record argMember =
  mem_key :: string
  mem_value :: string

record argScanner =
  sc_state :: argScanState
  sc_key :: string
  sc_value :: string
  sc_esc :: bool
  sc_inStr :: bool
  sc_depth :: int
  sc_keyRaw :: string

definition newScanner :: argScanner where
  "newScanner = \<lparr>sc_state = scanStart, sc_key = [], sc_value = [], sc_esc = False,
     sc_inStr = False, sc_depth = 0, sc_keyRaw = []\<rparr>"

definition ended :: "argScanner \<Rightarrow> bool" where
  "ended s \<longleftrightarrow> sc_state s = scanDone \<or> sc_state s = scanDead"

definition isJSONSpace :: "char \<Rightarrow> bool" where
  "isJSONSpace c \<longleftrightarrow> c = CHR '' '' \<or> c = CHR 0x09 \<or> c = CHR 0x0A \<or> c = CHR 0x0D"

abbreviation DQ :: char where "DQ \<equiv> CHR 0x22"
abbreviation BS :: char where "BS \<equiv> CHR 0x5C"

definition is_open :: "char \<Rightarrow> bool" where "is_open c \<longleftrightarrow> c = CHR ''{'' \<or> c = CHR ''[''"
definition is_close :: "char \<Rightarrow> bool" where "is_close c \<longleftrightarrow> c = CHR ''}'' \<or> c = CHR '']''"

definition complete :: "argScanner \<Rightarrow> argScanner \<times> argMember option" where
  "complete s =
     (case json_string (sc_keyRaw s) of
        None \<Rightarrow> (s\<lparr>sc_state := scanDead\<rparr>, None)
      | Some key \<Rightarrow> (s\<lparr>sc_state := scanAfterValue\<rparr>, Some \<lparr>mem_key = key, mem_value = sc_value s\<rparr>))"

text \<open>What \<open>step\<close> does after a value: also the state a scalar's delimiter is read in.\<close>

definition after_value :: "argScanner \<Rightarrow> char \<Rightarrow> argScanner" where
  "after_value s c =
     (if isJSONSpace c then s
      else if c = CHR '','' then s\<lparr>sc_state := scanKeyOrEnd\<rparr>
      else if c = CHR ''}'' then s\<lparr>sc_state := scanDone\<rparr>
      else s\<lparr>sc_state := scanDead\<rparr>)"

definition step :: "argScanner \<Rightarrow> char \<Rightarrow> argScanner \<times> argMember option" where
  "step s c =
     (case sc_state s of
        scanStart \<Rightarrow>
          (if isJSONSpace c then (s, None)
           else if c = CHR ''{'' then (s\<lparr>sc_state := scanKeyOrEnd\<rparr>, None)
           else (s\<lparr>sc_state := scanDead\<rparr>, None))
      | scanKeyOrEnd \<Rightarrow>
          (if isJSONSpace c \<or> c = CHR '','' then (s, None)
           else if c = DQ then (s\<lparr>sc_key := [c], sc_esc := False, sc_state := scanKey\<rparr>, None)
           else if c = CHR ''}'' then (s\<lparr>sc_state := scanDone\<rparr>, None)
           else (s\<lparr>sc_state := scanDead\<rparr>, None))
      | scanKey \<Rightarrow>
          (let s = s\<lparr>sc_key := sc_key s @ [c]\<rparr>
           in if sc_esc s then (s\<lparr>sc_esc := False\<rparr>, None)
              else if c = BS then (s\<lparr>sc_esc := True\<rparr>, None)
              else if c = DQ then (s\<lparr>sc_keyRaw := sc_key s, sc_state := scanColon\<rparr>, None)
              else (s, None))
      | scanColon \<Rightarrow>
          (if isJSONSpace c then (s, None)
           else if c = CHR '':'' then (s\<lparr>sc_state := scanValueStart\<rparr>, None)
           else (s\<lparr>sc_state := scanDead\<rparr>, None))
      | scanValueStart \<Rightarrow>
          (if isJSONSpace c then (s, None)
           else
             (let s = s\<lparr>sc_value := [c], sc_esc := False\<rparr>
              in if c = DQ then (s\<lparr>sc_state := scanValString\<rparr>, None)
                 else if is_open c then
                   (s\<lparr>sc_depth := 1, sc_inStr := False, sc_state := scanValNested\<rparr>, None)
                 else (s\<lparr>sc_state := scanValScalar\<rparr>, None)))
      | scanValString \<Rightarrow>
          (let s = s\<lparr>sc_value := sc_value s @ [c]\<rparr>
           in if sc_esc s then (s\<lparr>sc_esc := False\<rparr>, None)
              else if c = BS then (s\<lparr>sc_esc := True\<rparr>, None)
              else if c = DQ then complete s
              else (s, None))
      | scanValNested \<Rightarrow>
          (let s = s\<lparr>sc_value := sc_value s @ [c]\<rparr>
           in if sc_esc s then (s\<lparr>sc_esc := False\<rparr>, None)
              else if sc_inStr s \<and> c = BS then (s\<lparr>sc_esc := True\<rparr>, None)
              else if c = DQ then (s\<lparr>sc_inStr := \<not> sc_inStr s\<rparr>, None)
              else if sc_inStr s then (s, None)
              else if is_open c then (s\<lparr>sc_depth := sc_depth s + 1\<rparr>, None)
              else if is_close c then
                (let s = s\<lparr>sc_depth := sc_depth s - 1\<rparr>
                 in if sc_depth s = 0 then complete s else (s, None))
              else (s, None))
      | scanValScalar \<Rightarrow>
          (if c = CHR '','' \<or> c = CHR ''}'' \<or> isJSONSpace c then
             (let (s, m) = complete s
              in if sc_state s = scanAfterValue then (after_value s c, m) else (s, m))
           else (s\<lparr>sc_value := sc_value s @ [c]\<rparr>, None))
      | scanAfterValue \<Rightarrow> (after_value s c, None)
      | scanDone \<Rightarrow> (s, None)
      | scanDead \<Rightarrow> (s, None))"

fun feed :: "argScanner \<Rightarrow> string \<Rightarrow> argScanner \<times> argMember list" where
  "feed s [] = (s, [])"
| "feed s (c # cs) =
     (let (s1, m) = step s c;
          (s2, ms) = feed s1 cs
      in (s2, (case m of None \<Rightarrow> ms | Some m \<Rightarrow> m # ms)))"

text \<open>The stream: the deltas in order, the members of each in order.\<close>

fun feed_all :: "argScanner \<Rightarrow> string list \<Rightarrow> argScanner \<times> argMember list" where
  "feed_all s [] = (s, [])"
| "feed_all s (d # ds) =
     (let (s1, ms1) = feed s d;
          (s2, ms2) = feed_all s1 ds
      in (s2, ms1 @ ms2))"

section \<open>Runs of the scanner\<close>

lemma feed_append:
  "feed s (xs @ ys) = (let (s1, ms1) = feed s xs; (s2, ms2) = feed s1 ys in (s2, ms1 @ ms2))"
  by (induction xs arbitrary: s) (auto simp: Let_def split: prod.splits option.splits)

lemma feed_all_concat: "feed_all s ds = feed s (concat ds)"
  by (induction ds arbitrary: s) (auto simp: feed_append Let_def split: prod.splits)

lemma step_ended: "ended s \<Longrightarrow> step s c = (s, None)"
  unfolding ended_def by (elim disjE) (simp_all add: step_def)

lemma feed_ended: "ended s \<Longrightarrow> feed s cs = (s, [])"
  by (induction cs) (auto simp: step_ended)

lemma feed_appendI:
  "feed s xs = (s1, ms1) \<Longrightarrow> feed s1 ys = (s2, ms2) \<Longrightarrow> feed s (xs @ ys) = (s2, ms1 @ ms2)"
  by (simp add: feed_append)

subsection \<open>The text of an arguments object\<close>

text \<open>
  The grammar is stated without reference to the scanner. A string body holds no bare quote and every
  backslash escapes the character after it; a nested body is balanced outside its strings, the two
  kinds of bracket not told apart; a scalar is a run of characters that neither end nor nest a value.
\<close>

fun str_body :: "string \<Rightarrow> bool" where
  "str_body [] = True"
| "str_body (c # s) = (if c = BS then (case s of [] \<Rightarrow> False | _ # t \<Rightarrow> str_body t) else c \<noteq> DQ \<and> str_body s)"

inductive balanced :: "string \<Rightarrow> bool" where
  bal_Nil: "balanced []"
| bal_char: "c \<noteq> DQ \<Longrightarrow> \<not> is_open c \<Longrightarrow> \<not> is_close c \<Longrightarrow> balanced s \<Longrightarrow> balanced (c # s)"
| bal_str: "str_body b \<Longrightarrow> balanced s \<Longrightarrow> balanced (DQ # b @ DQ # s)"
| bal_nest: "is_open p \<Longrightarrow> is_close q \<Longrightarrow> balanced s \<Longrightarrow> balanced t \<Longrightarrow> balanced (p # s @ q # t)"

definition spaces :: "string \<Rightarrow> bool" where
  "spaces w \<longleftrightarrow> (\<forall>c\<in>set w. isJSONSpace c)"

definition scalar_end :: "char \<Rightarrow> bool" where
  "scalar_end c \<longleftrightarrow> c = CHR '','' \<or> c = CHR ''}'' \<or> isJSONSpace c"

inductive json_value :: "string \<Rightarrow> bool" where
  val_str: "str_body b \<Longrightarrow> json_value (DQ # b @ [DQ])"
| val_nest: "is_open p \<Longrightarrow> is_close q \<Longrightarrow> balanced s \<Longrightarrow> json_value (p # s @ [q])"
| val_scalar: "c \<noteq> DQ \<Longrightarrow> \<not> is_open c \<Longrightarrow> \<not> isJSONSpace c \<Longrightarrow> \<forall>d\<in>set s. \<not> scalar_end d \<Longrightarrow> json_value (c # s)"

text \<open>One member as written: white space, key literal body, white space, white space, value, white space.\<close>

record member_text =
  mt_pre :: string
  mt_key :: string
  mt_mid :: string
  mt_post :: string
  mt_value :: string
  mt_end :: string

definition member_ok :: "member_text \<Rightarrow> bool" where
  "member_ok m \<longleftrightarrow> spaces (mt_pre m) \<and> spaces (mt_mid m) \<and> spaces (mt_post m) \<and> spaces (mt_end m)
     \<and> str_body (mt_key m) \<and> unescape (mt_key m) \<noteq> None \<and> json_value (mt_value m)"

definition member_string :: "member_text \<Rightarrow> string" where
  "member_string m = mt_pre m @ DQ # mt_key m @ DQ # mt_mid m @ CHR '':'' # mt_post m @ mt_value m @ mt_end m"

definition object_string :: "string \<Rightarrow> member_text list \<Rightarrow> string" where
  "object_string w ms = w @ CHR ''{'' # join_with '','' (map member_string ms) @ ''}''"

definition member_of :: "member_text \<Rightarrow> argMember" where
  "member_of m = \<lparr>mem_key = the (unescape (mt_key m)), mem_value = mt_value m\<rparr>"


section \<open>The scanner reads the grammar\<close>

lemma esc_False [simp]: "\<not> sc_esc s \<Longrightarrow> s\<lparr>sc_esc := False\<rparr> = s"
  by (cases s) simp

lemma inStr_False: "\<not> sc_inStr s \<Longrightarrow> s\<lparr>sc_inStr := False\<rparr> = s"
  by (cases s) simp

lemma char_class_simps [simp]:
  "\<not> is_open DQ" "\<not> is_close DQ" "\<not> is_open BS" "\<not> is_close BS" "\<not> isJSONSpace DQ" "DQ \<noteq> BS"
  "\<not> isJSONSpace CHR '':''" "\<not> isJSONSpace CHR ''{''" "\<not> isJSONSpace CHR '',''" "\<not> isJSONSpace CHR ''}''"
  "is_close CHR ''}''"
  by (simp_all add: is_open_def is_close_def isJSONSpace_def)

lemma open_facts: "is_open c \<Longrightarrow> c \<noteq> DQ \<and> \<not> isJSONSpace c \<and> c \<noteq> BS \<and> \<not> is_close c"
  by (auto simp: is_open_def isJSONSpace_def is_close_def)

lemma close_facts: "is_close c \<Longrightarrow> c \<noteq> DQ \<and> c \<noteq> BS \<and> \<not> is_open c"
  by (auto simp: is_open_def is_close_def)

lemma feed_spaces:
  assumes "sc_state s \<in> {scanStart, scanKeyOrEnd, scanColon, scanValueStart, scanAfterValue}" "spaces w"
  shows "feed s w = (s, [])"
  using assms by (induction w) (auto simp: spaces_def step_def after_value_def)

lemma feed_key_body:
  "str_body b \<Longrightarrow> sc_state s = scanKey \<Longrightarrow> \<not> sc_esc s \<Longrightarrow> feed s b = (s\<lparr>sc_key := sc_key s @ b\<rparr>, [])"
proof (induction b arbitrary: s rule: str_body.induct)
  case (2 c b)
  then show ?case
    by (cases "c = BS") (auto simp: step_def Let_def split: list.splits)
qed simp

lemma feed_string_body:
  "str_body b \<Longrightarrow> sc_state s = scanValString \<Longrightarrow> \<not> sc_esc s \<Longrightarrow> feed s b = (s\<lparr>sc_value := sc_value s @ b\<rparr>, [])"
proof (induction b arbitrary: s rule: str_body.induct)
  case (2 c b)
  then show ?case
    by (cases "c = BS") (auto simp: step_def Let_def split: list.splits)
qed simp

lemma feed_nested_string:
  "str_body b \<Longrightarrow> sc_state s = scanValNested \<Longrightarrow> \<not> sc_esc s \<Longrightarrow> sc_inStr s \<Longrightarrow>
   feed s b = (s\<lparr>sc_value := sc_value s @ b\<rparr>, [])"
proof (induction b arbitrary: s rule: str_body.induct)
  case (2 c b)
  then show ?case
    by (cases "c = BS") (auto simp: step_def Let_def split: list.splits)
qed simp

lemma step_nested_quote:
  "sc_state s = scanValNested \<Longrightarrow> \<not> sc_esc s \<Longrightarrow>
   step s DQ = (s\<lparr>sc_value := sc_value s @ [DQ], sc_inStr := \<not> sc_inStr s\<rparr>, None)"
  by (simp add: step_def Let_def)

lemma step_nested_open:
  "is_open c \<Longrightarrow> sc_state s = scanValNested \<Longrightarrow> \<not> sc_esc s \<Longrightarrow> \<not> sc_inStr s \<Longrightarrow>
   step s c = (s\<lparr>sc_value := sc_value s @ [c], sc_depth := sc_depth s + 1\<rparr>, None)"
  using open_facts [of c] by (simp add: step_def Let_def)

lemma step_nested_close:
  "is_close c \<Longrightarrow> sc_state s = scanValNested \<Longrightarrow> \<not> sc_esc s \<Longrightarrow> \<not> sc_inStr s \<Longrightarrow>
   step s c = (if sc_depth s = 1 then complete (s\<lparr>sc_value := sc_value s @ [c], sc_depth := 0\<rparr>)
               else (s\<lparr>sc_value := sc_value s @ [c], sc_depth := sc_depth s - 1\<rparr>, None))"
  using close_facts [of c] by (auto simp: step_def Let_def)

lemma feed_balanced:
  "balanced b \<Longrightarrow> sc_state s = scanValNested \<Longrightarrow> \<not> sc_esc s \<Longrightarrow> \<not> sc_inStr s \<Longrightarrow> 1 \<le> sc_depth s \<Longrightarrow>
   feed s b = (s\<lparr>sc_value := sc_value s @ b\<rparr>, [])"
proof (induction b arbitrary: s rule: balanced.induct)
  case bal_Nil
  then show ?case by simp
next
  case (bal_char c b)
  then have "step s c = (s\<lparr>sc_value := sc_value s @ [c]\<rparr>, None)"
    by (simp add: step_def Let_def)
  with bal_char show ?case by simp
next
  case (bal_str b t)
  let ?s1 = "s\<lparr>sc_value := sc_value s @ [DQ], sc_inStr := True\<rparr>"
  let ?s2 = "?s1\<lparr>sc_value := sc_value ?s1 @ b\<rparr>"
  have "feed s [DQ] = (?s1, [])" using bal_str by (simp add: step_nested_quote)
  moreover have "feed ?s1 b = (?s2, [])" using bal_str by (intro feed_nested_string) auto
  moreover have "feed ?s2 [DQ] = (s\<lparr>sc_value := sc_value s @ DQ # b @ [DQ]\<rparr>, [])"
    using bal_str by (simp add: step_nested_quote inStr_False)
  moreover have "feed (s\<lparr>sc_value := sc_value s @ DQ # b @ [DQ]\<rparr>) t = (s\<lparr>sc_value := sc_value s @ DQ # b @ DQ # t\<rparr>, [])"
    using bal_str by simp
  ultimately have "feed s ([DQ] @ b @ [DQ] @ t) = (s\<lparr>sc_value := sc_value s @ DQ # b @ DQ # t\<rparr>, [] @ [] @ [] @ [])"
    by (intro feed_appendI)
  then show ?case by simp
next
  case (bal_nest p q b t)
  let ?s1 = "s\<lparr>sc_value := sc_value s @ [p], sc_depth := sc_depth s + 1\<rparr>"
  let ?s2 = "?s1\<lparr>sc_value := sc_value ?s1 @ b\<rparr>"
  have "feed s [p] = (?s1, [])" using bal_nest by (simp add: step_nested_open)
  moreover have "feed ?s1 b = (?s2, [])" using bal_nest by simp
  moreover have "feed ?s2 [q] = (s\<lparr>sc_value := sc_value s @ p # b @ [q]\<rparr>, [])"
    using bal_nest by (simp add: step_nested_close)
  moreover have "feed (s\<lparr>sc_value := sc_value s @ p # b @ [q]\<rparr>) t = (s\<lparr>sc_value := sc_value s @ p # b @ q # t\<rparr>, [])"
    using bal_nest by simp
  ultimately have "feed s ([p] @ b @ [q] @ t) = (s\<lparr>sc_value := sc_value s @ p # b @ q # t\<rparr>, [] @ [] @ [] @ [])"
    by (intro feed_appendI)
  then show ?case by simp
qed

text \<open>From the start of a value to the delimiter that follows the member.\<close>

definition value_done :: "argScanner \<Rightarrow> char \<Rightarrow> argScanner \<Rightarrow> bool" where
  "value_done s d s' \<longleftrightarrow> sc_state s' = (if d = CHR '','' then scanKeyOrEnd else scanDone)"

lemma complete_ok:
  "json_string (sc_keyRaw s) = Some k \<Longrightarrow>
   complete s = (s\<lparr>sc_state := scanAfterValue\<rparr>, Some \<lparr>mem_key = k, mem_value = sc_value s\<rparr>)"
  by (simp add: complete_def)

lemma feed_after_value:
  assumes "sc_state s = scanAfterValue" "spaces w" "d = CHR '','' \<or> d = CHR ''}''"
  shows "\<exists>s'. feed s (w @ [d]) = (s', []) \<and> value_done s d s'"
proof -
  have "feed s w = (s, [])" using assms by (simp add: feed_spaces)
  moreover have "\<exists>s'. feed s [d] = (s', []) \<and> value_done s d s'"
    using assms by (auto simp: step_def after_value_def value_done_def)
  ultimately show ?thesis by (auto simp: feed_append)
qed

lemma feed_value:
  assumes "json_value v" "sc_state s = scanValueStart" "json_string (sc_keyRaw s) = Some k"
    "spaces w" "d = CHR '','' \<or> d = CHR ''}''"
  shows "\<exists>s'. feed s (v @ w @ [d]) = (s', [\<lparr>mem_key = k, mem_value = v\<rparr>]) \<and> value_done s d s'"
  using assms(1)
proof cases
  case (val_str b)
  let ?s1 = "s\<lparr>sc_value := [DQ], sc_esc := False, sc_state := scanValString\<rparr>"
  let ?s2 = "?s1\<lparr>sc_value := DQ # b\<rparr>"
  have s1: "step s DQ = (?s1, None)"
    using assms(2) by (simp add: step_def Let_def)
  have s2: "feed ?s1 b = (?s2, [])" using val_str feed_string_body [of b ?s1] by simp
  have s3: "step ?s2 DQ = (?s2\<lparr>sc_value := v, sc_state := scanAfterValue\<rparr>, Some \<lparr>mem_key = k, mem_value = v\<rparr>)"
    using assms(3) val_str by (simp add: step_def Let_def complete_ok)
  obtain s' where "feed (?s2\<lparr>sc_value := v, sc_state := scanAfterValue\<rparr>) (w @ [d]) = (s', [])" "value_done s d s'"
    using feed_after_value [of "?s2\<lparr>sc_value := v, sc_state := scanAfterValue\<rparr>" w d] assms
    by (auto simp: value_done_def)
  with s1 s2 s3 val_str show ?thesis by (auto simp: feed_append)
next
  case (val_nest p q b)
  let ?s1 = "s\<lparr>sc_value := [p], sc_esc := False, sc_depth := 1, sc_inStr := False, sc_state := scanValNested\<rparr>"
  let ?s2 = "?s1\<lparr>sc_value := p # b\<rparr>"
  let ?s3 = "?s2\<lparr>sc_value := v, sc_depth := 0, sc_state := scanAfterValue\<rparr>"
  have s1: "step s p = (?s1, None)"
    using assms(2) val_nest open_facts [of p] by (simp add: step_def Let_def)
  have s2: "feed ?s1 b = (?s2, [])" using val_nest feed_balanced [of b ?s1] by simp
  have s3: "step ?s2 q = (?s3, Some \<lparr>mem_key = k, mem_value = v\<rparr>)"
    using assms(3) val_nest by (simp add: step_nested_close complete_ok)
  obtain s' where "feed ?s3 (w @ [d]) = (s', [])" "value_done s d s'"
    using feed_after_value [of ?s3 w d] assms by (auto simp: value_done_def)
  with s1 s2 s3 val_nest show ?thesis by (auto simp: feed_append)
next
  case (val_scalar c b)
  let ?s1 = "s\<lparr>sc_value := [c], sc_esc := False, sc_state := scanValScalar\<rparr>"
  have s1: "step s c = (?s1, None)"
    using assms(2) val_scalar by (simp add: step_def Let_def)
  have run: "feed t b' = (t\<lparr>sc_value := sc_value t @ b'\<rparr>, [])"
    if "sc_state t = scanValScalar" "\<forall>x\<in>set b'. \<not> scalar_end x" for t b'
    using that by (induction b' arbitrary: t) (auto simp: step_def Let_def scalar_end_def)
  let ?s2 = "?s1\<lparr>sc_value := v\<rparr>"
  have s2: "feed ?s1 b = (?s2, [])" using run [of ?s1 b] val_scalar by simp
  let ?s3 = "?s2\<lparr>sc_state := scanAfterValue\<rparr>"
  have s3: "step ?s2 e = (after_value ?s3 e, Some \<lparr>mem_key = k, mem_value = v\<rparr>)" if "scalar_end e" for e
    using that assms(3) by (auto simp: step_def Let_def scalar_end_def complete_ok)
  have "\<exists>s'. feed ?s2 (w @ [d]) = (s', [\<lparr>mem_key = k, mem_value = v\<rparr>]) \<and> value_done s d s'"
  proof (cases w)
    case Nil
    with s3 [of d] assms(5) show ?thesis
      by (auto simp: scalar_end_def value_done_def after_value_def)
  next
    case (Cons e w')
    then have "isJSONSpace e" "spaces w'" using assms(4) by (auto simp: spaces_def)
    with s3 [of e] have "step ?s2 e = (?s3, Some \<lparr>mem_key = k, mem_value = v\<rparr>)"
      by (simp add: scalar_end_def after_value_def)
    with feed_after_value [of ?s3 w' d] assms(5) \<open>spaces w'\<close> Cons show ?thesis
      by (auto simp: value_done_def)
  qed
  with s1 s2 val_scalar show ?thesis by (auto simp: feed_append)
qed


lemma feed_member:
  assumes ok: "member_ok m" and st: "sc_state s = scanKeyOrEnd" and d: "d = CHR '','' \<or> d = CHR ''}''"
  shows "\<exists>s'. feed s (member_string m @ [d]) = (s', [member_of m]) \<and> value_done s d s'"
proof -
  obtain k where k: "unescape (mt_key m) = Some k" using ok by (auto simp: member_ok_def)
  note parts = ok [unfolded member_ok_def]
  let ?s1 = "s\<lparr>sc_key := [DQ], sc_esc := False, sc_state := scanKey\<rparr>"
  let ?s2 = "?s1\<lparr>sc_key := DQ # mt_key m\<rparr>"
  let ?raw = "DQ # mt_key m @ [DQ]"
  let ?s3 = "?s2\<lparr>sc_key := ?raw, sc_keyRaw := ?raw, sc_state := scanColon\<rparr>"
  let ?s4 = "?s3\<lparr>sc_state := scanValueStart\<rparr>"
  have "feed s (mt_pre m) = (s, [])" using st parts by (simp add: feed_spaces)
  moreover have "feed s [DQ] = (?s1, [])" using st by (simp add: step_def)
  moreover have "feed ?s1 (mt_key m) = (?s2, [])" using parts feed_key_body [of "mt_key m" ?s1] by simp
  moreover have "feed ?s2 [DQ] = (?s3, [])" by (simp add: step_def Let_def)
  moreover have "feed ?s3 (mt_mid m) = (?s3, [])" using parts by (simp add: feed_spaces)
  moreover have "feed ?s3 [CHR '':''] = (?s4, [])" by (simp add: step_def)
  moreover have "feed ?s4 (mt_post m) = (?s4, [])" using parts by (simp add: feed_spaces)
  moreover obtain s' where "feed ?s4 (mt_value m @ mt_end m @ [d]) = (s', [\<lparr>mem_key = k, mem_value = mt_value m\<rparr>])"
    "value_done ?s4 d s'"
    using feed_value [of "mt_value m" ?s4 k "mt_end m" d] parts k d by auto
  ultimately have "feed s (mt_pre m @ [DQ] @ mt_key m @ [DQ] @ mt_mid m @ [CHR '':''] @ mt_post m
      @ (mt_value m @ mt_end m @ [d])) = (s', [] @ [] @ [] @ [] @ [] @ [] @ [] @ [\<lparr>mem_key = k, mem_value = mt_value m\<rparr>])"
    by (intro feed_appendI)
  with \<open>value_done ?s4 d s'\<close> k show ?thesis
    by (simp add: member_string_def member_of_def value_done_def)
qed

lemma feed_members:
  "ms \<noteq> [] \<Longrightarrow> \<forall>m\<in>set ms. member_ok m \<Longrightarrow> sc_state s = scanKeyOrEnd \<Longrightarrow>
   \<exists>s'. feed s (join_with '','' (map member_string ms) @ ''}'') = (s', map member_of ms) \<and> sc_state s' = scanDone"
proof (induction ms arbitrary: s)
  case (Cons m ms)
  show ?case
  proof (cases ms)
    case Nil
    with feed_member [of m s "CHR ''}''"] Cons.prems show ?thesis
      by (auto simp: value_done_def)
  next
    case (Cons m' ms')
    obtain s1 where s1: "feed s (member_string m @ '','') = (s1, [member_of m])" "sc_state s1 = scanKeyOrEnd"
      using feed_member [of m s "CHR '',''"] Cons.prems by (auto simp: value_done_def)
    from Cons.IH [of s1] s1(2) Cons.prems Cons obtain s2
      where "feed s1 (join_with '','' (map member_string ms) @ ''}'') = (s2, map member_of ms)" "sc_state s2 = scanDone"
      by auto
    with feed_appendI [OF s1(1) this(1)] Cons show ?thesis by auto
  qed
qed simp

lemma feed_object:
  assumes "spaces w" "\<forall>m\<in>set ms. member_ok m"
  shows "\<exists>s'. feed newScanner (object_string w ms) = (s', map member_of ms) \<and> sc_state s' = scanDone"
proof -
  let ?s = "newScanner\<lparr>sc_state := scanKeyOrEnd\<rparr>"
  have open_obj: "feed newScanner (w @ ''{'') = (?s, [])"
    using assms(1) by (simp add: feed_append feed_spaces newScanner_def step_def)
  have "\<exists>s'. feed ?s (join_with '','' (map member_string ms) @ ''}'') = (s', map member_of ms) \<and> sc_state s' = scanDone"
  proof (cases "ms = []")
    case True
    then show ?thesis by (simp add: step_def)
  next
    case False
    with assms(2) show ?thesis by (intro feed_members) auto
  qed
  then obtain s' where "feed ?s (join_with '','' (map member_string ms) @ ''}'') = (s', map member_of ms)"
    "sc_state s' = scanDone" by blast
  with feed_appendI [OF open_obj this(1)] show ?thesis by (simp add: object_string_def)
qed

section \<open>Properties\<close>

text \<open>
  C15. However a well-formed arguments object is cut into deltas, with any white space between its
  tokens and anything after it, the scanner reports exactly the object's top-level members, in
  order, each with its decoded key and its value byte for byte, and then has ended.
\<close>

theorem argscan_object:
  assumes "spaces w" "\<forall>m\<in>set ms. member_ok m" "concat deltas = object_string w ms @ rest"
  shows "snd (feed_all newScanner deltas) = map member_of ms \<and> ended (fst (feed_all newScanner deltas))"
proof -
  obtain s' where s': "feed newScanner (object_string w ms) = (s', map member_of ms)" "sc_state s' = scanDone"
    using feed_object [OF assms(1,2)] by blast
  then have "feed s' rest = (s', [])" by (simp add: feed_ended ended_def)
  with s' show ?thesis
    by (simp add: feed_all_concat assms(3) feed_append ended_def)
qed

theorem argscan_object_witness:
  "snd (feed_all newScanner [CHR ''{'' # DQ # ''pa'', ''th'' @ [DQ] @ '': ['', ''1,2] }'']) = [\<lparr>mem_key = ''path'', mem_value = ''[1,2]''\<rparr>]"
proof -
  let ?m = "\<lparr>mt_pre = [], mt_key = ''path'', mt_mid = [], mt_post = '' '', mt_value = ''[1,2]'', mt_end = '' ''\<rparr>"
  have bal: "balanced ''1,2''"
    by (intro bal_char bal_Nil) (simp_all add: is_open_def is_close_def)
  have "json_value (CHR ''['' # ''1,2'' @ [CHR '']''])"
    by (rule val_nest) (simp_all add: is_open_def is_close_def bal)
  moreover have "unescape ''path'' = Some ''path''"
    by (rule unescape_plain) (simp add: plain_char_def)
  ultimately have "member_ok ?m" and "member_of ?m = \<lparr>mem_key = ''path'', mem_value = ''[1,2]''\<rparr>"
    by (simp_all add: member_ok_def member_of_def spaces_def isJSONSpace_def)
  with argscan_object [of "[]" "[?m]" "[CHR ''{'' # DQ # ''pa'', ''th'' @ [DQ] @ '': ['', ''1,2] }'']" "[]"]
  show ?thesis by (simp add: object_string_def member_string_def spaces_def)
qed

end
