(* ===== verification/GoError.thy ===== *)
theory GoError
  imports GoString
begin

text \<open>
  Errors as values (\<open>core/errors.go\<close>, \<open>core/errorkind.go\<close>): the library's error types, the
  standard library's cancellation errors, errors a host makes, and wrapping (\<open>fmt.Errorf\<close> with
  \<open>%w\<close>, \<open>errors.Join\<close>). \<open>errors.Is\<close> and \<open>errors.As\<close> walk the tree of wrapped errors depth first.
\<close>

section \<open>Errors and their classification\<close>

datatype go_error =
    APIError int string bool       \<comment> \<open>status, body, ContextOverflow\<close>
  | RequestError string
  | UnsupportedError string string string   \<comment> \<open>dialect, what, why\<close>
  | CallbackErr go_error
  | Canceled
  | DeadlineExceeded
  | ErrorNew string                \<comment> \<open>a sentinel or a host's own error\<close>
  | Wrapped string go_error        \<comment> \<open>the text before the wrapped error's, and the error\<close>
  | Annotated go_error string      \<comment> \<open>the error, and the text after its own\<close>
  | Joined "go_error list"
  | Explained go_error go_error    \<comment> \<open>\<open>%w: %w\<close>: both are wrapped\<close>

text \<open>The error and everything it wraps, in the order \<open>errors.Is\<close> and \<open>errors.As\<close> visit them.\<close>

fun unwrap_all :: "go_error \<Rightarrow> go_error list" where
  "unwrap_all (CallbackErr e) = CallbackErr e # unwrap_all e"
| "unwrap_all (Wrapped t e) = Wrapped t e # unwrap_all e"
| "unwrap_all (Annotated e t) = Annotated e t # unwrap_all e"
| "unwrap_all (Joined es) = Joined es # concat (map unwrap_all es)"
| "unwrap_all (Explained e f) = Explained e f # unwrap_all e @ unwrap_all f"
| "unwrap_all e = [e]"

fun error_text :: "go_error \<Rightarrow> string" where
  "error_text (APIError st body ov) = ''api error: status '' @ itoa st @ '': '' @ body"
| "error_text (RequestError msg) = msg"
| "error_text (UnsupportedError d what why) =
     ''commonai: '' @ d @ '' cannot express '' @ what @ (if why \<noteq> [] then '': '' @ why else [])"
| "error_text (CallbackErr e) = error_text e"
| "error_text Canceled = ''context canceled''"
| "error_text DeadlineExceeded = ''context deadline exceeded''"
| "error_text (ErrorNew msg) = msg"
| "error_text (Wrapped t e) = t @ error_text e"
| "error_text (Annotated e t) = error_text e @ t"
| "error_text (Joined es) = join_with [NL] (map error_text es)"
| "error_text (Explained e f) = error_text e @ '': '' @ error_text f"

definition error_is :: "go_error \<Rightarrow> go_error \<Rightarrow> bool" where
  "error_is e target \<longleftrightarrow> target \<in> set (unwrap_all e)"

fun is_api :: "go_error \<Rightarrow> bool" where
  "is_api (APIError _ _ _) = True" | "is_api _ = False"

fun is_request :: "go_error \<Rightarrow> bool" where
  "is_request (RequestError _) = True" | "is_request _ = False"

fun is_unsupported :: "go_error \<Rightarrow> bool" where
  "is_unsupported (UnsupportedError _ _ _) = True" | "is_unsupported _ = False"

fun is_callback :: "go_error \<Rightarrow> bool" where
  "is_callback (CallbackErr _) = True" | "is_callback _ = False"

definition error_as :: "(go_error \<Rightarrow> bool) \<Rightarrow> go_error \<Rightarrow> go_error option" where
  "error_as p e = find p (unwrap_all e)"

definition IsContextOverflow :: "go_error option \<Rightarrow> bool" where
  "IsContextOverflow err =
     (case err of
        None \<Rightarrow> False
      | Some e \<Rightarrow> (case error_as is_api e of Some (APIError _ _ ov) \<Rightarrow> ov | _ \<Rightarrow> False))"

definition IsUnsupported :: "go_error option \<Rightarrow> bool" where
  "IsUnsupported err = (case err of None \<Rightarrow> False | Some e \<Rightarrow> error_as is_unsupported e \<noteq> None)"

definition IsBadRequest :: "go_error option \<Rightarrow> bool" where
  "IsBadRequest err = (case err of None \<Rightarrow> False | Some e \<Rightarrow> error_as is_request e \<noteq> None)"

definition transient_status :: "int \<Rightarrow> bool" where
  "transient_status st \<longleftrightarrow> st = 408 \<or> st = 429 \<or> st \<ge> 500"

definition IsTransient :: "go_error option \<Rightarrow> bool" where
  "IsTransient err =
     (case err of
        None \<Rightarrow> False
      | Some e \<Rightarrow>
          if error_is e Canceled \<or> error_is e DeadlineExceeded then False
          else (case error_as is_api e of
              Some (APIError st _ _) \<Rightarrow> transient_status st
            | _ \<Rightarrow>
                if error_as is_request e \<noteq> None then False
                else if error_as is_callback e \<noteq> None then False
                else True))"

definition wrapCallbackErr :: "go_error option \<Rightarrow> go_error option" where
  "wrapCallbackErr err =
     (case err of
        None \<Rightarrow> None
      | Some e \<Rightarrow> if error_as is_callback e \<noteq> None then Some e else Some (CallbackErr e))"

datatype error_kind =
    NoError | ErrorKindAPI | ErrorKindOverflow | ErrorKindRequest | ErrorKindCanceled
  | ErrorKindUnsupported | ErrorKindTransport

definition errorKind :: "go_error option \<Rightarrow> error_kind" where
  "errorKind err =
     (case err of
        None \<Rightarrow> NoError
      | Some e \<Rightarrow>
          if IsContextOverflow (Some e) then ErrorKindOverflow
          else if IsUnsupported (Some e) then ErrorKindUnsupported
          else if error_is e Canceled \<or> error_is e DeadlineExceeded then ErrorKindCanceled
          else if error_as is_api e \<noteq> None then ErrorKindAPI
          else if error_as is_request e \<noteq> None then ErrorKindRequest
          else ErrorKindTransport)"

section \<open>Facts\<close>

lemma error_as_None_iff: "error_as p e = None \<longleftrightarrow> (\<forall>x\<in>set (unwrap_all e). \<not> p x)"
  by (auto simp: error_as_def find_None_iff)

lemma error_as_Some: "error_as p e = Some x \<Longrightarrow> p x \<and> x \<in> set (unwrap_all e)"
  by (auto simp: error_as_def find_Some_iff)

lemma is_api_cases: "is_api e \<Longrightarrow> \<exists>st b ov. e = APIError st b ov"
  by (cases e) auto

lemma self_in_unwrap [simp]: "e \<in> set (unwrap_all e)"
  by (cases e) auto

lemma wrapCallbackErr_idem [simp]: "wrapCallbackErr (wrapCallbackErr err) = wrapCallbackErr err"
  by (auto simp: wrapCallbackErr_def error_as_None_iff split: option.splits)

lemma wrapCallbackErr_text: "map_option error_text (wrapCallbackErr err) = map_option error_text err"
  by (auto simp: wrapCallbackErr_def split: option.splits)

lemma wrapCallbackErr_None_iff [simp]: "wrapCallbackErr err = None \<longleftrightarrow> err = None"
  by (auto simp: wrapCallbackErr_def split: option.splits)

lemma error_as_api_wrap: "error_as is_api (CallbackErr e) = error_as is_api e"
  by (simp add: error_as_def)

text \<open>
  A callback's own error is permanent exactly when no upstream answer with a retryable status hides
  inside it.
\<close>

lemma transient_callback_iff:
  "IsTransient (wrapCallbackErr (Some e)) \<longleftrightarrow>
     \<not> error_is e Canceled \<and> \<not> error_is e DeadlineExceeded
     \<and> (\<exists>st b ov. error_as is_api e = Some (APIError st b ov) \<and> transient_status st)"
proof -
  have cb: "error_as is_callback e' \<noteq> None" if "wrapCallbackErr (Some e) = Some e'" for e'
    using that by (auto simp: wrapCallbackErr_def error_as_None_iff split: if_splits)
  have same: "error_as is_api e' = error_as is_api e" "error_is e' Canceled = error_is e Canceled"
    "error_is e' DeadlineExceeded = error_is e DeadlineExceeded" if "wrapCallbackErr (Some e) = Some e'" for e'
    using that by (auto simp: wrapCallbackErr_def error_as_api_wrap error_is_def split: if_splits)
  obtain e' where e': "wrapCallbackErr (Some e) = Some e'"
    by (cases "wrapCallbackErr (Some e)") auto
  show ?thesis
  proof (cases "error_as is_api e")
    case None
    with e' same [OF e'] cb [OF e'] show ?thesis by (auto simp: IsTransient_def)
  next
    case (Some x)
    then obtain st b ov where "x = APIError st b ov" using error_as_Some is_api_cases by blast
    with Some e' same [OF e'] show ?thesis by (auto simp: IsTransient_def)
  qed
qed

end
