(* ===== verification/Messages.thy ===== *)
theory Messages
  imports Complex_Main GoError
begin

text \<open>
  The neutral message model (\<open>core/message.go\<close>), token usage (\<open>core/usage.go\<close>, the cache counts of
  \<open>core/prices.go\<close>) and the folded completion of \<open>client/completion.go\<close>. Floating-point cost is
  carried but never computed with.
\<close>

section \<open>Messages and their parts\<close>

datatype Role = RoleSystem | RoleUser | RoleAssistant | RoleTool | RoleOther string

record ThinkingBlock =
  tb_text :: string
  tb_signature :: string
  tb_id :: string
  tb_redacted :: string
  tb_raw :: bool

record ToolCall =
  tc_id :: string
  tc_name :: string
  tc_args :: string

datatype Part =
    TextPart string
  | ImagePart string string string          \<comment> \<open>media type, data, src\<close>
  | ThinkingPart string string string bool  \<comment> \<open>text, signature, id, raw\<close>
  | RedactedThinkingPart string
  | ToolCallPart string string string       \<comment> \<open>id, name, arguments\<close>

record Message =
  msg_role :: Role
  msg_id :: string
  msg_kind :: string
  msg_parts :: "Part list"
  msg_content :: string
  msg_thinking :: "ThinkingBlock list"
  msg_calls :: "ToolCall list"
  msg_call_id :: string
  msg_is_error :: bool

definition empty_message :: "Role \<Rightarrow> Message" where
  "empty_message role = \<lparr>msg_role = role, msg_id = [], msg_kind = [], msg_parts = [], msg_content = [],
     msg_thinking = [], msg_calls = [], msg_call_id = [], msg_is_error = False\<rparr>"

definition toolArgs :: "string \<Rightarrow> string" where
  "toolArgs args = (if trim_space args = [] then ''{}'' else args)"

definition thinking_part :: "ThinkingBlock \<Rightarrow> Part" where
  "thinking_part tb =
     (if tb_redacted tb \<noteq> [] then RedactedThinkingPart (tb_redacted tb)
      else ThinkingPart (tb_text tb) (tb_signature tb) (tb_id tb) (tb_raw tb))"

definition EffectiveParts :: "Message \<Rightarrow> Part list" where
  "EffectiveParts m =
     (if msg_parts m \<noteq> [] then msg_parts m
      else map thinking_part (msg_thinking m)
           @ (if msg_content m \<noteq> [] then [TextPart (msg_content m)] else [])
           @ map (\<lambda>tc. ToolCallPart (tc_id tc) (tc_name tc) (tc_args tc)) (msg_calls m))"

fun text_of_part :: "Part \<Rightarrow> string" where
  "text_of_part (TextPart t) = t" | "text_of_part _ = []"

fun thinking_of_part :: "Part \<Rightarrow> ThinkingBlock list" where
  "thinking_of_part (ThinkingPart t s i r) =
     [\<lparr>tb_text = t, tb_signature = s, tb_id = i, tb_redacted = [], tb_raw = r\<rparr>]"
| "thinking_of_part (RedactedThinkingPart d) =
     [\<lparr>tb_text = [], tb_signature = [], tb_id = [], tb_redacted = d, tb_raw = False\<rparr>]"
| "thinking_of_part _ = []"

fun call_of_part :: "Part \<Rightarrow> ToolCall list" where
  "call_of_part (ToolCallPart i n a) = [\<lparr>tc_id = i, tc_name = n, tc_args = a\<rparr>]"
| "call_of_part _ = []"

definition SyncViews :: "Message \<Rightarrow> Message" where
  "SyncViews m =
     (if msg_parts m = [] then m
      else m\<lparr>msg_thinking := concat (map thinking_of_part (msg_parts m)),
             msg_calls := concat (map call_of_part (msg_parts m)),
             msg_content := concat (map text_of_part (msg_parts m))\<rparr>)"

definition NewMessage :: "Role \<Rightarrow> Part list \<Rightarrow> Message" where
  "NewMessage role parts = SyncViews ((empty_message role)\<lparr>msg_parts := parts\<rparr>)"

section \<open>Tools\<close>

record ToolDecl =
  decl_name :: string
  decl_description :: string
  decl_schema :: string
  decl_readonly :: bool
  decl_destructive :: "bool option"
  decl_idempotent :: bool
  decl_openWorld :: "bool option"
  decl_unvouched :: bool

definition IsDestructive :: "ToolDecl \<Rightarrow> bool" where
  "IsDestructive t =
     (if decl_readonly t then False
      else (case decl_destructive t of None \<Rightarrow> True | Some d \<Rightarrow> d))"

definition IsIdempotent :: "ToolDecl \<Rightarrow> bool" where
  "IsIdempotent t \<longleftrightarrow> decl_readonly t \<or> decl_idempotent t"

definition IsOpenWorld :: "ToolDecl \<Rightarrow> bool" where
  "IsOpenWorld t = (case decl_openWorld t of None \<Rightarrow> True | Some w \<Rightarrow> w)"

definition Vouched :: "ToolDecl \<Rightarrow> bool" where
  "Vouched t \<longleftrightarrow> \<not> decl_unvouched t"

definition decl_effective_schema :: "ToolDecl \<Rightarrow> string" where
  "decl_effective_schema t =
     (if decl_schema t \<noteq> [] then decl_schema t
      else ''{'' @ [CHR 0x22] @ ''type'' @ [CHR 0x22] @ '':'' @ [CHR 0x22] @ ''object'' @ [CHR 0x22] @ ''}'')"

section \<open>Usage and completions\<close>

record Usage =
  u_prompt :: int
  u_completion :: int
  u_total :: int
  u_cacheRead :: "int option"
  u_cacheWrite :: "int option"
  u_raw :: string
  u_reasoning :: "int option"
  u_cost :: "rat option"

definition zero_usage :: Usage where
  "zero_usage = \<lparr>u_prompt = 0, u_completion = 0, u_total = 0, u_cacheRead = None,
     u_cacheWrite = None, u_raw = [], u_reasoning = None, u_cost = None\<rparr>"

definition CachedTokens :: "Usage \<Rightarrow> int" where
  "CachedTokens u =
     (let cached = (case u_cacheRead u of None \<Rightarrow> 0 | Some c \<Rightarrow> c);
          cached = (if u_prompt u > 0 \<and> cached > u_prompt u then u_prompt u else cached)
      in if cached < 0 then 0 else cached)"

definition cacheCounts :: "Usage \<Rightarrow> int \<times> int" where
  "cacheCounts u =
     (let read = (case u_cacheRead u of None \<Rightarrow> 0 | Some c \<Rightarrow> c);
          write = (case u_cacheWrite u of None \<Rightarrow> 0 | Some c \<Rightarrow> c)
      in (if read < 0 then 0 else read, if write < 0 then 0 else write))"

definition Anomalous :: "Usage \<Rightarrow> bool" where
  "Anomalous u \<longleftrightarrow> fst (cacheCounts u) + snd (cacheCounts u) > u_prompt u"

text \<open>The wire half's completion keeps every usage snapshot; the loop's keeps one.\<close>

record CoreCompletion =
  cc_message :: Message
  cc_usages :: "Usage list"
  cc_streamed :: bool
  cc_stop :: string
  cc_model :: string
  cc_routed :: string

record Completion =
  co_message :: Message
  co_usage :: Usage
  co_reported :: bool
  co_rawUsage :: string
  co_reasoning :: "int option"
  co_cost :: "rat option"
  co_streamed :: bool
  co_stop :: string
  co_model :: string
  co_routed :: string

definition usageEvidence :: "Usage \<Rightarrow> int" where
  "usageEvidence u =
     (let e = u_prompt u + u_completion u in if u_total u > e then u_total u else e)"

definition mergeUsage :: "Usage option \<Rightarrow> Usage \<Rightarrow> Usage option" where
  "mergeUsage prev nxt =
     (case prev of
        None \<Rightarrow> Some nxt
      | Some p \<Rightarrow> if usageEvidence nxt \<ge> usageEvidence p then Some nxt else Some p)"

definition floorTotal :: "Usage \<Rightarrow> Usage" where
  "floorTotal u =
     (let pc = u_prompt u + u_completion u
      in if u_total u < pc then u\<lparr>u_total := pc\<rparr> else u)"

definition fold_completion :: "CoreCompletion \<Rightarrow> Completion" where
  "fold_completion c =
     (let out = \<lparr>co_message = cc_message c, co_usage = zero_usage, co_reported = False, co_rawUsage = [],
                co_reasoning = None, co_cost = None, co_streamed = cc_streamed c, co_stop = cc_stop c,
                co_model = cc_model c, co_routed = cc_routed c\<rparr>
      in case foldl mergeUsage None (cc_usages c) of
           None \<Rightarrow> out
         | Some u \<Rightarrow> out\<lparr>co_reported := True,
                        co_usage := floorTotal (zero_usage\<lparr>u_prompt := u_prompt u, u_completion := u_completion u,
                          u_total := u_total u, u_cacheRead := u_cacheRead u, u_cacheWrite := u_cacheWrite u\<rparr>),
                        co_rawUsage := u_raw u, co_reasoning := u_reasoning u, co_cost := u_cost u\<rparr>)"

section \<open>Facts\<close>

lemma views_of_parts:
  "concat (map thinking_of_part (map thinking_part tbs))
     = map (\<lambda>tb. if tb_redacted tb \<noteq> [] then \<lparr>tb_text = [], tb_signature = [], tb_id = [], tb_redacted = tb_redacted tb, tb_raw = False\<rparr> else tb) tbs"
  "concat (map text_of_part (map thinking_part tbs)) = []"
  "concat (map call_of_part (map thinking_part tbs)) = []"
  by (induction tbs) (auto simp: thinking_part_def)

lemma views_of_calls:
  "concat (map call_of_part (map (\<lambda>tc. ToolCallPart (tc_id tc) (tc_name tc) (tc_args tc)) tcs)) = tcs"
  "concat (map thinking_of_part (map (\<lambda>tc. ToolCallPart (tc_id tc) (tc_name tc) (tc_args tc)) tcs)) = []"
  "concat (map text_of_part (map (\<lambda>tc. ToolCallPart (tc_id tc) (tc_name tc) (tc_args tc)) tcs)) = []"
  by (induction tcs) auto

lemma NewMessage_simps [simp]:
  "msg_role (NewMessage r ps) = r" "msg_parts (NewMessage r ps) = ps"
  "msg_content (NewMessage r ps) = concat (map text_of_part ps)"
  "msg_thinking (NewMessage r ps) = concat (map thinking_of_part ps)"
  "msg_calls (NewMessage r ps) = concat (map call_of_part ps)"
  "msg_id (NewMessage r ps) = []" "msg_kind (NewMessage r ps) = []"
  "msg_call_id (NewMessage r ps) = []" "msg_is_error (NewMessage r ps) = False"
  by (simp_all add: NewMessage_def SyncViews_def empty_message_def)

lemma foldl_mergeUsage:
  "foldl mergeUsage (Some p) us = Some u \<Longrightarrow>
   u \<in> set (p # us) \<and> (\<forall>v\<in>set (p # us). usageEvidence v \<le> usageEvidence u)"
proof (induction us arbitrary: p)
  case (Cons v us)
  then show ?case by (force simp: mergeUsage_def split: if_splits)
qed simp

lemma foldl_mergeUsage_Some: "\<exists>u. foldl mergeUsage (Some p) us = Some u"
  by (induction us arbitrary: p) (auto simp: mergeUsage_def)

text \<open>The folded completion reports the snapshot with the most evidence, not a sum.\<close>

lemma fold_completion_usage:
  assumes "cc_usages c \<noteq> []"
  shows "\<exists>u\<in>set (cc_usages c). (\<forall>v\<in>set (cc_usages c). usageEvidence v \<le> usageEvidence u)
    \<and> u_prompt (co_usage (fold_completion c)) = u_prompt u \<and> u_completion (co_usage (fold_completion c)) = u_completion u
    \<and> co_reported (fold_completion c)"
proof -
  obtain v vs where vs: "cc_usages c = v # vs" using assms by (cases "cc_usages c") auto
  obtain u where u: "foldl mergeUsage (Some v) vs = Some u" using foldl_mergeUsage_Some by blast
  with vs have "foldl mergeUsage None (cc_usages c) = Some u" by (simp add: mergeUsage_def)
  with foldl_mergeUsage [OF u] vs show ?thesis
    by (intro bexI [of _ u]) (auto simp: fold_completion_def floorTotal_def Let_def)
qed

lemma CachedTokens_bounds: "0 \<le> CachedTokens u" "0 \<le> u_prompt u \<Longrightarrow> 0 < u_prompt u \<Longrightarrow> CachedTokens u \<le> u_prompt u"
  by (auto simp: CachedTokens_def Let_def split: option.splits)

end
