(* ===== verification/Retry.thy ===== *)
theory Retry
  imports Messages "HOL-Library.Word"
begin

text \<open>
  The retry policy of \<open>extras/retry.go\<close>. The provider, the announcement to the caller and the sleep
  are operations of an environment over a world that is passed through; each may fail. Delays are
  \<open>time.Duration\<close>, a signed 64-bit count of nanoseconds, so the backoff's left shift can wrap.
\<close>

section \<open>The policy\<close>

type_synonym duration = "64 word"

record RetryPolicy =
  rp_maxAttempts :: int
  rp_baseDelay :: duration

definition defaultAttempts :: int where "defaultAttempts = 10"

definition DefaultRetry :: RetryPolicy where
  "DefaultRetry = \<lparr>rp_maxAttempts = defaultAttempts, rp_baseDelay = 500000000\<rparr>"

definition Attempts :: "RetryPolicy \<Rightarrow> int" where
  "Attempts p = (if rp_maxAttempts p > 0 then rp_maxAttempts p else defaultAttempts)"

definition base_delay :: "RetryPolicy \<Rightarrow> duration" where
  "base_delay p = (if sint (rp_baseDelay p) > 0 then rp_baseDelay p else 500000000)"

definition delay :: "RetryPolicy \<Rightarrow> int \<Rightarrow> duration" where
  "delay p attempt = push_bit (nat (attempt - 1)) (base_delay p)"

section \<open>The two retry loops\<close>

record RetryAttempt =
  ra_attempt :: int
  ra_of :: int
  ra_delay :: duration
  ra_err :: go_error

type_synonym call_outcome = "CoreCompletion option \<times> go_error option"

record 'w retry_env =
  env_send :: "'w \<Rightarrow> call_outcome \<times> 'w"
  env_announce :: "RetryAttempt \<Rightarrow> 'w \<Rightarrow> go_error option \<times> 'w"
  env_sleep :: "duration \<Rightarrow> 'w \<Rightarrow> go_error option \<times> 'w"

definition errEmptyCompletion :: go_error where
  "errEmptyCompletion = ErrorNew ''upstream returned no text, tool call, or thinking''"

definition completionIsEmpty :: "CoreCompletion option \<Rightarrow> bool" where
  "completionIsEmpty cm =
     (case cm of
        None \<Rightarrow> False
      | Some c \<Rightarrow>
          (let m = cc_message c in
           if trim_space (msg_content m) \<noteq> [] \<or> msg_calls m \<noteq> [] \<or> msg_parts m \<noteq> [] then False
           else \<not> list_ex (\<lambda>tb. tb_text tb \<noteq> [] \<or> tb_redacted tb \<noteq> []) (msg_thinking m)))"

text \<open>\<open>RetryPolicy.Do\<close>: the attempts left to make count down with \<open>n - attempt\<close>.\<close>

function policy_do :: "RetryPolicy \<Rightarrow> ('w \<Rightarrow> go_error option \<times> 'w) \<Rightarrow> (duration \<Rightarrow> 'w \<Rightarrow> go_error option \<times> 'w)
    \<Rightarrow> int \<Rightarrow> int \<Rightarrow> 'w \<Rightarrow> go_error option \<times> 'w" where
  "policy_do p fn sleep n attempt w =
     (let (err, w1) = fn w in
      if err = None then (None, w1)
      else if attempt \<ge> n \<or> \<not> IsTransient err then (err, w1)
      else (let (serr, w2) = sleep (delay p attempt) w1 in
            if serr \<noteq> None then (err, w2) else policy_do p fn sleep n (attempt + 1) w2))"
  by pat_completeness auto
termination
  by (relation "measure (\<lambda>(p, fn, sleep, n, attempt, w). nat (n - attempt))") auto

definition Do :: "RetryPolicy \<Rightarrow> ('w \<Rightarrow> go_error option \<times> 'w) \<Rightarrow> (duration \<Rightarrow> 'w \<Rightarrow> go_error option \<times> 'w)
    \<Rightarrow> 'w \<Rightarrow> go_error option \<times> 'w" where
  "Do p fn sleep w = policy_do p fn sleep (Attempts p) 1 w"

definition outcome_empty :: "call_outcome \<Rightarrow> bool" where
  "outcome_empty r \<longleftrightarrow> snd r = None \<and> completionIsEmpty (fst r)"

definition retryable :: "call_outcome \<Rightarrow> bool" where
  "retryable r \<longleftrightarrow> outcome_empty r \<or> (snd r \<noteq> None \<and> fst r = None \<and> IsTransient (snd r))"

function retry_loop :: "RetryPolicy \<Rightarrow> 'w retry_env \<Rightarrow> int \<Rightarrow> int \<Rightarrow> 'w \<Rightarrow> call_outcome \<times> 'w" where
  "retry_loop p env attempts attempt w =
     (let (r, w1) = env_send env w in
      if \<not> retryable r \<or> attempt \<ge> attempts then (r, w1)
      else
        (let retryErr = (if outcome_empty r then errEmptyCompletion else the (snd r));
             d = delay p attempt;
             (cberr, w2) = env_announce env
               \<lparr>ra_attempt = attempt, ra_of = attempts, ra_delay = d, ra_err = retryErr\<rparr> w1
         in case cberr of
              Some e \<Rightarrow> ((fst r, Some e), w2)
            | None \<Rightarrow>
                (let (serr, w3) = env_sleep env d w2 in
                 if serr \<noteq> None then (r, w3) else retry_loop p env attempts (attempt + 1) w3)))"
  by pat_completeness auto
termination
  by (relation "measure (\<lambda>(p, env, attempts, attempt, w). nat (attempts - attempt))") auto

declare policy_do.simps [simp del] retry_loop.simps [simp del]

definition retryWith :: "RetryPolicy \<Rightarrow> 'w retry_env \<Rightarrow> 'w \<Rightarrow> call_outcome \<times> 'w" where
  "retryWith p env w = retry_loop p env (Attempts p) 1 w"

text \<open>\<open>Retrying\<close> leaves a provider alone when the policy makes one attempt only.\<close>

definition Retrying :: "RetryPolicy option \<Rightarrow> 'w retry_env \<Rightarrow> 'w \<Rightarrow> call_outcome \<times> 'w" where
  "Retrying policy env w =
     (let resolved = (case policy of None \<Rightarrow> DefaultRetry | Some p \<Rightarrow> p)
      in if Attempts resolved \<le> 1 then env_send env w else retryWith resolved env w)"

section \<open>What the loop did, read off a log of its calls\<close>

lemma Attempts_pos: "1 \<le> Attempts p"
  by (auto simp: Attempts_def defaultAttempts_def)

datatype call_event =
    Sent call_outcome
  | Announced RetryAttempt "go_error option"
  | Slept duration "go_error option"

text \<open>The environment with a log of every call made of it and what came back.\<close>

definition logged_env :: "'w retry_env \<Rightarrow> (call_event list \<times> 'w) retry_env" where
  "logged_env env =
     \<lparr>env_send = (\<lambda>(tr, w). let (r, w) = env_send env w in (r, tr @ [Sent r], w)),
      env_announce = (\<lambda>a (tr, w). let (e, w) = env_announce env a w in (e, tr @ [Announced a e], w)),
      env_sleep = (\<lambda>d (tr, w). let (e, w) = env_sleep env d w in (e, tr @ [Slept d e], w))\<rparr>"

text \<open>
  When an attempt deserves another, in full: it failed with nothing received and a transient error (no
  cancellation or deadline; a status of 408, 429 or a server error, or no status and no fault of the
  request or the caller), or it succeeded with a completion that says nothing.
\<close>

definition transient_error :: "go_error \<Rightarrow> bool" where
  "transient_error e \<longleftrightarrow>
     \<not> error_is e Canceled \<and> \<not> error_is e DeadlineExceeded
     \<and> (\<forall>st bod ov. error_as is_api e = Some (APIError st bod ov) \<longrightarrow> st = 408 \<or> st = 429 \<or> st \<ge> 500)
     \<and> (error_as is_api e = None \<longrightarrow> error_as is_request e = None \<and> error_as is_callback e = None)"

definition says_nothing :: "CoreCompletion \<Rightarrow> bool" where
  "says_nothing c \<longleftrightarrow>
     trim_space (msg_content (cc_message c)) = [] \<and> msg_calls (cc_message c) = [] \<and> msg_parts (cc_message c) = []
     \<and> (\<forall>tb\<in>set (msg_thinking (cc_message c)). tb_text tb = [] \<and> tb_redacted tb = [])"

definition worth_another :: "call_outcome \<Rightarrow> bool" where
  "worth_another r \<longleftrightarrow>
     (\<exists>e. r = (None, Some e) \<and> transient_error e) \<or> (\<exists>c. r = (Some c, None) \<and> says_nothing c)"

lemma transient_error_iff: "IsTransient (Some e) \<longleftrightarrow> transient_error e"
proof (cases "error_as is_api e")
  case (Some x)
  then obtain st b ov where "x = APIError st b ov" using error_as_Some is_api_cases by blast
  with Some show ?thesis by (auto simp: IsTransient_def transient_error_def transient_status_def)
qed (auto simp: IsTransient_def transient_error_def)

lemma retryable_iff: "retryable r \<longleftrightarrow> worth_another r"
  by (cases r) (auto simp: retryable_def outcome_empty_def worth_another_def completionIsEmpty_def says_nothing_def
      transient_error_iff list_ex_iff Let_def split: option.splits)

text \<open>The pause before the attempt after number \<open>k\<close>: the base delay doubled every time, and the announcement of it.\<close>

definition pause :: "RetryPolicy \<Rightarrow> int \<Rightarrow> duration" where
  "pause p k = 2 ^ nat (k - 1) * (if sint (rp_baseDelay p) > 0 then rp_baseDelay p else 500000000)"

lemma delay_pause: "delay p k = pause p k"
  by (simp add: delay_def base_delay_def pause_def push_bit_eq_mult)

definition announcement :: "RetryPolicy \<Rightarrow> int \<Rightarrow> int \<Rightarrow> call_outcome \<Rightarrow> RetryAttempt" where
  "announcement p n k r = \<lparr>ra_attempt = k, ra_of = n, ra_delay = pause p k,
     ra_err = (case snd r of Some e \<Rightarrow> e | None \<Rightarrow> ErrorNew ''upstream returned no text, tool call, or thinking'')\<rparr>"

text \<open>Attempts from number \<open>k\<close> on that were each followed by another one.\<close>

primrec retried :: "RetryPolicy \<Rightarrow> int \<Rightarrow> int \<Rightarrow> call_outcome list \<Rightarrow> call_event list" where
  "retried p n k [] = []"
| "retried p n k (r # rs) = [Sent r, Announced (announcement p n k r) None, Slept (pause p k) None] @ retried p n (k + 1) rs"

text \<open>The last attempt, of number \<open>k\<close>: what was done after it, and what the caller gets.\<close>

definition ended :: "RetryPolicy \<Rightarrow> int \<Rightarrow> int \<Rightarrow> call_outcome \<Rightarrow> call_event list \<Rightarrow> call_outcome \<Rightarrow> bool" where
  "ended p n k r after out \<longleftrightarrow>
     (if \<not> worth_another r \<or> k = n then after = [] \<and> out = r
      else (\<exists>e. after = [Announced (announcement p n k r) (Some e)] \<and> out = (fst r, Some e)
              \<or> after = [Announced (announcement p n k r) None, Slept (pause p k) (Some e)] \<and> out = r))"

lemma retry_loop_log:
  "attempt \<le> n \<Longrightarrow>
    \<exists>rs r after. fst (snd (retry_loop p (logged_env env) n attempt lw)) = fst lw @ retried p n attempt rs @ Sent r # after
      \<and> (\<forall>x\<in>set rs. worth_another x) \<and> attempt + int (length rs) \<le> n
      \<and> ended p n (attempt + int (length rs)) r after (fst (retry_loop p (logged_env env) n attempt lw))"
proof (induction p "logged_env env" n attempt lw rule: retry_loop.induct)
  case (1 p n attempt lw)
  obtain tr w where lw: "lw = (tr, w)" by (cases lw)
  obtain r w1 where s1: "env_send env w = (r, w1)" by (cases "env_send env w")
  have l1: "env_send (logged_env env) lw = (r, tr @ [Sent r], w1)" using s1 by (simp add: logged_env_def lw)
  let ?run = "retry_loop p (logged_env env) n attempt lw"
  have stop: ?case if "?run = (out, tr @ Sent r # after, w')" "ended p n attempt r after out" for out after w'
    using that "1.prems" by (intro exI [of _ "[]"] exI [of _ r] exI [of _ after]) (simp add: lw)
  show ?case
  proof (cases "\<not> retryable r \<or> attempt \<ge> n")
    case True
    then have "?run = (r, tr @ [Sent r], w1)" by (simp add: retry_loop.simps [of p _ n attempt lw] l1)
    moreover have "ended p n attempt r [] r" using True "1.prems" by (auto simp: ended_def retryable_iff)
    ultimately show ?thesis by (rule stop)
  next
    case False
    define a where "a = \<lparr>ra_attempt = attempt, ra_of = n, ra_delay = delay p attempt,
      ra_err = (if outcome_empty r then errEmptyCompletion else the (snd r))\<rparr>"
    have a: "a = announcement p n attempt r"
      using False by (cases r) (auto simp: a_def announcement_def delay_pause retryable_def outcome_empty_def errEmptyCompletion_def
          split: option.split)
    obtain cb w2 where s2: "env_announce env a w1 = (cb, w2)" by (cases "env_announce env a w1")
    obtain serr w3 where s3: "env_sleep env (delay p attempt) w2 = (serr, w3)"
      by (cases "env_sleep env (delay p attempt) w2")
    let ?l2 = "(tr @ [Sent r, Announced a cb], w2)" and ?l3 = "(tr @ [Sent r, Announced a cb, Slept (delay p attempt) serr], w3)"
    have l2: "env_announce (logged_env env) a (tr @ [Sent r], w1) = (cb, ?l2)" using s2 by (simp add: logged_env_def)
    have l3: "env_sleep (logged_env env) (delay p attempt) ?l2 = (serr, ?l3)" using s3 by (simp add: logged_env_def)
    have unf: "?run = (case cb of Some e \<Rightarrow> ((fst r, Some e), ?l2)
       | None \<Rightarrow> if serr \<noteq> None then (r, ?l3) else retry_loop p (logged_env env) n (attempt + 1) ?l3)"
      unfolding retry_loop.simps [of p _ n attempt lw] l1 Let_def prod.case a_def [symmetric] l2
      using False l3 by (cases cb) simp_all
    have again: "\<not> (\<not> worth_another r \<or> attempt = n)" using False by (auto simp: retryable_iff)
    show ?thesis
    proof (cases cb)
      case (Some e)
      show ?thesis
        by (rule stop [of "(fst r, Some e)" "[Announced a cb]" w2]) (use unf Some again in \<open>simp_all add: ended_def a\<close>)
    next
      case None
      show ?thesis
      proof (cases serr)
        case s: (Some e)
        show ?thesis
          by (rule stop [of r "[Announced a cb, Slept (delay p attempt) serr]" w3])
            (use unf None s again in \<open>simp_all add: ended_def a delay_pause\<close>)
      next
        case s: None
        then have loop: "?run = retry_loop p (logged_env env) n (attempt + 1) ?l3" using unf None by simp
        have "attempt + 1 \<le> n" using False by simp
        have n': "\<not> serr \<noteq> None" using s by simp
        from "1.hyps" [OF refl l1 [symmetric] False refl refl refl l2 [symmetric, unfolded a_def] None refl l3 [symmetric, unfolded a_def] n' \<open>attempt + 1 \<le> n\<close>]
        obtain rs r' after where IH: "fst (snd ?run) = fst ?l3 @ retried p n (attempt + 1) rs @ Sent r' # after"
          "\<forall>x\<in>set rs. worth_another x" "attempt + 1 + int (length rs) \<le> n"
          "ended p n (attempt + 1 + int (length rs)) r' after (fst ?run)"
          unfolding loop a_def by fastforce
        show ?thesis
          using IH again None s a lw by (intro exI [of _ "r # rs"] exI [of _ r'] exI [of _ after]) (simp add: delay_pause add.assoc)
      qed
    qed
  qed
qed

text \<open>
  C16. What a call under the retry policy does, exactly. It is sent up to as many times as the policy
  allows (10 when it does not say); every attempt but the last deserved another (it failed with nothing
  received and a transient error, or came back with nothing in it), was announced with its number and its
  error and followed by a pause that doubles each time. The last attempt either did not deserve another or
  was the last allowed, and then it is the caller's, error included; or its announcement failed, and the
  caller gets that error with the attempt's completion; or its pause was cut short, and the caller gets
  the attempt. Nothing else is ever called.
\<close>

theorem retryWith_log:
  "\<exists>rs r after. let n = (if rp_maxAttempts p > 0 then rp_maxAttempts p else 10); k = 1 + int (length rs);
      (out, (tr', w')) = retryWith p (logged_env env) (tr, w)
    in tr' = tr @ retried p n 1 rs @ Sent r # after \<and> (\<forall>x\<in>set rs. worth_another x) \<and> k \<le> n \<and> ended p n k r after out"
proof -
  have n: "Attempts p = (if rp_maxAttempts p > 0 then rp_maxAttempts p else 10)" by (simp add: Attempts_def defaultAttempts_def)
  from retry_loop_log [OF Attempts_pos [of p], of p env "(tr, w)"] show ?thesis
    unfolding retryWith_def Let_def n by (simp add: case_prod_unfold)
qed

text \<open>An upstream that fails twice and then answers, under a policy of four attempts.\<close>

definition flaky_completion :: CoreCompletion where
  "flaky_completion = \<lparr>cc_message = (empty_message RoleAssistant)\<lparr>msg_content := ''hi''\<rparr>, cc_usages = [],
     cc_streamed = True, cc_stop = ''stop'', cc_model = ''m'', cc_routed = []\<rparr>"

definition flaky_env :: "call_outcome list retry_env" where
  "flaky_env = \<lparr>env_send = (\<lambda>w. let r = (if length w < 2 then (None, Some (APIError 503 [] False))
                                       else (Some flaky_completion, None)) in (r, w @ [r])),
     env_announce = (\<lambda>a w. (None, w)), env_sleep = (\<lambda>d w. (None, w))\<rparr>"

definition four_attempts :: RetryPolicy where
  "four_attempts = \<lparr>rp_maxAttempts = 4, rp_baseDelay = 5\<rparr>"

theorem retryWith_log_witness:
  "let (out, (tr, w)) = retryWith four_attempts (logged_env flaky_env) ([], [])
   in length tr = 7 \<and> out = (Some flaky_completion, None)
      \<and> (\<exists>rs r after. tr = retried four_attempts 4 1 rs @ Sent r # after \<and> ended four_attempts 4 (1 + int (length rs)) r after out)"
proof -
  let ?run = "retryWith four_attempts (logged_env flaky_env) ([], [])"
  have "fst ?run = (Some flaky_completion, None)" "length (fst (snd ?run)) = 7" by code_simp+
  moreover have "(if rp_maxAttempts four_attempts > 0 then rp_maxAttempts four_attempts else 10) = 4" by (simp add: four_attempts_def)
  ultimately show ?thesis
    using retryWith_log [of four_attempts flaky_env "[]" "[]"] by (simp add: Let_def case_prod_unfold) blast
qed

section \<open>The backoff\<close>

lemma push_bit_unat: "unat x * 2 ^ k < 2 ^ LENGTH('a) \<Longrightarrow> unat (push_bit k x) = unat x * 2 ^ k"
  for x :: "'a::len word"
  by (simp only: unsigned_push_bit_eq) (simp add: push_bit_eq_mult take_bit_nat_eq_self)

lemma DefaultRetry_delay:
  assumes "1 \<le> a" "a \<le> defaultAttempts"
  shows "unat (delay DefaultRetry a) = 500000000 * 2 ^ nat (a - 1)"
proof -
  have b: "base_delay DefaultRetry = 500000000"
    by (simp add: base_delay_def DefaultRetry_def)
  have "(2::nat) ^ nat (a - 1) \<le> 2 ^ 9"
    using assms by (intro power_increasing) (auto simp: defaultAttempts_def)
  then show ?thesis
    unfolding delay_def b by (subst push_bit_unat) auto
qed

end
