(* ===== verification/RateLimit.thy ===== *)
theory RateLimit
  imports Prelude Complex_Main
begin

text \<open>
  The fixed-rate gate of \<open>extras/ratelimit.go\<close>. A caller that takes the lock at time \<open>t\<close> (nanoseconds
  of a clock that never goes back) is told how long to sleep; its request starts when the sleep ends.
  The sleep is taken to last exactly as long as asked.
\<close>

section \<open>The limiter\<close>

record RateLimiter =
  rl_interval :: int
  rl_next :: "int option"      \<comment> \<open>the zero time is \<open>None\<close>\<close>

definition minute :: int where "minute = 60000000000"

definition NewRateLimiter :: "int \<Rightarrow> RateLimiter" where
  "NewRateLimiter n = (let n = (if n < 1 then 1 else n) in \<lparr>rl_interval = minute div n, rl_next = None\<rparr>)"

text \<open>\<open>Wait\<close>: the sleep the caller is given, and the limiter it leaves behind.\<close>

definition Wait :: "RateLimiter \<Rightarrow> int \<Rightarrow> int \<times> RateLimiter" where
  "Wait l t =
     (case rl_next l of
        None \<Rightarrow> (0, l\<lparr>rl_next := Some (t + rl_interval l)\<rparr>)
      | Some nxt \<Rightarrow>
          if \<not> t < nxt then (0, l\<lparr>rl_next := Some (t + rl_interval l)\<rparr>)
          else (nxt - t, l\<lparr>rl_next := Some (nxt + rl_interval l)\<rparr>))"

text \<open>The start times of the requests of callers that arrive at the given times, in lock order.\<close>

fun starts :: "RateLimiter \<Rightarrow> int list \<Rightarrow> int list" where
  "starts l [] = []"
| "starts l (t # ts) = (let (d, l') = Wait l t in (t + d) # starts l' ts)"

section \<open>Spacing\<close>

fun spaced :: "int \<Rightarrow> int list \<Rightarrow> bool" where
  "spaced i (a # b # xs) \<longleftrightarrow> a + i \<le> b \<and> spaced i (b # xs)"
| "spaced i xs \<longleftrightarrow> True"

lemma spaced_Cons: "spaced i (a # xs) \<longleftrightarrow> (xs \<noteq> [] \<longrightarrow> a + i \<le> hd xs) \<and> spaced i xs"
  by (cases xs) auto

lemma Wait_interval [simp]: "rl_interval (snd (Wait l t)) = rl_interval l"
  by (auto simp: Wait_def split: option.splits)

lemma Wait_start:
  "t + fst (Wait l t) = (case rl_next l of None \<Rightarrow> t | Some nxt \<Rightarrow> max t nxt)"
  "rl_next (snd (Wait l t)) = Some (t + fst (Wait l t) + rl_interval l)"
  by (auto simp: Wait_def split: option.splits)

lemma starts_Cons:
  "starts l (t # ts) = (t + fst (Wait l t)) # starts (snd (Wait l t)) ts"
  by (simp add: case_prod_beta)

declare starts.simps(2) [simp del]

lemma length_starts [simp]: "length (starts l ts) = length ts"
  by (induction ts arbitrary: l) (auto simp: starts_Cons)

lemma starts_hd: "rl_next l = Some nxt \<Longrightarrow> ts \<noteq> [] \<Longrightarrow> hd (starts l ts) = max (hd ts) nxt"
  by (cases ts) (auto simp: starts_Cons Wait_start)

lemma starts_spaced: "spaced (rl_interval l) (starts l ts)"
proof (induction ts arbitrary: l)
  case (Cons t ts)
  let ?l = "snd (Wait l t)"
  have "starts ?l ts \<noteq> [] \<Longrightarrow> t + fst (Wait l t) + rl_interval l \<le> hd (starts ?l ts)"
    using starts_hd [OF Wait_start(2) [of l t], of ts] by (cases ts) (auto simp: starts_Cons)
  with Cons [of ?l] show ?case by (auto simp: starts_Cons spaced_Cons)
qed simp

text \<open>No caller is held longer than the gate requires, and none starts before it arrived.\<close>

lemma starts_ge: "i < length ts \<Longrightarrow> ts ! i \<le> starts l ts ! i"
proof (induction ts arbitrary: i l)
  case (Cons t ts)
  then show ?case
    by (cases i) (auto simp: starts_Cons Wait_start split: option.splits)
qed simp

lemma starts_step:
  "Suc k < length ts \<Longrightarrow>
   starts l ts ! Suc k = max (ts ! Suc k) (starts l ts ! k + rl_interval l)"
proof (induction ts arbitrary: k l)
  case (Cons t ts)
  show ?case
  proof (cases k)
    case 0
    with Cons.prems obtain u us where "ts = u # us" by (cases ts) auto
    with 0 show ?thesis by (simp add: starts_Cons Wait_start)
  next
    case (Suc j)
    with Cons.IH [of j "snd (Wait l t)"] Cons.prems show ?thesis by (simp add: starts_Cons)
  qed
qed simp

lemma spaced_lower: "spaced i (a # xs) \<Longrightarrow> 0 \<le> i \<Longrightarrow> x \<in> set xs \<Longrightarrow> a + i \<le> x"
proof (induction xs arbitrary: a)
  case (Cons b xs)
  then show ?case by (cases "x = b") (force simp: spaced_Cons)+
qed simp

lemma spaced_window:
  assumes "spaced i xs" "0 < i" "\<forall>s\<in>set xs. x \<le> s"
  shows "int (length (filter (\<lambda>s. s < x + w) xs)) \<le> (if w \<le> 0 then 0 else (w - 1) div i + 1)"
  using assms
proof (induction xs arbitrary: x w)
  case (Cons a xs)
  show ?case
  proof (cases "a < x + w")
    case True
    with Cons.prems have w: "0 < w" "x \<le> a" by auto
    have ge: "\<forall>s\<in>set xs. a + i \<le> s" using Cons.prems spaced_lower by auto
    have "int (length (filter (\<lambda>s. s < (a + i) + (x + w - a - i)) xs))
      \<le> (if x + w - a - i \<le> 0 then 0 else (x + w - a - i - 1) div i + 1)"
      using Cons.prems ge by (intro Cons.IH) (auto simp: spaced_Cons)
    also have "\<dots> \<le> (w - 1) div i"
    proof (cases "x + w - a - i \<le> 0")
      case False
      have "(x + w - a - i - 1) div i + 1 = (x + w - a - 1) div i"
        using \<open>0 < i\<close> div_add_self2 [of i "x + w - a - i - 1"] by (simp add: algebra_simps)
      also have "\<dots> \<le> (w - 1) div i" using \<open>0 < i\<close> w by (intro zdiv_mono1) auto
      finally show ?thesis using False by simp
    qed (use w \<open>0 < i\<close> in \<open>auto simp: pos_imp_zdiv_nonneg_iff\<close>)
    finally have "int (length (filter (\<lambda>s. s < x + w) xs)) \<le> (w - 1) div i" by simp
    with True w show ?thesis by simp
  next
    case False
    with Cons.IH [of x w] Cons.prems show ?thesis by (auto simp: spaced_Cons)
  qed
next
  case Nil
  have "0 \<le> (w - 1) div i" if "0 < w" using that \<open>0 < i\<close> by (simp add: pos_imp_zdiv_nonneg_iff)
  then show ?case by fastforce
qed

lemma spaced_filter_ge: "spaced i xs \<Longrightarrow> 0 \<le> i \<Longrightarrow> spaced i (filter (\<lambda>s. x \<le> s) xs)"
proof (induction xs)
  case (Cons a xs)
  have "a + i \<le> hd (filter (\<lambda>s. x \<le> s) xs)" if "filter (\<lambda>s. x \<le> s) xs \<noteq> []"
  proof -
    from that have "hd (filter (\<lambda>s. x \<le> s) xs) \<in> set xs"
      using hd_in_set by fastforce
    with Cons.prems show ?thesis by (intro spaced_lower) auto
  qed
  with Cons show ?case by (auto simp: spaced_Cons)
qed simp

text \<open>
  C17. Whatever the arrivals, the number of requests a limiter for \<open>n\<close> a minute starts within any
  minute is at most the minute divided by the limiter's interval, rounded up; every two neighbouring
  starts are an interval apart, no caller is held longer than that requires, and when \<open>n\<close> divides the
  minute's nanoseconds the bound is \<open>n\<close>.
\<close>

theorem rate_limit_window:
  assumes "1 \<le> n" "n \<le> minute"
  shows "int (length (filter (\<lambda>s. x \<le> s \<and> s < x + minute) (starts (NewRateLimiter n) ts))) \<le> (minute - 1) div (minute div n) + 1
    \<and> (n dvd minute \<longrightarrow> (minute - 1) div (minute div n) + 1 = n)
    \<and> (\<forall>k. Suc k < length ts \<longrightarrow>
        starts (NewRateLimiter n) ts ! Suc k
          = max (ts ! Suc k) (starts (NewRateLimiter n) ts ! k + minute div n))"
proof (intro conjI impI allI)
  have i: "rl_interval (NewRateLimiter n) = minute div n" "0 < minute div n"
    using assms by (auto simp: NewRateLimiter_def minute_def pos_imp_zdiv_pos_iff)
  let ?ss = "starts (NewRateLimiter n) ts"
  let ?f = "filter (\<lambda>s. x \<le> s) ?ss"
  have "spaced (minute div n) ?f"
    using starts_spaced [of "NewRateLimiter n" ts] i by (intro spaced_filter_ge) (simp_all only: i less_imp_le)
  from spaced_window [OF this i(2), of x minute]
  have "int (length (filter (\<lambda>s. s < x + minute) ?f)) \<le> (minute - 1) div (minute div n) + 1"
    by (simp add: minute_def del: filter_filter)
  then show "int (length (filter (\<lambda>s. x \<le> s \<and> s < x + minute) ?ss)) \<le> (minute - 1) div (minute div n) + 1"
    by simp
  show "?ss ! Suc k = max (ts ! Suc k) (?ss ! k + minute div n)" if "Suc k < length ts" for k
    using starts_step [OF that, of "NewRateLimiter n"] by (simp only: i)
next
  assume "n dvd minute"
  then obtain k where k: "minute = n * k" by auto
  have "0 < n * k" using k by (simp add: minute_def)
  with assms have "0 < k" by (simp add: zero_less_mult_iff)
  have "(n * k - 1) div k = n - 1"
    using \<open>0 < k\<close> div_mult_self1 [of k "k - 1" "n - 1"] by (simp add: algebra_simps)
  moreover have "minute div n = k" unfolding k
    by (rule nonzero_mult_div_cancel_left) (use assms(1) in linarith)
  ultimately show "(minute - 1) div (minute div n) + 1 = n" using k by simp
qed

theorem rate_limit_window_witness:
  "(1::int) \<le> 60 \<and> 60 \<le> minute
   \<and> starts (NewRateLimiter 60) [0, 5, 3000000000] = [0, 1000000000, 3000000000]
   \<and> length (filter (\<lambda>s. 0 \<le> s \<and> s < 0 + minute) (starts (NewRateLimiter 60) [0, 5, 3000000000])) \<le> 60"
proof -
  have run: "starts (NewRateLimiter 60) [0, 5, 3000000000] = [0, 1000000000, 3000000000]" by code_simp
  have "int (length (filter (\<lambda>s. 0 \<le> s \<and> s < 0 + minute) (starts (NewRateLimiter 60) [0, 5, 3000000000]))) \<le> 60"
    using rate_limit_window [of 60 0 "[0, 5, 3000000000]"] by (simp add: minute_def)
  with run show ?thesis by (simp add: minute_def)
qed

text \<open>
  The interval is rounded down to whole nanoseconds, so when \<open>n\<close> does not divide the minute a saturated
  limiter admits one request more than \<open>n\<close> inside a minute.
\<close>

lemma rate_limit_exceeds_cap:
  "length (filter (\<lambda>s. 0 \<le> s \<and> s < minute) (starts (NewRateLimiter 7) (replicate 8 0))) = 8"
  by code_simp

end
