(* ===== verification/Tools.thy ===== *)
theory Tools
  imports Messages
begin

text \<open>
  Tools and the resolution of one call (\<open>internal/loop/tools.go\<close>, \<open>message.go\<close>, \<open>run_tools.go\<close>,
  \<open>arghook.go\<close>), with the small helpers of the loop that read a batch or a turn
  (\<open>batchFingerprint\<close>, \<open>sameCalls\<close>, \<open>withoutCalls\<close>, \<open>fallbackOutput\<close>). A host's code (a tool's
  \<open>Execute\<close>, an approver, an argument hook) is a function over a world that is passed through.
\<close>

section \<open>Tools and results\<close>

record ToolContentPart =
  tp_type :: string
  tp_text :: string
  tp_data :: string
  tp_mime :: string
  tp_uri :: string
  tp_name :: string
  tp_description :: string

record ToolResult =
  tr_content :: string
  tr_parts :: "ToolContentPart list"
  tr_is_error :: bool

record Approval =
  ap_ok :: bool
  ap_reason :: string

definition DeniedMessage :: string where
  "DeniedMessage = ''The user denied permission to run this tool.''"

record 'w ArgHook =
  ah_key :: string
  ah_on :: "(string \<Rightarrow> 'w \<Rightarrow> ToolResult option \<times> 'w) option"

text \<open>\<open>t_execute\<close> gets the call id the context carries and the raw arguments.\<close>

record 'w Tool =
  t_decl :: ToolDecl
  t_execute :: "string \<Rightarrow> string \<Rightarrow> 'w \<Rightarrow> (ToolResult \<times> go_error option) \<times> 'w"
  t_hooks :: "'w ArgHook list"

type_synonym 'w Tools = "'w Tool option list"

definition Decls :: "'w Tools \<Rightarrow> ToolDecl list" where
  "Decls ts = concat (map (\<lambda>t. case t of
       None \<Rightarrow> []
     | Some t \<Rightarrow> if decl_name (t_decl t) \<noteq> [] then [t_decl t] else []) ts)"

fun Find :: "'w Tools \<Rightarrow> string \<Rightarrow> 'w Tool option" where
  "Find [] name = None"
| "Find (None # ts) name = Find ts name"
| "Find (Some t # ts) name = (if decl_name (t_decl t) = name then Some t else Find ts name)"

definition ReadonlyTools :: "'w Tools \<Rightarrow> 'w Tools" where
  "ReadonlyTools ts = filter (\<lambda>t. case t of
       None \<Rightarrow> False
     | Some t \<Rightarrow> decl_readonly (t_decl t) \<and> decl_name (t_decl t) \<noteq> []) ts"

definition Subset :: "'w Tools \<Rightarrow> string list \<Rightarrow> 'w Tools" where
  "Subset ts names =
     (if names = [] then []
      else filter (\<lambda>t. case t of
           None \<Rightarrow> False
         | Some t \<Rightarrow> decl_name (t_decl t) \<noteq> [] \<and> decl_name (t_decl t) \<in> set names) ts)"

definition Names :: "'w Tools \<Rightarrow> string list" where
  "Names ts = map decl_name (Decls ts)"

section \<open>Resolving a call\<close>

definition deniedText :: "string \<Rightarrow> string" where
  "deniedText reason = (let r = trim_space reason in if r \<noteq> [] then r else DeniedMessage)"

type_synonym 'w Approver = "ToolCall \<Rightarrow> 'w \<Rightarrow> (Approval \<times> go_error option) \<times> 'w"

abbreviation error_result :: "string \<Rightarrow> ToolResult" where
  "error_result t \<equiv> \<lparr>tr_content = t, tr_parts = [], tr_is_error = True\<rparr>"

definition zero_result :: ToolResult where
  "zero_result = \<lparr>tr_content = [], tr_parts = [], tr_is_error = False\<rparr>"

definition execute_call :: "'w Tool \<Rightarrow> ToolCall \<Rightarrow> 'w \<Rightarrow> (ToolResult \<times> go_error option) \<times> 'w" where
  "execute_call tool call w =
     (let ((r, exErr), w) = t_execute tool (tc_id call) (tc_args call) w
      in case exErr of
           None \<Rightarrow> ((r, None), w)
         | Some e \<Rightarrow> ((error_result (''tool execution failed: '' @ error_text e), None), w))"

definition resolveCall :: "'w Tools \<Rightarrow> 'w Approver option \<Rightarrow> (string \<Rightarrow> string) option \<Rightarrow> ToolCall \<Rightarrow> 'w
    \<Rightarrow> (ToolResult \<times> go_error option) \<times> 'w" where
  "resolveCall tools approver unknown call w =
     (case Find tools (tc_name call) of
        None \<Rightarrow>
          let txt = (case unknown of None \<Rightarrow> ''unknown tool: '' @ tc_name call | Some f \<Rightarrow> f (tc_name call))
          in ((error_result txt, None), w)
      | Some tool \<Rightarrow>
          (case approver of
             None \<Rightarrow>
               if \<not> decl_readonly (t_decl tool) then ((error_result DeniedMessage, None), w)
               else execute_call tool call w
           | Some ask \<Rightarrow>
               (let ((verdict, aerr), w) = ask call w
                in case aerr of
                     Some e \<Rightarrow> ((zero_result, Some (Wrapped ''agentic: tool approval interrupted: '' e)), w)
                   | None \<Rightarrow>
                       if \<not> ap_ok verdict then ((error_result (deniedText (ap_reason verdict)), None), w)
                       else execute_call tool call w)))"

text \<open>Whether the host lets a call run: what the approver says, and without one, read-only tools only.\<close>

definition permitted :: "'w Tools \<Rightarrow> 'w Approver option \<Rightarrow> ToolCall \<Rightarrow> 'w \<Rightarrow> bool" where
  "permitted tools approver call w \<longleftrightarrow>
     (case Find tools (tc_name call) of
        None \<Rightarrow> False
      | Some tool \<Rightarrow>
          (case approver of
             None \<Rightarrow> decl_readonly (t_decl tool)
           | Some ask \<Rightarrow> (let ((verdict, aerr), w) = ask call w in aerr = None \<and> ap_ok verdict)))"

section \<open>Batches and turns\<close>

definition call_print :: "ToolCall \<Rightarrow> string" where
  "call_print c =
     itoa (int (length (tc_name c))) @ '':'' @ tc_name c @ ''|''
     @ itoa (int (length (tc_args c))) @ '':'' @ tc_args c @ ''|''"

definition batchFingerprint :: "ToolCall list \<Rightarrow> string" where
  "batchFingerprint calls = concat (map call_print calls)"

definition sameCalls :: "ToolCall list \<Rightarrow> ToolCall list \<Rightarrow> bool" where
  "sameCalls a b \<longleftrightarrow> length a = length b \<and> list_all2 (=) a b"

fun is_call_part :: "Part \<Rightarrow> bool" where
  "is_call_part (ToolCallPart _ _ _) = True" | "is_call_part _ = False"

definition withoutCalls :: "Message \<Rightarrow> string \<Rightarrow> Message" where
  "withoutCalls m i =
     (let out = m\<lparr>msg_calls := [], msg_parts := filter (\<lambda>p. \<not> is_call_part p) (msg_parts m)\<rparr>
      in if i \<noteq> [] then out\<lparr>msg_id := i\<rparr> else out)"

definition noOutputPlaceholder :: string where
  "noOutputPlaceholder = ''(no output was produced this turn)''"

definition fallbackOutput :: "Message \<Rightarrow> string" where
  "fallbackOutput m =
     (let s = trim_space (msg_content m) in
      if s \<noteq> [] then s
      else (let t = trim_space (concat (map tb_text (msg_thinking m))) in
            if t \<noteq> [] then t else noOutputPlaceholder))"

text \<open>\<open>argHooksFor\<close>: the hook lookup of a turn; \<open>None\<close> watches nothing.\<close>

definition tool_hooks :: "'w Tools \<Rightarrow> string \<Rightarrow> 'w ArgHook list" where
  "tool_hooks tools name = (case Find tools name of None \<Rightarrow> [] | Some t \<Rightarrow> t_hooks t)"

definition argHooksFor :: "'w Tools \<Rightarrow> ToolDecl list \<Rightarrow> (string \<Rightarrow> 'w ArgHook list) option" where
  "argHooksFor tools advertised =
     (if list_ex (\<lambda>d. tool_hooks tools (decl_name d) \<noteq> []) advertised then Some (tool_hooks tools) else None)"

section \<open>The advertised set\<close>

lemma Names_Subset: "Names (Subset ts ns) = filter (\<lambda>n. n \<in> set ns) (Names ts)"
proof (cases "ns = []")
  case False
  then show ?thesis
    by (induction ts) (auto simp: Names_def Subset_def Decls_def split: option.splits)
qed (simp add: Names_def Subset_def Decls_def)

lemma Find_name: "Find ts n = Some t \<Longrightarrow> decl_name (t_decl t) = n \<and> Some t \<in> set ts"
  by (induction ts n rule: Find.induct) (auto split: if_splits)

lemma Find_None_iff: "n \<noteq> [] \<Longrightarrow> Find ts n = None \<longleftrightarrow> n \<notin> set (Names ts)"
  by (induction ts n rule: Find.induct) (auto simp: Names_def Decls_def)

text \<open>Every advertised name resolves, to the first tool that claims it.\<close>

lemma advertised_resolves:
  assumes "d \<in> set (Decls ts)"
  shows "\<exists>t. Find ts (decl_name d) = Some t"
proof -
  have "decl_name d \<noteq> []" using assms by (auto simp: Decls_def split: option.splits if_splits)
  moreover have "decl_name d \<in> set (Names ts)" using assms by (simp add: Names_def)
  ultimately have "Find ts (decl_name d) \<noteq> None" by (simp add: Find_None_iff)
  then show ?thesis by blast
qed

lemma Find_map_execute:
  "Find (map (map_option (\<lambda>t. t\<lparr>t_execute := f\<rparr>)) ts) n = map_option (\<lambda>t. t\<lparr>t_execute := f\<rparr>) (Find ts n)"
  by (induction ts n rule: Find.induct) auto

lemma sameCalls_iff [simp]: "sameCalls a b \<longleftrightarrow> a = b"
  by (auto simp: sameCalls_def list.rel_eq)

lemma fallbackOutput_nonempty [simp]: "fallbackOutput m \<noteq> []"
  by (auto simp: fallbackOutput_def Let_def noOutputPlaceholder_def)

lemma withoutCalls_simps [simp]:
  "msg_calls (withoutCalls m i) = []" "msg_content (withoutCalls m i) = msg_content m"
  "msg_role (withoutCalls m i) = msg_role m"
  by (simp_all add: withoutCalls_def Let_def)

text \<open>
  C10. A call the host does not let run never executes its tool: the answer, the error and everything the
  resolution does to the world are the same whatever the tools' \<open>Execute\<close> would have done. The answer
  is then marked as an error, unless the approval itself failed, which is the only error there is.
\<close>

theorem resolveCall_fail_closed:
  assumes "\<not> permitted tools approver call w"
  shows "resolveCall tools approver unknown call w
      = resolveCall (map (map_option (\<lambda>t. t\<lparr>t_execute := f\<rparr>)) tools) approver unknown call w
    \<and> (case fst (resolveCall tools approver unknown call w) of
         (r, None) \<Rightarrow> tr_is_error r
       | (r, Some e) \<Rightarrow> (\<exists>ask e'. approver = Some ask \<and> snd (fst (ask call w)) = Some e'
           \<and> e = Wrapped ''agentic: tool approval interrupted: '' e'))"
proof (cases "Find tools (tc_name call)")
  case None
  then show ?thesis by (simp add: resolveCall_def Find_map_execute)
next
  case (Some tool)
  show ?thesis
  proof (cases approver)
    case None
    with Some assms show ?thesis by (simp add: resolveCall_def permitted_def Find_map_execute)
  next
    case ask: (Some ask)
    obtain v ae w' where "ask call w = ((v, ae), w')" by (metis surj_pair)
    with Some ask assms show ?thesis
      by (cases ae) (simp_all add: resolveCall_def permitted_def Find_map_execute)
  qed
qed

definition deletion_tools :: "nat Tools" where
  "deletion_tools = [Some \<lparr>t_decl = \<lparr>decl_name = ''rm'', decl_description = [], decl_schema = [],
     decl_readonly = False, decl_destructive = None, decl_idempotent = False, decl_openWorld = None,
     decl_unvouched = False\<rparr>, t_execute = (\<lambda>i a w. ((zero_result, None), Suc w)), t_hooks = []\<rparr>]"

theorem resolveCall_fail_closed_witness:
  "\<not> permitted deletion_tools None \<lparr>tc_id = ''1'', tc_name = ''rm'', tc_args = ''{}''\<rparr> 0
   \<and> snd (resolveCall deletion_tools None None \<lparr>tc_id = ''1'', tc_name = ''rm'', tc_args = ''{}''\<rparr> 0) = 0
   \<and> tr_is_error (fst (fst (resolveCall deletion_tools None None \<lparr>tc_id = ''1'', tc_name = ''rm'', tc_args = ''{}''\<rparr> 0)))"
proof -
  let ?c = "\<lparr>tc_id = ''1'', tc_name = ''rm'', tc_args = ''{}''\<rparr>"
  have np: "\<not> permitted deletion_tools None ?c 0" by (simp add: permitted_def deletion_tools_def)
  have r: "resolveCall deletion_tools None None ?c 0 = ((error_result DeniedMessage, None), 0)"
    by (simp add: resolveCall_def deletion_tools_def)
  from resolveCall_fail_closed [OF np, of None] np r show ?thesis by simp
qed

section \<open>Fingerprints\<close>

lemma digits_then_colon:
  assumes "nat_digits m @ CHR '':'' # s = nat_digits n @ CHR '':'' # t"
  shows "m = n \<and> s = t"
proof -
  have nd: "\<forall>c\<in>set (nat_digits k). c \<noteq> CHR '':''" for k
    using nat_digits_digits [of "CHR '':''" k] by (auto simp: is_digit_def)
  have "takeWhile (\<lambda>c. c \<noteq> CHR '':'') (nat_digits k @ CHR '':'' # u) = nat_digits k" for k u
    using nd [of k] by (simp add: takeWhile_append2)
  then have "nat_digits m = nat_digits n" using assms by metis
  with assms show ?thesis by simp
qed

lemma field_then_bar:
  assumes "itoa (int (length x)) @ '':'' @ x @ s = itoa (int (length y)) @ '':'' @ y @ t"
  shows "x = y \<and> s = t"
proof -
  have "length x = length y \<and> x @ s = y @ t"
    using assms digits_then_colon [of "length x" "x @ s" "length y" "y @ t"] by (simp add: itoa_def)
  then show ?thesis using append_eq_append_conv [of x y s t] by blast
qed

lemma call_print_inject:
  assumes "call_print c @ s = call_print d @ t"
  shows "tc_name c = tc_name d \<and> tc_args c = tc_args d \<and> s = t"
proof -
  let ?r = "\<lambda>c s. itoa (int (length (tc_args c))) @ '':'' @ tc_args c @ ''|'' @ s"
  have "itoa (int (length (tc_name c))) @ '':'' @ tc_name c @ (CHR ''|'' # ?r c s)
      = itoa (int (length (tc_name d))) @ '':'' @ tc_name d @ (CHR ''|'' # ?r d t)"
    using assms by (simp add: call_print_def)
  from field_then_bar [OF this] have n: "tc_name c = tc_name d" and r: "?r c s = ?r d t" by auto
  from field_then_bar [OF r] n show ?thesis by simp
qed

text \<open>
  Two batches have the same fingerprint exactly when they ask for the same tools with the same
  argument text in the same order: no name or argument, whatever bytes it holds, can make a different
  batch look like a repetition, and call ids do not count.
\<close>

theorem batchFingerprint_iff:
  "batchFingerprint cs = batchFingerprint ds
     \<longleftrightarrow> map (\<lambda>c. (tc_name c, tc_args c)) cs = map (\<lambda>c. (tc_name c, tc_args c)) ds"
proof
  have ne: "call_print c \<noteq> []" for c by (simp add: call_print_def)
  assume "batchFingerprint cs = batchFingerprint ds"
  then show "map (\<lambda>c. (tc_name c, tc_args c)) cs = map (\<lambda>c. (tc_name c, tc_args c)) ds"
  proof (induction cs arbitrary: ds)
    case Nil
    then show ?case using ne by (cases ds) (auto simp: batchFingerprint_def)
  next
    case (Cons c cs)
    then obtain d ds' where ds: "ds = d # ds'" using ne by (cases ds) (auto simp: batchFingerprint_def)
    with Cons.prems have "call_print c @ batchFingerprint cs = call_print d @ batchFingerprint ds'"
      by (simp add: batchFingerprint_def)
    from call_print_inject [OF this] Cons.IH ds show ?case by simp
  qed
next
  assume eq: "map (\<lambda>c. (tc_name c, tc_args c)) cs = map (\<lambda>c. (tc_name c, tc_args c)) ds"
  then show "batchFingerprint cs = batchFingerprint ds"
  proof (induction cs arbitrary: ds)
    case (Cons c cs)
    then obtain d ds' where "ds = d # ds'" by (cases ds) auto
    with Cons show ?case by (auto simp: batchFingerprint_def call_print_def)
  qed simp
qed

end
