(* ===== verification/OutputDedup.thy ===== *)
theory OutputDedup
  imports Tools
begin

text \<open>
  The deduper of read-only tool results (\<open>internal/loop/dedup.go\<close>). SHA-256 in hexadecimal is the
  parameter \<open>digest\<close>; what the statements need of it (a fixed length, no collision among the contents
  seen) is a hypothesis there.
\<close>

section \<open>The deduper\<close>

definition UnchangedPrefix :: string where "UnchangedPrefix = ''[unchanged]''"

definition maxDedupEntries :: nat where "maxDedupEntries = 512"

record OutputDeduper =
  dd_keys :: "string list"
  dd_seen :: "string \<rightharpoonup> int"

definition NewOutputDeduper :: OutputDeduper where
  "NewOutputDeduper = \<lparr>dd_keys = [], dd_seen = Map.empty\<rparr>"

definition Reset :: "OutputDeduper \<Rightarrow> OutputDeduper" where
  "Reset d = \<lparr>dd_keys = [], dd_seen = Map.empty\<rparr>"

definition unchangedMarker :: "string \<Rightarrow> int \<Rightarrow> string" where
  "unchangedMarker tool n =
     UnchangedPrefix @ '' The output of '' @ tool
     @ '' is byte-identical to an earlier call in this conversation (repeat #'' @ itoa n
     @ ''). Nothing has changed '' @ [CHR 0xE2, CHR 0x80, CHR 0x94]
     @ '' reference that earlier result rather than re-reading it. If you did change the arguments, ''
     @ ''the difference made no difference: either it genuinely does not affect the result, or this tool ''
     @ ''ignores the field you changed '' @ [CHR 0xE2, CHR 0x80, CHR 0x94]
     @ '' check its schema before trying a third phrasing.''"

definition collapsible :: "ToolDecl \<Rightarrow> ToolResult \<Rightarrow> bool" where
  "collapsible tool r \<longleftrightarrow> decl_readonly tool \<and> decl_name tool \<noteq> [] \<and> \<not> tr_is_error r"

definition dedup_key :: "(string \<Rightarrow> string) \<Rightarrow> ToolDecl \<Rightarrow> ToolResult \<Rightarrow> string" where
  "dedup_key digest tool r = decl_name tool @ [CHR 0x00] @ digest (tr_content r)"

definition Collapse :: "(string \<Rightarrow> string) \<Rightarrow> ToolDecl \<Rightarrow> ToolResult \<Rightarrow> OutputDeduper
    \<Rightarrow> (string \<times> bool) \<times> OutputDeduper" where
  "Collapse digest tool r d =
     (if \<not> decl_readonly tool \<or> decl_name tool = [] \<or> tr_is_error r then ((tr_content r, False), d)
      else
        (let key = dedup_key digest tool r in
         case dd_seen d key of
           Some n \<Rightarrow> ((unchangedMarker (decl_name tool) (n + 1), True),
                      d\<lparr>dd_seen := (dd_seen d)(key \<mapsto> n + 1)\<rparr>)
         | None \<Rightarrow>
             (let seen = (dd_seen d)(key \<mapsto> 1); keys = dd_keys d @ [key] in
              if length keys > maxDedupEntries
              then ((tr_content r, False), \<lparr>dd_keys = tl keys, dd_seen = seen(hd keys := None)\<rparr>)
              else ((tr_content r, False), \<lparr>dd_keys = keys, dd_seen = seen\<rparr>))))"

section \<open>Histories\<close>

datatype dedup_op = ResetOp | CollapseOp ToolDecl ToolResult

fun dedup_do :: "(string \<Rightarrow> string) \<Rightarrow> dedup_op \<Rightarrow> OutputDeduper \<Rightarrow> OutputDeduper" where
  "dedup_do digest ResetOp d = Reset d"
| "dedup_do digest (CollapseOp t r) d = snd (Collapse digest t r d)"

definition dedup_run :: "(string \<Rightarrow> string) \<Rightarrow> dedup_op list \<Rightarrow> OutputDeduper" where
  "dedup_run digest ops = foldl (\<lambda>d op. dedup_do digest op d) NewOutputDeduper ops"

lemma dedup_run_snoc [simp]: "dedup_run digest (ops @ [op]) = dedup_do digest op (dedup_run digest ops)"
  by (simp add: dedup_run_def)

text \<open>The keys delivered in full since the last reset, oldest first.\<close>

definition full_step :: "(string \<Rightarrow> string) \<Rightarrow> dedup_op \<Rightarrow> OutputDeduper \<times> string list \<Rightarrow> OutputDeduper \<times> string list" where
  "full_step digest op s =
     (dedup_do digest op (fst s),
      (case op of
         ResetOp \<Rightarrow> []
       | CollapseOp t r \<Rightarrow>
           if collapsible t r \<and> \<not> snd (fst (Collapse digest t r (fst s)))
           then snd s @ [dedup_key digest t r] else snd s))"

definition delivered :: "(string \<Rightarrow> string) \<Rightarrow> dedup_op list \<Rightarrow> string list" where
  "delivered digest ops = snd (foldl (\<lambda>s op. full_step digest op s) (NewOutputDeduper, []) ops)"

lemma fst_full_fold: "fst (foldl (\<lambda>s op. full_step digest op s) (NewOutputDeduper, []) ops) = dedup_run digest ops"
  by (induction ops rule: rev_induct) (simp_all add: full_step_def, simp add: dedup_run_def)

lemma delivered_snoc:
  "delivered digest (ops @ [op]) =
     (case op of
        ResetOp \<Rightarrow> []
      | CollapseOp t r \<Rightarrow>
          if collapsible t r \<and> \<not> snd (fst (Collapse digest t r (dedup_run digest ops)))
          then delivered digest ops @ [dedup_key digest t r] else delivered digest ops)"
  using fst_full_fold [of digest ops] by (simp add: delivered_def full_step_def split: dedup_op.splits)

lemma delivered_Nil [simp]: "delivered digest [] = []"
  by (simp add: delivered_def)

definition last_n :: "nat \<Rightarrow> 'a list \<Rightarrow> 'a list" where
  "last_n n xs = drop (length xs - n) xs"

lemma last_n_snoc: "0 < n \<Longrightarrow> last_n n (xs @ [x]) = (if length (last_n n xs) = n then tl (last_n n xs) else last_n n xs) @ [x]"
  by (auto simp: last_n_def drop_Suc [symmetric] tl_drop Suc_diff_le)

lemma length_last_n: "length (last_n n xs) \<le> n"
  by (simp add: last_n_def)

definition dedup_wf :: "OutputDeduper \<Rightarrow> bool" where
  "dedup_wf d \<longleftrightarrow> distinct (dd_keys d) \<and> dom (dd_seen d) = set (dd_keys d)
     \<and> length (dd_keys d) \<le> maxDedupEntries"

lemma Collapse_deduped:
  "snd (fst (Collapse digest t r d)) \<longleftrightarrow> collapsible t r \<and> dedup_key digest t r \<in> dom (dd_seen d)"
  by (auto simp: Collapse_def collapsible_def Let_def split: option.splits)

lemma Collapse_state:
  assumes "dedup_wf d"
  shows "dedup_wf (snd (Collapse digest t r d))"
    and "dd_keys (snd (Collapse digest t r d)) =
      (if collapsible t r \<and> dedup_key digest t r \<notin> set (dd_keys d)
       then (if length (dd_keys d) = maxDedupEntries then tl (dd_keys d) else dd_keys d) @ [dedup_key digest t r]
       else dd_keys d)"
proof -
  let ?k = "dedup_key digest t r"
  have d: "distinct (dd_keys d)" "dom (dd_seen d) = set (dd_keys d)" "length (dd_keys d) \<le> maxDedupEntries"
    using assms by (auto simp: dedup_wf_def)
  have none: "dd_seen d ?k = None \<longleftrightarrow> ?k \<notin> set (dd_keys d)" using d(2) by blast
  show keys: "dd_keys (snd (Collapse digest t r d)) =
      (if collapsible t r \<and> ?k \<notin> set (dd_keys d)
       then (if length (dd_keys d) = maxDedupEntries then tl (dd_keys d) else dd_keys d) @ [?k]
       else dd_keys d)"
    using none d(3) by (cases "dd_keys d")
      (auto simp: Collapse_def collapsible_def Let_def maxDedupEntries_def split: option.splits)
  show "dedup_wf (snd (Collapse digest t r d))"
  proof (cases "collapsible t r \<and> ?k \<notin> set (dd_keys d)")
    case False
    then show ?thesis using assms none
      by (auto simp: Collapse_def collapsible_def Let_def dedup_wf_def split: option.splits)
  next
    case True
    then have c: "\<not> (\<not> decl_readonly t \<or> decl_name t = [] \<or> tr_is_error r)" "dd_seen d ?k = None"
      using none by (auto simp: collapsible_def)
    show ?thesis
    proof (cases "length (dd_keys d) = maxDedupEntries")
      case full: True
      then obtain x xs where x: "dd_keys d = x # xs" by (cases "dd_keys d") (auto simp: maxDedupEntries_def)
      have "dom ((dd_seen d)(?k \<mapsto> 1, x := None)) = set (xs @ [?k])"
        using d True x by auto
      with c full x d True show ?thesis by (auto simp: Collapse_def Let_def dedup_wf_def)
    next
      case False
      with d(3) have "length (dd_keys d) < maxDedupEntries" by simp
      with c d True show ?thesis by (auto simp: Collapse_def Let_def dedup_wf_def)
    qed
  qed
qed

lemma dedup_run_wf: "dedup_wf (dedup_run digest ops)"
proof (induction ops rule: rev_induct)
  case Nil
  then show ?case by (simp add: dedup_run_def NewOutputDeduper_def dedup_wf_def)
next
  case (snoc op ops)
  have "dedup_wf (Reset d)" for d by (simp add: dedup_wf_def Reset_def)
  with snoc show ?case by (cases op) (simp_all add: Collapse_state(1))
qed

lemma dedup_run_keys: "dd_keys (dedup_run digest ops) = last_n maxDedupEntries (delivered digest ops)"
proof (induction ops rule: rev_induct)
  case Nil
  then show ?case by (simp add: dedup_run_def NewOutputDeduper_def last_n_def)
next
  case (snoc op ops)
  show ?case
  proof (cases op)
    case ResetOp
    then show ?thesis by (simp add: delivered_snoc Reset_def last_n_def)
  next
    case (CollapseOp t r)
    have "dom (dd_seen (dedup_run digest ops)) = set (dd_keys (dedup_run digest ops))"
      using dedup_run_wf by (simp add: dedup_wf_def)
    then show ?thesis
      using CollapseOp Collapse_state(2) [OF dedup_run_wf, of digest t r digest ops] snoc
      by (auto simp: delivered_snoc Collapse_deduped last_n_snoc maxDedupEntries_def)
  qed
qed

lemma dedup_run_dom: "dom (dd_seen (dedup_run digest ops)) = set (last_n maxDedupEntries (delivered digest ops))"
  using dedup_run_wf [of digest ops] dedup_run_keys [of digest ops] by (simp add: dedup_wf_def)


section \<open>The marker tells the truth\<close>

lemma dedup_key_inject:
  assumes "dedup_key digest t r = dedup_key digest t' r'" "length (digest (tr_content r)) = length (digest (tr_content r'))"
  shows "decl_name t = decl_name t' \<and> digest (tr_content r) = digest (tr_content r')"
  using assms by (auto simp: dedup_key_def)

lemma delivered_origin:
  assumes "k \<in> set (delivered digest ops)"
  shows "\<exists>pre t r post. ops = pre @ CollapseOp t r # post \<and> ResetOp \<notin> set post \<and> collapsible t r
    \<and> dedup_key digest t r = k \<and> \<not> snd (fst (Collapse digest t r (dedup_run digest pre)))"
  using assms
proof (induction ops rule: rev_induct)
  case (snoc op ops)
  show ?case
  proof (cases op)
    case ResetOp
    with snoc show ?thesis by (simp add: delivered_snoc)
  next
    case (CollapseOp t r)
    show ?thesis
    proof (cases "k \<in> set (delivered digest ops)")
      case True
      from snoc.IH [OF this] obtain pre t' r' post where
        "ops = pre @ CollapseOp t' r' # post \<and> ResetOp \<notin> set post \<and> collapsible t' r'
         \<and> dedup_key digest t' r' = k \<and> \<not> snd (fst (Collapse digest t' r' (dedup_run digest pre)))" by blast
      with CollapseOp show ?thesis
        by (intro exI [of _ pre] exI [of _ t'] exI [of _ r'] exI [of _ "post @ [op]"]) auto
    next
      case False
      with snoc.prems CollapseOp have "collapsible t r" "dedup_key digest t r = k"
        "\<not> snd (fst (Collapse digest t r (dedup_run digest ops)))"
        by (auto simp: delivered_snoc split: if_splits)
      with CollapseOp show ?thesis
        by (intro exI [of _ ops] exI [of _ t] exI [of _ r] exI [of _ "[]"]) auto
    qed
  qed
qed simp

definition op_contents :: "dedup_op list \<Rightarrow> string set" where
  "op_contents ops = (\<Union>op\<in>set ops. case op of ResetOp \<Rightarrow> {} | CollapseOp t r \<Rightarrow> {tr_content r})"

text \<open>
  A result replaced by the \<open>[unchanged]\<close> marker really is byte-identical to an earlier result of the
  same tool that the model was given in full since its context was last reset, as long as the digest has
  a fixed length and no two of the contents seen collide.
\<close>

theorem unchanged_marker_sound:
  assumes "snd (fst (Collapse digest t r (dedup_run digest ops)))"
    and "\<forall>c. length (digest c) = 64"
    and "inj_on digest (insert (tr_content r) (op_contents ops))"
  shows "\<exists>pre t' r' post. ops = pre @ CollapseOp t' r' # post \<and> ResetOp \<notin> set post
    \<and> decl_name t' = decl_name t \<and> tr_content r' = tr_content r \<and> \<not> tr_is_error r'
    \<and> fst (Collapse digest t' r' (dedup_run digest pre)) = (tr_content r, False)"
proof -
  have "collapsible t r" and key: "dedup_key digest t r \<in> dom (dd_seen (dedup_run digest ops))"
    using assms(1) by (auto simp: Collapse_deduped)
  have "dedup_key digest t r \<in> set (delivered digest ops)"
    using key set_drop_subset unfolding dedup_run_dom last_n_def by fast
  from delivered_origin [OF this] obtain pre t' r' post where
    o: "ops = pre @ CollapseOp t' r' # post" "ResetOp \<notin> set post" "collapsible t' r'"
      "dedup_key digest t' r' = dedup_key digest t r"
      "\<not> snd (fst (Collapse digest t' r' (dedup_run digest pre)))" by blast
  have "tr_content r' \<in> op_contents ops" using o(1) by (auto simp: op_contents_def)
  with dedup_key_inject [OF o(4)] assms(2,3) have "decl_name t' = decl_name t" "tr_content r' = tr_content r"
    by (auto simp: inj_on_def)
  moreover have "fst (Collapse digest t' r' (dedup_run digest pre)) = (tr_content r', False)"
    using o(5) by (auto simp: Collapse_def Let_def split: option.splits if_splits)
  ultimately show ?thesis using o by (auto simp: collapsible_def)
qed

definition read_decl :: ToolDecl where
  "read_decl = \<lparr>decl_name = ''read'', decl_description = [], decl_schema = [], decl_readonly = True,
     decl_destructive = None, decl_idempotent = False, decl_openWorld = None, decl_unvouched = False\<rparr>"

definition pad64 :: "string \<Rightarrow> string" where
  "pad64 s = (if s = [] then replicate 64 (CHR ''0'') else replicate 64 (hd s))"

theorem unchanged_marker_sound_witness:
  "\<exists>pre t' r' post. [CollapseOp read_decl \<lparr>tr_content = ''abc'', tr_parts = [], tr_is_error = False\<rparr>]
      = pre @ CollapseOp t' r' # post \<and> tr_content r' = ''abc'' \<and> \<not> tr_is_error r'"
proof -
  let ?r = "\<lparr>tr_content = ''abc'', tr_parts = [], tr_is_error = False\<rparr>"
  have d: "snd (fst (Collapse pad64 read_decl ?r (dedup_run pad64 [CollapseOp read_decl ?r])))"
    by (simp add: dedup_run_def NewOutputDeduper_def Collapse_def read_decl_def Let_def maxDedupEntries_def)
  have l: "\<forall>c. length (pad64 c) = 64" by (simp add: pad64_def)
  have i: "inj_on pad64 (insert (tr_content ?r) (op_contents [CollapseOp read_decl ?r]))"
    by (simp add: op_contents_def)
  from unchanged_marker_sound [OF d l i] show ?thesis by auto
qed


end
