(* ===== verification/MessageQueue.thy ===== *)
theory MessageQueue
  imports Messages
begin

text \<open>
  Messages queued into a running loop (\<open>internal/loop/message_queue.go\<close>, \<open>queued_message.go\<close>). The
  underlying concurrent queue is a third-party package: its operations are the parameter \<open>q\<close> of every
  definition, and what it documents (first in, first out) is the locale \<open>fifo\<close>. Every operation runs
  under the queue's lock, so a concurrent history is a list of operations.
\<close>

section \<open>The underlying queue\<close>

record ('s, 'a) queue_ops =
  q_empty :: 's
  q_enqueue :: "'a \<Rightarrow> 's \<Rightarrow> 's"
  q_dequeue :: "'s \<Rightarrow> ('a \<times> 's) option"
  q_is_empty :: "'s \<Rightarrow> bool"
  q_len :: "'s \<Rightarrow> nat"

locale fifo =
  fixes q :: "('s, 'a) queue_ops" and items :: "'s \<Rightarrow> 'a list"
  assumes items_empty: "items (q_empty q) = []"
    and items_enqueue: "items (q_enqueue q x s) = items s @ [x]"
    and dequeue_None: "q_dequeue q s = None \<longleftrightarrow> items s = []"
    and dequeue_Some: "q_dequeue q s = Some (x, s') \<Longrightarrow> items s = x # items s'"
    and is_empty_iff: "q_is_empty q s \<longleftrightarrow> items s = []"
    and len_items: "q_len q s = length (items s)"

definition list_queue :: "('a list, 'a) queue_ops" where
  "list_queue = \<lparr>q_empty = [], q_enqueue = (\<lambda>x s. s @ [x]),
     q_dequeue = (\<lambda>s. case s of [] \<Rightarrow> None | x # xs \<Rightarrow> Some (x, xs)),
     q_is_empty = (\<lambda>s. s = []), q_len = length\<rparr>"

section \<open>The message queue\<close>

datatype QueuedMessage = SystemMessage (queuedMessage: Message) | UserMessage (queuedMessage: Message)

fun isSystemMessage :: "QueuedMessage \<Rightarrow> bool" where
  "isSystemMessage (SystemMessage _) = True" | "isSystemMessage (UserMessage _) = False"

record 's MessageQueue =
  mq_items :: 's
  mq_closed :: bool

definition Queue :: "('s, QueuedMessage) queue_ops \<Rightarrow> QueuedMessage \<Rightarrow> 's MessageQueue option
    \<Rightarrow> bool \<times> 's MessageQueue option" where
  "Queue q msg mq =
     (case mq of
        None \<Rightarrow> (False, None)
      | Some m \<Rightarrow>
          if mq_closed m then (False, Some m)
          else (True, Some (m\<lparr>mq_items := q_enqueue q msg (mq_items m)\<rparr>)))"

text \<open>The take-loop of \<open>drainLocked\<close>; \<open>fuel\<close> is the length read before it under the lock, plus one.\<close>

fun take_loop :: "('s, QueuedMessage) queue_ops \<Rightarrow> nat \<Rightarrow> 's \<Rightarrow> Message list \<Rightarrow> Message list
    \<Rightarrow> Message list \<times> Message list \<times> 's" where
  "take_loop q 0 s system user = (system, user, s)"
| "take_loop q (Suc fuel) s system user =
     (case q_dequeue q s of
        None \<Rightarrow> (system, user, s)
      | Some (m, s') \<Rightarrow>
          if isSystemMessage m then take_loop q fuel s' (system @ [queuedMessage m]) user
          else take_loop q fuel s' system (user @ [queuedMessage m]))"

definition drainLocked :: "('s, QueuedMessage) queue_ops \<Rightarrow> 's \<Rightarrow> Message list \<times> 's" where
  "drainLocked q s =
     (if q_is_empty q s then ([], s)
      else (let (system, user, s') = take_loop q (Suc (q_len q s)) s [] [] in (system @ user, s')))"

definition Drain :: "('s, QueuedMessage) queue_ops \<Rightarrow> 's MessageQueue option \<Rightarrow> Message list \<times> 's MessageQueue option" where
  "Drain q mq =
     (case mq of
        None \<Rightarrow> ([], None)
      | Some m \<Rightarrow> (let (out, s) = drainLocked q (mq_items m) in (out, Some (m\<lparr>mq_items := s\<rparr>))))"

definition Close :: "('s, QueuedMessage) queue_ops \<Rightarrow> 's MessageQueue option \<Rightarrow> Message list \<times> 's MessageQueue option" where
  "Close q mq =
     (case mq of
        None \<Rightarrow> ([], None)
      | Some m \<Rightarrow> (let (out, s) = drainLocked q (mq_items m) in (out, Some (m\<lparr>mq_items := s, mq_closed := True\<rparr>))))"

definition Closed :: "'s MessageQueue option \<Rightarrow> bool" where
  "Closed mq = (case mq of None \<Rightarrow> True | Some m \<Rightarrow> mq_closed m)"

definition Pending :: "('s, QueuedMessage) queue_ops \<Rightarrow> 's MessageQueue option \<Rightarrow> bool" where
  "Pending q mq = (case mq of None \<Rightarrow> False | Some m \<Rightarrow> \<not> q_is_empty q (mq_items m))"

definition Len :: "('s, QueuedMessage) queue_ops \<Rightarrow> 's MessageQueue option \<Rightarrow> nat" where
  "Len q mq = (case mq of None \<Rightarrow> 0 | Some m \<Rightarrow> q_len q (mq_items m))"

definition new_queue :: "('s, QueuedMessage) queue_ops \<Rightarrow> 's MessageQueue" where
  "new_queue q = \<lparr>mq_items = q_empty q, mq_closed = False\<rparr>"

text \<open>A drain delivers system messages ahead of user messages, each kind in arrival order.\<close>

definition partitioned :: "QueuedMessage list \<Rightarrow> Message list" where
  "partitioned ms = map queuedMessage (filter isSystemMessage ms) @ map queuedMessage (filter (\<lambda>m. \<not> isSystemMessage m) ms)"

section \<open>What a drain returns\<close>

text \<open>The contract, at the type of the messages the loop queues.\<close>

locale message_fifo = fifo q items
  for q :: "('s, QueuedMessage) queue_ops" and items :: "'s \<Rightarrow> QueuedMessage list"

context fifo
begin

lemma dequeue_Cons: "items s = x # xs \<Longrightarrow> \<exists>s'. q_dequeue q s = Some (x, s') \<and> items s' = xs"
proof -
  assume xs: "items s = x # xs"
  then obtain y s' where y: "q_dequeue q s = Some (y, s')"
    using dequeue_None [of s] by (cases "q_dequeue q s") auto
  with dequeue_Some [OF y] xs show ?thesis by simp
qed

end

context message_fifo
begin

lemma take_loop_items:
  "length (items s) < fuel \<Longrightarrow>
   \<exists>s'. take_loop q fuel s system user =
     (system @ map queuedMessage (filter isSystemMessage (items s)),
      user @ map queuedMessage (filter (\<lambda>m. \<not> isSystemMessage m) (items s)), s') \<and> items s' = []"
proof (induction fuel arbitrary: s system user)
  case (Suc fuel)
  show ?case
  proof (cases "items s")
    case Nil
    then show ?thesis using dequeue_None [of s] by simp
  next
    case (Cons m ms)
    obtain s' where s': "q_dequeue q s = Some (m, s')" "items s' = ms"
      using dequeue_Cons [OF Cons] by blast
    with Suc.prems Cons have "length (items s') < fuel" by simp
    from Suc.IH [OF this, of "system @ [queuedMessage m]" user] Suc.IH [OF this, of system "user @ [queuedMessage m]"]
      s' Cons show ?thesis by (cases "isSystemMessage m") auto
  qed
qed simp

lemma drainLocked_items: "drainLocked q s = (out, s') \<Longrightarrow> out = partitioned (items s) \<and> items s' = []"
proof (cases "items s = []")
  case True
  assume "drainLocked q s = (out, s')"
  with True show ?thesis using is_empty_iff [of s] by (auto simp: drainLocked_def partitioned_def)
next
  case False
  assume d: "drainLocked q s = (out, s')"
  have "length (items s) < Suc (q_len q s)" using len_items [of s] by simp
  from take_loop_items [OF this, of "[]" "[]"] False d show ?thesis
    using is_empty_iff [of s] by (auto simp: drainLocked_def partitioned_def)
qed

end

section \<open>Histories\<close>

datatype queue_op = QQueue QueuedMessage | QDrain | QClose

datatype queue_res = Took bool | Gave "Message list"

fun queue_do :: "('s, QueuedMessage) queue_ops \<Rightarrow> queue_op \<Rightarrow> 's MessageQueue option \<Rightarrow> queue_res \<times> 's MessageQueue option" where
  "queue_do q (QQueue m) mq = apfst Took (Queue q m mq)"
| "queue_do q QDrain mq = apfst Gave (Drain q mq)"
| "queue_do q QClose mq = apfst Gave (Close q mq)"

fun queue_run :: "('s, QueuedMessage) queue_ops \<Rightarrow> queue_op list \<Rightarrow> 's MessageQueue option
    \<Rightarrow> (queue_op \<times> queue_res) list \<times> 's MessageQueue option" where
  "queue_run q [] mq = ([], mq)"
| "queue_run q (op # ops) mq =
     (let (r, mq) = queue_do q op mq; (rs, mq) = queue_run q ops mq in ((op, r) # rs, mq))"

definition accepted :: "(queue_op \<times> queue_res) list \<Rightarrow> QueuedMessage list" where
  "accepted hist = concat (map (\<lambda>e. case e of (QQueue m, Took True) \<Rightarrow> [m] | _ \<Rightarrow> []) hist)"

definition given :: "(queue_op \<times> queue_res) list \<Rightarrow> Message list list" where
  "given hist = concat (map (\<lambda>e. case e of (_, Gave out) \<Rightarrow> [out] | _ \<Rightarrow> []) hist)"

lemma accepted_append [simp]: "accepted (h1 @ h2) = accepted h1 @ accepted h2"
  by (simp add: accepted_def)

lemma queue_do_Some: "\<exists>r m1. queue_do q op (Some m) = (r, Some m1)"
  by (cases op) (auto simp: Queue_def Drain_def Close_def case_prod_beta apfst_def map_prod_def)

lemma queue_do_closed:
  "queue_do q op (Some m) = (r, Some m1) \<Longrightarrow> mq_closed m1 = (mq_closed m \<or> op = QClose)"
  "queue_do q op (Some m) = (r, Some m1) \<Longrightarrow>
     accepted [(op, r)] = (if mq_closed m then [] else case op of QQueue x \<Rightarrow> [x] | _ \<Rightarrow> [])"
  by (cases op; auto simp: Queue_def Drain_def Close_def accepted_def case_prod_beta apfst_def map_prod_def split: if_splits)+

context message_fifo
begin

lemma run_blocks:
  assumes "queue_run q ops (Some m) = (hist, mq)"
  shows "\<exists>m' bs. mq = Some m' \<and> given hist = map partitioned bs
    \<and> items (mq_items m) @ accepted hist = concat bs @ items (mq_items m')
    \<and> mq_closed m' = (mq_closed m \<or> QClose \<in> set ops)"
  using assms
proof (induction ops arbitrary: m hist mq)
  case Nil
  then show ?case by (intro exI [of _ m] exI [of _ "[]"]) (auto simp: given_def accepted_def)
next
  case (Cons op ops)
  obtain r m1 where d: "queue_do q op (Some m) = (r, Some m1)"
    using queue_do_Some by blast
  obtain hist' where h: "queue_run q ops (Some m1) = (hist', mq)" "hist = (op, r) # hist'"
    using Cons.prems d by (auto split: prod.splits)
  obtain m' bs where IH: "mq = Some m'" "given hist' = map partitioned bs"
    "items (mq_items m1) @ accepted hist' = concat bs @ items (mq_items m')"
    "mq_closed m' = (mq_closed m1 \<or> QClose \<in> set ops)"
    using Cons.IH [OF h(1)] by blast
  show ?case
  proof (cases op)
    case (QQueue x)
    have "items (mq_items m1) = items (mq_items m) @ accepted [(op, r)]" "given [(op, r)] = []"
      "mq_closed m1 = mq_closed m"
      using d QQueue by (auto simp: Queue_def accepted_def given_def items_enqueue split: if_splits)
    with IH h QQueue show ?thesis
      by (intro exI [of _ m'] exI [of _ bs]) (auto simp: accepted_def given_def)
  next
    case QDrain
    obtain out s where o: "drainLocked q (mq_items m) = (out, s)" by fastforce
    have "r = Gave out" "m1 = m\<lparr>mq_items := s\<rparr>" using d QDrain o by (auto simp: Drain_def)
    with IH h QDrain drainLocked_items [OF o] show ?thesis
      by (intro exI [of _ m'] exI [of _ "items (mq_items m) # bs"]) (auto simp: accepted_def given_def)
  next
    case QClose
    obtain out s where o: "drainLocked q (mq_items m) = (out, s)" by fastforce
    have "r = Gave out" "m1 = m\<lparr>mq_items := s, mq_closed := True\<rparr>" using d QClose o by (auto simp: Close_def)
    with IH h QClose drainLocked_items [OF o] show ?thesis
      by (intro exI [of _ m'] exI [of _ "items (mq_items m) # bs"]) (auto simp: accepted_def given_def)
  qed
qed

lemma run_closed:
  assumes "queue_run q ops (Some m) = (hist, mq)" "mq_closed m"
  shows "accepted hist = []"
  using assms
proof (induction ops arbitrary: m hist mq)
  case (Cons op ops)
  obtain r m1 where d: "queue_do q op (Some m) = (r, Some m1)"
    using queue_do_Some by blast
  have "mq_closed m1" "accepted [(op, r)] = []" using queue_do_closed [OF d] Cons.prems by auto
  moreover obtain hist' where h: "queue_run q ops (Some m1) = (hist', mq)" "hist = (op, r) # hist'"
    using Cons.prems d by (auto split: prod.splits)
  ultimately show ?case using Cons.IH [OF h(1)] by (simp add: accepted_def)
qed (simp add: accepted_def)

lemma run_open:
  assumes "queue_run q ops (Some m) = (hist, mq)" "\<not> mq_closed m" "QClose \<notin> set ops"
  shows "accepted hist = concat (map (\<lambda>op. case op of QQueue x \<Rightarrow> [x] | _ \<Rightarrow> []) ops)"
  using assms
proof (induction ops arbitrary: m hist mq)
  case (Cons op ops)
  obtain r m1 where d: "queue_do q op (Some m) = (r, Some m1)"
    using queue_do_Some by blast
  have "\<not> mq_closed m1" "accepted [(op, r)] = (case op of QQueue x \<Rightarrow> [x] | _ \<Rightarrow> [])"
    using queue_do_closed [OF d] Cons.prems by auto
  moreover obtain hist' where h: "queue_run q ops (Some m1) = (hist', mq)" "hist = (op, r) # hist'"
    using Cons.prems d by (auto split: prod.splits)
  ultimately show ?case using Cons.IH [OF h(1)] Cons.prems by (auto simp: accepted_def)
qed (simp add: accepted_def)

lemma run_append:
  "queue_run q (xs @ ys) mq =
     (let (h1, mq) = queue_run q xs mq; (h2, mq) = queue_run q ys mq in (h1 @ h2, mq))"
  by (induction xs arbitrary: mq) (auto simp: Let_def split: prod.splits)

lemma run_after_close:
  assumes "queue_run q (QClose # ops) (Some m) = (hist, mq)"
  shows "accepted hist = [] \<and> (\<exists>m'. mq = Some m' \<and> items (mq_items m') = [] \<and> mq_closed m')"
proof -
  obtain out s where o: "drainLocked q (mq_items m) = (out, s)" by fastforce
  let ?m = "m\<lparr>mq_items := s, mq_closed := True\<rparr>"
  obtain h where h: "queue_run q ops (Some ?m) = (h, mq)" "hist = (QClose, Gave out) # h"
    using assms o by (auto simp: Close_def split: prod.splits)
  have acc: "accepted h = []" using run_closed [OF h(1)] by simp
  obtain m' bs where "mq = Some m'" "items s @ accepted h = concat bs @ items (mq_items m')" "mq_closed m'"
    using run_blocks [OF h(1)] by auto
  moreover have "accepted hist = []" using acc h(2) by (simp add: accepted_def)
  ultimately show ?thesis using drainLocked_items [OF o] acc by simp
qed

lemma run_new:
  assumes run: "queue_run q ops (Some (new_queue q)) = (hist, mq)"
  shows "\<exists>m' bs. mq = Some m' \<and> given hist = map partitioned bs
    \<and> accepted hist = concat bs @ items (mq_items m')
    \<and> accepted hist = concat (map (\<lambda>op. case op of QQueue x \<Rightarrow> [x] | _ \<Rightarrow> []) (takeWhile (\<lambda>op. op \<noteq> QClose) ops))
    \<and> (QClose \<in> set ops \<longrightarrow> items (mq_items m') = [] \<and> mq_closed m')"
proof -
  let ?pre = "takeWhile (\<lambda>op. op \<noteq> QClose) ops" and ?rest = "dropWhile (\<lambda>op. op \<noteq> QClose) ops"
  obtain m' bs where b: "mq = Some m'" "given hist = map partitioned bs" "accepted hist = concat bs @ items (mq_items m')"
    using run_blocks [OF run] by (auto simp: new_queue_def items_empty)
  obtain h1 mq1 where r1: "queue_run q ?pre (Some (new_queue q)) = (h1, mq1)" by fastforce
  obtain m1 where m1: "mq1 = Some m1" using run_blocks [OF r1] by blast
  obtain h2 where r2: "queue_run q ?rest (Some m1) = (h2, mq)" "hist = h1 @ h2"
    using run run_append [of ?pre ?rest] r1 m1 by (auto simp: Let_def split: prod.splits)
  have nc: "QClose \<notin> set ?pre" by (auto dest: set_takeWhileD)
  have a1: "accepted h1 = concat (map (\<lambda>op. case op of QQueue x \<Rightarrow> [x] | _ \<Rightarrow> []) ?pre)"
    by (rule run_open [OF r1 _ nc]) (simp add: new_queue_def)
  show ?thesis
  proof (cases ?rest)
    case Nil
    then have "QClose \<notin> set ops" by (auto simp: dropWhile_eq_Nil_conv)
    moreover have "h2 = []" using r2(1) Nil by simp
    ultimately show ?thesis using b a1 r2(2)
      by (intro exI [of _ m'] exI [of _ bs]) (simp add: accepted_def)
  next
    case (Cons c rest)
    then have "c = QClose" by (metis (full_types) hd_dropWhile list.distinct(1) list.sel(1))
    with run_after_close r2(1) Cons have "accepted h2 = []" "items (mq_items m') = []" "mq_closed m'"
      using b(1) by fastforce+
    with b a1 r2(2) show ?thesis by (intro exI [of _ m'] exI [of _ bs]) simp
  qed
qed

end

text \<open>The list queue meets the contract, so the lemmas above hold of the model's queue.\<close>

interpretation lq: message_fifo "list_queue" "id"
  by unfold_locales (auto simp: list_queue_def split: list.splits)


text \<open>
  C11. Whatever the interleaving of \<open>Queue\<close>, \<open>Drain\<close> and \<open>Close\<close>, the messages the queue took are exactly
  those queued before the first \<open>Close\<close>, and they come out in consecutive blocks of arrival order, one
  block per drain, each with its system messages first and both kinds otherwise in order: none is lost,
  repeated or delivered twice. After a \<open>Close\<close> nothing is left behind.
\<close>

theorem queue_delivers:
  assumes "message_fifo q items" "queue_run q ops (Some (new_queue q)) = (hist, mq)"
  shows "\<exists>m' bs. mq = Some m' \<and> given hist = map partitioned bs
    \<and> accepted hist = concat bs @ items (mq_items m')
    \<and> accepted hist = concat (map (\<lambda>op. case op of QQueue x \<Rightarrow> [x] | _ \<Rightarrow> []) (takeWhile (\<lambda>op. op \<noteq> QClose) ops))
    \<and> (QClose \<in> set ops \<longrightarrow> items (mq_items m') = [] \<and> mq_closed m')"
  by (rule message_fifo.run_new [OF assms])

definition notice :: "string \<Rightarrow> Message" where
  "notice s = (empty_message RoleUser)\<lparr>msg_content := s\<rparr>"

theorem queue_delivers_witness:
  "\<exists>(m' :: QueuedMessage list MessageQueue) bs. map partitioned bs = [[notice ''ci'', notice ''a''], []] \<and> mq_closed m'
     \<and> concat bs @ mq_items m' = [UserMessage (notice ''a''), SystemMessage (notice ''ci'')]"
proof -
  let ?ops = "[QQueue (UserMessage (notice ''a'')), QQueue (SystemMessage (notice ''ci'')), QDrain, QClose, QQueue (UserMessage (notice ''late''))]"
  obtain hist mq where r: "queue_run list_queue ?ops (Some (new_queue list_queue)) = (hist, mq)" by fastforce
  have g: "given hist = [[notice ''ci'', notice ''a''], []]" and
    a: "accepted hist = [UserMessage (notice ''a''), SystemMessage (notice ''ci'')]"
    using r by (auto simp: list_queue_def new_queue_def Queue_def Drain_def Close_def drainLocked_def
      given_def accepted_def)
  have "\<exists>m' bs. mq = Some m' \<and> given hist = map partitioned bs \<and> accepted hist = concat bs @ id (mq_items m')
      \<and> accepted hist = concat (map (\<lambda>op. case op of QQueue x \<Rightarrow> [x] | _ \<Rightarrow> []) (takeWhile (\<lambda>op. op \<noteq> QClose) ?ops))
      \<and> (QClose \<in> set ?ops \<longrightarrow> id (mq_items m') = [] \<and> mq_closed m')"
    by (rule queue_delivers [OF lq.message_fifo_axioms r])
  then show ?thesis
    using g a
    apply (elim exE conjE)
    subgoal for m' bs by (intro exI [of _ m'] exI [of _ bs]) simp
    done
qed

end
