(* ===== verification/StreamString.thy ===== *)
theory StreamString
  imports GoString "HOL-Library.Sublist"
begin

text \<open>
  The text field that fills while a model streams (\<open>core/streamstring.go\<close>): its builder, its finished
  value and the revisions it keeps. Times and the listeners' events are left out.
\<close>

section \<open>The field\<close>

datatype RevisionSource = RevisionStreamed | RevisionFinal | RevisionRetry | RevisionHostEdit

record Revision =
  rev_value :: string
  rev_source :: RevisionSource

record stream_string =
  ss_b :: string
  ss_s :: string
  ss_done :: bool
  ss_source :: RevisionSource
  ss_revs :: "Revision list"

definition NewStreamString :: stream_string where
  "NewStreamString = \<lparr>ss_b = [], ss_s = [], ss_done = False, ss_source = RevisionStreamed, ss_revs = []\<rparr>"

definition FinishedString :: "string \<Rightarrow> stream_string" where
  "FinishedString v = \<lparr>ss_b = [], ss_s = v, ss_done = True, ss_source = RevisionFinal, ss_revs = []\<rparr>"

definition ss_current :: "stream_string \<Rightarrow> string" where
  "ss_current s = (if ss_done s then ss_s s else ss_b s)"

definition ss_len :: "stream_string \<Rightarrow> nat" where
  "ss_len s = (if ss_done s then length (ss_s s) else length (ss_b s))"

definition Revisions :: "stream_string \<Rightarrow> Revision list" where
  "Revisions s = ss_revs s @ [\<lparr>rev_value = ss_current s, rev_source = ss_source s\<rparr>]"

definition pushRevision :: "RevisionSource \<Rightarrow> stream_string \<Rightarrow> stream_string" where
  "pushRevision src s =
     s\<lparr>ss_revs := ss_revs s @ [\<lparr>rev_value = ss_current s, rev_source = src\<rparr>], ss_b := [], ss_s := []\<rparr>"

definition ss_append :: "string \<Rightarrow> stream_string \<Rightarrow> stream_string" where
  "ss_append delta s =
     (if delta = [] then s
      else (let s = (if ss_done s
                     then s\<lparr>ss_revs := ss_revs s @ [\<lparr>rev_value = ss_s s, rev_source = ss_source s\<rparr>],
                            ss_b := ss_s s, ss_s := [], ss_done := False, ss_source := RevisionStreamed\<rparr>
                     else s)
            in s\<lparr>ss_b := ss_b s @ delta\<rparr>))"

definition ss_finish :: "string \<Rightarrow> stream_string \<Rightarrow> stream_string" where
  "ss_finish final s =
     (let streamed = ss_current s;
          s = (if \<not> ss_done s \<and> streamed \<noteq> [] \<and> final \<noteq> streamed
               then s\<lparr>ss_revs := ss_revs s @ [\<lparr>rev_value = streamed, rev_source = RevisionStreamed\<rparr>]\<rparr> else s)
      in s\<lparr>ss_b := [], ss_s := final, ss_done := True, ss_source := RevisionFinal\<rparr>)"

definition FinishStreamed :: "stream_string \<Rightarrow> stream_string" where
  "FinishStreamed s = ss_finish (ss_current s) s"

definition ss_restart :: "stream_string \<Rightarrow> stream_string" where
  "ss_restart s =
     (if ss_current s = [] \<and> ss_revs s = [] then s
      else (pushRevision RevisionRetry s)\<lparr>ss_done := False, ss_source := RevisionStreamed\<rparr>)"

definition ss_set :: "string \<Rightarrow> RevisionSource \<Rightarrow> stream_string \<Rightarrow> stream_string" where
  "ss_set v src s = (pushRevision (ss_source s) s)\<lparr>ss_s := v, ss_done := True, ss_source := src\<rparr>"

section \<open>Writes\<close>

datatype ss_write = WAppend string | WFinish string | WFinishStreamed | WRestart | WSet string RevisionSource

fun ss_do :: "ss_write \<Rightarrow> stream_string \<Rightarrow> stream_string" where
  "ss_do (WAppend d) s = ss_append d s"
| "ss_do (WFinish f) s = ss_finish f s"
| "ss_do WFinishStreamed s = FinishStreamed s"
| "ss_do WRestart s = ss_restart s"
| "ss_do (WSet v src) s = ss_set v src s"

definition ss_run :: "ss_write list \<Rightarrow> stream_string \<Rightarrow> stream_string" where
  "ss_run ws s = foldl (\<lambda>s w. ss_do w s) s ws"

text \<open>A write that overwrites the value of a finished field is the one that loses it.\<close>

definition overwrites :: "ss_write \<Rightarrow> stream_string \<Rightarrow> bool" where
  "overwrites w s \<longleftrightarrow> (case w of WFinish f \<Rightarrow> ss_done s \<and> ss_s s \<noteq> f | _ \<Rightarrow> False)"

fun no_overwrite :: "ss_write list \<Rightarrow> stream_string \<Rightarrow> bool" where
  "no_overwrite [] s = True"
| "no_overwrite (w # ws) s = (\<not> overwrites w s \<and> no_overwrite ws (ss_do w s))"

definition kept :: "string \<Rightarrow> stream_string \<Rightarrow> bool" where
  "kept v s \<longleftrightarrow> (\<exists>r\<in>set (Revisions s). prefix v (rev_value r))"

lemma ss_current_simps [simp]:
  "ss_current NewStreamString = []" "ss_current (FinishedString v) = v"
  "ss_current (ss_finish f s) = f" "ss_current (FinishStreamed s) = ss_current s"
  "ss_current (ss_append d s) = ss_current s @ d"
  "ss_current (ss_restart s) = []" "ss_current (ss_set v src s) = v"
  by (auto simp: ss_current_def NewStreamString_def FinishedString_def ss_finish_def FinishStreamed_def
      ss_append_def ss_restart_def ss_set_def pushRevision_def Let_def)

lemma ss_done_simps [simp]:
  "ss_done (FinishedString v)" "ss_done (ss_finish f s)" "ss_done (FinishStreamed s)" "\<not> ss_done NewStreamString"
  by (auto simp: FinishedString_def ss_finish_def FinishStreamed_def NewStreamString_def Let_def)

lemma ss_revs_grow: "prefix (ss_revs s) (ss_revs (ss_do w s))"
  by (cases w) (auto simp: ss_append_def ss_finish_def FinishStreamed_def ss_restart_def ss_set_def
      pushRevision_def Let_def)

lemma kept_current: "kept (ss_current s) s"
  by (auto simp: kept_def Revisions_def)

lemma current_kept_step: "\<not> overwrites w s \<Longrightarrow> kept (ss_current s) (ss_do w s)"
proof (cases w)
  case (WAppend d)
  have "prefix (ss_current s) (ss_current (ss_do w s))" using WAppend by simp
  then show ?thesis using kept_def Revisions_def by auto
next
  case WRestart
  then show ?thesis by (auto simp: kept_def Revisions_def ss_restart_def pushRevision_def)
next
  case (WSet v src)
  then show ?thesis by (auto simp: kept_def Revisions_def ss_set_def pushRevision_def)
next
  case WFinishStreamed
  then show ?thesis by (auto simp: kept_def Revisions_def)
next
  case (WFinish f)
  assume "\<not> overwrites w s"
  with WFinish show ?thesis
    by (auto simp: overwrites_def kept_def Revisions_def ss_finish_def ss_current_def Let_def)
qed

lemma kept_step: "kept v s \<Longrightarrow> \<not> overwrites w s \<Longrightarrow> kept v (ss_do w s)"
proof -
  assume "kept v s" and no: "\<not> overwrites w s"
  then consider r where "r \<in> set (ss_revs s)" "prefix v (rev_value r)" | "prefix v (ss_current s)"
    by (auto simp: kept_def Revisions_def)
  then show ?thesis
  proof cases
    case 1
    then have "r \<in> set (ss_revs (ss_do w s))" using ss_revs_grow [of s w] set_mono_prefix by blast
    with 1 show ?thesis by (auto simp: kept_def Revisions_def)
  next
    case 2
    with current_kept_step [OF no] show ?thesis unfolding kept_def using prefix_order.trans by blast
  qed
qed

lemma kept_run: "kept v s \<Longrightarrow> no_overwrite ws s \<Longrightarrow> kept v (ss_run ws s)"
  by (induction ws arbitrary: s) (auto simp: ss_run_def kept_step)

lemma no_overwrite_append: "no_overwrite (xs @ ys) s \<longleftrightarrow> no_overwrite xs s \<and> no_overwrite ys (ss_run xs s)"
  by (induction xs arbitrary: s) (auto simp: ss_run_def)

lemma ss_run_append: "ss_run (xs @ ys) s = ss_run ys (ss_run xs s)"
  by (simp add: ss_run_def)

lemma not_no_overwrite:
  "\<not> no_overwrite ws s \<Longrightarrow> \<exists>us f vs. ws = us @ WFinish f # vs \<and> ss_done (ss_run us s) \<and> ss_s (ss_run us s) \<noteq> f"
proof (induction ws arbitrary: s)
  case (Cons w ws)
  show ?case
  proof (cases "overwrites w s")
    case True
    then obtain f where "w = WFinish f" "ss_done s" "ss_s s \<noteq> f" by (cases w) (auto simp: overwrites_def)
    then show ?thesis by (intro exI [of _ "[]"] exI [of _ f] exI [of _ ws]) (simp add: ss_run_def)
  next
    case False
    then obtain us f vs where "ws = us @ WFinish f # vs" "ss_done (ss_run us (ss_do w s))" "ss_s (ss_run us (ss_do w s)) \<noteq> f"
      using Cons.IH [of "ss_do w s"] Cons.prems by auto
    then show ?thesis by (intro exI [of _ "w # us"] exI [of _ f] exI [of _ vs]) (simp add: ss_run_def)
  qed
qed simp

text \<open>
  C19. Which values a stream field keeps. Whatever it showed at some point of a history of appends,
  finishes, restarts and edits is at any later point still a prefix of one of its revisions, unless in
  between a \<open>Finish\<close> gave another value to a field that was finished already; and such a \<open>Finish\<close> does
  drop the value it replaces: the field's revisions are the older ones and the new value.
\<close>

theorem stream_keeps_values:
  "((\<exists>r\<in>set (Revisions (ss_run (xs @ ys) s)). prefix (ss_current (ss_run xs s)) (rev_value r))
      \<or> (\<exists>us f vs. ys = us @ WFinish f # vs \<and> ss_done (ss_run (xs @ us) s) \<and> ss_current (ss_run (xs @ us) s) \<noteq> f))
   \<and> (ss_done s \<longrightarrow> Revisions (ss_finish f s) = butlast (Revisions s) @ [\<lparr>rev_value = f, rev_source = RevisionFinal\<rparr>])"
proof -
  have "kept (ss_current (ss_run xs s)) (ss_run ys (ss_run xs s))" if "no_overwrite ys (ss_run xs s)"
    by (rule kept_run [OF kept_current that])
  moreover have "\<exists>us f vs. ys = us @ WFinish f # vs \<and> ss_done (ss_run (xs @ us) s) \<and> ss_current (ss_run (xs @ us) s) \<noteq> f"
    if "\<not> no_overwrite ys (ss_run xs s)"
    using not_no_overwrite [OF that] by (auto simp: ss_run_append ss_current_def)
  moreover have "ss_done s \<longrightarrow> Revisions (ss_finish f s) = butlast (Revisions s) @ [\<lparr>rev_value = f, rev_source = RevisionFinal\<rparr>]"
    by (simp add: Revisions_def ss_finish_def ss_current_def)
  ultimately show ?thesis unfolding kept_def ss_run_append by blast
qed

theorem stream_keeps_values_witness:
  "(\<exists>r\<in>set (Revisions (ss_run [WAppend ''ab'', WRestart, WAppend ''xy'', WFinish ''xyz''] NewStreamString)). prefix ''ab'' (rev_value r))
   \<and> Revisions (ss_finish ''second'' (FinishedString ''first'')) = [\<lparr>rev_value = ''second'', rev_source = RevisionFinal\<rparr>]"
proof -
  let ?xs = "[WAppend ''ab'']" and ?ys = "[WRestart, WAppend ''xy'', WFinish ''xyz'']"
  have "\<not> (\<exists>us f vs. ?ys = us @ WFinish f # vs \<and> ss_done (ss_run (?xs @ us) NewStreamString)
      \<and> ss_current (ss_run (?xs @ us) NewStreamString) \<noteq> f)"
    by (auto simp: Cons_eq_append_conv ss_run_def ss_append_def ss_restart_def pushRevision_def NewStreamString_def ss_current_def)
  with stream_keeps_values [of ?xs ?ys NewStreamString]
  have "\<exists>r\<in>set (Revisions (ss_run (?xs @ ?ys) NewStreamString)). prefix (ss_current (ss_run ?xs NewStreamString)) (rev_value r)" by blast
  moreover have "ss_current (ss_run ?xs NewStreamString) = ''ab''" by code_simp
  moreover have "Revisions (ss_finish ''second'' (FinishedString ''first''))
      = butlast (Revisions (FinishedString ''first'')) @ [\<lparr>rev_value = ''second'', rev_source = RevisionFinal\<rparr>]"
    using stream_keeps_values [of "[]" "[]" "FinishedString ''first''" "''second''"] by simp
  ultimately show ?thesis by (simp add: Revisions_def FinishedString_def)
qed

end
