(* ===== verification/ConvTree.thy ===== *)
theory ConvTree
  imports Messages StreamString
begin

text \<open>
  The conversation tree (\<open>core/tree.go\<close>, \<open>core/node.go\<close>, \<open>core/callrecord.go\<close>). A node is a value until
  \<open>Add\<close> links it; from then on it is an entry of the tree's store and its position there is its
  identity, as a pointer is in the code. Position 0 is the root sentinel. Model calls are entries of a
  second store. The random id of the \<open>k\<close>-th node that has none is the parameter \<open>newid k\<close>. Times,
  producers, metadata and cached encodings are left out, and so are the types a host registers.
\<close>

section \<open>Nodes\<close>

datatype Dialect = DialectAuto | DialectOpenAI | DialectAnthropic | DialectResponses | DialectCompletions

text \<open>An image by reference (its base64, when its blob can be read), by URL, or inline.\<close>

datatype IContent = TextContent string | ImageContent string string "string option" string

text \<open>An opaque payload is the wire text it rebuilds, and \<open>None\<close> when there is none.\<close>

definition NewEncryptedReasoning :: "string \<Rightarrow> string option" where
  "NewEncryptedReasoning wire = (if wire = [] then None else Some wire)"

record thinking_data =
  th_signature :: "string option"
  th_encrypted :: "string option"
  th_redacted :: "string option"
  th_itemID :: string
  th_details :: string
  th_raw :: bool
  th_dialect :: Dialect

text \<open>A tool result answers a call of the tree, or a call made for a flat message and never linked.\<close>

datatype result_call = InTree nat | Detached string

datatype node_body =
    RootNode
  | UserNode "IContent list"
  | SystemNode "IContent list"
  | AssistantNode stream_string
  | ThinkingNode stream_string thinking_data
  | ToolCallNode string string stream_string                \<comment> \<open>call id, name, arguments\<close>
  | ToolResultNode result_call "IContent list" bool string  \<comment> \<open>call, content, error flag, why omitted\<close>
  | CompactionNode stream_string "nat option"               \<comment> \<open>summary, where the window started before\<close>
  | RawBlockNode string string Dialect

record node =
  n_id :: string
  n_kind :: string
  n_parent :: "nat option"
  n_children :: "nat list"
  n_call :: "nat option"
  n_superseded :: bool
  n_generated :: bool
  n_body :: node_body

definition new_node :: "node_body \<Rightarrow> node" where
  "new_node b = \<lparr>n_id = [], n_kind = [], n_parent = None, n_children = [], n_call = None,
     n_superseded = False, n_generated = False, n_body = b\<rparr>"

definition HostID :: "node \<Rightarrow> string" where
  "HostID n = (if n_generated n then [] else n_id n)"

definition SetID :: "string \<Rightarrow> node \<Rightarrow> node" where
  "SetID i n = n\<lparr>n_id := i, n_generated := False\<rparr>"

definition SetCallOf :: "nat option \<Rightarrow> node \<Rightarrow> node" where
  "SetCallOf rec n = n\<lparr>n_call := rec\<rparr>"

definition MarkSuperseded :: "node \<Rightarrow> node" where
  "MarkSuperseded n = n\<lparr>n_superseded := True\<rparr>"

definition CompactionKind :: string where "CompactionKind = ''compaction''"

definition NewCompaction :: "nat option \<Rightarrow> node" where
  "NewCompaction replaces = (new_node (CompactionNode NewStreamString replaces))\<lparr>n_kind := CompactionKind\<rparr>"

definition NewToolCallArgs :: "string \<Rightarrow> string \<Rightarrow> string \<Rightarrow> node" where
  "NewToolCallArgs i name args = new_node (ToolCallNode i name (FinishedString args))"

definition NewAssistantText :: "string \<Rightarrow> node" where
  "NewAssistantText s = new_node (AssistantNode (FinishedString s))"

definition NewToolResult :: "nat \<Rightarrow> bool \<Rightarrow> IContent list \<Rightarrow> string \<Rightarrow> node" where
  "NewToolResult call isError content omitted = new_node (ToolResultNode (InTree call) content isError omitted)"

fun node_final :: "node_body \<Rightarrow> bool" where
  "node_final (AssistantNode s) = ss_done s"
| "node_final (ThinkingNode s t) = ss_done s"
| "node_final (ToolCallNode i n s) = ss_done s"
| "node_final (CompactionNode s r) = ss_done s"
| "node_final _ = True"

text \<open>\<open>StreamFields\<close> and the writes to them: at most one field, so a map over the body.\<close>

fun stream_field :: "node_body \<Rightarrow> stream_string option" where
  "stream_field (AssistantNode s) = Some s"
| "stream_field (ThinkingNode s t) = Some s"
| "stream_field (CompactionNode s r) = Some s"
| "stream_field (ToolCallNode i n s) = Some s"
| "stream_field _ = None"

fun map_stream :: "(stream_string \<Rightarrow> stream_string) \<Rightarrow> node_body \<Rightarrow> node_body" where
  "map_stream f (AssistantNode s) = AssistantNode (f s)"
| "map_stream f (ThinkingNode s t) = ThinkingNode (f s) t"
| "map_stream f (CompactionNode s r) = CompactionNode (f s) r"
| "map_stream f (ToolCallNode i n s) = ToolCallNode i n (f s)"
| "map_stream f b = b"

definition FinishNode :: "node \<Rightarrow> node" where
  "FinishNode n = n\<lparr>n_body := map_stream (\<lambda>s. if ss_done s then s else FinishStreamed s) (n_body n)\<rparr>"

definition RestartNode :: "node \<Rightarrow> node" where
  "RestartNode n = n\<lparr>n_body := map_stream ss_restart (n_body n)\<rparr>"

datatype field_id = FieldText | FieldArguments

definition field_of :: "node_body \<Rightarrow> field_id \<Rightarrow> bool" where
  "field_of b f \<longleftrightarrow>
     (case f of
        FieldText \<Rightarrow> (case b of AssistantNode _ \<Rightarrow> True | ThinkingNode _ _ \<Rightarrow> True | CompactionNode _ _ \<Rightarrow> True | _ \<Rightarrow> False)
      | FieldArguments \<Rightarrow> (case b of ToolCallNode _ _ _ \<Rightarrow> True | _ \<Rightarrow> False))"

definition AppendField :: "field_id \<Rightarrow> string \<Rightarrow> node \<Rightarrow> node" where
  "AppendField f delta n = (if field_of (n_body n) f then n\<lparr>n_body := map_stream (ss_append delta) (n_body n)\<rparr> else n)"

section \<open>The tree\<close>

record tree =
  t_nodes :: "node list"
  t_byID :: "string \<rightharpoonup> nat"
  t_ids :: nat

definition NewTree :: tree where
  "NewTree = \<lparr>t_nodes = [new_node RootNode], t_byID = Map.empty, t_ids = 0\<rparr>"

definition node_at :: "tree \<Rightarrow> nat \<Rightarrow> node" where
  "node_at t a = t_nodes t ! a"

definition upd_node :: "nat \<Rightarrow> (node \<Rightarrow> node) \<Rightarrow> tree \<Rightarrow> tree" where
  "upd_node a f t = t\<lparr>t_nodes := (t_nodes t)[a := f (t_nodes t ! a)]\<rparr>"

datatype add_error = NotInTree nat | HasParent string | DuplicateID string

definition ownsLocked :: "tree \<Rightarrow> nat \<Rightarrow> bool" where
  "ownsLocked t a \<longleftrightarrow> a = 0 \<or> (a < length (t_nodes t) \<and> t_byID t (n_id (node_at t a)) = Some a)"

text \<open>\<open>Add\<close>: the node's position and the tree, or why it was refused.\<close>

definition Add :: "(nat \<Rightarrow> string) \<Rightarrow> node \<Rightarrow> nat option \<Rightarrow> tree \<Rightarrow> add_error + nat \<times> tree" where
  "Add newid msg parent t =
     (let p = (case parent of None \<Rightarrow> 0 | Some p \<Rightarrow> p) in
      if \<not> ownsLocked t p then Inl (NotInTree p)
      else if n_parent msg \<noteq> None then Inl (HasParent (n_id msg))
      else
        (let gen = (n_id msg = []);
             msg = (if gen then msg\<lparr>n_id := newid (t_ids t), n_generated := True\<rparr> else msg);
             ids = (if gen then Suc (t_ids t) else t_ids t) in
         if t_byID t (n_id msg) \<noteq> None then Inl (DuplicateID (n_id msg))
         else
           (let a = length (t_nodes t);
                msg = msg\<lparr>n_parent := Some p\<rparr>;
                par = (t_nodes t ! p)\<lparr>n_children := n_children (t_nodes t ! p) @ [a]\<rparr>
            in Inr (a, \<lparr>t_nodes = (t_nodes t)[p := par] @ [msg],
                        t_byID = (t_byID t)(n_id msg \<mapsto> a), t_ids = ids\<rparr>))))"

definition Owns :: "tree \<Rightarrow> nat \<Rightarrow> bool" where "Owns t a = ownsLocked t a"

definition tree_node :: "tree \<Rightarrow> string \<Rightarrow> nat option" where "tree_node t i = t_byID t i"

definition tree_len :: "tree \<Rightarrow> nat" where "tree_len t = card (dom (t_byID t))"

text \<open>The walk up of \<open>PathTo\<close>. A node's parent is an earlier entry, so the leaf's position is enough fuel.\<close>

fun path_up :: "nat \<Rightarrow> tree \<Rightarrow> nat \<Rightarrow> nat list" where
  "path_up 0 t a = []"
| "path_up (Suc fuel) t a =
     (if a = 0 then []
      else a # (case n_parent (node_at t a) of None \<Rightarrow> [] | Some p \<Rightarrow> path_up fuel t p))"

definition PathTo :: "tree \<Rightarrow> nat option \<Rightarrow> nat list" where
  "PathTo t leaf = (case leaf of None \<Rightarrow> [] | Some a \<Rightarrow> rev (path_up (Suc a) t a))"

fun walk :: "nat \<Rightarrow> tree \<Rightarrow> nat \<Rightarrow> nat list" where
  "walk 0 t a = []"
| "walk (Suc fuel) t a = concat (map (\<lambda>c. c # walk fuel t c) (n_children (node_at t a)))"

definition Nodes :: "tree \<Rightarrow> nat list" where
  "Nodes t = walk (length (t_nodes t)) t 0"

section \<open>The invariant\<close>

text \<open>
  Every entry but the root has an earlier entry for its parent and is listed once, in order, among
  that parent's children; the index maps exactly the ids of those entries to their positions.
\<close>

definition tree_wf :: "tree \<Rightarrow> bool" where
  "tree_wf t \<longleftrightarrow>
     t_nodes t \<noteq> [] \<and> n_parent (node_at t 0) = None
     \<and> (\<forall>a. 0 < a \<and> a < length (t_nodes t) \<longrightarrow>
          (\<exists>p<a. n_parent (node_at t a) = Some p) \<and> t_byID t (n_id (node_at t a)) = Some a)
     \<and> (\<forall>p<length (t_nodes t). n_children (node_at t p)
          = filter (\<lambda>a. n_parent (node_at t a) = Some p) [0..<length (t_nodes t)])
     \<and> (\<forall>i a. t_byID t i = Some a \<longrightarrow> 0 < a \<and> a < length (t_nodes t) \<and> n_id (node_at t a) = i)"

lemma tree_wfD:
  assumes "tree_wf t"
  shows "t_nodes t \<noteq> []" "n_parent (node_at t 0) = None"
    and "0 < a \<Longrightarrow> a < length (t_nodes t) \<Longrightarrow> \<exists>p<a. n_parent (node_at t a) = Some p"
    and "0 < a \<Longrightarrow> a < length (t_nodes t) \<Longrightarrow> t_byID t (n_id (node_at t a)) = Some a"
    and "p < length (t_nodes t) \<Longrightarrow>
      n_children (node_at t p) = filter (\<lambda>a. n_parent (node_at t a) = Some p) [0..<length (t_nodes t)]"
    and "t_byID t i = Some a \<Longrightarrow> 0 < a \<and> a < length (t_nodes t) \<and> n_id (node_at t a) = i"
  using assms by (auto simp: tree_wf_def)

lemma NewTree_wf [inv_intros]: "tree_wf NewTree"
  by (auto simp: tree_wf_def NewTree_def node_at_def new_node_def)

lemma ownsLocked_iff: "tree_wf t \<Longrightarrow> ownsLocked t a \<longleftrightarrow> a < length (t_nodes t)"
  by (cases "a = 0") (auto simp: ownsLocked_def dest: tree_wfD)

lemma Add_Inr:
  assumes "Add newid msg parent t = Inr (a, t')"
  obtains p gen where "p = (case parent of None \<Rightarrow> 0 | Some p \<Rightarrow> p)" "ownsLocked t p" "n_parent msg = None"
    "a = length (t_nodes t)" "gen = (n_id msg = [])"
    "t_byID t (n_id (node_at t' a)) = None"
    "n_id (node_at t' a) = (if gen then newid (t_ids t) else n_id msg)"
    "node_at t' a = msg\<lparr>n_id := n_id (node_at t' a), n_generated := (if gen then True else n_generated msg), n_parent := Some p\<rparr>"
    "t_nodes t' = (t_nodes t)[p := (t_nodes t ! p)\<lparr>n_children := n_children (t_nodes t ! p) @ [a]\<rparr>] @ [node_at t' a]"
    "t_byID t' = (t_byID t)(n_id (node_at t' a) \<mapsto> a)"
    "t_ids t' = (if gen then Suc (t_ids t) else t_ids t)"
proof -
  let ?p = "case parent of None \<Rightarrow> 0 | Some p \<Rightarrow> p"
  show thesis
    using assms
    by (intro that [of ?p "n_id msg = []"])
       (auto simp: Add_def Let_def node_at_def nth_append split: if_splits option.splits)
qed

text \<open>What \<open>Add\<close> does to every entry: the new one is last, its parent gains a child, nothing else changes.\<close>

lemma Add_nodes:
  assumes "tree_wf t" "Add newid msg parent t = Inr (a, t')"
  shows "a = length (t_nodes t)" "length (t_nodes t') = Suc a"
    and "\<exists>p<a. p = (case parent of None \<Rightarrow> 0 | Some p \<Rightarrow> p) \<and> n_parent (node_at t' a) = Some p
      \<and> (\<forall>b<a. node_at t' b = (if b = p then (node_at t b)\<lparr>n_children := n_children (node_at t b) @ [a]\<rparr> else node_at t b))"
    and "n_children (node_at t' a) = n_children msg"
    and "n_body (node_at t' a) = n_body msg" "n_call (node_at t' a) = n_call msg"
      "n_kind (node_at t' a) = n_kind msg" "n_superseded (node_at t' a) = n_superseded msg"
    and "t_byID t (n_id (node_at t' a)) = None" "t_byID t' = (t_byID t)(n_id (node_at t' a) \<mapsto> a)"
proof -
  obtain p gen where p: "p = (case parent of None \<Rightarrow> 0 | Some p \<Rightarrow> p)" "ownsLocked t p"
    "a = length (t_nodes t)" and nb: "t_byID t (n_id (node_at t' a)) = None"
    and new: "node_at t' a = msg\<lparr>n_id := n_id (node_at t' a), n_generated := (if gen then True else n_generated msg), n_parent := Some p\<rparr>"
    and nodes: "t_nodes t' = (t_nodes t)[p := (t_nodes t ! p)\<lparr>n_children := n_children (t_nodes t ! p) @ [a]\<rparr>] @ [node_at t' a]"
    and byid: "t_byID t' = (t_byID t)(n_id (node_at t' a) \<mapsto> a)"
    using assms(2) by (rule Add_Inr)
  show "a = length (t_nodes t)" by fact
  show "length (t_nodes t') = Suc a" using nodes p by simp
  have pa: "p < a" using p ownsLocked_iff [OF assms(1)] by simp
  obtain i g where new': "node_at t' a = msg\<lparr>n_id := i, n_generated := g, n_parent := Some p\<rparr>"
    using new by blast
  have par: "n_parent (node_at t' a) = Some p" by (simp add: new')
  have "node_at t' b = (if b = p then (node_at t b)\<lparr>n_children := n_children (node_at t b) @ [a]\<rparr> else node_at t b)"
    if "b < a" for b
  proof -
    let ?xs = "(t_nodes t)[p := (t_nodes t ! p)\<lparr>n_children := n_children (t_nodes t ! p) @ [a]\<rparr>]"
    have "node_at t' b = ?xs ! b" using that p(3) by (simp only: node_at_def) (subst nodes, simp add: nth_append)
    then show ?thesis using that p(3) pa by (simp add: node_at_def nth_list_update)
  qed
  with pa par p(1) show "\<exists>p<a. p = (case parent of None \<Rightarrow> 0 | Some p \<Rightarrow> p) \<and> n_parent (node_at t' a) = Some p
      \<and> (\<forall>b<a. node_at t' b = (if b = p then (node_at t b)\<lparr>n_children := n_children (node_at t b) @ [a]\<rparr> else node_at t b))"
    by auto
  show "n_children (node_at t' a) = n_children msg" "n_body (node_at t' a) = n_body msg"
    "n_call (node_at t' a) = n_call msg" "n_kind (node_at t' a) = n_kind msg" "n_superseded (node_at t' a) = n_superseded msg"
    by (simp_all add: new')
  show "t_byID t (n_id (node_at t' a)) = None" "t_byID t' = (t_byID t)(n_id (node_at t' a) \<mapsto> a)" by fact+
qed

lemma Add_wf [inv_intros]:
  assumes wf: "tree_wf t" and add: "Add newid msg parent t = Inr (a, t')" and fresh: "n_children msg = []"
  shows "tree_wf t'"
proof -
  note N = Add_nodes [OF wf add] and W = tree_wfD [OF wf]
  obtain p where p: "p < a" "n_parent (node_at t' a) = Some p"
    and old: "\<forall>b<a. node_at t' b = (if b = p then (node_at t b)\<lparr>n_children := n_children (node_at t b) @ [a]\<rparr> else node_at t b)"
    using N(3) by blast
  have keep: "n_parent (node_at t' b) = n_parent (node_at t b)" "n_id (node_at t' b) = n_id (node_at t b)" if "b < a" for b
    using old that by auto
  have ne: "0 < a" using p(1) by simp
  have "n_children (node_at t' q) = filter (\<lambda>b. n_parent (node_at t' b) = Some q) [0..<length (t_nodes t')]"
    if "q < length (t_nodes t')" for q
  proof -
    have upto: "[0..<length (t_nodes t')] = [0..<a] @ [a]" using N(2) by simp
    have same: "filter (\<lambda>b. n_parent (node_at t' b) = Some q) [0..<a] = filter (\<lambda>b. n_parent (node_at t b) = Some q) [0..<a]"
      using keep by (intro filter_cong) auto
    show ?thesis
    proof (cases "q = a")
      case True
      have "n_parent (node_at t b) \<noteq> Some a" if "b < a" for b
        using W(3) [of b] W(2) that N(1) by (cases "b = 0") fastforce+
      then have "filter (\<lambda>b. n_parent (node_at t b) = Some q) [0..<a] = []" using True by (simp add: filter_empty_conv)
      then show ?thesis using upto same N(4) fresh True p by simp
    next
      case False
      then have qa: "q < a" using that N(2) by simp
      then have "n_children (node_at t q) = filter (\<lambda>b. n_parent (node_at t b) = Some q) [0..<a]"
        using W(5) [of q] N(1) by simp
      then show ?thesis using upto same old qa p(2) by simp
    qed
  qed
  moreover have "\<exists>r<b. n_parent (node_at t' b) = Some r" if "0 < b" "b < length (t_nodes t')" for b
    using W(3) [of b] keep(1) [of b] p that N(1,2) by (cases "b = a") auto
  moreover have "t_byID t' (n_id (node_at t' b)) = Some b" if "0 < b" "b < length (t_nodes t')" for b
  proof (cases "b = a")
    case False
    with that N(2) have "b < a" by simp
    with W(4) [of b] that keep(2) N(1,9,10) show ?thesis by auto
  qed (simp add: N(10))
  moreover have "0 < b \<and> b < length (t_nodes t') \<and> n_id (node_at t' b) = i" if "t_byID t' i = Some b" for i b
    using that W(6) [of i b] N keep(2) ne by (auto split: if_splits)
  moreover have "n_parent (node_at t' 0) = None" using keep(1) [OF ne] W(2) by simp
  moreover have "t_nodes t' \<noteq> []" using N(2) by auto
  ultimately show ?thesis unfolding tree_wf_def by blast
qed

section \<open>Paths\<close>

lemma path_up_fuel:
  assumes "tree_wf t" "a < length (t_nodes t)" "a < f" "a < g"
  shows "path_up f t a = path_up g t a"
  using assms(2-)
proof (induction f arbitrary: a g)
  case (Suc f)
  then obtain g' where g: "g = Suc g'" by (cases g) auto
  show ?case
  proof (cases "a = 0")
    case False
    then obtain p where "p < a" "n_parent (node_at t a) = Some p"
      using tree_wfD(3) [OF assms(1)] Suc.prems by blast
    moreover from this Suc.prems g have "path_up f t p = path_up g' t p" by (intro Suc.IH) auto
    ultimately show ?thesis using False g by simp
  qed (simp add: g)
qed simp

lemma PathTo_None [simp]: "PathTo t None = []"
  by (simp add: PathTo_def)

lemma PathTo_root [simp]: "PathTo t (Some 0) = []"
  by (simp add: PathTo_def)

lemma PathTo_step:
  assumes "tree_wf t" "a < length (t_nodes t)" "n_parent (node_at t a) = Some p"
  shows "PathTo t (Some a) = PathTo t (Some p) @ [a]"
proof -
  have "a \<noteq> 0" using tree_wfD(2) [OF assms(1)] assms(3) by (cases "a = 0") simp_all
  then have pa: "p < a" using tree_wfD(3) [OF assms(1), of a] assms by auto
  then have "path_up a t p = path_up (Suc p) t p"
    using assms by (intro path_up_fuel) auto
  then show ?thesis using assms \<open>a \<noteq> 0\<close> by (simp add: PathTo_def)
qed

lemma PathTo_induct [consumes 2, case_names root step]:
  assumes "tree_wf t" "a < length (t_nodes t)"
    and "P 0" "\<And>a p. a < length (t_nodes t) \<Longrightarrow> 0 < a \<Longrightarrow> p < a \<Longrightarrow> n_parent (node_at t a) = Some p \<Longrightarrow> P p \<Longrightarrow> P a"
  shows "P a"
  using assms(2)
proof (induction a rule: less_induct)
  case (less a)
  show ?case
  proof (cases "a = 0")
    case False
    then obtain p where "p < a" "n_parent (node_at t a) = Some p" using tree_wfD(3) [OF assms(1)] less.prems by blast
    with less False assms(4) show ?thesis by (meson less_trans neq0_conv)
  qed (simp add: assms(3))
qed

lemma PathTo_bounds:
  assumes "tree_wf t" "a < length (t_nodes t)"
  shows "\<forall>b\<in>set (PathTo t (Some a)). 0 < b \<and> b \<le> a"
  using assms
proof (induction rule: PathTo_induct)
  case (step a p)
  with PathTo_step [OF assms(1) step(1) step(4)] show ?case by fastforce
qed simp

text \<open>Two trees that agree on the parents along a path have the same path.\<close>

lemma PathTo_cong:
  assumes "tree_wf t" "tree_wf t'" "a < length (t_nodes t)" "length (t_nodes t) \<le> length (t_nodes t')"
    and "\<And>b. b < length (t_nodes t) \<Longrightarrow> n_parent (node_at t' b) = n_parent (node_at t b)"
  shows "PathTo t' (Some a) = PathTo t (Some a)"
  using assms(1,3)
proof (induction rule: PathTo_induct)
  case (step a p)
  have "PathTo t' (Some a) = PathTo t' (Some p) @ [a]"
    using step assms by (intro PathTo_step) auto
  with step show ?case using PathTo_step [OF assms(1) step(1) step(4)] by simp
qed simp

lemma Add_paths:
  assumes wf: "tree_wf t" and add: "Add newid msg parent t = Inr (a, t')" and "n_children msg = []"
  shows "b < length (t_nodes t) \<Longrightarrow> PathTo t' (Some b) = PathTo t (Some b)"
    and "PathTo t' (Some a) = PathTo t parent @ [a]"
proof -
  note N = Add_nodes [OF wf add] and wf' = Add_wf [OF assms]
  obtain p where p: "p < a" "p = (case parent of None \<Rightarrow> 0 | Some p \<Rightarrow> p)" "n_parent (node_at t' a) = Some p"
    and old: "\<forall>b<a. node_at t' b = (if b = p then (node_at t b)\<lparr>n_children := n_children (node_at t b) @ [a]\<rparr> else node_at t b)"
    using N(3) by blast
  have same: "b < length (t_nodes t) \<Longrightarrow> PathTo t' (Some b) = PathTo t (Some b)" for b
    using old N by (intro PathTo_cong [OF wf wf']) auto
  then show "b < length (t_nodes t) \<Longrightarrow> PathTo t' (Some b) = PathTo t (Some b)" .
  have "PathTo t' (Some a) = PathTo t' (Some p) @ [a]"
    using N(2) by (intro PathTo_step [OF wf' _ p(3)]) simp
  then show "PathTo t' (Some a) = PathTo t parent @ [a]"
    using same [of p] p N(1) by (cases parent) auto
qed

section \<open>The whole tree\<close>

lemma distinct_concat_map:
  assumes "distinct cs" "\<And>c. c \<in> set cs \<Longrightarrow> distinct (f c)"
    "\<And>c d. c \<in> set cs \<Longrightarrow> d \<in> set cs \<Longrightarrow> c \<noteq> d \<Longrightarrow> set (f c) \<inter> set (f d) = {}"
  shows "distinct (concat (map f cs))"
  using assms
proof (induction cs)
  case (Cons c cs)
  have "set (f c) \<inter> set (f d) = {}" if "d \<in> set cs" for d
    using that Cons.prems(1) by (intro Cons.prems(3)) auto
  moreover have "distinct (concat (map f cs))" by (rule Cons.IH) (use Cons.prems in auto)
  moreover have "distinct (f c)" by (rule Cons.prems(2)) simp
  ultimately show ?case by auto
qed simp

definition below :: "tree \<Rightarrow> nat \<Rightarrow> nat \<Rightarrow> bool" where
  "below t a b \<longleftrightarrow> b < length (t_nodes t) \<and> b \<noteq> a \<and> 0 < b \<and> (a = 0 \<or> a \<in> set (PathTo t (Some b)))"

lemma in_path_self:
  assumes "tree_wf t" "0 < a" "a < length (t_nodes t)"
  shows "a \<in> set (PathTo t (Some a))"
proof -
  obtain p where "n_parent (node_at t a) = Some p" using tree_wfD(3) assms by blast
  from PathTo_step [OF assms(1,3) this] show ?thesis by simp
qed

lemma below_parent:
  assumes "tree_wf t" "b < length (t_nodes t)" "n_parent (node_at t b) = Some p"
  shows "below t a b \<longleftrightarrow> a = p \<or> below t a p"
proof -
  have b: "0 < b" using assms tree_wfD(2) [OF assms(1)] by (cases "b = 0") auto
  then have p: "p < b" using tree_wfD(3) [OF assms(1) b assms(2)] assms(3) by auto
  have path: "PathTo t (Some b) = PathTo t (Some p) @ [b]" by (rule PathTo_step [OF assms])
  have pl: "p < length (t_nodes t)" using p assms by simp
  show ?thesis
  proof (cases "p = 0")
    case True
    with path b assms show ?thesis by (auto simp: below_def)
  next
    case False
    have "b \<notin> set (PathTo t (Some p))" using PathTo_bounds [OF assms(1) pl] p by fastforce
    with path b p pl assms in_path_self [OF assms(1) _ pl] False show ?thesis
      by (auto simp: below_def)
  qed
qed

lemma below_less: "tree_wf t \<Longrightarrow> below t a b \<Longrightarrow> a < b"
  using PathTo_bounds [of t b] by (fastforce simp: below_def)

lemma below_trans:
  assumes "tree_wf t" "d < length (t_nodes t)" "n_parent (node_at t d) = Some a" "b = d \<or> below t d b"
  shows "below t a b"
  using assms(4)
proof (induction b rule: less_induct)
  case (less b)
  show ?case
  proof (cases "b = d")
    case True
    with below_parent [OF assms(1,2,3)] show ?thesis by simp
  next
    case False
    with less.prems have b: "0 < b" "b < length (t_nodes t)" "below t d b" by (auto simp: below_def)
    then obtain p where p: "p < b" "n_parent (node_at t b) = Some p" using tree_wfD(3) [OF assms(1)] by blast
    with below_parent [OF assms(1) b(2) p(2)] b(3) less.IH [OF p(1)] show ?thesis by auto
  qed
qed

lemma below_child:
  assumes "tree_wf t" "below t a b"
  shows "\<exists>c. n_parent (node_at t c) = Some a \<and> c < length (t_nodes t) \<and> (b = c \<or> below t c b)"
  using assms(2)
proof (induction b rule: less_induct)
  case (less b)
  then have b: "0 < b" "b < length (t_nodes t)" by (auto simp: below_def)
  then obtain p where p: "p < b" "n_parent (node_at t b) = Some p" using tree_wfD(3) [OF assms(1)] by blast
  show ?case
  proof (cases "a = p")
    case False
    with less.prems below_parent [OF assms(1) b(2) p(2)] have "below t a p" by simp
    from less.IH [OF p(1) this] obtain c where
      c: "n_parent (node_at t c) = Some a" "c < length (t_nodes t)" "p = c \<or> below t c p" by blast
    then have "below t c b" using below_parent [OF assms(1) b(2) p(2)] by auto
    with c show ?thesis by blast
  qed (use p b in auto)
qed

lemma below_child_unique:
  assumes "tree_wf t" "n_parent (node_at t c) = Some a" "n_parent (node_at t d) = Some a"
    "c < length (t_nodes t)" "d < length (t_nodes t)" "b = c \<or> below t c b" "b = d \<or> below t d b"
  shows "c = d"
  using assms(6,7)
proof (induction b rule: less_induct)
  case (less b)
  have bl: "b < length (t_nodes t)" using less.prems assms by (auto simp: below_def)
  have c0: "a < c" "a < d"
    using assms(2,3) tree_wfD(2,3) [OF assms(1)] assms(4,5) by (metis neq0_conv option.distinct(1) option.inject)+
  show ?case
  proof (cases "b = c \<and> b = d")
    case False
    then have "below t c b \<or> below t d b" using less.prems by auto
    then have "0 < b" by (auto simp: below_def)
    then obtain p where p: "p < b" "n_parent (node_at t b) = Some p" using tree_wfD(3) [OF assms(1)] bl by blast
    have "\<not> below t d c \<and> \<not> below t c d"
      using below_parent [OF assms(1,4,2)] below_parent [OF assms(1,5,3)] below_less [OF assms(1)] c0
      by (metis less_asym less_irrefl)
    with less.prems False below_parent [OF assms(1) bl p(2)] less.IH [OF p(1)] show ?thesis
      by (metis)
  qed simp
qed

lemma walk_below:
  assumes "tree_wf t" "a < length (t_nodes t)" "length (t_nodes t) \<le> a + fuel"
  shows "set (walk fuel t a) = {b. below t a b} \<and> distinct (walk fuel t a)"
  using assms(2,3)
proof (induction fuel arbitrary: a)
  case (Suc fuel)
  let ?cs = "n_children (node_at t a)"
  have cs: "?cs = filter (\<lambda>b. n_parent (node_at t b) = Some a) [0..<length (t_nodes t)]"
    using tree_wfD(5) [OF assms(1)] Suc.prems by simp
  have c: "c < length (t_nodes t)" "n_parent (node_at t c) = Some a" "a < c" if "c \<in> set ?cs" for c
  proof -
    show "c < length (t_nodes t)" "n_parent (node_at t c) = Some a" using that cs by auto
    then have "0 < c" using tree_wfD(2) [OF assms(1)] by (cases "c = 0") auto
    from tree_wfD(3) [OF assms(1) this \<open>c < length (t_nodes t)\<close>] \<open>n_parent (node_at t c) = Some a\<close>
    show "a < c" by auto
  qed
  have IH: "set (walk fuel t c) = {b. below t c b}" "distinct (walk fuel t c)" if "c \<in> set ?cs" for c
    using Suc.IH [of c] c [OF that] Suc.prems by auto
  have piece: "set (c # walk fuel t c) = {b. b = c \<or> below t c b}" "distinct (c # walk fuel t c)" if "c \<in> set ?cs" for c
    using IH [OF that] by (auto simp: below_def)
  have "set (walk (Suc fuel) t a) = (\<Union>c\<in>set ?cs. {b. b = c \<or> below t c b})"
    using piece(1) by auto
  also have "\<dots> = {b. below t a b}"
  proof (intro equalityI subsetI)
    fix b assume "b \<in> (\<Union>c\<in>set ?cs. {b. b = c \<or> below t c b})"
    then obtain d where d: "d \<in> set ?cs" "b = d \<or> below t d b" by auto
    then show "b \<in> {b. below t a b}"
      using below_trans [OF assms(1) c(1,2) [OF d(1)]] by auto
  next
    fix b assume "b \<in> {b. below t a b}"
    with below_child [OF assms(1), of a b] cs show "b \<in> (\<Union>c\<in>set ?cs. {b. b = c \<or> below t c b})" by auto
  qed
  finally have set: "set (walk (Suc fuel) t a) = {b. below t a b}" .
  have "distinct (concat (map (\<lambda>c. c # walk fuel t c) ?cs))"
  proof (rule distinct_concat_map)
    show "distinct ?cs" using cs by simp
    show "distinct (c # walk fuel t c)" if "c \<in> set ?cs" for c by (rule piece(2) [OF that])
    show "set (c # walk fuel t c) \<inter> set (d # walk fuel t d) = {}" if "c \<in> set ?cs" "d \<in> set ?cs" "c \<noteq> d" for c d
      using below_child_unique [OF assms(1) c(2) [OF that(1)] c(2) [OF that(2)] c(1) [OF that(1)] c(1) [OF that(2)]]
        that(3) unfolding piece(1) [OF that(1)] piece(1) [OF that(2)] by blast
  qed
  with set show ?case by simp
qed (use assms in auto)

lemma set_Nodes:
  assumes "tree_wf t"
  shows "set (Nodes t) = set [1..<length (t_nodes t)]" "distinct (Nodes t)"
proof -
  have "0 < length (t_nodes t)" using tree_wfD(1) [OF assms] by simp
  then have "set (Nodes t) = {b. below t 0 b}" and d: "distinct (Nodes t)"
    using walk_below [OF assms, of 0 "length (t_nodes t)"] by (auto simp: Nodes_def)
  moreover have "{b. below t 0 b} = set [1..<length (t_nodes t)]" by (auto simp: below_def)
  ultimately show "set (Nodes t) = set [1..<length (t_nodes t)]" by simp
  show "distinct (Nodes t)" by (rule d)
qed

text \<open>
  Walking the whole tree visits every node of it exactly once, the root excluded: nothing that was
  ever added is out of reach, and nothing is visited twice.
\<close>

theorem Nodes_complete:
  assumes "tree_wf t"
  shows "mset (Nodes t) = mset [1..<length (t_nodes t)]"
  using set_Nodes [OF assms] set_eq_iff_mset_eq_distinct [of "Nodes t" "[1..<length (t_nodes t)]"] by simp

section \<open>Updates in place\<close>

text \<open>Filling a field, finishing a node or superseding it leaves the links and the ids alone.\<close>

definition keeps_links :: "(node \<Rightarrow> node) \<Rightarrow> bool" where
  "keeps_links f \<longleftrightarrow> (\<forall>n. n_id (f n) = n_id n \<and> n_parent (f n) = n_parent n \<and> n_children (f n) = n_children n)"

lemma keeps_links_simps [simp]:
  "keeps_links FinishNode" "keeps_links RestartNode" "keeps_links MarkSuperseded"
  "keeps_links (SetCallOf c)" "keeps_links (AppendField f d)"
  by (simp_all add: keeps_links_def FinishNode_def RestartNode_def MarkSuperseded_def SetCallOf_def AppendField_def)

lemma upd_node_simps [simp]:
  "length (t_nodes (upd_node a f t)) = length (t_nodes t)" "t_byID (upd_node a f t) = t_byID t"
  "t_ids (upd_node a f t) = t_ids t"
  by (simp_all add: upd_node_def)

lemma node_at_upd: "b < length (t_nodes t) \<Longrightarrow> node_at (upd_node a f t) b = (if b = a then f (node_at t b) else node_at t b)"
  by (auto simp: upd_node_def node_at_def nth_list_update)

lemma node_at_upd_links:
  assumes "keeps_links f" "b < length (t_nodes t)"
  shows "n_id (node_at (upd_node a f t) b) = n_id (node_at t b)"
    "n_parent (node_at (upd_node a f t) b) = n_parent (node_at t b)"
    "n_children (node_at (upd_node a f t) b) = n_children (node_at t b)"
  using assms by (simp_all add: node_at_upd keeps_links_def)

lemma upd_node_wf [inv_intros]:
  assumes "keeps_links f" "tree_wf t"
  shows "tree_wf (upd_node a f t)"
proof -
  let ?t = "upd_node a f t"
  note W = tree_wfD [OF assms(2)] and L = node_at_upd_links [OF assms(1)]
  have "n_children (node_at ?t p) = filter (\<lambda>b. n_parent (node_at ?t b) = Some p) [0..<length (t_nodes ?t)]"
    if "p < length (t_nodes t)" for p
  proof -
    have "filter (\<lambda>b. n_parent (node_at ?t b) = Some p) [0..<length (t_nodes t)]
        = filter (\<lambda>b. n_parent (node_at t b) = Some p) [0..<length (t_nodes t)]"
      using L(2) by (intro filter_cong) auto
    then show ?thesis using L(3) [OF that] W(5) [OF that] by simp
  qed
  moreover have "t_nodes ?t \<noteq> []" using W(1) by (simp add: upd_node_def)
  moreover have "n_parent (node_at ?t 0) = None" using L(2) [of 0 t] W(1,2) by simp
  moreover have "(\<exists>p<b. n_parent (node_at ?t b) = Some p) \<and> t_byID ?t (n_id (node_at ?t b)) = Some b"
    if "0 < b" "b < length (t_nodes ?t)" for b
    using that L(1,2) [of b t] W(3,4) [of b] by simp
  moreover have "0 < b \<and> b < length (t_nodes ?t) \<and> n_id (node_at ?t b) = i" if "t_byID ?t i = Some b" for i b
    using W(6) [of i b] that L(1) [of b t] by simp
  ultimately show ?thesis unfolding tree_wf_def by simp
qed

lemma upd_node_path:
  assumes "keeps_links f" "tree_wf t" "a' < length (t_nodes t)"
  shows "PathTo (upd_node a f t) (Some a') = PathTo t (Some a')"
  using assms node_at_upd_links(2) [OF assms(1)]
  by (intro PathTo_cong [OF assms(2) upd_node_wf [OF assms(1,2)]]) auto

section \<open>What adding a node does to a conversation\<close>

text \<open>
  C9. Adding a fresh node to a well-formed tree keeps it well formed and puts the node at the end of its
  parent's conversation, and every conversation that was in the tree, read from its leaf to the root,
  is what it was: an edit or a regenerated answer is a sibling and cuts nothing out.
\<close>

theorem Add_conversation:
  assumes "tree_wf t" "Add newid msg parent t = Inr (a, t')" "n_children msg = []"
  shows "tree_wf t' \<and> PathTo t' (Some a) = PathTo t parent @ [a]
    \<and> (\<forall>b<length (t_nodes t). PathTo t' (Some b) = PathTo t (Some b) \<and> n_body (node_at t' b) = n_body (node_at t b))
    \<and> tree_node t' (n_id (node_at t' a)) = Some a \<and> tree_node t (n_id (node_at t' a)) = None"
proof -
  note N = Add_nodes [OF assms(1,2)]
  have "n_body (node_at t' b) = n_body (node_at t b)" if "b < length (t_nodes t)" for b
    using N(1,3) that by auto
  then show ?thesis
    using Add_wf [OF assms] Add_paths [OF assms] N(9,10) by (simp add: tree_node_def)
qed

definition two_ids :: "nat \<Rightarrow> string" where
  "two_ids k = (if k = 0 then ''a'' else ''b'')"

theorem Add_conversation_witness:
  "\<exists>a t'. Add two_ids (NewAssistantText ''hi'') None NewTree = Inr (a, t') \<and> tree_wf t' \<and> PathTo t' (Some a) = [a]"
proof -
  obtain a t' where add: "Add two_ids (NewAssistantText ''hi'') None NewTree = Inr (a, t')"
    by (simp add: Add_def NewTree_def two_ids_def ownsLocked_def NewAssistantText_def new_node_def Let_def)
  have "n_children (NewAssistantText ''hi'') = []" by (simp add: NewAssistantText_def new_node_def)
  from Add_conversation [OF NewTree_wf add this] add show ?thesis by simp
qed

text \<open>A tree with a sibling: two answers under one user message.\<close>

theorem Nodes_complete_witness:
  "\<exists>t. tree_wf t \<and> mset (Nodes t) = mset [1..<3]"
proof -
  obtain a t1 where t1: "Add two_ids (NewAssistantText ''x'') None NewTree = Inr (a, t1)"
    by (simp add: Add_def NewTree_def two_ids_def ownsLocked_def NewAssistantText_def new_node_def Let_def)
  have c: "n_children (NewAssistantText s) = []" for s by (simp add: NewAssistantText_def new_node_def)
  have w1: "tree_wf t1" by (rule Add_wf [OF NewTree_wf t1 c])
  obtain b t2 where t2: "Add two_ids (NewAssistantText ''y'') None t1 = Inr (b, t2)"
    using t1 by (auto simp: Add_def NewTree_def two_ids_def ownsLocked_def NewAssistantText_def new_node_def Let_def)
  have w2: "tree_wf t2" by (rule Add_wf [OF w1 t2 c])
  have "length (t_nodes t2) = 3"
    using Add_nodes(1,2) [OF NewTree_wf t1] Add_nodes(1,2) [OF w1 t2] by (simp add: NewTree_def)
  with Nodes_complete [OF w2] w2 show ?thesis by auto
qed

end
