(* ===== verification/Convert.thy ===== *)
theory Convert
  imports ConvTree
begin

text \<open>
  Between flat messages and nodes (\<open>core/convert.go\<close>): a turn's nodes as one assistant message, a
  conversation path as the messages a request carries, and a flat message as nodes. The call a tool
  result answers is looked up in the tree for its id.
\<close>

section \<open>Nodes as messages\<close>

definition wire_of :: "string option \<Rightarrow> string" where
  "wire_of e = (case e of None \<Rightarrow> [] | Some w \<Rightarrow> w)"

definition thinkingBlob :: "thinking_data \<Rightarrow> string" where
  "thinkingBlob t =
     (case th_signature t of
        Some w \<Rightarrow> w
      | None \<Rightarrow> (case th_encrypted t of Some w \<Rightarrow> w | None \<Rightarrow> th_details t))"

fun partOf :: "node_body \<Rightarrow> Part option" where
  "partOf (ThinkingNode s t) =
     Some (case th_redacted t of
             Some w \<Rightarrow> RedactedThinkingPart w
           | None \<Rightarrow> ThinkingPart (ss_current s) (thinkingBlob t) (th_itemID t) (th_raw t))"
| "partOf (AssistantNode s) = (if ss_current s \<noteq> [] then Some (TextPart (ss_current s)) else None)"
| "partOf (ToolCallNode i name args) = Some (ToolCallPart i name (toolArgs (ss_current args)))"
| "partOf _ = None"

definition MessageFromNodes :: "node list \<Rightarrow> Message" where
  "MessageFromNodes ns = NewMessage RoleAssistant (List.map_filter (\<lambda>n. partOf (n_body n)) ns)"

fun content_part :: "IContent \<Rightarrow> Part" where
  "content_part (TextContent t) = TextPart t"
| "content_part (ImageContent media src blob inl) =
     ImagePart media (case blob of Some b64 \<Rightarrow> if inl = [] then b64 else inl | None \<Rightarrow> inl) src"

definition flatContent :: "Role \<Rightarrow> node \<Rightarrow> IContent list \<Rightarrow> Message" where
  "flatContent role n content =
     (let parts = map content_part content;
          m = (empty_message role)\<lparr>msg_id := HostID n, msg_kind := n_kind n\<rparr>
      in case parts of
           [TextPart t] \<Rightarrow> m\<lparr>msg_content := t\<rparr>
         | _ \<Rightarrow> SyncViews (m\<lparr>msg_parts := parts\<rparr>))"

definition CompactionHandoffPrefix :: string where
  "CompactionHandoffPrefix =
     ''The conversation so far exceeded the context window and was summarized. ''
     @ ''This summary replaces the earlier messages; treat it as what you already know, not as a request. ''
     @ ''Continue the work it describes.'' @ [NL, NL]"

text \<open>The id of the call at a position, read when a result is flattened.\<close>

definition call_id_at :: "tree \<Rightarrow> nat \<Rightarrow> string" where
  "call_id_at t a = (case n_body (node_at t a) of ToolCallNode i _ _ \<Rightarrow> i | _ \<Rightarrow> [])"

fun result_call_id :: "(nat \<Rightarrow> string) \<Rightarrow> result_call \<Rightarrow> string" where
  "result_call_id lk (InTree a) = lk a"
| "result_call_id lk (Detached i) = i"

definition flat_node :: "(nat \<Rightarrow> string) \<Rightarrow> node \<Rightarrow> Message option" where
  "flat_node lk n =
     (case n_body n of
        UserNode content \<Rightarrow> Some (flatContent RoleUser n content)
      | SystemNode content \<Rightarrow> Some (flatContent RoleUser n content)
      | ToolResultNode call content isError omitted \<Rightarrow>
          Some ((flatContent RoleTool n content)\<lparr>msg_call_id := result_call_id lk call, msg_is_error := isError\<rparr>)
      | CompactionNode summary replaces \<Rightarrow>
          Some ((empty_message RoleUser)\<lparr>msg_id := HostID n, msg_kind := n_kind n,
                  msg_content := CompactionHandoffPrefix @ ss_current summary\<rparr>)
      | _ \<Rightarrow> None)"

fun is_output :: "node_body \<Rightarrow> bool" where
  "is_output (ThinkingNode _ _) = True"
| "is_output (AssistantNode _) = True"
| "is_output (ToolCallNode _ _ _) = True"
| "is_output (RawBlockNode _ _ _) = True"
| "is_output _ = False"

definition flush_group :: "node list \<Rightarrow> Message list" where
  "flush_group grp = (if grp = [] then [] else [(MessageFromNodes grp)\<lparr>msg_id := HostID (hd grp)\<rparr>])"

primrec path_messages :: "(nat \<Rightarrow> string) \<Rightarrow> node list \<Rightarrow> node list \<Rightarrow> nat option \<Rightarrow> Message list" where
  "path_messages lk [] grp gcall = flush_group grp"
| "path_messages lk (n # ns) grp gcall =
     (if n_superseded n then path_messages lk ns grp gcall
      else if is_output (n_body n) then
        (if grp \<noteq> [] \<and> (n_call n \<noteq> gcall \<or> gcall = None)
         then flush_group grp @ path_messages lk ns [n] (n_call n)
         else path_messages lk ns (grp @ [n]) (n_call n))
      else (case flat_node lk n of
              None \<Rightarrow> path_messages lk ns grp gcall
            | Some m \<Rightarrow> flush_group grp @ m # path_messages lk ns [] None))"

definition MessagesFromPath :: "tree \<Rightarrow> nat list \<Rightarrow> Message list" where
  "MessagesFromPath t path = path_messages (call_id_at t) (map (node_at t) path) [] None"

section \<open>Messages as nodes\<close>

definition ThinkingFromBlock :: "string \<Rightarrow> string \<Rightarrow> string \<Rightarrow> bool \<Rightarrow> Dialect \<Rightarrow> node" where
  "ThinkingFromBlock txt blob i raw d =
     (let t = \<lparr>th_signature = None, th_encrypted = None, th_redacted = None, th_itemID = i,
               th_details = [], th_raw = raw, th_dialect = d\<rparr>;
          t = (if blob = [] then t
               else (case d of
                       DialectResponses \<Rightarrow> t\<lparr>th_encrypted := NewEncryptedReasoning blob\<rparr>
                     | DialectOpenAI \<Rightarrow> t\<lparr>th_details := blob\<rparr>
                     | _ \<Rightarrow> t\<lparr>th_signature := NewEncryptedReasoning blob\<rparr>))
      in new_node (ThinkingNode (FinishedString txt) t))"

definition RedactedNode :: "string \<Rightarrow> Dialect \<Rightarrow> node" where
  "RedactedNode blob d = new_node (ThinkingNode (FinishedString [])
     \<lparr>th_signature = None, th_encrypted = None, th_redacted = NewEncryptedReasoning blob, th_itemID = [],
      th_details = [], th_raw = False, th_dialect = d\<rparr>)"

fun part_content :: "Part \<Rightarrow> IContent list" where
  "part_content (TextPart t) = [TextContent t]"
| "part_content (ImagePart media inl src) = [ImageContent media src None inl]"
| "part_content _ = []"

fun part_nodes :: "Dialect \<Rightarrow> Part \<Rightarrow> node list" where
  "part_nodes d (ThinkingPart txt sig i raw) = [ThinkingFromBlock txt sig i raw d]"
| "part_nodes d (RedactedThinkingPart w) = [RedactedNode w d]"
| "part_nodes d (TextPart t) = [NewAssistantText t]"
| "part_nodes d (ToolCallPart i name args) = [NewToolCallArgs i name args]"
| "part_nodes d (ImagePart _ _ _) = []"

definition tag_nodes :: "Message \<Rightarrow> node list \<Rightarrow> node list" where
  "tag_nodes m ns =
     (case ns of
        [] \<Rightarrow> []
      | n # rest \<Rightarrow> n\<lparr>n_id := msg_id m, n_kind := msg_kind m\<rparr> # map (\<lambda>n. n\<lparr>n_kind := msg_kind m\<rparr>) rest)"

text \<open>\<open>rec\<close> is the call record the turn's nodes share when the message is the assistant's.\<close>

definition NodesFromMessage :: "nat \<Rightarrow> Message \<Rightarrow> Dialect \<Rightarrow> node list" where
  "NodesFromMessage rec m d =
     (let content = concat (map part_content (EffectiveParts m)) in
      case msg_role m of
        RoleTool \<Rightarrow>
          tag_nodes m [new_node (ToolResultNode (Detached (msg_call_id m)) content (msg_is_error m) [])]
      | RoleAssistant \<Rightarrow>
          map (SetCallOf (Some rec)) (tag_nodes m (concat (map (part_nodes d) (EffectiveParts m))))
      | RoleOther _ \<Rightarrow> []
      | role \<Rightarrow>
          tag_nodes m [new_node (if msg_kind m \<noteq> [] \<and> role = RoleUser \<and> msg_kind m \<noteq> CompactionKind
                                 then SystemNode content else UserNode content)])"

section \<open>Facts about the conversions\<close>

lemma path_messages_superseded: "path_messages lk (filter (\<lambda>n. \<not> n_superseded n) ns) grp c = path_messages lk ns grp c"
  by (induction ns arbitrary: grp c) (auto split: option.splits)

lemma path_messages_group:
  assumes "\<forall>n\<in>set ns. is_output (n_body n) \<and> \<not> n_superseded n \<and> n_call n = Some r"
  shows "path_messages lk (ns @ rest) grp (Some r) = path_messages lk rest (grp @ ns) (Some r)"
  using assms by (induction ns arbitrary: grp) auto

lemma part_nodes_facts:
  "n \<in> set (part_nodes d p) \<Longrightarrow> is_output (n_body n) \<and> \<not> n_superseded n \<and> \<not> n_generated n \<and> n_children n = [] \<and> n_parent n = None"
  by (cases p) (auto simp: ThinkingFromBlock_def RedactedNode_def NewAssistantText_def NewToolCallArgs_def new_node_def Let_def)

lemma tag_nodes_facts:
  "n \<in> set (tag_nodes m ns) \<Longrightarrow> \<exists>n0\<in>set ns. n_body n = n_body n0 \<and> n_superseded n = n_superseded n0
     \<and> n_generated n = n_generated n0 \<and> n_children n = n_children n0 \<and> n_parent n = n_parent n0 \<and> n_call n = n_call n0"
  by (cases ns) (auto simp: tag_nodes_def)

lemma tag_nodes_bodies: "map n_body (tag_nodes m ns) = map n_body ns"
  by (cases ns) (auto simp: tag_nodes_def)

lemma NodesFromMessage_fresh:
  "n \<in> set (NodesFromMessage rec m d) \<Longrightarrow> n_children n = [] \<and> n_parent n = None \<and> \<not> n_superseded n \<and> \<not> n_generated n"
  by (cases "msg_role m")
     (auto simp: NodesFromMessage_def Let_def new_node_def SetCallOf_def
           dest!: tag_nodes_facts part_nodes_facts)

definition faithful_part :: "Part \<Rightarrow> bool" where
  "faithful_part p \<longleftrightarrow>
     (case p of
        TextPart t \<Rightarrow> t \<noteq> []
      | RedactedThinkingPart w \<Rightarrow> w \<noteq> []
      | ToolCallPart i n a \<Rightarrow> trim_space a \<noteq> []
      | ThinkingPart _ _ _ _ \<Rightarrow> True
      | ImagePart _ _ _ \<Rightarrow> False)"

lemma partOf_part_nodes:
  "faithful_part p \<Longrightarrow> List.map_filter partOf (map n_body (part_nodes d p)) = [p]"
  by (cases p) (auto simp: faithful_part_def ThinkingFromBlock_def RedactedNode_def NewAssistantText_def
      NewToolCallArgs_def new_node_def Let_def toolArgs_def thinkingBlob_def NewEncryptedReasoning_def
      map_filter_simps split: Dialect.splits)

lemma map_filter_append [simp]: "List.map_filter f (xs @ ys) = List.map_filter f xs @ List.map_filter f ys"
  by (simp add: List.map_filter_def)

lemma map_filter_map: "List.map_filter (\<lambda>n. f (g n)) xs = List.map_filter f (map g xs)"
  by (induction xs) (auto simp: map_filter_simps split: option.splits)

lemma partOf_nodes:
  "\<forall>p\<in>set ps. faithful_part p \<Longrightarrow>
   List.map_filter partOf (map n_body (concat (map (part_nodes d) ps))) = ps"
  by (induction ps) (auto simp: partOf_part_nodes map_filter_simps)

lemma content_round: "\<forall>p\<in>set ps. part_content p \<noteq> [] \<Longrightarrow> map content_part (concat (map part_content ps)) = ps"
proof (induction ps)
  case (Cons p ps)
  then show ?case by (cases p) auto
qed simp

text \<open>Messages that nodes can hold without loss.\<close>

definition flat_ok :: "Message \<Rightarrow> bool" where
  "flat_ok m \<longleftrightarrow>
     (case msg_role m of
        RoleAssistant \<Rightarrow> EffectiveParts m \<noteq> [] \<and> (\<forall>p\<in>set (EffectiveParts m). faithful_part p)
      | RoleUser \<Rightarrow> (\<forall>p\<in>set (EffectiveParts m). part_content p \<noteq> []) \<and> EffectiveParts m \<noteq> [TextPart []]
      | RoleTool \<Rightarrow> (\<forall>p\<in>set (EffectiveParts m). part_content p \<noteq> []) \<and> EffectiveParts m \<noteq> [TextPart []]
      | _ \<Rightarrow> False)"

lemma flatContent_parts:
  assumes "map content_part content = ps" "ps \<noteq> [TextPart []]"
  shows "EffectiveParts (flatContent role n content) = ps" "msg_role (flatContent role n content) = role"
    "msg_id (flatContent role n content) = HostID n" "msg_kind (flatContent role n content) = n_kind n"
proof -
  show "EffectiveParts (flatContent role n content) = ps"
  proof (cases "\<exists>t. ps = [TextPart t]")
    case True
    with assms show ?thesis by (auto simp: flatContent_def EffectiveParts_def empty_message_def Let_def)
  next
    case False
    then have "flatContent role n content = SyncViews ((empty_message role)\<lparr>msg_id := HostID n, msg_kind := n_kind n, msg_parts := ps\<rparr>)"
      using assms by (auto simp: flatContent_def Let_def split: list.splits Part.splits)
    then show ?thesis by (auto simp: EffectiveParts_def SyncViews_def empty_message_def)
  qed
  show "msg_role (flatContent role n content) = role"
    "msg_id (flatContent role n content) = HostID n" "msg_kind (flatContent role n content) = n_kind n"
    by (auto simp: flatContent_def SyncViews_def empty_message_def Let_def split: list.splits Part.splits)
qed

lemma EffectiveParts_upd [simp]:
  "EffectiveParts (m\<lparr>msg_call_id := i\<rparr>) = EffectiveParts m" "EffectiveParts (m\<lparr>msg_is_error := e\<rparr>) = EffectiveParts m"
  "EffectiveParts (m\<lparr>msg_id := j\<rparr>) = EffectiveParts m"
  by (simp_all add: EffectiveParts_def)

lemma assistant_nodes_message:
  assumes "msg_role m = RoleAssistant" "flat_ok m"
  shows "\<exists>m'. path_messages lk (NodesFromMessage rec m d) [] None = [m'] \<and> EffectiveParts m' = EffectiveParts m
    \<and> msg_role m' = RoleAssistant \<and> msg_id m' = msg_id m"
proof -
  let ?ns = "NodesFromMessage rec m d" and ?ps = "EffectiveParts m"
  let ?bs = "concat (map (part_nodes d) ?ps)"
  have ok: "?ps \<noteq> []" "\<forall>p\<in>set ?ps. faithful_part p" using assms by (auto simp: flat_ok_def)
  have ns: "?ns = map (SetCallOf (Some rec)) (tag_nodes m ?bs)" using assms by (simp add: NodesFromMessage_def Let_def)
  have "map n_body ?ns = map n_body ?bs"
    unfolding ns by (simp add: SetCallOf_def comp_def tag_nodes_bodies)
  then have parts: "List.map_filter (\<lambda>n. partOf (n_body n)) ?ns = ?ps"
    using partOf_nodes [OF ok(2)] by (simp only: map_filter_map)
  obtain n rest where n: "?ns = n # rest" using parts ok(1) by (cases ?ns) (auto simp: map_filter_simps)
  have all: "\<forall>x\<in>set ?ns. is_output (n_body x) \<and> \<not> n_superseded x \<and> n_call x = Some rec"
    unfolding ns by (auto simp: SetCallOf_def dest!: tag_nodes_facts part_nodes_facts)
  have "path_messages lk ?ns [] None = path_messages lk rest [n] (Some rec)" using n all by simp
  also have "\<dots> = flush_group (n # rest)"
    using path_messages_group [of rest rec lk "[]" "[n]"] all n by simp
  also have "\<dots> = [(MessageFromNodes ?ns)\<lparr>msg_id := HostID n\<rparr>]" using n by (simp add: flush_group_def)
  finally have msgs: "path_messages lk ?ns [] None = [(MessageFromNodes ?ns)\<lparr>msg_id := HostID n\<rparr>]" .
  have "n_generated x = False" if "x \<in> set ?bs" for x using that by (auto dest: part_nodes_facts)
  then have "HostID n = msg_id m"
    using n unfolding ns by (cases ?bs) (auto simp: tag_nodes_def SetCallOf_def HostID_def)
  with msgs parts ok show ?thesis
    by (simp add: MessageFromNodes_def EffectiveParts_def)
qed

lemma other_nodes_message:
  assumes "msg_role m \<noteq> RoleAssistant" "flat_ok m"
  shows "\<exists>m'. path_messages lk (NodesFromMessage rec m d) [] None = [m'] \<and> EffectiveParts m' = EffectiveParts m
    \<and> msg_role m' = msg_role m \<and> msg_id m' = msg_id m \<and> msg_kind m' = msg_kind m
    \<and> (msg_role m = RoleTool \<longrightarrow> msg_call_id m' = msg_call_id m \<and> msg_is_error m' = msg_is_error m)"
proof -
  let ?c = "concat (map part_content (EffectiveParts m))"
  have ps: "map content_part ?c = EffectiveParts m" "EffectiveParts m \<noteq> [TextPart []]"
    using assms content_round by (auto simp: flat_ok_def split: Role.splits)
  note F = flatContent_parts [OF ps]
  from assms consider "msg_role m = RoleUser" | "msg_role m = RoleTool" by (auto simp: flat_ok_def split: Role.splits)
  then show ?thesis
  proof cases
    case 1
    then show ?thesis using F
      by (auto simp: NodesFromMessage_def Let_def tag_nodes_def new_node_def flat_node_def flush_group_def HostID_def)
  next
    case 2
    then show ?thesis using F
      by (auto simp: NodesFromMessage_def Let_def tag_nodes_def new_node_def flat_node_def flush_group_def HostID_def)
  qed
qed


definition thoughtful_turn :: Message where
  "thoughtful_turn = NewMessage RoleAssistant [ThinkingPart ''hm'' ''c2ln'' [] False, TextPart ''ok'', ToolCallPart ''c1'' ''ls'' ''{}'']"


end
