(* ===== verification/Prog.thy ===== *)
theory Prog
  imports Prelude
begin

text \<open>
  Sequencing of effectful Go code. A statement maps a state to an outcome and a new state; the outcome
  is a value or an early exit (a \<open>return\<close> out of the middle of a function, a panic). \<open>wp\<close> reads off what
  holds when a statement ends, and the rules below compute it through a statement's structure.
\<close>

section \<open>Statements\<close>

type_synonym ('e, 'a, 's) prog = "'s \<Rightarrow> ('e + 'a) \<times> 's"

definition ret :: "'a \<Rightarrow> ('e, 'a, 's) prog" where
  "ret x s = (Inr x, s)"

definition exit_with :: "'e \<Rightarrow> ('e, 'a, 's) prog" where
  "exit_with e s = (Inl e, s)"

definition and_then :: "('e, 'a, 's) prog \<Rightarrow> ('a \<Rightarrow> ('e, 'b, 's) prog) \<Rightarrow> ('e, 'b, 's) prog" where
  "and_then m f s = (case m s of (Inl e, s') \<Rightarrow> (Inl e, s') | (Inr x, s') \<Rightarrow> f x s')"

definition get_state :: "('s \<Rightarrow> 'a) \<Rightarrow> ('e, 'a, 's) prog" where
  "get_state f s = (Inr (f s), s)"

definition modify :: "('s \<Rightarrow> 's) \<Rightarrow> ('e, unit, 's) prog" where
  "modify f s = (Inr (), f s)"

definition run_fn :: "('s \<Rightarrow> 'a \<times> 's) \<Rightarrow> ('e, 'a, 's) prog" where
  "run_fn f s = (let (x, s') = f s in (Inr x, s'))"

definition when_do :: "bool \<Rightarrow> ('e, unit, 's) prog \<Rightarrow> ('e, unit, 's) prog" where
  "when_do b m = (if b then m else ret ())"

primrec for_each :: "'a list \<Rightarrow> ('a \<Rightarrow> ('e, 'b, 's) prog) \<Rightarrow> ('e, 'b list, 's) prog" where
  "for_each [] f = ret []"
| "for_each (x # xs) f = and_then (f x) (\<lambda>y. and_then (for_each xs f) (\<lambda>ys. ret (y # ys)))"

text \<open>A statement on a part of the state, and with its exits renamed.\<close>

definition on_part :: "('s \<Rightarrow> 't) \<Rightarrow> ('t \<Rightarrow> 's \<Rightarrow> 's) \<Rightarrow> ('e \<Rightarrow> 'f) \<Rightarrow> ('e, 'a, 't) prog \<Rightarrow> ('f, 'a, 's) prog" where
  "on_part get_part put_part ren m s =
     (case m (get_part s) of
        (Inl e, t) \<Rightarrow> (Inl (ren e), put_part t s)
      | (Inr x, t) \<Rightarrow> (Inr x, put_part t s))"

section \<open>What holds afterwards\<close>

definition wp :: "('e, 'a, 's) prog \<Rightarrow> ('a \<Rightarrow> 's \<Rightarrow> bool) \<Rightarrow> ('e \<Rightarrow> 's \<Rightarrow> bool) \<Rightarrow> 's \<Rightarrow> bool" where
  "wp m Q E s = (case m s of (Inl e, s') \<Rightarrow> E e s' | (Inr x, s') \<Rightarrow> Q x s')"

lemma wp_ret [simp]: "wp (ret x) Q E s = Q x s"
  by (simp add: wp_def ret_def)

lemma wp_exit_with [simp]: "wp (exit_with e) Q E s = E e s"
  by (simp add: wp_def exit_with_def)

lemma wp_and_then [simp]: "wp (and_then m f) Q E s = wp m (\<lambda>x s'. wp (f x) Q E s') E s"
  by (simp add: wp_def and_then_def split: prod.splits sum.splits)

lemma wp_get_state [simp]: "wp (get_state g) Q E s = Q (g s) s"
  by (simp add: wp_def get_state_def)

lemma wp_modify [simp]: "wp (modify h) Q E s = Q () (h s)"
  by (simp add: wp_def modify_def)

lemma wp_run_fn [simp]: "wp (run_fn k) Q E s = Q (fst (k s)) (snd (k s))"
  by (simp add: wp_def run_fn_def split: prod.splits)

lemma wp_when_do [simp]: "wp (when_do b m) Q E s = (if b then wp m Q E s else Q () s)"
  by (simp add: when_do_def)

lemma wp_if [simp]: "wp (if b then m else n) Q E s = (if b then wp m Q E s else wp n Q E s)"
  by simp

lemma wp_case_option:
  "wp (case x of None \<Rightarrow> m | Some y \<Rightarrow> f y) Q E s = (case x of None \<Rightarrow> wp m Q E s | Some y \<Rightarrow> wp (f y) Q E s)"
  by (cases x) auto

lemma wp_on_part: "wp (on_part g p r m) Q E s = wp m (\<lambda>x t. Q x (p t s)) (\<lambda>e t. E (r e) (p t s)) (g s)"
  by (auto simp: wp_def on_part_def split: prod.splits sum.splits)

lemma wp_mono:
  "wp m Q E s \<Longrightarrow> (\<And>x s'. Q x s' \<Longrightarrow> Q' x s') \<Longrightarrow> (\<And>e s'. E e s' \<Longrightarrow> E' e s') \<Longrightarrow> wp m Q' E' s"
  by (auto simp: wp_def split: prod.splits sum.splits)

lemma wp_conj:
  "wp m Q E s \<Longrightarrow> wp m Q' E' s \<Longrightarrow> wp m (\<lambda>x s'. Q x s' \<and> Q' x s') (\<lambda>e s'. E e s' \<and> E' e s') s"
  by (auto simp: wp_def split: prod.splits sum.splits)

lemma wpD: "wp m Q E s \<Longrightarrow> m s = (r, s') \<Longrightarrow> (case r of Inl e \<Rightarrow> E e s' | Inr x \<Rightarrow> Q x s')"
  by (auto simp: wp_def split: sum.splits)

lemma wp_eq: "m s = m' s' \<Longrightarrow> wp m' Q E s' \<Longrightarrow> wp m Q E s"
  by (simp add: wp_def)

lemma wp_then: "wp m P E s \<Longrightarrow> (\<And>x s'. P x s' \<Longrightarrow> wp (f x) Q E s') \<Longrightarrow> wp (and_then m f) Q E s"
  by (auto elim: wp_mono)

lemma wp_ifI: "(b \<Longrightarrow> wp m Q E s) \<Longrightarrow> (\<not> b \<Longrightarrow> wp n Q E s) \<Longrightarrow> wp (if b then m else n) Q E s"
  by simp

lemma wp_sumI:
  "(\<And>x. v = Inl x \<Longrightarrow> wp (f x) Q E s) \<Longrightarrow> (\<And>y. v = Inr y \<Longrightarrow> wp (g y) Q E s) \<Longrightarrow>
   wp (case v of Inl x \<Rightarrow> f x | Inr y \<Rightarrow> g y) Q E s"
  by (cases v) auto

lemma wp_optionI:
  "(v = None \<Longrightarrow> wp m Q E s) \<Longrightarrow> (\<And>x. v = Some x \<Longrightarrow> wp (f x) Q E s) \<Longrightarrow>
   wp (case v of None \<Rightarrow> m | Some x \<Rightarrow> f x) Q E s"
  by (cases v) auto

text \<open>
  \<open>keeps I E m\<close>: from any state satisfying \<open>I\<close> the statement ends in one, or exits as \<open>E\<close> allows.
\<close>

definition keeps :: "('s \<Rightarrow> bool) \<Rightarrow> ('e \<Rightarrow> 's \<Rightarrow> bool) \<Rightarrow> ('e, 'a, 's) prog \<Rightarrow> bool" where
  "keeps I E m \<longleftrightarrow> (\<forall>s. I s \<longrightarrow> wp m (\<lambda>_. I) E s)"

named_theorems keeps_intros \<open>rules that establish keeps through a statement's structure\<close>

lemma keepsI: "(\<And>s. I s \<Longrightarrow> wp m (\<lambda>_. I) E s) \<Longrightarrow> keeps I E m"
  by (simp add: keeps_def)

lemma keepsD: "keeps I E m \<Longrightarrow> I s \<Longrightarrow> wp m (\<lambda>_. I) E s"
  by (simp add: keeps_def)

lemma wp_keeps: "keeps I E m \<Longrightarrow> I s \<Longrightarrow> (\<And>x s'. I s' \<Longrightarrow> wp (f x) Q E s') \<Longrightarrow> wp (and_then m f) Q E s"
  by (rule wp_then [OF keepsD])

lemma keeps_ret [keeps_intros]: "keeps I E (ret x)"
  by (simp add: keeps_def)

lemma keeps_and_then [keeps_intros]:
  assumes "keeps I E m" "\<And>x. keeps I E (f x)"
  shows "keeps I E (and_then m f)"
proof (rule keepsI)
  fix s assume "I s"
  from keepsD [OF assms(1) this] show "wp (and_then m f) (\<lambda>_. I) E s"
    using keepsD [OF assms(2)] by (auto elim!: wp_mono)
qed

lemma keeps_get_state [keeps_intros]: "keeps I E (get_state g)"
  by (simp add: keeps_def)

lemma keeps_modify: "(\<And>s. I s \<Longrightarrow> I (h s)) \<Longrightarrow> keeps I E (modify h)"
  by (simp add: keeps_def)

lemma keeps_run_fn: "(\<And>s. I s \<Longrightarrow> I (snd (k s))) \<Longrightarrow> keeps I E (run_fn k)"
  by (simp add: keeps_def)

lemma keeps_exit: "(\<And>s. I s \<Longrightarrow> E e s) \<Longrightarrow> keeps I E (exit_with e)"
  by (simp add: keeps_def)

lemma keeps_when [keeps_intros]: "(b \<Longrightarrow> keeps I E m) \<Longrightarrow> keeps I E (when_do b m)"
  by (simp add: keeps_def)

lemma keeps_if [keeps_intros]: "(b \<Longrightarrow> keeps I E m) \<Longrightarrow> (\<not> b \<Longrightarrow> keeps I E n) \<Longrightarrow> keeps I E (if b then m else n)"
  by simp

lemma keeps_option [keeps_intros]:
  "(x = None \<Longrightarrow> keeps I E m) \<Longrightarrow> (\<And>y. x = Some y \<Longrightarrow> keeps I E (f y)) \<Longrightarrow>
   keeps I E (case x of None \<Rightarrow> m | Some y \<Rightarrow> f y)"
  by (cases x) auto

lemma keeps_let [keeps_intros]: "(\<And>x. x = a \<Longrightarrow> keeps I E (f x)) \<Longrightarrow> keeps I E (let x = a in f x)"
  by simp

lemma keeps_prod [keeps_intros]: "(\<And>a b. x = (a, b) \<Longrightarrow> keeps I E (f a b)) \<Longrightarrow> keeps I E (case x of (a, b) \<Rightarrow> f a b)"
  by (cases x) auto

lemma keeps_for_each [keeps_intros]: "(\<And>x. x \<in> set xs \<Longrightarrow> keeps I E (f x)) \<Longrightarrow> keeps I E (for_each xs f)"
  by (induction xs) (auto intro!: keeps_intros)

lemma keeps_conj: "keeps I E m \<Longrightarrow> keeps J F m \<Longrightarrow> keeps (\<lambda>s. I s \<and> J s) (\<lambda>e s. E e s \<and> F e s) m"
  unfolding keeps_def using wp_conj by fast

lemma keeps_exits: "keeps I E m \<Longrightarrow> (\<And>e s. E e s \<Longrightarrow> F e s) \<Longrightarrow> keeps I F m"
  unfolding keeps_def using wp_mono by metis

lemma keeps_on_part:
  assumes "\<And>s. I s \<Longrightarrow> wp m (\<lambda>_ t. I (p t s)) (\<lambda>e t. E (r e) (p t s)) (g s)"
  shows "keeps I E (on_part g p r m)"
  using assms by (simp add: keeps_def wp_on_part)

text \<open>A statement that never comes back to the one after it.\<close>

definition never_back :: "('e, 'a, 's) prog \<Rightarrow> bool" where
  "never_back m \<longleftrightarrow> (\<forall>s. wp m (\<lambda>_ _. False) (\<lambda>_ _. True) s)"

lemma never_back_exit: "never_back (exit_with e)"
  by (simp add: never_back_def)

lemma never_back_then: "(\<And>x. never_back (f x)) \<Longrightarrow> never_back (and_then m f)"
  by (simp add: never_back_def) (simp add: wp_def split: prod.splits sum.splits)

lemma never_back_if: "never_back m \<Longrightarrow> never_back n \<Longrightarrow> never_back (if b then m else n)"
  by simp

lemma never_back_let: "(\<And>x. never_back (f x)) \<Longrightarrow> never_back (let x = a in f x)"
  by simp

lemmas never_back_intros = never_back_exit never_back_then never_back_if never_back_let

lemma wp_never_back:
  assumes "never_back m" "keeps I E m" "I s"
  shows "wp m Q E s"
proof -
  have "wp m (\<lambda>_ _. False) (\<lambda>_ _. True) s" using assms(1) by (simp add: never_back_def)
  from wp_conj [OF this keepsD [OF assms(2,3)]] show ?thesis by (rule wp_mono) auto
qed

end
