(* ===== verification/SessionTree.thy ===== *)
theory SessionTree
  imports Convert Prog Tools ArgScan
begin

text \<open>
  A session's conversation (\<open>internal/loop/session.go\<close>): the tree, the leaf and the window, the
  operations that append to it, and the sink a model call streams into. The session's mutex makes each
  operation atomic. \<open>OnNode\<close> notifications, whose results the code ignores, are left out.

  A provider's call is a strategy: a tree of the events it emits, each next one chosen from the error
  the sink reports, that ends in the completion and error the call returns.
\<close>

section \<open>The session\<close>

datatype CallStatus = CallStreaming | CallStatusDone | CallFailed | CallCancelled | CallSuperseded

record CallRecord =
  cr_turn :: nat
  cr_status :: CallStatus
  cr_err :: string
  cr_usages :: "Usage list"
  cr_timings :: "string list"
  cr_streamed :: bool
  cr_stop :: string
  cr_model :: string

definition new_call :: "nat \<Rightarrow> CallStatus \<Rightarrow> CallRecord" where
  "new_call turn st = \<lparr>cr_turn = turn, cr_status = st, cr_err = [], cr_usages = [], cr_timings = [],
     cr_streamed = False, cr_stop = [], cr_model = []\<rparr>"

type_synonym contentIndex = "(string \<times> string) list"

record session =
  s_tree :: tree
  s_leaf :: "nat option"
  s_window :: "nat option"
  s_dialect :: Dialect
  s_calls :: "CallRecord list"
  s_index :: "contentIndex option"

definition newSession :: "Dialect \<Rightarrow> session" where
  "newSession d = \<lparr>s_tree = NewTree, s_leaf = None, s_window = None, s_dialect = d, s_calls = [], s_index = None\<rparr>"

definition s_node :: "session \<Rightarrow> nat \<Rightarrow> node" where "s_node s a = node_at (s_tree s) a"

definition s_update :: "nat \<Rightarrow> (node \<Rightarrow> node) \<Rightarrow> session \<Rightarrow> session" where
  "s_update a f s = s\<lparr>s_tree := upd_node a f (s_tree s)\<rparr>"

text \<open>\<open>add\<close> links a node under the leaf and makes it the leaf; a refusal of the tree is a panic.\<close>

definition s_add :: "(nat \<Rightarrow> string) \<Rightarrow> node \<Rightarrow> (add_error, nat, session) prog" where
  "s_add newid n s =
     (case Add newid n (s_leaf s) (s_tree s) of
        Inl e \<Rightarrow> (Inl e, s)
      | Inr (a, t) \<Rightarrow> (Inr a, s\<lparr>s_tree := t, s_leaf := Some a\<rparr>))"

definition appendFlat :: "(nat \<Rightarrow> string) \<Rightarrow> Message \<Rightarrow> (add_error, nat list, session) prog" where
  "appendFlat newid m =
     and_then (get_state (\<lambda>s. length (s_calls s))) (\<lambda>rec.
     and_then (get_state s_dialect) (\<lambda>d.
     and_then (when_do (msg_role m = RoleAssistant)
       (modify (\<lambda>s. s\<lparr>s_calls := s_calls s @ [new_call 0 CallStatusDone]\<rparr>))) (\<lambda>_.
     for_each (NodesFromMessage rec m d) (s_add newid))))"

definition s_path :: "session \<Rightarrow> nat list" where
  "s_path s = PathTo (s_tree s) (s_leaf s)"

definition windowPath :: "session \<Rightarrow> nat list" where
  "windowPath s =
     (case s_window s of
        None \<Rightarrow> s_path s
      | Some w \<Rightarrow> if w \<in> set (s_path s) then dropWhile (\<lambda>a. a \<noteq> w) (s_path s) else s_path s)"

definition s_messages :: "session \<Rightarrow> Message list" where
  "s_messages s = MessagesFromPath (s_tree s) (windowPath s)"

definition s_compact :: "(nat \<Rightarrow> string) \<Rightarrow> string \<Rightarrow> string \<Rightarrow> (add_error, nat, session) prog" where
  "s_compact newid summary i =
     and_then (get_state s_window) (\<lambda>from.
     (let c = NewCompaction from;
          c = (if i \<noteq> [] then SetID i c else c);
          c = c\<lparr>n_body := map_stream (ss_finish summary) (n_body c)\<rparr>
      in and_then (s_add newid c) (\<lambda>a.
         and_then (modify (\<lambda>s. s\<lparr>s_window := Some a\<rparr>)) (\<lambda>_. ret a))))"

definition s_toolResult :: "(nat \<Rightarrow> string) \<Rightarrow> nat \<Rightarrow> string \<Rightarrow> bool \<Rightarrow> string \<Rightarrow> (add_error, nat, session) prog" where
  "s_toolResult newid call content isError omitted =
     s_add newid (NewToolResult call isError [TextContent content] omitted)"

fun is_call_node :: "node_body \<Rightarrow> bool" where
  "is_call_node (ToolCallNode _ _ _) = True" | "is_call_node _ = False"

fun answers :: "node_body \<Rightarrow> nat option" where
  "answers (ToolResultNode (InTree a) _ _ _) = Some a" | "answers _ = None"

definition toolCalls :: "session \<Rightarrow> nat list \<Rightarrow> nat list" where
  "toolCalls s nodes = filter (\<lambda>a. is_call_node (n_body (s_node s a)) \<and> \<not> n_superseded (s_node s a)) nodes"

definition answered :: "session \<Rightarrow> nat \<Rightarrow> bool" where
  "answered s a \<longleftrightarrow> (\<exists>b\<in>set (s_path s). answers (n_body (s_node s b)) = Some a)"

definition omitCalls :: "(nat \<Rightarrow> string) \<Rightarrow> nat list \<Rightarrow> string \<Rightarrow> (add_error, unit, session) prog" where
  "omitCalls newid nodes reason =
     and_then (get_state (\<lambda>s. filter (\<lambda>a. \<not> answered s a) (toolCalls s nodes))) (\<lambda>todo.
     and_then (for_each todo (\<lambda>a. s_toolResult newid a reason True reason)) (\<lambda>_. ret ()))"

definition replaceCalls :: "(nat \<Rightarrow> string) \<Rightarrow> nat list \<Rightarrow> ToolCall list \<Rightarrow> (add_error, nat list, session) prog" where
  "replaceCalls newid nodes calls =
     and_then (get_state (\<lambda>s. toolCalls s nodes)) (\<lambda>old.
     and_then (get_state (\<lambda>s. if old = [] then None else n_call (s_node s (last old)))) (\<lambda>rec.
     and_then (modify (\<lambda>s. foldl (\<lambda>s a. s_update a MarkSuperseded s) s old)) (\<lambda>_.
     for_each calls (\<lambda>c. s_add newid (SetCallOf rec (NewToolCallArgs (tc_id c) (tc_name c) (tc_args c)))))))"

definition addText :: "(nat \<Rightarrow> string) \<Rightarrow> nat option \<Rightarrow> string \<Rightarrow> (add_error, nat, session) prog" where
  "addText newid rec txt = s_add newid (SetCallOf rec (NewAssistantText txt))"

section \<open>The sink of a model call\<close>

datatype RetryAttemptInfo = RetryAttemptInfo int int go_error

datatype stream_event =
    OnText string | OnReasoning string | OnPart Part | OnUsage Usage
  | OnProgress string | OnTimings string | OnRetry RetryAttemptInfo

text \<open>How a part's node begins: open, to be streamed into, or already whole.\<close>

datatype begun =
    BeginText | BeginThinking thinking_data | BeginCall string string | BeginRaw string string Dialect
  | WholeText string | WholeThinking string thinking_data | WholeCall string string string

fun begun_body :: "begun \<Rightarrow> node_body" where
  "begun_body BeginText = AssistantNode NewStreamString"
| "begun_body (BeginThinking t) = ThinkingNode NewStreamString t"
| "begun_body (BeginCall i name) = ToolCallNode i name NewStreamString"
| "begun_body (BeginRaw ty json d) = RawBlockNode ty json d"
| "begun_body (WholeText s) = AssistantNode (FinishedString s)"
| "begun_body (WholeThinking s t) = ThinkingNode (FinishedString s) t"
| "begun_body (WholeCall i name args) = ToolCallNode i name (FinishedString args)"

datatype fill = FillCall string string | FillThinking thinking_data | FillRaw string | FillFinish string

fun fill_body :: "fill \<Rightarrow> node_body \<Rightarrow> node_body" where
  "fill_body (FillCall i name) (ToolCallNode _ _ args) = ToolCallNode i name args"
| "fill_body (FillThinking t) (ThinkingNode s _) = ThinkingNode s t"
| "fill_body (FillRaw json) (RawBlockNode ty _ d) = RawBlockNode ty json d"
| "fill_body (FillFinish v) b = map_stream (ss_finish v) b"
| "fill_body _ b = b"

text \<open>
  What a decoder tells the sink, nodes being named by the order their parts began. \<open>EvHost\<close> is an event
  a provider that cannot stream nodes reports straight to the host's listener.
\<close>

datatype sink_event =
    EvStart begun
  | EvDelta nat field_id string
  | EvFill nat fill
  | EvDone nat
  | EvUsage Usage
  | EvProgress string
  | EvTimings string
  | EvRetry RetryAttemptInfo
  | EvHost stream_event

datatype call_tree =
    CallDone "Completion option" "go_error option"
  | CallEmit sink_event "go_error option \<Rightarrow> call_tree"

record 'w sink =
  sk_session :: session
  sk_nodes :: "nat list"
  sk_err :: "go_error option"
  sk_scans :: "nat \<rightharpoonup> argScanner option"
  sk_refused :: "string \<rightharpoonup> ToolResult"
  sk_world :: 'w

type_synonym 'w listener = "stream_event \<Rightarrow> 'w \<Rightarrow> go_error option \<times> 'w"

text \<open>The \<open>Emit\<close> helpers: an empty delta is not forwarded, and a listener's error is wrapped.\<close>

definition emit_stream :: "'w listener \<Rightarrow> stream_event \<Rightarrow> 'w \<Rightarrow> go_error option \<times> 'w" where
  "emit_stream on ev w =
     (if ev = OnText [] \<or> ev = OnReasoning [] then (None, w)
      else (let (e, w) = on ev w in (wrapCallbackErr e, w)))"

definition keep_err :: "go_error option \<Rightarrow> 'w sink \<Rightarrow> 'w sink" where
  "keep_err e k = (case e of None \<Rightarrow> k | Some _ \<Rightarrow> if sk_err k = None then k\<lparr>sk_err := e\<rparr> else k)"

definition sink_emit :: "'w listener \<Rightarrow> stream_event \<Rightarrow> 'w sink \<Rightarrow> 'w sink" where
  "sink_emit on ev k =
     (let (e, w) = emit_stream on ev (sk_world k) in keep_err e (k\<lparr>sk_world := w\<rparr>))"

definition errArgRefused :: go_error where
  "errArgRefused = ErrorNew ''agentic: a tool refused the call from a streamed argument''"

text \<open>The first hook that refuses, over the members just completed and the hooks of each, in order.\<close>

fun run_hooks :: "'w ArgHook list \<Rightarrow> argMember \<Rightarrow> 'w \<Rightarrow> ToolResult option \<times> 'w" where
  "run_hooks [] m w = (None, w)"
| "run_hooks (h # hs) m w =
     (case (if ah_key h \<noteq> mem_key m then None else ah_on h) of
        None \<Rightarrow> run_hooks hs m w
      | Some on \<Rightarrow>
          (case on (mem_value m) w of
             (Some refusal, w) \<Rightarrow> (Some refusal, w)
           | (None, w) \<Rightarrow> run_hooks hs m w))"

fun run_members :: "'w ArgHook list \<Rightarrow> argMember list \<Rightarrow> 'w \<Rightarrow> ToolResult option \<times> 'w" where
  "run_members hs [] w = (None, w)"
| "run_members hs (m # ms) w =
     (case run_hooks hs m w of
        (Some refusal, w) \<Rightarrow> (Some refusal, w)
      | (None, w) \<Rightarrow> run_members hs ms w)"

definition watchArgs :: "(string \<Rightarrow> 'w ArgHook list) option \<Rightarrow> nat \<Rightarrow> string \<Rightarrow> 'w sink \<Rightarrow> 'w sink" where
  "watchArgs hooks a delta k =
     (case hooks of
        None \<Rightarrow> k
      | Some hk \<Rightarrow>
          (case n_body (s_node (sk_session k) a) of
             ToolCallNode callid name args \<Rightarrow>
               (let scan = (case sk_scans k a of
                              Some sc \<Rightarrow> sc
                            | None \<Rightarrow> if name = [] \<or> hk name \<noteq> [] then Some newScanner else None);
                    k = k\<lparr>sk_scans := (sk_scans k)(a \<mapsto> scan)\<rparr>
                in case scan of
                     None \<Rightarrow> k
                   | Some sc \<Rightarrow>
                       if ended sc then k
                       else
                         (let (sc', members) = feed sc delta;
                              k = k\<lparr>sk_scans := (sk_scans k)(a \<mapsto> Some sc')\<rparr>;
                              (refusal, w) = run_members (hk name) members (sk_world k);
                              k = k\<lparr>sk_world := w\<rparr>
                          in case refusal of
                               None \<Rightarrow> k
                             | Some r \<Rightarrow>
                                 keep_err (wrapCallbackErr (Some errArgRefused))
                                   (k\<lparr>sk_refused := (sk_refused k)(callid \<mapsto> r),
                                      sk_scans := (sk_scans k)(a \<mapsto> None)\<rparr>)))
           | _ \<Rightarrow> k))"

definition sink_session :: "(add_error, 'a, session) prog \<Rightarrow> (add_error, 'a, 'w sink) prog" where
  "sink_session m = on_part sk_session (\<lambda>s k. k\<lparr>sk_session := s\<rparr>) id m"

definition sink_start :: "(nat \<Rightarrow> string) \<Rightarrow> nat \<Rightarrow> string \<Rightarrow> node \<Rightarrow> (add_error, unit, 'w sink) prog" where
  "sink_start newid rec firstID n =
     and_then (get_state (\<lambda>k.
       (let n = SetCallOf (Some rec) n in
        if sk_nodes k = [] \<and> firstID \<noteq> [] \<and> tree_node (s_tree (sk_session k)) firstID = None
        then SetID firstID n else n))) (\<lambda>n.
     and_then (sink_session (s_add newid n)) (\<lambda>a.
     modify (\<lambda>k. k\<lparr>sk_nodes := sk_nodes k @ [a]\<rparr>)))"

definition partOfNode :: "node \<Rightarrow> Part option" where
  "partOfNode n =
     (let ps = EffectiveParts (MessageFromNodes [n]) in if length ps = 1 then Some (hd ps) else None)"

definition on_sink_node :: "nat \<Rightarrow> (node \<Rightarrow> node) \<Rightarrow> 'w sink \<Rightarrow> 'w sink" where
  "on_sink_node a f k = k\<lparr>sk_session := s_update a f (sk_session k)\<rparr>"

definition sink_delta :: "'w listener \<Rightarrow> (string \<Rightarrow> 'w ArgHook list) option \<Rightarrow> nat \<Rightarrow> field_id \<Rightarrow> string \<Rightarrow> 'w sink \<Rightarrow> 'w sink" where
  "sink_delta on hooks a f delta k =
     (let k = on_sink_node a (AppendField f delta) k in
      case n_body (s_node (sk_session k) a) of
        AssistantNode _ \<Rightarrow> sink_emit on (OnText delta) k
      | ThinkingNode _ _ \<Rightarrow> sink_emit on (OnReasoning delta) k
      | ToolCallNode _ _ _ \<Rightarrow> if f = FieldArguments then watchArgs hooks a delta k else k
      | _ \<Rightarrow> k)"

definition sink_done :: "'w listener \<Rightarrow> nat \<Rightarrow> 'w sink \<Rightarrow> 'w sink" where
  "sink_done on a k =
     (let k = on_sink_node a FinishNode k in
      case partOfNode (s_node (sk_session k) a) of
        None \<Rightarrow> k
      | Some p \<Rightarrow> sink_emit on (OnPart p) k)"

definition upd_call :: "nat \<Rightarrow> (CallRecord \<Rightarrow> CallRecord) \<Rightarrow> session \<Rightarrow> session" where
  "upd_call rec f s = s\<lparr>s_calls := (s_calls s)[rec := f (s_calls s ! rec)]\<rparr>"

definition sink_retry :: "'w listener \<Rightarrow> RetryAttemptInfo \<Rightarrow> 'w sink \<Rightarrow> 'w sink" where
  "sink_retry on a k =
     sink_emit on (OnRetry a)
       (foldl (\<lambda>k n. on_sink_node n RestartNode k) (k\<lparr>sk_scans := Map.empty\<rparr>) (sk_nodes k))"

definition started :: "nat \<Rightarrow> ('w sink \<Rightarrow> nat \<Rightarrow> 'w sink) \<Rightarrow> 'w sink \<Rightarrow> 'w sink" where
  "started i f k = (if i < length (sk_nodes k) then f k (sk_nodes k ! i) else k)"

text \<open>One event, and the error the emitter hears back.\<close>

definition sink_do :: "(nat \<Rightarrow> string) \<Rightarrow> 'w listener \<Rightarrow> (string \<Rightarrow> 'w ArgHook list) option \<Rightarrow> nat \<Rightarrow> string
    \<Rightarrow> sink_event \<Rightarrow> (add_error, go_error option, 'w sink) prog" where
  "sink_do newid on hooks rec firstID ev =
     (case ev of
        EvHost se \<Rightarrow> run_fn (\<lambda>k. let (e, w) = emit_stream on se (sk_world k) in (e, k\<lparr>sk_world := w\<rparr>))
      | _ \<Rightarrow>
        and_then
          (case ev of
             EvStart b \<Rightarrow> sink_start newid rec firstID (new_node (begun_body b))
           | EvDelta i f d \<Rightarrow> modify (started i (\<lambda>k a. sink_delta on hooks a f d k))
           | EvFill i fl \<Rightarrow> modify (started i (\<lambda>k a. on_sink_node a (\<lambda>n. n\<lparr>n_body := fill_body fl (n_body n)\<rparr>) k))
           | EvDone i \<Rightarrow> modify (started i (\<lambda>k a. sink_done on a k))
           | EvUsage u \<Rightarrow> modify (\<lambda>k. sink_emit on (OnUsage u)
               (k\<lparr>sk_session := upd_call rec (\<lambda>c. c\<lparr>cr_usages := cr_usages c @ [u]\<rparr>) (sk_session k)\<rparr>))
           | EvProgress p \<Rightarrow> modify (sink_emit on (OnProgress p))
           | EvTimings t \<Rightarrow> modify (\<lambda>k. sink_emit on (OnTimings t)
               (k\<lparr>sk_session := upd_call rec (\<lambda>c. c\<lparr>cr_timings := cr_timings c @ [t]\<rparr>) (sk_session k)\<rparr>))
           | EvRetry a \<Rightarrow> modify (sink_retry on a)
           | EvHost _ \<Rightarrow> ret ())
          (\<lambda>_. get_state sk_err))"

primrec run_call_tree :: "(nat \<Rightarrow> string) \<Rightarrow> 'w listener \<Rightarrow> (string \<Rightarrow> 'w ArgHook list) option \<Rightarrow> nat \<Rightarrow> string
    \<Rightarrow> call_tree \<Rightarrow> (add_error, Completion option \<times> go_error option, 'w sink) prog" where
  "run_call_tree newid on hooks rec firstID (CallDone c e) = ret (c, e)"
| "run_call_tree newid on hooks rec firstID (CallEmit ev next) =
     and_then (sink_do newid on hooks rec firstID ev) (\<lambda>err. run_call_tree newid on hooks rec firstID (next err))"

text \<open>\<open>AddTurn\<close>: the nodes of a turn that arrived whole.\<close>

definition AddTurn :: "(nat \<Rightarrow> string) \<Rightarrow> nat \<Rightarrow> string \<Rightarrow> Message \<Rightarrow> (add_error, unit, 'w sink) prog" where
  "AddTurn newid rec firstID m =
     and_then (for_each (NodesFromMessage 0 m DialectAuto) (\<lambda>n.
       and_then (sink_start newid rec firstID n) (\<lambda>_.
       modify (\<lambda>k. on_sink_node (last (sk_nodes k)) FinishNode k)))) (\<lambda>_. ret ())"

text \<open>
  \<open>client.Stream\<close> and \<open>StreamCall\<close>: a provider that cannot stream nodes has its completion's message
  added when the call returns. The completion is the folded one.
\<close>

record ('r, 'w) provider =
  pv_streams :: bool
  pv_call :: "'r \<Rightarrow> 'w \<Rightarrow> call_tree \<times> 'w"

definition client_stream :: "(nat \<Rightarrow> string) \<Rightarrow> 'w listener \<Rightarrow> (string \<Rightarrow> 'w ArgHook list) option \<Rightarrow> nat \<Rightarrow> string
    \<Rightarrow> ('r, 'w) provider \<Rightarrow> 'r \<Rightarrow> (add_error, Completion option \<times> go_error option, 'w sink) prog" where
  "client_stream newid on hooks rec firstID p req =
     and_then (run_fn (\<lambda>k. let (ct, w) = pv_call p req (sk_world k) in (ct, k\<lparr>sk_world := w\<rparr>))) (\<lambda>ct.
     and_then (run_call_tree newid on hooks rec firstID ct) (\<lambda>r.
     if pv_streams p then ret r
     else (case fst r of
             None \<Rightarrow> ret r
           | Some c \<Rightarrow> and_then (AddTurn newid rec firstID (co_message c)) (\<lambda>_. ret r))))"

record stream_result =
  sr_comp :: "Completion option"
  sr_nodes :: "nat list"
  sr_rec :: nat
  sr_refused :: "string \<rightharpoonup> ToolResult"
  sr_err :: "go_error option"

definition StopToolUse :: string where "StopToolUse = ''tool_use''"
definition StopEndTurn :: string where "StopEndTurn = ''end_turn''"

definition err_is :: "go_error option \<Rightarrow> go_error \<Rightarrow> bool" where
  "err_is e t = (case e of None \<Rightarrow> False | Some e \<Rightarrow> error_is e t)"

definition refused_stop :: "Completion option \<Rightarrow> go_error option \<Rightarrow> Completion option \<times> go_error option" where
  "refused_stop cm err =
     (case cm of
        Some c \<Rightarrow>
          if err_is err errArgRefused
          then (Some (if co_stop c = [] \<or> co_stop c = StopEndTurn then c\<lparr>co_stop := StopToolUse\<rparr> else c), None)
          else (cm, err)
      | None \<Rightarrow> (cm, err))"

definition close_record :: "go_error option \<Rightarrow> bool \<Rightarrow> Completion option \<Rightarrow> CallRecord \<Rightarrow> CallRecord" where
  "close_record err cancelled c r =
     (let r = (case err of
                 None \<Rightarrow> r\<lparr>cr_status := CallStatusDone\<rparr>
               | Some e \<Rightarrow> r\<lparr>cr_status := (if cancelled then CallCancelled else CallFailed), cr_err := error_text e\<rparr>)
      in case c of None \<Rightarrow> r | Some c \<Rightarrow> r\<lparr>cr_stop := co_stop c, cr_model := co_model c, cr_streamed := co_streamed c\<rparr>)"

text \<open>\<open>streamCall\<close>; \<open>cancelled\<close> reads the context in the world.\<close>

definition streamCall :: "(nat \<Rightarrow> string) \<Rightarrow> 'w listener \<Rightarrow> ('w \<Rightarrow> go_error option) \<Rightarrow> ('r, 'w) provider \<Rightarrow> 'r \<Rightarrow> nat
    \<Rightarrow> string \<Rightarrow> (string \<Rightarrow> 'w ArgHook list) option \<Rightarrow> (add_error, stream_result, session \<times> 'w) prog" where
  "streamCall newid on ctx p req turn firstID hooks sw =
     (let s = fst sw; rec = length (s_calls s);
          k = \<lparr>sk_session = s\<lparr>s_calls := s_calls s @ [new_call turn CallStreaming]\<rparr>, sk_nodes = [], sk_err = None,
               sk_scans = Map.empty, sk_refused = Map.empty, sk_world = snd sw\<rparr>
      in case client_stream newid on hooks rec firstID p req k of
           (Inl e, k) \<Rightarrow> (Inl e, (sk_session k, sk_world k))
         | (Inr (c, err), k) \<Rightarrow>
             (let s = foldl (\<lambda>s a. s_update a FinishNode s) (sk_session k) (sk_nodes k);
                  (c, err) = refused_stop c err;
                  s = upd_call rec (close_record err (ctx (sk_world k) \<noteq> None) c) s;
                  err = (if err = None \<and> sk_err k \<noteq> None \<and> \<not> err_is (sk_err k) errArgRefused
                         then sk_err k else err)
              in (Inr \<lparr>sr_comp = c, sr_nodes = sk_nodes k, sr_rec = rec, sr_refused = sk_refused k, sr_err = err\<rparr>,
                  (s, sk_world k))))"

end
