(* ===== verification/SessionProps.thy ===== *)
theory SessionProps
  imports SessionTree
begin

text \<open>
  What the session's operations keep: the tree stays well formed and the conversation only grows at its
  end, and which tool calls of the conversation still wait for a result.
\<close>

section \<open>Well-formed sessions, growth, and open calls\<close>

definition session_wf :: "session \<Rightarrow> bool" where
  "session_wf s \<longleftrightarrow> tree_wf (s_tree s)
     \<and> (\<forall>a. s_leaf s = Some a \<longrightarrow> a < length (t_nodes (s_tree s)))
     \<and> (\<forall>b c. b < length (t_nodes (s_tree s)) \<longrightarrow> answers (n_body (s_node s b)) = Some c
          \<longrightarrow> c < length (t_nodes (s_tree s)))
     \<and> (\<forall>b r. b < length (t_nodes (s_tree s)) \<longrightarrow> n_call (s_node s b) = Some r \<longrightarrow> r < length (s_calls s))"

abbreviation s_size :: "session \<Rightarrow> nat" where "s_size s \<equiv> length (t_nodes (s_tree s))"

text \<open>What a node of the tree is never changes, but for its children and the mark that leaves it out of requests.\<close>

definition kept_node :: "node \<Rightarrow> node \<Rightarrow> bool" where
  "kept_node n n' \<longleftrightarrow> n' = n\<lparr>n_children := n_children n', n_superseded := n_superseded n'\<rparr>
     \<and> (n_superseded n \<longrightarrow> n_superseded n')"

lemma kept_node_refl [simp]: "kept_node n n"
  by (simp add: kept_node_def)

lemma kept_node_trans: "kept_node n n' \<Longrightarrow> kept_node n' n'' \<Longrightarrow> kept_node n n''"
  by (cases n; cases n'; cases n'') (auto simp: kept_node_def)

lemma kept_nodeD:
  assumes "kept_node n n'"
  shows "n_id n' = n_id n" "n_kind n' = n_kind n" "n_parent n' = n_parent n" "n_call n' = n_call n"
    "n_generated n' = n_generated n" "n_body n' = n_body n" "n_superseded n \<Longrightarrow> n_superseded n'"
  using assms by (cases n; cases n'; simp add: kept_node_def)+

text \<open>
  \<open>grows s s'\<close>: the conversation of \<open>s\<close> is a prefix of that of \<open>s'\<close>, and every node of the tree of \<open>s\<close> and
  every model call is still there, as it was.
\<close>

definition grows :: "session \<Rightarrow> session \<Rightarrow> bool" where
  "grows s s' \<longleftrightarrow> s_size s \<le> s_size s' \<and> prefix (s_path s) (s_path s')
     \<and> (\<forall>a<s_size s. kept_node (s_node s a) (s_node s' a))
     \<and> length (s_calls s) \<le> length (s_calls s') \<and> (\<forall>r<length (s_calls s). cr_turn (s_calls s' ! r) = cr_turn (s_calls s ! r))"

lemma grows_refl [simp]: "grows s s"
  by (simp add: grows_def)

lemma growsD:
  assumes "grows s s'"
  shows "s_size s \<le> s_size s'" "prefix (s_path s) (s_path s')" "a < s_size s \<Longrightarrow> kept_node (s_node s a) (s_node s' a)"
    "length (s_calls s) \<le> length (s_calls s')" "r < length (s_calls s) \<Longrightarrow> cr_turn (s_calls s' ! r) = cr_turn (s_calls s ! r)"
  using assms by (auto simp: grows_def)

lemma grows_trans:
  assumes "grows s s'" "grows s' s''"
  shows "grows s s''"
proof -
  note A = growsD [OF assms(1)] and B = growsD [OF assms(2)]
  have "kept_node (s_node s a) (s_node s'' a)" if "a < s_size s" for a
    using kept_node_trans [OF A(3) B(3)] that A(1) by simp
  moreover have "cr_turn (s_calls s'' ! r) = cr_turn (s_calls s ! r)" if "r < length (s_calls s)" for r
    using A(4,5) B(5) [of r] that by simp
  ultimately show ?thesis
    using A(1,4) B(1,4) prefix_order.trans [OF A(2) B(2)] by (simp add: grows_def)
qed

text \<open>
  A call of the conversation that a model call of a run made, that requests still carry, and that no result
  answers. Turns count from 1; the record of a turn that a host handed in whole has turn 0.
\<close>

definition model_made :: "CallRecord list \<Rightarrow> node \<Rightarrow> bool" where
  "model_made cs n \<longleftrightarrow> (case n_call n of None \<Rightarrow> False | Some r \<Rightarrow> 0 < cr_turn (cs ! r))"

definition open_calls :: "session \<Rightarrow> nat set" where
  "open_calls s = {a \<in> set (s_path s). is_call_node (n_body (s_node s a)) \<and> \<not> n_superseded (s_node s a)
     \<and> model_made (s_calls s) (s_node s a) \<and> \<not> answered s a}"

lemma session_wfD:
  assumes "session_wf s"
  shows "tree_wf (s_tree s)" "s_leaf s = Some a \<Longrightarrow> a < s_size s"
    "b < s_size s \<Longrightarrow> answers (n_body (s_node s b)) = Some c \<Longrightarrow> c < s_size s"
    "b < s_size s \<Longrightarrow> n_call (s_node s b) = Some r \<Longrightarrow> r < length (s_calls s)"
  using assms by (auto simp: session_wf_def)

lemma s_path_bounds: "session_wf s \<Longrightarrow> a \<in> set (s_path s) \<Longrightarrow> 0 < a \<and> a < s_size s"
proof -
  assume s: "session_wf s" "a \<in> set (s_path s)"
  then obtain l where "s_leaf s = Some l" by (cases "s_leaf s") (auto simp: s_path_def)
  with s PathTo_bounds [of "s_tree s" l] session_wfD [OF s(1)] show ?thesis
    by (fastforce simp: s_path_def)
qed

lemma newSession_wf [inv_intros]: "session_wf (newSession d)"
  by (auto simp: session_wf_def newSession_def s_node_def NewTree_def node_at_def new_node_def NewTree_wf [unfolded NewTree_def new_node_def])

lemma newSession_open [simp]: "open_calls (newSession d) = {}"
  by (simp add: open_calls_def newSession_def s_path_def)

section \<open>Appending one node\<close>

definition fresh_node :: "session \<Rightarrow> node \<Rightarrow> bool" where
  "fresh_node s n \<longleftrightarrow> n_children n = [] \<and> (\<forall>c. answers (n_body n) = Some c \<longrightarrow> c < s_size s)
     \<and> (\<forall>r. n_call n = Some r \<longrightarrow> r < length (s_calls s))"

definition added :: "session \<Rightarrow> node \<Rightarrow> nat \<Rightarrow> session \<Rightarrow> bool" where
  "added s n a s' \<longleftrightarrow> session_wf s' \<and> grows s s' \<and> s_path s' = s_path s @ [a] \<and> a = s_size s \<and> s_size s' = Suc a
     \<and> n_body (s_node s' a) = n_body n \<and> n_superseded (s_node s' a) = n_superseded n \<and> n_call (s_node s' a) = n_call n
     \<and> (\<forall>b<s_size s. n_superseded (s_node s' b) = n_superseded (s_node s b))
     \<and> s_window s' = s_window s \<and> s_calls s' = s_calls s \<and> s_dialect s' = s_dialect s \<and> s_index s' = s_index s"

lemma addedD:
  assumes "added s n a s'"
  shows "session_wf s'" "grows s s'" "s_path s' = s_path s @ [a]" "a = s_size s" "s_size s' = Suc a"
    "n_body (s_node s' a) = n_body n" "n_superseded (s_node s' a) = n_superseded n" "n_call (s_node s' a) = n_call n"
    "s_window s' = s_window s" "s_calls s' = s_calls s" "s_dialect s' = s_dialect s" "s_index s' = s_index s"
  using assms unfolding added_def by blast+

lemma added_old:
  assumes "added s n a s'" "b < s_size s"
  shows "n_body (s_node s' b) = n_body (s_node s b)" "n_call (s_node s' b) = n_call (s_node s b)"
    "n_superseded (s_node s' b) = n_superseded (s_node s b)" "n_id (s_node s' b) = n_id (s_node s b)"
  using kept_nodeD [OF growsD(3) [OF addedD(2) [OF assms(1)] assms(2)]] assms by (auto simp: added_def)

lemma s_add_added:
  assumes wf: "session_wf s" and n: "fresh_node s n"
  shows "wp (s_add newid n) (\<lambda>a s'. added s n a s') (\<lambda>e s'. s' = s) s"
proof (cases "Add newid n (s_leaf s) (s_tree s)")
  case (Inl e)
  then show ?thesis by (simp add: wp_def s_add_def)
next
  case (Inr r)
  obtain a t where r: "Add newid n (s_leaf s) (s_tree s) = Inr (a, t)" using Inr by (cases r) auto
  let ?s = "s\<lparr>s_tree := t, s_leaf := Some a\<rparr>"
  have tw: "tree_wf (s_tree s)" and ch: "n_children n = []" using wf n by (auto simp: session_wf_def fresh_node_def)
  note N = Add_nodes [OF tw r] and P = Add_paths [OF tw r ch] and W = Add_wf [OF tw r ch]
  obtain p where p: "\<forall>b<a. node_at t b = (if b = p then (node_at (s_tree s) b)\<lparr>n_children := n_children (node_at (s_tree s) b) @ [a]\<rparr>
      else node_at (s_tree s) b)"
    using N(3) by blast
  have old: "kept_node (s_node s b) (s_node ?s b)" "n_superseded (s_node ?s b) = n_superseded (s_node s b)" if "b < s_size s" for b
    using p that N(1) by (auto simp: s_node_def kept_node_def)
  have path: "s_path ?s = s_path s @ [a]" using P(2) by (simp add: s_path_def)
  have new: "n_body (s_node ?s a) = n_body n" "n_call (s_node ?s a) = n_call n" "n_superseded (s_node ?s a) = n_superseded n"
    using N(5,6,8) by (simp_all add: s_node_def)
  have "session_wf ?s"
    unfolding session_wf_def
  proof (intro conjI allI impI)
    show "tree_wf (s_tree ?s)" using W by simp
    show "b < s_size ?s" if "s_leaf ?s = Some b" for b using that N(1,2) by simp
    fix b
    assume b: "b < s_size ?s"
    have bs: "b = a \<or> b < s_size s" using b N(1,2) by auto
    { fix c assume c: "answers (n_body (s_node ?s b)) = Some c"
      have "c < s_size s"
        using bs c new(1) n kept_nodeD(6) [OF old(1), of b] session_wfD(3) [OF wf, of b c] by (auto simp: fresh_node_def)
      then show "c < s_size ?s" using N(1,2) by simp }
    { fix c assume c: "n_call (s_node ?s b) = Some c"
      show "c < length (s_calls ?s)"
        using bs c new(2) n kept_nodeD(4) [OF old(1), of b] session_wfD(4) [OF wf, of b c] by (auto simp: fresh_node_def) }
  qed
  moreover have "grows s ?s" using old path N(1,2) by (simp add: grows_def)
  ultimately have "added s n a ?s" using old path new N(1,2) by (simp add: added_def)
  with r show ?thesis by (simp add: wp_def s_add_def)
qed

lemma answered_added:
  assumes "added s n a s'" "session_wf s"
  shows "answered s' c \<longleftrightarrow> answered s c \<or> answers (n_body n) = Some c"
proof -
  have "n_body (s_node s' b) = n_body (s_node s b)" if "b \<in> set (s_path s)" for b
    using added_old(1) [OF assms(1)] s_path_bounds [OF assms(2) that] by blast
  then show ?thesis using addedD(3,6) [OF assms(1)] by (auto simp: answered_def)
qed

lemma open_calls_added:
  assumes "added s n a s'" "session_wf s" "fresh_node s n"
  shows "open_calls s' = (open_calls s - {c. answers (n_body n) = Some c})
    \<union> (if is_call_node (n_body n) \<and> \<not> n_superseded n \<and> model_made (s_calls s) n then {a} else {})"
proof (rule set_eqI)
  fix c
  note A = addedD [OF assms(1)]
  have notin: "a \<notin> set (s_path s)" using s_path_bounds [OF assms(2)] A(4) by blast
  have new: "\<not> answered s a"
  proof
    assume "answered s a"
    then obtain b where b: "b \<in> set (s_path s)" "answers (n_body (s_node s b)) = Some a" by (auto simp: answered_def)
    with s_path_bounds [OF assms(2) b(1)] session_wfD(3) [OF assms(2), of b a] A(4) show False by simp
  qed
  show "c \<in> open_calls s' \<longleftrightarrow> c \<in> (open_calls s - {c. answers (n_body n) = Some c})
    \<union> (if is_call_node (n_body n) \<and> \<not> n_superseded n \<and> model_made (s_calls s) n then {a} else {})"
  proof (cases "c = a")
    case True
    have "answers (n_body n) \<noteq> Some a" using assms(3) A(4) by (auto simp: fresh_node_def)
    with True notin A new answered_added [OF assms(1,2)] show ?thesis
      by (auto simp: open_calls_def model_made_def)
  next
    case False
    show ?thesis
    proof (cases "c \<in> set (s_path s)")
      case True
      with s_path_bounds [OF assms(2)] have c: "c < s_size s" by blast
      with True False A answered_added [OF assms(1,2)] added_old [OF assms(1) c] show ?thesis
        by (auto simp: open_calls_def model_made_def)
    next
      case notp: False
      with False A show ?thesis by (auto simp: open_calls_def)
    qed
  qed
qed

section \<open>Updating a node in place\<close>

text \<open>Filling, finishing or restarting a node changes its body, and never what it answers or whether it is a call.\<close>

definition keeps_kind :: "(node \<Rightarrow> node) \<Rightarrow> bool" where
  "keeps_kind f \<longleftrightarrow> keeps_links f \<and> (\<forall>n. answers (n_body (f n)) = answers (n_body n)
     \<and> is_call_node (n_body (f n)) = is_call_node (n_body n) \<and> n_superseded (f n) = n_superseded n \<and> n_call (f n) = n_call n)"

lemma answers_map_stream [simp]: "answers (map_stream g b) = answers b" "is_call_node (map_stream g b) = is_call_node b"
  by (cases b; simp)+

lemma answers_fill_body [simp]: "answers (fill_body fl b) = answers b" "is_call_node (fill_body fl b) = is_call_node b"
  by (cases fl; cases b; simp)+

lemma keeps_kind_simps [simp]:
  "keeps_kind FinishNode" "keeps_kind RestartNode" "keeps_kind (AppendField f d)"
  "keeps_kind (\<lambda>n. n\<lparr>n_body := fill_body fl (n_body n)\<rparr>)"
  by (simp_all add: keeps_kind_def keeps_links_def FinishNode_def RestartNode_def AppendField_def)

lemma s_update_simps [simp]:
  "s_size (s_update a f s) = s_size s" "s_leaf (s_update a f s) = s_leaf s" "s_window (s_update a f s) = s_window s"
  "s_calls (s_update a f s) = s_calls s" "s_dialect (s_update a f s) = s_dialect s" "s_index (s_update a f s) = s_index s"
  by (simp_all add: s_update_def)

lemma s_node_update: "b < s_size s \<Longrightarrow> s_node (s_update a f s) b = (if b = a then f (s_node s b) else s_node s b)"
  by (simp add: s_node_def s_update_def node_at_upd)

lemma s_path_update [simp]: "keeps_links f \<Longrightarrow> session_wf s \<Longrightarrow> s_path (s_update a f s) = s_path s"
  by (cases "s_leaf s") (auto simp: s_path_def s_update_def upd_node_path session_wf_def)

lemma s_update_wf:
  assumes "keeps_links f" "\<And>n. answers (n_body (f n)) = answers (n_body n)" "\<And>n. n_call (f n) = n_call n" "session_wf s"
  shows "session_wf (s_update a f s)"
proof -
  have "tree_wf (s_tree (s_update a f s))"
    using upd_node_wf [OF assms(1)] assms(4) by (simp add: s_update_def session_wf_def)
  with assms show ?thesis unfolding session_wf_def by (auto simp: s_node_update split: if_splits)
qed

lemma s_update_kind:
  assumes "keeps_kind f" "session_wf s"
  shows "session_wf (s_update a f s)" "open_calls (s_update a f s) = open_calls s"
proof -
  have f: "keeps_links f" "\<And>n. answers (n_body (f n)) = answers (n_body n)"
    "\<And>n. is_call_node (n_body (f n)) = is_call_node (n_body n)" "\<And>n. n_superseded (f n) = n_superseded n"
    "\<And>n. n_call (f n) = n_call n"
    using assms(1) by (auto simp: keeps_kind_def)
  let ?s = "s_update a f s"
  have path: "s_path ?s = s_path s" using f(1) assms(2) by simp
  have same: "answers (n_body (s_node ?s b)) = answers (n_body (s_node s b))"
    "is_call_node (n_body (s_node ?s b)) = is_call_node (n_body (s_node s b))"
    "n_superseded (s_node ?s b) = n_superseded (s_node s b)" "n_call (s_node ?s b) = n_call (s_node s b)"
    if "b \<in> set (s_path s)" for b
    using s_path_bounds [OF assms(2) that] f by (simp_all add: s_node_update)
  have "answered ?s c = answered s c" for c
    using path same by (auto simp: answered_def)
  then show "open_calls ?s = open_calls s"
    using path same by (auto simp: open_calls_def model_made_def)
  show "session_wf ?s" by (rule s_update_wf [OF f(1,2,5) assms(2)])
qed

text \<open>What grew from \<open>s0\<close> still does when a node that \<open>s0\<close> did not have is changed.\<close>

lemma grows_update_new:
  assumes "grows s0 s" "keeps_kind f" "session_wf s" "s_size s0 \<le> a"
  shows "grows s0 (s_update a f s)"
proof -
  have "keeps_links f" using assms(2) by (simp add: keeps_kind_def)
  then show ?thesis using assms by (auto simp: grows_def s_node_update)
qed

lemma s_update_superseded:
  assumes "session_wf s"
  shows "session_wf (s_update a MarkSuperseded s) \<and> grows s (s_update a MarkSuperseded s)
    \<and> open_calls (s_update a MarkSuperseded s) = open_calls s - {a}"
proof -
  let ?s = "s_update a MarkSuperseded s"
  have path: "s_path ?s = s_path s" using assms by simp
  have same: "kept_node (s_node s b) (s_node ?s b)" "n_superseded (s_node ?s b) = (n_superseded (s_node s b) \<or> b = a)"
    if "b < s_size s" for b
    using that by (auto simp: kept_node_def s_node_update MarkSuperseded_def)
  note K = kept_nodeD [OF same(1)] and B = s_path_bounds [OF assms]
  have "answered ?s c = answered s c" for c
    using path K(6) B by (auto simp: answered_def)
  then have "open_calls ?s = open_calls s - {a}"
    using path K(4,6) same(2) B by (auto simp: open_calls_def model_made_def)
  moreover have "session_wf ?s" by (rule s_update_wf) (use assms in \<open>simp_all add: MarkSuperseded_def\<close>)
  ultimately show ?thesis using same(1) path by (simp add: grows_def)
qed

section \<open>The session's operations\<close>

definition reaches :: "session \<Rightarrow> session \<Rightarrow> bool" where
  "reaches s s' \<longleftrightarrow> session_wf s' \<and> grows s s'"

lemma reaches_refl: "session_wf s \<Longrightarrow> reaches s s"
  by (simp add: reaches_def)

lemma reaches_trans: "reaches s s' \<Longrightarrow> reaches s' s'' \<Longrightarrow> reaches s s''"
  by (auto simp: reaches_def intro: grows_trans)

lemma reaches_update:
  assumes "reaches s0 s" "keeps_kind f" "s_size s0 \<le> a"
  shows "reaches s0 (s_update a f s)"
  using assms grows_update_new [of s0 s f a] s_update_kind(1) [of f s a] by (simp add: reaches_def)

lemma reachesD:
  assumes "reaches s s'"
  shows "session_wf s'" "grows s s'" "s_size s \<le> s_size s'"
  using assms by (auto simp: reaches_def grows_def)

lemma reaches_added: "added s n a s' \<Longrightarrow> reaches s s'"
  by (simp add: added_def reaches_def)

text \<open>Several nodes in a row, none of which is a result for a call of the tree.\<close>

definition plain_node :: "nat \<Rightarrow> node \<Rightarrow> bool" where
  "plain_node k n \<longleftrightarrow> n_children n = [] \<and> answers (n_body n) = None \<and> (\<forall>r. n_call n = Some r \<longrightarrow> r < k)"

definition live_call :: "CallRecord list \<Rightarrow> node \<Rightarrow> bool" where
  "live_call cs n \<longleftrightarrow> is_call_node (n_body n) \<and> \<not> n_superseded n \<and> model_made cs n"

definition added_all :: "session \<Rightarrow> node list \<Rightarrow> nat list \<Rightarrow> session \<Rightarrow> bool" where
  "added_all s ns as s' \<longleftrightarrow> reaches s s' \<and> length as = length ns \<and> s_path s' = s_path s @ as
     \<and> as = [s_size s..<s_size s + length ns]
     \<and> s_size s' = s_size s + length ns
     \<and> open_calls s' = open_calls s \<union> {as ! i | i. i < length ns \<and> live_call (s_calls s) (ns ! i)}
     \<and> (\<forall>i<length ns. n_body (s_node s' (as ! i)) = n_body (ns ! i))
     \<and> s_window s' = s_window s \<and> s_calls s' = s_calls s \<and> s_dialect s' = s_dialect s \<and> s_index s' = s_index s"

lemma add_all:
  assumes "session_wf s" "\<forall>n\<in>set ns. plain_node (length (s_calls s)) n"
  shows "wp (for_each ns (s_add newid)) (\<lambda>as s'. added_all s ns as s') (\<lambda>e s'. reaches s s') s"
  using assms
proof (induction ns arbitrary: s)
  case Nil
  then show ?case by (simp add: added_all_def reaches_def)
next
  case (Cons n ns)
  have fr: "fresh_node s n" "answers (n_body n) = None" using Cons.prems by (auto simp: plain_node_def fresh_node_def)
  have step: "wp (for_each ns (s_add newid)) (\<lambda>as s'. added_all s (n # ns) (a # as) s') (\<lambda>e s'. reaches s s') s1"
    if a: "added s n a s1" for a s1
  proof (rule wp_mono [OF Cons.IH])
    note A = addedD [OF a]
    show "session_wf s1" by (rule A(1))
    show "\<forall>n\<in>set ns. plain_node (length (s_calls s1)) n" using Cons.prems A(10) by simp
    show "reaches s s'" if "reaches s1 s'" for s' using reaches_trans [OF reaches_added [OF a] that] .
    fix as s' assume all: "added_all s1 ns as s'"
    have o1: "open_calls s1 = open_calls s \<union> (if live_call (s_calls s) n then {a} else {})"
      using open_calls_added [OF a Cons.prems(1) fr(1)] fr(2) by (auto simp: live_call_def)
    have "{(a # as) ! i | i. i < length (n # ns) \<and> live_call (s_calls s) ((n # ns) ! i)}
        = (if live_call (s_calls s) n then {a} else {}) \<union> {as ! i | i. i < length ns \<and> live_call (s_calls s) (ns ! i)}" (is "?L = ?R")
    proof (intro equalityI subsetI)
      fix x assume "x \<in> ?L"
      then obtain i where "x = (a # as) ! i" "i < length (n # ns)" "live_call (s_calls s) ((n # ns) ! i)" by blast
      then show "x \<in> ?R" by (cases i) auto
    next
      fix x assume "x \<in> ?R"
      then consider "live_call (s_calls s) n" "x = a" | i where "x = as ! i" "i < length ns" "live_call (s_calls s) (ns ! i)"
        by (auto split: if_splits)
      then show "x \<in> ?L"
      proof cases
        case 1 then show ?thesis by (intro CollectI exI [of _ 0]) simp
      next
        case 2 then show ?thesis by (intro CollectI exI [of _ "Suc i"]) simp
      qed
    qed
    moreover have "n_body (s_node s' ((a # as) ! i)) = n_body ((n # ns) ! i)" if "i < length (n # ns)" for i
    proof (cases i)
      case 0
      have "a < s_size s1" using A(5) by simp
      with all have "n_body (s_node s' a) = n_body (s_node s1 a)"
        using kept_nodeD(6) growsD(3) unfolding added_all_def reaches_def by blast
      with 0 A(6) show ?thesis by simp
    next
      case (Suc j)
      have "n_body (s_node s' (as ! j)) = n_body (ns ! j)"
        using that all Suc unfolding added_all_def by (elim conjE) simp
      with Suc show ?thesis by simp
    qed
    ultimately show "added_all s (n # ns) (a # as) s'"
      using A all o1 reaches_trans [OF reaches_added [OF a], of s']
      by (auto simp: added_all_def upt_conv_Cons simp del: upt_Suc)
  qed
  show ?case
    by (auto intro!: wp_mono [OF s_add_added [OF Cons.prems(1) fr(1)]] wp_mono [OF step] simp: Cons.prems reaches_refl)
qed

lemma part_nodes_answers: "n \<in> set (part_nodes d p) \<Longrightarrow> answers (n_body n) = None \<and> \<not> n_superseded n"
  by (cases p) (auto simp: ThinkingFromBlock_def RedactedNode_def NewAssistantText_def NewToolCallArgs_def new_node_def Let_def)

lemma NodesFromMessage_plain:
  assumes "n \<in> set (NodesFromMessage rec m d)"
  shows "n_children n = [] \<and> answers (n_body n) = None \<and> n_call n = (if msg_role m = RoleAssistant then Some rec else None)
    \<and> \<not> n_superseded n"
  using assms
  by (cases "msg_role m"; auto simp: NodesFromMessage_def Let_def new_node_def SetCallOf_def
      dest!: tag_nodes_facts; fastforce dest: part_nodes_facts part_nodes_answers)

text \<open>A flat message brings no open call: if it is a turn with calls, its record is not one of a model call.\<close>

lemma appendFlat_spec:
  assumes "session_wf s"
  shows "wp (appendFlat newid m) (\<lambda>as s'. reaches s s' \<and> open_calls s' = open_calls s \<and> s_window s' = s_window s \<and> s_index s' = s_index s)
    (\<lambda>e s'. reaches s s') s"
proof -
  let ?s = "if msg_role m = RoleAssistant then s\<lparr>s_calls := s_calls s @ [new_call 0 CallStatusDone]\<rparr> else s"
  let ?ns = "NodesFromMessage (length (s_calls s)) m (s_dialect s)"
  have same: "s_path ?s = s_path s" "s_size ?s = s_size s" "\<And>b. s_node ?s b = s_node s b" "s_window ?s = s_window s" "s_index ?s = s_index s"
    by (auto simp: s_path_def s_node_def)
  have wf: "session_wf ?s" using assms(1) by (fastforce simp: session_wf_def s_node_def)
  have g: "reaches s ?s" using wf same by (auto simp: reaches_def grows_def nth_append)
  have mm: "model_made (s_calls ?s) (s_node s a) = model_made (s_calls s) (s_node s a)" if "a < s_size s" for a
    using session_wfD(4) [OF assms that] by (auto simp: model_made_def nth_append split: option.splits)
  have o: "open_calls ?s = open_calls s"
    using same mm s_path_bounds [OF assms] by (auto simp: open_calls_def answered_def)
  have all: "\<forall>n\<in>set ?ns. plain_node (length (s_calls ?s)) n"
    using NodesFromMessage_plain by (fastforce simp: plain_node_def split: if_splits)
  have "wp (for_each ?ns (s_add newid)) (\<lambda>as s'. reaches s s' \<and> open_calls s' = open_calls s \<and> s_window s' = s_window s \<and> s_index s' = s_index s) (\<lambda>e s'. reaches s s') ?s"
  proof (rule wp_mono [OF add_all [OF wf all]])
    show "reaches s s'" if "reaches ?s s'" for s' using reaches_trans [OF g that] .
    fix as s' assume a: "added_all ?s ?ns as s'"
    have "\<not> live_call (s_calls ?s) (?ns ! i)" if "i < length ?ns" for i
      using NodesFromMessage_plain [OF nth_mem [OF that]]
      by (auto simp: live_call_def model_made_def new_call_def split: option.splits)
    then show "reaches s s' \<and> open_calls s' = open_calls s \<and> s_window s' = s_window s \<and> s_index s' = s_index s"
      using a o reaches_trans [OF g, of s'] same(4,5) by (auto simp: added_all_def)
  qed
  then show ?thesis by (cases "msg_role m = RoleAssistant") (simp_all add: appendFlat_def)
qed

lemma toolResult_spec:
  assumes "session_wf s" "c < s_size s"
  shows "wp (s_toolResult newid c content e om)
    (\<lambda>a s'. reaches s s' \<and> open_calls s' = open_calls s - {c} \<and> s_window s' = s_window s \<and> s_index s' = s_index s
       \<and> s_path s' = s_path s @ [a] \<and> n_body (s_node s' a) = ToolResultNode (InTree c) [TextContent content] e om
       \<and> s_size s \<le> a \<and> a < s_size s')
    (\<lambda>e s'. reaches s s') s"
proof -
  let ?n = "NewToolResult c e [TextContent content] om"
  have fr: "fresh_node s ?n" using assms(2) by (simp add: fresh_node_def NewToolResult_def new_node_def)
  show ?thesis
    unfolding s_toolResult_def
  proof (rule wp_mono [OF s_add_added [OF assms(1) fr]])
    fix a s' assume a: "added s ?n a s'"
    from open_calls_added [OF a assms(1) fr] addedD [OF a] reaches_added [OF a]
    show "reaches s s' \<and> open_calls s' = open_calls s - {c} \<and> s_window s' = s_window s \<and> s_index s' = s_index s
      \<and> s_path s' = s_path s @ [a] \<and> n_body (s_node s' a) = ToolResultNode (InTree c) [TextContent content] e om
      \<and> s_size s \<le> a \<and> a < s_size s'"
      by (auto simp: NewToolResult_def new_node_def)
  qed (simp add: reaches_refl assms)
qed

lemma addText_spec:
  assumes "session_wf s" "\<And>r. rec = Some r \<Longrightarrow> r < length (s_calls s)"
  shows "wp (addText newid rec txt) (\<lambda>a s'. reaches s s' \<and> open_calls s' = open_calls s \<and> s_window s' = s_window s \<and> s_index s' = s_index s)
    (\<lambda>e s'. reaches s s') s"
proof -
  let ?n = "SetCallOf rec (NewAssistantText txt)"
  have fr: "fresh_node s ?n" using assms(2) by (simp add: fresh_node_def SetCallOf_def NewAssistantText_def new_node_def)
  show ?thesis
    unfolding addText_def
  proof (rule wp_mono [OF s_add_added [OF assms(1) fr]])
    fix a s' assume a: "added s ?n a s'"
    from open_calls_added [OF a assms(1) fr] addedD [OF a] reaches_added [OF a]
    show "reaches s s' \<and> open_calls s' = open_calls s \<and> s_window s' = s_window s \<and> s_index s' = s_index s"
      by (auto simp: SetCallOf_def NewAssistantText_def new_node_def)
  qed (simp add: reaches_refl assms)
qed

lemma reaches_window: "reaches s s' \<Longrightarrow> reaches s (s'\<lparr>s_window := w\<rparr>)" "open_calls (s'\<lparr>s_window := w\<rparr>) = open_calls s'"
  by (auto simp: reaches_def grows_def session_wf_def s_node_def s_path_def open_calls_def answered_def)

lemma compact_spec:
  assumes "session_wf s"
  shows "wp (s_compact newid summary i)
    (\<lambda>a s'. reaches s s' \<and> open_calls s' = open_calls s \<and> s_window s' = Some a \<and> s_index s' = s_index s \<and> s_path s' = s_path s @ [a])
    (\<lambda>e s'. reaches s s') s"
proof -
  let ?c0 = "NewCompaction (s_window s)"
  let ?c1 = "if i \<noteq> [] then SetID i ?c0 else ?c0"
  let ?c = "?c1\<lparr>n_body := map_stream (ss_finish summary) (n_body ?c1)\<rparr>"
  have fr: "fresh_node s ?c" "\<not> is_call_node (n_body ?c)" "answers (n_body ?c) = None"
    by (auto simp: fresh_node_def NewCompaction_def SetID_def new_node_def)
  have "wp (and_then (s_add newid ?c) (\<lambda>a. and_then (modify (\<lambda>s. s\<lparr>s_window := Some a\<rparr>)) (\<lambda>_. ret a)))
    (\<lambda>a s'. reaches s s' \<and> open_calls s' = open_calls s \<and> s_window s' = Some a \<and> s_index s' = s_index s \<and> s_path s' = s_path s @ [a])
    (\<lambda>e s'. reaches s s') s"
    unfolding wp_and_then
  proof (rule wp_mono [OF s_add_added [OF assms fr(1)]])
    fix a s' assume a: "added s ?c a s'"
    have "s_path (s'\<lparr>s_window := Some a\<rparr>) = s_path s'" by (simp add: s_path_def)
    with open_calls_added [OF a assms fr(1)] addedD [OF a] fr reaches_window(1) [OF reaches_added [OF a]] reaches_window(2)
    show "wp (modify (\<lambda>s. s\<lparr>s_window := Some a\<rparr>)) (\<lambda>x. wp (ret a)
      (\<lambda>a s'. reaches s s' \<and> open_calls s' = open_calls s \<and> s_window s' = Some a \<and> s_index s' = s_index s \<and> s_path s' = s_path s @ [a]) (\<lambda>e s'. reaches s s')) (\<lambda>e s'. reaches s s') s'"
      by simp
  qed (simp add: reaches_refl assms)
  then show ?thesis by (simp add: s_compact_def Let_def)
qed

lemma toolResults_spec:
  assumes "session_wf s" "\<forall>a\<in>set todo. a < s_size s"
  shows "wp (for_each todo (\<lambda>a. s_toolResult newid a content e om))
    (\<lambda>_ s'. reaches s s' \<and> open_calls s' = open_calls s - set todo \<and> s_window s' = s_window s \<and> s_index s' = s_index s) (\<lambda>e s'. reaches s s') s"
  using assms
proof (induction todo arbitrary: s)
  case Nil
  then show ?case by (simp add: reaches_refl)
next
  case (Cons a todo)
  have "wp (for_each todo (\<lambda>a. s_toolResult newid a content e om))
      (\<lambda>_ s'. reaches s s' \<and> open_calls s' = open_calls s - set (a # todo) \<and> s_window s' = s_window s \<and> s_index s' = s_index s) (\<lambda>e s'. reaches s s') s1"
    if r: "reaches s s1" "open_calls s1 = open_calls s - {a}" "s_window s1 = s_window s" "s_index s1 = s_index s" for s1
  proof (rule wp_mono [OF Cons.IH])
    show "session_wf s1" "\<forall>a\<in>set todo. a < s_size s1"
      using r(1) Cons.prems(2) by (auto simp: reaches_def grows_def)
  qed (use r in \<open>auto intro: reaches_trans\<close>)
  with Cons.prems show ?case
    by (auto intro!: wp_mono [OF toolResult_spec])
qed

lemma omitCalls_spec:
  assumes "session_wf s" "\<forall>a\<in>set nodes. a < s_size s"
  shows "wp (omitCalls newid nodes reason)
    (\<lambda>_ s'. reaches s s' \<and> open_calls s' = open_calls s - set nodes \<and> s_window s' = s_window s \<and> s_index s' = s_index s) (\<lambda>e s'. reaches s s') s"
proof -
  let ?todo = "filter (\<lambda>a. \<not> answered s a) (toolCalls s nodes)"
  have "\<forall>a\<in>set ?todo. a < s_size s" using assms(2) by (auto simp: toolCalls_def)
  moreover have "open_calls s - set ?todo = open_calls s - set nodes"
    by (auto simp: open_calls_def toolCalls_def)
  ultimately show ?thesis
    using toolResults_spec [OF assms(1), of ?todo newid reason True reason]
    by (simp add: omitCalls_def)
qed

lemma supersede_all:
  assumes "session_wf s"
  shows "reaches s (foldl (\<lambda>s a. s_update a MarkSuperseded s) s old)
    \<and> open_calls (foldl (\<lambda>s a. s_update a MarkSuperseded s) s old) = open_calls s - set old
    \<and> s_size (foldl (\<lambda>s a. s_update a MarkSuperseded s) s old) = s_size s
    \<and> s_calls (foldl (\<lambda>s a. s_update a MarkSuperseded s) s old) = s_calls s
    \<and> s_index (foldl (\<lambda>s a. s_update a MarkSuperseded s) s old) = s_index s
    \<and> s_window (foldl (\<lambda>s a. s_update a MarkSuperseded s) s old) = s_window s"
  using assms
proof (induction old arbitrary: s)
  case (Cons a old)
  let ?s = "s_update a MarkSuperseded s"
  have u: "session_wf ?s" "reaches s ?s" "open_calls ?s = open_calls s - {a}"
    using s_update_superseded [OF Cons.prems, of a] by (auto simp: reaches_def)
  from Cons.IH [OF u(1)] u reaches_trans [OF u(2)] show ?case by auto
qed (simp add: reaches_refl)

definition made_calls :: "session \<Rightarrow> nat list \<Rightarrow> ToolCall list \<Rightarrow> bool" where
  "made_calls s as calls \<longleftrightarrow> length as = length calls
     \<and> (\<forall>i<length calls. \<exists>args. n_body (s_node s (as ! i)) = ToolCallNode (tc_id (calls ! i)) (tc_name (calls ! i)) args)"

lemma replaceCalls_spec:
  assumes "session_wf s"  "\<forall>a\<in>set nodes. a < s_size s"
  shows "wp (replaceCalls newid nodes calls)
    (\<lambda>as s'. reaches s s' \<and> open_calls s' - set as = open_calls s - set nodes \<and> s_window s' = s_window s \<and> s_index s' = s_index s
       \<and> (\<forall>a\<in>set as. s_size s \<le> a \<and> a < s_size s') \<and> distinct as \<and> made_calls s' as calls)
    (\<lambda>e s'. reaches s s') s"
proof -
  let ?old = "toolCalls s nodes"
  let ?rec = "if ?old = [] then None else n_call (s_node s (last ?old))"
  let ?s = "foldl (\<lambda>s a. s_update a MarkSuperseded s) s ?old"
  let ?ns = "map (\<lambda>c. SetCallOf ?rec (NewToolCallArgs (tc_id c) (tc_name c) (tc_args c))) calls"
  have S: "reaches s ?s" "open_calls ?s = open_calls s - set ?old" "s_size ?s = s_size s" "s_window ?s = s_window s"
    "s_calls ?s = s_calls s" "s_index ?s = s_index s"
    using supersede_all [OF assms(1), of ?old] by auto
  have o: "open_calls s - set ?old = open_calls s - set nodes" by (auto simp: open_calls_def toolCalls_def)
  have rec: "r < length (s_calls s)" if "?rec = Some r" for r
  proof -
    have "?old \<noteq> []" "n_call (s_node s (last ?old)) = Some r" using that by (auto split: if_splits)
    moreover have "last ?old < s_size s" if "?old \<noteq> []"
      using last_in_set [OF that] assms(2) by (auto simp: toolCalls_def)
    ultimately show ?thesis using session_wfD(4) [OF assms(1)] by blast
  qed
  have plain: "\<forall>n\<in>set ?ns. plain_node (length (s_calls ?s)) n"
    using rec S(5) by (auto simp: plain_node_def SetCallOf_def NewToolCallArgs_def new_node_def)
  have fe: "for_each calls (\<lambda>c. s_add newid (f c)) = for_each (map f calls) (s_add newid)" for f
    by (induction calls) auto
  have "wp (for_each ?ns (s_add newid))
    (\<lambda>as s'. reaches s s' \<and> open_calls s' - set as = open_calls s - set nodes \<and> s_window s' = s_window s \<and> s_index s' = s_index s
       \<and> (\<forall>a\<in>set as. s_size s \<le> a \<and> a < s_size s') \<and> distinct as \<and> made_calls s' as calls)
    (\<lambda>e s'. reaches s s') ?s"
  proof (rule wp_mono [OF add_all [OF _ plain]])
    show "session_wf ?s" using S(1) by (simp add: reaches_def)
    show "reaches s s'" if "reaches ?s s'" for s' using reaches_trans [OF S(1) that] .
    fix as s' assume a: "added_all ?s ?ns as s'"
    have as: "as = [s_size s..<s_size s + length calls]" "length as = length calls"
      using a S(3) by (auto simp: added_all_def)
    have sub: "{as ! i |i. i < length ?ns \<and> live_call (s_calls ?s) (?ns ! i)} \<subseteq> set as"
      using as(2) by auto
    have "a < s_size s" if "a \<in> open_calls s" for a
      using that s_path_bounds [OF assms(1)] by (auto simp: open_calls_def)
    then have disj: "(open_calls s - set nodes) \<inter> set as = {}" using as(1) by fastforce
    have "open_calls s' = (open_calls s - set nodes) \<union> {as ! i |i. i < length ?ns \<and> live_call (s_calls ?s) (?ns ! i)}"
      using a S(2) o unfolding added_all_def by (elim conjE) (simp only:)
    with sub disj have op: "open_calls s' - set as = open_calls s - set nodes" by blast
    have "made_calls s' as calls"
      using a as(2) by (auto simp: made_calls_def added_all_def SetCallOf_def NewToolCallArgs_def new_node_def)
    moreover have "s_size s' = s_size s + length calls" "reaches ?s s'" "s_window s' = s_window s" "s_index s' = s_index s"
      using a S by (auto simp: added_all_def)
    ultimately show "reaches s s' \<and> open_calls s' - set as = open_calls s - set nodes \<and> s_window s' = s_window s \<and> s_index s' = s_index s
       \<and> (\<forall>a\<in>set as. s_size s \<le> a \<and> a < s_size s') \<and> distinct as \<and> made_calls s' as calls"
      using op as reaches_trans [OF S(1)] by auto
  qed
  then show ?thesis unfolding replaceCalls_def by (simp add: fe)
qed

section \<open>A model call\<close>

text \<open>What holds of the sink while the call with record \<open>rec\<close> streams into it.\<close>

definition sink_inv :: "session \<Rightarrow> nat \<Rightarrow> 'w sink \<Rightarrow> bool" where
  "sink_inv s0 rec k \<longleftrightarrow> reaches s0 (sk_session k) \<and> s_path (sk_session k) = s_path s0 @ sk_nodes k
     \<and> open_calls (sk_session k) - set (sk_nodes k) = open_calls s0
     \<and> (\<forall>a\<in>set (sk_nodes k). s_size s0 \<le> a \<and> a < s_size (sk_session k)) \<and> s_window (sk_session k) = s_window s0
     \<and> s_index (sk_session k) = s_index s0 \<and> rec < length (s_calls (sk_session k))
     \<and> (\<forall>a\<in>set (sk_nodes k). \<not> n_superseded (s_node (sk_session k) a))"

lemma sink_invD:
  assumes "sink_inv s0 rec k"
  shows "reaches s0 (sk_session k)" "session_wf (sk_session k)" "s_path (sk_session k) = s_path s0 @ sk_nodes k"
    "open_calls (sk_session k) - set (sk_nodes k) = open_calls s0" "a \<in> set (sk_nodes k) \<Longrightarrow> s_size s0 \<le> a \<and> a < s_size (sk_session k)"
    "s_window (sk_session k) = s_window s0" "s_index (sk_session k) = s_index s0" "rec < length (s_calls (sk_session k))"
    "a \<in> set (sk_nodes k) \<Longrightarrow> \<not> n_superseded (s_node (sk_session k) a)"
  using assms by (auto simp: sink_inv_def reaches_def)

lemma sink_inv_update:
  assumes "sink_inv s0 rec k" "keeps_kind f" "s_size s0 \<le> a"
  shows "sink_inv s0 rec (on_sink_node a f k)"
proof -
  note K = sink_invD [OF assms(1)]
  have "keeps_links f" using assms(2) by (simp add: keeps_kind_def)
  with K(2) have "s_path (s_update a f (sk_session k)) = s_path (sk_session k)" by simp
  moreover have "\<not> n_superseded (s_node (s_update a f (sk_session k)) b)" if "b \<in> set (sk_nodes k)" for b
    using K(5,9) [OF that] assms(2) by (cases "b = a") (simp_all add: s_node_update keeps_kind_def)
  ultimately show ?thesis
    using K(3-8) s_update_kind(2) [OF assms(2) K(2), of a] reaches_update [OF K(1) assms(2,3)]
    by (auto simp: sink_inv_def on_sink_node_def)
qed

lemma sink_inv_world [simp]:
  "sink_inv s0 rec (k\<lparr>sk_world := w\<rparr>) = sink_inv s0 rec k" "sink_inv s0 rec (k\<lparr>sk_err := e\<rparr>) = sink_inv s0 rec k"
  "sink_inv s0 rec (k\<lparr>sk_scans := sc\<rparr>) = sink_inv s0 rec k" "sink_inv s0 rec (k\<lparr>sk_refused := r\<rparr>) = sink_inv s0 rec k"
  by (simp_all add: sink_inv_def)

lemma sink_inv_keep [simp]: "sink_inv s0 rec (keep_err e k) = sink_inv s0 rec k"
  by (simp add: keep_err_def split: option.splits)

lemma sink_inv_emit [simp]: "sink_inv s0 rec (sink_emit on ev k) = sink_inv s0 rec k"
  by (simp add: sink_emit_def split: prod.splits)

lemma sink_inv_watch: "sink_inv s0 rec k \<Longrightarrow> sink_inv s0 rec (watchArgs hooks a delta k)"
  by (auto simp: watchArgs_def Let_def split: option.splits node_body.splits prod.splits)

lemma upd_call_facts [simp]:
  "s_path (upd_call rec f s) = s_path s" "s_size (upd_call rec f s) = s_size s"
  "s_node (upd_call rec f s) a = s_node s a" "s_window (upd_call rec f s) = s_window s" "s_index (upd_call rec f s) = s_index s"
  "length (s_calls (upd_call rec f s)) = length (s_calls s)" "session_wf (upd_call rec f s) = session_wf s"
  by (simp_all add: upd_call_def session_wf_def s_path_def s_node_def)

lemma upd_call_turn:
  assumes "\<And>c. cr_turn (f c) = cr_turn c" "r < length (s_calls s)"
  shows "cr_turn (s_calls (upd_call rec f s) ! r) = cr_turn (s_calls s ! r)"
  using assms by (cases "r = rec") (simp_all add: upd_call_def)

lemma upd_call_kept:
  assumes "\<And>c. cr_turn (f c) = cr_turn c" "session_wf s"
  shows "reaches s0 (upd_call rec f s) = reaches s0 s" "open_calls (upd_call rec f s) = open_calls s"
proof -
  note T = upd_call_turn [of f, OF assms(1)]
  show "reaches s0 (upd_call rec f s) = reaches s0 s"
    using T by (auto simp: reaches_def grows_def)
  have "model_made (s_calls (upd_call rec f s)) (s_node s a) = model_made (s_calls s) (s_node s a)" if "a \<in> set (s_path s)" for a
    using T session_wfD(4) [OF assms(2), of a] s_path_bounds [OF assms(2) that]
    by (auto simp: model_made_def split: option.splits)
  then show "open_calls (upd_call rec f s) = open_calls s"
    by (auto simp: open_calls_def answered_def)
qed

lemma sink_inv_call:
  assumes "sink_inv s0 rec k" "\<And>c. cr_turn (f c) = cr_turn c"
  shows "sink_inv s0 rec (k\<lparr>sk_session := upd_call rec f (sk_session k)\<rparr>)"
  using assms(1) upd_call_kept [OF assms(2) sink_invD(2) [OF assms(1)]] by (simp add: sink_inv_def)

lemma sink_inv_restart:
  "sink_inv s0 rec k \<Longrightarrow> \<forall>a\<in>set ns. s_size s0 \<le> a \<Longrightarrow> sink_inv s0 rec (foldl (\<lambda>k n. on_sink_node n RestartNode k) k ns)"
  by (induction ns arbitrary: k) (simp_all add: sink_inv_update)

abbreviation sink_exit :: "session \<Rightarrow> add_error \<Rightarrow> 'w sink \<Rightarrow> bool" where
  "sink_exit s0 \<equiv> \<lambda>e k. reaches s0 (sk_session k)"

lemma sink_start_keeps:
  assumes "n_children n = []" "answers (n_body n) = None" "\<not> n_superseded n"
  shows "keeps (sink_inv s0 rec) (sink_exit s0) (sink_start newid rec firstID n)"
proof (rule keepsI)
  fix k :: "'a sink" assume k: "sink_inv s0 rec k"
  let ?m = "let n = SetCallOf (Some rec) n in
    if sk_nodes k = [] \<and> firstID \<noteq> [] \<and> tree_node (s_tree (sk_session k)) firstID = None then SetID firstID n else n"
  let ?s = "sk_session k"
  note K = sink_invD [OF k]
  have fr: "fresh_node ?s ?m" "answers (n_body ?m) = None"
    using assms K(8) by (auto simp: fresh_node_def SetCallOf_def SetID_def Let_def)
  have "wp (s_add newid ?m)
     (\<lambda>a s. sink_inv s0 rec (k\<lparr>sk_session := s, sk_nodes := sk_nodes k @ [a]\<rparr>)) (\<lambda>e s. reaches s0 s) ?s"
  proof (rule wp_mono [OF s_add_added [OF K(2) fr(1)]])
    fix a s' assume a: "added ?s ?m a s'"
    note A = addedD [OF a]
    have o: "open_calls s' - {a} = open_calls ?s - {a}" using open_calls_added [OF a K(2) fr(1)] fr(2) by auto
    have le: "s_size s0 \<le> a" using reachesD(3) [OF K(1)] A(4) by simp
    have "session_wf s0 \<Longrightarrow> a \<notin> open_calls s0" using le by (auto simp: open_calls_def dest: s_path_bounds)
    moreover have "a \<notin> open_calls ?s" using A(4) by (auto simp: open_calls_def dest: s_path_bounds [OF K(2)])
    ultimately have op: "open_calls s' - set (sk_nodes k @ [a]) = open_calls s0" using o K(4) by auto
    have nodes: "\<forall>x\<in>set (sk_nodes k @ [a]). s_size s0 \<le> x \<and> x < s_size s'"
      using K(5) A(4,5) le by (auto intro: less_SucI)
    have "s_path s' = s_path s0 @ sk_nodes k @ [a]" "s_window s' = s_window s0" "s_index s' = s_index s0" "rec < length (s_calls s')"
      using K A by simp_all
    moreover have "\<not> n_superseded (s_node s' x)" if "x \<in> set (sk_nodes k @ [a])" for x
    proof (cases "x = a")
      case True
      with A(7) assms(3) show ?thesis by (simp add: SetCallOf_def SetID_def Let_def)
    next
      case False
      with that K(5,9) added_old(3) [OF a] show ?thesis by auto
    qed
    ultimately show "sink_inv s0 rec (k\<lparr>sk_session := s', sk_nodes := sk_nodes k @ [a]\<rparr>)"
      using op nodes reaches_trans [OF K(1) reaches_added [OF a]]
      by (simp add: sink_inv_def)
  qed (use K(1) in simp)
  then show "wp (sink_start newid rec firstID n) (\<lambda>_. sink_inv s0 rec) (sink_exit s0) k"
    by (simp add: sink_start_def sink_session_def wp_on_part Let_def)
qed

lemma sink_inv_started:
  "sink_inv s0 rec k \<Longrightarrow> (\<And>k a. sink_inv s0 rec k \<Longrightarrow> s_size s0 \<le> a \<Longrightarrow> sink_inv s0 rec (f k a)) \<Longrightarrow> sink_inv s0 rec (started i f k)"
  by (simp add: started_def sink_invD(5))

lemma sink_inv_delta: "sink_inv s0 rec k \<Longrightarrow> s_size s0 \<le> a \<Longrightarrow> sink_inv s0 rec (sink_delta on hooks a f d k)"
  by (auto simp: sink_delta_def Let_def sink_inv_update intro: sink_inv_watch split: node_body.splits)

lemma sink_inv_done: "sink_inv s0 rec k \<Longrightarrow> s_size s0 \<le> a \<Longrightarrow> sink_inv s0 rec (sink_done on a k)"
  by (auto simp: sink_done_def Let_def sink_inv_update split: option.splits)

lemma sink_inv_retry: "sink_inv s0 rec k \<Longrightarrow> sink_inv s0 rec (sink_retry on a k)"
  by (simp add: sink_retry_def sink_inv_restart sink_invD(5))

lemma sink_do_keeps: "keeps (sink_inv s0 rec) (sink_exit s0) (sink_do newid on hooks rec firstID ev)"
proof (cases ev)
  case (EvStart b)
  have "n_children (new_node (begun_body b)) = [] \<and> answers (n_body (new_node (begun_body b))) = None
      \<and> \<not> n_superseded (new_node (begun_body b))"
    by (cases b) (auto simp: new_node_def)
  with EvStart show ?thesis unfolding sink_do_def by (auto intro!: keeps_and_then sink_start_keeps keeps_intros)
next
  case (EvHost se)
  then show ?thesis unfolding sink_do_def by (auto intro!: keeps_run_fn split: prod.splits)
qed (auto simp: sink_do_def intro!: keeps_and_then keeps_get_state keeps_modify sink_inv_started
      sink_inv_delta sink_inv_update sink_inv_done sink_inv_call sink_inv_retry)

lemma run_call_tree_keeps: "keeps (sink_inv s0 rec) (sink_exit s0) (run_call_tree newid on hooks rec firstID ct)"
  by (induction ct) (auto intro!: keeps_intros sink_do_keeps)

text \<open>A node that arrived whole is started, and the field it may still have open is finished.\<close>

lemma start_whole_keeps:
  assumes "n_children n = []" "answers (n_body n) = None" "\<not> n_superseded n"
  shows "keeps (sink_inv s0 rec) (sink_exit s0)
    (and_then (sink_start newid rec firstID n) (\<lambda>_. modify (\<lambda>k. on_sink_node (last (sk_nodes k)) FinishNode k)))"
proof (rule keepsI)
  fix k :: "'a sink" assume k: "sink_inv s0 rec k"
  have "wp (sink_start newid rec firstID n) (\<lambda>_ k. sink_inv s0 rec k \<and> sk_nodes k \<noteq> []) (sink_exit s0) k"
  proof -
    have "wp (sink_start newid rec firstID n) (\<lambda>_ k. sk_nodes k \<noteq> []) (\<lambda>_ _. True) k"
      by (simp add: sink_start_def sink_session_def wp_on_part Let_def) (simp add: wp_def split: prod.splits sum.splits)
    from wp_conj [OF keepsD [OF sink_start_keeps [OF assms] k] this] show ?thesis
      by (rule wp_mono) simp_all
  qed
  then show "wp (and_then (sink_start newid rec firstID n) (\<lambda>_. modify (\<lambda>k. on_sink_node (last (sk_nodes k)) FinishNode k)))
      (\<lambda>_. sink_inv s0 rec) (sink_exit s0) k"
    by (auto elim!: wp_mono intro!: sink_inv_update simp: sink_invD(5))
qed

lemma AddTurn_keeps: "keeps (sink_inv s0 rec) (sink_exit s0) (AddTurn newid rec firstID m)"
  unfolding AddTurn_def
  by (intro keeps_and_then keeps_for_each start_whole_keeps keeps_ret) (auto dest: NodesFromMessage_plain)

lemma client_stream_keeps: "keeps (sink_inv s0 rec) (sink_exit s0) (client_stream newid on hooks rec firstID p req)"
  unfolding client_stream_def
  by (auto intro!: keeps_intros keeps_run_fn run_call_tree_keeps AddTurn_keeps split: prod.splits)

lemma sink_inv_finish:
  "sink_inv s0 rec k \<Longrightarrow> \<forall>a\<in>set ns. s_size s0 \<le> a \<Longrightarrow>
   sink_inv s0 rec (k\<lparr>sk_session := foldl (\<lambda>s a. s_update a FinishNode s) (sk_session k) ns\<rparr>)"
proof (induction ns arbitrary: k)
  case (Cons a ns)
  have "sink_inv s0 rec (on_sink_node a FinishNode k)" using Cons.prems by (simp add: sink_inv_update)
  from Cons.IH [OF this] Cons.prems(2) show ?case by (simp add: on_sink_node_def)
qed simp

text \<open>The nodes of a call are the new end of the conversation, and only they can be open calls.\<close>

definition call_added :: "session \<Rightarrow> nat list \<Rightarrow> nat \<Rightarrow> session \<Rightarrow> bool" where
  "call_added s ns rec s' \<longleftrightarrow> reaches s s' \<and> s_path s' = s_path s @ ns \<and> open_calls s' - set ns = open_calls s
     \<and> (\<forall>a\<in>set ns. s_size s \<le> a \<and> a < s_size s') \<and> s_window s' = s_window s \<and> s_index s' = s_index s
     \<and> rec < length (s_calls s') \<and> (\<forall>a\<in>set ns. \<not> n_superseded (s_node s' a))"

lemma close_record_turn [simp]: "cr_turn (close_record err cn c r) = cr_turn r"
  by (simp add: close_record_def Let_def split: option.splits)

definition call_sink :: "session \<Rightarrow> nat \<Rightarrow> 'w \<Rightarrow> 'w sink" where
  "call_sink s turn w = \<lparr>sk_session = s\<lparr>s_calls := s_calls s @ [new_call turn CallStreaming]\<rparr>, sk_nodes = [], sk_err = None,
     sk_scans = Map.empty, sk_refused = Map.empty, sk_world = w\<rparr>"

lemma call_sink_inv:
  assumes "session_wf s"
  shows "sink_inv s (length (s_calls s)) (call_sink s turn w)"
proof -
  let ?s1 = "s\<lparr>s_calls := s_calls s @ [new_call turn CallStreaming]\<rparr>"
  have same: "s_path ?s1 = s_path s" "\<And>b. s_node ?s1 b = s_node s b" by (auto simp: s_path_def s_node_def)
  have wf: "session_wf ?s1" using assms by (fastforce simp: session_wf_def s_node_def)
  have "model_made (s_calls ?s1) (s_node s a) = model_made (s_calls s) (s_node s a)" if "a < s_size s" for a
    using session_wfD(4) [OF assms that] by (auto simp: model_made_def nth_append split: option.splits)
  then have "open_calls ?s1 = open_calls s"
    using same s_path_bounds [OF assms] by (auto simp: open_calls_def answered_def)
  with wf same show ?thesis
    by (auto simp: sink_inv_def call_sink_def reaches_def grows_def nth_append)
qed

lemma streamCall_spec:
  assumes "session_wf s"
  shows "wp (streamCall newid on ctx p req turn firstID hooks)
    (\<lambda>r sw. call_added s (sr_nodes r) (sr_rec r) (fst sw)) (\<lambda>e sw. reaches s (fst sw)) (s, w)"
proof -
  let ?rec = "length (s_calls s)"
  let ?k = "call_sink s turn w"
  let ?st = "client_stream newid on hooks ?rec firstID p req ?k"
  have "sink_inv s ?rec ?k" by (rule call_sink_inv [OF assms])
  then have "wp (client_stream newid on hooks ?rec firstID p req) (\<lambda>_. sink_inv s ?rec) (sink_exit s) ?k"
    by (rule keepsD [OF client_stream_keeps])
  then have K: "case ?st of (Inl e, k) \<Rightarrow> reaches s (sk_session k) | (Inr x, k) \<Rightarrow> sink_inv s ?rec k"
    unfolding wp_def .
  show ?thesis
  proof (cases ?st)
    case (Pair r k)
    show ?thesis
    proof (cases r)
      case (Inl e)
      with Pair K show ?thesis by (simp add: wp_def streamCall_def call_sink_def Let_def)
    next
      case (Inr x)
      with Pair K have k: "sink_inv s ?rec k" by simp
      have "call_added s (sk_nodes k) ?rec (upd_call ?rec (close_record err cn c) (foldl (\<lambda>s a. s_update a FinishNode s) (sk_session k) (sk_nodes k)))"
        for err cn c
      proof -
        have f: "sink_inv s ?rec (k\<lparr>sk_session := foldl (\<lambda>s a. s_update a FinishNode s) (sk_session k) (sk_nodes k)\<rparr>)"
          by (rule sink_inv_finish [OF k]) (simp add: sink_invD(5) [OF k])
        from sink_invD [OF sink_inv_call [OF f, of "close_record err cn c"]] show ?thesis
          by (simp add: call_added_def)
      qed
      with Pair Inr show ?thesis by (simp add: wp_def streamCall_def call_sink_def Let_def split: prod.splits)
    qed
  qed
qed

end
