(* ===== verification/Elapsed.thy ===== *)
theory Elapsed
  imports Messages
begin

text \<open>
  The clock notice of a model call (\<open>internal/loop/elapsed.go\<close>). A time is a count of nanoseconds and
  the zero time is \<open>None\<close>; \<open>clock\<close>, which renders a time in its own zone, is a parameter.
\<close>

section \<open>Formatting a gap\<close>

definition ElapsedKind :: string where "ElapsedKind = ''elapsed_time''"

definition second_ns :: int where "second_ns = 1000000000"

text \<open>The units, largest first: size in nanoseconds, singular, plural.\<close>

definition elapsedUnits :: "(int \<times> string \<times> string) list" where
  "elapsedUnits =
     [(86400 * second_ns, ''d'', ''d''), (3600 * second_ns, ''hr'', ''hrs''),
      (60 * second_ns, ''min'', ''mins''), (second_ns, ''sec'', ''secs'')]"

text \<open>The loop over the units, with how many parts may still be written.\<close>

fun elapsed_parts :: "(int \<times> string \<times> string) list \<Rightarrow> nat \<Rightarrow> int \<Rightarrow> (int \<times> string) list" where
  "elapsed_parts [] room d = []"
| "elapsed_parts ((sz, one, many) # us) room d =
     (let n = d div sz in
      if n = 0 then elapsed_parts us room d
      else (let d = d - n * sz; part = (n, if n = 1 then one else many) in
            if room \<le> 1 then [part] else part # elapsed_parts us (room - 1) d))"

definition FormatElapsed :: "int \<Rightarrow> string" where
  "FormatElapsed d =
     (if d < second_ns then ''<1sec''
      else join_with '' '' (map (\<lambda>(n, u). itoa n @ u) (elapsed_parts elapsedUnits 2 d)))"

definition FormatElapsedNotice :: "(int \<Rightarrow> string) \<Rightarrow> int \<Rightarrow> int option \<Rightarrow> string" where
  "FormatElapsedNotice clock now since =
     (let h = ''Current time is '' @ clock now in
      case since of
        None \<Rightarrow> h
      | Some t \<Rightarrow> if \<not> now > t then h else h @ '', '' @ FormatElapsed (now - t) @ '' have passed'')"

section \<open>The run's tracker\<close>

type_synonym elapsedTracker = "int option option"   \<comment> \<open>no tracker; a tracker and its last call\<close>

definition elapsed_mark :: "(int \<Rightarrow> string) \<Rightarrow> int \<Rightarrow> elapsedTracker \<Rightarrow> string \<times> elapsedTracker" where
  "elapsed_mark clock now t =
     (case t of None \<Rightarrow> ([], None) | Some prev \<Rightarrow> (FormatElapsedNotice clock now prev, Some (Some now)))"

definition elapsedMessages :: "Message list \<Rightarrow> string \<Rightarrow> Message list" where
  "elapsedMessages msgs notice =
     (if notice = [] then msgs
      else msgs @ [(empty_message RoleUser)\<lparr>msg_kind := ElapsedKind, msg_content := notice\<rparr>])"

section \<open>Precision\<close>

text \<open>The nanoseconds the parts stand for.\<close>

definition unit_size :: "string \<Rightarrow> int" where
  "unit_size u =
     (if u = ''d'' then 86400 * second_ns
      else if u = ''hr'' \<or> u = ''hrs'' then 3600 * second_ns
      else if u = ''min'' \<or> u = ''mins'' then 60 * second_ns else second_ns)"

definition parts_value :: "(int \<times> string) list \<Rightarrow> int" where
  "parts_value ps = sum_list (map (\<lambda>(n, u). n * unit_size u) ps)"

definition units_ok :: "(int \<times> string \<times> string) list \<Rightarrow> bool" where
  "units_ok us \<longleftrightarrow> (\<forall>(sz, one, many)\<in>set us. 0 < sz \<and> unit_size one = sz \<and> unit_size many = sz)"

lemma elapsedUnits_ok: "units_ok elapsedUnits"
  by (simp add: units_ok_def elapsedUnits_def unit_size_def second_ns_def)

lemma div_mult_bounds: "0 < s \<Longrightarrow> (d::int) div s * s \<le> d \<and> d < d div s * s + s"
  using div_mult_mod_eq [of d s] pos_mod_bound [of s d] pos_mod_sign [of s d] by linarith

lemma elapsed_parts_facts:
  assumes "units_ok us" "0 \<le> d" "0 < room"
  shows "length (elapsed_parts us room d) \<le> room
    \<and> (\<forall>(n, u)\<in>set (elapsed_parts us room d). 1 \<le> n)
    \<and> (elapsed_parts us room d = [] \<longrightarrow> (\<forall>(sz, one, many)\<in>set us. d < sz))
    \<and> (elapsed_parts us room d \<noteq> [] \<longrightarrow>
         parts_value (elapsed_parts us room d) \<le> d
         \<and> d < parts_value (elapsed_parts us room d) + unit_size (snd (last (elapsed_parts us room d))))"
  using assms
proof (induction us room d rule: elapsed_parts.induct)
  case (2 sz one many us room d)
  let ?n = "d div sz"
  have sz: "0 < sz" "unit_size one = sz" "unit_size many = sz" and us: "units_ok us"
    using "2.prems"(1) by (auto simp: units_ok_def)
  note B = div_mult_bounds [OF sz(1), of d]
  have n0: "0 \<le> ?n" using sz "2.prems"(2) by (simp add: pos_imp_zdiv_nonneg_iff)
  show ?case
  proof (cases "?n = 0")
    case True
    have "d < sz" using B True by simp
    with "2.IH"(1) [OF refl True us "2.prems"(2,3)] True show ?thesis by (auto simp: Let_def)
  next
    case False
    with n0 have n1: "1 \<le> ?n" by simp
    let ?p = "(?n, if ?n = 1 then one else many)"
    have up: "unit_size (snd ?p) = sz" using sz by simp
    show ?thesis
    proof (cases "room \<le> 1")
      case True
      with False n1 up B "2.prems"(3) show ?thesis by (auto simp: Let_def parts_value_def)
    next
      case room: False
      let ?d = "d - ?n * sz"
      let ?ps = "elapsed_parts us (room - 1) ?d"
      have d0: "0 \<le> ?d" using B by simp
      note IH = "2.IH"(2) [OF refl False refl refl room us d0]
      have eq: "elapsed_parts ((sz, one, many) # us) room d = ?p # ?ps" using False room by (simp add: Let_def)
      have v: "parts_value (?p # ?ps) = ?n * sz + parts_value ?ps" using up by (simp add: parts_value_def)
      have IH': "length ?ps \<le> room - 1" "\<forall>(n, u)\<in>set ?ps. 1 \<le> n"
        "?ps \<noteq> [] \<longrightarrow> parts_value ?ps \<le> ?d \<and> ?d < parts_value ?ps + unit_size (snd (last ?ps))"
        using IH room by auto
      show ?thesis
      proof (cases "?ps = []")
        case True
        with eq v up B n1 room IH'(1) show ?thesis by (simp add: parts_value_def)
      next
        case nonempty: False
        have "parts_value (?p # ?ps) \<le> d \<and> d < parts_value (?p # ?ps) + unit_size (snd (last (?p # ?ps)))"
          using IH'(3) nonempty unfolding v by simp
        moreover have "length (?p # ?ps) \<le> room" using IH'(1) room by simp
        moreover have "\<forall>(n, u)\<in>set (?p # ?ps). 1 \<le> n" using IH'(2) n1 by simp
        ultimately show ?thesis unfolding eq by blast
      qed
    qed
  qed
qed simp

text \<open>
  A gap of a second or more is stated in one or two units, each counted at least once, and what it
  states is the gap rounded down to the smaller unit shown: never more than has passed, and short by
  less than one of that unit.
\<close>

theorem FormatElapsed_precision:
  assumes "second_ns \<le> d"
  shows "FormatElapsed d = join_with '' '' (map (\<lambda>(n, u). itoa n @ u) (elapsed_parts elapsedUnits 2 d))
    \<and> length (elapsed_parts elapsedUnits 2 d) \<in> {1, 2}
    \<and> (\<forall>(n, u)\<in>set (elapsed_parts elapsedUnits 2 d). 1 \<le> n)
    \<and> parts_value (elapsed_parts elapsedUnits 2 d) \<le> d
    \<and> d < parts_value (elapsed_parts elapsedUnits 2 d) + unit_size (snd (last (elapsed_parts elapsedUnits 2 d)))"
proof -
  let ?ps = "elapsed_parts elapsedUnits 2 d"
  have "0 \<le> d" using assms by (simp add: second_ns_def)
  note F = elapsed_parts_facts [OF elapsedUnits_ok this, of 2]
  have ne: "?ps \<noteq> []"
  proof
    assume "?ps = []"
    with F have "\<forall>(sz, one, many)\<in>set elapsedUnits. d < sz" by simp
    then have "d < second_ns" by (simp add: elapsedUnits_def)
    with assms show False by simp
  qed
  then have "0 < length ?ps" by simp
  with F have "length ?ps = 1 \<or> length ?ps = 2" by linarith
  with F ne assms show ?thesis by (simp add: FormatElapsed_def)
qed

theorem FormatElapsed_precision_witness:
  "second_ns \<le> 169265000000000 \<and> FormatElapsed 169265000000000 = ''1d 23hrs''
   \<and> parts_value (elapsed_parts elapsedUnits 2 169265000000000) \<le> 169265000000000"
proof -
  have a: "second_ns \<le> 169265000000000" by (simp add: second_ns_def)
  have "FormatElapsed 169265000000000 = ''1d 23hrs''" by code_simp
  with FormatElapsed_precision [OF a] a show ?thesis by simp
qed

end
