(* ===== verification/Resources.thy ===== *)
theory Resources
  imports TextDiff
begin

text \<open>
  The notice of changed resources (\<open>internal/loop/resources.go\<close>). \<open>strconv.Quote\<close> is the parameter
  \<open>quote\<close>: which characters it escapes depends on the Unicode tables.
\<close>

definition resourceNoticeHeader :: string where
  "resourceNoticeHeader =
     ''[automated notice -- the host is watching this conversation''  @ [CHR 0x27]
     @ ''s MCP resources; this is not a message from the user]''"

definition ResourceAdded :: string where "ResourceAdded = ''added''"

record ResourceChange =
  rc_id :: string
  rc_server :: string
  rc_uri :: string
  rc_label :: string
  rc_kind :: string
  rc_summary :: string
  rc_note :: string

record ResourcePoll =
  rp_changes :: "ResourceChange list"
  rp_warnings :: "string list"
  rp_baseline :: bool

definition poll_empty :: "ResourcePoll \<Rightarrow> bool" where
  "poll_empty p \<longleftrightarrow> rp_changes p = [] \<and> rp_warnings p = []"

definition plural_n :: "nat \<Rightarrow> string \<Rightarrow> string \<Rightarrow> string" where
  "plural_n n one many = (if n = 1 then ''1 '' @ one else itoa (int n) @ '' '' @ many)"

definition resourceTitle :: "(string \<Rightarrow> string) \<Rightarrow> ResourceChange \<Rightarrow> string" where
  "resourceTitle quote c =
     (if rc_label c \<noteq> [] \<and> rc_label c \<noteq> rc_uri c then quote (rc_label c) @ '' ('' @ rc_uri c else ''('' @ rc_uri c)
     @ (if rc_server c \<noteq> [] then '', server '' @ quote (rc_server c) else [])
     @ '')''"

definition describeResourceChange :: "(string \<Rightarrow> string) \<Rightarrow> ResourceChange \<Rightarrow> bool \<Rightarrow> string" where
  "describeResourceChange quote c baseline =
     (if baseline \<and> rc_kind c = ResourceAdded then ''watching'' else rc_kind c) @ '' -- '' @ resourceTitle quote c
     @ (if rc_summary c \<noteq> [] then '' -- '' @ rc_summary c else [])
     @ (if rc_note c \<noteq> [] then [NL] @ ''  note: '' @ rc_note c else [])
     @ [NL] @ ''  change_id: '' @ rc_id c"

definition FormatResourceNotice :: "(string \<Rightarrow> string) \<Rightarrow> ResourcePoll \<Rightarrow> string \<Rightarrow> string" where
  "FormatResourceNotice quote poll diffTool =
     (let n = length (rp_changes poll) in
      resourceNoticeHeader
      @ (if n > 0
         then [NL, NL]
              @ (if rp_baseline poll
                 then plural_n n ''MCP resource is'' ''MCP resources are''
                      @ '' available on the connected servers and now being watched:''
                 else plural_n n ''MCP resource changed'' ''MCP resources changed'' @ '' since the last turn:'')
              @ concat (map (\<lambda>c. [NL, NL] @ describeResourceChange quote c (rp_baseline poll)) (rp_changes poll))
         else [])
      @ (if rp_warnings poll \<noteq> []
         then [NL, NL] @ ''The watch could not account for everything this pass:''
              @ concat (map (\<lambda>w. [NL] @ ''- '' @ w) (rp_warnings poll))
              @ [NL] @ ''Treat those resources as unknown rather than unchanged.''
         else [])
      @ (if rp_changes poll \<noteq> [] \<and> diffTool \<noteq> []
         then [NL, NL] @ ''Call '' @ diffTool @ '' with a change_id to see exactly what changed''
              @ '' (or the full contents, for a resource that was just added). Each id stays''
              @ '' resolvable for the rest of this conversation and always returns the''
              @ '' before/after captured at that moment, so fetch one when it becomes relevant''
              @ '' -- there is no need to fetch them now, and no need to fetch any you do not care about.''
         else []))"

text \<open>Every change of a poll can be looked up from the notice: its id is quoted on a line of its own.\<close>

lemma describe_ends_with_id:
  "\<exists>pre. describeResourceChange quote c baseline = pre @ [NL] @ ''  change_id: '' @ rc_id c"
proof -
  let ?pre = "(if baseline \<and> rc_kind c = ResourceAdded then ''watching'' else rc_kind c) @ '' -- '' @ resourceTitle quote c
     @ (if rc_summary c \<noteq> [] then '' -- '' @ rc_summary c else [])
     @ (if rc_note c \<noteq> [] then [NL] @ ''  note: '' @ rc_note c else [])"
  have "describeResourceChange quote c baseline = ?pre @ [NL] @ ''  change_id: '' @ rc_id c"
    unfolding describeResourceChange_def by (simp only: append_assoc)
  then show ?thesis by blast
qed

lemma sublist_concat_map: "x \<in> set xs \<Longrightarrow> sublist (f x) (concat (map f xs))"
  by (auto simp: sublist_def dest!: split_list) (metis append_assoc)

lemma sublist_inside: "sublist x y \<Longrightarrow> sublist x (a @ (b @ c @ y) @ d)"
  unfolding sublist_def by (elim exE, intro exI [of _ "a @ b @ c @ _"] exI [of _ "_ @ d"]) simp

lemma notice_names_change:
  assumes "c \<in> set (rp_changes poll)"
  shows "sublist ([NL] @ ''  change_id: '' @ rc_id c) (FormatResourceNotice quote poll diffTool)"
proof -
  let ?f = "\<lambda>c. [NL, NL] @ describeResourceChange quote c (rp_baseline poll)"
  obtain pre where pre: "describeResourceChange quote c (rp_baseline poll) = pre @ [NL] @ ''  change_id: '' @ rc_id c"
    using describe_ends_with_id by blast
  have "sublist ([NL] @ ''  change_id: '' @ rc_id c) (?f c)"
    unfolding pre sublist_def by (intro exI [of _ "[NL, NL] @ pre"] exI [of _ "[]"]) simp
  then have "sublist ([NL] @ ''  change_id: '' @ rc_id c) (concat (map ?f (rp_changes poll)))"
    using sublist_concat_map [OF assms, of ?f] by (meson sublist_order.order_trans)
  note sub = this
  have n: "0 < length (rp_changes poll)" using assms by (cases "rp_changes poll") auto
  show ?thesis
    unfolding FormatResourceNotice_def Let_def if_P [OF n] by (rule sublist_inside [OF sub])
qed

end
