(* ===== verification/SubagentRuns.thy ===== *)
theory SubagentRuns
  imports Messages "HOL-Library.AList"
begin

text \<open>
  The registry of launched sub-agents (\<open>internal/loop/subagent_runs.go\<close>). Times are nanoseconds given
  to the operation that reads the clock; \<open>quote\<close> stands for \<open>strconv.Quote\<close>. Each operation returns the
  lifecycle updates it hands to the host. The registry's mutex makes the locked part of an operation
  one step; the last section splits \<open>Complete\<close> and \<open>Collect\<close> where the lock is released.
\<close>

section \<open>The registry\<close>

datatype SubagentState = SubagentQueued | SubagentRunning | SubagentDone | SubagentFailed | SubagentAbandoned

record SubagentReport =
  rep_callID :: string
  rep_label :: string
  rep_text :: string
  rep_isError :: bool
  rep_usages :: "Usage list"
  rep_duration :: int

record subagentRun =
  sa_callID :: string
  sa_label :: string
  sa_prompt :: string
  sa_state :: SubagentState
  sa_startedAt :: int

record SubagentUpdate =
  up_callID :: string
  up_label :: string
  up_prompt :: string
  up_state :: SubagentState
  up_report :: string
  up_isError :: bool
  up_usages :: "Usage list"
  up_duration :: int

record SubagentRuns =
  sr_active :: "(string \<times> subagentRun) list"
  sr_ready :: "SubagentReport list"
  sr_signal :: bool
  sr_seq :: int

definition NewSubagentRuns :: SubagentRuns where
  "NewSubagentRuns = \<lparr>sr_active = [], sr_ready = [], sr_signal = False, sr_seq = 0\<rparr>"

definition update_of :: "string \<Rightarrow> string \<Rightarrow> SubagentState \<Rightarrow> SubagentUpdate" where
  "update_of i label st = \<lparr>up_callID = i, up_label = label, up_prompt = [], up_state = st, up_report = [],
     up_isError = False, up_usages = [], up_duration = 0\<rparr>"

definition nextID :: "SubagentRuns \<Rightarrow> string \<times> SubagentRuns" where
  "nextID r = (let n = sr_seq r + 1 in (''subagent_'' @ itoa n, r\<lparr>sr_seq := n\<rparr>))"

definition Launch :: "string \<Rightarrow> string \<Rightarrow> string \<Rightarrow> int \<Rightarrow> SubagentRuns \<Rightarrow> SubagentUpdate list \<times> SubagentRuns" where
  "Launch i label prompt now r =
     (if map_of (sr_active r) i \<noteq> None then ([], r)
      else ([(update_of i label SubagentQueued)\<lparr>up_prompt := prompt\<rparr>],
            r\<lparr>sr_active := AList.update i \<lparr>sa_callID = i, sa_label = label, sa_prompt = prompt,
               sa_state = SubagentQueued, sa_startedAt = now\<rparr> (sr_active r)\<rparr>))"

definition MarkRunning :: "string \<Rightarrow> SubagentRuns \<Rightarrow> SubagentUpdate list \<times> SubagentRuns" where
  "MarkRunning i r =
     (case map_of (sr_active r) i of
        None \<Rightarrow> ([], r)
      | Some run \<Rightarrow> ([update_of i (sa_label run) SubagentRunning],
                    r\<lparr>sr_active := AList.update i (run\<lparr>sa_state := SubagentRunning\<rparr>) (sr_active r)\<rparr>))"

text \<open>\<open>Complete\<close>: the locked part, and the poke of the one-slot signal channel that follows it.\<close>

definition complete_locked :: "string \<Rightarrow> string \<Rightarrow> bool \<Rightarrow> Usage list \<Rightarrow> int \<Rightarrow> SubagentRuns
    \<Rightarrow> (SubagentReport option) \<times> SubagentRuns" where
  "complete_locked i txt isErr usages now r =
     (case map_of (sr_active r) i of
        None \<Rightarrow> (None, r)
      | Some run \<Rightarrow>
          (let rep = \<lparr>rep_callID = i, rep_label = sa_label run, rep_text = txt, rep_isError = isErr,
                     rep_usages = usages, rep_duration = now - sa_startedAt run\<rparr>
           in (Some rep, r\<lparr>sr_active := AList.delete i (sr_active r), sr_ready := sr_ready r @ [rep]\<rparr>)))"

definition poke :: "SubagentRuns \<Rightarrow> SubagentRuns" where
  "poke r = r\<lparr>sr_signal := True\<rparr>"

definition Complete :: "string \<Rightarrow> string \<Rightarrow> bool \<Rightarrow> Usage list \<Rightarrow> int \<Rightarrow> SubagentRuns \<Rightarrow> SubagentUpdate list \<times> SubagentRuns" where
  "Complete i txt isErr usages now r =
     (case complete_locked i txt isErr usages now r of
        (None, r) \<Rightarrow> ([], r)
      | (Some rep, r) \<Rightarrow>
          ([\<lparr>up_callID = i, up_label = rep_label rep, up_prompt = [],
             up_state = (if isErr then SubagentFailed else SubagentDone), up_report = txt, up_isError = isErr,
             up_usages = usages, up_duration = rep_duration rep\<rparr>], poke r))"

definition SubPending :: "SubagentRuns option \<Rightarrow> nat" where
  "SubPending r = (case r of None \<Rightarrow> 0 | Some r \<Rightarrow> length (sr_active r) + length (sr_ready r))"

definition Running :: "SubagentRuns option \<Rightarrow> nat" where
  "Running r = (case r of None \<Rightarrow> 0 | Some r \<Rightarrow> length (sr_active r))"

definition Take :: "SubagentRuns option \<Rightarrow> SubagentReport list \<times> SubagentRuns option" where
  "Take r = (case r of None \<Rightarrow> ([], None) | Some r \<Rightarrow> (sr_ready r, Some (r\<lparr>sr_ready := []\<rparr>)))"

definition CancelRemaining :: "SubagentRuns option \<Rightarrow> (nat \<times> SubagentUpdate list) \<times> SubagentRuns option" where
  "CancelRemaining r =
     (case r of
        None \<Rightarrow> ((0, []), None)
      | Some r \<Rightarrow>
          ((length (sr_active r), map (\<lambda>(i, run). update_of (sa_callID run) (sa_label run) SubagentAbandoned) (sr_active r)),
           Some (r\<lparr>sr_active := []\<rparr>)))"

text \<open>
  One round of \<open>Collect\<close> under the lock: the reports, \<open>nothing outstanding\<close>, or go and wait.
\<close>

datatype collect_check = Collected "SubagentReport list" | NothingOut | MustWait

definition collect_locked :: "SubagentRuns \<Rightarrow> collect_check \<times> SubagentRuns" where
  "collect_locked r =
     (if sr_ready r \<noteq> [] then (Collected (sr_ready r), r\<lparr>sr_ready := []\<rparr>)
      else if sr_active r = [] then (NothingOut, r)
      else (MustWait, r))"

section \<open>The delivery text\<close>

definition SubagentDeliveryHeader :: string where
  "SubagentDeliveryHeader =
     ''[automated delivery -- this is the sub-agent notification you were promised, not a message from the user]''"

definition describeSubagent :: "(string \<Rightarrow> string) \<Rightarrow> string \<Rightarrow> string" where
  "describeSubagent quote label =
     (let label = trim_space label in if label = [] then ''(no description given)'' else quote label)"

definition delivery_entry :: "(string \<Rightarrow> string) \<Rightarrow> SubagentReport \<Rightarrow> string" where
  "delivery_entry quote rep =
     [NL, NL] @ ''Sub-agent '' @ (if rep_isError rep then ''FAILED'' else ''finished'') @ '' -- ''
     @ describeSubagent quote (rep_label rep) @ '':'' @ [NL, NL]
     @ (let txt = trim_space (rep_text rep) in if txt = [] then ''(the sub-agent returned no report)'' else txt)"

definition delivery_tail :: "nat \<Rightarrow> nat \<Rightarrow> string" where
  "delivery_tail still abandoned =
     (if abandoned = 1 then
        ''1 sub-agent was still running when this turn hit its limit and was abandoned; ''
        @ ''its work is lost. Answer with what you have, or relaunch it in your next turn.''
      else if abandoned > 1 then
        itoa (int abandoned) @ '' sub-agents were still running when this turn hit its limit ''
        @ ''and were abandoned; their work is lost. Answer with what you have, or relaunch them in your next turn.''
      else if still = 1 then
        ''1 sub-agent is still running; you will be notified when it reports. ''
        @ ''Continue with other work, or if you have nothing to do until it lands, say so briefly and stop.''
      else if still > 1 then
        itoa (int still) @ '' sub-agents are still running; you will be notified as each reports. ''
        @ ''Continue with other work, or if you have nothing to do until they land, say so briefly and stop.''
      else ''No sub-agents are still running.'')"

definition FormatSubagentDelivery :: "(string \<Rightarrow> string) \<Rightarrow> SubagentReport list \<Rightarrow> nat \<Rightarrow> nat \<Rightarrow> string" where
  "FormatSubagentDelivery quote reports still abandoned =
     SubagentDeliveryHeader @ concat (map (delivery_entry quote) reports) @ [NL, NL] @ delivery_tail still abandoned"

section \<open>No sub-agent is lost\<close>

definition registry_wf :: "SubagentRuns \<Rightarrow> bool" where
  "registry_wf r \<longleftrightarrow> distinct (map fst (sr_active r)) \<and> (\<forall>(i, run)\<in>set (sr_active r). sa_callID run = i)"

datatype sub_op =
    OpLaunch string string string int
  | OpMark string
  | OpComplete string string bool "Usage list" int
  | OpTake
  | OpCancel

text \<open>What an operation does to the registry, and the ids it launched, delivered and abandoned.\<close>

record sub_ledger =
  lg_launched :: "string list"
  lg_delivered :: "SubagentReport list"
  lg_abandoned :: "string list"

definition empty_ledger :: sub_ledger where
  "empty_ledger = \<lparr>lg_launched = [], lg_delivered = [], lg_abandoned = []\<rparr>"

fun sub_do :: "sub_op \<Rightarrow> SubagentRuns \<times> sub_ledger \<Rightarrow> SubagentRuns \<times> sub_ledger" where
  "sub_do (OpLaunch i label prompt now) (r, l) =
     (let (ups, r) = Launch i label prompt now r
      in (r, l\<lparr>lg_launched := lg_launched l @ map up_callID ups\<rparr>))"
| "sub_do (OpMark i) (r, l) = (snd (MarkRunning i r), l)"
| "sub_do (OpComplete i txt e us now) (r, l) = (snd (Complete i txt e us now r), l)"
| "sub_do OpTake (r, l) =
     (let (reps, r) = Take (Some r) in (the r, l\<lparr>lg_delivered := lg_delivered l @ reps\<rparr>))"
| "sub_do OpCancel (r, l) =
     (let ((n, ups), r) = CancelRemaining (Some r)
      in (the r, l\<lparr>lg_abandoned := lg_abandoned l @ map up_callID ups\<rparr>))"

definition sub_run :: "sub_op list \<Rightarrow> SubagentRuns \<times> sub_ledger" where
  "sub_run ops = foldl (\<lambda>s op. sub_do op s) (NewSubagentRuns, empty_ledger) ops"

definition balanced_books :: "SubagentRuns \<times> sub_ledger \<Rightarrow> bool" where
  "balanced_books s \<longleftrightarrow>
     mset (lg_launched (snd s)) =
       mset (map fst (sr_active (fst s))) + mset (map rep_callID (sr_ready (fst s)))
       + mset (map rep_callID (lg_delivered (snd s))) + mset (lg_abandoned (snd s))"

lemma keys_update_old: "map_of al k \<noteq> None \<Longrightarrow> map fst (AList.update k v al) = map fst al"
  by (induction al) auto

lemma keys_update_new: "map_of al k = None \<Longrightarrow> map fst (AList.update k v al) = map fst al @ [k]"
  by (induction al) (auto split: if_splits)

lemma keys_delete:
  "distinct (map fst al) \<Longrightarrow> map_of al k \<noteq> None \<Longrightarrow> mset (map fst al) = add_mset k (mset (map fst (AList.delete k al)))"
proof (induction al)
  case (Cons kv al)
  obtain j v where kv: "kv = (j, v)" by force
  show ?case
  proof (cases "j = k")
    case True
    with Cons.prems kv have "AList.delete k al = al" by (intro AList.delete_id) auto
    with True kv show ?thesis by simp
  next
    case False
    with Cons kv show ?thesis by simp
  qed
qed simp

lemma set_update_alist: "(j, v) \<in> set (AList.update k w al) \<Longrightarrow> (j, v) \<in> set al \<or> j = k \<and> v = w"
  by (induction al) (auto split: if_splits)

lemma sub_do_books:
  assumes "registry_wf (fst s)" "balanced_books s"
  shows "registry_wf (fst (sub_do op s)) \<and> balanced_books (sub_do op s)"
proof -
  obtain r l where s: "s = (r, l)" by force
  have wf: "distinct (map fst (sr_active r))" "\<And>i run. (i, run) \<in> set (sr_active r) \<Longrightarrow> sa_callID run = i"
    using assms(1) s by (auto simp: registry_wf_def)
  show ?thesis
  proof (cases op)
    case (OpLaunch i label prompt now)
    show ?thesis
    proof (cases "map_of (sr_active r) i = None")
      case True
      have "distinct (map fst (AList.update i v (sr_active r)))" for v using wf(1) by (simp add: distinct_update)
      with True OpLaunch s assms(2) wf(2) show ?thesis
        by (auto simp: Launch_def registry_wf_def balanced_books_def update_of_def keys_update_new dest!: set_update_alist)
    next
      case False
      with OpLaunch s assms show ?thesis by (simp add: Launch_def)
    qed
  next
    case (OpMark i)
    show ?thesis
    proof (cases "map_of (sr_active r) i")
      case None
      with OpMark s assms show ?thesis by (simp add: MarkRunning_def)
    next
      case (Some run)
      then have "sa_callID run = i" using wf(2) map_of_SomeD by fast
      moreover have "map fst (AList.update i v (sr_active r)) = map fst (sr_active r)" for v
        using Some by (intro keys_update_old) simp
      ultimately show ?thesis using Some OpMark s assms(2) wf
        by (auto simp: MarkRunning_def registry_wf_def balanced_books_def dest!: set_update_alist)
    qed
  next
    case (OpComplete i content e us now)
    show ?thesis
    proof (cases "map_of (sr_active r) i")
      case None
      with OpComplete s assms show ?thesis by (simp add: Complete_def complete_locked_def)
    next
      case (Some run)
      have "mset (map fst (sr_active r)) = add_mset i (mset (map fst (AList.delete i (sr_active r))))"
        by (rule keys_delete [OF wf(1)]) (simp add: Some)
      moreover have "registry_wf (r\<lparr>sr_active := AList.delete i (sr_active r), sr_ready := x, sr_signal := y\<rparr>)" for x y
        using wf by (auto simp: registry_wf_def distinct_delete AList.delete_eq distinct_map_filter)
      ultimately show ?thesis using Some OpComplete s assms(2)
        by (simp add: Complete_def complete_locked_def poke_def Let_def balanced_books_def)
    qed
  next
    case OpTake
    with s assms show ?thesis by (auto simp: Take_def balanced_books_def registry_wf_def)
  next
    case OpCancel
    have "map (\<lambda>x. sa_callID (snd x)) (sr_active r) = map fst (sr_active r)"
      using wf(2) by (intro map_cong) auto
    then have "image_mset fst (mset (sr_active r)) = image_mset (\<lambda>x. sa_callID (snd x)) (mset (sr_active r))"
      by (metis mset_map)
    with OpCancel s assms show ?thesis
      by (auto simp: CancelRemaining_def balanced_books_def registry_wf_def update_of_def comp_def case_prod_beta)
  qed
qed

lemma sub_run_books: "registry_wf (fst (sub_run ops)) \<and> balanced_books (sub_run ops)"
proof (induction ops rule: rev_induct)
  case Nil
  then show ?case by (simp add: sub_run_def registry_wf_def balanced_books_def NewSubagentRuns_def empty_ledger_def)
next
  case (snoc op ops)
  then show ?case using sub_do_books [of "sub_run ops" op] by (simp add: sub_run_def)
qed

text \<open>
  C12. After any history of launches, completions, deliveries and cancellations every launched sub-agent
  is in exactly one place: still out, reported and waiting, delivered, or declared lost. The number
  the loop reads as pending is the number of those not yet accounted for to the model.
\<close>

theorem subagents_conserved:
  "mset (lg_launched (snd (sub_run ops))) =
     mset (map fst (sr_active (fst (sub_run ops)))) + mset (map rep_callID (sr_ready (fst (sub_run ops))))
     + mset (map rep_callID (lg_delivered (snd (sub_run ops)))) + mset (lg_abandoned (snd (sub_run ops)))
   \<and> SubPending (Some (fst (sub_run ops)))
       = length (lg_launched (snd (sub_run ops))) - length (lg_delivered (snd (sub_run ops)))
         - length (lg_abandoned (snd (sub_run ops)))"
proof -
  have b: "mset (lg_launched (snd (sub_run ops))) =
     mset (map fst (sr_active (fst (sub_run ops)))) + mset (map rep_callID (sr_ready (fst (sub_run ops))))
     + mset (map rep_callID (lg_delivered (snd (sub_run ops)))) + mset (lg_abandoned (snd (sub_run ops)))"
    using sub_run_books by (simp add: balanced_books_def)
  from arg_cong [OF b, of size] have "length (lg_launched (snd (sub_run ops))) =
    length (sr_active (fst (sub_run ops))) + length (sr_ready (fst (sub_run ops)))
    + length (lg_delivered (snd (sub_run ops))) + length (lg_abandoned (snd (sub_run ops)))" by simp
  with b show ?thesis by (simp add: SubPending_def)
qed

section \<open>A waiting loop is woken\<close>

text \<open>
  The collector and the sub-agents as concurrent steps: \<open>Complete\<close> records its report in one step and
  pokes the signal in a later one, and \<open>Collect\<close> checks under the lock and then waits outside it. The
  same goroutine that collects is the one that takes and cancels, so those run while it is idle.
\<close>

datatype collector = Idle | Checking | Waiting | Returned "SubagentReport list"

record collect_sys =
  cs_reg :: SubagentRuns
  cs_pokes :: nat
  cs_col :: collector

inductive collect_step :: "collect_sys \<Rightarrow> collect_sys \<Rightarrow> bool" where
  st_launch: "collect_step \<sigma> (\<sigma>\<lparr>cs_reg := snd (Launch i label prompt now (cs_reg \<sigma>))\<rparr>)"
| st_mark: "collect_step \<sigma> (\<sigma>\<lparr>cs_reg := snd (MarkRunning i (cs_reg \<sigma>))\<rparr>)"
| st_complete: "complete_locked i txt e us now (cs_reg \<sigma>) = (Some rep, r) \<Longrightarrow>
    collect_step \<sigma> (\<sigma>\<lparr>cs_reg := r, cs_pokes := Suc (cs_pokes \<sigma>)\<rparr>)"
| st_poke: "cs_pokes \<sigma> = Suc n \<Longrightarrow> collect_step \<sigma> (\<sigma>\<lparr>cs_reg := poke (cs_reg \<sigma>), cs_pokes := n\<rparr>)"
| st_take: "cs_col \<sigma> = Idle \<Longrightarrow> collect_step \<sigma> (\<sigma>\<lparr>cs_reg := the (snd (Take (Some (cs_reg \<sigma>))))\<rparr>)"
| st_cancel: "cs_col \<sigma> = Idle \<Longrightarrow> collect_step \<sigma> (\<sigma>\<lparr>cs_reg := the (snd (CancelRemaining (Some (cs_reg \<sigma>))))\<rparr>)"
| st_call: "cs_col \<sigma> = Idle \<Longrightarrow> collect_step \<sigma> (\<sigma>\<lparr>cs_col := Checking\<rparr>)"
| st_got: "cs_col \<sigma> = Checking \<Longrightarrow> collect_locked (cs_reg \<sigma>) = (Collected out, r) \<Longrightarrow>
    collect_step \<sigma> (\<sigma>\<lparr>cs_reg := r, cs_col := Returned out\<rparr>)"
| st_none: "cs_col \<sigma> = Checking \<Longrightarrow> collect_locked (cs_reg \<sigma>) = (NothingOut, r) \<Longrightarrow>
    collect_step \<sigma> (\<sigma>\<lparr>cs_reg := r, cs_col := Returned []\<rparr>)"
| st_wait: "cs_col \<sigma> = Checking \<Longrightarrow> collect_locked (cs_reg \<sigma>) = (MustWait, r) \<Longrightarrow>
    collect_step \<sigma> (\<sigma>\<lparr>cs_reg := r, cs_col := Waiting\<rparr>)"
| st_wake: "cs_col \<sigma> = Waiting \<Longrightarrow> sr_signal (cs_reg \<sigma>) \<Longrightarrow>
    collect_step \<sigma> (\<sigma>\<lparr>cs_reg := (cs_reg \<sigma>)\<lparr>sr_signal := False\<rparr>, cs_col := Checking\<rparr>)"
| st_resume: "cs_col \<sigma> = Returned out \<Longrightarrow> collect_step \<sigma> (\<sigma>\<lparr>cs_col := Idle\<rparr>)"

inductive collect_reach :: "collect_sys \<Rightarrow> bool" where
  init: "collect_reach \<lparr>cs_reg = NewSubagentRuns, cs_pokes = 0, cs_col = Idle\<rparr>"
| step: "collect_reach \<sigma> \<Longrightarrow> collect_step \<sigma> \<sigma>' \<Longrightarrow> collect_reach \<sigma>'"

definition wakeable :: "collect_sys \<Rightarrow> bool" where
  "wakeable \<sigma> \<longleftrightarrow>
     (cs_col \<sigma> = Waiting \<longrightarrow>
        (sr_ready (cs_reg \<sigma>) = [] \<longrightarrow> sr_active (cs_reg \<sigma>) \<noteq> [])
        \<and> (sr_ready (cs_reg \<sigma>) \<noteq> [] \<longrightarrow> sr_signal (cs_reg \<sigma>) \<or> cs_pokes \<sigma> > 0))"

lemma update_not_Nil: "AList.update k v al \<noteq> []"
  by (cases al) auto

lemma wakeable_step: "collect_step \<sigma> \<sigma>' \<Longrightarrow> wakeable \<sigma> \<Longrightarrow> wakeable \<sigma>'"
  by (induction rule: collect_step.induct)
     (auto simp: wakeable_def Launch_def MarkRunning_def complete_locked_def poke_def collect_locked_def
        update_not_Nil Let_def split: option.splits if_splits)

lemma wakeable_reach: "collect_reach \<sigma> \<Longrightarrow> wakeable \<sigma>"
  by (induction rule: collect_reach.induct) (auto simp: wakeable_step, simp add: wakeable_def)

text \<open>
  C13. A loop that waits for its sub-agents is never stuck while one has something to say: in every
  reachable state of a waiting collector, either no report has arrived and some sub-agent is still
  out, or the signal is up and the collector can wake, or the report's own poke is about to raise it.
\<close>

theorem collect_no_lost_wakeup:
  assumes "collect_reach \<sigma>" "cs_col \<sigma> = Waiting"
  shows "(sr_ready (cs_reg \<sigma>) = [] \<and> sr_active (cs_reg \<sigma>) \<noteq> [])
    \<or> (sr_signal (cs_reg \<sigma>) \<and> collect_step \<sigma> (\<sigma>\<lparr>cs_reg := (cs_reg \<sigma>)\<lparr>sr_signal := False\<rparr>, cs_col := Checking\<rparr>))
    \<or> (\<exists>n. cs_pokes \<sigma> = Suc n \<and> collect_step \<sigma> (\<sigma>\<lparr>cs_reg := poke (cs_reg \<sigma>), cs_pokes := n\<rparr>))"
  using wakeable_reach [OF assms(1)] assms(2)
  by (auto simp: wakeable_def intro: collect_step.intros dest!: gr0_implies_Suc)

theorem collect_no_lost_wakeup_witness:
  "\<exists>\<sigma>. collect_reach \<sigma> \<and> cs_col \<sigma> = Waiting \<and> sr_active (cs_reg \<sigma>) \<noteq> []"
proof -
  let ?r = "snd (Launch ''s1'' [] [] 0 NewSubagentRuns)"
  have r: "sr_ready ?r = []" "sr_active ?r \<noteq> []" by (auto simp: Launch_def NewSubagentRuns_def)
  have "collect_reach \<lparr>cs_reg = ?r, cs_pokes = 0, cs_col = Idle\<rparr>"
    using collect_reach.step [OF collect_reach.init st_launch [of _ "''s1''" "[]" "[]" 0]] by simp
  from collect_reach.step [OF this st_call] have "collect_reach \<lparr>cs_reg = ?r, cs_pokes = 0, cs_col = Checking\<rparr>" by simp
  from collect_reach.step [OF this st_wait [of _ ?r]] have w: "collect_reach \<lparr>cs_reg = ?r, cs_pokes = 0, cs_col = Waiting\<rparr>"
    using r by (simp add: collect_locked_def)
  from collect_no_lost_wakeup [OF w] w r show ?thesis by (intro exI conjI) (rule w, simp_all)
qed

end
