(* ===== verification/Compaction.thy ===== *)
theory Compaction
  imports Tools Convert
begin

text \<open>
  Requests, and the summarizing of a transcript (\<open>internal/loop/compact.go\<close>, \<open>autocompact.go\<close>). The
  provider's \<open>Complete\<close> is a parameter over a world. Its contract is that a call without an error has a
  completion, and an error's partial completion is never read here, so its result is one or the other.
  A \<open>float64\<close> is a mantissa and a power of two.
\<close>

section \<open>Requests and fractions of the window\<close>

record f64 =
  f_mant :: int
  f_exp :: int

record Request =
  rq_model :: string
  rq_system :: string
  rq_messages :: "Message list"
  rq_tools :: "ToolDecl list"
  rq_autoCompact :: f64

text \<open>The product of a fraction and a window, rounded to 53 bits (half to even) and truncated to an \<open>int\<close>.\<close>

definition f64_times :: "f64 \<Rightarrow> int \<Rightarrow> int" where
  "f64_times f w =
     (let p = f_mant f * w; k = bit_length (nat p) - 53;
          q = (if k = 0 then p else round_half_even p (2 ^ k));
          e = f_exp f + int k
      in if e \<ge> 0 then q * 2 ^ nat e else q div 2 ^ nat (- e))"

definition f64_pos :: "f64 \<Rightarrow> bool" where "f64_pos f \<longleftrightarrow> f_mant f > 0"

definition shouldCompact :: "f64 \<Rightarrow> int \<Rightarrow> Completion option \<Rightarrow> bool" where
  "shouldCompact autoCompact window cm =
     (case cm of
        None \<Rightarrow> False
      | Some c \<Rightarrow>
          if \<not> f64_pos autoCompact \<or> window \<le> 0 then False
          else if \<not> co_reported c then False
          else u_prompt (co_usage c) \<ge> f64_times autoCompact window)"

section \<open>One summary\<close>

definition CompactRequestText :: string where
  "CompactRequestText =
     ''Summarize this entire conversation in detail for a future instance of yourself to pick up. ''
     @ ''Output only the summary.''"

record CompactResult =
  cp_summary :: string
  cp_messages :: "Message list"
  cp_completion :: Completion

type_synonym 'w completer = "Request \<Rightarrow> 'w \<Rightarrow> (go_error + Completion) \<times> 'w"

definition summary_message :: "string \<Rightarrow> Message" where
  "summary_message summary =
     (empty_message RoleUser)\<lparr>msg_kind := CompactionKind, msg_content := CompactionHandoffPrefix @ summary\<rparr>"

definition Compact :: "'w completer \<Rightarrow> Request \<Rightarrow> 'w \<Rightarrow> (go_error + CompactResult) \<times> 'w" where
  "Compact callm req w =
     (let msgs = rq_messages req @ [(empty_message RoleUser)\<lparr>msg_content := CompactRequestText\<rparr>]
      in case callm (req\<lparr>rq_tools := [], rq_messages := msgs\<rparr>) w of
           (Inl err, w) \<Rightarrow> (Inl err, w)
         | (Inr c, w) \<Rightarrow>
             (let summary = trim_space (msg_content (co_message c)) in
              if summary = []
              then (Inl (ErrorNew ''the model returned an empty summary; nothing was compacted''), w)
              else (Inr \<lparr>cp_summary = summary, cp_messages = [summary_message summary], cp_completion = c\<rparr>, w)))"

section \<open>Where a transcript is split\<close>

definition split_better :: "nat \<Rightarrow> nat \<Rightarrow> nat \<Rightarrow> bool" where
  "split_better half i best \<longleftrightarrow> best = 0 \<or> \<bar>int i - int half\<bar> < \<bar>int best - int half\<bar>"

definition splitPoint :: "Message list \<Rightarrow> nat" where
  "splitPoint msgs =
     foldl (\<lambda>best i. if msg_role (msgs ! i) \<noteq> RoleUser then best
                     else if split_better (length msgs div 2) i best then i else best)
       0 [1..<length msgs]"

text \<open>
  \<open>compactToFit\<close>, with fuel for its rounds: \<open>None\<close> when it runs out. The usages are those of the summary
  calls that succeeded, in order.
\<close>

fun compactToFit :: "nat \<Rightarrow> 'w completer \<Rightarrow> Request \<Rightarrow> Message list \<Rightarrow> Usage list \<times> 'w
    \<Rightarrow> (go_error + CompactResult) option \<times> Usage list \<times> 'w" where
  "compactToFit 0 callm req msgs s = (None, s)"
| "compactToFit (Suc n) callm req msgs s =
     (case Compact callm
             \<lparr>rq_model = rq_model req, rq_system = rq_system req, rq_messages = msgs, rq_tools = [],
              rq_autoCompact = \<lparr>f_mant = 0, f_exp = 0\<rparr>\<rparr> (snd s) of
        (Inr cr, w) \<Rightarrow> (Some (Inr cr), fst s @ [co_usage (cp_completion cr)], w)
      | (Inl err, w) \<Rightarrow>
          (let cut = splitPoint msgs in
           if \<not> IsContextOverflow (Some err) \<or> cut = 0 then (Some (Inl err), fst s, w)
           else
             (case compactToFit n callm req (take cut msgs) (fst s, w) of
                (None, s) \<Rightarrow> (None, s)
              | (Some (Inl e), s) \<Rightarrow> (Some (Inl e), s)
              | (Some (Inr older), s) \<Rightarrow> compactToFit n callm req (cp_messages older @ drop cut msgs) s)))"

section \<open>The split\<close>

definition split_step :: "(nat \<Rightarrow> bool) \<Rightarrow> nat \<Rightarrow> nat \<Rightarrow> nat \<Rightarrow> nat" where
  "split_step P h best i = (if \<not> P i then best else if split_better h i best then i else best)"

abbreviation dist :: "nat \<Rightarrow> nat \<Rightarrow> int" where "dist h i \<equiv> \<bar>int i - int h\<bar>"

lemma split_step_cases:
  assumes "0 < i"
  shows "split_step P h b i = b \<or> split_step P h b i = i \<and> P i"
    "split_step P h b i = 0 \<Longrightarrow> b = 0 \<and> \<not> P i"
    "b \<noteq> 0 \<Longrightarrow> dist h (split_step P h b i) \<le> dist h b"
    "P i \<Longrightarrow> split_step P h b i \<noteq> 0 \<and> dist h (split_step P h b i) \<le> dist h i"
  using assms by (auto simp: split_step_def split_better_def split: if_splits)

lemma split_fold:
  assumes "\<forall>i\<in>set is. 0 < i" "b = foldl (split_step P h) b0 is"
  shows "(b = b0 \<or> b \<in> set is \<and> P b) \<and> (b = 0 \<longrightarrow> b0 = 0)
      \<and> (\<forall>i\<in>set is. P i \<longrightarrow> b \<noteq> 0 \<and> dist h b \<le> dist h i)
      \<and> (b0 \<noteq> 0 \<longrightarrow> dist h b \<le> dist h b0)"
  using assms
proof (induction "is" arbitrary: b0)
  case (Cons i is')
  let ?b1 = "split_step P h b0 i"
  have i: "0 < i" using Cons.prems by simp
  have b: "b = foldl (split_step P h) ?b1 is'" using Cons.prems(2) by simp
  have IH: "b = ?b1 \<or> b \<in> set is' \<and> P b" "b = 0 \<longrightarrow> ?b1 = 0"
    "\<forall>i\<in>set is'. P i \<longrightarrow> b \<noteq> 0 \<and> dist h b \<le> dist h i" "?b1 \<noteq> 0 \<longrightarrow> dist h b \<le> dist h ?b1"
    using Cons.IH [OF _ b] Cons.prems(1) by simp_all
  note S = split_step_cases [OF i, where P = P and h = h and b = b0]
  have "b = b0 \<or> b \<in> set (i # is') \<and> P b" using IH(1) S(1) by auto
  moreover have "b = 0 \<longrightarrow> b0 = 0" using IH(2) S(2) by simp
  moreover have "P i \<longrightarrow> b \<noteq> 0 \<and> dist h b \<le> dist h i" using IH(2,4) S(4) by linarith
  moreover have "b0 \<noteq> 0 \<longrightarrow> dist h b \<le> dist h b0" using IH(4) S(2,3) by linarith
  ultimately show ?case using IH(3) by auto
qed simp

lemma splitPoint_fold:
  "splitPoint msgs = foldl (split_step (\<lambda>i. msg_role (msgs ! i) = RoleUser) (length msgs div 2)) 0 [1..<length msgs]"
  by (simp add: splitPoint_def split_step_def [abs_def])

text \<open>
  The split is at a user message, so a tool call and its result stay on one side, and no user message
  after the first is nearer to the middle. Without one there is no split.
\<close>

lemma splitPoint_spec:
  "splitPoint msgs \<noteq> 0 \<Longrightarrow> 0 < splitPoint msgs \<and> splitPoint msgs < length msgs
     \<and> msg_role (msgs ! splitPoint msgs) = RoleUser"
  "0 < i \<Longrightarrow> i < length msgs \<Longrightarrow> msg_role (msgs ! i) = RoleUser \<Longrightarrow>
     splitPoint msgs \<noteq> 0 \<and> dist (length msgs div 2) (splitPoint msgs) \<le> dist (length msgs div 2) i"
proof -
  have "\<forall>i\<in>set [1..<length msgs]. 0 < i" by auto
  note F = split_fold [OF this splitPoint_fold]
  show "splitPoint msgs \<noteq> 0 \<Longrightarrow> 0 < splitPoint msgs \<and> splitPoint msgs < length msgs
     \<and> msg_role (msgs ! splitPoint msgs) = RoleUser" using F by auto
  show "0 < i \<Longrightarrow> i < length msgs \<Longrightarrow> msg_role (msgs ! i) = RoleUser \<Longrightarrow>
     splitPoint msgs \<noteq> 0 \<and> dist (length msgs div 2) (splitPoint msgs) \<le> dist (length msgs div 2) i"
    using F by auto
qed

section \<open>When summarizing in parts ends\<close>

text \<open>The request one round of \<open>compactToFit\<close> sends.\<close>

definition part_request :: "Request \<Rightarrow> Message list \<Rightarrow> Request" where
  "part_request req msgs = \<lparr>rq_model = rq_model req, rq_system = rq_system req, rq_messages = msgs,
     rq_tools = [], rq_autoCompact = \<lparr>f_mant = 0, f_exp = 0\<rparr>\<rparr>"

definition overflows :: "'w completer \<Rightarrow> Request \<Rightarrow> Message list \<Rightarrow> 'w \<Rightarrow> bool" where
  "overflows callm req msgs w \<longleftrightarrow>
     (case fst (Compact callm (part_request req msgs) w) of Inl err \<Rightarrow> IsContextOverflow (Some err) | Inr _ \<Rightarrow> False)"

lemma Compact_messages: "fst (Compact callm req w) = Inr cr \<Longrightarrow> cp_messages cr = [summary_message (cp_summary cr)] \<and> cp_summary cr \<noteq> []"
  by (auto simp: Compact_def Let_def split: prod.splits sum.splits if_splits)

lemma compactToFit_messages:
  "fst (compactToFit n callm req msgs s) = Some (Inr cr) \<Longrightarrow>
     cp_messages cr = [summary_message (cp_summary cr)] \<and> cp_summary cr \<noteq> []"
proof (induction n callm req msgs s rule: compactToFit.induct)
  case (2 n callm req msgs s)
  let ?C = "Compact callm \<lparr>rq_model = rq_model req, rq_system = rq_system req, rq_messages = msgs, rq_tools = [],
              rq_autoCompact = \<lparr>f_mant = 0, f_exp = 0\<rparr>\<rparr> (snd s)"
  obtain r w where C: "?C = (r, w)" by force
  show ?case
  proof (cases r)
    case (Inr cr')
    with C "2.prems" have "cr' = cr" by simp
    with C Inr have "fst ?C = Inr cr" by simp
    from Compact_messages [OF this] show ?thesis .
  next
    case (Inl err)
    show ?thesis
    proof (cases "\<not> IsContextOverflow (Some err) \<or> splitPoint msgs = 0")
      case True
      with C Inl "2.prems" show ?thesis by (auto simp: Let_def)
    next
      case go: False
      obtain r1 s1 where r1: "compactToFit n callm req (take (splitPoint msgs) msgs) (fst s, w) = (r1, s1)"
        by (metis surj_pair)
      show ?thesis
      proof (cases r1)
        case None
        with C Inl go r1 "2.prems" show ?thesis by (auto simp: Let_def)
      next
        case (Some r2)
        show ?thesis
        proof (cases r2)
          case (Inl e)
          with C \<open>r = Inl err\<close> go r1 Some "2.prems" show ?thesis by (auto simp: Let_def)
        next
          case (Inr older)
          with C \<open>r = Inl err\<close> go r1 Some "2.prems" have
            "fst (compactToFit n callm req (cp_messages older @ drop (splitPoint msgs) msgs) s1) = Some (Inr cr)"
            by (auto simp: Let_def)
          with "2.IH"(2) [OF C [symmetric] \<open>r = Inl err\<close> refl go r1 [symmetric] Some Inr] show ?thesis by (cases s1) auto
        qed
      qed
    qed
  qed
qed simp

text \<open>
  C20. Summarizing in parts ends, within as many rounds as the transcript has messages, for a provider that
  never refuses as too long a transcript whose split point is right after its first message, wherever else
  it could be split: each round then replaces at least two messages by one summary. What it returns is one
  user message that hands the summary over. Without that condition it can go on for ever
  (\<open>compactToFit_diverges\<close>).
\<close>

theorem compactToFit_ends:
  assumes "\<And>msgs w. overflows callm req msgs w \<Longrightarrow> splitPoint msgs \<noteq> 1"
    and "length msgs \<le> n"
  shows "\<exists>r. fst (compactToFit (Suc n) callm req msgs s) = Some r
    \<and> (\<forall>cr. r = Inr cr \<longrightarrow> cp_messages cr = [summary_message (cp_summary cr)] \<and> cp_summary cr \<noteq> [])"
proof -
  have "fst (compactToFit (Suc n) callm req msgs s) \<noteq> None"
    using assms(2)
  proof (induction n arbitrary: msgs s)
    case 0
    then show ?case by (auto simp: splitPoint_def split: prod.splits sum.splits)
  next
    case (Suc n)
    obtain r w where C: "Compact callm (part_request req msgs) (snd s) = (r, w)" by force
    let ?cut = "splitPoint msgs"
    show ?case
    proof (cases "\<exists>err. r = Inl err \<and> IsContextOverflow (Some err) \<and> ?cut \<noteq> 0")
      case False
      with C show ?thesis by (subst compactToFit.simps) (auto simp: part_request_def Let_def split: sum.splits)
    next
      case True
      then obtain err where err: "r = Inl err" "IsContextOverflow (Some err)" "?cut \<noteq> 0" by blast
      with C have "overflows callm req msgs (snd s)" by (simp add: overflows_def)
      with assms(1) err(3) have cut: "2 \<le> ?cut" by fastforce
      have lt: "?cut < length msgs" using splitPoint_spec(1) [OF err(3)] by simp
      obtain r1 s1 where r1: "compactToFit (Suc n) callm req (take ?cut msgs) (fst s, w) = (r1, s1)"
        by (metis surj_pair)
      have "length (take ?cut msgs) \<le> n" using lt Suc.prems by simp
      from Suc.IH [OF this, of "(fst s, w)"] r1 obtain r2 where r2: "r1 = Some r2" by auto
      have unf: "compactToFit (Suc (Suc n)) callm req msgs s = (case r2 of
          Inl e \<Rightarrow> (Some (Inl e), s1)
        | Inr older \<Rightarrow> compactToFit (Suc n) callm req (cp_messages older @ drop ?cut msgs) s1)"
        using C err r1 r2 by (subst compactToFit.simps) (simp add: part_request_def Let_def split: sum.splits)
      show ?thesis
      proof (cases r2)
        case (Inl e)
        with unf show ?thesis by simp
      next
        case (Inr older)
        from compactToFit_messages [of "Suc n" callm req "take ?cut msgs" "(fst s, w)" older] r1 r2 Inr
        have "cp_messages older = [summary_message (cp_summary older)]" by simp
        then have "length (cp_messages older @ drop ?cut msgs) \<le> n" using cut lt Suc.prems by simp
        from Suc.IH [OF this] unf Inr show ?thesis by simp
      qed
    qed
  qed
  then obtain r where r: "fst (compactToFit (Suc n) callm req msgs s) = Some r" by blast
  with compactToFit_messages [of "Suc n" callm req msgs s] show ?thesis by auto
qed

text \<open>A provider that rejects one transcript of two exchanges and summarizes anything else.\<close>

definition user_msg :: "string \<Rightarrow> Message" where
  "user_msg t = (empty_message RoleUser)\<lparr>msg_content := t\<rparr>"

definition answer_msg :: "string \<Rightarrow> Message" where
  "answer_msg t = (empty_message RoleAssistant)\<lparr>msg_content := t\<rparr>"

definition summary_completion :: Completion where
  "summary_completion = \<lparr>co_message = answer_msg ''sum'', co_usage = zero_usage, co_reported = False, co_rawUsage = [],
     co_reasoning = None, co_cost = None, co_streamed = True, co_stop = [], co_model = [], co_routed = []\<rparr>"

definition two_exchanges :: "Message list" where
  "two_exchanges = [user_msg ''a'', answer_msg ''b'', user_msg ''c'', answer_msg ''d'']"

definition rejects :: "(Message list \<Rightarrow> bool) \<Rightarrow> unit completer" where
  "rejects P req w =
     (if P (butlast (rq_messages req)) then Inl (APIError 400 [] True) else Inr summary_completion, w)"

lemma rejects_overflows: "overflows (rejects P) req msgs w \<longleftrightarrow> P msgs"
proof -
  have "trim_space ''sum'' = ''sum''" by code_simp
  then show ?thesis
    by (simp add: overflows_def Compact_def rejects_def part_request_def summary_completion_def answer_msg_def
        IsContextOverflow_def error_as_def Let_def)
qed

definition bare_request :: Request where
  "bare_request = \<lparr>rq_model = [], rq_system = [], rq_messages = [], rq_tools = [],
     rq_autoCompact = \<lparr>f_mant = 0, f_exp = 0\<rparr>\<rparr>"

theorem compactToFit_ends_witness:
  "\<exists>r. fst (compactToFit 5 (rejects (\<lambda>ms. ms = two_exchanges)) bare_request two_exchanges ([], ())) = Some r
    \<and> splitPoint two_exchanges = 2"
proof -
  have sp: "splitPoint two_exchanges = 2"
    by (simp add: splitPoint_def two_exchanges_def user_msg_def answer_msg_def empty_message_def split_better_def upt_rec)
  have a: "overflows (rejects (\<lambda>ms. ms = two_exchanges)) bare_request msgs w \<Longrightarrow> splitPoint msgs \<noteq> 1" for msgs w
    using sp by (simp add: rejects_overflows)
  have b: "length two_exchanges \<le> 4" by (simp add: two_exchanges_def)
  have "\<exists>r. fst (compactToFit (Suc 4) (rejects (\<lambda>ms. ms = two_exchanges)) bare_request two_exchanges ([], ())) = Some r
    \<and> (\<forall>cr. r = Inr cr \<longrightarrow> cp_messages cr = [summary_message (cp_summary cr)] \<and> cp_summary cr \<noteq> [])"
    by (rule compactToFit_ends [OF a b])
  then obtain r where "fst (compactToFit (Suc 4) (rejects (\<lambda>ms. ms = two_exchanges)) bare_request two_exchanges ([], ())) = Some r"
    by blast
  moreover have "Suc 4 = (5::nat)" by simp
  ultimately show ?thesis using sp by (simp only:) blast
qed

text \<open>
  When one user turn alone is too large for a summary call, summarizing in parts never ends: the round
  that summarizes what precedes the turn puts one message in place of one message, so the next round
  is the same again, with another summary call each time, whatever the fuel.
\<close>

theorem compactToFit_diverges:
  assumes "msg_role u = RoleUser" "\<forall>m\<in>set rest. msg_role m \<noteq> RoleUser"
    and "\<And>a w. overflows callm req (a # u # rest) w"
    and "\<And>a w. is_Inr (fst (Compact callm (part_request req [a]) w))"
  shows "fst (compactToFit n callm req (a # u # rest) s) = None"
proof (induction n arbitrary: a s)
  case (Suc n)
  let ?msgs = "a # u # rest"
  obtain r w where C: "Compact callm (part_request req ?msgs) (snd s) = (r, w)" by (metis surj_pair)
  with assms(3) [of a "snd s"] obtain err where err: "r = Inl err" "IsContextOverflow (Some err)"
    by (auto simp: overflows_def split: sum.splits)
  have one: "splitPoint ?msgs \<noteq> 0" using splitPoint_spec(2) [of 1 ?msgs] assms(1) by simp
  have "splitPoint ?msgs = 1"
  proof (rule ccontr)
    assume "splitPoint ?msgs \<noteq> 1"
    then obtain i where i: "splitPoint ?msgs = Suc (Suc i)"
      using one by (metis One_nat_def not0_implies_Suc)
    have "splitPoint ?msgs < length ?msgs" using splitPoint_spec(1) [OF one] by simp
    then have i: "splitPoint ?msgs = Suc (Suc i)" "i < length rest" using i by simp_all
    with splitPoint_spec(1) [OF one] have "msg_role (rest ! i) = RoleUser" by simp
    with i(2) assms(2) show False by auto
  qed
  with C err have unf: "compactToFit (Suc n) callm req ?msgs s =
    (case compactToFit n callm req [a] (fst s, w) of
        (None, s) \<Rightarrow> (None, s)
      | (Some (Inl e), s) \<Rightarrow> (Some (Inl e), s)
      | (Some (Inr older), s) \<Rightarrow> compactToFit n callm req (cp_messages older @ u # rest) s)"
    by (subst compactToFit.simps) (simp add: part_request_def Let_def split: prod.splits option.splits sum.splits)
  show ?case
  proof (cases n)
    case 0
    with unf show ?thesis by simp
  next
    case (Suc m)
    obtain r2 w2 where C2: "Compact callm (part_request req [a]) w = (r2, w2)" by (metis surj_pair)
    with assms(4) [of a w] obtain cr where cr: "r2 = Inr cr" by (cases r2) auto
    with C2 Compact_messages [of callm "part_request req [a]" w cr] have m: "cp_messages cr = [summary_message (cp_summary cr)]"
      by simp
    obtain s2 where "compactToFit n callm req [a] (fst s, w) = (Some (Inr cr), s2)"
      using C2 cr Suc by (simp add: part_request_def)
    with unf m Suc.IH [of "summary_message (cp_summary cr)" s2] show ?thesis by simp
  qed
qed simp

theorem compactToFit_diverges_witness:
  "fst (compactToFit 100 (rejects (\<lambda>ms. 1 < length ms)) bare_request [user_msg ''a'', user_msg ''b'', answer_msg ''huge''] ([], ())) = None"
proof -
  have t: "trim_space ''sum'' = ''sum''" by code_simp
  have i: "is_Inr (fst (Compact (rejects (\<lambda>ms. Suc 0 < length ms)) (part_request bare_request [a]) w))" for a w
    using t by (simp add: Compact_def rejects_def part_request_def summary_completion_def answer_msg_def Let_def)
  show ?thesis
    by (rule compactToFit_diverges)
       (simp_all add: rejects_overflows i, simp_all add: user_msg_def answer_msg_def empty_message_def)
qed

end
