(* ===== verification/ContextWindow.thy ===== *)
theory ContextWindow
  imports Compaction
begin

text \<open>
  The run's context window (\<open>internal/loop/contextwindow.go\<close>): which setting wins, when the served
  model's name is asked about again, and the estimate that keeps the next request inside the window.
  \<open>limits\<close> is the provider's model list; \<open>quote\<close> stands for the \<open>%q\<close> verb.
\<close>

section \<open>Settings\<close>

definition ErrContextWindowConfig :: go_error where
  "ErrContextWindowConfig = ErrorNew ''agentic: context window settings''"

definition errNoWindowList :: go_error where
  "errNoWindowList = ErrorNew ''agentic: the provider has no model list to read a context window from''"

definition ErrContextWindowExceeded :: go_error where
  "ErrContextWindowExceeded = ErrorNew ''agentic: the next request exceeds the context window''"

definition checkWindowConfig :: "int \<Rightarrow> int \<Rightarrow> go_error option" where
  "checkWindowConfig fallback override =
     (if fallback < 0 \<or> override < 0 then
        Some (Annotated ErrContextWindowConfig
          '': ContextWindowFallback and ContextWindowOverride must not be negative'')
      else if fallback > 0 \<and> override > 0 then
        Some (Annotated ErrContextWindowConfig
          ('': ContextWindowFallback and ContextWindowOverride are both set. The fallback is ''
           @ ''for a server that reports no window. The override caps a window the server reports. Set one''))
      else None)"

text \<open>What the model list says: the window it publishes, and \<open>None\<close> when the provider has no list.\<close>

type_synonym 'w limits = "string \<Rightarrow> 'w \<Rightarrow> (go_error + int) option \<times> 'w"

definition reportedWindow :: "(string \<Rightarrow> string) \<Rightarrow> 'w limits \<Rightarrow> string \<Rightarrow> 'w \<Rightarrow> (int \<times> go_error option) \<times> 'w" where
  "reportedWindow quote limits model w =
     (case limits model w of
        (None, w) \<Rightarrow> ((0, Some errNoWindowList), w)
      | (Some (Inl err), w) \<Rightarrow>
          ((0, Some (Wrapped (''agentic: reading the context window for '' @ quote model @ '': '') err)), w)
      | (Some (Inr window), w) \<Rightarrow>
          if window \<le> 0
          then ((0, Some (ErrorNew (''agentic: the model list publishes no context window for '' @ quote model))), w)
          else ((window, None), w))"

record ContextWindowEvent =
  we_window :: int
  we_reported :: int
  we_fromModelList :: bool
  we_fromFallback :: bool
  we_overridden :: bool
  we_warning :: string
  we_served :: string
  we_err :: "go_error option"

definition window_event :: "int \<Rightarrow> string \<Rightarrow> ContextWindowEvent" where
  "window_event reported served = \<lparr>we_window = 0, we_reported = reported, we_fromModelList = False,
     we_fromFallback = False, we_overridden = False, we_warning = [], we_served = served, we_err = None\<rparr>"

definition windowModel :: "string \<Rightarrow> string" where
  "windowModel served = (if served = [] then ''the requested model'' else served)"

definition opt_text :: "go_error option \<Rightarrow> string" where
  "opt_text e = (case e of None \<Rightarrow> ''<nil>'' | Some e \<Rightarrow> error_text e)"

text \<open>\<open>applyWindow\<close>: the refusal, or the event; the run's window and whether the server reported one are the event's.\<close>

definition applyWindow :: "(string \<Rightarrow> string) \<Rightarrow> int \<Rightarrow> int \<Rightarrow> int \<Rightarrow> go_error option \<Rightarrow> string
    \<Rightarrow> go_error + ContextWindowEvent" where
  "applyWindow quote fallback override reported reportErr served =
     (let ev = window_event reported served in
      if reported > 0 \<and> override > reported then
        Inl (Annotated ErrContextWindowConfig
          ('': ContextWindowOverride is '' @ itoa override @ '', larger than the '' @ itoa reported
           @ '' tokens the server reports for '' @ quote (windowModel served)))
      else if reported > 0 \<and> override > 0 then Inr (ev\<lparr>we_window := override, we_overridden := True\<rparr>)
      else if reported > 0 then Inr (ev\<lparr>we_window := reported, we_fromModelList := True\<rparr>)
      else if override > 0 then
        Inr (ev\<lparr>we_window := override, we_overridden := True,
          we_warning := ''the server reports no context window ('' @ opt_text reportErr
            @ ''), so ContextWindowOverride is used as the window and nothing checks it''\<rparr>)
      else if fallback > 0 then
        Inr (ev\<lparr>we_window := fallback, we_fromFallback := True,
          we_warning := ''the server reports no context window ('' @ opt_text reportErr
            @ ''), so ContextWindowFallback is used''\<rparr>)
      else Inr (ev\<lparr>we_err := reportErr\<rparr>))"

definition wantsWindow :: "int \<Rightarrow> int \<Rightarrow> f64 \<Rightarrow> bool" where
  "wantsWindow fallback override autoCompact \<longleftrightarrow> f64_pos autoCompact \<or> override > 0 \<or> fallback > 0"

section \<open>The served model's name\<close>

definition servedNames :: "string \<Rightarrow> Completion \<Rightarrow> string list" where
  "servedNames requested c =
     foldl (\<lambda>names name. if name \<noteq> [] \<and> name \<noteq> requested \<and> name \<notin> set names then names @ [name] else names)
       [] [co_routed c, co_model c]"

datatype served_answer = ServedWindow int string | NoList | NoneServed "go_error list"

fun ask_served :: "(string \<Rightarrow> string) \<Rightarrow> 'w limits \<Rightarrow> string list \<Rightarrow> go_error list \<Rightarrow> 'w \<Rightarrow> served_answer \<times> 'w" where
  "ask_served quote limits [] errs w = (NoneServed errs, w)"
| "ask_served quote limits (served # names) errs w =
     (let ((reported, err), w) = reportedWindow quote limits served w in
      if reported > 0 then (ServedWindow reported served, w)
      else if (case err of Some e \<Rightarrow> error_is e errNoWindowList | None \<Rightarrow> False) then (NoList, w)
      else ask_served quote limits names (errs @ (case err of None \<Rightarrow> [] | Some e \<Rightarrow> [e])) w)"

section \<open>The next request\<close>

definition outputChars :: "Message \<Rightarrow> int" where
  "outputChars m =
     int (length (msg_content m)) + sum_list (map (\<lambda>tb. int (length (tb_text tb))) (msg_thinking m))
     + sum_list (map (\<lambda>tc. int (length (tc_args tc))) (msg_calls m))"

definition estimateCharsPerToken :: int where "estimateCharsPerToken = 3"

definition nextPromptEstimate :: "Completion option \<Rightarrow> Message list \<Rightarrow> int" where
  "nextPromptEstimate lst appended =
     (case lst of
        None \<Rightarrow> 0
      | Some c \<Rightarrow>
          if \<not> co_reported c then 0
          else u_prompt (co_usage c) + sum_list (map outputChars appended) div estimateCharsPerToken)"

text \<open>\<open>capToWindow\<close> before it acts: \<open>None\<close> when the request fits, else the estimate.\<close>

definition over_window :: "int \<Rightarrow> Completion option \<Rightarrow> nat \<Rightarrow> Message list \<Rightarrow> int option" where
  "over_window window lst sent transcript =
     (if window \<le> 0 \<or> sent > length transcript then None
      else (let est = nextPromptEstimate lst (drop sent transcript) in
            if est < window then None else Some est))"

definition window_exceeded :: "int \<Rightarrow> int \<Rightarrow> go_error" where
  "window_exceeded est window =
     Annotated ErrContextWindowExceeded
       ('': the next request is about '' @ itoa est @ '' tokens, and the window is '' @ itoa window)"

section \<open>Which window wins\<close>

lemma outputChars_nonneg: "0 \<le> outputChars m"
  by (auto simp: outputChars_def intro!: add_nonneg_nonneg sum_list_nonneg)

lemma reportedWindow_reason:
  "reportedWindow quote limits model w = ((reported, err), w') \<Longrightarrow> (reported > 0 \<longleftrightarrow> err = None) \<and> reported \<ge> 0"
  by (auto simp: reportedWindow_def split: prod.splits option.splits sum.splits if_splits)

text \<open>
  With settings that pass the check, and an error exactly when no window is reported, the run's window
  is the reported one, lowered by an override and never raised; a setting stands in only where nothing
  was reported; a window is absent exactly when the event says why; and the only refusal is an
  override above a reported window.
\<close>

theorem applyWindow_policy:
  assumes "checkWindowConfig fallback override = None" "reportErr = None \<longleftrightarrow> reported > 0"
  shows "case applyWindow quote fallback override reported reportErr served of
      Inl err \<Rightarrow> 0 < reported \<and> reported < override \<and> error_is err ErrContextWindowConfig
    | Inr ev \<Rightarrow> (0 < reported \<longrightarrow> 0 < we_window ev \<and> we_window ev \<le> reported
                   \<and> we_window ev = (if 0 < override then override else reported))
        \<and> (reported \<le> 0 \<longrightarrow> we_window ev = max fallback override \<and> (we_window ev \<noteq> 0 \<longrightarrow> we_warning ev \<noteq> []))
        \<and> (we_window ev = 0 \<longleftrightarrow> we_err ev \<noteq> None)
        \<and> (we_fromFallback ev \<longrightarrow> reported \<le> 0)"
proof -
  have "0 \<le> fallback" "0 \<le> override" "fallback = 0 \<or> override = 0"
    using assms(1) by (auto simp: checkWindowConfig_def split: if_splits)
  with assms(2) show ?thesis
    by (auto simp: applyWindow_def window_event_def Let_def error_is_def max_def)
qed

theorem applyWindow_policy_witness:
  "checkWindowConfig 0 1000 = None
   \<and> (case applyWindow id 0 1000 4096 None ''m'' of Inl _ \<Rightarrow> False | Inr ev \<Rightarrow> we_window ev = 1000)"
proof -
  have c: "checkWindowConfig 0 1000 = None" by (simp add: checkWindowConfig_def)
  have e: "(None :: go_error option) = None \<longleftrightarrow> (4096::int) > 0" by simp
  from applyWindow_policy [OF c e, of id "''m''"] c show ?thesis
    by (simp split: sum.splits)
qed

lemma over_window_fits:
  "over_window window lst sent transcript = None \<Longrightarrow> 0 < window \<Longrightarrow> sent \<le> length transcript \<Longrightarrow>
   nextPromptEstimate lst (drop sent transcript) < window"
  by (auto simp: over_window_def Let_def split: if_splits)

end
