(* ===== verification/StateCheck.thy ===== *)
theory StateCheck
  imports SessionProps ContextWindow "HOL-Library.AList" "HOL-Library.List_Lexorder" "HOL-Library.Char_ord"
begin

text \<open>
  The checks that a turn's output is not lost (\<open>internal/loop/statecheck.go\<close>, \<open>session_statecheck.go\<close>):
  one call against the call before it, and the tree against what it held a turn ago. The truncated
  SHA-256 is the parameter \<open>hashValue\<close>, \<open>strconv.Quote\<close> is \<open>quote\<close>; the providers of a run are numbered.
\<close>

section \<open>One call against the call before it\<close>

datatype Severity = SeverityNotice | SeverityChronic

record StateLossEvent =
  sl_turn :: nat
  sl_local :: bool
  sl_promptTokens :: int
  sl_minPromptTokens :: int
  sl_detail :: string
  sl_severity :: Severity

record stateCheck =
  st_prev :: "Completion option"
  st_sentLen :: nat

definition no_check :: stateCheck where
  "no_check = \<lparr>st_prev = None, st_sentLen = 0\<rparr>"

definition stateCharsPerToken :: int where "stateCharsPerToken = 6"
definition stateMinMissing :: int where "stateMinMissing = 128"

definition local_loss :: "nat \<Rightarrow> string \<Rightarrow> StateLossEvent" where
  "local_loss turn detail = \<lparr>sl_turn = turn, sl_local = True, sl_promptTokens = 0, sl_minPromptTokens = 0,
     sl_detail = detail, sl_severity = SeverityNotice\<rparr>"

definition reasoningLen :: "Message \<Rightarrow> int" where
  "reasoningLen m =
     sum_list (map (\<lambda>tb. int (length (tb_text tb)) + int (length (tb_signature tb)) + int (length (tb_redacted tb)))
       (msg_thinking m))"

definition lostLocally :: "Message \<Rightarrow> Message \<Rightarrow> string" where
  "lostLocally got recorded =
     (if reasoningLen recorded < reasoningLen got then
        ''the transcript kept '' @ itoa (reasoningLen recorded) @ '' of the '' @ itoa (reasoningLen got)
          @ '' reasoning characters the model produced''
      else if length (msg_content recorded) < length (msg_content got) then
        ''the transcript kept '' @ itoa (int (length (msg_content recorded))) @ '' of the ''
          @ itoa (int (length (msg_content got))) @ '' text characters the model produced''
      else [])"

definition token_floor :: "Completion \<Rightarrow> Message \<Rightarrow> Message list \<Rightarrow> int" where
  "token_floor prev recorded tools =
     u_prompt (co_usage prev)
     + min (u_completion (co_usage prev)) (outputChars recorded div stateCharsPerToken)
     + int (sum_list (map (\<lambda>m. length (msg_content m)) tools)) div stateCharsPerToken"

definition undercount_text :: "int \<Rightarrow> int \<Rightarrow> int \<Rightarrow> string" where
  "undercount_text counted before floor_tokens =
     ''the endpoint counted '' @ itoa counted @ '' prompt tokens, but the previous call's '' @ itoa before
     @ '' plus its output and tool results is at least '' @ itoa floor_tokens @ '': about ''
     @ itoa (floor_tokens - counted) @ '' tokens of the transcript did not reach the model''"

definition observe :: "nat \<Rightarrow> Message list \<Rightarrow> Completion option \<Rightarrow> stateCheck \<Rightarrow> StateLossEvent option \<times> stateCheck" where
  "observe turn msgs cm s =
     ((case st_prev s of
         None \<Rightarrow> None
       | Some prev \<Rightarrow>
           if length msgs \<le> st_sentLen s then None
           else
             (let recorded = msgs ! st_sentLen s; tools = drop (Suc (st_sentLen s)) msgs in
              if msg_role recorded \<noteq> RoleAssistant then None
              else if \<not> list_all (\<lambda>m. msg_role m = RoleTool) tools then None
              else if lostLocally (co_message prev) recorded \<noteq> []
              then Some (local_loss turn (lostLocally (co_message prev) recorded))
              else
                (case cm of
                   None \<Rightarrow> None
                 | Some c \<Rightarrow>
                     if \<not> co_reported c \<or> \<not> co_reported prev \<or> u_prompt (co_usage prev) = 0 then None
                     else
                       (let floor_tokens = token_floor prev recorded tools;
                            counted = u_prompt (co_usage c) in
                        if floor_tokens - counted < stateMinMissing then None
                        else Some \<lparr>sl_turn = turn, sl_local = False, sl_promptTokens = counted,
                               sl_minPromptTokens = floor_tokens,
                               sl_detail = undercount_text counted (u_prompt (co_usage prev)) floor_tokens,
                               sl_severity = SeverityNotice\<rparr>)))),
      \<lparr>st_prev = (case cm of None \<Rightarrow> None | Some c \<Rightarrow> if msg_calls (co_message c) \<noteq> [] then Some c else None),
       st_sentLen = length msgs\<rparr>)"

section \<open>The tree against what it held\<close>

definition put :: "(string \<Rightarrow> string) \<Rightarrow> (string \<Rightarrow> string) \<Rightarrow> string \<Rightarrow> string \<times> string \<Rightarrow> contentIndex \<Rightarrow> contentIndex" where
  "put hashValue quote i fv idx =
     (if snd fv = [] then idx
      else AList.update (i @ ''/'' @ fst fv @ ''/'' @ hashValue (snd fv)) (fst fv @ '' '' @ quote i) idx)"

text \<open>The values of a node, each with its field's name; only the first stream field of a node exists.\<close>

definition node_values :: "node_body \<Rightarrow> (string \<times> string) list" where
  "node_values b =
     (case stream_field b of None \<Rightarrow> [] | Some f \<Rightarrow> map (\<lambda>r. (''field0'', rev_value r)) (Revisions f))
     @ (case b of
          ThinkingNode _ t \<Rightarrow>
            [(''signature'', case th_signature t of None \<Rightarrow> [] | Some w \<Rightarrow> w),
             (''encrypted'', case th_encrypted t of None \<Rightarrow> [] | Some w \<Rightarrow> w),
             (''redacted'', case th_redacted t of None \<Rightarrow> [] | Some w \<Rightarrow> w),
             (''details'', th_details t)]
        | _ \<Rightarrow> [])"

definition indexNodes :: "(string \<Rightarrow> string) \<Rightarrow> (string \<Rightarrow> string) \<Rightarrow> node list \<Rightarrow> contentIndex" where
  "indexNodes hashValue quote nodes =
     foldl (\<lambda>idx n. foldl (\<lambda>idx fv. put hashValue quote (n_id n) fv idx) idx (node_values (n_body n))) [] nodes"

definition missing :: "contentIndex \<Rightarrow> contentIndex \<Rightarrow> string list" where
  "missing before after = sort (map snd (filter (\<lambda>kv. map_of after (fst kv) = None) before))"

definition lost_text :: "string list \<Rightarrow> string" where
  "lost_text lost =
     ''the conversation no longer holds '' @ itoa (int (length lost)) @ '' value(s) it held before this turn: [''
     @ join_with '' '' lost @ '']''"

definition checkMonotonic :: "(string \<Rightarrow> string) \<Rightarrow> (string \<Rightarrow> string) \<Rightarrow> nat \<Rightarrow> session \<Rightarrow> StateLossEvent option \<times> session" where
  "checkMonotonic hashValue quote turn s =
     (let after = indexNodes hashValue quote (map (s_node s) (Nodes (s_tree s)));
          s' = s\<lparr>s_index := Some after\<rparr>
      in case s_index s of
           None \<Rightarrow> (None, s')
         | Some before \<Rightarrow>
             (let lost = missing before after in
              if lost = [] then (None, s') else (Some (local_loss turn (lost_text lost)), s')))"

section \<open>Chronic losses\<close>

record lossTracker =
  lt_lastTurn :: nat
  lt_provider :: "nat option"

definition no_losses :: lossTracker where
  "no_losses = \<lparr>lt_lastTurn = 0, lt_provider = None\<rparr>"

definition chronic_text :: string where
  "chronic_text = ''. This repeats on every turn: the endpoint drops conversation state, so each ''
     @ ''further call pays for context the model never sees. Stop using it, or report it: the bug can be in this library''"

definition record_loss :: "StateLossEvent \<Rightarrow> nat \<Rightarrow> lossTracker \<Rightarrow> StateLossEvent \<times> lossTracker" where
  "record_loss loss p l =
     (let chronic = lt_lastTurn l > 0 \<and> int (sl_turn loss) - int (lt_lastTurn l) \<le> 1 \<and> lt_provider l = Some p;
          loss = (if chronic
                  then loss\<lparr>sl_severity := SeverityChronic, sl_detail := sl_detail loss @ chronic_text\<rparr>
                  else loss\<lparr>sl_severity := SeverityNotice\<rparr>)
      in (loss, l\<lparr>lt_lastTurn := sl_turn loss, lt_provider := Some p\<rparr>))"

section \<open>What the tree check sees\<close>

definition value_key :: "(string \<Rightarrow> string) \<Rightarrow> string \<Rightarrow> string \<times> string \<Rightarrow> string" where
  "value_key hashValue i fv = i @ ''/'' @ fst fv @ ''/'' @ hashValue (snd fv)"

definition held_keys :: "(string \<Rightarrow> string) \<Rightarrow> node list \<Rightarrow> string set" where
  "held_keys hashValue nodes =
     (\<Union>n\<in>set nodes. value_key hashValue (n_id n) ` {fv \<in> set (node_values (n_body n)). snd fv \<noteq> []})"

lemma put_keys: "fst ` set (put hashValue quote i fv idx)
    = fst ` set idx \<union> (if snd fv = [] then {} else {value_key hashValue i fv})"
  by (simp add: put_def value_key_def AList.update_conv' flip: dom_map_of_conv_image_fst)

lemma node_keys: "fst ` set (foldl (\<lambda>idx fv. put hashValue quote i fv idx) idx fvs)
    = fst ` set idx \<union> value_key hashValue i ` {fv \<in> set fvs. snd fv \<noteq> []}"
proof (induction fvs arbitrary: idx)
  case (Cons fv fvs)
  have "{x. (x = fv \<or> x \<in> set fvs) \<and> snd x \<noteq> []}
      = {x \<in> set fvs. snd x \<noteq> []} \<union> (if snd fv = [] then {} else {fv})" by auto
  then show ?case by (simp add: put_keys Cons.IH image_Un)
qed simp

lemma indexNodes_keys: "fst ` set (indexNodes hashValue quote nodes) = held_keys hashValue nodes"
proof -
  have "fst ` set (foldl (\<lambda>idx n. foldl (\<lambda>idx fv. put hashValue quote (n_id n) fv idx) idx (node_values (n_body n))) idx nodes)
      = fst ` set idx \<union> held_keys hashValue nodes" for idx
  proof (induction nodes arbitrary: idx)
    case Nil
    then show ?case by (simp add: held_keys_def)
  next
    case (Cons n nodes)
    then show ?case by (simp add: node_keys held_keys_def Un_assoc)
  qed
  then show ?thesis by (simp add: indexNodes_def)
qed

lemma missing_none: "missing before after = [] \<longleftrightarrow> fst ` set before \<subseteq> fst ` set after"
proof -
  have "missing before after = [] \<longleftrightarrow> filter (\<lambda>kv. map_of after (fst kv) = None) before = []"
  proof -
    have "length (missing before after) = length (filter (\<lambda>kv. map_of after (fst kv) = None) before)"
      by (simp add: missing_def)
    then show ?thesis by (metis length_0_conv)
  qed
  then show ?thesis by (auto simp: filter_empty_conv map_of_eq_None_iff)
qed

lemma value_key_inject:
  assumes "value_key h i (f, v) = value_key h j (g, w)"
    and "CHR ''/'' \<notin> set i" "CHR ''/'' \<notin> set j" "CHR ''/'' \<notin> set f" "CHR ''/'' \<notin> set g"
  shows "i = j \<and> f = g \<and> h v = h w"
proof -
  have cut: "xs = ys \<and> us = vs" if "xs @ CHR ''/'' # us = ys @ CHR ''/'' # vs" "CHR ''/'' \<notin> set xs" "CHR ''/'' \<notin> set ys"
    for xs ys us vs :: string
    using that
  proof (induction xs arbitrary: ys)
    case Nil
    then show ?case by (cases ys) auto
  next
    case (Cons x xs)
    then show ?case by (cases ys) auto
  qed
  from cut [of i "f @ CHR ''/'' # h v" j "g @ CHR ''/'' # h w"] assms cut [of f "h v" g "h w"]
  show ?thesis by (auto simp: value_key_def)
qed

lemma node_values_fields: "fv \<in> set (node_values b) \<Longrightarrow> CHR ''/'' \<notin> set (fst fv)"
  by (cases b) (auto simp: node_values_def)

lemma session_nodes: "session_wf s \<Longrightarrow> set (map (s_node s) (Nodes (s_tree s))) = s_node s ` {1..<s_size s}"
  using set_Nodes(1) [of "s_tree s"] by (auto simp: session_wf_def)

lemma checkMonotonic_simps:
  "s_index (snd (checkMonotonic h q turn s)) = Some (indexNodes h q (map (s_node s) (Nodes (s_tree s))))"
  "s_tree (snd (checkMonotonic h q turn s)) = s_tree s" "s_leaf (snd (checkMonotonic h q turn s)) = s_leaf s"
  "s_window (snd (checkMonotonic h q turn s)) = s_window s" "s_calls (snd (checkMonotonic h q turn s)) = s_calls s"
  "s_dialect (snd (checkMonotonic h q turn s)) = s_dialect s"
  by (simp_all add: checkMonotonic_def Let_def split: option.splits)

lemma checkMonotonic_none:
  assumes "s_index s' = s_index (snd (checkMonotonic h q turn s))"
  shows "fst (checkMonotonic h q turn' s') = None \<longleftrightarrow>
    held_keys h (map (s_node s) (Nodes (s_tree s))) \<subseteq> held_keys h (map (s_node s') (Nodes (s_tree s')))"
  using assms by (simp add: checkMonotonic_simps(1)) (simp add: checkMonotonic_def Let_def missing_none indexNodes_keys)

text \<open>A session that only grew since the last check is never reported.\<close>

lemma held_keys_grows:
  assumes "session_wf s" "session_wf s'" "grows s s'"
  shows "held_keys h (map (s_node s) (Nodes (s_tree s))) \<subseteq> held_keys h (map (s_node s') (Nodes (s_tree s')))"
proof
  fix k assume "k \<in> held_keys h (map (s_node s) (Nodes (s_tree s)))"
  then obtain a where a: "a \<in> {1..<s_size s}"
    "k \<in> value_key h (n_id (s_node s a)) ` {fv \<in> set (node_values (n_body (s_node s a))). snd fv \<noteq> []}"
    unfolding held_keys_def session_nodes [OF assms(1)] by blast
  have "kept_node (s_node s a) (s_node s' a)" "a \<in> {1..<s_size s'}"
    using a(1) growsD(1,3) [OF assms(3)] by auto
  with a(2) kept_nodeD(1,6) [of "s_node s a" "s_node s' a"] have "\<exists>b\<in>{1..<s_size s'}.
      k \<in> value_key h (n_id (s_node s' b)) ` {fv \<in> set (node_values (n_body (s_node s' b))). snd fv \<noteq> []}"
    by (intro bexI [of _ a]) simp_all
  then show "k \<in> held_keys h (map (s_node s') (Nodes (s_tree s')))"
    unfolding held_keys_def session_nodes [OF assms(2)] by simp
qed

text \<open>Every value a node of the session holds.\<close>

definition values_held :: "session \<Rightarrow> string set" where
  "values_held s = (\<Union>a\<in>{1..<s_size s}. snd ` set (node_values (n_body (s_node s a))))"


text \<open>A session that loses the text of its one answer, under a hash that keeps one byte of a value.\<close>

definition answer_session :: "string \<Rightarrow> session" where
  "answer_session t = snd (appendFlat (\<lambda>_. ''id'') ((empty_message RoleAssistant)\<lparr>msg_content := t\<rparr>) (newSession DialectAuto))"

definition forget :: "node \<Rightarrow> node" where
  "forget n = n\<lparr>n_body := map_stream (\<lambda>_. FinishedString ''xy'') (n_body n)\<rparr>"

lemma answer_session_wf: "session_wf (answer_session t)"
proof -
  let ?m = "(empty_message RoleAssistant)\<lparr>msg_content := t\<rparr>"
  from wpD [OF appendFlat_spec [where newid = "\<lambda>_. ''id''", OF newSession_wf [of DialectAuto], of ?m] surjective_pairing]
  show ?thesis by (auto simp: answer_session_def reaches_def split: sum.splits)
qed


section \<open>What the call check sees\<close>

text \<open>
  A continuation that replays at least what the model wrote, to an endpoint that counts at least a token
  for every six characters it is sent, is never reported.
\<close>

lemma observe_no_false_alarm:
  assumes "st_prev s = Some prev" "cm = Some c"
    and "lostLocally (co_message prev) (msgs ! st_sentLen s) = []"
    and "u_prompt (co_usage c) \<ge> token_floor prev (msgs ! st_sentLen s) (drop (Suc (st_sentLen s)) msgs) - 127"
  shows "fst (observe turn msgs cm s) = None"
  using assms by (simp add: observe_def Let_def stateMinMissing_def)

text \<open>A loss is chronic exactly when the same provider lost something on the same or the previous turn.\<close>

lemma record_loss_chronic:
  assumes "record_loss loss p l = (e, l')"
  shows "sl_severity e = SeverityChronic \<longleftrightarrow>
      lt_lastTurn l > 0 \<and> sl_turn loss \<le> Suc (lt_lastTurn l) \<and> lt_provider l = Some p"
    and "sl_turn e = sl_turn loss" "lt_lastTurn l' = sl_turn loss"
  using assms by (auto simp: record_loss_def Let_def split: if_splits)

end
