(* ===== verification/RunHost.thy ===== *)
theory RunHost
  imports StateCheck Compaction Resources SubagentRuns MessageQueue OutputDedup Elapsed
begin

text \<open>
  What a run works with (\<open>internal/loop/run_config.go\<close>, \<open>events.go\<close>, \<open>inbox.go\<close>, \<open>run_call.go\<close>): the
  world it shares with its host, the host's callbacks, the run's own state, and the steps the loop is
  made of. A callback, a tool, a provider or a clock is a function of the world that may change all of
  it, the message queue and the sub-agent registry included; \<open>h_tick\<close> is what other goroutines did to
  the world since the loop last looked, and stands before each look at something they share.
  The results of listeners that the code ignores are left out, and so is the unused keep-alive.
\<close>

section \<open>The world and the host\<close>

record 'h world =
  w_queue :: "QueuedMessage list MessageQueue option"
  w_subs :: "SubagentRuns option"
  w_host :: 'h

record FinalizeAssistantEvent =
  fa_id :: string
  fa_msg :: "Message option"
  fa_status :: string

record ToolMessageEvent =
  tm_toolCallID :: string
  tm_parentAssistantID :: string
  tm_content :: string
  tm_parts :: "ToolContentPart list"
  tm_isError :: bool

text \<open>What a collector that waits is woken by.\<close>

datatype woken = BySignal | ByContext go_error

record 'h host =
  h_provider :: "(Request, 'h world) provider option"
  h_complete :: "'h world completer"
  h_limits :: "'h world limits"
  h_tools :: "'h world Tools"
  h_approver :: "'h world Approver option"
  h_unknownTool :: "(string \<Rightarrow> string) option"
  h_maxTurns :: int
  h_watcher :: "('h world \<Rightarrow> (ResourcePoll \<times> go_error option) \<times> 'h world) option"
  h_diffTool :: string
  h_inbox :: "('h world \<Rightarrow> Message option \<times> 'h world) option"
  h_disableDedup :: bool
  h_fallback :: int
  h_override :: int
  h_elapsed :: elapsedTracker
  h_turnHook :: "nat \<Rightarrow> 'h world \<Rightarrow> 'h world"
  h_stream :: "'h world listener"
  h_turnBegin :: "nat \<Rightarrow> Request \<Rightarrow> 'h world \<Rightarrow> (go_error option \<times> Request) \<times> 'h world"
  h_turnEnd :: "nat \<Rightarrow> Completion option \<Rightarrow> go_error option \<Rightarrow> 'h world \<Rightarrow> go_error option \<times> 'h world"
  h_stop :: "nat \<Rightarrow> Completion option \<Rightarrow> 'h world \<Rightarrow> 'h world"
  h_toolBatch :: "ToolCall list \<Rightarrow> 'h world \<Rightarrow> (go_error option \<times> ToolCall list) \<times> 'h world"
  h_toolCall :: "ToolCall \<Rightarrow> 'h world \<Rightarrow> (go_error option \<times> ToolCall) \<times> 'h world"
  h_toolResult :: "ToolCall \<Rightarrow> ToolResult \<Rightarrow> Message \<Rightarrow> 'h world \<Rightarrow> go_error option \<times> 'h world"
  h_assistant :: "string \<Rightarrow> 'h world \<Rightarrow> (string \<times> go_error option) \<times> 'h world"
  h_finalize :: "FinalizeAssistantEvent \<Rightarrow> 'h world \<Rightarrow> 'h world"
  h_toolMessage :: "ToolMessageEvent \<Rightarrow> 'h world \<Rightarrow> go_error option \<times> 'h world"
  h_notice :: "string \<Rightarrow> string list \<Rightarrow> 'h world \<Rightarrow> string \<times> 'h world"
  h_system :: "Message \<Rightarrow> 'h world \<Rightarrow> 'h world"
  h_compaction :: "CompactResult \<Rightarrow> 'h world \<Rightarrow> string \<times> 'h world"
  h_compactionFailed :: "go_error \<Rightarrow> 'h world \<Rightarrow> 'h world"
  h_window :: "ContextWindowEvent \<Rightarrow> 'h world \<Rightarrow> 'h world"
  h_stateLoss :: "StateLossEvent \<Rightarrow> 'h world \<Rightarrow> 'h world"
  h_ctx :: "'h world \<Rightarrow> go_error option"
  h_now :: "'h world \<Rightarrow> int \<times> 'h world"
  h_tick :: "'h world \<Rightarrow> 'h world"
  h_wait :: "'h world \<Rightarrow> woken \<times> 'h world"
  h_sched :: "(nat \<times> ToolCall) list \<Rightarrow> 'h world \<Rightarrow> nat option \<times> 'h world"
  h_newid :: "nat \<Rightarrow> string"
  h_quote :: "string \<Rightarrow> string"
  h_hash :: "string \<Rightarrow> string"
  h_digest :: "string \<Rightarrow> string"
  h_clock :: "int \<Rightarrow> string"
  h_rounds :: nat   \<comment> \<open>how many rounds of a wait, an inbox or a compaction are followed\<close>

section \<open>The state of a run\<close>

record Result =
  res_messages :: "Message list"
  res_final :: "Message option"
  res_usages :: "Usage list"
  res_turns :: nat
  res_undelivered :: "Message list"
  res_stateLosses :: "StateLossEvent list"

definition new_result :: Result where
  "new_result = \<lparr>res_messages = [], res_final = None, res_usages = [], res_turns = 0, res_undelivered = [],
     res_stateLosses = []\<rparr>"

record 'h rstate =
  r_sess :: session
  r_world :: "'h world"
  r_res :: Result
  r_dedup :: "OutputDeduper option"
  r_elapsed :: elapsedTracker
  r_lastBatch :: string
  r_repeats :: nat
  r_lastComp :: "Completion option"
  r_states :: stateCheck
  r_losses :: lossTracker
  r_lastSent :: nat
  r_asked :: string
  r_overflow :: "nat option"
  r_current :: string
  r_window :: int
  r_reported :: bool

text \<open>
  How a statement of the run ends early: the run returns its result with an error, returns no result, or
  panics; or a wait, an inbox or a compaction is still going after \<open>h_rounds\<close> rounds.
\<close>

datatype run_exit = Returned "go_error option" | Refused go_error | Panicked add_error | StillGoing

type_synonym ('a, 'h) run = "(run_exit, 'a, 'h rstate) prog"

abbreviation then_do :: "('e, 'a, 's) prog \<Rightarrow> ('e, 'b, 's) prog \<Rightarrow> ('e, 'b, 's) prog" where
  "then_do m n \<equiv> and_then m (\<lambda>_. n)"

definition on_sess :: "(add_error, 'a, session) prog \<Rightarrow> ('a, 'h) run" where
  "on_sess m = on_part r_sess (\<lambda>s st. st\<lparr>r_sess := s\<rparr>) Panicked m"

definition on_world :: "('h world \<Rightarrow> 'a \<times> 'h world) \<Rightarrow> ('a, 'h) run" where
  "on_world f = run_fn (\<lambda>st. let (x, w) = f (r_world st) in (x, st\<lparr>r_world := w\<rparr>))"

definition tell_host :: "('h world \<Rightarrow> 'h world) \<Rightarrow> (unit, 'h) run" where
  "tell_host f = modify (\<lambda>st. st\<lparr>r_world := f (r_world st)\<rparr>)"

definition messages :: "'h rstate \<Rightarrow> Message list" where
  "messages st = s_messages (r_sess st)"

definition set_res :: "(Result \<Rightarrow> Result) \<Rightarrow> (unit, 'h) run" where
  "set_res f = modify (\<lambda>st. st\<lparr>r_res := f (r_res st)\<rparr>)"

definition save_messages :: "(unit, 'h) run" where
  "save_messages = modify (\<lambda>st. st\<lparr>r_res := (r_res st)\<lparr>res_messages := messages st\<rparr>\<rparr>)"

lemma wp_on_world [simp]: "wp (on_world f) Q E st = Q (fst (f (r_world st))) (st\<lparr>r_world := snd (f (r_world st))\<rparr>)"
  by (simp add: on_world_def split: prod.splits)

lemma wp_tell_host [simp]: "wp (tell_host f) Q E st = Q () (st\<lparr>r_world := f (r_world st)\<rparr>)"
  by (simp add: tell_host_def)

lemma wp_set_res [simp]: "wp (set_res f) Q E st = Q () (st\<lparr>r_res := f (r_res st)\<rparr>)"
  by (simp add: set_res_def)

section \<open>Events whose answer the loop uses\<close>

fun bad_id :: "string list \<Rightarrow> ToolCall list \<Rightarrow> string option" where
  "bad_id seen [] = None"
| "bad_id seen (c # cs) = (if tc_id c = [] \<or> tc_id c \<in> set seen then Some (tc_id c) else bad_id (tc_id c # seen) cs)"

definition emitToolBatch :: "'h host \<Rightarrow> ToolCall list \<Rightarrow> 'h world \<Rightarrow> (go_error + ToolCall list) \<times> 'h world" where
  "emitToolBatch h calls w =
     (let ((err, batch), w) = h_toolBatch h calls w in
      ((case wrapCallbackErr err of
          Some e \<Rightarrow> Inl e
        | None \<Rightarrow>
            if batch = []
            then Inl (CallbackErr (ErrorNew ''agentic: OnToolBatch left no calls in a turn that asked for tools''))
            else (case bad_id [] batch of
                    Some i \<Rightarrow> Inl (CallbackErr (ErrorNew
                      (''agentic: OnToolBatch left a call with an empty or repeated id '' @ h_quote h i)))
                  | None \<Rightarrow> Inr batch)), w))"

definition emitToolCall :: "'h host \<Rightarrow> ToolCall \<Rightarrow> 'h world \<Rightarrow> (go_error option \<times> ToolCall) \<times> 'h world" where
  "emitToolCall h call w = (let ((err, call), w) = h_toolCall h call w in ((wrapCallbackErr err, call), w))"

definition emitToolResult :: "'h host \<Rightarrow> ToolCall \<Rightarrow> ToolResult \<Rightarrow> Message \<Rightarrow> 'h world \<Rightarrow> go_error option \<times> 'h world" where
  "emitToolResult h call r recorded w = (let (err, w) = h_toolResult h call r recorded w in (wrapCallbackErr err, w))"

definition emitTurnBegin :: "'h host \<Rightarrow> nat \<Rightarrow> Request \<Rightarrow> 'h world \<Rightarrow> (go_error option \<times> Request) \<times> 'h world" where
  "emitTurnBegin h turn req w = (let ((err, req), w) = h_turnBegin h turn req w in ((wrapCallbackErr err, req), w))"

definition emitTurnEnd :: "'h host \<Rightarrow> nat \<Rightarrow> Completion option \<Rightarrow> go_error option \<Rightarrow> 'h world \<Rightarrow> go_error option \<times> 'h world" where
  "emitTurnEnd h turn cm err w = (let (e, w) = h_turnEnd h turn cm err w in (wrapCallbackErr e, w))"

end
