(* ===== verification/RunSteps.thy ===== *)
theory RunSteps
  imports RunHost
begin

text \<open>
  The steps of a turn (\<open>internal/loop/run_call.go\<close>, \<open>inbox.go\<close>, the compaction and window steps of
  \<open>autocompact.go\<close> and \<open>contextwindow.go\<close>, and the closures of \<open>runOn\<close> in \<open>run_loop.go\<close>).
\<close>

section \<open>One model call\<close>

record modelCall =
  mc_comp :: "Completion option"
  mc_nodes :: "nat list"
  mc_rec :: "nat option"
  mc_refused :: "string \<rightharpoonup> ToolResult"

definition no_call :: modelCall where
  "no_call = \<lparr>mc_comp = None, mc_nodes = [], mc_rec = None, mc_refused = Map.empty\<rparr>"

definition call_message :: "session \<Rightarrow> modelCall \<Rightarrow> Message" where
  "call_message s mc = MessageFromNodes (map (s_node s) (mc_nodes mc))"

definition mark_elapsed :: "'h host \<Rightarrow> (string, 'h) run" where
  "mark_elapsed h =
     and_then (get_state r_elapsed) (\<lambda>el.
     if el = None then ret []
     else and_then (on_world (h_now h)) (\<lambda>now.
       (let (note_text, el) = elapsed_mark (h_clock h) now el in
        then_do (modify (\<lambda>st. st\<lparr>r_elapsed := el\<rparr>)) (ret note_text))))"

definition stream_into :: "'h host \<Rightarrow> (Request, 'h world) provider \<Rightarrow> Request \<Rightarrow> nat \<Rightarrow> string \<Rightarrow> ToolDecl list
    \<Rightarrow> (stream_result, 'h) run" where
  "stream_into h p r turn firstID tools =
     on_part (\<lambda>st. (r_sess st, r_world st)) (\<lambda>sw st. st\<lparr>r_sess := fst sw, r_world := snd sw\<rparr>) Panicked
       (streamCall (h_newid h) (h_stream h) (h_ctx h) p r turn firstID (argHooksFor (h_tools h) tools))"

definition runModelCall :: "'h host \<Rightarrow> (Request, 'h world) provider \<Rightarrow> Request \<Rightarrow> nat \<Rightarrow> Message list \<Rightarrow> ToolDecl list
    \<Rightarrow> string \<Rightarrow> (modelCall \<times> go_error option, 'h) run" where
  "runModelCall h p req turn msgs tools firstID =
     and_then (mark_elapsed h) (\<lambda>note_text.
     and_then (on_world (emitTurnBegin h turn (req\<lparr>rq_messages := elapsedMessages msgs note_text, rq_tools := tools\<rparr>))) (\<lambda>begun.
     case fst begun of
       Some e \<Rightarrow> ret (no_call, Some e)
     | None \<Rightarrow>
         and_then (stream_into h p (snd begun) turn firstID tools) (\<lambda>r.
         then_do (set_res (\<lambda>res. res\<lparr>res_turns := Suc (res_turns res),
             res_usages := res_usages res @ (case sr_comp r of None \<Rightarrow> [] | Some c \<Rightarrow> [co_usage c])\<rparr>))
         (and_then (on_world (emitTurnEnd h turn (sr_comp r) (sr_err r))) (\<lambda>cberr.
          ret (\<lparr>mc_comp = sr_comp r, mc_nodes = sr_nodes r, mc_rec = Some (sr_rec r), mc_refused = sr_refused r\<rparr>,
               if cberr \<noteq> None then cberr else sr_err r))))))"

section \<open>Compaction and the window\<close>

definition fit_messages :: "'h host \<Rightarrow> Request \<Rightarrow> ((go_error + CompactResult), 'h) run" where
  "fit_messages h req =
     and_then (run_fn (\<lambda>st.
       (let (r, us, w) = compactToFit (h_rounds h) (h_complete h) req (messages st) (res_usages (r_res st), r_world st)
        in (r, st\<lparr>r_world := w, r_res := (r_res st)\<lparr>res_usages := us\<rparr>\<rparr>)))) (\<lambda>r.
     case r of None \<Rightarrow> exit_with StillGoing | Some r \<Rightarrow> ret r)"

definition compactNow :: "'h host \<Rightarrow> Request \<Rightarrow> (bool, 'h) run" where
  "compactNow h req =
     and_then (fit_messages h req) (\<lambda>r.
     case r of
       Inl err \<Rightarrow> then_do (tell_host (h_compactionFailed h err)) (ret False)
     | Inr cr \<Rightarrow>
         then_do (modify (\<lambda>st. st\<lparr>r_dedup := map_option Reset (r_dedup st)\<rparr>))
         (and_then (on_world (h_compaction h cr)) (\<lambda>hostID.
          then_do (on_sess (s_compact (h_newid h) (cp_summary cr) hostID))
          (then_do save_messages (ret True)))))"

definition compactHere :: "'h host \<Rightarrow> Request \<Rightarrow> (bool, 'h) run" where
  "compactHere h req =
     and_then (get_state (\<lambda>st. shouldCompact (rq_autoCompact req) (r_window st) (r_lastComp st))) (\<lambda>b.
     if b then compactNow h req else ret False)"

definition capToWindow :: "'h host \<Rightarrow> Request \<Rightarrow> (bool \<times> go_error option, 'h) run" where
  "capToWindow h req =
     and_then (get_state (\<lambda>st. (r_window st, over_window (r_window st) (r_lastComp st) (r_lastSent st) (messages st)))) (\<lambda>x.
     case snd x of
       None \<Rightarrow> ret (False, None)
     | Some est \<Rightarrow>
         and_then (if f64_pos (rq_autoCompact req) then compactNow h req else ret False) (\<lambda>compacted.
         if compacted then ret (True, None)
         else ret (False, Some (window_exceeded est (fst x)))))"

definition use_window :: "'h host \<Rightarrow> int \<Rightarrow> go_error option \<Rightarrow> string \<Rightarrow> (go_error option, 'h) run" where
  "use_window h reported err served =
     (case applyWindow (h_quote h) (h_fallback h) (h_override h) reported err served of
        Inl e \<Rightarrow> ret (Some e)
      | Inr ev \<Rightarrow>
          then_do (modify (\<lambda>st. st\<lparr>r_window := we_window ev, r_reported := reported > 0\<rparr>))
          (then_do (tell_host (h_window h ev)) (ret None)))"

definition resolveContextWindow :: "'h host \<Rightarrow> Request \<Rightarrow> (go_error option, 'h) run" where
  "resolveContextWindow h req =
     (if \<not> wantsWindow (h_fallback h) (h_override h) (rq_autoCompact req) then ret None
      else and_then (on_world (reportedWindow (h_quote h) (h_limits h) (rq_model req))) (\<lambda>r.
        use_window h (fst r) (snd r) []))"

definition resolveServedWindow :: "'h host \<Rightarrow> Request \<Rightarrow> Completion option \<Rightarrow> (go_error option, 'h) run" where
  "resolveServedWindow h req cm =
     and_then (get_state (\<lambda>st. (r_reported st, r_asked st))) (\<lambda>ra.
     case cm of
       None \<Rightarrow> ret None
     | Some c \<Rightarrow>
         (let names = servedNames (rq_model req) c; k = join_with [NL] names in
          if \<not> wantsWindow (h_fallback h) (h_override h) (rq_autoCompact req) \<or> fst ra then ret None
          else if names = [] \<or> k = snd ra then ret None
          else
            then_do (modify (\<lambda>st. st\<lparr>r_asked := k\<rparr>))
            (and_then (on_world (ask_served (h_quote h) (h_limits h) names [])) (\<lambda>a.
             case a of
               ServedWindow reported served \<Rightarrow> use_window h reported None served
             | NoList \<Rightarrow> ret None
             | NoneServed errs \<Rightarrow>
                 and_then (get_state r_window) (\<lambda>w.
                 then_do (when_do (w = 0) (tell_host (h_window h
                   ((window_event 0 (hd names))\<lparr>we_err := Some (Joined errs)\<rparr>))))
                 (ret None))))))"

section \<open>Messages from outside\<close>

text \<open>\<open>drainInbox\<close>, in rounds.\<close>

primrec take_inbox :: "nat \<Rightarrow> 'h host \<Rightarrow> ('h world \<Rightarrow> Message option \<times> 'h world) \<Rightarrow> Message list \<Rightarrow> (Message list, 'h) run" where
  "take_inbox 0 h receive out = exit_with StillGoing"
| "take_inbox (Suc n) h receive out =
     and_then (get_state (\<lambda>st. h_ctx h (r_world st))) (\<lambda>done_err.
     if done_err \<noteq> None then ret out
     else and_then (on_world receive) (\<lambda>m.
       case m of None \<Rightarrow> ret out | Some m \<Rightarrow> take_inbox n h receive (out @ [m])))"

definition drainInbox :: "'h host \<Rightarrow> (Message list, 'h) run" where
  "drainInbox h = (case h_inbox h of None \<Rightarrow> ret [] | Some receive \<Rightarrow> take_inbox (h_rounds h) h receive [])"

definition announce :: "'h host \<Rightarrow> Message \<Rightarrow> (unit, 'h) run" where
  "announce h m =
     then_do (tell_host (h_system h m)) (then_do (on_sess (appendFlat (h_newid h) m)) (ret ()))"

definition drainInboxNow :: "'h host \<Rightarrow> (bool, 'h) run" where
  "drainInboxNow h =
     and_then (drainInbox h) (\<lambda>msgs. then_do (for_each msgs (announce h)) (ret (msgs \<noteq> [])))"

text \<open>The queue and the registry are looked at after a tick: the host's goroutines use them too.\<close>

definition tick :: "'h host \<Rightarrow> (unit, 'h) run" where
  "tick h = tell_host (h_tick h)"

definition on_queue :: "(QueuedMessage list MessageQueue option \<Rightarrow> 'a \<times> QueuedMessage list MessageQueue option)
    \<Rightarrow> 'h world \<Rightarrow> 'a \<times> 'h world" where
  "on_queue f w = (let (x, q) = f (w_queue w) in (x, w\<lparr>w_queue := q\<rparr>))"

definition drain :: "'h host \<Rightarrow> (unit, 'h) run" where
  "drain h =
     then_do (tick h)
     (and_then (on_world (on_queue (Drain list_queue))) (\<lambda>msgs.
      then_do (for_each msgs (announce h)) (ret ())))"

definition queue_pending :: "'h host \<Rightarrow> (bool, 'h) run" where
  "queue_pending h = then_do (tick h) (get_state (\<lambda>st. Pending list_queue (w_queue (r_world st))))"

definition SubagentReportKind :: string where "SubagentReportKind = ''subagent_report''"

definition deliver :: "'h host \<Rightarrow> string \<Rightarrow> (unit, 'h) run" where
  "deliver h content =
     (let m = (empty_message RoleUser)\<lparr>msg_kind := SubagentReportKind, msg_content := content\<rparr> in
      and_then (get_state (\<lambda>st. w_queue (r_world st))) (\<lambda>q.
      if q \<noteq> None
      then then_do (tick h) (then_do (on_world (on_queue (Queue list_queue (SystemMessage m)))) (ret ()))
      else announce h m))"

definition subs_pending :: "'h host \<Rightarrow> (bool, 'h) run" where
  "subs_pending h = then_do (tick h) (get_state (\<lambda>st. SubPending (w_subs (r_world st)) > 0))"

definition subs_running :: "'h host \<Rightarrow> (nat, 'h) run" where
  "subs_running h = then_do (tick h) (get_state (\<lambda>st. Running (w_subs (r_world st))))"

definition subs_take :: "'h host \<Rightarrow> (SubagentReport list, 'h) run" where
  "subs_take h = then_do (tick h) (on_world (\<lambda>w. let (x, s) = Take (w_subs w) in (x, w\<lparr>w_subs := s\<rparr>)))"

definition subs_cancel :: "'h host \<Rightarrow> (nat, 'h) run" where
  "subs_cancel h = then_do (tick h) (on_world (\<lambda>w. let ((n, ups), s) = CancelRemaining (w_subs w) in (n, w\<lparr>w_subs := s\<rparr>)))"

text \<open>\<open>Collect\<close>: a round under the lock, and a wait when there is nothing yet.\<close>

definition collect_round :: "'h world \<Rightarrow> collect_check \<times> 'h world" where
  "collect_round w =
     (case w_subs w of
        None \<Rightarrow> (NothingOut, w)
      | Some r \<Rightarrow> (let (c, r) = collect_locked r in (c, w\<lparr>w_subs := Some r\<rparr>)))"

primrec subs_collect :: "nat \<Rightarrow> 'h host \<Rightarrow> (SubagentReport list \<times> go_error option, 'h) run" where
  "subs_collect 0 h = exit_with StillGoing"
| "subs_collect (Suc n) h =
     then_do (tick h)
     (and_then (on_world collect_round) (\<lambda>c.
      case c of
        Collected reports \<Rightarrow> ret (reports, None)
      | NothingOut \<Rightarrow> ret ([], None)
      | MustWait \<Rightarrow>
          and_then (on_world (h_wait h)) (\<lambda>wake.
          case wake of ByContext e \<Rightarrow> ret ([], Some e) | BySignal \<Rightarrow> subs_collect n h)))"

section \<open>Ends of a turn\<close>

definition finalizeAssistant :: "'h host \<Rightarrow> string \<Rightarrow> Message option \<Rightarrow> string \<Rightarrow> (unit, 'h) run" where
  "finalizeAssistant h i m status =
     then_do (tell_host (h_finalize h \<lparr>fa_id = i, fa_msg = m, fa_status = status\<rparr>))
       (modify (\<lambda>st. st\<lparr>r_current := []\<rparr>))"

definition done_with :: "Message \<Rightarrow> go_error option \<Rightarrow> ('a, 'h) run" where
  "done_with final err =
     then_do save_messages
     (then_do (set_res (\<lambda>res. res\<lparr>res_final := Some final\<rparr>)) (exit_with (Returned err)))"

text \<open>The result as it stands, with the messages of the session.\<close>

definition stop_with :: "go_error \<Rightarrow> ('a, 'h) run" where
  "stop_with e = then_do save_messages (exit_with (Returned (Some e)))"

definition moreTurnsAllowed :: "'h host \<Rightarrow> nat \<Rightarrow> bool" where
  "moreTurnsAllowed h turn \<longleftrightarrow> h_maxTurns h \<le> 0 \<or> int turn < h_maxTurns h - 1"

definition omit :: "'h host \<Rightarrow> nat list \<Rightarrow> string \<Rightarrow> (unit, 'h) run" where
  "omit h nodes reason = on_sess (omitCalls (h_newid h) nodes reason)"

text \<open>\<open>answer\<close> returns the run's result, or comes back when a message takes another turn.\<close>

definition answer :: "'h host \<Rightarrow> nat \<Rightarrow> Completion option \<Rightarrow> string \<Rightarrow> Message \<Rightarrow> (unit, 'h) run" where
  "answer h turn cm i final =
     then_do (tell_host (h_stop h (Suc turn) cm))
     (then_do (finalizeAssistant h i (Some final) ''complete'')
     (and_then (queue_pending h) (\<lambda>pending.
      if pending \<and> moreTurnsAllowed h turn then ret ()
      else and_then (if moreTurnsAllowed h turn then drainInboxNow h else ret False) (\<lambda>got.
        if got then ret () else done_with final None))))"

definition record_lost :: "'h host \<Rightarrow> StateLossEvent option \<Rightarrow> (unit, 'h) run" where
  "record_lost h loss =
     (case loss of
        None \<Rightarrow> ret ()
      | Some loss \<Rightarrow>
          and_then (run_fn (\<lambda>st. let (ev, l) = record_loss loss 0 (r_losses st)
            in (ev, st\<lparr>r_losses := l, r_res := (r_res st)\<lparr>res_stateLosses := res_stateLosses (r_res st) @ [ev]\<rparr>\<rparr>))) (\<lambda>ev.
          tell_host (h_stateLoss h ev)))"

end
