(* ===== verification/RunBatch.thy ===== *)
theory RunBatch
  imports RunSteps
begin

text \<open>
  The tool batch of a turn (\<open>run_loop.go\<close>, lines 254 to 401). Read-only calls run in goroutines of their
  own, each at a moment the scheduler \<open>h_sched\<close> picks between its start and the next barrier; a
  mutating call is a barrier and runs on the loop's own goroutine. A call's resolution is atomic: tools
  that overlap share nothing but the world, which each changes as a whole.
\<close>

section \<open>Dispatch\<close>

record dispatch =
  d_asks :: "ToolCall list"
  d_results :: "ToolResult list"
  d_err :: "go_error option"
  d_reads :: "(nat \<times> ToolCall) list"

definition new_dispatch :: "nat \<Rightarrow> dispatch" where
  "new_dispatch n = \<lparr>d_asks = [], d_results = replicate n zero_result, d_err = None, d_reads = []\<rparr>"

definition resolve_at :: "'h host \<Rightarrow> nat \<Rightarrow> ToolCall \<Rightarrow> dispatch \<times> 'h world \<Rightarrow> go_error option \<times> dispatch \<times> 'h world" where
  "resolve_at h i c dw =
     (let ((r, aerr), w) = resolveCall (h_tools h) (h_approver h) (h_unknownTool h) c (snd dw); d = fst dw in
      (aerr, d\<lparr>d_results := (d_results d)[i := r], d_err := (if d_err d = None then aerr else d_err d)\<rparr>, w))"

definition remove_nth :: "nat \<Rightarrow> 'a list \<Rightarrow> 'a list" where
  "remove_nth k xs = take k xs @ drop (Suc k) xs"

definition run_read :: "'h host \<Rightarrow> nat \<Rightarrow> dispatch \<times> 'h world \<Rightarrow> dispatch \<times> 'h world" where
  "run_read h k dw =
     (let d = fst dw; (i, c) = d_reads d ! k
      in snd (resolve_at h i c (d\<lparr>d_reads := remove_nth k (d_reads d)\<rparr>, snd dw)))"

text \<open>The reads the scheduler runs now, and every read still out, in the order it picks.\<close>

primrec some_reads :: "nat \<Rightarrow> 'h host \<Rightarrow> dispatch \<times> 'h world \<Rightarrow> dispatch \<times> 'h world" where
  "some_reads 0 h dw = dw"
| "some_reads (Suc n) h dw =
     (let (k, w) = h_sched h (d_reads (fst dw)) (snd dw) in
      case k of
        None \<Rightarrow> (fst dw, w)
      | Some k \<Rightarrow>
          if k < length (d_reads (fst dw)) then some_reads n h (run_read h k (fst dw, w)) else (fst dw, w))"

primrec all_reads :: "nat \<Rightarrow> 'h host \<Rightarrow> dispatch \<times> 'h world \<Rightarrow> dispatch \<times> 'h world" where
  "all_reads 0 h dw = dw"
| "all_reads (Suc n) h dw =
     (let (k, w) = h_sched h (d_reads (fst dw)) (snd dw);
          k = (case k of Some k \<Rightarrow> if k < length (d_reads (fst dw)) then k else 0 | None \<Rightarrow> 0)
      in all_reads n h (run_read h k (fst dw, w)))"

definition wait_reads :: "'h host \<Rightarrow> dispatch \<times> 'h world \<Rightarrow> dispatch \<times> 'h world" where
  "wait_reads h dw = all_reads (length (d_reads (fst dw))) h dw"

definition is_readonly :: "'w Tools \<Rightarrow> string \<Rightarrow> bool" where
  "is_readonly tools name = (case Find tools name of None \<Rightarrow> False | Some t \<Rightarrow> decl_readonly (t_decl t))"

text \<open>
  The dispatch loop, over the calls from position \<open>i\<close> on: the error of a hook that aborts the batch at
  once, or nothing when the loop is over or a mutating call's approval failed.
\<close>

primrec dispatch_calls :: "'h host \<Rightarrow> (string \<rightharpoonup> ToolResult) \<Rightarrow> ToolCall list \<Rightarrow> nat \<Rightarrow> dispatch \<times> 'h world
    \<Rightarrow> go_error option \<times> dispatch \<times> 'h world" where
  "dispatch_calls h refused [] i dw = (None, dw)"
| "dispatch_calls h refused (asked # cs) i dw =
     (let (d, w) = some_reads (length (d_reads (fst dw))) h dw;
          ((cberr, call), w) = emitToolCall h asked w in
      case cberr of
        Some e \<Rightarrow> (Some e, d, w)
      | None \<Rightarrow>
          (let d = d\<lparr>d_asks := d_asks d @ [call]\<rparr> in
           case refused (tc_id call) of
             Some r \<Rightarrow> dispatch_calls h refused cs (Suc i) (d\<lparr>d_results := (d_results d)[i := r]\<rparr>, w)
           | None \<Rightarrow>
               if is_readonly (h_tools h) (tc_name call)
               then dispatch_calls h refused cs (Suc i) (d\<lparr>d_reads := d_reads d @ [(i, call)]\<rparr>, w)
               else
                 (let (aerr, dw) = resolve_at h i call (wait_reads h (d, w)) in
                  if aerr = None then dispatch_calls h refused cs (Suc i) dw else (None, dw))))"

text \<open>The whole of it, with the wait that lets no call outlive the batch: the error to abort with, if any.\<close>

definition run_calls :: "'h host \<Rightarrow> (string \<rightharpoonup> ToolResult) \<Rightarrow> ToolCall list \<Rightarrow> 'h world
    \<Rightarrow> (go_error option \<times> dispatch) \<times> 'h world" where
  "run_calls h refused calls w =
     (let (cberr, dw) = dispatch_calls h refused calls 0 (new_dispatch (length calls), w);
          (d, w) = wait_reads h dw
      in ((if cberr \<noteq> None then cberr else d_err d, d), w))"

section \<open>Recording\<close>

definition collapse_result :: "'h host \<Rightarrow> string \<Rightarrow> ToolResult \<Rightarrow> (string \<times> ToolContentPart list, 'h) run" where
  "collapse_result h name r =
     run_fn (\<lambda>st.
       (case (r_dedup st, Find (h_tools h) name) of
          (Some dd, Some tool) \<Rightarrow>
            (let ((collapsed, deduped), dd) = Collapse (h_digest h) (t_decl tool) r dd in
             (if deduped then (collapsed, []) else (tr_content r, tr_parts r), st\<lparr>r_dedup := Some dd\<rparr>))
        | _ \<Rightarrow> ((tr_content r, tr_parts r), st)))"

text \<open>Records one result; the error of a listener that aborts the batch.\<close>

definition record_result :: "'h host \<Rightarrow> string \<Rightarrow> ToolCall \<Rightarrow> ToolCall \<Rightarrow> ToolResult \<Rightarrow> nat \<Rightarrow> (go_error option, 'h) run" where
  "record_result h assistantID call ask r node =
     and_then (collapse_result h (tc_name call) r) (\<lambda>cp.
     (let recorded = (empty_message RoleTool)\<lparr>msg_content := fst cp, msg_call_id := tc_id call, msg_is_error := tr_is_error r\<rparr>
      in and_then (on_world (emitToolResult h ask r recorded)) (\<lambda>cberr.
         if cberr \<noteq> None then ret cberr
         else
           then_do (on_sess (s_toolResult (h_newid h) node (fst cp) (tr_is_error r) []))
           (on_world (h_toolMessage h \<lparr>tm_toolCallID = tc_id call, tm_parentAssistantID = assistantID,
              tm_content = fst cp, tm_parts = snd cp, tm_isError = tr_is_error r\<rparr>)))))"

text \<open>The calls, the calls as the hooks left them, the results and the call nodes, side by side.\<close>

primrec record_results :: "'h host \<Rightarrow> string \<Rightarrow> (ToolCall \<times> ToolCall \<times> ToolResult \<times> nat) list \<Rightarrow> (go_error option, 'h) run" where
  "record_results h assistantID [] = ret None"
| "record_results h assistantID (x # xs) =
     (case x of (call, ask, r, node) \<Rightarrow>
        and_then (record_result h assistantID call ask r node) (\<lambda>e.
        if e \<noteq> None then ret e else record_results h assistantID xs))"

definition StuckNudgeAt :: nat where "StuckNudgeAt = 3"
definition StuckFailAt :: nat where "StuckFailAt = 6"

definition ErrStuck :: go_error where
  "ErrStuck = ErrorNew ''agentic: model is stuck repeating the same tool calls''"

definition StopNudgeKind :: string where "StopNudgeKind = ''stop_nudge''"

definition stuckNudgeInstruction :: string where
  "stuckNudgeInstruction =
     ''You have now requested the same tool calls several times in a row and received the same results each time. ''
     @ ''Repeating them again cannot tell you anything new. Do something different: act on the results you already have, ''
     @ ''call a different tool, or write your final answer now. Another identical request ends this run.''"

text \<open>\<open>abortBatch\<close>: every call without a result gets an omitted one, and the run ends with the cause.\<close>

definition abortBatch :: "'h host \<Rightarrow> nat list \<Rightarrow> Message \<Rightarrow> string \<Rightarrow> go_error \<Rightarrow> ('a, 'h) run" where
  "abortBatch h callNodes assistant i cause =
     (let cleared = withoutCalls assistant i in
      then_do (omit h callNodes (''the batch was cancelled before this tool ran: '' @ error_text cause))
      (then_do (finalizeAssistant h i (Some cleared) ''cancelled'')
      (done_with cleared (Some cause))))"

definition count_batch :: "ToolCall list \<Rightarrow> (nat, 'h) run" where
  "count_batch calls =
     run_fn (\<lambda>st. let fp = batchFingerprint calls;
                       st = (if fp = r_lastBatch st then st\<lparr>r_repeats := Suc (r_repeats st)\<rparr>
                             else st\<lparr>r_lastBatch := fp, r_repeats := 1\<rparr>)
                  in (r_repeats st, st))"

text \<open>The batch, once the host has seen it; \<open>callNodes\<close> are the calls of the tree it answers.\<close>

definition run_batch :: "'h host \<Rightarrow> string \<Rightarrow> Message \<Rightarrow> modelCall \<Rightarrow> ToolCall list \<Rightarrow> nat list \<Rightarrow> (unit, 'h) run" where
  "run_batch h i assistant mc calls callNodes =
     then_do (finalizeAssistant h i (Some assistant) ''complete'')
     (and_then (on_world (run_calls h (mc_refused mc) calls)) (\<lambda>r.
      case fst r of
        Some e \<Rightarrow> abortBatch h callNodes assistant i e
      | None \<Rightarrow>
          and_then (record_results h i
            (zip calls (zip (d_asks (snd r)) (zip (d_results (snd r)) callNodes)))) (\<lambda>e.
          case e of Some e \<Rightarrow> abortBatch h callNodes assistant i e | None \<Rightarrow> ret ())))"

definition tool_turn :: "'h host \<Rightarrow> string \<Rightarrow> Message \<Rightarrow> modelCall \<Rightarrow> (unit, 'h) run" where
  "tool_turn h i assistant mc =
     (let calls = msg_calls assistant in
      and_then (count_batch calls) (\<lambda>repeats.
      if repeats \<ge> StuckFailAt then
        (let stuck = withoutCalls assistant i in
         then_do (omit h (mc_nodes mc) (''the run stopped: the same tool calls repeated '' @ itoa (int repeats) @ '' times''))
         (then_do (finalizeAssistant h i (Some stuck) ''complete'')
         (done_with stuck (Some (Annotated ErrStuck ('': '' @ itoa (int repeats) @ '' identical turns in a row''))))))
      else
        and_then (on_world (emitToolBatch h calls)) (\<lambda>b.
        case b of
          Inl berr \<Rightarrow>
            (let cleared = withoutCalls assistant i in
             then_do (omit h (mc_nodes mc) (''the batch was cancelled before it ran: '' @ error_text berr))
             (then_do (finalizeAssistant h i (Some cleared) ''cancelled'')
             (done_with cleared (Some berr))))
        | Inr expanded \<Rightarrow>
            and_then (if sameCalls calls expanded then on_sess (get_state (\<lambda>s. toolCalls s (mc_nodes mc)))
                      else on_sess (replaceCalls (h_newid h) (mc_nodes mc) expanded)) (\<lambda>callNodes.
            then_do (run_batch h i (assistant\<lparr>msg_calls := expanded\<rparr>) mc expanded callNodes)
            (when_do (repeats = StuckNudgeAt)
              (then_do (on_sess (appendFlat (h_newid h)
                 ((empty_message RoleUser)\<lparr>msg_kind := StopNudgeKind, msg_content := stuckNudgeInstruction\<rparr>))) (ret ())))))))"

section \<open>Every call of a batch is resolved\<close>

text \<open>What resolving a call leaves of the dispatch: its asks, its length, and an error once there is one.\<close>

definition same_batch :: "dispatch \<Rightarrow> dispatch \<Rightarrow> bool" where
  "same_batch d d' \<longleftrightarrow> d_asks d' = d_asks d \<and> length (d_results d') = length (d_results d) \<and> (d_err d \<noteq> None \<longrightarrow> d_err d' \<noteq> None)"

lemma same_batch_refl [simp]: "same_batch d d"
  by (simp add: same_batch_def)

lemma same_batch_trans: "same_batch d d' \<Longrightarrow> same_batch d' d'' \<Longrightarrow> same_batch d d''"
  by (auto simp: same_batch_def)

lemma resolve_at_same: "same_batch (fst dw) (fst (snd (resolve_at h i c dw)))"
  by (auto simp: resolve_at_def same_batch_def Let_def split: prod.splits)

lemma resolve_at_err: "fst (resolve_at h i c dw) \<noteq> None \<Longrightarrow> d_err (fst (snd (resolve_at h i c dw))) \<noteq> None"
  by (auto simp: resolve_at_def Let_def split: prod.splits)

lemma run_read_same: "same_batch (fst dw) (fst (run_read h k dw))"
proof -
  obtain i c where ic: "d_reads (fst dw) ! k = (i, c)" by (metis surj_pair)
  let ?d = "(fst dw)\<lparr>d_reads := remove_nth k (d_reads (fst dw))\<rparr>"
  have "same_batch (fst dw) ?d" by (simp add: same_batch_def)
  with resolve_at_same [of "(?d, snd dw)" h i c] ic show ?thesis
    by (auto simp: run_read_def Let_def intro: same_batch_trans)
qed

lemma some_reads_same: "same_batch (fst dw) (fst (some_reads n h dw))"
proof (induction n arbitrary: dw)
  case (Suc n)
  obtain k w where k: "h_sched h (d_reads (fst dw)) (snd dw) = (k, w)" by (metis surj_pair)
  have "same_batch (fst dw) (fst (some_reads n h (run_read h j (fst dw, w))))" for j
    using same_batch_trans [OF run_read_same [of "(fst dw, w)" h j] Suc.IH] by simp
  with k show ?case by (simp split: option.splits)
qed simp

lemma all_reads_same: "same_batch (fst dw) (fst (all_reads n h dw))"
proof (induction n arbitrary: dw)
  case (Suc n)
  obtain k w where k: "h_sched h (d_reads (fst dw)) (snd dw) = (k, w)" by (metis surj_pair)
  have "same_batch (fst dw) (fst (all_reads n h (run_read h j (fst dw, w))))" for j
    using same_batch_trans [OF run_read_same [of "(fst dw, w)" h j] Suc.IH] by simp
  with k show ?case by (simp add: Let_def)
qed simp

text \<open>
  Unless a hook aborts or an approval fails, the host has seen every call, and what it left of each is what
  was asked.
\<close>

definition asked_as :: "'h host \<Rightarrow> ToolCall \<Rightarrow> ToolCall \<Rightarrow> bool" where
  "asked_as h c ask \<longleftrightarrow> (\<exists>w w'. h_toolCall h c w = ((None, ask), w'))"

lemma emitToolCall_asked: "emitToolCall h c w = ((None, ask), w') \<Longrightarrow> asked_as h c ask"
  by (auto simp: emitToolCall_def asked_as_def wrapCallbackErr_def split: prod.splits option.splits if_splits)

definition asks_grown :: "'h host \<Rightarrow> ToolCall list \<Rightarrow> dispatch \<Rightarrow> dispatch \<Rightarrow> bool" where
  "asks_grown h cs d d' \<longleftrightarrow> (\<exists>asks. d_asks d' = d_asks d @ asks \<and> list_all2 (asked_as h) cs asks)
     \<and> length (d_results d') = length (d_results d)"

lemma asks_grown_Cons:
  assumes "asked_as h c call" "d_asks d1 = d_asks d @ [call]" "length (d_results d1) = length (d_results d)" "asks_grown h cs d1 d'"
  shows "asks_grown h (c # cs) d d'"
proof -
  obtain asks where "d_asks d' = d_asks d1 @ asks" "list_all2 (asked_as h) cs asks" using assms(4) by (auto simp: asks_grown_def)
  then have "d_asks d' = d_asks d @ call # asks \<and> list_all2 (asked_as h) (c # cs) (call # asks)" using assms(1,2) by simp
  then show ?thesis using assms(3,4) unfolding asks_grown_def by auto
qed

lemma dispatch_calls_asks:
  assumes "dispatch_calls h refused cs i dw = (None, dw')" "d_err (fst dw') = None"
  shows "asks_grown h cs (fst dw) (fst dw')"
  using assms
proof (induction cs arbitrary: i dw)
  case (Cons c cs)
  obtain d w where r: "some_reads (length (d_reads (fst dw))) h dw = (d, w)" by (metis surj_pair)
  have d: "d_asks d = d_asks (fst dw)" "length (d_results d) = length (d_results (fst dw))"
    using some_reads_same [of dw "length (d_reads (fst dw))" h] r by (simp_all add: same_batch_def)
  obtain e call w2 where e: "emitToolCall h c w = ((e, call), w2)" by (metis surj_pair)
  have e0: "e = None" using Cons.prems(1) r e by (cases e) (auto simp: Let_def)
  note step = asks_grown_Cons [OF emitToolCall_asked [OF e [unfolded e0]], where d = "fst dw" and cs = cs and d' = "fst dw'"]
  let ?d = "d\<lparr>d_asks := d_asks d @ [call]\<rparr>"
  show ?case
  proof (cases "refused (tc_id call)")
    case (Some x)
    with Cons.IH [of "Suc i" "(?d\<lparr>d_results := (d_results d)[i := x]\<rparr>, w2)"] Cons.prems r e e0 d show ?thesis
      by (intro step) (simp_all add: Let_def)
  next
    case None
    show ?thesis
    proof (cases "is_readonly (h_tools h) (tc_name call)")
      case True
      with None Cons.IH [of "Suc i" "(?d\<lparr>d_reads := d_reads d @ [(i, call)]\<rparr>, w2)"] Cons.prems r e e0 d show ?thesis
        by (intro step) (simp_all add: Let_def)
    next
      case False
      obtain ae dw3 where a: "resolve_at h i call (wait_reads h (?d, w2)) = (ae, dw3)" by (metis surj_pair)
      have s: "same_batch ?d (fst dw3)"
        using same_batch_trans [OF all_reads_same [of "(?d, w2)"] resolve_at_same] a by (metis fst_conv snd_conv wait_reads_def)
      show ?thesis
      proof (cases ae)
        case (Some x)
        with a resolve_at_err [of h i call "wait_reads h (?d, w2)"] have "d_err (fst dw3) \<noteq> None" by simp
        with Cons.prems r e e0 None False a Some show ?thesis by (auto simp: Let_def)
      next
        case ok: None
        with Cons.IH [of "Suc i" dw3] Cons.prems r e e0 None False a have "asks_grown h cs (fst dw3) (fst dw')"
          by (simp add: Let_def)
        then show ?thesis by (rule step [rotated 2]) (use s d in \<open>simp_all add: same_batch_def\<close>)
      qed
    qed
  qed
qed (simp add: asks_grown_def)

lemma run_calls_lengths:
  assumes "run_calls h refused calls w = ((None, d), w')"
  shows "length (d_asks d) = length calls" "length (d_results d) = length calls" "list_all2 (asked_as h) calls (d_asks d)"
proof -
  obtain e dw where e: "dispatch_calls h refused calls 0 (new_dispatch (length calls), w) = (e, dw)" by (metis surj_pair)
  obtain d' w2 where d: "wait_reads h dw = (d', w2)" by (metis surj_pair)
  from assms e d have x: "e = None" "d' = d" "d_err d = None" by (auto simp: run_calls_def split: if_splits)
  have s: "same_batch (fst dw) d" using all_reads_same [of dw "length (d_reads (fst dw))" h] d x by (simp add: wait_reads_def)
  with x have "d_err (fst dw) = None" by (auto simp: same_batch_def)
  with dispatch_calls_asks [of h refused calls 0 "(new_dispatch (length calls), w)" dw] e x s
  show "length (d_asks d) = length calls" "length (d_results d) = length calls" "list_all2 (asked_as h) calls (d_asks d)"
    by (auto simp: same_batch_def new_dispatch_def asks_grown_def dest: list_all2_lengthD)
qed

section \<open>What each result is\<close>

text \<open>
  The result at a position is the refusal the call met while it streamed, or what resolving the call the
  host left there gave, in some world. \<open>batch_inv\<close> holds of a dispatch while no approval has failed.
\<close>

definition resolved :: "'h host \<Rightarrow> (string \<rightharpoonup> ToolResult) \<Rightarrow> ToolCall \<Rightarrow> ToolResult \<Rightarrow> bool" where
  "resolved h refused c r \<longleftrightarrow> refused (tc_id c) = Some r
     \<or> (\<exists>w w'. resolveCall (h_tools h) (h_approver h) (h_unknownTool h) c w = ((r, None), w'))"

definition batch_inv :: "'h host \<Rightarrow> (string \<rightharpoonup> ToolResult) \<Rightarrow> dispatch \<Rightarrow> bool" where
  "batch_inv h refused d \<longleftrightarrow> (d_err d = None \<longrightarrow> length (d_asks d) \<le> length (d_results d)
     \<and> (\<forall>i<length (d_asks d). (i, d_asks d ! i) \<in> set (d_reads d) \<or> resolved h refused (d_asks d ! i) (d_results d ! i))
     \<and> (\<forall>(i, c)\<in>set (d_reads d). i < length (d_asks d) \<and> c = d_asks d ! i))"

lemma set_remove_nth: "k < length xs \<Longrightarrow> set xs = insert (xs ! k) (set (remove_nth k xs))"
  by (subst id_take_nth_drop [of k xs]) (auto simp: remove_nth_def)

text \<open>Resolving the call asked at position \<open>i\<close> keeps the invariant, whether or not a read of it was taken off the list.\<close>

lemma resolve_at_inv:
  assumes "batch_inv h refused d" "d_err d = None \<Longrightarrow> i < length (d_asks d) \<and> c = d_asks d ! i"
    and "set (d_reads d) \<subseteq> insert (i, c) (set rs)" "set rs \<subseteq> set (d_reads d)"
  shows "batch_inv h refused (fst (snd (resolve_at h i c (d\<lparr>d_reads := rs\<rparr>, w))))"
proof -
  obtain r e w' where r: "resolveCall (h_tools h) (h_approver h) (h_unknownTool h) c w = ((r, e), w')" by (metis surj_pair)
  let ?d = "d\<lparr>d_reads := rs, d_results := (d_results d)[i := r], d_err := (if d_err d = None then e else d_err d)\<rparr>"
  have "batch_inv h refused ?d"
  proof (cases "d_err d = None \<and> e = None")
    case True
    then have inv: "length (d_asks d) \<le> length (d_results d)"
      "\<And>j. j < length (d_asks d) \<Longrightarrow> (j, d_asks d ! j) \<in> set (d_reads d) \<or> resolved h refused (d_asks d ! j) (d_results d ! j)"
      "\<And>j b. (j, b) \<in> set (d_reads d) \<Longrightarrow> j < length (d_asks d) \<and> b = d_asks d ! j"
      and i: "i < length (d_asks d)" "c = d_asks d ! i"
      using assms(1,2) by (auto simp: batch_inv_def)
    have res: "resolved h refused c r" using r True by (auto simp: resolved_def)
    have "(j, d_asks d ! j) \<in> set rs \<or> resolved h refused (d_asks d ! j) ((d_results d)[i := r] ! j)"
      if "j < length (d_asks d)" for j
      using inv(1) inv(2) [OF that] res i assms(3) by (cases "j = i") auto
    with inv(1,3) assms(4) True show ?thesis by (auto simp: batch_inv_def)
  qed (auto simp: batch_inv_def)
  with r show ?thesis by (cases "d_err d") (simp_all add: resolve_at_def Let_def)
qed

lemma run_read_inv:
  assumes "batch_inv h refused (fst dw)" "k < length (d_reads (fst dw))"
  shows "batch_inv h refused (fst (run_read h k dw))"
proof -
  obtain i c where ic: "d_reads (fst dw) ! k = (i, c)" by (metis surj_pair)
  have s: "set (d_reads (fst dw)) = insert (i, c) (set (remove_nth k (d_reads (fst dw))))"
    using set_remove_nth [OF assms(2)] ic by simp
  have "batch_inv h refused (fst (snd (resolve_at h i c ((fst dw)\<lparr>d_reads := remove_nth k (d_reads (fst dw))\<rparr>, snd dw))))"
    by (rule resolve_at_inv [OF assms(1)]) (use s assms(1) in \<open>auto simp: batch_inv_def\<close>)
  with ic show ?thesis by (simp add: run_read_def Let_def)
qed

lemma some_reads_inv: "batch_inv h refused (fst dw) \<Longrightarrow> batch_inv h refused (fst (some_reads n h dw))"
proof (induction n arbitrary: dw)
  case (Suc n)
  obtain k w where k: "h_sched h (d_reads (fst dw)) (snd dw) = (k, w)" by (metis surj_pair)
  have "batch_inv h refused (fst (run_read h j (fst dw, w)))" if "j < length (d_reads (fst dw))" for j
    using run_read_inv [of h refused "(fst dw, w)" j] Suc.prems that by simp
  with k Suc show ?case by (simp split: option.splits)
qed simp

lemma all_reads_inv:
  assumes "batch_inv h refused (fst dw)" "n = length (d_reads (fst dw))"
  shows "batch_inv h refused (fst (all_reads n h dw)) \<and> d_reads (fst (all_reads n h dw)) = []"
  using assms
proof (induction n arbitrary: dw)
  case (Suc n)
  obtain k w where k: "h_sched h (d_reads (fst dw)) (snd dw) = (k, w)" by (metis surj_pair)
  let ?k = "case k of Some k \<Rightarrow> if k < length (d_reads (fst dw)) then k else 0 | None \<Rightarrow> 0"
  have lt: "?k < length (d_reads (fst dw))" using Suc.prems(2) by (cases "d_reads (fst dw)") (auto split: option.splits)
  obtain i c where ic: "d_reads (fst dw) ! ?k = (i, c)" by (metis surj_pair)
  have "d_reads (fst (snd (resolve_at h i c (d, v)))) = d_reads d" for d v
    by (simp add: resolve_at_def Let_def split: prod.splits)
  with ic have "d_reads (fst (run_read h ?k (fst dw, w))) = remove_nth ?k (d_reads (fst dw))"
    by (simp add: run_read_def Let_def)
  moreover have "length (remove_nth ?k (d_reads (fst dw))) = n" using lt Suc.prems(2) by (simp add: remove_nth_def)
  ultimately have "batch_inv h refused (fst (all_reads n h (run_read h ?k (fst dw, w))))
      \<and> d_reads (fst (all_reads n h (run_read h ?k (fst dw, w)))) = []"
    using run_read_inv [of h refused "(fst dw, w)" ?k] Suc.prems(1) lt by (intro Suc.IH) simp_all
  with k show ?case by (simp add: Let_def)
qed simp

lemma wait_reads_inv:
  "batch_inv h refused (fst dw) \<Longrightarrow> batch_inv h refused (fst (wait_reads h dw)) \<and> d_reads (fst (wait_reads h dw)) = []"
  unfolding wait_reads_def by (rule all_reads_inv) simp_all

text \<open>The waits do not look at the asks, and the hooks' view of a call joins them at the end.\<close>

lemma run_read_asks:
  "run_read h k (d\<lparr>d_asks := x\<rparr>, w) = ((fst (run_read h k (d, w)))\<lparr>d_asks := x\<rparr>, snd (run_read h k (d, w)))"
  by (simp add: run_read_def resolve_at_def Let_def split: prod.splits)

lemma all_reads_asks:
  "all_reads n h (d\<lparr>d_asks := x\<rparr>, w) = ((fst (all_reads n h (d, w)))\<lparr>d_asks := x\<rparr>, snd (all_reads n h (d, w)))"
proof (induction n arbitrary: d w)
  case (Suc n)
  obtain k v where k: "h_sched h (d_reads d) w = (k, v)" by (metis surj_pair)
  then show ?case by (cases k) (simp_all add: run_read_asks Suc.IH Let_def)
qed simp

lemma batch_inv_ask:
  assumes "batch_inv h refused d" "length (d_asks d) = i" "i < length (d_results d)"
    and "length rs = length (d_results d)" "\<forall>j<i. rs ! j = d_results d ! j"
    and "(i, call) \<in> set new \<or> resolved h refused call (rs ! i)" "set new \<subseteq> {(i, call)}"
  shows "batch_inv h refused (d\<lparr>d_asks := d_asks d @ [call], d_results := rs, d_reads := d_reads d @ new\<rparr>)"
  using assms by (auto simp: batch_inv_def nth_append less_Suc_eq)

lemma dispatch_calls_inv:
  assumes "batch_inv h refused (fst dw)" "length (d_asks (fst dw)) = i" "i + length cs \<le> length (d_results (fst dw))"
  shows "batch_inv h refused (fst (snd (dispatch_calls h refused cs i dw)))"
  using assms
proof (induction cs arbitrary: i dw)
  case (Cons c cs)
  obtain d w where r: "some_reads (length (d_reads (fst dw))) h dw = (d, w)" by (metis surj_pair)
  have d: "d_asks d = d_asks (fst dw)" "length (d_results d) = length (d_results (fst dw))" "batch_inv h refused d"
    using some_reads_same [of dw "length (d_reads (fst dw))" h] some_reads_inv [OF Cons.prems(1), of "length (d_reads (fst dw))"] r
    by (simp_all add: same_batch_def)
  obtain e call w2 where e: "emitToolCall h c w = ((e, call), w2)" by (metis surj_pair)
  let ?d = "d\<lparr>d_asks := d_asks d @ [call]\<rparr>"
  have n: "length (d_asks d) = i" "i < length (d_results d)" using d Cons.prems(2,3) by simp_all
  note grown = batch_inv_ask [OF d(3) n, where call = call]
  show ?case
  proof (cases e)
    case (Some x)
    with r e d show ?thesis by simp
  next
    case e0: None
    show ?thesis
    proof (cases "refused (tc_id call)")
      case (Some x)
      have "batch_inv h refused (?d\<lparr>d_results := (d_results d)[i := x]\<rparr>)"
        using grown [of "(d_results d)[i := x]" "[]"] n Some by (auto simp: resolved_def)
      with Cons.IH [of "(?d\<lparr>d_results := (d_results d)[i := x]\<rparr>, w2)" "Suc i"] r e e0 d Some Cons.prems(2,3) show ?thesis
        by (simp add: Let_def)
    next
      case None
      show ?thesis
      proof (cases "is_readonly (h_tools h) (tc_name call)")
        case True
        have "batch_inv h refused (?d\<lparr>d_reads := d_reads d @ [(i, call)]\<rparr>)"
          using grown [of "d_results d" "[(i, call)]"] by auto
        with Cons.IH [of "(?d\<lparr>d_reads := d_reads d @ [(i, call)]\<rparr>, w2)" "Suc i"] None True r e e0 d Cons.prems(2,3) show ?thesis
          by (simp add: Let_def)
      next
        case False
        obtain d3 w3 where v: "wait_reads h (d, w2) = (d3, w3)" by (metis surj_pair)
        have d3: "batch_inv h refused d3" "d_reads d3 = []" "same_batch d d3"
          using wait_reads_inv [of h refused "(d, w2)"] all_reads_same [of "(d, w2)" "length (d_reads d)" h] v d(3)
          by (simp_all add: wait_reads_def)
        let ?e = "d3\<lparr>d_asks := d_asks d @ [call]\<rparr>"
        have v': "wait_reads h (?d, w2) = (?e, w3)" using v by (simp add: wait_reads_def all_reads_asks)
        obtain ae dw4 where a: "resolve_at h i call (?e, w3) = (ae, dw4)" by (metis surj_pair)
        have same: "d_asks d3 = d_asks d" "length (d_results d3) = length (d_results d)" using d3(3) by (simp_all add: same_batch_def)
        have "batch_inv h refused (?e\<lparr>d_reads := [(i, call)]\<rparr>)"
          using batch_inv_ask [OF d3(1), of i "d_results d3" call "[(i, call)]"] same n d3(2) by simp
        from resolve_at_inv [OF this, of i call "[]" w3] have r4: "batch_inv h refused (fst (snd (resolve_at h i call (?e\<lparr>d_reads := []\<rparr>, w3))))"
          using n same by (simp add: nth_append)
        have "?e\<lparr>d_reads := []\<rparr> = ?e" using d3(2) by (cases d3) simp
        with r4 a have "batch_inv h refused (fst dw4)" by simp
        moreover have "length (d_asks (fst dw4)) = Suc i \<and> length (d_results (fst dw4)) = length (d_results d)"
          using resolve_at_same [of "(?e, w3)" h i call] a n same by (simp add: same_batch_def)
        ultimately have b: "batch_inv h refused (fst dw4)" "length (d_asks (fst dw4)) = Suc i"
          "Suc i + length cs \<le> length (d_results (fst dw4))"
          using d Cons.prems(3) by simp_all
        from Cons.IH [OF this] b(1) None False r e e0 v' a show ?thesis by (simp add: Let_def)
      qed
    qed
  qed
qed simp

lemma run_calls_resolved:
  assumes "run_calls h refused calls w = ((None, d), w')"
  shows "d_reads d = []" "i < length calls \<Longrightarrow> resolved h refused (d_asks d ! i) (d_results d ! i)"
proof -
  obtain e dw where e: "dispatch_calls h refused calls 0 (new_dispatch (length calls), w) = (e, dw)" by (metis surj_pair)
  obtain d' w2 where d: "wait_reads h dw = (d', w2)" by (metis surj_pair)
  from assms e d have x: "d' = d" "d_err d = None" by (auto simp: run_calls_def split: if_splits)
  have "batch_inv h refused (new_dispatch n)" for n by (simp add: batch_inv_def new_dispatch_def)
  from dispatch_calls_inv [of h refused "(new_dispatch (length calls), w)" 0 calls] this e
  have "batch_inv h refused (fst dw)" by (simp add: new_dispatch_def)
  from wait_reads_inv [OF this] d x have inv: "batch_inv h refused d" "d_reads d = []" by simp_all
  show "d_reads d = []" by (rule inv(2))
  show "i < length calls \<Longrightarrow> resolved h refused (d_asks d ! i) (d_results d ! i)"
    using inv x(2) run_calls_lengths [OF assms] by (auto simp: batch_inv_def)
qed

end
