(* ===== verification/RunLoop.thy ===== *)
theory RunLoop
  imports RunBatch
begin

text \<open>
  The run itself, \<open>runOn\<close> of \<open>internal/loop/run_loop.go\<close>: its turns, its ends and its deferred calls. A
  turn is a statement that gives the number of the next turn, or ends the run. \<open>run_turns\<close> follows the
  loop for as many rounds as its first argument says.
\<close>

section \<open>The start of a turn\<close>

definition ResourceNoticeKind :: string where "ResourceNoticeKind = ''resource_notice''"

definition deliver_reports :: "'h host \<Rightarrow> SubagentReport list \<Rightarrow> nat \<Rightarrow> (unit, 'h) run" where
  "deliver_reports h reports lost =
     and_then (subs_running h) (\<lambda>still. deliver h (FormatSubagentDelivery (h_quote h) reports still lost))"

definition forget_last :: "(unit, 'h) run" where
  "forget_last = modify (\<lambda>st. st\<lparr>r_lastComp := None, r_states := no_check\<rparr>)"

definition forget_sent :: "(unit, 'h) run" where
  "forget_sent = modify (\<lambda>st. st\<lparr>r_lastSent := 0\<rparr>)"

definition poll_resources :: "'h host \<Rightarrow> (unit, 'h) run" where
  "poll_resources h =
     (case h_watcher h of
        None \<Rightarrow> ret ()
      | Some poll \<Rightarrow>
          and_then (on_world poll) (\<lambda>p.
          and_then (get_state (\<lambda>st. h_ctx h (r_world st))) (\<lambda>ctxErr.
          if snd p \<noteq> None \<and> ctxErr \<noteq> None then stop_with (the ctxErr)
          else
            (let pl = (case snd p of
                         None \<Rightarrow> fst p
                       | Some perr \<Rightarrow> (fst p)\<lparr>rp_warnings := rp_warnings (fst p) @
                           [''the resource watch itself failed this turn ('' @ error_text perr
                            @ ''), so no resource is known to be current'']\<rparr>)
             in if poll_empty pl then ret ()
                else
                  (let content = FormatResourceNotice (h_quote h) pl (h_diffTool h) in
                   and_then (on_world (h_notice h content (map rc_id (rp_changes pl)))) (\<lambda>hostID.
                   then_do (on_sess (appendFlat (h_newid h) ((empty_message RoleUser)\<lparr>msg_id := hostID,
                     msg_kind := ResourceNoticeKind, msg_content := content\<rparr>))) (ret ())))))))"

definition turn_start :: "'h host \<Rightarrow> Request \<Rightarrow> nat \<Rightarrow> (unit, 'h) run" where
  "turn_start h req turn =
     and_then (compactHere h req) (\<lambda>compacted.
     then_do (when_do compacted (then_do forget_last forget_sent))
     (and_then (if turn > 0 then subs_pending h else ret False) (\<lambda>pending.
      then_do (when_do pending (and_then (subs_take h) (\<lambda>reports.
        when_do (reports \<noteq> []) (deliver_reports h reports 0))))
      (then_do (drain h)
      (then_do (drainInboxNow h)
      (then_do (poll_resources h)
      (and_then (capToWindow h req) (\<lambda>ce.
       case snd ce of
         Some e \<Rightarrow> stop_with e
       | None \<Rightarrow>
           then_do (when_do (fst ce) forget_last)
             (tell_host (h_turnHook h (Suc turn)))))))))))"

section \<open>The call of a turn\<close>

text \<open>The host's row for the turn; a host that cannot mint one ends the run.\<close>

definition mint_row :: "'h host \<Rightarrow> (string, 'h) run" where
  "mint_row h =
     and_then (get_state (\<lambda>st. let ms = messages st in if ms = [] then [] else msg_id (last ms))) (\<lambda>parentID.
     and_then (on_world (h_assistant h parentID)) (\<lambda>r.
     then_do (modify (\<lambda>st. st\<lparr>r_current := fst r\<rparr>))
     (case snd r of
        Some aerr \<Rightarrow> then_do (finalizeAssistant h (fst r) None ''error'') (stop_with aerr)
      | None \<Rightarrow> ret (fst r))))"

definition is_cancelled :: "go_error \<Rightarrow> bool" where
  "is_cancelled e \<longleftrightarrow> error_is e Canceled \<or> error_is e DeadlineExceeded"

definition call_failed :: "'h host \<Rightarrow> modelCall \<Rightarrow> string \<Rightarrow> go_error \<Rightarrow> ('a, 'h) run" where
  "call_failed h mc i err =
     (let status = (if is_cancelled err then ''cancelled'' else ''error'') in
      then_do (omit h (mc_nodes mc) (''the call ended before this tool ran: '' @ error_text err))
      (if mc_comp mc \<noteq> None \<or> mc_nodes mc \<noteq> []
       then and_then (get_state (\<lambda>st. withoutCalls (call_message (r_sess st) mc) i)) (\<lambda>partial.
            then_do (finalizeAssistant h i (Some partial) status) (done_with partial (Some err)))
       else then_do (finalizeAssistant h i None status) (stop_with err)))"

text \<open>A call refused as larger than the window is compacted once per turn and asked again.\<close>

definition retry_overflow :: "'h host \<Rightarrow> Request \<Rightarrow> nat \<Rightarrow> modelCall \<Rightarrow> string \<Rightarrow> go_error \<Rightarrow> (bool, 'h) run" where
  "retry_overflow h req turn mc i err =
     and_then (get_state r_overflow) (\<lambda>ov.
     if IsContextOverflow (Some err) \<and> f64_pos (rq_autoCompact req) \<and> mc_comp mc = None \<and> mc_nodes mc = [] \<and> ov \<noteq> Some turn
     then
       then_do (modify (\<lambda>st. st\<lparr>r_overflow := Some turn\<rparr>))
       (and_then (compactNow h req) (\<lambda>compacted.
        if compacted
        then then_do (finalizeAssistant h i None ''error'')
             (then_do forget_last (then_do forget_sent (ret True)))
        else ret False))
     else ret False)"

text \<open>The checks that report and never end the run, and the window of a model served under another name.\<close>

definition check_states :: "'h host \<Rightarrow> nat \<Rightarrow> Message list \<Rightarrow> Completion option \<Rightarrow> (unit, 'h) run" where
  "check_states h turn msgs cm =
     and_then (run_fn (\<lambda>st. let (l, sc) = observe (Suc turn) msgs cm (r_states st) in (l, st\<lparr>r_states := sc\<rparr>))) (\<lambda>loss.
     then_do (record_lost h loss)
     (and_then (run_fn (\<lambda>st. let (l, s) = checkMonotonic (h_hash h) (h_quote h) (Suc turn) (r_sess st)
        in (l, st\<lparr>r_sess := s\<rparr>))) (record_lost h)))"

section \<open>The end of a turn without tools\<close>

text \<open>The turn's text for the host; one that wrote nothing gets its reasoning or a placeholder, on the tree too.\<close>

definition written_answer :: "'h host \<Rightarrow> Message \<Rightarrow> modelCall \<Rightarrow> string \<Rightarrow> (Message, 'h) run" where
  "written_answer h assistant mc i =
     (let final = withoutCalls assistant i in
      if trim_space (msg_content final) = []
      then then_do (on_sess (addText (h_newid h) (mc_rec mc) (fallbackOutput assistant)))
             (ret (final\<lparr>msg_content := fallbackOutput assistant\<rparr>))
      else ret final)"

text \<open>Sub-agents still out when the model asked for no tools: whether the turn is over.\<close>

definition wait_subagents :: "'h host \<Rightarrow> nat \<Rightarrow> Message \<Rightarrow> modelCall \<Rightarrow> string \<Rightarrow> (bool, 'h) run" where
  "wait_subagents h turn assistant mc i =
     and_then (subs_pending h) (\<lambda>pending.
     if \<not> pending then ret False
     else if h_maxTurns h > 0 \<and> int turn \<ge> h_maxTurns h - 1 then
       and_then (subs_take h) (\<lambda>reports.
       and_then (subs_cancel h) (\<lambda>lost.
       if reports = [] \<and> lost = 0 then ret False
       else
         and_then (written_answer h assistant mc i) (\<lambda>final.
         then_do (finalizeAssistant h i (Some final) ''complete'')
         (then_do (deliver_reports h reports lost)
         (then_do (drain h) (done_with final None))))))
     else
       and_then (subs_collect (h_rounds h) h) (\<lambda>rc.
       case snd rc of
         Some cerr \<Rightarrow>
           if is_cancelled cerr
           then and_then (written_answer h assistant mc i) (\<lambda>final.
                then_do (finalizeAssistant h i (Some final) ''cancelled'') (done_with final None))
           else stop_with cerr
       | None \<Rightarrow>
           if fst rc = [] then ret False
           else
             then_do (when_do (trim_space (msg_content assistant) \<noteq> [])
               (finalizeAssistant h i (Some (withoutCalls assistant i)) ''complete''))
             (then_do (deliver_reports h (fst rc) 0) (ret True))))"

definition WrapUpKind :: string where "WrapUpKind = ''wrap_up''"

definition wrapUpInstruction :: string where
  "wrapUpInstruction =
     ''Stop researching and write your final answer now, using only the information already gathered above. ''
     @ ''Do not call any tools and do not keep thinking -- output the complete, self-contained report that directly answers the task.''"

text \<open>The wrap-up call of a turn that only reasoned: whether it wrote the answer.\<close>

definition wrap_up :: "'h host \<Rightarrow> (Request, 'h world) provider \<Rightarrow> Request \<Rightarrow> nat \<Rightarrow> string \<Rightarrow> (bool, 'h) run" where
  "wrap_up h p req turn i =
     then_do (on_sess (appendFlat (h_newid h) ((empty_message RoleUser)\<lparr>msg_kind := WrapUpKind, msg_content := wrapUpInstruction\<rparr>)))
     (and_then (get_state messages) (\<lambda>msgs.
      and_then (runModelCall h p req (turn + 2) msgs [] []) (\<lambda>mce.
      and_then (get_state (\<lambda>st. call_message (r_sess st) (fst mce))) (\<lambda>m.
      then_do (omit h (mc_nodes (fst mce)) ''the run is ending, so this tool call was not run'')
      (if snd mce = None \<and> trim_space (msg_content m) \<noteq> []
       then then_do (answer h turn (mc_comp (fst mce)) i (withoutCalls m i)) (ret True)
       else ret False)))))"

definition final_turn :: "'h host \<Rightarrow> (Request, 'h world) provider \<Rightarrow> Request \<Rightarrow> nat \<Rightarrow> Message \<Rightarrow> modelCall \<Rightarrow> string \<Rightarrow> (unit, 'h) run" where
  "final_turn h p req turn assistant mc i =
     then_do (omit h (mc_nodes mc) ''the run is ending, so this tool call was not run'')
     (and_then (wait_subagents h turn assistant mc i) (\<lambda>over.
      if over then ret ()
      else if trim_space (msg_content assistant) \<noteq> []
      then answer h turn (mc_comp mc) i (withoutCalls assistant i)
      else
        and_then (queue_pending h) (\<lambda>pending.
        if pending \<and> moreTurnsAllowed h turn
        then and_then (written_answer h assistant mc i) (\<lambda>stalled.
             finalizeAssistant h i (Some stalled) ''complete'')
        else
          and_then (if h_tools h \<noteq> [] \<and> moreTurnsAllowed h turn then wrap_up h p req turn i else ret False) (\<lambda>wrapped.
          if wrapped then ret ()
          else and_then (written_answer h assistant mc i) (\<lambda>final. answer h turn (mc_comp mc) i final)))))"

section \<open>Turns\<close>

definition called :: "'h host \<Rightarrow> (Request, 'h world) provider \<Rightarrow> Request \<Rightarrow> nat \<Rightarrow> Message list \<Rightarrow> modelCall \<Rightarrow> string \<Rightarrow> (nat, 'h) run" where
  "called h p req turn msgs mc i =
     and_then (get_state (\<lambda>st. let m = call_message (r_sess st) mc in if i \<noteq> [] then m\<lparr>msg_id := i\<rparr> else m)) (\<lambda>assistant.
     then_do (check_states h turn msgs (mc_comp mc))
     (then_do (modify (\<lambda>st. st\<lparr>r_lastComp := mc_comp mc\<rparr>))
     (and_then (resolveServedWindow h req (mc_comp mc)) (\<lambda>werr.
      case werr of
        Some e \<Rightarrow>
          (let stopped = withoutCalls assistant i in
           then_do (omit h (mc_nodes mc) (''the run stopped before this tool ran: '' @ error_text e))
           (then_do (finalizeAssistant h i (Some stopped) ''error'') (done_with stopped (Some e))))
      | None \<Rightarrow>
          then_do (if msg_calls assistant \<noteq> [] \<and> moreTurnsAllowed h turn
                   then tool_turn h i assistant mc else final_turn h p req turn assistant mc i)
            (ret (Suc turn))))))"

definition run_turn :: "'h host \<Rightarrow> (Request, 'h world) provider \<Rightarrow> Request \<Rightarrow> nat \<Rightarrow> (nat, 'h) run" where
  "run_turn h p req turn =
     then_do (turn_start h req turn)
     (and_then (mint_row h) (\<lambda>i.
      and_then (run_fn (\<lambda>st. (messages st, st\<lparr>r_lastSent := length (messages st)\<rparr>))) (\<lambda>msgs.
      (let tools = (if h_maxTurns h > 0 \<and> int turn = h_maxTurns h - 1 then [] else Decls (h_tools h)) in
       and_then (runModelCall h p req (Suc turn) msgs tools i) (\<lambda>mce.
       case snd mce of
         Some err \<Rightarrow>
           and_then (retry_overflow h req turn (fst mce) i err) (\<lambda>again.
           if again then ret turn else call_failed h (fst mce) i err)
       | None \<Rightarrow> called h p req turn msgs (fst mce) i)))))"

text \<open>The cap ended the loop: what sub-agents left is told, and the run ends on the placeholder.\<close>

definition capped_end :: "'h host \<Rightarrow> ('a, 'h) run" where
  "capped_end h =
     and_then (subs_pending h) (\<lambda>pending.
     then_do (when_do pending
       (and_then (subs_take h) (\<lambda>reports.
        and_then (subs_cancel h) (\<lambda>lost.
        when_do (reports \<noteq> [] \<or> lost > 0)
          (and_then (subs_running h) (\<lambda>still.
           announce h ((empty_message RoleUser)\<lparr>msg_kind := SubagentReportKind,
             msg_content := FormatSubagentDelivery (h_quote h) reports still lost\<rparr>)))))))
     (let final = (empty_message RoleAssistant)\<lparr>msg_content := noOutputPlaceholder\<rparr> in
      then_do (on_sess (appendFlat (h_newid h) final)) (done_with final None)))"

primrec run_turns :: "nat \<Rightarrow> 'h host \<Rightarrow> (Request, 'h world) provider \<Rightarrow> Request \<Rightarrow> nat \<Rightarrow> (unit, 'h) run" where
  "run_turns 0 h p req turn = exit_with StillGoing"
| "run_turns (Suc fuel) h p req turn =
     (if h_maxTurns h > 0 \<and> int turn \<ge> h_maxTurns h then capped_end h
      else and_then (run_turn h p req turn) (\<lambda>next. run_turns fuel h p req next))"

section \<open>The run\<close>

definition start_state :: "'h host \<Rightarrow> session \<Rightarrow> 'h world \<Rightarrow> 'h rstate" where
  "start_state h s w = \<lparr>r_sess = s, r_world = w, r_res = new_result,
     r_dedup = (if h_disableDedup h then None else Some NewOutputDeduper), r_elapsed = h_elapsed h,
     r_lastBatch = [], r_repeats = 0, r_lastComp = None, r_states = no_check, r_losses = no_losses, r_lastSent = 0,
     r_asked = [], r_overflow = None, r_current = [], r_window = 0, r_reported = False\<rparr>"

text \<open>The deferred calls, the last registered first: an open row of a panicking run is closed, then the queue is.\<close>

definition deferred :: "'h host \<Rightarrow> run_exit \<Rightarrow> 'h rstate \<Rightarrow> 'h rstate" where
  "deferred h e st =
     (let st = (case e of
                  Panicked _ \<Rightarrow> if r_current st \<noteq> [] then snd (finalizeAssistant h (r_current st) None ''error'' st) else st
                | _ \<Rightarrow> st);
          w = h_tick h (r_world st);
          (left, q) = Close list_queue (w_queue w)
      in st\<lparr>r_world := w\<lparr>w_queue := q\<rparr>, r_res := (if left \<noteq> [] then (r_res st)\<lparr>res_undelivered := left\<rparr> else r_res st)\<rparr>)"

definition runOn :: "nat \<Rightarrow> 'h host \<Rightarrow> Request \<Rightarrow> session \<Rightarrow> 'h world \<Rightarrow> run_exit \<times> 'h rstate" where
  "runOn fuel h req s w =
     (let st = start_state h s w in
      case h_provider h of
        None \<Rightarrow> (Refused (RequestError ''agentic: Config.Provider is required''), st)
      | Some p \<Rightarrow>
          (case checkWindowConfig (h_fallback h) (h_override h) of
             Some e \<Rightarrow> (Refused e, st)
           | None \<Rightarrow>
               (case resolveContextWindow h req st of
                  (Inl e, st) \<Rightarrow> (e, st)
                | (Inr (Some e), st) \<Rightarrow> (Refused e, st)
                | (Inr None, st) \<Rightarrow>
                    (let st = st\<lparr>r_sess := snd (checkMonotonic (h_hash h) (h_quote h) 0 (r_sess st))\<rparr> in
                     case run_turns fuel h p req 0 st of
                       (Inr _, st) \<Rightarrow> (StillGoing, st)
                     | (Inl StillGoing, st) \<Rightarrow> (StillGoing, st)
                     | (Inl e, st) \<Rightarrow> (e, deferred h e st)))))"

end
