(* ===== verification/RunProps.thy ===== *)
theory RunProps
  imports RunLoop
begin

text \<open>
  The steps of a run and what they keep. The three locales hold what a property of the run's state has to
  promise for the steps that stay off the session, for those that append to it, and for those that end the
  run; their lemmas walk each step once. They are interpreted for the conversation (it only grows, and only
  the turn's own calls are open) and for the count of model calls.
\<close>

section \<open>Case analysis\<close>

lemma keeps_case_sum [keeps_intros]:
  "(\<And>x. v = Inl x \<Longrightarrow> keeps I E (f x)) \<Longrightarrow> (\<And>y. v = Inr y \<Longrightarrow> keeps I E (g y)) \<Longrightarrow>
   keeps I E (case v of Inl x \<Rightarrow> f x | Inr y \<Rightarrow> g y)"
  by (cases v) auto

lemma keeps_case_check [keeps_intros]:
  "(\<And>x. v = Collected x \<Longrightarrow> keeps I E (f x)) \<Longrightarrow> keeps I E m \<Longrightarrow> keeps I E n \<Longrightarrow>
   keeps I E (case v of Collected x \<Rightarrow> f x | NothingOut \<Rightarrow> m | MustWait \<Rightarrow> n)"
  by (cases v) auto

lemma keeps_case_woken [keeps_intros]:
  "(\<And>x. v = ByContext x \<Longrightarrow> keeps I E (f x)) \<Longrightarrow> keeps I E m \<Longrightarrow>
   keeps I E (case v of ByContext x \<Rightarrow> f x | BySignal \<Rightarrow> m)"
  by (cases v) auto

lemma keeps_case_served [keeps_intros]:
  "(\<And>x y. v = ServedWindow x y \<Longrightarrow> keeps I E (f x y)) \<Longrightarrow> keeps I E m \<Longrightarrow> (\<And>es. v = NoneServed es \<Longrightarrow> keeps I E (g es)) \<Longrightarrow>
   keeps I E (case v of ServedWindow x y \<Rightarrow> f x y | NoList \<Rightarrow> m | NoneServed es \<Rightarrow> g es)"
  by (cases v) auto

section \<open>Steps off the session\<close>

locale outside_steps =
  fixes h :: "'h host" and I :: "'h rstate \<Rightarrow> bool" and E :: "run_exit \<Rightarrow> 'h rstate \<Rightarrow> bool"
  assumes frame: "I st \<Longrightarrow> r_sess st' = r_sess st \<Longrightarrow> r_overflow st' = r_overflow st \<Longrightarrow>
      res_turns (r_res st') = res_turns (r_res st) \<Longrightarrow> res_stateLosses (r_res st') = res_stateLosses (r_res st) \<Longrightarrow> I st'"
    and inbox: "keeps I E (drainInbox h)"
    and collect: "keeps I E (subs_collect (h_rounds h) h)"
    and check: "keeps I E (check_states h turn msgs cm)"
begin

lemma on_world_keeps [keeps_intros]: "keeps I E (on_world f)"
  unfolding on_world_def by (rule keeps_run_fn) (auto elim: frame split: prod.splits)

lemma tell_host_keeps [keeps_intros]: "keeps I E (tell_host f)"
  unfolding tell_host_def by (rule keeps_modify) (auto elim: frame)

lemma set_res_keeps:
  "(\<And>r. res_turns (f r) = res_turns r \<and> res_stateLosses (f r) = res_stateLosses r) \<Longrightarrow> keeps I E (set_res f)"
  unfolding set_res_def by (rule keeps_modify) (auto elim: frame)

lemma save_messages_keeps [keeps_intros]: "keeps I E save_messages"
  unfolding save_messages_def by (rule keeps_modify) (auto elim: frame)

lemma mark_keeps [keeps_intros]: "keeps I E (mark_elapsed h)"
  unfolding mark_elapsed_def by (intro keeps_intros keeps_modify) (auto elim: frame)

lemma use_window_keeps [keeps_intros]: "keeps I E (use_window h n err served)"
  unfolding use_window_def by (intro keeps_intros keeps_modify) (auto elim: frame)

lemma resolveContextWindow_keeps [keeps_intros]: "keeps I E (resolveContextWindow h req)"
  unfolding resolveContextWindow_def by (intro keeps_intros)

lemma resolveServedWindow_keeps [keeps_intros]: "keeps I E (resolveServedWindow h req cm)"
  unfolding resolveServedWindow_def by (intro keeps_intros keeps_modify) (auto elim: frame)

lemma tick_keeps [keeps_intros]: "keeps I E (tick h)"
  unfolding tick_def by (intro keeps_intros)

lemma looks_keep [keeps_intros]:
  "keeps I E (queue_pending h)" "keeps I E (subs_pending h)" "keeps I E (subs_running h)" "keeps I E (subs_take h)"
  "keeps I E (subs_cancel h)"
  unfolding queue_pending_def subs_pending_def subs_running_def subs_take_def subs_cancel_def by (intro keeps_intros)+

lemma finalize_keeps [keeps_intros]: "keeps I E (finalizeAssistant h i m status)"
  unfolding finalizeAssistant_def by (intro keeps_intros keeps_modify) (auto elim: frame)

lemma forget_keeps [keeps_intros]: "keeps I E forget_last" "keeps I E forget_sent"
  unfolding forget_last_def forget_sent_def by (rule keeps_modify, auto elim: frame)+

lemma count_keeps [keeps_intros]: "keeps I E (count_batch calls)"
  unfolding count_batch_def by (rule keeps_run_fn) (auto elim: frame simp: Let_def)

lemma collapse_keeps [keeps_intros]: "keeps I E (collapse_result h name r)"
  unfolding collapse_result_def by (rule keeps_run_fn) (auto elim: frame split: prod.splits option.splits)

lemma last_keeps [keeps_intros]: "keeps I E (modify (\<lambda>st. st\<lparr>r_lastComp := cm\<rparr>))"
  by (rule keeps_modify) (auto elim: frame)

lemma sent_keeps [keeps_intros]: "keeps I E (run_fn (\<lambda>st. (g st, st\<lparr>r_lastSent := n st\<rparr>)))"
  by (rule keeps_run_fn) (auto elim: frame)

lemmas given_keeps [keeps_intros] = check inbox collect

end

section \<open>Steps that append to the session\<close>

text \<open>An operation on the session that leaves the open calls alone; \<open>R\<close> is the record of the turn's model call.\<close>

definition calm :: "nat option \<Rightarrow> (add_error, 'a, session) prog \<Rightarrow> bool" where
  "calm R m \<longleftrightarrow> (\<forall>s. session_wf s \<longrightarrow> (\<forall>r. R = Some r \<longrightarrow> r < length (s_calls s)) \<longrightarrow>
     wp m (\<lambda>_ s'. reaches s s' \<and> open_calls s' = open_calls s \<and> s_index s' = s_index s) (\<lambda>_ s'. reaches s s') s)"

lemma calm_appendFlat: "calm R (appendFlat newid m)"
  unfolding calm_def by (auto intro!: wp_mono [OF appendFlat_spec])

lemma calm_compact: "calm R (s_compact newid summary i)"
  unfolding calm_def by (auto intro!: wp_mono [OF compact_spec])

lemma calm_addText: "calm R (addText newid R txt)"
  unfolding calm_def by (auto intro!: wp_mono [OF addText_spec])

locale session_steps = outside_steps h I E
  for h :: "'h host" and I :: "'h rstate \<Rightarrow> bool" and E :: "run_exit \<Rightarrow> 'h rstate \<Rightarrow> bool" +
  fixes R :: "nat option" and req :: Request
  assumes sess_unit: "calm R (m :: (add_error, unit, session) prog) \<Longrightarrow> keeps I E (on_sess m)"
    and fit: "f64_pos (rq_autoCompact req) \<Longrightarrow> keeps I E (fit_messages h req)"
begin

lemma sess:
  assumes "calm R m"
  shows "keeps I E (on_sess m)"
proof -
  have "calm R (then_do m (ret ()))" using assms by (simp add: calm_def)
  from sess_unit [OF this] show ?thesis by (simp add: keeps_def on_sess_def wp_on_part)
qed

lemma append_keeps [keeps_intros]: "keeps I E (on_sess (appendFlat newid m))"
  by (rule sess) (rule calm_appendFlat)

lemma compact_keeps [keeps_intros]: "keeps I E (on_sess (s_compact newid summary i))"
  by (rule sess) (rule calm_compact)

lemma compactNow_keeps [keeps_intros]: "f64_pos (rq_autoCompact req) \<Longrightarrow> keeps I E (compactNow h req)"
  unfolding compactNow_def by (intro keeps_intros keeps_modify fit) (auto elim: frame)

lemma compactHere_keeps [keeps_intros]: "keeps I E (compactHere h req)"
proof (cases "f64_pos (rq_autoCompact req)")
  case False
  then show ?thesis by (simp add: keeps_def compactHere_def shouldCompact_def split: option.splits)
qed (auto simp: compactHere_def intro!: keeps_intros)

lemma capToWindow_keeps [keeps_intros]: "keeps I E (capToWindow h req)"
  unfolding capToWindow_def by (intro keeps_intros)

lemma announce_keeps [keeps_intros]: "keeps I E (announce h m)"
  unfolding announce_def by (intro keeps_intros)

lemma drainInboxNow_keeps [keeps_intros]: "keeps I E (drainInboxNow h)"
  unfolding drainInboxNow_def by (intro keeps_intros)

lemma drain_keeps [keeps_intros]: "keeps I E (drain h)"
  unfolding drain_def by (intro keeps_intros)

lemma deliver_keeps [keeps_intros]: "keeps I E (deliver h content)"
  unfolding deliver_def by (intro keeps_intros)

lemma deliver_reports_keeps [keeps_intros]: "keeps I E (deliver_reports h reports lost)"
  unfolding deliver_reports_def by (intro keeps_intros)

lemma written_keeps [keeps_intros]:
  assumes "R = mc_rec mc"
  shows "keeps I E (written_answer h assistant mc i)"
  unfolding written_answer_def using assms by (auto intro!: keeps_intros sess calm_addText)

end

section \<open>Steps that may end the run\<close>

locale ending_steps = session_steps h I E R req
  for h :: "'h host" and I :: "'h rstate \<Rightarrow> bool" and E :: "run_exit \<Rightarrow> 'h rstate \<Rightarrow> bool" and R req +
  assumes returned: "I st \<Longrightarrow> E (Returned err) st"
begin

lemma returned_keeps [keeps_intros]: "keeps I E (exit_with (Returned err))"
  by (rule keeps_exit) (rule returned)

lemma done_keeps [keeps_intros]: "keeps I E (done_with final err)"
  unfolding done_with_def by (intro keeps_intros set_res_keeps) simp

lemma stop_keeps [keeps_intros]: "keeps I E (stop_with e)"
  unfolding stop_with_def by (intro keeps_intros)

lemma answer_keeps [keeps_intros]: "keeps I E (answer h turn cm i final)"
  unfolding answer_def by (intro keeps_intros)

lemma poll_keeps [keeps_intros]: "keeps I E (poll_resources h)"
  unfolding poll_resources_def by (intro keeps_intros)

lemma turn_start_keeps [keeps_intros]: "keeps I E (turn_start h req turn)"
  unfolding turn_start_def by (intro keeps_intros)

lemma mint_keeps [keeps_intros]: "keeps I E (mint_row h)"
  unfolding mint_row_def by (intro keeps_intros keeps_modify) (auto elim: frame)

lemma wait_subagents_keeps [keeps_intros]: "R = mc_rec mc \<Longrightarrow> keeps I E (wait_subagents h turn assistant mc i)"
  unfolding wait_subagents_def by (intro keeps_intros)

lemma capped_end_keeps [keeps_intros]: "keeps I E (capped_end h)"
  unfolding capped_end_def by (intro keeps_intros)

end

section \<open>Rounds of the inner loops\<close>

text \<open>A property that allows an inner loop to be cut off after \<open>h_rounds\<close> rounds holds of the loops.\<close>

lemma still_keeps:
  assumes frame: "\<And>st st'. I st \<Longrightarrow> r_sess st' = r_sess st \<Longrightarrow> r_overflow st' = r_overflow st \<Longrightarrow>
      res_turns (r_res st') = res_turns (r_res st) \<Longrightarrow> res_stateLosses (r_res st') = res_stateLosses (r_res st) \<Longrightarrow> I st'"
    and still: "\<And>st. I st \<Longrightarrow> E StillGoing st"
  shows "keeps I E (drainInbox h)" "keeps I E (subs_collect n h)" "keeps I E (fit_messages h req)"
proof -
  have world: "I st \<Longrightarrow> I (st\<lparr>r_world := w\<rparr>)" for st w by (erule frame) simp_all
  have go: "keeps I E (exit_with StillGoing)" by (rule keeps_exit) (rule still)
  have "keeps I E (take_inbox k h receive out)" for k receive out
    by (induction k arbitrary: out)
      (auto intro!: keeps_intros go keeps_run_fn world simp: on_world_def split: prod.splits)
  then show "keeps I E (drainInbox h)" unfolding drainInbox_def by (intro keeps_intros)
  show "keeps I E (subs_collect n h)"
    by (induction n) (auto intro!: keeps_intros go keeps_run_fn keeps_modify world simp: on_world_def tick_def tell_host_def
        split: prod.splits)
  show "keeps I E (fit_messages h req)"
    unfolding fit_messages_def by (intro keeps_intros keeps_run_fn go) (auto elim: frame split: prod.splits)
qed

section \<open>Steps that only have to keep what the session's operations keep anyway\<close>

locale free_steps = ending_steps h I E R req
  for h :: "'h host" and I :: "'h rstate \<Rightarrow> bool" and E :: "run_exit \<Rightarrow> 'h rstate \<Rightarrow> bool" and R req +
  assumes any_unit: "keeps I E (on_sess (m :: (add_error, unit, session) prog))"
begin

lemma any_keeps [keeps_intros]: "keeps I E (on_sess m)"
  using any_unit [of "then_do m (ret ())"] by (simp add: keeps_def on_sess_def wp_on_part)

lemma omit_keeps [keeps_intros]: "keeps I E (omit h nodes reason)"
  unfolding omit_def by (intro keeps_intros)

lemma abort_keeps [keeps_intros]: "keeps I E (abortBatch h nodes assistant i cause)"
  unfolding abortBatch_def by (intro keeps_intros)

lemma record_result_keeps [keeps_intros]: "keeps I E (record_result h i call ask r node)"
  unfolding record_result_def by (intro keeps_intros)

lemma record_results_keeps [keeps_intros]: "keeps I E (record_results h i xs)"
  by (induction xs) (auto intro!: keeps_intros)

lemma run_batch_keeps [keeps_intros]: "keeps I E (run_batch h i assistant mc calls nodes)"
  unfolding run_batch_def by (intro keeps_intros)

lemma tool_turn_keeps [keeps_intros]: "keeps I E (tool_turn h i assistant mc)"
  unfolding tool_turn_def by (intro keeps_intros)

lemma call_failed_keeps [keeps_intros]: "keeps I E (call_failed h mc i err)"
  unfolding call_failed_def by (intro keeps_intros)

lemma written_any_keeps [keeps_intros]: "keeps I E (written_answer h assistant mc i)"
  unfolding written_answer_def by (intro keeps_intros)

lemma wait_any_keeps [keeps_intros]: "keeps I E (wait_subagents h turn assistant mc i)"
  unfolding wait_subagents_def by (intro keeps_intros)

end

section \<open>Whole turns\<close>

locale whole_turns = free_steps h I E R req
  for h :: "'h host" and I :: "'h rstate \<Rightarrow> bool" and E :: "run_exit \<Rightarrow> 'h rstate \<Rightarrow> bool" and R req +
  assumes model_call: "keeps I E (runModelCall h p req turn msgs tools i)"
    and overflow: "I st \<Longrightarrow> I (st\<lparr>r_overflow := ov\<rparr>)"
begin

lemmas model_call_keeps [keeps_intros] = model_call

lemma retry_overflow_keeps [keeps_intros]: "keeps I E (retry_overflow h req turn mc i err)"
  unfolding retry_overflow_def by (intro keeps_intros keeps_modify overflow) auto

lemma wrap_up_keeps [keeps_intros]: "keeps I E (wrap_up h p req turn i)"
  unfolding wrap_up_def by (intro keeps_intros)

lemma final_turn_keeps [keeps_intros]: "keeps I E (final_turn h p req turn assistant mc i)"
  unfolding final_turn_def by (intro keeps_intros)

lemma called_keeps [keeps_intros]: "keeps I E (called h p req turn msgs mc i)"
  unfolding called_def by (intro keeps_intros)

lemma run_turn_keeps [keeps_intros]: "keeps I E (run_turn h p req turn)"
  unfolding run_turn_def by (intro keeps_intros)

end

section \<open>Ends of a run\<close>

lemma deferred_fields:
  "r_sess (deferred h e st) = r_sess st" "res_stateLosses (r_res (deferred h e st)) = res_stateLosses (r_res st)"
  "res_turns (r_res (deferred h e st)) = res_turns (r_res st)"
  by (auto simp: deferred_def Let_def finalizeAssistant_def tell_host_def modify_def and_then_def split: prod.splits run_exit.splits)

lemma window_sess:
  assumes "resolveContextWindow h req (start_state h s w) = (x, st)"
  shows "r_sess st = s" "r_res st = new_result" "r_overflow st = None" "x \<noteq> Inl e"
  using assms
  by (auto simp: resolveContextWindow_def use_window_def and_then_def on_world_def run_fn_def ret_def modify_def tell_host_def
      start_state_def split: if_splits prod.splits sum.splits)

lemma run_turns_never_back: "never_back (run_turns fuel h p req turn)"
proof (induction fuel arbitrary: turn)
  case (Suc fuel)
  have "never_back (capped_end h :: (unit, 'a) run)" for h :: "'a host"
    unfolding capped_end_def done_with_def by (intro never_back_intros)
  with Suc show ?case by (auto intro!: never_back_intros)
qed (simp add: never_back_exit)

text \<open>A run is refused before it begins, or ends as its loop does.\<close>

lemma runOn_cases:
  assumes "runOn fuel h req s w = (e, st)"
  obtains (refused) err where "e = Refused err" "r_sess st = s" "r_res st = new_result"
  | (ran) p st0 st1 where "h_provider h = Some p" "r_sess st0 = s" "r_res st0 = new_result" "r_overflow st0 = None"
      "run_turns fuel h p req 0 (st0\<lparr>r_sess := snd (checkMonotonic (h_hash h) (h_quote h) 0 s)\<rparr>) = (Inl e, st1)"
      "st = (if e = StillGoing then st1 else deferred h e st1)"
proof -
  let ?st = "start_state h s w"
  have start: "r_sess ?st = s" "r_res ?st = new_result" by (simp_all add: start_state_def)
  show thesis
  proof (cases "h_provider h = None \<or> checkWindowConfig (h_fallback h) (h_override h) \<noteq> None")
    case True
    with assms start have "\<exists>err. e = Refused err \<and> r_sess st = s \<and> r_res st = new_result"
      by (auto simp: runOn_def Let_def split: option.splits)
    with refused show thesis by blast
  next
    case False
    then obtain p where p: "h_provider h = Some p" "checkWindowConfig (h_fallback h) (h_override h) = None" by auto
    obtain x st0 where r: "resolveContextWindow h req ?st = (x, st0)" by (metis surj_pair)
    note W = window_sess [OF r]
    obtain o1 where x: "x = Inr o1" using W(4) by (cases x) auto
    show thesis
    proof (cases o1)
      case (Some e1)
      with assms p r x W(1,2) have "e = Refused e1" "r_sess st = s" "r_res st = new_result" by (auto simp: runOn_def)
      with refused show thesis by blast
    next
      case None
      obtain y st1 where y: "run_turns fuel h p req 0 (st0\<lparr>r_sess := snd (checkMonotonic (h_hash h) (h_quote h) 0 s)\<rparr>) = (y, st1)"
        by (metis surj_pair)
      obtain e' where e': "y = Inl e'"
        using wpD [OF run_turns_never_back [unfolded never_back_def, rule_format] y] by (cases y) auto
      have out: "e = e'" "st = (if e' = StillGoing then st1 else deferred h e' st1)"
        using assms p r x None y e' W(1) by (auto simp: runOn_def Let_def split: run_exit.splits)
      from y e' out(1) have "run_turns fuel h p req 0 (st0\<lparr>r_sess := snd (checkMonotonic (h_hash h) (h_quote h) 0 s)\<rparr>) = (Inl e, st1)"
        by simp
      from ran [OF p(1) W(1,2,3) this] out show thesis by simp
    qed
  qed
qed

end
