(* ===== verification/RunAnswers.thy ===== *)
theory RunAnswers
  imports RunProps
begin

text \<open>
  A run answers every tool call its model calls made, whatever the host, the tools and the provider do, and
  the tree check has nothing to report while it goes on.
\<close>

section \<open>The invariant\<close>

text \<open>
  \<open>C\<close> holds the calls of the turn that may still be open, \<open>R\<close> the record of the turn's model call. The
  index of the last tree check is that of a session the present one grew from.
\<close>

definition indexed :: "'h host \<Rightarrow> session \<Rightarrow> bool" where
  "indexed h s \<longleftrightarrow> (\<exists>sp t. session_wf sp \<and> reaches sp s
     \<and> s_index s = s_index (snd (checkMonotonic (h_hash h) (h_quote h) t sp)))"

definition spend :: "'h host \<Rightarrow> session \<Rightarrow> nat set \<Rightarrow> nat option \<Rightarrow> session \<Rightarrow> bool" where
  "spend h s0 C R s \<longleftrightarrow> reaches s0 s \<and> open_calls s - C = open_calls s0 \<and> (\<forall>a\<in>C. a < s_size s)
     \<and> (\<forall>r. R = Some r \<longrightarrow> r < length (s_calls s)) \<and> indexed h s"

text \<open>A loss of a message shorter than its completion, or of tokens the endpoint did not count.\<close>

definition call_loss :: "StateLossEvent \<Rightarrow> bool" where
  "call_loss l \<longleftrightarrow> prefix ''the transcript kept '' (sl_detail l) \<or> prefix ''the endpoint counted '' (sl_detail l)"

definition kept_losses :: "StateLossEvent list \<Rightarrow> bool" where
  "kept_losses ls \<longleftrightarrow> list_all call_loss ls"

definition pend :: "'h host \<Rightarrow> session \<Rightarrow> nat set \<Rightarrow> nat option \<Rightarrow> 'h rstate \<Rightarrow> bool" where
  "pend h s0 C R st \<longleftrightarrow> spend h s0 C R (r_sess st) \<and> kept_losses (res_stateLosses (r_res st))"

definition run_end :: "session \<Rightarrow> run_exit \<Rightarrow> 'h rstate \<Rightarrow> bool" where
  "run_end s0 e st \<longleftrightarrow> reaches s0 (r_sess st) \<and> (\<forall>err. e = Returned err \<longrightarrow> open_calls (r_sess st) = open_calls s0)
     \<and> kept_losses (res_stateLosses (r_res st))"

lemma spendD:
  assumes "spend h s0 C R s"
  shows "reaches s0 s" "session_wf s" "open_calls s - C = open_calls s0" "a \<in> C \<Longrightarrow> a < s_size s"
    "R = Some r \<Longrightarrow> r < length (s_calls s)" "indexed h s"
  using assms by (auto simp: spend_def reaches_def)

lemma pendD:
  assumes "pend h s0 C R st"
  shows "spend h s0 C R (r_sess st)" "kept_losses (res_stateLosses (r_res st))"
  using assms by (auto simp: pend_def)

lemma indexed_reaches: "indexed h s \<Longrightarrow> reaches s s' \<Longrightarrow> s_index s' = s_index s \<Longrightarrow> indexed h s'"
  unfolding indexed_def using reaches_trans by metis

lemma spend_step:
  assumes "spend h s0 C R s" "reaches s s'" "open_calls s' - C' = open_calls s - C" "s_index s' = s_index s"
    "\<forall>a\<in>C'. a < s_size s'" "\<And>r. R' = Some r \<Longrightarrow> r < length (s_calls s')"
  shows "spend h s0 C' R' s'"
proof -
  note S = spendD [OF assms(1)]
  from assms reaches_trans [OF S(1) assms(2)] S(3) indexed_reaches [OF S(6) assms(2,4)]
  show ?thesis by (simp add: spend_def)
qed

lemma reaches_calls: "reaches s s' \<Longrightarrow> r < length (s_calls s) \<Longrightarrow> r < length (s_calls s')"
  using growsD(4) [OF reachesD(2)] by fastforce

lemma pend_less: "pend h s0 {} R st \<Longrightarrow> pend h s0 {} None st"
  by (simp add: pend_def spend_def)

text \<open>A call of \<open>C\<close> is open only if it is in \<open>open_calls\<close>; once none is, \<open>C\<close> is spent.\<close>

lemma pend_spent:
  assumes "pend h s0 C R st" "open_calls (r_sess st) \<inter> C = {}"
  shows "pend h s0 {} R st"
proof -
  have "open_calls (r_sess st) - C = open_calls (r_sess st)" using assms(2) by blast
  with assms(1) show ?thesis by (simp add: pend_def spend_def)
qed

section \<open>The invariant through the steps\<close>

lemma indexed_silent:
  assumes "indexed h s"
  shows "fst (checkMonotonic (h_hash h) (h_quote h) t s) = None"
proof -
  obtain sp t0 where sp: "session_wf sp" "reaches sp s" "s_index s = s_index (snd (checkMonotonic (h_hash h) (h_quote h) t0 sp))"
    using assms by (auto simp: indexed_def)
  from held_keys_grows [OF sp(1) reachesD(1,2) [OF sp(2)]] show ?thesis
    by (subst checkMonotonic_none [OF sp(3)])
qed

lemma checked_session:
  assumes "session_wf s"
  shows "reaches s (snd (checkMonotonic h q t s))" "open_calls (snd (checkMonotonic h q t s)) = open_calls s"
  using assms checkMonotonic_simps [of h q t s]
  by (auto simp: reaches_def grows_def session_wf_def s_node_def s_path_def open_calls_def answered_def)

lemma indexed_checked: "session_wf s \<Longrightarrow> indexed h (snd (checkMonotonic (h_hash h) (h_quote h) t s))"
  unfolding indexed_def using checked_session(1) by blast

lemma spend_checked:
  assumes "spend h s0 C R s"
  shows "spend h s0 C R (snd (checkMonotonic (h_hash h) (h_quote h) t s))"
proof -
  note S = spendD [OF assms]
  let ?s = "snd (checkMonotonic (h_hash h) (h_quote h) t s)"
  from S checked_session [OF S(2), of "h_hash h" "h_quote h" t] indexed_checked [OF S(2), of h t]
    reaches_trans [OF S(1) checked_session(1) [OF S(2)]]
  show ?thesis by (auto simp: spend_def checkMonotonic_simps(2,5))
qed

lemma observe_detail:
  "fst (observe turn msgs cm sc) = Some l \<Longrightarrow> call_loss l"
  by (auto simp: call_loss_def observe_def local_loss_def lostLocally_def undercount_text_def Let_def split: option.splits if_splits)

lemma record_loss_kept: "call_loss l \<Longrightarrow> call_loss (fst (record_loss l p lt))"
  by (auto simp: call_loss_def record_loss_def Let_def)

lemma pend_frame:
  "pend h s0 C R st \<Longrightarrow> r_sess st' = r_sess st \<Longrightarrow> res_stateLosses (r_res st') = res_stateLosses (r_res st) \<Longrightarrow> pend h s0 C R st'"
  by (simp add: pend_def)

lemma pend_fields [simp]:
  "pend h s0 C R (st\<lparr>r_world := w\<rparr>) = pend h s0 C R st"
  "pend h s0 C R (st\<lparr>r_res := (r_res st)\<lparr>res_turns := n, res_usages := us\<rparr>\<rparr>) = pend h s0 C R st"
  by (simp_all add: pend_def)

lemma pend_check: "keeps (pend h s0 C R) E (check_states h turn msgs cm)"
proof (rule keepsI)
  fix st assume st: "pend h s0 C R st"
  let ?o = "fst (observe (Suc turn) msgs cm (r_states st))"
  let ?F = "\<lambda>st. let (l, s) = checkMonotonic (h_hash h) (h_quote h) (Suc turn) (r_sess st) in (l, st\<lparr>r_sess := s\<rparr>)"
  have first: "pend h s0 C R st' \<Longrightarrow> wp (record_lost h ?o) (\<lambda>_. pend h s0 C R) E st'" for st'
  proof (cases ?o)
    case (Some l)
    assume st': "pend h s0 C R st'"
    obtain ev lt where ev: "record_loss l 0 (r_losses st') = (ev, lt)" by (metis surj_pair)
    have "call_loss ev" using record_loss_kept [OF observe_detail [OF Some], of 0 "r_losses st'"] ev by simp
    with Some pendD [OF st'] ev show ?thesis
      by (simp add: record_lost_def tell_host_def pend_def kept_losses_def)
  qed (simp add: record_lost_def)
  have second: "wp (record_lost h (fst (?F st'))) (\<lambda>_. pend h s0 C R) E (snd (?F st'))" if "pend h s0 C R st'" for st'
  proof -
    note P = pendD [OF that]
    obtain l s where ls: "checkMonotonic (h_hash h) (h_quote h) (Suc turn) (r_sess st') = (l, s)" by (metis surj_pair)
    with indexed_silent [OF spendD(6) [OF P(1)], of "Suc turn"] have "l = None" by simp
    with ls spend_checked [OF P(1), of "Suc turn"] P(2) show ?thesis by (simp add: record_lost_def pend_def)
  qed
  obtain l sc where o: "observe (Suc turn) msgs cm (r_states st) = (l, sc)" by (metis surj_pair)
  have "pend h s0 C R (st\<lparr>r_states := sc\<rparr>)" by (rule pend_frame [OF st]) simp_all
  from first [OF this] o have "wp (record_lost h l) (\<lambda>_. pend h s0 C R) E (st\<lparr>r_states := sc\<rparr>)" by simp
  then have "wp (record_lost h l) (\<lambda>_ s'. wp (record_lost h (fst (?F s'))) (\<lambda>_. pend h s0 C R) E (snd (?F s'))) E
      (st\<lparr>r_states := sc\<rparr>)"
    by (rule wp_mono) (use second in simp_all)
  with o show "wp (check_states h turn msgs cm) (\<lambda>_. pend h s0 C R) E st"
    by (simp add: check_states_def)
qed

lemma pend_sess:
  assumes "calm R m"
  shows "keeps (pend h s0 C R) (run_end s0) (on_sess m)"
  unfolding on_sess_def
proof (rule keeps_on_part)
  fix st assume st: "pend h s0 C R st"
  note P = pendD [OF st] and S = spendD [OF pendD(1) [OF st]]
  have "wp m (\<lambda>_ s'. reaches (r_sess st) s' \<and> open_calls s' = open_calls (r_sess st) \<and> s_index s' = s_index (r_sess st))
      (\<lambda>_ s'. reaches (r_sess st) s') (r_sess st)"
    using assms S(2,5) unfolding calm_def by blast
  then show "wp m (\<lambda>_ t. pend h s0 C R (st\<lparr>r_sess := t\<rparr>)) (\<lambda>e t. run_end s0 (Panicked e) (st\<lparr>r_sess := t\<rparr>)) (r_sess st)"
  proof (rule wp_mono)
    fix x s' assume a: "reaches (r_sess st) s' \<and> open_calls s' = open_calls (r_sess st) \<and> s_index s' = s_index (r_sess st)"
    then have "\<forall>a\<in>C. a < s_size s'" using S(4) reachesD(3) by fastforce
    with spend_step [OF P(1), of s' C R] a S(5) reaches_calls P(2) show "pend h s0 C R (st\<lparr>r_sess := s'\<rparr>)"
      by (auto simp: pend_def)
  next
    fix e s' assume "reaches (r_sess st) s'"
    with reaches_trans [OF S(1)] P(2) show "run_end s0 (Panicked e) (st\<lparr>r_sess := s'\<rparr>)" by (simp add: run_end_def)
  qed
qed

lemma pend_still: "pend h s0 C R st \<Longrightarrow> run_end s0 StillGoing st"
  by (auto simp: run_end_def pend_def dest: spendD)

lemmas pend_rounds = still_keeps [of "pend h s0 C R" "run_end s0" for h s0 C R, OF pend_frame pend_still]

interpretation open_run: session_steps h "pend h s0 C R" "run_end s0" R req for h s0 C R req
  by unfold_locales (auto intro: pend_frame pend_check pend_sess pend_rounds)

interpretation closed_run: ending_steps h "pend h s0 {} R" "run_end s0" R req for h s0 R req
  by unfold_locales (auto simp: run_end_def pend_def dest: spendD)

section \<open>A model call and its tool calls\<close>

lemma wp_omit:
  assumes "pend h s0 (set nodes) R st"
  shows "wp (omit h nodes reason) (\<lambda>_. pend h s0 {} R) (run_end s0) st"
proof -
  note P = pendD [OF assms] and S = spendD [OF pendD(1) [OF assms]]
  have b: "\<forall>a\<in>set nodes. a < s_size (r_sess st)" using S(4) by blast
  have "wp (omitCalls (h_newid h) nodes reason) (\<lambda>_ t. pend h s0 {} R (st\<lparr>r_sess := t\<rparr>))
      (\<lambda>e t. run_end s0 (Panicked e) (st\<lparr>r_sess := t\<rparr>)) (r_sess st)"
  proof (rule wp_mono [OF omitCalls_spec [OF S(2) b]])
    fix x s' assume a: "reaches (r_sess st) s' \<and> open_calls s' = open_calls (r_sess st) - set nodes
      \<and> s_window s' = s_window (r_sess st) \<and> s_index s' = s_index (r_sess st)"
    with spend_step [OF P(1), of s' "{}" R] S(5) reaches_calls P(2) show "pend h s0 {} R (st\<lparr>r_sess := s'\<rparr>)"
      by (auto simp: pend_def)
  qed (use reaches_trans [OF S(1)] P(2) in \<open>simp add: run_end_def\<close>)
  then show ?thesis by (simp add: omit_def on_sess_def wp_on_part)
qed

definition live_call_nodes :: "modelCall \<Rightarrow> 'h rstate \<Rightarrow> bool" where
  "live_call_nodes mc st \<longleftrightarrow> (\<forall>a\<in>set (mc_nodes mc). \<not> n_superseded (s_node (r_sess st) a))
     \<and> (\<forall>r. mc_rec mc = Some r \<longrightarrow> r < length (s_calls (r_sess st)))"

lemma stream_into_spec:
  assumes "pend h s0 {} R st"
  shows "wp (stream_into h p r turn firstID tools)
    (\<lambda>sr st'. pend h s0 (set (sr_nodes sr)) R st' \<and> (\<forall>a\<in>set (sr_nodes sr). \<not> n_superseded (s_node (r_sess st') a))
       \<and> sr_rec sr < length (s_calls (r_sess st'))) (run_end s0) st"
  unfolding stream_into_def wp_on_part
proof (rule wp_mono [OF streamCall_spec])
  note P = pendD [OF assms] and S = spendD [OF pendD(1) [OF assms]]
  show "session_wf (r_sess st)" by (rule S(2))
  fix e and sw :: "session \<times> 'a world" assume "reaches (r_sess st) (fst sw)"
  with reaches_trans [OF S(1)] P(2) show "run_end s0 (Panicked e) (st\<lparr>r_sess := fst sw, r_world := snd sw\<rparr>)"
    by (simp add: run_end_def)
next
  note P = pendD [OF assms] and S = spendD [OF pendD(1) [OF assms]]
  fix sr and sw :: "session \<times> 'a world" assume a: "call_added (r_sess st) (sr_nodes sr) (sr_rec sr) (fst sw)"
  then have r: "reaches (r_sess st) (fst sw)" by (simp add: call_added_def)
  have "spend h s0 (set (sr_nodes sr)) R (fst sw)"
    by (rule spend_step [OF P(1) r]) (use a S(5) reaches_calls [OF r] in \<open>auto simp: call_added_def\<close>)
  with a P(2) show "pend h s0 (set (sr_nodes sr)) R (st\<lparr>r_sess := fst sw, r_world := snd sw\<rparr>)
     \<and> (\<forall>a\<in>set (sr_nodes sr). \<not> n_superseded (s_node (r_sess (st\<lparr>r_sess := fst sw, r_world := snd sw\<rparr>)) a))
     \<and> sr_rec sr < length (s_calls (r_sess (st\<lparr>r_sess := fst sw, r_world := snd sw\<rparr>)))"
    by (simp add: pend_def call_added_def)
qed

lemma runModelCall_spec:
  assumes "pend h s0 {} R st"
  shows "wp (runModelCall h p req turn msgs tools firstID)
    (\<lambda>mce st'. pend h s0 (set (mc_nodes (fst mce))) R st' \<and> live_call_nodes (fst mce) st') (run_end s0) st"
  unfolding runModelCall_def
proof (rule wp_keeps [OF open_run.mark_keeps assms], rule wp_keeps [OF open_run.on_world_keeps], assumption)
  fix begun st1 assume st1: "pend h s0 {} R st1"
  show "wp (case fst begun of None \<Rightarrow>
      and_then (stream_into h p (snd begun) turn firstID tools) (\<lambda>r.
        then_do (set_res (\<lambda>res. res\<lparr>res_turns := Suc (res_turns res),
             res_usages := res_usages res @ (case sr_comp r of None \<Rightarrow> [] | Some c \<Rightarrow> [co_usage c])\<rparr>))
         (and_then (on_world (emitTurnEnd h turn (sr_comp r) (sr_err r))) (\<lambda>cberr.
          ret (\<lparr>mc_comp = sr_comp r, mc_nodes = sr_nodes r, mc_rec = Some (sr_rec r), mc_refused = sr_refused r\<rparr>,
               if cberr \<noteq> None then cberr else sr_err r))))
    | Some e \<Rightarrow> ret (no_call, Some e))
    (\<lambda>mce st'. pend h s0 (set (mc_nodes (fst mce))) R st' \<and> live_call_nodes (fst mce) st') (run_end s0) st1"
  proof (cases "fst begun")
    case None
    then show ?thesis
      by (simp del: wp_and_then, intro wp_then [OF stream_into_spec [OF st1]])
        (auto simp: live_call_nodes_def)
  qed (use st1 in \<open>simp add: no_call_def live_call_nodes_def\<close>)
qed

lemma calls_of_nodes:
  assumes "\<forall>a\<in>set ns. \<not> n_superseded (s_node s a)"
  shows "length (toolCalls s ns) = length (msg_calls (MessageFromNodes (map (s_node s) ns)))"
proof -
  have m: "msg_calls (NewMessage r ps) = concat (map call_of_part ps)" for r ps
    by (simp add: NewMessage_def SyncViews_def empty_message_def)
  have "length (toolCalls s ns) = length (concat (map call_of_part (List.map_filter (\<lambda>a. partOf (n_body (s_node s a))) ns)))"
    using assms
  proof (induction ns)
    case (Cons a ns)
    then show ?case
      by (cases "n_body (s_node s a)") (auto simp: toolCalls_def List.map_filter_def split: option.splits)
  qed (simp add: toolCalls_def List.map_filter_def)
  then show ?thesis by (simp add: MessageFromNodes_def m List.map_filter_def filter_map o_def)
qed

section \<open>Steps that leave the tree as it is\<close>

definition same_tree :: "session \<Rightarrow> 'h rstate \<Rightarrow> bool" where
  "same_tree S st \<longleftrightarrow> (\<exists>ix. r_sess st = S\<lparr>s_index := ix\<rparr>)"

lemma same_tree_refl: "same_tree (r_sess st) st"
  unfolding same_tree_def by (rule exI [of _ "s_index (r_sess st)"]) simp

lemma same_treeD:
  assumes "same_tree S st"
  shows "toolCalls (r_sess st) ns = toolCalls S ns" "open_calls (r_sess st) = open_calls S" "s_size (r_sess st) = s_size S"
    "s_node (r_sess st) a = s_node S a" "s_path (r_sess st) = s_path S"
  using assms by (auto simp: same_tree_def toolCalls_def open_calls_def answered_def s_node_def s_path_def)

lemma same_tree_frame: "same_tree S st \<Longrightarrow> r_sess st' = r_sess st \<Longrightarrow> same_tree S st'"
  by (simp add: same_tree_def)

lemma same_tree_checked:
  assumes "same_tree S st"
  shows "same_tree S (st\<lparr>r_sess := snd (checkMonotonic hh q t (r_sess st))\<rparr>)"
proof -
  have "snd (checkMonotonic hh q t s) = s\<lparr>s_index := s_index (snd (checkMonotonic hh q t s))\<rparr>" for s
    by (simp add: checkMonotonic_def Let_def split: option.splits)
  then obtain ix where "snd (checkMonotonic hh q t (r_sess st)) = (r_sess st)\<lparr>s_index := ix\<rparr>" by blast
  with assms show ?thesis by (auto simp: same_tree_def)
qed

lemma same_tree_check: "keeps (same_tree S) E (check_states h turn msgs cm)"
proof -
  have lost: "keeps (same_tree S) E (record_lost h l)" for l
    unfolding record_lost_def tell_host_def
    by (intro keeps_intros keeps_run_fn keeps_modify) (auto elim: same_tree_frame split: prod.splits)
  have "keeps (same_tree S) E (run_fn (\<lambda>st. let (l, s) = checkMonotonic (h_hash h) (h_quote h) (Suc turn) (r_sess st)
      in (l, st\<lparr>r_sess := s\<rparr>)))"
  proof (rule keeps_run_fn)
    fix st assume st: "same_tree S st"
    obtain l s where "checkMonotonic (h_hash h) (h_quote h) (Suc turn) (r_sess st) = (l, s)" by (metis surj_pair)
    with same_tree_checked [OF st, of "h_hash h" "h_quote h" "Suc turn"]
    show "same_tree S (snd (let (l, s) = checkMonotonic (h_hash h) (h_quote h) (Suc turn) (r_sess st) in (l, st\<lparr>r_sess := s\<rparr>)))"
      by simp
  qed
  moreover have "keeps (same_tree S) E (run_fn (\<lambda>st. let (l, sc) = observe (Suc turn) msgs cm (r_states st) in (l, st\<lparr>r_states := sc\<rparr>)))"
    by (rule keeps_run_fn) (auto elim: same_tree_frame split: prod.splits)
  ultimately show ?thesis unfolding check_states_def by (intro keeps_and_then lost)
qed

lemmas same_rounds = still_keeps [of "\<lambda>st. pend h s0 C R st \<and> same_tree S st" "run_end s0" for h s0 C R S,
    OF conjI [OF pend_frame [OF conjunct1] same_tree_frame [OF conjunct2]] pend_still [OF conjunct1]]

interpretation same_run: outside_steps h "\<lambda>st. pend h s0 C R st \<and> same_tree S st" "run_end s0" for h s0 C R S
proof
  show "keeps (\<lambda>st. pend h s0 C R st \<and> same_tree S st) (run_end s0) (check_states h turn msgs cm)" for turn msgs cm
    by (rule keeps_exits [OF keeps_conj [OF pend_check [of h s0 C R "run_end s0"] same_tree_check [of S "\<lambda>_ _. True"]]]) simp
qed (auto elim: same_tree_frame pend_frame intro: same_rounds)

section \<open>A batch\<close>

lemma record_result_spec:
  assumes "pend h s0 C R st" "node \<in> C"
  shows "wp (record_result h i call ask r node)
    (\<lambda>e st'. pend h s0 C R st' \<and> open_calls (r_sess st') \<subseteq> open_calls (r_sess st)
       \<and> (e = None \<longrightarrow> node \<notin> open_calls (r_sess st'))) (run_end s0) st"
proof -
  let ?S = "r_sess st"
  let ?Q = "\<lambda>e st'. pend h s0 C R st' \<and> open_calls (r_sess st') \<subseteq> open_calls ?S
       \<and> (e = None \<longrightarrow> node \<notin> open_calls (r_sess st'))"
  have rec: "wp (on_sess (s_toolResult newid node c e [])) (\<lambda>_ st'. pend h s0 C R st'
      \<and> open_calls (r_sess st') = open_calls ?S - {node}) (run_end s0) st2"
    if st2: "pend h s0 C R st2 \<and> same_tree ?S st2" for newid c e st2
  proof -
    note P = pendD [OF conjunct1 [OF st2]] and T = same_treeD [OF conjunct2 [OF st2]]
    note S = spendD [OF P(1)]
    from S(4) [OF assms(2)] show ?thesis
      unfolding on_sess_def wp_on_part
    proof (intro wp_mono [OF toolResult_spec [OF S(2)]])
      fix a s' assume a: "reaches (r_sess st2) s' \<and> open_calls s' = open_calls (r_sess st2) - {node}
        \<and> s_window s' = s_window (r_sess st2) \<and> s_index s' = s_index (r_sess st2) \<and> s_path s' = s_path (r_sess st2) @ [a]
        \<and> n_body (s_node s' a) = ToolResultNode (InTree node) [TextContent c] e []
        \<and> s_size (r_sess st2) \<le> a \<and> a < s_size s'"
      have "spend h s0 C R s'"
      proof (rule spend_step [OF P(1)])
        show "reaches (r_sess st2) s'" "s_index s' = s_index (r_sess st2)" using a by auto
        show "open_calls s' - C = open_calls (r_sess st2) - C" using a assms(2) by auto
        show "\<forall>a\<in>C. a < s_size s'" using a S(4) reachesD(3) by fastforce
        show "r < length (s_calls s')" if "R = Some r" for r using a S(5) [OF that] reaches_calls by blast
      qed
      with a P(2) T(2) show "pend h s0 C R (st2\<lparr>r_sess := s'\<rparr>)
          \<and> open_calls (r_sess (st2\<lparr>r_sess := s'\<rparr>)) = open_calls ?S - {node}"
        by (simp add: pend_def)
    qed (use reaches_trans [OF S(1)] P(2) in \<open>simp_all add: run_end_def\<close>)
  qed
  show ?thesis
    unfolding record_result_def Let_def
  proof (rule wp_keeps [OF same_run.collapse_keeps], use assms(1) same_tree_refl in blast,
      rule wp_keeps [OF same_run.on_world_keeps], assumption)
    fix cp cberr st2 assume st2: "pend h s0 C R st2 \<and> same_tree ?S st2"
    show "wp (if cberr \<noteq> None then ret cberr
        else then_do (on_sess (s_toolResult (h_newid h) node (fst cp) (tr_is_error r) []))
           (on_world (h_toolMessage h \<lparr>tm_toolCallID = tc_id call, tm_parentAssistantID = i,
              tm_content = fst cp, tm_parts = snd cp, tm_isError = tr_is_error r\<rparr>))) ?Q (run_end s0) st2"
    proof (cases "cberr = None")
      case True
      show ?thesis
        unfolding True by (simp del: wp_and_then, rule wp_then [OF rec [OF st2]]) auto
    qed (use st2 same_treeD(2) in auto)
  qed
qed

lemma record_results_spec:
  assumes "pend h s0 C R st" "\<forall>x\<in>set xs. snd (snd (snd x)) \<in> C"
  shows "wp (record_results h i xs)
    (\<lambda>e st'. pend h s0 C R st' \<and> open_calls (r_sess st') \<subseteq> open_calls (r_sess st)
       \<and> (e = None \<longrightarrow> (\<forall>x\<in>set xs. snd (snd (snd x)) \<notin> open_calls (r_sess st')))) (run_end s0) st"
  using assms
proof (induction xs arbitrary: st)
  case (Cons x xs)
  obtain call ask r node where x: "x = (call, ask, r, node)" by (metis surj_pair)
  have tail: "wp (record_results h i xs)
      (\<lambda>e st'. pend h s0 C R st' \<and> open_calls (r_sess st') \<subseteq> open_calls (r_sess st)
         \<and> (e = None \<longrightarrow> node \<notin> open_calls (r_sess st') \<and> (\<forall>y\<in>set xs. snd (snd (snd y)) \<notin> open_calls (r_sess st')))) (run_end s0) st1"
    if "pend h s0 C R st1" "open_calls (r_sess st1) \<subseteq> open_calls (r_sess st)" "node \<notin> open_calls (r_sess st1)" for st1
    by (rule wp_mono [OF Cons.IH [OF that(1)]]) (use that Cons.prems in auto)
  show ?case
    using Cons.prems x by (simp del: wp_and_then, intro wp_then [OF record_result_spec]) (auto intro: tail)
qed simp

lemma omit_then:
  assumes "pend h s0 (set nodes) R st" "keeps (pend h s0 {} R) (run_end s0) m"
  shows "wp (then_do (omit h nodes reason) m) (\<lambda>_. pend h s0 {} R) (run_end s0) st"
  by (rule wp_then [OF wp_omit [OF assms(1)]]) (rule keepsD [OF assms(2)])

lemma abort_spec:
  "pend h s0 (set nodes) R st \<Longrightarrow> wp (abortBatch h nodes assistant i cause) (\<lambda>_. pend h s0 {} R) (run_end s0) st"
  unfolding abortBatch_def Let_def by (erule omit_then) (intro keeps_intros)

lemma run_batch_spec:
  assumes "pend h s0 (set nodes) R st" "length nodes = length calls"
  shows "wp (run_batch h i assistant mc calls nodes) (\<lambda>_. pend h s0 {} R) (run_end s0) st"
  unfolding run_batch_def
proof (rule wp_keeps [OF open_run.finalize_keeps assms(1)])
  fix st1 assume st1: "pend h s0 (set nodes) R st1"
  obtain e d w where r: "run_calls h (mc_refused mc) calls (r_world st1) = ((e, d), w)" by (metis surj_pair)
  have st2: "pend h s0 (set nodes) R (st1\<lparr>r_world := w\<rparr>)" using st1 by simp
  let ?xs = "zip calls (zip (d_asks d) (zip (d_results d) nodes))"
  have "wp (case e of Some e \<Rightarrow> abortBatch h nodes assistant i e | None \<Rightarrow>
          and_then (record_results h i ?xs)
            (\<lambda>e. case e of Some e \<Rightarrow> abortBatch h nodes assistant i e | None \<Rightarrow> ret ()))
      (\<lambda>_. pend h s0 {} R) (run_end s0) (st1\<lparr>r_world := w\<rparr>)"
  proof (cases e)
    case (Some x)
    with abort_spec [OF st2] show ?thesis by simp
  next
    case None
    have len: "length (d_asks d) = length calls" "length (d_results d) = length calls"
      using run_calls_lengths r None by blast+
    have "map (\<lambda>x. snd (snd (snd x))) ?xs = nodes"
      using len assms(2) by (simp add: list_eq_iff_nth_eq)
    then have nodes: "(\<lambda>x. snd (snd (snd x))) ` set ?xs = set nodes" by (metis set_map)
    have b: "\<forall>x\<in>set ?xs. snd (snd (snd x)) \<in> set nodes" using nodes by blast
    have tail: "wp (case e2 of Some e \<Rightarrow> abortBatch h nodes assistant i e | None \<Rightarrow> ret ()) (\<lambda>_. pend h s0 {} R) (run_end s0) st3"
      if "pend h s0 (set nodes) R st3 \<and> open_calls (r_sess st3) \<subseteq> open_calls (r_sess (st1\<lparr>r_world := w\<rparr>))
         \<and> (e2 = None \<longrightarrow> (\<forall>x\<in>set ?xs. snd (snd (snd x)) \<notin> open_calls (r_sess st3)))" for e2 st3
    proof (cases e2)
      case None
      with that have "\<forall>a\<in>(\<lambda>x. snd (snd (snd x))) ` set ?xs. a \<notin> open_calls (r_sess st3)" by blast
      then have "open_calls (r_sess st3) \<inter> set nodes = {}" using nodes by blast
      with pend_spent that None show ?thesis by (metis option.simps(4) wp_ret)
    next
      case (Some x)
      with that abort_spec show ?thesis by (metis option.simps(5))
    qed
    show ?thesis unfolding None option.case by (rule wp_then [OF record_results_spec [OF st2 b] tail])
  qed
  with r show "wp (and_then (on_world (run_calls h (mc_refused mc) calls)) (\<lambda>r. case fst r of
        Some e \<Rightarrow> abortBatch h nodes assistant i e
      | None \<Rightarrow> and_then (record_results h i (zip calls (zip (d_asks (snd r)) (zip (d_results (snd r)) nodes))))
         (\<lambda>e. case e of Some e \<Rightarrow> abortBatch h nodes assistant i e | None \<Rightarrow> ret ())))
      (\<lambda>_. pend h s0 {} R) (run_end s0) st1"
    by (cases e) simp_all
qed

text \<open>The calls of the tree a batch answers: those of the model call, or the ones the host put in their place.\<close>

lemma batch_nodes_spec:
  assumes "pend h s0 (set (mc_nodes mc)) R st" "length (toolCalls (r_sess st) (mc_nodes mc)) = length calls"
  shows "wp (if sameCalls calls expanded then on_sess (get_state (\<lambda>s. toolCalls s (mc_nodes mc)))
             else on_sess (replaceCalls (h_newid h) (mc_nodes mc) expanded))
    (\<lambda>ns st'. pend h s0 (set ns) R st' \<and> length ns = length expanded) (run_end s0) st"
proof -
  note P = pendD [OF assms(1)] and S = spendD [OF pendD(1) [OF assms(1)]]
  have b: "\<forall>a\<in>set (mc_nodes mc). a < s_size (r_sess st)" using S(4) by blast
  have op: "open_calls (r_sess st) - set (toolCalls (r_sess st) (mc_nodes mc)) = open_calls (r_sess st) - set (mc_nodes mc)"
    by (auto simp: open_calls_def toolCalls_def)
  have "pend h s0 (set (toolCalls (r_sess st) (mc_nodes mc))) R st"
    using P(2) spend_step [OF P(1) reaches_refl [OF S(2)] op] b S(5) by (auto simp: pend_def toolCalls_def)
  moreover have "wp (replaceCalls (h_newid h) (mc_nodes mc) expanded)
      (\<lambda>ns t. pend h s0 (set ns) R (st\<lparr>r_sess := t\<rparr>) \<and> length ns = length expanded)
      (\<lambda>e t. run_end s0 (Panicked e) (st\<lparr>r_sess := t\<rparr>)) (r_sess st)"
  proof (rule wp_mono [OF replaceCalls_spec [OF S(2) b]])
    fix ns s' assume a: "reaches (r_sess st) s' \<and> open_calls s' - set ns = open_calls (r_sess st) - set (mc_nodes mc)
      \<and> s_window s' = s_window (r_sess st) \<and> s_index s' = s_index (r_sess st)
      \<and> (\<forall>a\<in>set ns. s_size (r_sess st) \<le> a \<and> a < s_size s') \<and> distinct ns \<and> made_calls s' ns expanded"
    have "spend h s0 (set ns) R s'" by (rule spend_step [OF P(1)]) (use a S(5) reaches_calls in auto)
    with a P(2) show "pend h s0 (set ns) R (st\<lparr>r_sess := s'\<rparr>) \<and> length ns = length expanded"
      by (simp add: pend_def made_calls_def)
  qed (use reaches_trans [OF S(1)] P(2) in \<open>simp add: run_end_def\<close>)
  ultimately show ?thesis using assms(2) by (simp add: on_sess_def wp_on_part)
qed

lemma tool_turn_spec:
  assumes "pend h s0 (set (mc_nodes mc)) R st" "length (toolCalls (r_sess st) (mc_nodes mc)) = length (msg_calls assistant)"
  shows "wp (tool_turn h i assistant mc) (\<lambda>_. pend h s0 {} R) (run_end s0) st"
  unfolding tool_turn_def Let_def
  apply (rule wp_keeps [OF same_run.count_keeps], rule conjI [OF assms(1) same_tree_refl])
  apply (rule wp_ifI)
  subgoal by (rule omit_then, erule conjunct1) (intro keeps_intros)
  apply (rule wp_keeps [OF same_run.on_world_keeps], assumption)
  apply (rule wp_sumI)
  subgoal by (rule omit_then, erule conjunct1) (intro keeps_intros)
  apply (rule wp_then [OF batch_nodes_spec], erule conjunct1)
  subgoal using assms(2) by (auto dest: same_treeD(1) [where ns = "mc_nodes mc"])
  apply (rule wp_then [OF run_batch_spec], erule conjunct1, erule conjunct2)
  apply (rule keepsD [of "pend h s0 {} R"])
  subgoal by (intro keeps_intros)
  apply assumption
  done

lemma final_turn_spec:
  assumes "pend h s0 (set (mc_nodes mc)) (mc_rec mc) st"
  shows "wp (final_turn h p req turn assistant mc i) (\<lambda>_. pend h s0 {} (mc_rec mc)) (run_end s0) st"
proof -
  have wrap: "keeps (pend h s0 {} (mc_rec mc)) (run_end s0) (wrap_up h p req turn i)"
    unfolding wrap_up_def
    apply (rule keepsI)
    apply (rule wp_keeps [OF open_run.append_keeps], assumption)
    apply (rule wp_keeps [OF keeps_get_state [of "pend h s0 {} (mc_rec mc)"]], assumption)
    apply (rule wp_then [OF runModelCall_spec], assumption)
    apply (rule wp_keeps [OF keeps_get_state [of "pend h s0 (set (mc_nodes (fst mce))) (mc_rec mc)" for mce]], erule conjunct1)
    apply (rule omit_then, assumption)
    apply (intro keeps_intros)
    done
  show ?thesis
    unfolding final_turn_def by (rule omit_then [OF assms]) (intro keeps_intros wrap refl)
qed

lemma called_spec:
  assumes "pend h s0 (set (mc_nodes mc)) None st" "live_call_nodes mc st"
  shows "wp (called h p req turn msgs mc i) (\<lambda>_. pend h s0 {} None) (run_end s0) st"
proof -
  let ?m = "call_message (r_sess st) mc"
  let ?a = "if i \<noteq> [] then ?m\<lparr>msg_id := i\<rparr> else ?m"
  let ?S = "r_sess st"
  have n: "length (toolCalls ?S (mc_nodes mc)) = length (msg_calls ?a)"
    using assms(2) calls_of_nodes [of "mc_nodes mc" ?S] by (simp add: live_call_nodes_def call_message_def)
  have st: "pend h s0 (set (mc_nodes mc)) (mc_rec mc) st"
    using assms by (auto simp: pend_def spend_def live_call_nodes_def)
  have less: "pend h s0 {} (mc_rec mc) st' \<Longrightarrow> pend h s0 {} None st'" for st' by (auto simp: pend_def spend_def)
  show ?thesis
    unfolding called_def wp_and_then [of "get_state f" for f] wp_get_state Let_def
    apply (rule wp_keeps [OF same_run.given_keeps(1)], rule conjI [OF st same_tree_refl])
    apply (rule wp_keeps [OF same_run.last_keeps], assumption)
    apply (rule wp_keeps [OF same_run.resolveServedWindow_keeps], assumption)
    apply (rule wp_optionI)
    subgoal
      apply (rule wp_then [of _ "\<lambda>_. pend h s0 {} (mc_rec mc)"])
      subgoal using n by (intro wp_ifI tool_turn_spec final_turn_spec) (auto dest: same_treeD(1) [where ns = "mc_nodes mc"])
      subgoal by (simp add: less)
      done
    subgoal
      apply (rule wp_mono [OF omit_then, of h s0 "mc_nodes mc" "mc_rec mc"], erule conjunct1)
      subgoal by (intro keeps_intros)
      subgoal by (erule less)
      subgoal by assumption
      done
    done
qed

section \<open>The run\<close>

lemma retry_overflow_spec:
  assumes "pend h s0 (set (mc_nodes mc)) R st"
  shows "wp (retry_overflow h req turn mc i err)
    (\<lambda>again st'. pend h s0 (set (mc_nodes mc)) R st' \<and> (again \<longrightarrow> mc_nodes mc = [])) (run_end s0) st"
proof (cases "mc_nodes mc = []")
  case True
  have "keeps (pend h s0 {} R) (run_end s0) (retry_overflow h req turn mc i err)"
    unfolding retry_overflow_def by (intro keeps_intros keeps_modify) (auto elim: pend_frame)
  from keepsD [OF this] assms True show ?thesis by simp
qed (use assms in \<open>simp add: retry_overflow_def\<close>)

lemma call_failed_spec:
  "pend h s0 (set (mc_nodes mc)) R st \<Longrightarrow> wp (call_failed h mc i err) (\<lambda>_. pend h s0 {} R) (run_end s0) st"
  unfolding call_failed_def Let_def by (erule omit_then) (intro keeps_intros)

lemma run_turn_pend: "keeps (pend h s0 {} None) (run_end s0) (run_turn h p req turn)"
  unfolding run_turn_def Let_def
  apply (rule keepsI)
  apply (rule wp_keeps [OF closed_run.turn_start_keeps], assumption)
  apply (rule wp_keeps [OF closed_run.mint_keeps], assumption)
  apply (rule wp_keeps [OF open_run.sent_keeps], assumption)
  apply (rule wp_then [OF runModelCall_spec], assumption)
  apply (rule wp_optionI)
  subgoal by (rule called_spec) auto
  apply (rule wp_then [OF retry_overflow_spec], erule conjunct1)
  subgoal by (rule wp_ifI) (auto intro: call_failed_spec)
  done

lemma run_turns_pend: "keeps (pend h s0 {} None) (run_end s0) (run_turns fuel h p req turn)"
  by (induction fuel arbitrary: turn) (auto intro!: keeps_intros run_turn_pend keeps_exit pend_still)

lemma run_end_deferred: "run_end s0 e (deferred h e' st) = run_end s0 e st"
  by (simp add: run_end_def deferred_fields)

lemma runOn_end:
  assumes "session_wf s" "runOn fuel h req s w = (e, st)"
  shows "run_end s e st"
  using assms(2)
proof (cases rule: runOn_cases)
  case (refused err)
  then show ?thesis using reaches_refl [OF assms(1)] by (simp add: run_end_def kept_losses_def new_result_def)
next
  case (ran p st0 st1)
  let ?st = "st0\<lparr>r_sess := snd (checkMonotonic (h_hash h) (h_quote h) 0 s)\<rparr>"
  have "pend h s {} None ?st"
    using checked_session [OF assms(1), of "h_hash h" "h_quote h" 0] indexed_checked [OF assms(1), of h 0] ran(3)
    by (simp add: pend_def spend_def kept_losses_def new_result_def)
  from wpD [OF keepsD [OF run_turns_pend this] ran(5)] ran(6) show ?thesis
    by (auto simp: run_end_deferred)
qed

end
