(* ===== verification/RunBounds.thy ===== *)
theory RunBounds
  imports RunProps
begin

text \<open>
  How long a run takes: how many model calls it makes under a turn cap, and that it ends when the loops
  that wait on the host do.
\<close>

section \<open>Model calls of a turn\<close>

definition counts :: "nat \<Rightarrow> nat option \<Rightarrow> 'h rstate \<Rightarrow> bool" where
  "counts n ov st \<longleftrightarrow> res_turns (r_res st) \<le> n \<and> r_overflow st = ov"

definition spent :: "nat \<Rightarrow> run_exit \<Rightarrow> 'h rstate \<Rightarrow> bool" where
  "spent n e st \<longleftrightarrow> res_turns (r_res st) \<le> n"

lemma counts_frame:
  "counts n ov st \<Longrightarrow> r_overflow st' = r_overflow st \<Longrightarrow> res_turns (r_res st') = res_turns (r_res st) \<Longrightarrow> counts n ov st'"
  by (simp add: counts_def)

lemma counts_spent: "counts n ov st \<Longrightarrow> spent n e st"
  by (simp add: counts_def spent_def)

lemma counts_more: "counts n ov st \<Longrightarrow> n \<le> m \<Longrightarrow> counts m ov st"
  by (simp add: counts_def)

lemma spent_more: "spent n e st \<Longrightarrow> n \<le> m \<Longrightarrow> spent m e st"
  by (simp add: spent_def)

lemma counts_check: "keeps (counts n ov) E (check_states h turn msgs cm)"
proof -
  have "keeps (counts n ov) E (record_lost h l)" for l
    unfolding record_lost_def tell_host_def
    by (intro keeps_intros keeps_run_fn keeps_modify) (auto elim: counts_frame split: prod.splits)
  then show ?thesis unfolding check_states_def
    by (intro keeps_and_then keeps_run_fn) (auto elim: counts_frame split: prod.splits)
qed

lemma counts_sess: "keeps (counts n ov) (spent n) (on_sess m)"
  unfolding on_sess_def by (rule keeps_on_part) (auto simp: wp_def counts_def spent_def split: prod.splits sum.splits)

lemmas counts_rounds = still_keeps [of "counts n ov" "spent n" for n ov, OF counts_frame counts_spent]

interpretation counted: free_steps h "counts n ov" "spent n" R req for h n ov R req
  by unfold_locales (auto intro: counts_frame counts_spent counts_check counts_sess counts_rounds)

lemma wp_counts:
  assumes "keeps (counts n ov) (spent n) m" "counts n ov st" "n \<le> N"
    and "\<And>x st'. counts n ov st' \<Longrightarrow> wp (f x) Q (spent N) st'"
  shows "wp (and_then m f) Q (spent N) st"
  by (rule wp_keeps [OF keeps_exits [OF assms(1) spent_more [OF _ assms(3)]] assms(2,4)])

lemma ends_counts: "keeps (counts n ov) (spent n) m \<Longrightarrow> counts n ov st \<Longrightarrow> n \<le> N \<Longrightarrow> wp m (\<lambda>_. counts N ov) (spent N) st"
  by (rule wp_mono [OF keepsD [of "counts n ov" "spent n"]]) (auto elim: spent_more counts_more)

lemma runModelCall_counts:
  assumes "counts n ov st"
  shows "wp (runModelCall h p req turn msgs tools i) (\<lambda>_. counts (Suc n) ov) (spent (Suc n)) st"
proof -
  have "wp (stream_into h p r turn i tools) (\<lambda>_. counts n ov) (spent n) st1" if "counts n ov st1" for r st1
    using that unfolding stream_into_def wp_on_part
    by (auto simp: wp_def counts_def spent_def split: prod.splits sum.splits)
  note stream = wp_mono [OF this]
  have begun: "wp (case fst begun of
       Some e \<Rightarrow> ret (no_call, Some e)
     | None \<Rightarrow>
         and_then (stream_into h p (snd begun) turn i tools) (\<lambda>r.
         then_do (set_res (\<lambda>res. res\<lparr>res_turns := Suc (res_turns res),
             res_usages := res_usages res @ (case sr_comp r of None \<Rightarrow> [] | Some c \<Rightarrow> [co_usage c])\<rparr>))
         (and_then (on_world (emitTurnEnd h turn (sr_comp r) (sr_err r))) (\<lambda>cberr.
          ret (\<lparr>mc_comp = sr_comp r, mc_nodes = sr_nodes r, mc_rec = Some (sr_rec r), mc_refused = sr_refused r\<rparr>,
               if cberr \<noteq> None then cberr else sr_err r)))))
     (\<lambda>_. counts (Suc n) ov) (spent (Suc n)) st1" if "counts n ov st1" for begun st1
    using that by (cases "fst begun") (auto intro!: stream simp: counts_def spent_def)
  show ?thesis
    unfolding runModelCall_def
    apply (rule wp_counts [OF counted.mark_keeps assms], simp)
    apply (simp only: wp_and_then [of "on_world f" for f] wp_on_world)
    apply (rule begun)
    apply (erule counts_frame; simp)
    done
qed

lemma wrap_up_counts:
  "counts n ov st \<Longrightarrow> wp (wrap_up h p req turn i) (\<lambda>_. counts (Suc n) ov) (spent (Suc n)) st"
  unfolding wrap_up_def
  apply (rule wp_counts [OF counts_sess], assumption, simp)
  apply (rule wp_counts [OF keeps_get_state], assumption, simp)
  apply (rule wp_then [OF runModelCall_counts], assumption)
  apply (rule ends_counts [of "Suc n"])
  subgoal by (intro keeps_intros)
  subgoal by assumption
  subgoal by simp
  done

lemma final_turn_counts:
  assumes "counts n ov st"
  shows "wp (final_turn h p req turn assistant mc i) (\<lambda>_. counts (Suc n) ov) (spent (Suc n)) st"
proof -
  have written: "keeps (counts n ov) (spent n) (written_answer h assistant mc i)" for n
    by (rule counted.written_keeps) (rule refl)
  show ?thesis
  unfolding final_turn_def
  apply (rule wp_counts [OF counted.omit_keeps assms], simp)
  apply (rule wp_counts [OF counted.wait_subagents_keeps [OF refl]], assumption, simp)
  apply (intro wp_ifI)
  subgoal by (rule ends_counts [OF keeps_ret], assumption, simp)
  subgoal by (rule ends_counts [OF counted.answer_keeps], assumption, simp)
  apply (rule wp_counts [OF counted.looks_keep(1)], assumption, simp)
  apply (intro wp_ifI)
  subgoal by (rule ends_counts [of n]) (auto intro!: keeps_intros written)
  apply (rule wp_then [of _ "\<lambda>_. counts (Suc n) ov"])
  subgoal by (intro wp_ifI wrap_up_counts) (auto simp: counts_def)
  apply (rule keepsD [of "counts (Suc n) ov"])
  subgoal by (intro keeps_intros written)
  apply assumption
  done
qed

lemma called_counts:
  assumes "counts n ov st"
  shows "wp (called h p req turn msgs mc i) (\<lambda>next st. next = Suc turn \<and> counts (Suc n) ov st) (spent (Suc n)) st"
  unfolding called_def
  apply (rule wp_counts [OF keeps_get_state assms], simp)
  apply (rule wp_counts [OF counted.given_keeps(1)], assumption, simp)
  apply (rule wp_counts [OF counted.last_keeps], assumption, simp)
  apply (rule wp_counts [OF counted.resolveServedWindow_keeps], assumption, simp)
  apply (rule wp_optionI)
  subgoal
    apply (rule wp_then [of _ "\<lambda>_. counts (Suc n) ov"])
    subgoal by (intro wp_ifI final_turn_counts ends_counts [of n]) (auto intro!: keeps_intros)
    subgoal by simp
    done
  subgoal
    unfolding Let_def
    apply (rule wp_counts [OF counted.omit_keeps], assumption, simp)
    apply (rule wp_counts [OF counted.finalize_keeps], assumption, simp)
    apply (auto simp: done_with_def save_messages_def counts_def spent_def)
    done
  done

section \<open>Turns\<close>

lemma retry_overflow_counts:
  assumes "counts n ov st"
  shows "wp (retry_overflow h req turn mc i err)
    (\<lambda>again st'. if again then ov \<noteq> Some turn \<and> counts n (Some turn) st' else \<exists>ov'. counts n ov' st') (spent n) st"
proof -
  have retry: "wp (and_then (compactNow h req) (\<lambda>compacted.
        if compacted
        then then_do (finalizeAssistant h i None ''error'') (then_do forget_last (then_do forget_sent (ret True)))
        else ret False))
    (\<lambda>again st'. counts n (Some turn) st') (spent n) (st\<lparr>r_overflow := Some turn\<rparr>)" if "f64_pos (rq_autoCompact req)"
    apply (rule keepsD [of "counts n (Some turn)"])
    subgoal using that by (intro keeps_intros)
    subgoal using assms by (simp add: counts_def)
    done
  show ?thesis
    unfolding retry_overflow_def wp_and_then [of "get_state f" for f] wp_get_state wp_if
    using assms by (auto simp del: wp_and_then simp: counts_def wp_and_then [of "modify f" for f]
        intro!: wp_mono [OF retry [unfolded counts_def]])
qed

lemma call_failed_never_back: "never_back (call_failed h mc i err)"
  unfolding call_failed_def done_with_def stop_with_def by (intro never_back_intros)

text \<open>A turn moves on, or is asked again after its first overflow; it makes at most two calls then.\<close>

lemma run_turn_counts:
  assumes "counts n ov st"
  shows "wp (run_turn h p req turn)
    (\<lambda>next st'. next = turn \<and> ov \<noteq> Some turn \<and> counts (Suc n) (Some turn) st' \<or> next = Suc turn \<and> counts (n + 2) ov st')
    (spent (n + 2)) st"
  unfolding run_turn_def Let_def
  apply (rule wp_counts [OF counted.turn_start_keeps assms], simp)
  apply (rule wp_counts [OF counted.mint_keeps], assumption, simp)
  apply (rule wp_counts [OF counted.sent_keeps], assumption, simp)
  apply (rule wp_then [of _ "\<lambda>_. counts (Suc n) ov"])
  subgoal by (rule wp_mono [OF runModelCall_counts], assumption+) (auto elim: spent_more)
  apply (rule wp_optionI)
  subgoal by (rule wp_mono [OF called_counts], assumption) (auto elim: spent_more)
  apply (rule wp_then [of _ "\<lambda>again st'. if again then ov \<noteq> Some turn \<and> counts (Suc n) (Some turn) st' else \<exists>ov'. counts (Suc n) ov' st'"])
  subgoal by (rule wp_mono [OF retry_overflow_counts], assumption+) (auto elim: spent_more)
  apply (rule wp_ifI)
  subgoal by simp
  subgoal
    apply (simp, elim exE)
    apply (rule wp_mono [OF wp_never_back [OF call_failed_never_back counted.call_failed_keeps]], assumption)
    apply (auto elim: spent_more)
    done
  done

text \<open>
  \<open>on_budget\<close>: at the start of a turn the run has made at most three calls for each turn before it, and one
  more when this turn's first call overflowed.
\<close>

definition on_budget :: "nat \<Rightarrow> nat \<Rightarrow> 'h rstate \<Rightarrow> bool" where
  "on_budget M turn st \<longleftrightarrow> turn \<le> M \<and> (case r_overflow st of None \<Rightarrow> True | Some t \<Rightarrow> t \<le> turn \<and> t < M)
     \<and> res_turns (r_res st) \<le> 3 * turn + (if r_overflow st = Some turn then 1 else 0)"

lemma run_turn_budget:
  assumes "on_budget M turn st" "turn < M"
  shows "wp (run_turn h p req turn) (\<lambda>next st'. on_budget M next st'
      \<and> (next = turn \<and> r_overflow st \<noteq> Some turn \<and> r_overflow st' = Some turn \<or> next = Suc turn \<and> r_overflow st' = r_overflow st))
    (spent (3 * M)) st"
proof -
  let ?n = "res_turns (r_res st)"
  have n: "?n + 2 \<le> 3 * M" using assms by (auto simp: on_budget_def split: if_splits)
  have "counts ?n (r_overflow st) st" by (simp add: counts_def)
  then show ?thesis
    by (rule wp_mono [OF run_turn_counts]) (use assms n in \<open>auto simp: on_budget_def counts_def elim: spent_more split: if_splits option.splits\<close>)
qed

lemma run_turns_spent:
  assumes "on_budget M turn st" "h_maxTurns h = int M" "M > 0"
  shows "wp (run_turns fuel h p req turn) (\<lambda>_ _. True) (spent (3 * M)) st"
  using assms(1)
proof (induction fuel arbitrary: turn st)
  case 0
  then show ?case by (auto simp: on_budget_def spent_def split: if_splits option.splits)
next
  case (Suc fuel)
  have capped: "M \<le> turn \<Longrightarrow> wp (capped_end h) (\<lambda>_ _. True) (spent (3 * M)) st"
    by (rule wp_mono [OF keepsD [OF counted.capped_end_keeps [of "3 * M" "r_overflow st"]]])
      (use Suc.prems in \<open>auto simp: on_budget_def counts_def split: option.splits\<close>)
  show ?case
  proof (cases "M \<le> turn")
    case True
    with capped assms(2,3) show ?thesis by simp
  next
    case False
    then have "wp (run_turn h p req turn) (\<lambda>next st'. wp (run_turns fuel h p req next) (\<lambda>_ _. True) (spent (3 * M)) st')
        (spent (3 * M)) st"
      by (intro wp_mono [OF run_turn_budget [OF Suc.prems]] Suc.IH) auto
    with False assms(2) show ?thesis by simp
  qed
qed

section \<open>The end of the loop\<close>

text \<open>
  The loops of a turn that wait on the host: an inbox that is drained, sub-agents that are waited for, a
  compaction that halves its request.
\<close>

definition inner_loops_end :: "'h host \<Rightarrow> Request \<Rightarrow> bool" where
  "inner_loops_end h req \<longleftrightarrow> (\<forall>st. fst (drainInbox h st) \<noteq> Inl StillGoing
     \<and> fst (subs_collect (h_rounds h) h st) \<noteq> Inl StillGoing
     \<and> (f64_pos (rq_autoCompact req) \<longrightarrow> fst (fit_messages h req st) \<noteq> Inl StillGoing))"

definition ends_well :: "'h host \<Rightarrow> Request \<Rightarrow> run_exit \<Rightarrow> 'h rstate \<Rightarrow> bool" where
  "ends_well h req e st \<longleftrightarrow> (inner_loops_end h req \<longrightarrow> e \<noteq> StillGoing)"

lemma ends_well_keeps:
  assumes "\<And>st. inner_loops_end h req \<Longrightarrow> fst (m st) \<noteq> Inl StillGoing"
  shows "keeps (\<lambda>_. True) (ends_well h req) m"
proof (rule keepsI)
  fix st show "wp m (\<lambda>_ _. True) (ends_well h req) st"
    using assms [of st] by (auto simp: wp_def ends_well_def split: prod.splits sum.splits)
qed

interpretation total: whole_turns h "\<lambda>_. True" "ends_well h req" R req for h R req
proof (unfold_locales, simp_all)
  show "keeps (\<lambda>_. True) (ends_well h req) (check_states h turn msgs cm)" for turn msgs cm
    unfolding check_states_def record_lost_def tell_host_def by (intro keeps_intros keeps_run_fn keeps_modify) simp_all
  show "keeps (\<lambda>_. True) (ends_well h req) (drainInbox h)"
    by (rule ends_well_keeps) (simp add: inner_loops_end_def)
  show "keeps (\<lambda>_. True) (ends_well h req) (subs_collect (h_rounds h) h)"
    by (rule ends_well_keeps) (simp add: inner_loops_end_def)
  show "f64_pos (rq_autoCompact req) \<Longrightarrow> keeps (\<lambda>_. True) (ends_well h req) (fit_messages h req)"
    by (rule ends_well_keeps) (simp add: inner_loops_end_def)
  show "ends_well h req (Returned err) st" for err st by (simp add: ends_well_def)
  have sess: "keeps (\<lambda>_. True) (ends_well h req) (on_sess m)" for m :: "(add_error, unit, session) prog"
    by (rule ends_well_keeps) (simp add: on_sess_def on_part_def split: prod.splits sum.splits)
  show "keeps (\<lambda>_. True) (ends_well h req) (on_sess m)" for m :: "(add_error, unit, session) prog" by (rule sess)
  show "keeps (\<lambda>_. True) (ends_well h req) (on_sess m)" for m :: "(add_error, unit, session) prog" by (rule sess)
  have "keeps (\<lambda>_. True) (ends_well h req) (stream_into h p r turn i tools)" for p r turn i tools
    by (rule ends_well_keeps) (simp add: stream_into_def on_part_def split: prod.splits sum.splits)
  then show "keeps (\<lambda>_. True) (ends_well h req) (runModelCall h p req turn msgs tools i)" for p turn msgs tools i
    unfolding runModelCall_def mark_elapsed_def set_res_def on_world_def
    by (intro keeps_intros keeps_run_fn keeps_modify) simp_all
qed

lemma run_turns_ends:
  assumes "inner_loops_end h req" "h_maxTurns h = int M" "M > 0" "on_budget M turn st"
    and "2 * (M - turn) + (if r_overflow st = Some turn then 0 else 1) < fuel"
  shows "wp (run_turns fuel h p req turn) (\<lambda>_ _. False) (\<lambda>e _. e \<noteq> StillGoing) st"
  using assms(4,5)
proof (induction fuel arbitrary: turn st)
  case (Suc fuel)
  have good: "ends_well h req e st' \<Longrightarrow> e \<noteq> StillGoing" for e st' using assms(1) by (simp add: ends_well_def)
  show ?case
  proof (cases "M \<le> turn")
    case True
    have "never_back (capped_end h :: (unit, 'a) run)" unfolding capped_end_def done_with_def by (intro never_back_intros)
    with True assms(2,3) show ?thesis
      by (auto intro: wp_mono [OF wp_never_back [OF _ total.capped_end_keeps [of h req]]] dest: good)
  next
    case False
    have "wp (run_turn h p req turn)
        (\<lambda>next st'. wp (run_turns fuel h p req next) (\<lambda>_ _. False) (\<lambda>e _. e \<noteq> StillGoing) st') (\<lambda>e _. e \<noteq> StillGoing) st"
    proof (rule wp_mono [OF wp_conj [OF run_turn_budget [OF Suc.prems(1)] keepsD [OF total.run_turn_keeps]]])
      show "turn < M" using False by simp
    next
      fix t and st' :: "'a rstate"
      assume a: "(on_budget M t st' \<and> (t = turn \<and> r_overflow st \<noteq> Some turn \<and> r_overflow st' = Some turn
         \<or> t = Suc turn \<and> r_overflow st' = r_overflow st)) \<and> True"
      show "wp (run_turns fuel h p req t) (\<lambda>_ _. False) (\<lambda>e _. e \<noteq> StillGoing) st'"
        by (rule Suc.IH) (use a Suc.prems(2) False in \<open>auto split: if_splits\<close>)
    qed (use good in auto)
    with False assms(2) show ?thesis by simp
  qed
qed simp

end
