(* ===== verification/RunTheorems.thy ===== *)
theory RunTheorems
  imports RunAnswers RunBounds
begin

text \<open>
  What a run of the agent loop promises, whatever its host does: the properties of \<open>runOn\<close> and of the tool
  batch, on top of the invariants of \<open>RunAnswers\<close> and \<open>RunBounds\<close>, and a small host for their witnesses.
\<close>

section \<open>A host to run\<close>

text \<open>A model that reads once, then answers; the host has one read-only tool and allows two turns.\<close>

definition read_tool :: "nat world Tool" where
  "read_tool = \<lparr>t_decl = \<lparr>decl_name = ''read'', decl_description = [], decl_schema = [], decl_readonly = True,
     decl_destructive = None, decl_idempotent = False, decl_openWorld = None, decl_unvouched = False\<rparr>,
   t_execute = (\<lambda>i a w. ((\<lparr>tr_content = ''out '' @ a, tr_parts = [], tr_is_error = False\<rparr>, None), w)), t_hooks = []\<rparr>"

definition silent_completion :: Completion where
  "silent_completion = \<lparr>co_message = empty_message RoleAssistant, co_usage = zero_usage, co_reported = False,
     co_rawUsage = [], co_reasoning = None, co_cost = None, co_streamed = True, co_stop = [], co_model = [], co_routed = []\<rparr>"

definition reader_model :: "(Request, nat world) provider" where
  "reader_model = \<lparr>pv_streams = True, pv_call = (\<lambda>r w.
     (if w_host w = 0
      then CallEmit (EvStart (BeginCall ''c'' ''read'')) (\<lambda>_. CallEmit (EvDelta 0 FieldArguments ''{}'')
             (\<lambda>_. CallDone (Some silent_completion) None))
      else CallEmit (EvStart BeginText) (\<lambda>_. CallEmit (EvDelta 0 FieldText ''ok'')
             (\<lambda>_. CallDone (Some silent_completion) None)),
      w\<lparr>w_host := Suc (w_host w)\<rparr>))\<rparr>"

definition reader_host :: "nat host" where
  "reader_host = \<lparr>h_provider = Some reader_model, h_complete = (\<lambda>r w. (Inl Canceled, w)), h_limits = (\<lambda>m w. (None, w)),
     h_tools = [Some read_tool], h_approver = None, h_unknownTool = None, h_maxTurns = 2, h_watcher = None,
     h_diffTool = [], h_inbox = None, h_disableDedup = True, h_fallback = 0, h_override = 0, h_elapsed = None,
     h_turnHook = (\<lambda>_ w. w), h_stream = (\<lambda>e w. (None, w)), h_turnBegin = (\<lambda>t r w. ((None, r), w)),
     h_turnEnd = (\<lambda>t c e w. (None, w)), h_stop = (\<lambda>t c w. w), h_toolBatch = (\<lambda>cs w. ((None, cs), w)),
     h_toolCall = (\<lambda>c w. ((None, c), w)), h_toolResult = (\<lambda>c r m w. (None, w)), h_assistant = (\<lambda>p w. (([], None), w)),
     h_finalize = (\<lambda>e w. w), h_toolMessage = (\<lambda>e w. (None, w)), h_notice = (\<lambda>c i w. ([], w)), h_system = (\<lambda>m w. w),
     h_compaction = (\<lambda>c w. ([], w)), h_compactionFailed = (\<lambda>e w. w), h_window = (\<lambda>e w. w), h_stateLoss = (\<lambda>e w. w),
     h_ctx = (\<lambda>w. None), h_now = (\<lambda>w. (0, w)), h_tick = (\<lambda>w. w), h_wait = (\<lambda>w. (ByContext Canceled, w)),
     h_sched = (\<lambda>p w. (None, w)), h_newid = (\<lambda>n. replicate n (CHR ''n'')), h_quote = (\<lambda>s. s), h_hash = (\<lambda>s. s),
     h_digest = (\<lambda>s. s), h_clock = (\<lambda>_. []), h_rounds = 1\<rparr>"

definition plain_request :: Request where
  "plain_request = \<lparr>rq_model = [], rq_system = [], rq_messages = [], rq_tools = [], rq_autoCompact = \<lparr>f_mant = 0, f_exp = 0\<rparr>\<rparr>"

definition plain_world :: "nat world" where
  "plain_world = \<lparr>w_queue = Some (new_queue list_queue), w_subs = None, w_host = 0\<rparr>"

abbreviation reader_run :: "run_exit \<times> nat rstate" where
  "reader_run \<equiv> runOn 6 reader_host plain_request (newSession DialectAuto) plain_world"

lemma reader_run_returns:
  "fst reader_run = Returned None"
  "s_path (r_sess (snd reader_run)) = [1, 2, 3]" "res_turns (r_res (snd reader_run)) = 2"
  by code_simp+

lemma reader_run_pair: "reader_run = (Returned None, snd reader_run)"
  using reader_run_returns(1) by (metis prod.collapse)

section \<open>The conversation\<close>

text \<open>
  C1. When a run returns, whatever the host's tools, hooks, listeners and provider did and with whatever
  error, every tool call its model calls put into the conversation is answered by a result in the
  conversation, unless the host's batch hook replaced it: no request can ever carry a dangling call. No
  call the conversation already had open is touched.
\<close>

theorem run_answers_every_call:
  assumes "session_wf s" "runOn fuel h req s w = (Returned err, st)"
  shows "(\<forall>a\<in>set (s_path (r_sess st)). s_size s \<le> a \<and> is_call_node (n_body (s_node (r_sess st) a))
        \<and> \<not> n_superseded (s_node (r_sess st) a) \<and> model_made (s_calls (r_sess st)) (s_node (r_sess st) a)
        \<longrightarrow> answered (r_sess st) a)
     \<and> open_calls (r_sess st) = open_calls s"
proof -
  have o: "open_calls (r_sess st) = open_calls s" using runOn_end [OF assms] by (simp add: run_end_def)
  have "a < s_size s" if "a \<in> open_calls s" for a using that s_path_bounds [OF assms(1)] by (auto simp: open_calls_def)
  with o have "a < s_size s" if "a \<in> open_calls (r_sess st)" for a using that by simp
  then show ?thesis using o by (fastforce simp: open_calls_def)
qed

theorem run_answers_every_call_witness:
  "answered (r_sess (snd reader_run)) 1 \<and> open_calls (r_sess (snd reader_run)) = {}"
proof -
  have n: "is_call_node (n_body (s_node (r_sess (snd reader_run)) 1)) \<and> \<not> n_superseded (s_node (r_sess (snd reader_run)) 1)
      \<and> model_made (s_calls (r_sess (snd reader_run))) (s_node (r_sess (snd reader_run)) 1)" by code_simp
  have "s_size (newSession DialectAuto) \<le> 1" by code_simp
  with run_answers_every_call [OF newSession_wf reader_run_pair] n reader_run_returns(2) show ?thesis by simp
qed

text \<open>
  C2. A run only appends. However it ends, a panic included, the session it leaves is well formed, the
  conversation it started from is a prefix of the one it leaves, and every node of the tree is still there
  with its id, kind, parent, model call and body: only children are added, and calls may be marked
  superseded.
\<close>

theorem run_only_appends:
  assumes "session_wf s"
  shows "session_wf (r_sess (snd (runOn fuel h req s w))) \<and> grows s (r_sess (snd (runOn fuel h req s w)))"
proof -
  obtain e st where "runOn fuel h req s w = (e, st)" by (metis surj_pair)
  with runOn_end [OF assms this] show ?thesis by (simp add: run_end_def reaches_def)
qed

theorem run_only_appends_witness:
  "prefix (s_path (newSession DialectAuto)) (s_path (r_sess (snd reader_run))) \<and> session_wf (r_sess (snd reader_run))"
  using run_only_appends [OF newSession_wf, of 6 reader_host plain_request DialectAuto plain_world] by (auto dest: growsD(2))

text \<open>
  The tree check never raises a false alarm: whatever a run does to its conversation, no loss it
  reports is of a value the tree would no longer hold; the losses are of messages the transcript kept
  shorter than their completions, and of tokens the endpoint did not count. This holds for any hash.
\<close>

theorem run_tree_check_silent:
  assumes "session_wf s"
  shows "filter (\<lambda>l. prefix ''the conversation no longer holds '' (sl_detail l) \<or> \<not> call_loss l)
     (res_stateLosses (r_res (snd (runOn fuel h req s w)))) = []"
proof -
  obtain e st where r: "runOn fuel h req s w = (e, st)" by (metis surj_pair)
  have p: "call_loss l" if "l \<in> set (res_stateLosses (r_res st))" for l
    using runOn_end [OF assms r] that by (auto simp: run_end_def kept_losses_def list_all_iff)
  have "\<not> prefix ''the conversation no longer holds '' (sl_detail l)" if "call_loss l" for l
    using that by (auto simp: prefix_def call_loss_def)
  with p r show ?thesis by (auto simp: filter_empty_conv)
qed

theorem run_tree_check_silent_witness:
  "session_wf (newSession DialectAuto)
   \<and> filter (\<lambda>l. prefix ''the conversation no longer holds '' (sl_detail l) \<or> \<not> call_loss l) (res_stateLosses (r_res (snd reader_run))) = []"
  using run_tree_check_silent [OF newSession_wf] newSession_wf by blast

section \<open>Bounds\<close>

lemma run_turns_start:
  assumes "r_res st1 = new_result" "r_overflow st1 = None"
  shows "on_budget M 0 (st1\<lparr>r_sess := s\<rparr>)"
  using assms by (simp add: on_budget_def new_result_def)

text \<open>
  C3. A run with a positive turn cap makes at most three model calls for each allowed turn: the turn's own,
  one more after a compaction when the first was refused as too long, and the wrap-up call of a turn that
  wrote nothing. The cap itself bounds turns, not calls.
\<close>

theorem run_model_calls:
  assumes "0 < h_maxTurns h"
  shows "res_turns (r_res (snd (runOn fuel h req s w))) \<le> 3 * nat (h_maxTurns h)"
proof -
  let ?M = "nat (h_maxTurns h)"
  have M: "h_maxTurns h = int ?M" "0 < ?M" using assms by auto
  obtain e st where r: "runOn fuel h req s w = (e, st)" by (metis surj_pair)
  then have "res_turns (r_res st) \<le> 3 * ?M"
  proof (cases rule: runOn_cases)
    case (refused err)
    then show ?thesis by (simp add: new_result_def)
  next
    case (ran p st0 st1)
    from wpD [OF run_turns_spent [OF run_turns_start [OF ran(3,4)] M] ran(5)] ran(6) show ?thesis
      by (simp add: spent_def deferred_fields)
  qed
  with r show ?thesis by simp
qed

theorem run_model_calls_witness:
  "0 < h_maxTurns reader_host \<and> res_turns (r_res (snd reader_run)) = 2 \<and> (2::nat) \<le> 3 * nat (h_maxTurns reader_host)"
proof -
  have "0 < h_maxTurns reader_host" by (simp add: reader_host_def)
  with run_model_calls [OF this, of 6 plain_request "newSession DialectAuto" plain_world] reader_run_returns(3) show ?thesis
    by simp
qed

text \<open>
  C4. A run with a positive turn cap ends: after at most two rounds of its loop for each turn, and two more,
  it has returned, been refused or panicked, unless one of the loops that wait on the host (an inbox that
  never empties, a wait for sub-agents, a compaction that keeps failing as too long) does not end.
\<close>

theorem run_terminates:
  assumes "0 < h_maxTurns h" "inner_loops_end h req" "2 * nat (h_maxTurns h) + 2 \<le> fuel"
  shows "fst (runOn fuel h req s w) \<noteq> StillGoing"
proof -
  let ?M = "nat (h_maxTurns h)"
  have M: "h_maxTurns h = int ?M" "0 < ?M" using assms by auto
  obtain e st where r: "runOn fuel h req s w = (e, st)" by (metis surj_pair)
  then have "e \<noteq> StillGoing"
  proof (cases rule: runOn_cases)
    case (ran p st0 st1)
    have "2 * (?M - 0) + (if r_overflow (st0\<lparr>r_sess := snd (checkMonotonic (h_hash h) (h_quote h) 0 s)\<rparr>) = Some 0 then 0 else 1) < fuel"
      using assms(3) by simp
    from wpD [OF run_turns_ends [OF assms(2) M run_turns_start [OF ran(3,4)] this] ran(5)] show ?thesis by simp
  qed simp
  with r show ?thesis by simp
qed

lemma reader_loops_end: "inner_loops_end reader_host plain_request"
proof -
  have "fst (subs_collect 1 reader_host st) \<noteq> Inl StillGoing" for st
  proof -
    have "wp (subs_collect 1 reader_host) (\<lambda>_ _. True) (\<lambda>_ _. False) st"
      by (auto simp: numeral_1_eq_Suc_0 reader_host_def tick_def split: collect_check.split)
    then show ?thesis by (auto simp: wp_def split: prod.splits sum.splits)
  qed
  moreover have "fst (drainInbox reader_host st) \<noteq> Inl StillGoing" for st
    by (simp add: drainInbox_def reader_host_def ret_def)
  moreover have "\<not> f64_pos (rq_autoCompact plain_request)" by code_simp
  moreover have "h_rounds reader_host = 1" by (simp add: reader_host_def)
  ultimately show ?thesis by (simp add: inner_loops_end_def)
qed

theorem run_terminates_witness:
  "inner_loops_end reader_host plain_request \<and> fst (runOn 9 reader_host plain_request (newSession DialectAuto) plain_world) \<noteq> StillGoing"
proof -
  have "0 < h_maxTurns reader_host" "2 * nat (h_maxTurns reader_host) + 2 \<le> 9" by (simp_all add: reader_host_def)
  from run_terminates [OF this(1) reader_loops_end this(2)] reader_loops_end show ?thesis by blast
qed

text \<open>The deferred close hands back what was queued when the loop ended, the panic of a row aside.\<close>

lemma deferred_queue:
  "Closed (w_queue (r_world (deferred h e st)))" "Len list_queue (w_queue (r_world (deferred h e st))) = 0"
  by (auto simp: deferred_def Let_def Close_def Closed_def Len_def list_queue_def split: prod.splits option.splits
      dest: lq.drainLocked_items [unfolded list_queue_def])

lemma deferred_left:
  assumes "w_queue (h_tick h (r_world st)) = Some q" "mq_items q \<noteq> []"
  shows "res_undelivered (r_res (deferred h (Returned err) st)) = partitioned (mq_items q)"
proof -
  obtain out s where o: "drainLocked list_queue (mq_items q) = (out, s)" by (metis surj_pair)
  with lq.drainLocked_items [OF o] have out: "out = partitioned (mq_items q)" by simp
  have "partitioned xs \<noteq> []" if "xs \<noteq> []" for xs
    using that by (cases xs; cases "isSystemMessage (hd xs)") (auto simp: partitioned_def)
  with assms out o show ?thesis by (simp add: deferred_def Close_def)
qed

lemma runOn_returned:
  assumes "runOn fuel h req s w = (Returned err, st)"
  obtains p st0 st1 where "h_provider h = Some p" "resolveContextWindow h req (start_state h s w) = (Inr None, st0)"
    "run_turns fuel h p req 0 (st0\<lparr>r_sess := snd (checkMonotonic (h_hash h) (h_quote h) 0 (r_sess st0))\<rparr>) = (Inl (Returned err), st1)"
    "st = deferred h (Returned err) st1"
proof -
  obtain p where p: "h_provider h = Some p" "checkWindowConfig (h_fallback h) (h_override h) = None"
    using assms by (auto simp: runOn_def Let_def split: option.splits)
  obtain x st0 where r: "resolveContextWindow h req (start_state h s w) = (x, st0)" by (metis surj_pair)
  then obtain o1 where x: "x = Inr o1" using window_sess(4) [OF r] by (cases x) auto
  obtain y st1 where y: "run_turns fuel h p req 0 (st0\<lparr>r_sess := snd (checkMonotonic (h_hash h) (h_quote h) 0 (r_sess st0))\<rparr>) = (y, st1)"
    by (metis surj_pair)
  have o1: "o1 = None" using assms p r x by (cases o1) (auto simp: runOn_def)
  have "y = Inl (Returned err) \<and> st = deferred h (Returned err) st1"
    using assms p r x o1 y by (cases y) (auto simp: runOn_def Let_def split: run_exit.splits)
  with p(1) r x o1 y that show thesis by blast
qed

text \<open>
  C7. A run that got past its checks and has returned leaves its message queue closed and empty, so a
  message sent later is refused and not lost unseen; and whatever was in the queue when this run's own loop
  ended is handed back as undelivered, system messages first. A run refused before its first turn is
  another exit (\<open>Refused\<close>), which does not close it.
\<close>

theorem run_closes_queue:
  assumes "runOn fuel h req s w = (Returned err, st)"
  shows "Len list_queue (w_queue (r_world st)) = 0 \<and> Queue list_queue m (w_queue (r_world st)) = (False, w_queue (r_world st))
     \<and> (\<exists>p st0 st1. h_provider h = Some p \<and> resolveContextWindow h req (start_state h s w) = (Inr None, st0)
          \<and> run_turns fuel h p req 0 (st0\<lparr>r_sess := snd (checkMonotonic (h_hash h) (h_quote h) 0 (r_sess st0))\<rparr>)
              = (Inl (Returned err), st1)
          \<and> (case w_queue (h_tick h (r_world st1)) of None \<Rightarrow> True
             | Some q \<Rightarrow> mq_items q = [] \<or> res_undelivered (r_res st) = partitioned (mq_items q)))"
proof -
  obtain p st0 st1 where run: "h_provider h = Some p" "resolveContextWindow h req (start_state h s w) = (Inr None, st0)"
    "run_turns fuel h p req 0 (st0\<lparr>r_sess := snd (checkMonotonic (h_hash h) (h_quote h) 0 (r_sess st0))\<rparr>) = (Inl (Returned err), st1)"
    and st: "st = deferred h (Returned err) st1"
    by (rule runOn_returned [OF assms])
  have "case w_queue (h_tick h (r_world st1)) of None \<Rightarrow> True
      | Some q \<Rightarrow> mq_items q = [] \<or> res_undelivered (r_res st) = partitioned (mq_items q)"
    using deferred_left [of h st1] st by (auto split: option.split)
  moreover have "Len list_queue (w_queue (r_world st)) = 0"
    "Queue list_queue m (w_queue (r_world st)) = (False, w_queue (r_world st))"
    using deferred_queue [of h "Returned err" st1] st by (auto simp: Queue_def Closed_def split: option.splits)
  ultimately show ?thesis using run by blast
qed

theorem run_closes_queue_witness:
  "fst reader_run = Returned None
   \<and> Queue list_queue (UserMessage (notice ''late'')) (w_queue (r_world (snd reader_run))) = (False, w_queue (r_world (snd reader_run)))"
  using run_closes_queue [OF reader_run_pair, of "UserMessage (notice ''late'')"] reader_run_returns(1) by blast

section \<open>The tool batch\<close>

text \<open>What a result node of a batch holds.\<close>

definition result_node :: "ToolResult \<Rightarrow> nat \<Rightarrow> bool \<Rightarrow> node \<Rightarrow> bool" where
  "result_node r call plain n \<longleftrightarrow> (\<exists>content. n_body n = ToolResultNode (InTree call) [TextContent content] (tr_is_error r) []
     \<and> (plain \<longrightarrow> content = tr_content r))"

lemma collapse_result_frame:
  "wp (collapse_result h name r) (\<lambda>cp st'. r_sess st' = r_sess st \<and> (r_dedup st = None \<longrightarrow> r_dedup st' = None \<and> fst cp = tr_content r)) E st"
  by (auto simp: collapse_result_def split: option.splits prod.splits)

lemma record_result_order:
  assumes "session_wf (r_sess st)" "node < s_size (r_sess st)"
  shows "wp (record_result h i call ask r node)
    (\<lambda>e st'. reaches (r_sess st) (r_sess st') \<and> (r_dedup st = None \<longrightarrow> r_dedup st' = None)
       \<and> (e = None \<longrightarrow> (\<exists>a. s_path (r_sess st') = s_path (r_sess st) @ [a] \<and> s_size (r_sess st) \<le> a \<and> a < s_size (r_sess st')
            \<and> result_node r node (r_dedup st = None) (s_node (r_sess st') a)))) (\<lambda>_ _. True) st"
  unfolding record_result_def Let_def
  apply (rule wp_then [OF collapse_result_frame])
  using assms reaches_refl [OF assms(1)]
  by (auto simp: on_sess_def wp_on_part result_node_def intro!: wp_mono [OF toolResult_spec])

lemma result_node_kept: "kept_node n n' \<Longrightarrow> result_node r c p n \<Longrightarrow> result_node r c p n'"
  by (auto simp: result_node_def dest: kept_nodeD(6))

lemma record_results_order:
  assumes "session_wf (r_sess st)" "\<forall>x\<in>set xs. snd (snd (snd x)) < s_size (r_sess st)"
  shows "wp (record_results h i xs)
    (\<lambda>e st'. reaches (r_sess st) (r_sess st') \<and> (e = None \<longrightarrow> (\<exists>rs. s_path (r_sess st') = s_path (r_sess st) @ rs
        \<and> list_all2 (\<lambda>x a. a < s_size (r_sess st')
            \<and> result_node (fst (snd (snd x))) (snd (snd (snd x))) (r_dedup st = None) (s_node (r_sess st') a)) xs rs)))
    (\<lambda>_ _. True) st"
  using assms
proof (induction xs arbitrary: st)
  case Nil
  then show ?case by (simp add: reaches_refl)
next
  case (Cons x xs)
  obtain call ask r node where x: "x = (call, ask, r, node)" by (metis surj_pair)
  have tail: "wp (record_results h i xs)
      (\<lambda>e st'. reaches (r_sess st) (r_sess st') \<and> (e = None \<longrightarrow> (\<exists>rs. s_path (r_sess st') = s_path (r_sess st) @ rs
        \<and> list_all2 (\<lambda>x a. a < s_size (r_sess st')
            \<and> result_node (fst (snd (snd x))) (snd (snd (snd x))) (r_dedup st = None) (s_node (r_sess st') a)) (x # xs) rs)))
      (\<lambda>_ _. True) st1"
    if r1: "reaches (r_sess st) (r_sess st1)" and d: "r_dedup st = None \<longrightarrow> r_dedup st1 = None"
      and a: "s_path (r_sess st1) = s_path (r_sess st) @ [a]" "a < s_size (r_sess st1)"
        "result_node r node (r_dedup st = None) (s_node (r_sess st1) a)" for st1 a
  proof (rule wp_mono [OF Cons.IH])
    show "session_wf (r_sess st1)" by (rule reachesD(1) [OF r1])
    show "\<forall>x\<in>set xs. snd (snd (snd x)) < s_size (r_sess st1)"
      using Cons.prems(2) reachesD(3) [OF r1] by fastforce
    fix e st'
    assume post: "reaches (r_sess st1) (r_sess st') \<and> (e = None \<longrightarrow> (\<exists>rs. s_path (r_sess st') = s_path (r_sess st1) @ rs
        \<and> list_all2 (\<lambda>x a. a < s_size (r_sess st')
            \<and> result_node (fst (snd (snd x))) (snd (snd (snd x))) (r_dedup st1 = None) (s_node (r_sess st') a)) xs rs))"
    have "result_node r node (r_dedup st = None) (s_node (r_sess st') a)"
      using result_node_kept [OF growsD(3) [OF reachesD(2) a(2)] a(3)] post by blast
    moreover have "a < s_size (r_sess st')" using a(2) post reachesD(3) by fastforce
    moreover have "result_node q c (r_dedup st1 = None) n \<Longrightarrow> result_node q c (r_dedup st = None) n" for q c n
      using d by (auto simp: result_node_def)
    ultimately have more: "list_all2 (\<lambda>x a. a < s_size (r_sess st')
            \<and> result_node (fst (snd (snd x))) (snd (snd (snd x))) (r_dedup st = None) (s_node (r_sess st') a)) (x # xs) (a # rs)"
      if "list_all2 (\<lambda>x a. a < s_size (r_sess st')
            \<and> result_node (fst (snd (snd x))) (snd (snd (snd x))) (r_dedup st1 = None) (s_node (r_sess st') a)) xs rs" for rs
      using list_all2_mono [OF that] x by auto
    show "reaches (r_sess st) (r_sess st') \<and> (e = None \<longrightarrow> (\<exists>rs. s_path (r_sess st') = s_path (r_sess st) @ rs
        \<and> list_all2 (\<lambda>x a. a < s_size (r_sess st')
            \<and> result_node (fst (snd (snd x))) (snd (snd (snd x))) (r_dedup st = None) (s_node (r_sess st') a)) (x # xs) rs))"
      using post reaches_trans [OF r1] a(1) more by fastforce
  qed simp
  have node: "node < s_size (r_sess st)" using Cons.prems(2) x by simp
  show ?case
    unfolding x record_results.simps prod.case
    apply (rule wp_then [OF record_result_order [OF Cons.prems(1) node]])
    using tail x by (auto split: if_splits)
qed

definition batch_answered :: "'h host \<Rightarrow> modelCall \<Rightarrow> ToolCall list \<Rightarrow> nat list \<Rightarrow> bool \<Rightarrow> session \<Rightarrow> session \<Rightarrow> bool" where
  "batch_answered h mc calls nodes plain s s' \<longleftrightarrow> (\<exists>asks results rs.
     length asks = length calls \<and> length results = length calls \<and> length rs = length calls
     \<and> s_path s' = s_path s @ rs
     \<and> (\<forall>j<length calls. asked_as h (calls ! j) (asks ! j) \<and> resolved h (mc_refused mc) (asks ! j) (results ! j)
          \<and> result_node (results ! j) (nodes ! j) plain (s_node s' (rs ! j))))"

lemma run_batch_answered:
  assumes "session_wf (r_sess st)" "\<forall>a\<in>set nodes. a < s_size (r_sess st)" "length nodes = length calls"
  shows "wp (run_batch h i assistant mc calls nodes)
    (\<lambda>_ st'. batch_answered h mc calls nodes (r_dedup st = None) (r_sess st) (r_sess st')) (\<lambda>_ _. True) st"
proof -
  let ?Q = "\<lambda>st'. batch_answered h mc calls nodes (r_dedup st = None) (r_sess st) (r_sess st')"
  have "never_back (abortBatch h nodes assistant i e)" for e
    unfolding abortBatch_def done_with_def by (intro never_back_intros)
  then have stop: "wp (abortBatch h nodes assistant i e) (\<lambda>_. ?Q) (\<lambda>_ _. True) st1" for e st1
    by (rule wp_never_back [of _ "\<lambda>_. True"]) (simp_all add: keeps_def wp_def split: prod.splits sum.splits)
  let ?st = "st\<lparr>r_world := h_finalize h \<lparr>fa_id = i, fa_msg = Some assistant, fa_status = ''complete''\<rparr> (r_world st), r_current := []\<rparr>"
  obtain e d w where r: "run_calls h (mc_refused mc) calls (r_world ?st) = ((e, d), w)" by (metis surj_pair)
  let ?st2 = "?st\<lparr>r_world := w\<rparr>"
  have "wp (case e of Some e \<Rightarrow> abortBatch h nodes assistant i e | None \<Rightarrow>
          and_then (record_results h i (zip calls (zip (d_asks d) (zip (d_results d) nodes))))
            (\<lambda>e. case e of Some e \<Rightarrow> abortBatch h nodes assistant i e | None \<Rightarrow> ret ()))
      (\<lambda>_. ?Q) (\<lambda>_ _. True) ?st2"
  proof (rule wp_optionI)
    assume None: "e = None"
    let ?xs = "zip calls (zip (d_asks d) (zip (d_results d) nodes))"
    have r0: "run_calls h (mc_refused mc) calls (r_world ?st) = ((None, d), w)" using r None by simp
    note L = run_calls_lengths [OF r0] and V = run_calls_resolved [OF r0]
    have b: "\<forall>x\<in>set ?xs. snd (snd (snd x)) < s_size (r_sess ?st2)" using assms(2) by (auto dest!: set_zip_rightD)
    show "wp (and_then (record_results h i ?xs) (\<lambda>e. case e of Some e \<Rightarrow> abortBatch h nodes assistant i e | None \<Rightarrow> ret ()))
        (\<lambda>_. ?Q) (\<lambda>_ _. True) ?st2"
    proof (rule wp_then [OF record_results_order [OF _ b]])
      show "session_wf (r_sess ?st2)" using assms(1) by simp
      fix e2 :: "go_error option" and st3 :: "'a rstate"
      assume post: "reaches (r_sess ?st2) (r_sess st3) \<and> (e2 = None \<longrightarrow> (\<exists>rs. s_path (r_sess st3) = s_path (r_sess ?st2) @ rs
        \<and> list_all2 (\<lambda>x a. a < s_size (r_sess st3)
            \<and> result_node (fst (snd (snd x))) (snd (snd (snd x))) (r_dedup ?st2 = None) (s_node (r_sess st3) a)) ?xs rs))"
      have "?Q st3" if e2: "e2 = None"
      proof -
        obtain rs where rs: "s_path (r_sess st3) = s_path (r_sess st) @ rs"
          "list_all2 (\<lambda>x a. a < s_size (r_sess st3)
            \<and> result_node (fst (snd (snd x))) (snd (snd (snd x))) (r_dedup st = None) (s_node (r_sess st3) a)) ?xs rs"
          using post e2 by auto
        have len: "length rs = length calls" using list_all2_lengthD [OF rs(2)] L assms(3) by simp
        have "result_node (d_results d ! j) (nodes ! j) (r_dedup st = None) (s_node (r_sess st3) (rs ! j))" if "j < length calls" for j
          using list_all2_nthD2 [OF rs(2), of j] that len L assms(3) by simp
        moreover have "asked_as h (calls ! j) (d_asks d ! j)" if "j < length calls" for j
          by (rule list_all2_nthD [OF L(3) that])
        ultimately show ?thesis using rs(1) len L(1,2) V(2) unfolding batch_answered_def by blast
      qed
      then show "wp (case e2 of Some e \<Rightarrow> abortBatch h nodes assistant i e | None \<Rightarrow> ret ()) (\<lambda>_. ?Q) (\<lambda>_ _. True) st3"
        by (intro wp_optionI stop) simp
    qed
  qed (rule stop)
  with r show ?thesis by (cases e) (simp_all add: run_batch_def finalizeAssistant_def)
qed


definition read_call :: ToolCall where
  "read_call = \<lparr>tc_id = ''c'', tc_name = ''read'', tc_args = ''{}''\<rparr>"

definition asked_state :: "nat rstate" where
  "asked_state = start_state reader_host
     (snd (appendFlat (h_newid reader_host) ((empty_message RoleAssistant)\<lparr>msg_calls := [read_call]\<rparr>) (newSession DialectAuto)))
     plain_world"

abbreviation read_batch :: "(run_exit + unit) \<times> nat rstate" where
  "read_batch \<equiv> run_batch reader_host [] (empty_message RoleAssistant) no_call [read_call] [1] asked_state"

lemma asked_state_wf: "session_wf (r_sess asked_state)"
  using wpD [OF appendFlat_spec [where newid = "h_newid reader_host", OF newSession_wf [of DialectAuto],
      of "(empty_message RoleAssistant)\<lparr>msg_calls := [read_call]\<rparr>"] surjective_pairing]
  by (auto simp: asked_state_def start_state_def reaches_def split: sum.splits)


section \<open>Stuck models\<close>

text \<open>
  The loop counts how often a batch has been asked for in a row: after any sequence of batches, none of
  them empty, the count is the number of batches at the end that ask for the same tools with the same
  arguments as the last one.
\<close>

theorem count_batch_repeats:
  assumes "[] \<notin> set (bs @ [b])"
  shows "r_repeats (foldl (\<lambda>st cs. snd (count_batch cs st)) (start_state h s w) (bs @ [b]))
     = length (takeWhile (\<lambda>cs. batchFingerprint cs = batchFingerprint b) (rev (bs @ [b])))"
proof -
  have ne: "batchFingerprint cs \<noteq> []" if "cs \<noteq> []" for cs
    using that by (cases cs) (auto simp: batchFingerprint_def call_print_def)
  have "r_repeats (foldl (\<lambda>st cs. snd (count_batch cs st)) (start_state h s w) cs)
      = (if cs = [] then 0 else length (takeWhile (\<lambda>c. batchFingerprint c = batchFingerprint (last cs)) (rev cs)))
    \<and> r_lastBatch (foldl (\<lambda>st cs. snd (count_batch cs st)) (start_state h s w) cs)
      = (if cs = [] then [] else batchFingerprint (last cs))" if "[] \<notin> set cs" for cs
    using that
  proof (induction cs rule: rev_induct)
    case Nil
    then show ?case by (simp add: start_state_def)
  next
    case (snoc c cs)
    then show ?case
      using ne [of c] by (cases cs rule: rev_cases) (auto simp: count_batch_def run_fn_def Let_def start_state_def)
  qed
  from this [OF assms] show ?thesis by simp
qed

theorem count_batch_repeats_witness:
  "r_repeats (foldl (\<lambda>st cs. snd (count_batch cs st)) (start_state reader_host (newSession DialectAuto) plain_world)
     [[read_call], [read_call, read_call], [read_call], [read_call\<lparr>tc_id := ''other''\<rparr>]]) = 2"
  using count_batch_repeats [of "[[read_call], [read_call, read_call], [read_call]]" "[read_call\<lparr>tc_id := ''other''\<rparr>]"
      reader_host "newSession DialectAuto" plain_world]
  by (simp add: batchFingerprint_def call_print_def read_call_def)

text \<open>
  C6. The sixth identical batch in a row ends the run: its calls are answered as omitted, no hook and no
  tool of the host runs (the only thing that happens to the world is the finalized row), and the run returns
  \<open>ErrStuck\<close> with the batch's text as its final message.
\<close>

theorem stuck_batch_ends_run:
  assumes "batchFingerprint (msg_calls assistant) = r_lastBatch st" "5 \<le> r_repeats st"
    and "session_wf (r_sess st)" "\<forall>a\<in>set (mc_nodes mc). a < s_size (r_sess st)"
    and "tool_turn h i assistant mc st = (x, st')"
  shows "(\<exists>e. x = Inl (Panicked e)) \<or>
     (\<exists>err. x = Inl (Returned (Some err)) \<and> err_is (Some err) ErrStuck
        \<and> r_world st' = h_finalize h \<lparr>fa_id = i, fa_msg = Some (withoutCalls assistant i), fa_status = ''complete''\<rparr> (r_world st)
        \<and> open_calls (r_sess st') = open_calls (r_sess st) - set (mc_nodes mc)
        \<and> res_final (r_res st') = Some (withoutCalls assistant i))"
proof -
  let ?st = "st\<lparr>r_repeats := Suc (r_repeats st)\<rparr>"
  have c: "count_batch (msg_calls assistant) st = (Inr (Suc (r_repeats st)), ?st)"
    using assms(1) by (simp add: count_batch_def run_fn_def Let_def)
  have k: "StuckFailAt \<le> Suc (r_repeats st)" using assms(2) by (simp add: StuckFailAt_def)
  let ?stuck = "withoutCalls assistant i"
  let ?err = "Annotated ErrStuck ('': '' @ itoa (int (Suc (r_repeats st))) @ '' identical turns in a row'')"
  let ?m = "then_do (omit h (mc_nodes mc) (''the run stopped: the same tool calls repeated '' @ itoa (int (Suc (r_repeats st))) @ '' times''))
         (then_do (finalizeAssistant h i (Some ?stuck) ''complete'') (done_with ?stuck (Some ?err)))"
  have stop: "tool_turn h i assistant mc st = ?m ?st"
    using k by (simp add: tool_turn_def and_then_def [of "count_batch c" for c] c Let_def)
  have err: "err_is (Some ?err) ErrStuck" by (simp add: err_is_def error_is_def)
  have "wp (tool_turn h i assistant mc) (\<lambda>_ _. False)
      (\<lambda>x st'. (\<exists>e. x = Panicked e) \<or> x = Returned (Some ?err)
        \<and> r_world st' = h_finalize h \<lparr>fa_id = i, fa_msg = Some ?stuck, fa_status = ''complete''\<rparr> (r_world st)
        \<and> open_calls (r_sess st') = open_calls (r_sess st) - set (mc_nodes mc) \<and> res_final (r_res st') = Some ?stuck) st"
    by (rule wp_eq [of "tool_turn h i assistant mc" st ?m ?st, OF stop])
      (use assms(3,4) in \<open>auto simp: omit_def on_sess_def wp_on_part finalizeAssistant_def done_with_def save_messages_def
        intro!: wp_mono [OF omitCalls_spec]\<close>)
  from wpD [OF this assms(5)] err show ?thesis by (auto split: sum.splits)
qed

theorem stuck_batch_ends_run_witness:
  "(\<exists>e. fst (tool_turn reader_host [] ((empty_message RoleAssistant)\<lparr>msg_calls := [read_call]\<rparr>) no_call
        (asked_state\<lparr>r_lastBatch := batchFingerprint [read_call], r_repeats := 5\<rparr>)) = Inl (Returned (Some e)) \<and> err_is (Some e) ErrStuck)"
proof -
  let ?a = "(empty_message RoleAssistant)\<lparr>msg_calls := [read_call]\<rparr>"
  let ?st = "asked_state\<lparr>r_lastBatch := batchFingerprint [read_call], r_repeats := 5\<rparr>"
  obtain x st' where r: "tool_turn reader_host [] ?a no_call ?st = (x, st')" by (metis surj_pair)
  have np: "\<not> (\<exists>e. x = Inl (Panicked e))"
  proof -
    have "(case fst (tool_turn reader_host [] ?a no_call ?st) of Inl (Panicked e) \<Rightarrow> False | _ \<Rightarrow> True)" by code_simp
    with r show ?thesis by auto
  qed
  from stuck_batch_ends_run [OF _ _ _ _ r] asked_state_wf np r show ?thesis by (auto simp: no_call_def)
qed

end
