(* ===== verification/JsonText.thy ===== *)
theory JsonText
  imports Utf8
begin

text \<open>
  How \<open>json.Marshal\<close> writes a Go string: quotes, backslashes and control characters escaped, \<open><\<close>,
  \<open>>\<close>, \<open>&\<close> and the two line separators written as \<open>\uXXXX\<close>, and a byte that is not UTF-8 replaced
  by U+FFFD. Reading the literal back (\<open>unescape\<close> of \<open>Utf8\<close>) gives the string with its invalid bytes
  replaced.
\<close>

definition hex_digit :: "nat \<Rightarrow> char" where
  "hex_digit n = char_of (if n < 10 then 48 + n else 87 + n)"

definition u_escape :: "nat \<Rightarrow> string" where
  "u_escape r = [CHR 0x5C, CHR ''u'', hex_digit (r div 4096 mod 16), hex_digit (r div 256 mod 16),
     hex_digit (r div 16 mod 16), hex_digit (r mod 16)]"

definition quote_byte :: "char \<Rightarrow> string" where
  "quote_byte c =
     (if c = CHR 0x22 \<or> c = CHR 0x5C then [CHR 0x5C, c]
      else if c = CHR 0x08 then [CHR 0x5C, CHR ''b'']
      else if c = CHR 0x0C then [CHR 0x5C, CHR ''f'']
      else if c = CHR 0x0A then [CHR 0x5C, CHR ''n'']
      else if c = CHR 0x0D then [CHR 0x5C, CHR ''r'']
      else if c = CHR 0x09 then [CHR 0x5C, CHR ''t'']
      else if byte c < 32 \<or> c \<in> {CHR ''<'', CHR ''>'', CHR ''&''} then u_escape (byte c)
      else [c])"

definition quote_rune :: "string \<Rightarrow> string" where
  "quote_rune s =
     (let (r, n) = decode_rune s
      in if byte (hd s) < 128 then quote_byte (hd s)
         else if r = RuneError \<and> n = 1 then u_escape RuneError
         else if r = 8232 \<or> r = 8233 then u_escape r
         else take n s)"

function quote_body :: "string \<Rightarrow> string" where
  "quote_body [] = []"
| "quote_body (c # s) = quote_rune (c # s) @ quote_body (drop (snd (decode_rune (c # s))) (c # s))"
  by pat_completeness auto
termination
  by (relation "measure length") (auto simp: decode_rune_shrinks)

declare quote_body.simps(2) [simp del]

definition json_quote :: "string \<Rightarrow> string" where
  "json_quote s = CHR 0x22 # quote_body s @ [CHR 0x22]"

section \<open>Reading a literal back\<close>

lemma hex_val_digit [simp]: "n < 16 \<Longrightarrow> hex_val (hex_digit n) = Some n"
  by (simp add: hex_val_def hex_digit_def Let_def)

lemma hex_split:
  fixes r :: nat
  assumes "r < 65536"
  shows "((r div 4096 mod 16 * 16 + r div 256 mod 16) * 16 + r div 16 mod 16) * 16 + r mod 16 = r"
proof -
  have d: "r div 256 div 16 = r div 4096" "r div 16 div 16 = r div 256" by (simp_all flip: div_mult2_eq)
  have "r div 4096 mod 16 = r div 4096" using assms by simp
  moreover have "r div 4096 * 16 + r div 256 mod 16 = r div 256"
    using div_mult_mod_eq [of "r div 256" 16] by (simp only: d)
  moreover have "r div 256 * 16 + r div 16 mod 16 = r div 16"
    using div_mult_mod_eq [of "r div 16" 16] by (simp only: d)
  moreover have "r div 16 * 16 + r mod 16 = r" by (rule div_mult_mod_eq)
  ultimately show ?thesis by (simp only:)
qed

lemma getu4_u_escape [simp]:
  assumes "r < 65536"
  shows "getu4 (u_escape r @ t) = Some r"
  using hex_split [OF assms] assms by (simp only: u_escape_def append.simps getu4.simps) simp

lemma unescape_u_escape:
  assumes "r < 65536" "\<not> is_surrogate r"
  shows "unescape (u_escape r @ t) = map_option ((@) (encode_rune r)) (unescape t)"
proof -
  obtain u where u: "u_escape r = CHR 0x5C # CHR ''u'' # u" "length u = 4" by (auto simp: u_escape_def)
  have "getu4 (CHR 0x5C # (CHR ''u'' # u @ t)) = Some r" using getu4_u_escape [OF assms(1), of t] u by simp
  moreover have "drop 4 (u @ t) = t" using u by simp
  ultimately show ?thesis using assms(2) u by (simp add: unescape.simps(2))
qed

lemma encode_rune_byte [simp]: "byte c < 128 \<Longrightarrow> encode_rune (byte c) = [c]"
  by (simp add: encode_rune_def encode_valid_def valid_rune_def)

lemma unescape_quote_byte:
  assumes "byte c < 128"
  shows "unescape (quote_byte c @ t) = map_option ((#) c) (unescape t)"
proof -
  have "(@) [c] = (#) c" by auto
  with assms show ?thesis
    by (auto simp: quote_byte_def unescape_u_escape is_surrogate_def unescape.simps(2) simple_escape_def)
qed

lemma decode_rune_local:
  assumes "decode_rune s = (r, n)" "\<not> (r = RuneError \<and> n \<le> 1)"
  shows "decode_rune (take n s @ t) = (r, n)"
proof -
  obtain c r' where s: "s = c # r'" using assms by (cases s) (auto simp: decode_rune_def)
  show ?thesis
  proof (cases "byte c < 128")
    case True
    with assms s show ?thesis by (auto simp: decode_rune_def)
  next
    case False
    with assms s obtain m lo hi where m: "lead_info c = Some (m, lo, hi)"
      by (cases "lead_info c") (auto simp: decode_rune_def)
    then have "m = 2 \<or> m = 3 \<or> m = 4" by (auto simp: lead_info_def Let_def split: if_splits)
    moreover obtain c1 r1 where r': "r' = c1 # r1" using assms s m False by (cases r') (auto simp: decode_rune_def)
    moreover have "in_range lo hi c1" using assms s m False r' by (auto simp: decode_rune_def split: if_splits)
    ultimately consider "m = 2" | "m = 3 \<or> m = 4" by blast
    then show ?thesis
    proof cases
      case 1
      with assms s m False r' \<open>in_range lo hi c1\<close> show ?thesis by (auto simp: decode_rune_def)
    next
      case 2
      then obtain c2 r2 where r1: "r1 = c2 # r2" using assms s m False r' \<open>in_range lo hi c1\<close>
        by (cases r1) (auto simp: decode_rune_def)
      have i2: "in_range 128 191 c2" using 2 assms s m False r' r1 \<open>in_range lo hi c1\<close>
        by (auto simp: decode_rune_def split: if_splits)
      show ?thesis
      proof (cases "m = 3")
        case True
        with assms s m False r' r1 i2 \<open>in_range lo hi c1\<close> show ?thesis by (auto simp: decode_rune_def)
      next
        case m4: False
        then obtain c3 r3 where r2: "r2 = c3 # r3" using 2 assms s m False r' r1 i2 \<open>in_range lo hi c1\<close>
          by (cases r2) (auto simp: decode_rune_def)
        with 2 m4 assms s m False r' r1 i2 \<open>in_range lo hi c1\<close> show ?thesis
          by (auto simp: decode_rune_def split: if_splits)
      qed
    qed
  qed
qed

lemma unescape_quote_rune:
  assumes "s \<noteq> []"
  shows "unescape (quote_rune s @ t) = map_option ((@) (encode_rune (fst (decode_rune s)))) (unescape t)"
proof -
  obtain c s' where s: "s = c # s'" using assms by (cases s) auto
  obtain r n where d: "decode_rune s = (r, n)" by (cases "decode_rune s")
  have n: "1 \<le> n" "n \<le> length s" using decode_rune_width [OF assms] d by simp_all
  have cons: "(@) [c] = (#) c" by auto
  show ?thesis
  proof (cases "byte c < 128")
    case True
    then have "r = byte c" using d s by (simp add: decode_rune_def)
    with True s d show ?thesis by (simp add: quote_rune_def unescape_quote_byte cons)
  next
    case big: False
    show ?thesis
    proof (cases "(r = RuneError \<and> n = 1) \<or> r = 8232 \<or> r = 8233")
      case True
      then show ?thesis using big s d
        by (auto simp: quote_rune_def unescape_u_escape RuneError_def is_surrogate_def)
    next
      case False
      obtain k where k: "n = Suc k" using n by (cases n) auto
      have "decode_rune (c # take k s' @ t) = (r, n)"
        using decode_rune_local [OF d, of t] False n s k by simp
      moreover have "drop k (take k s' @ t) = t" using n s k by simp
      moreover have "c \<noteq> CHR 0x5C" "c \<noteq> CHR 0x22" using big by auto
      ultimately show ?thesis using big False s d k
        by (simp add: quote_rune_def unescape.simps(2) del: not_None_eq) auto
    qed
  qed
qed

lemma unescape_quote_body:
  "unescape (quote_body s @ t) = map_option ((@) (encode_runes (runes s))) (unescape t)"
proof (induction s rule: quote_body.induct)
  case 1
  then show ?case by (cases "unescape t") (simp_all add: encode_runes_def)
next
  case (2 c s)
  then show ?case
    by (cases "unescape t") (simp_all add: quote_body.simps(2) unescape_quote_rune runes.simps(2) encode_runes_def)
qed

lemma json_quote_reads_back: "json_string (json_quote s) = Some (encode_runes (runes s))"
  using unescape_quote_body [of s "[]"] by (simp add: json_quote_def)

end
