(* ===== verification/Minting.thy ===== *)
theory Minting
  imports Prelude
begin

text \<open>
  The contract of a store that mints identities: every operation either drops entries or appends one
  under the next identity and moves on. What follows for every sequence of operations: identities stay
  distinct, and one that was dropped never comes back.
\<close>

locale minting =
  fixes step :: "'c \<Rightarrow> 's \<Rightarrow> 's"
    and ids :: "'s \<Rightarrow> 'i::linorder list"
    and fresh :: "'s \<Rightarrow> 'i"
    and room :: "nat \<Rightarrow> 's \<Rightarrow> bool"
  assumes step_ids: "room (Suc n) s \<Longrightarrow>
      (subseq (ids (step c s)) (ids s) \<and> fresh (step c s) = fresh s)
      \<or> (ids (step c s) = ids s @ [fresh s] \<and> fresh s < fresh (step c s))"
    and room_step: "room (Suc n) s \<Longrightarrow> room n (step c s)"
    and room_less: "room (Suc n) s \<Longrightarrow> room n s"
    and room_ids: "room n s \<Longrightarrow> distinct (ids s) \<and> (\<forall>i\<in>set (ids s). i < fresh s)"
begin

lemma room_weaken: "room (m + n) s \<Longrightarrow> room n s"
  by (induction m) (simp_all add: room_less)

lemma room_fold: "room (n + length cs) s \<Longrightarrow> room n (fold step cs s)"
  by (induction cs arbitrary: s) (simp_all add: room_step)

lemma fresh_grows: "room (length cs) s \<Longrightarrow> fresh s \<le> fresh (fold step cs s)"
proof (induction cs arbitrary: s)
  case (Cons c cs)
  then have "fresh s \<le> fresh (step c s)" using step_ids [of "length cs" s c] by auto
  also have "\<dots> \<le> fresh (fold step cs (step c s))" using Cons room_step [of "length cs" s c] by simp
  finally show ?case by simp
qed simp

lemma dropped_stays_out:
  "room (length cs) s \<Longrightarrow> i \<notin> set (ids s) \<Longrightarrow> i < fresh s \<Longrightarrow> i \<notin> set (ids (fold step cs s))"
proof (induction cs arbitrary: s)
  case (Cons c cs)
  have "i \<notin> set (ids (step c s)) \<and> i < fresh (step c s)"
    using step_ids [of "length cs" s c] Cons.prems by (auto dest: subseq_order.trans subseq_elem)
  then show ?case using Cons room_step [of "length cs" s c] by simp
qed simp

lemma never_reused:
  assumes "room (length (xs @ ys @ zs)) s" "i \<in> set (ids (fold step xs s))" "i \<notin> set (ids (fold step (xs @ ys) s))"
  shows "i \<notin> set (ids (fold step (xs @ ys @ zs) s))"
proof -
  have xs: "room (length (ys @ zs)) (fold step xs s)"
    using assms(1) room_fold [of "length (ys @ zs)" xs s] by (simp add: ac_simps)
  then have ys: "room (length zs) (fold step (xs @ ys) s)"
    using room_fold [of "length zs" ys "fold step xs s"] by (simp add: ac_simps)
  have "room (length ys) (fold step xs s)"
    using xs room_weaken [of "length zs" "length ys"] by (simp add: ac_simps)
  with xs assms(2) have "i < fresh (fold step (xs @ ys) s)"
    using room_ids [OF xs] fresh_grows [of ys "fold step xs s"] by fastforce
  with assms(3) show ?thesis using dropped_stays_out [OF ys] by simp
qed

end

end
