(* ===== verification/TodoList.thy ===== *)
theory TodoList
  imports Tools JsonText Minting
begin

text \<open>
  The task list the model keeps for the user (\<open>todo/todo.go\<close>): the store, the four tools that change
  it (add, edit, cancel, complete), their argument checks, the list the host is handed after each
  change, and its rendering. Decoding an arguments payload (\<open>json.Unmarshal\<close> into the tool's argument
  struct), \<open>strconv.Quote\<close> and the inferred schemas are parameters; the host's \<open>Write\<close> is a function
  of its world. An id is a 64-bit \<open>int\<close>, so minting one wraps.
\<close>

section \<open>The store\<close>

definition TodoAddToolName :: string where "TodoAddToolName = ''todo_add''"
definition TodoEditToolName :: string where "TodoEditToolName = ''todo_edit''"
definition TodoCancelToolName :: string where "TodoCancelToolName = ''todo_cancel''"
definition TodoCompleteToolName :: string where "TodoCompleteToolName = ''todo_complete''"
definition TodoListPartType :: string where "TodoListPartType = ''todo_list''"

definition todoMaxItems :: nat where "todoMaxItems = 100"
definition todoMaxTitleRunes :: nat where "todoMaxTitleRunes = 200"

definition TodoPending :: string where "TodoPending = ''pending''"
definition TodoInProgress :: string where "TodoInProgress = ''in_progress''"
definition TodoDone :: string where "TodoDone = ''done''"

definition todoStates :: "string list" where
  "todoStates = [TodoPending, TodoInProgress, TodoDone]"

record Todo =
  td_id :: int
  td_title :: string
  td_state :: string

record todoStore =
  ts_items :: "Todo list"
  ts_next :: int

datatype todoKind = KindAdd | KindEdit | KindCancel | KindComplete

definition mint_next :: "Todo list \<Rightarrow> int" where
  "mint_next items = foldl (\<lambda>n t. if td_id t \<ge> n then wrap64 (td_id t + 1) else n) 1 items"

definition new_store :: "Todo list \<Rightarrow> todoStore" where
  "new_store initial = \<lparr>ts_items = initial, ts_next = mint_next initial\<rparr>"

section \<open>Checks of the arguments\<close>

record todoAddArgs =
  aa_title :: string
  aa_state :: string

record todoEditArgs =
  ea_id :: int
  ea_title :: string
  ea_state :: string

text \<open>What \<open>json.Unmarshal\<close> makes of a payload for each argument struct: an error's text or the struct.\<close>

record todo_decoders =
  dec_add :: "string \<Rightarrow> string + todoAddArgs"
  dec_edit :: "string \<Rightarrow> string + todoEditArgs"
  dec_cancel :: "string \<Rightarrow> string + int"
  dec_complete :: "string \<Rightarrow> string + int"

record 'w TodoConfig =
  cfg_write :: "(Todo list \<Rightarrow> 'w \<Rightarrow> go_error option \<times> 'w) option"
  cfg_dec :: todo_decoders
  cfg_quote :: "string \<Rightarrow> string"
  cfg_schema :: "todoKind \<Rightarrow> string"

definition unmarshalArgs :: "string \<Rightarrow> (string \<Rightarrow> string + 'a) \<Rightarrow> string \<Rightarrow> string + 'a" where
  "unmarshalArgs tool dec args =
     (if args = [] then Inl (''invalid '' @ tool @ '' arguments: empty payload'')
      else (case dec args of
              Inl err \<Rightarrow> Inl (''invalid '' @ tool @ '' arguments: '' @ err)
            | Inr a \<Rightarrow> Inr a))"

definition validTitle :: "string \<Rightarrow> string + string" where
  "validTitle title =
     (if title = [] then Inr []
      else let trimmed = trim_space title; n = rune_count trimmed
           in if trimmed = [] then Inl ''title is empty; every task needs one''
              else if n > todoMaxTitleRunes then
                Inl (''title has '' @ itoa (int n) @ '' characters; the limit is '' @
                  itoa (int todoMaxTitleRunes) @ ''. It is a task name, not a description.'')
              else Inr trimmed)"

definition knownTodoState :: "string \<Rightarrow> bool" where
  "knownTodoState s \<longleftrightarrow> s \<in> set todoStates"

definition todoStateList :: string where
  "todoStateList = join_with '', '' todoStates"

definition validState :: "(string \<Rightarrow> string) \<Rightarrow> string \<Rightarrow> string + string" where
  "validState quote state =
     (let s = trim_space state
      in if s = [] then Inr []
         else if \<not> knownTodoState s then Inl (''state '' @ quote s @ ''; it must be one of '' @ todoStateList)
         else Inr s)"

definition todoDefaultState :: "string \<Rightarrow> string" where
  "todoDefaultState state = (if state = [] then TodoPending else state)"

definition no_task :: "int \<Rightarrow> string" where
  "no_task i = ''no task with id '' @ itoa i @ ''; use a task id from the latest reply''"

text \<open>The loop of \<open>resolve\<close>, carrying the index found so far.\<close>

fun resolve_from :: "int \<Rightarrow> nat \<Rightarrow> nat option \<Rightarrow> Todo list \<Rightarrow> string + nat" where
  "resolve_from i k found [] =
     (case found of
        None \<Rightarrow> Inl (no_task i)
      | Some idx \<Rightarrow> Inr idx)"
| "resolve_from i k found (t # ts) =
     (if td_id t = i then
        (case found of
           Some _ \<Rightarrow> Inl (''task id '' @ itoa i @ '' is ambiguous: it names more than one task'')
         | None \<Rightarrow> resolve_from i (Suc k) (Some k) ts)
      else resolve_from i (Suc k) found ts)"

definition resolve :: "Todo list \<Rightarrow> int \<Rightarrow> string + nat" where
  "resolve items i = resolve_from i 0 None items"

section \<open>What the model and the host see\<close>

definition todoMark :: "string \<Rightarrow> string" where
  "todoMark state =
     (if state = TodoDone then ''[x]'' else if state = TodoInProgress then ''[~]'' else ''[ ]'')"

definition todo_line :: "Todo \<Rightarrow> string" where
  "todo_line t = NL # todoMark (td_state t) @ '' #'' @ itoa (td_id t) @ '' '' @ td_title t"

definition RenderTodos :: "Todo list \<Rightarrow> string" where
  "RenderTodos todos =
     (if todos = [] then ''Task list cleared.''
      else ''Task list updated ('' @ itoa (int (length todos)) @ '' tasks):'' @ concat (map todo_line todos))"

definition json_todo :: "Todo \<Rightarrow> string" where
  "json_todo t = [CHR 0x7B] @ json_quote ''id'' @ '':'' @ itoa (td_id t) @ '','' @ json_quote ''title'' @ '':''
     @ json_quote (td_title t) @ '','' @ json_quote ''state'' @ '':'' @ json_quote (td_state t) @ [CHR 0x7D]"

definition todoListPart :: "Todo list \<Rightarrow> ToolContentPart" where
  "todoListPart todos =
     \<lparr>tp_type = TodoListPartType, tp_text = [CHR 0x5B] @ join_with '','' (map json_todo todos) @ [CHR 0x5D],
      tp_data = [], tp_mime = ''application/json'', tp_uri = [], tp_name = [], tp_description = []\<rparr>"

section \<open>The tools\<close>

definition toolName :: "todoKind \<Rightarrow> string" where
  "toolName k = (case k of
      KindAdd \<Rightarrow> TodoAddToolName
    | KindEdit \<Rightarrow> TodoEditToolName
    | KindCancel \<Rightarrow> TodoCancelToolName
    | KindComplete \<Rightarrow> TodoCompleteToolName)"

type_synonym 'w todo_step = "todoStore \<Rightarrow> 'w \<Rightarrow> ToolResult \<times> todoStore \<times> 'w"

definition refuse :: "string \<Rightarrow> 'w todo_step" where
  "refuse msg s w = (error_result msg, s, w)"

definition writeList :: "'w TodoConfig \<Rightarrow> 'w todo_step" where
  "writeList cfg s w =
     (case cfg_write cfg of
        None \<Rightarrow> refuse ''the task list is unavailable: this run has nowhere to keep it'' s w
      | Some write \<Rightarrow>
          (case write (ts_items s) w of
             (Some err, w) \<Rightarrow> (error_result (''could not save the task list: '' @ error_text err), s, w)
           | (None, w) \<Rightarrow>
               (\<lparr>tr_content = RenderTodos (ts_items s), tr_parts = [todoListPart (ts_items s)],
                 tr_is_error = False\<rparr>, s, w)))"

definition doAdd :: "'w TodoConfig \<Rightarrow> string \<Rightarrow> 'w todo_step" where
  "doAdd cfg args s w =
     (case unmarshalArgs TodoAddToolName (dec_add (cfg_dec cfg)) args of
        Inl msg \<Rightarrow> refuse msg s w
      | Inr inp \<Rightarrow>
        (case validTitle (aa_title inp) of
           Inl msg \<Rightarrow> refuse msg s w
         | Inr title \<Rightarrow>
             if title = [] then refuse ''title is empty; every task needs one'' s w
             else (case validState (cfg_quote cfg) (aa_state inp) of
               Inl msg \<Rightarrow> refuse msg s w
             | Inr state \<Rightarrow>
                 if length (ts_items s) \<ge> todoMaxItems then
                   refuse (''too many tasks: the list holds at most '' @ itoa (int todoMaxItems) @
                     ''. Track the work at a coarser grain.'') s w
                 else writeList cfg (s\<lparr>ts_items := ts_items s
                          @ [\<lparr>td_id = ts_next s, td_title = title, td_state = todoDefaultState state\<rparr>],
                        ts_next := wrap64 (ts_next s + 1)\<rparr>) w)))"

definition doEdit :: "'w TodoConfig \<Rightarrow> string \<Rightarrow> 'w todo_step" where
  "doEdit cfg args s w =
     (case unmarshalArgs TodoEditToolName (dec_edit (cfg_dec cfg)) args of
        Inl msg \<Rightarrow> refuse msg s w
      | Inr inp \<Rightarrow>
        (case resolve (ts_items s) (ea_id inp) of
           Inl msg \<Rightarrow> refuse msg s w
         | Inr idx \<Rightarrow>
             if ea_title inp = [] \<and> ea_state inp = [] then
               refuse ''todo_edit: nothing to change; provide a title and/or a state'' s w
             else (case validTitle (ea_title inp) of
               Inl msg \<Rightarrow> refuse msg s w
             | Inr title \<Rightarrow>
               (case validState (cfg_quote cfg) (ea_state inp) of
                  Inl msg \<Rightarrow> refuse msg s w
                | Inr state \<Rightarrow>
                    let t = ts_items s ! idx;
                        t = (if title \<noteq> [] then t\<lparr>td_title := title\<rparr> else t);
                        t = (if state \<noteq> [] then t\<lparr>td_state := state\<rparr> else t)
                    in writeList cfg (s\<lparr>ts_items := (ts_items s)[idx := t]\<rparr>) w))))"

definition doCancel :: "'w TodoConfig \<Rightarrow> string \<Rightarrow> 'w todo_step" where
  "doCancel cfg args s w =
     (case unmarshalArgs TodoCancelToolName (dec_cancel (cfg_dec cfg)) args of
        Inl msg \<Rightarrow> refuse msg s w
      | Inr i \<Rightarrow>
        (case resolve (ts_items s) i of
           Inl msg \<Rightarrow> refuse msg s w
         | Inr idx \<Rightarrow>
             writeList cfg (s\<lparr>ts_items := take idx (ts_items s) @ drop (Suc idx) (ts_items s)\<rparr>) w))"

definition doComplete :: "'w TodoConfig \<Rightarrow> string \<Rightarrow> 'w todo_step" where
  "doComplete cfg args s w =
     (case unmarshalArgs TodoCompleteToolName (dec_complete (cfg_dec cfg)) args of
        Inl msg \<Rightarrow> refuse msg s w
      | Inr i \<Rightarrow>
        (case resolve (ts_items s) i of
           Inl msg \<Rightarrow> refuse msg s w
         | Inr idx \<Rightarrow>
             writeList cfg (s\<lparr>ts_items := (ts_items s)[idx := (ts_items s ! idx)\<lparr>td_state := TodoDone\<rparr>]\<rparr>) w))"

definition Execute :: "'w TodoConfig \<Rightarrow> todoKind \<Rightarrow> string \<Rightarrow> 'w todo_step" where
  "Execute cfg k args s w =
     (if cfg_write cfg = None then refuse ''the task list is unavailable: this run has nowhere to keep it'' s w
      else (case k of
          KindAdd \<Rightarrow> doAdd cfg args s w
        | KindEdit \<Rightarrow> doEdit cfg args s w
        | KindCancel \<Rightarrow> doCancel cfg args s w
        | KindComplete \<Rightarrow> doComplete cfg args s w))"

section \<open>The toolset\<close>

definition todoAddDescription :: string where
  "todoAddDescription =
     ''Adds one task to the task list the host shows the user. '' @
     ''Give it a title and an optional state. The new task gets an id, shown in the reply, '' @
     ''which every later todo_edit / todo_cancel / todo_complete call uses to address '' @
     ''exactly that task. The reply carries the whole current list, ids included, so '' @
     ''re-read it rather than recalling tasks from memory.''"

definition todoEditDescription :: string where
  "todoEditDescription =
     ''Changes ONE existing task on the task list by its id: a new title, a new state, or both. '' @
     ''Only the id you name is touched; every other task is left as it is. Provide at least one of title or state. '' @
     ''The reply carries the whole current list, ids included, so re-read it from the reply.''"

definition todoCancelDescription :: string where
  "todoCancelDescription =
     ''Removes ONE existing task from the task list by its id. Only that task is removed; '' @
     ''every other task keeps its id, title and state. The reply carries the whole current list, ids included, '' @
     ''so re-read it from the reply.''"

definition todoCompleteDescription :: string where
  "todoCompleteDescription =
     ''Marks ONE existing task on the task list done by its id. Only that task changes; '' @
     ''every other task keeps its id, title and state. The reply carries the whole current list, ids included, '' @
     ''so re-read it from the reply.''"

definition description :: "todoKind \<Rightarrow> string" where
  "description k = (case k of
      KindAdd \<Rightarrow> todoAddDescription
    | KindEdit \<Rightarrow> todoEditDescription
    | KindCancel \<Rightarrow> todoCancelDescription
    | KindComplete \<Rightarrow> todoCompleteDescription)"

definition todo_decl :: "'w TodoConfig \<Rightarrow> todoKind \<Rightarrow> ToolDecl" where
  "todo_decl cfg k =
     \<lparr>decl_name = toolName k, decl_description = description k, decl_schema = cfg_schema cfg k,
      decl_readonly = False, decl_destructive = Some False, decl_idempotent = (k \<noteq> KindAdd),
      decl_openWorld = Some False, decl_unvouched = False\<rparr>"

text \<open>The four tools share one store, which is part of the world they run in.\<close>

definition todo_tool :: "'w TodoConfig \<Rightarrow> todoKind \<Rightarrow> (todoStore \<times> 'w) Tool" where
  "todo_tool cfg k =
     \<lparr>t_decl = todo_decl cfg k,
      t_execute = (\<lambda>_ args (s, w). case Execute cfg k args s w of (r, s, w) \<Rightarrow> ((r, None), (s, w))),
      t_hooks = []\<rparr>"

definition NewTodoTools :: "'w TodoConfig \<Rightarrow> Todo list \<Rightarrow> (todoStore \<times> 'w) Tools \<times> todoStore" where
  "NewTodoTools cfg initial =
     (map (\<lambda>k. Some (todo_tool cfg k)) [KindAdd, KindEdit, KindCancel, KindComplete], new_store initial)"

section \<open>Finding a task\<close>

lemma resolve_from_found:
  "i \<notin> td_id ` set ts \<Longrightarrow> resolve_from i k (Some j) ts = Inr j"
  by (induction ts arbitrary: k) simp_all

lemma resolve_from_distinct:
  assumes "distinct (map td_id ts)"
  shows "resolve_from i k None ts =
    (if i \<in> td_id ` set ts then Inr (k + length (takeWhile (\<lambda>t. td_id t \<noteq> i) ts))
     else Inl (no_task i))"
  using assms
proof (induction ts arbitrary: k)
  case (Cons t ts)
  then show ?case
    by (cases "td_id t = i") (simp_all add: resolve_from_found)
qed simp

lemma resolve_distinct:
  assumes "distinct (map td_id ts)"
  shows "(\<exists>k. resolve ts i = Inr k \<and> k < length ts \<and> td_id (ts ! k) = i)
    \<or> (i \<notin> td_id ` set ts \<and>
        resolve ts i = Inl (no_task i))"
proof (cases "i \<in> td_id ` set ts")
  case True
  then have "takeWhile (\<lambda>t. td_id t \<noteq> i) ts \<noteq> ts" by (auto simp: takeWhile_eq_all_conv)
  then have "length (takeWhile (\<lambda>t. td_id t \<noteq> i) ts) < length ts"
    using length_takeWhile_le by (metis order_le_less takeWhile_eq_take take_all)
  moreover from this have "td_id (ts ! length (takeWhile (\<lambda>t. td_id t \<noteq> i) ts)) = i"
    using nth_length_takeWhile by fastforce
  ultimately show ?thesis using True resolve_from_distinct [OF assms, of i 0] by (simp add: resolve_def)
qed (use resolve_from_distinct [OF assms, of i 0] in \<open>simp add: resolve_def\<close>)

section \<open>The plan the store implements\<close>

text \<open>
  What a call promises, on a map from ids to titles and states and the next id: an error that
  changes nothing, or the one named task changed.
\<close>

record plan =
  pl_tasks :: "int \<rightharpoonup> string \<times> string"
  pl_next :: int

definition plan_of :: "todoStore \<Rightarrow> plan" where
  "plan_of s = \<lparr>pl_tasks = map_of (map (\<lambda>t. (td_id t, td_title t, td_state t)) (ts_items s)), pl_next = ts_next s\<rparr>"

definition plan_find :: "plan \<Rightarrow> int \<Rightarrow> string + string \<times> string" where
  "plan_find p i = (case pl_tasks p i of
      None \<Rightarrow> Inl (no_task i)
    | Some ts \<Rightarrow> Inr ts)"

fun plan_call :: "'w TodoConfig \<Rightarrow> todoKind \<Rightarrow> string \<Rightarrow> plan \<Rightarrow> string + plan" where
  "plan_call cfg KindAdd args p =
     bind_sum (unmarshalArgs TodoAddToolName (dec_add (cfg_dec cfg)) args) (\<lambda>inp.
     bind_sum (validTitle (aa_title inp)) (\<lambda>title.
     if title = [] then Inl ''title is empty; every task needs one''
     else bind_sum (validState (cfg_quote cfg) (aa_state inp)) (\<lambda>state.
     if 100 \<le> card (dom (pl_tasks p)) then
       Inl ''too many tasks: the list holds at most 100. Track the work at a coarser grain.''
     else Inr \<lparr>pl_tasks = (pl_tasks p)(pl_next p \<mapsto> (title, if state = [] then ''pending'' else state)),
               pl_next = pl_next p + 1\<rparr>)))"
| "plan_call cfg KindEdit args p =
     bind_sum (unmarshalArgs TodoEditToolName (dec_edit (cfg_dec cfg)) args) (\<lambda>inp.
     bind_sum (plan_find p (ea_id inp)) (\<lambda>(title0, state0).
     if ea_title inp = [] \<and> ea_state inp = [] then
       Inl ''todo_edit: nothing to change; provide a title and/or a state''
     else bind_sum (validTitle (ea_title inp)) (\<lambda>title.
     bind_sum (validState (cfg_quote cfg) (ea_state inp)) (\<lambda>state.
     Inr (p\<lparr>pl_tasks := (pl_tasks p)(ea_id inp \<mapsto>
            (if title = [] then title0 else title, if state = [] then state0 else state))\<rparr>)))))"
| "plan_call cfg KindCancel args p =
     bind_sum (unmarshalArgs TodoCancelToolName (dec_cancel (cfg_dec cfg)) args) (\<lambda>i.
     bind_sum (plan_find p i) (\<lambda>_. Inr (p\<lparr>pl_tasks := (pl_tasks p)(i := None)\<rparr>)))"
| "plan_call cfg KindComplete args p =
     bind_sum (unmarshalArgs TodoCompleteToolName (dec_complete (cfg_dec cfg)) args) (\<lambda>i.
     bind_sum (plan_find p i) (\<lambda>(title, _). Inr (p\<lparr>pl_tasks := (pl_tasks p)(i \<mapsto> (title, ''done''))\<rparr>)))"

section \<open>The tools implement the plan\<close>

definition todo_ok :: "nat \<Rightarrow> todoStore \<Rightarrow> bool" where
  "todo_ok n s \<longleftrightarrow> distinct (map td_id (ts_items s)) \<and> (\<forall>t\<in>set (ts_items s). td_id t < ts_next s)
     \<and> 1 \<le> ts_next s \<and> ts_next s + int n < 2 ^ 63"

abbreviation todo_entry :: "Todo \<Rightarrow> int \<times> string \<times> string" where
  "todo_entry t \<equiv> (td_id t, td_title t, td_state t)"

lemma map_of_todo_None [simp]: "map_of (map todo_entry ts) i = None \<longleftrightarrow> i \<notin> td_id ` set ts"
  by (simp add: map_of_eq_None_iff image_image)

lemma map_of_todo_nth:
  assumes "distinct (map td_id ts)" "k < length ts"
  shows "map_of (map todo_entry ts) (td_id (ts ! k)) = Some (td_title (ts ! k), td_state (ts ! k))"
proof (rule map_of_is_SomeI)
  show "distinct (map fst (map todo_entry ts))" using assms(1) by (simp add: comp_def)
  show "(td_id (ts ! k), td_title (ts ! k), td_state (ts ! k)) \<in> set (map todo_entry ts)"
    using assms(2) nth_mem [of k ts] by (metis (no_types, lifting) image_eqI list.set_map)
qed

lemma map_of_todo_update:
  assumes "distinct (map td_id ts)" "k < length ts" "td_id t = td_id (ts ! k)"
  shows "map_of (map todo_entry (ts[k := t])) = (map_of (map todo_entry ts))(td_id t \<mapsto> (td_title t, td_state t))"
  using assms
proof (induction ts arbitrary: k)
  case (Cons u ts)
  show ?case
  proof (cases k)
    case 0
    with Cons.prems show ?thesis by (auto simp: fun_eq_iff)
  next
    case (Suc j)
    then have "td_id (ts ! j) \<noteq> td_id u" using Cons.prems by (metis distinct.simps(2) image_eqI length_Cons list.set_map list.simps(9) not_less_eq nth_mem)
    with Suc Cons.prems Cons.IH [of j] show ?thesis by (auto simp: fun_eq_iff)
  qed
qed simp

lemma map_of_todo_remove:
  assumes "distinct (map td_id ts)" "k < length ts"
  shows "map_of (map todo_entry (take k ts @ drop (Suc k) ts)) = (map_of (map todo_entry ts))(td_id (ts ! k) := None)"
  using assms
proof (induction ts arbitrary: k)
  case (Cons u ts)
  show ?case
  proof (cases k)
    case 0
    then have "td_id u \<notin> td_id ` set ts" using Cons.prems by auto
    then have "map_of (map todo_entry ts) (td_id u) = None" by simp
    with 0 show ?thesis by (auto simp: fun_eq_iff)
  next
    case (Suc j)
    moreover from this have "td_id (ts ! j) \<noteq> td_id u"
      using Cons.prems by (metis distinct.simps(2) image_eqI length_Cons list.set_map list.simps(9) not_less_eq nth_mem)
    ultimately show ?thesis using Cons by (auto simp: fun_eq_iff)
  qed
qed simp

lemma map_of_todo_add:
  assumes "td_id t \<notin> td_id ` set ts"
  shows "map_of (map todo_entry (ts @ [t])) = (map_of (map todo_entry ts))(td_id t \<mapsto> (td_title t, td_state t))"
  using assms by (induction ts) (auto simp: fun_eq_iff)

lemma card_dom_todo:
  assumes "distinct (map td_id ts)"
  shows "card (dom (map_of (map todo_entry ts))) = length ts"
  using distinct_card [OF assms] by (simp add: dom_map_of_conv_image_fst image_image)

lemma plan_find_cases:
  assumes "distinct (map td_id (ts_items s))"
  obtains k where "resolve (ts_items s) i = Inr k" "k < length (ts_items s)" "td_id (ts_items s ! k) = i"
      "plan_find (plan_of s) i = Inr (td_title (ts_items s ! k), td_state (ts_items s ! k))"
  | msg where "resolve (ts_items s) i = Inl msg" "plan_find (plan_of s) i = Inl msg"
proof (cases "i \<in> td_id ` set (ts_items s)")
  case True
  then obtain k where k: "resolve (ts_items s) i = Inr k" "k < length (ts_items s)" "td_id (ts_items s ! k) = i"
    using resolve_distinct [OF assms, of i] by blast
  then have "plan_find (plan_of s) i = Inr (td_title (ts_items s ! k), td_state (ts_items s ! k))"
    using map_of_todo_nth [OF assms, of k] by (simp add: plan_find_def plan_of_def)
  with k that(1) show thesis by blast
next
  case False
  then have "map_of (map todo_entry (ts_items s)) i = None" by simp
  then have "plan_find (plan_of s) i = Inl (no_task i)"
    by (simp only: plan_find_def plan_of_def plan.simps option.case)
  moreover have "resolve (ts_items s) i = Inl (no_task i)"
    using False resolve_distinct [OF assms, of i] by auto
  ultimately show thesis by (rule that(2) [rotated])
qed

definition saved :: "(Todo list \<Rightarrow> 'w \<Rightarrow> go_error option \<times> 'w) \<Rightarrow> 'w todo_step" where
  "saved write s w =
     (case write (ts_items s) w of
        (Some err, w) \<Rightarrow> (error_result (''could not save the task list: '' @ error_text err), s, w)
      | (None, w) \<Rightarrow>
          (\<lparr>tr_content = RenderTodos (ts_items s), tr_parts = [todoListPart (ts_items s)],
            tr_is_error = False\<rparr>, s, w))"

lemma writeList_saved: "cfg_write cfg = Some write \<Longrightarrow> writeList cfg = saved write"
  by (simp add: writeList_def saved_def fun_eq_iff)

lemma pl_next_plan_of [simp]: "pl_next (plan_of s) = ts_next s"
  by (simp add: plan_of_def)

lemma plan_of_upd:
  assumes "distinct (map td_id (ts_items s))" "k < length (ts_items s)" "td_id t = td_id (ts_items s ! k)"
  shows "plan_of (s\<lparr>ts_items := (ts_items s)[k := t]\<rparr>) =
    (plan_of s)\<lparr>pl_tasks := (pl_tasks (plan_of s))(td_id t \<mapsto> (td_title t, td_state t))\<rparr>"
  using map_of_todo_update [OF assms] by (simp add: plan_of_def)

lemma plan_of_remove:
  assumes "distinct (map td_id (ts_items s))" "k < length (ts_items s)"
  shows "plan_of (s\<lparr>ts_items := take k (ts_items s) @ drop (Suc k) (ts_items s)\<rparr>) =
    (plan_of s)\<lparr>pl_tasks := (pl_tasks (plan_of s))(td_id (ts_items s ! k) := None)\<rparr>"
  using map_of_todo_remove [OF assms] by (simp add: plan_of_def)

text \<open>The outcome a plan's answer stands for.\<close>

definition meets :: "(Todo list \<Rightarrow> 'w \<Rightarrow> go_error option \<times> 'w) \<Rightarrow> todoStore \<Rightarrow> 'w \<Rightarrow> string + plan
    \<Rightarrow> ToolResult \<times> todoStore \<times> 'w \<Rightarrow> bool" where
  "meets write s w out r =
     (case out of
        Inl msg \<Rightarrow> r = (error_result msg, s, w)
      | Inr p \<Rightarrow> plan_of (fst (snd r)) = p \<and> r = saved write (fst (snd r)) w)"

lemma meets_refuse [intro]: "meets write s w (Inl msg) (refuse msg s w)"
  by (simp add: meets_def refuse_def)

lemma meets_saved: "plan_of s' = p \<Longrightarrow> meets write s w (Inr p) (saved write s' w)"
  by (simp add: meets_def saved_def split: prod.splits option.splits)

lemma meets_guard:
  assumes "\<And>a. g = Inr a \<Longrightarrow> meets write s w (f a) (k a)"
  shows "meets write s w (bind_sum g f) (case g of Inl msg \<Rightarrow> refuse msg s w | Inr a \<Rightarrow> k a)"
  using assms by (cases g) auto

lemma meets_if:
  "(b \<Longrightarrow> meets write s w p r) \<Longrightarrow> (\<not> b \<Longrightarrow> meets write s w q t)
    \<Longrightarrow> meets write s w (if b then p else q) (if b then r else t)"
  by simp

lemma meets_find:
  assumes "distinct (map td_id (ts_items s))"
    and "\<And>k. k < length (ts_items s) \<Longrightarrow> td_id (ts_items s ! k) = i
      \<Longrightarrow> meets write s w (f (td_title (ts_items s ! k), td_state (ts_items s ! k))) (g k)"
  shows "meets write s w (bind_sum (plan_find (plan_of s) i) f)
     (case resolve (ts_items s) i of Inl msg \<Rightarrow> refuse msg s w | Inr k \<Rightarrow> g k)"
  using plan_find_cases [OF assms(1), of i] by (rule, simp_all add: assms(2) meets_refuse)

lemma doAdd_meets:
  assumes "todo_ok 1 s" "cfg_write cfg = Some write"
  shows "meets write s w (plan_call cfg KindAdd args (plan_of s)) (doAdd cfg args s w)"
proof -
  have ok: "distinct (map td_id (ts_items s))" "ts_next s \<notin> td_id ` set (ts_items s)"
    "wrap64 (ts_next s + 1) = ts_next s + 1"
    using assms(1) by (auto simp: todo_ok_def wrap64_id)
  have add: "plan_of (s\<lparr>ts_items := ts_items s @ [\<lparr>td_id = ts_next s, td_title = a, td_state = b\<rparr>],
      ts_next := ts_next s + 1\<rparr>) = \<lparr>pl_tasks = (pl_tasks (plan_of s))(ts_next s \<mapsto> (a, b)), pl_next = ts_next s + 1\<rparr>" for a b
    using ok(2) map_of_todo_add [of "\<lparr>td_id = ts_next s, td_title = a, td_state = b\<rparr>" "ts_items s"] by (simp add: plan_of_def)
  have card: "card (dom (pl_tasks (plan_of s))) = length (ts_items s)"
    using card_dom_todo [OF ok(1)] by (simp add: plan_of_def)
  have full: "''too many tasks: the list holds at most '' @ itoa (int todoMaxItems) @
      ''. Track the work at a coarser grain.'' = ''too many tasks: the list holds at most 100. Track the work at a coarser grain.''"
    by code_simp
  show ?thesis
    unfolding plan_call.simps doAdd_def full writeList_saved [OF assms(2)] ok(3) card
    unfolding todoMaxItems_def
    by (intro meets_guard meets_if meets_refuse meets_saved)
      (simp_all add: add todoDefaultState_def TodoPending_def)
qed

lemma doEdit_meets:
  assumes "todo_ok 1 s" "cfg_write cfg = Some write"
  shows "meets write s w (plan_call cfg KindEdit args (plan_of s)) (doEdit cfg args s w)"
proof -
  have ok: "distinct (map td_id (ts_items s))" using assms(1) by (simp add: todo_ok_def)
  show ?thesis
    unfolding plan_call.simps doEdit_def writeList_saved [OF assms(2)] Let_def
    by (intro meets_guard meets_find ok, unfold prod.case, intro meets_if meets_guard meets_refuse meets_saved)
      (simp_all add: plan_of_upd [OF ok])
qed

lemma doCancel_meets:
  assumes "todo_ok 1 s" "cfg_write cfg = Some write"
  shows "meets write s w (plan_call cfg KindCancel args (plan_of s)) (doCancel cfg args s w)"
proof -
  have ok: "distinct (map td_id (ts_items s))" using assms(1) by (simp add: todo_ok_def)
  show ?thesis
    unfolding plan_call.simps doCancel_def writeList_saved [OF assms(2)]
    by (intro meets_guard meets_find ok meets_saved) (auto simp: plan_of_remove [OF ok])
qed

lemma doComplete_meets:
  assumes "todo_ok 1 s" "cfg_write cfg = Some write"
  shows "meets write s w (plan_call cfg KindComplete args (plan_of s)) (doComplete cfg args s w)"
proof -
  have ok: "distinct (map td_id (ts_items s))" using assms(1) by (simp add: todo_ok_def)
  show ?thesis
    unfolding plan_call.simps doComplete_def writeList_saved [OF assms(2)]
    by (intro meets_guard meets_find ok, unfold prod.case, intro meets_saved)
      (simp add: plan_of_upd [OF ok] TodoDone_def)
qed

text \<open>
  C23. Every call of a task-list tool does what the plan promises: where the plan refuses it, the call
  is an error result with the plan's text and neither the store nor the host's world changes; where the
  plan changes one task, the store becomes that plan and the host is handed the new list exactly once.
  The result is then an error exactly when the host's write failed, and the change stays in the store
  in that case too.
\<close>
theorem todo_refines_plan:
  assumes "todo_ok 1 s" "cfg_write cfg = Some write"
  shows "case plan_call cfg k args (plan_of s) of
      Inl msg \<Rightarrow> Execute cfg k args s w = (error_result msg, s, w)
    | Inr p \<Rightarrow> \<exists>s'. plan_of s' = p \<and> Execute cfg k args s w =
        (case write (ts_items s') w of
           (Some err, w') \<Rightarrow> (error_result (''could not save the task list: '' @ error_text err), s', w')
         | (None, w') \<Rightarrow>
             (\<lparr>tr_content = RenderTodos (ts_items s'), tr_parts = [todoListPart (ts_items s')],
               tr_is_error = False\<rparr>, s', w'))"
proof -
  have "meets write s w (plan_call cfg k args (plan_of s)) (Execute cfg k args s w)"
    using assms doAdd_meets doEdit_meets doCancel_meets doComplete_meets by (cases k) (auto simp: Execute_def)
  then show ?thesis
    by (cases "plan_call cfg k args (plan_of s)") (auto simp: meets_def saved_def)
qed

section \<open>What a sequence of calls keeps\<close>

abbreviation todo_ids :: "todoStore \<Rightarrow> int list" where
  "todo_ids s \<equiv> map td_id (ts_items s)"

definition call_step :: "'w TodoConfig \<Rightarrow> todoKind \<times> string \<Rightarrow> todoStore \<times> 'w \<Rightarrow> todoStore \<times> 'w" where
  "call_step cfg c sw = snd (Execute cfg (fst c) (snd c) (fst sw) (snd sw))"

definition todo_calls :: "'w TodoConfig \<Rightarrow> (todoKind \<times> string) list \<Rightarrow> Todo list \<Rightarrow> 'w \<Rightarrow> todoStore \<times> 'w" where
  "todo_calls cfg cs initial w = fold (call_step cfg) cs (new_store initial, w)"

lemma resolve_from_bound:
  "resolve_from i k found ts = Inr j \<Longrightarrow> (\<forall>m. found = Some m \<longrightarrow> m < k) \<Longrightarrow> j < k + length ts"
proof (induction ts arbitrary: k found)
  case Nil
  then show ?case by (simp split: option.splits)
next
  case (Cons t ts)
  show ?case
  proof (cases "td_id t = i")
    case True
    then have "found = None" using Cons.prems(1) by (cases found) simp_all
    with True Cons show ?thesis using Cons.IH [of "Suc k" "Some k"] by simp
  next
    case False
    then show ?thesis using Cons.IH [of "Suc k" found] Cons.prems by fastforce
  qed
qed

lemma resolve_bound: "resolve ts i = Inr j \<Longrightarrow> j < length ts"
  using resolve_from_bound [of i 0 None ts j] by (simp add: resolve_def)

definition good_task :: "Todo \<Rightarrow> bool" where
  "good_task t \<longleftrightarrow> td_title t \<noteq> [] \<and> rune_count (td_title t) \<le> todoMaxTitleRunes \<and> td_state t \<in> set todoStates"

text \<open>The ways one call changes the store.\<close>

definition store_moves :: "todoStore \<Rightarrow> todoStore \<Rightarrow> bool" where
  "store_moves s s' \<longleftrightarrow> s' = s
     \<or> (\<exists>t. length (ts_items s) < todoMaxItems \<and> td_id t = ts_next s \<and> good_task t
          \<and> s' = s\<lparr>ts_items := ts_items s @ [t], ts_next := wrap64 (ts_next s + 1)\<rparr>)
     \<or> (\<exists>k t. k < length (ts_items s) \<and> td_id t = td_id (ts_items s ! k)
          \<and> (good_task (ts_items s ! k) \<longrightarrow> good_task t) \<and> s' = s\<lparr>ts_items := (ts_items s)[k := t]\<rparr>)
     \<or> (\<exists>k. s' = s\<lparr>ts_items := take k (ts_items s) @ drop (Suc k) (ts_items s)\<rparr>)"

lemma moves_refuse [intro]: "store_moves s (fst (snd (refuse msg s w)))"
  by (simp add: store_moves_def refuse_def)

lemma store_writeList [simp]: "fst (snd (writeList cfg s w)) = s"
  by (simp add: writeList_def refuse_def split: option.splits prod.splits)

lemma validTitle_good: "validTitle t = Inr u \<Longrightarrow> u \<noteq> [] \<Longrightarrow> rune_count u \<le> todoMaxTitleRunes"
  by (auto simp: validTitle_def Let_def split: if_splits)

lemma validState_good: "validState q t = Inr u \<Longrightarrow> u \<noteq> [] \<Longrightarrow> u \<in> set todoStates"
  by (auto simp: validState_def knownTodoState_def Let_def split: if_splits)

lemma moves_guard:
  assumes "\<And>a. g = Inr a \<Longrightarrow> store_moves s (fst (snd (k a)))"
  shows "store_moves s (fst (snd (case g of Inl msg \<Rightarrow> refuse msg s w | Inr a \<Rightarrow> k a)))"
  using assms by (cases g) auto

lemma moves_if:
  "(b \<Longrightarrow> store_moves s (fst (snd r))) \<Longrightarrow> (\<not> b \<Longrightarrow> store_moves s (fst (snd t)))
    \<Longrightarrow> store_moves s (fst (snd (if b then r else t)))"
  by simp

lemma moves_add: "length (ts_items s) < todoMaxItems \<Longrightarrow> td_id t = ts_next s \<Longrightarrow> good_task t \<Longrightarrow>
    store_moves s (s\<lparr>ts_items := ts_items s @ [t], ts_next := wrap64 (ts_next s + 1)\<rparr>)"
  unfolding store_moves_def by blast

lemma moves_set: "k < length (ts_items s) \<Longrightarrow> td_id t = td_id (ts_items s ! k) \<Longrightarrow>
    (good_task (ts_items s ! k) \<Longrightarrow> good_task t) \<Longrightarrow> store_moves s (s\<lparr>ts_items := (ts_items s)[k := t]\<rparr>)"
  unfolding store_moves_def by blast

lemma moves_drop: "store_moves s (s\<lparr>ts_items := take k (ts_items s) @ drop (Suc k) (ts_items s)\<rparr>)"
  unfolding store_moves_def by blast

lemma good_new_task:
  "validTitle t = Inr u \<Longrightarrow> u \<noteq> [] \<Longrightarrow> validState q st = Inr v
    \<Longrightarrow> good_task \<lparr>td_id = i, td_title = u, td_state = todoDefaultState v\<rparr>"
  using validTitle_good validState_good [of q st v]
  by (auto simp: good_task_def todoDefaultState_def todoStates_def)

lemma doAdd_moves: "store_moves s (fst (snd (doAdd cfg args s w)))"
  unfolding doAdd_def
  by (intro moves_guard moves_if moves_refuse, unfold store_writeList, intro moves_add)
    (simp_all add: not_le good_new_task)

lemma doEdit_moves: "store_moves s (fst (snd (doEdit cfg args s w)))"
  unfolding doEdit_def Let_def
  by (intro moves_guard moves_if moves_refuse, unfold store_writeList, intro moves_set resolve_bound)
    (auto simp: good_task_def dest: validTitle_good validState_good)

lemma doCancel_moves: "store_moves s (fst (snd (doCancel cfg args s w)))"
  unfolding doCancel_def by (intro moves_guard moves_refuse, unfold store_writeList, intro moves_drop)

lemma doComplete_moves: "store_moves s (fst (snd (doComplete cfg args s w)))"
  unfolding doComplete_def
  by (intro moves_guard moves_refuse, unfold store_writeList, intro moves_set resolve_bound)
    (auto simp: good_task_def todoStates_def)

lemma Execute_moves: "store_moves s (fst (snd (Execute cfg k args s w)))"
  by (cases k) (auto simp: Execute_def doAdd_moves doEdit_moves doCancel_moves doComplete_moves)

lemma moves_ids:
  assumes "store_moves s s'"
  shows "(subseq (todo_ids s') (todo_ids s) \<and> ts_next s' = ts_next s)
    \<or> (todo_ids s' = todo_ids s @ [ts_next s] \<and> ts_next s' = wrap64 (ts_next s + 1))"
  using assms unfolding store_moves_def
proof (elim disjE exE conjE)
  fix k t assume "k < length (ts_items s)" "td_id t = td_id (ts_items s ! k)" "s' = s\<lparr>ts_items := (ts_items s)[k := t]\<rparr>"
  then have "todo_ids s' = todo_ids s" "ts_next s' = ts_next s"
    by (simp_all add: map_update list_update_same_conv)
  then show ?thesis by simp
next
  fix k assume "s' = s\<lparr>ts_items := take k (ts_items s) @ drop (Suc k) (ts_items s)\<rparr>"
  then show ?thesis using subseq_drop_nth [of k "todo_ids s"] by (simp add: take_map drop_map)
qed simp_all

lemma moves_good:
  assumes "store_moves s s'" "\<forall>t\<in>set (ts_items s). good_task t"
  shows "\<forall>t\<in>set (ts_items s'). good_task t"
  using assms unfolding store_moves_def
  by (elim disjE exE conjE) (auto dest!: set_update_subset_insert [THEN subsetD] in_set_takeD in_set_dropD)

lemma moves_length:
  assumes "store_moves s s'"
  shows "length (ts_items s') \<le> max todoMaxItems (length (ts_items s))"
  using assms unfolding store_moves_def by (elim disjE exE conjE) auto

lemma todo_ok_iff: "todo_ok n s \<longleftrightarrow> distinct (todo_ids s) \<and> (\<forall>i\<in>set (todo_ids s). i < ts_next s)
    \<and> 1 \<le> ts_next s \<and> ts_next s + int n < 2 ^ 63"
  by (simp add: todo_ok_def)

lemma ok_ids: "todo_ok n s \<Longrightarrow> distinct (todo_ids s) \<and> (\<forall>i\<in>set (todo_ids s). i < ts_next s)"
  by (simp add: todo_ok_def)

lemma ok_step:
  assumes "todo_ok (Suc n) s" "store_moves s s'"
  shows "todo_ok n s'"
proof -
  have w: "wrap64 (ts_next s + 1) = ts_next s + 1" using assms(1) by (simp add: todo_ok_def wrap64_id)
  from moves_ids [OF assms(2)] consider
      "subseq (todo_ids s') (todo_ids s)" "ts_next s' = ts_next s"
    | "todo_ids s' = todo_ids s @ [ts_next s]" "ts_next s' = ts_next s + 1"
    by (auto simp: w)
  then show ?thesis
  proof cases
    case 1
    then have "distinct (todo_ids s')" "\<forall>i\<in>set (todo_ids s'). i < ts_next s"
      using ok_ids [OF assms(1)] subseq_elem [OF 1(1)] subseq_distinct [OF 1(1)] by blast+
    with 1 assms(1) show ?thesis by (simp add: todo_ok_def)
  next
    case 2
    then have "distinct (todo_ids s')" "\<forall>i\<in>set (todo_ids s'). i < ts_next s'"
      using ok_ids [OF assms(1)] by (auto simp del: set_map)
    with 2 assms(1) show ?thesis unfolding todo_ok_iff by (simp del: set_map)
  qed
qed

interpretation todo: minting "call_step cfg" "\<lambda>sw. todo_ids (fst sw)" "\<lambda>sw. ts_next (fst sw)" "\<lambda>n sw. todo_ok n (fst sw)"
  for cfg :: "'w TodoConfig"
proof
  fix n c and sw :: "todoStore \<times> 'w"
  have m: "store_moves (fst sw) (fst (call_step cfg c sw))" by (simp add: call_step_def Execute_moves)
  { assume "todo_ok (Suc n) (fst sw)"
    then show "(subseq (todo_ids (fst (call_step cfg c sw))) (todo_ids (fst sw))
          \<and> ts_next (fst (call_step cfg c sw)) = ts_next (fst sw))
        \<or> (todo_ids (fst (call_step cfg c sw)) = todo_ids (fst sw) @ [ts_next (fst sw)]
          \<and> ts_next (fst sw) < ts_next (fst (call_step cfg c sw)))"
      using moves_ids [OF m] by (auto simp: todo_ok_def wrap64_id)
    show "todo_ok n (fst (call_step cfg c sw))" by (rule ok_step [OF \<open>todo_ok (Suc n) (fst sw)\<close> m])
    show "todo_ok n (fst sw)" using \<open>todo_ok (Suc n) (fst sw)\<close> by (simp add: todo_ok_def)
  next
    assume "todo_ok n (fst sw)"
    then show "distinct (todo_ids (fst sw)) \<and> (\<forall>i\<in>set (todo_ids (fst sw)). i < ts_next (fst sw))"
      by (rule ok_ids)
  }
qed

lemma mint_next_bounds:
  assumes "\<forall>t\<in>set items. td_id t \<le> B" "B < 2 ^ 63 - 1" "1 \<le> n" "n \<le> B + 1"
  shows "let m = foldl (\<lambda>n t. if td_id t \<ge> n then wrap64 (td_id t + 1) else n) n items
    in n \<le> m \<and> m \<le> B + 1 \<and> (\<forall>t\<in>set items. td_id t < m)"
  using assms
proof (induction items arbitrary: n)
  case (Cons t items)
  define n' where "n' = (if td_id t \<ge> n then wrap64 (td_id t + 1) else n)"
  have "td_id t < n' \<and> n \<le> n' \<and> n' \<le> B + 1"
    using Cons.prems by (simp add: n'_def wrap64_id)
  then show ?case using Cons.IH [of n'] Cons.prems unfolding Let_def
    by (auto simp flip: n'_def)
qed simp

lemma new_store_ok:
  assumes "distinct (map td_id initial)" "\<forall>t\<in>set initial. td_id t \<le> B" "0 \<le> B" "B + 1 + int n < 2 ^ 63"
  shows "todo_ok n (new_store initial)"
  using mint_next_bounds [of initial B 1] assms
  by (auto simp: todo_ok_def new_store_def mint_next_def Let_def)

lemma calls_moved:
  "P (new_store initial) \<Longrightarrow> (\<And>s s'. store_moves s s' \<Longrightarrow> P s \<Longrightarrow> P s') \<Longrightarrow> P (fst (todo_calls cfg cs initial w))"
proof -
  assume step: "\<And>s s'. store_moves s s' \<Longrightarrow> P s \<Longrightarrow> P s'" and "P (new_store initial)"
  moreover have "P (fst sw) \<Longrightarrow> P (fst (fold (call_step cfg) cs sw))" for sw
  proof (induction cs arbitrary: sw)
    case (Cons c cs)
    then have "P (fst (call_step cfg c sw))" using step [OF Execute_moves] by (simp add: call_step_def)
    then show ?case using Cons.IH by simp
  qed simp
  ultimately show ?thesis by (simp add: todo_calls_def)
qed

text \<open>
  Whatever calls the model makes, in any order, with any arguments and however the host's writes
  go: no two tasks share an id, and an id whose task was removed is never given to another one, as long
  as fewer tasks are made than ids are left.
\<close>
theorem todo_ids_never_reused:
  assumes "distinct (map td_id initial)" "\<forall>t\<in>set initial. td_id t \<le> B" "0 \<le> B"
    "B + 1 + int (length (xs @ ys @ zs)) < 2 ^ 63"
  shows "distinct (map td_id (ts_items (fst (todo_calls cfg (xs @ ys @ zs) initial w))))
    \<and> (i \<in> td_id ` set (ts_items (fst (todo_calls cfg xs initial w))) \<longrightarrow>
       i \<notin> td_id ` set (ts_items (fst (todo_calls cfg (xs @ ys) initial w))) \<longrightarrow>
       i \<notin> td_id ` set (ts_items (fst (todo_calls cfg (xs @ ys @ zs) initial w))))"
proof (intro conjI impI)
  have ok: "todo_ok (length (xs @ ys @ zs)) (fst (new_store initial, w))"
    using new_store_ok [OF assms(1-3)] assms(4) by simp
  have "todo_ok 0 (fst (todo_calls cfg (xs @ ys @ zs) initial w))"
    using todo.room_fold [of 0 "xs @ ys @ zs" "(new_store initial, w)" cfg] ok by (simp add: todo_calls_def)
  then show "distinct (map td_id (ts_items (fst (todo_calls cfg (xs @ ys @ zs) initial w))))"
    using ok_ids by blast
  show "i \<notin> td_id ` set (ts_items (fst (todo_calls cfg (xs @ ys @ zs) initial w)))"
    if "i \<in> td_id ` set (ts_items (fst (todo_calls cfg xs initial w)))"
       "i \<notin> td_id ` set (ts_items (fst (todo_calls cfg (xs @ ys) initial w)))"
    using todo.never_reused [OF ok, of i cfg] that unfolding todo_calls_def set_map by blast
qed

text \<open>
  C24. Every task the list ever holds is well formed when the ones it started with are: it has a title,
  of at most 200 characters, and one of the three states. The list never grows past 100 tasks by a
  call.
\<close>
theorem todo_tasks_well_formed:
  assumes "\<forall>t\<in>set initial. td_title t \<noteq> [] \<and> rune_count (td_title t) \<le> 200
      \<and> td_state t \<in> {''pending'', ''in_progress'', ''done''}"
  shows "length (ts_items (fst (todo_calls cfg cs initial w))) \<le> max 100 (length initial)
    \<and> (\<forall>t\<in>set (ts_items (fst (todo_calls cfg cs initial w))).
         td_title t \<noteq> [] \<and> rune_count (td_title t) \<le> 200 \<and> td_state t \<in> {''pending'', ''in_progress'', ''done''})"
proof -
  have good: "good_task t \<longleftrightarrow> td_title t \<noteq> [] \<and> rune_count (td_title t) \<le> 200
      \<and> td_state t \<in> {''pending'', ''in_progress'', ''done''}" for t
    by (simp add: good_task_def todoMaxTitleRunes_def todoStates_def TodoPending_def TodoInProgress_def TodoDone_def)
  have "length (ts_items (fst (todo_calls cfg cs initial w))) \<le> max 100 (length initial)"
    by (rule calls_moved) (auto simp: new_store_def todoMaxItems_def dest!: moves_length)
  moreover have "\<forall>t\<in>set (ts_items (fst (todo_calls cfg cs initial w))). good_task t"
  proof (rule calls_moved)
    show "\<forall>t\<in>set (ts_items (new_store initial)). good_task t"
      using assms unfolding good new_store_def by simp
  qed (rule moves_good)
  ultimately show ?thesis by (simp only: good)
qed

section \<open>An example\<close>

definition desk_cfg :: "(Todo list list) TodoConfig" where
  "desk_cfg =
     \<lparr>cfg_write = Some (\<lambda>l w. (if length w = 2 then Some (ErrorNew ''disk full'') else None, w @ [l])),
      cfg_dec = \<lparr>dec_add = (\<lambda>a. Inr \<lparr>aa_title = a, aa_state = []\<rparr>),
                 dec_edit = (\<lambda>a. Inr \<lparr>ea_id = 1, ea_title = a, ea_state = ''in_progress''\<rparr>),
                 dec_cancel = (\<lambda>a. if a = ''1'' then Inr 1 else Inl ''bad number''), dec_complete = (\<lambda>_. Inr 2)\<rparr>,
      cfg_quote = (\<lambda>s. s), cfg_schema = (\<lambda>_. [])\<rparr>"

definition desk_store :: todoStore where
  "desk_store = new_store [\<lparr>td_id = 1, td_title = ''read'', td_state = ''pending''\<rparr>]"

theorem todo_refines_plan_witness:
  "\<exists>s'. plan_of s' = \<lparr>pl_tasks = [1 \<mapsto> (''write'', ''in_progress'')], pl_next = 2\<rparr>
     \<and> Execute desk_cfg KindEdit ''write'' desk_store [] =
       (\<lparr>tr_content = RenderTodos (ts_items s'), tr_parts = [todoListPart (ts_items s')], tr_is_error = False\<rparr>,
        s', [ts_items s'])"
proof -
  have ok: "todo_ok 1 desk_store" "cfg_write desk_cfg = Some (\<lambda>l w. (if length w = 2 then Some (ErrorNew ''disk full'') else None, w @ [l]))"
    by (simp_all add: todo_ok_def desk_store_def new_store_def mint_next_def wrap64_def desk_cfg_def)
  have "unmarshalArgs TodoEditToolName (dec_edit (cfg_dec desk_cfg)) ''write'' = Inr \<lparr>ea_id = 1, ea_title = ''write'', ea_state = ''in_progress''\<rparr>"
    by (simp add: unmarshalArgs_def desk_cfg_def)
  moreover have "validTitle ''write'' = Inr ''write''" by code_simp
  moreover have "validState q ''in_progress'' = Inr ''in_progress''" for q
  proof -
    have "trim_space ''in_progress'' = ''in_progress''" "knownTodoState ''in_progress''" by code_simp+
    then show ?thesis unfolding validState_def by simp
  qed
  moreover have "plan_of desk_store = \<lparr>pl_tasks = [1 \<mapsto> (''read'', ''pending'')], pl_next = 2\<rparr>"
    by (simp add: plan_of_def desk_store_def new_store_def mint_next_def wrap64_def)
  ultimately have "plan_call desk_cfg KindEdit ''write'' (plan_of desk_store) =
      Inr \<lparr>pl_tasks = [1 \<mapsto> (''write'', ''in_progress'')], pl_next = 2\<rparr>"
    by (simp add: plan_find_def)
  then show ?thesis
    using todo_refines_plan [OF ok, of KindEdit "''write''" "[]"] by auto
qed

theorem todo_ids_never_reused_witness:
  "1 \<notin> td_id ` set (ts_items (fst (todo_calls desk_cfg
      ([] @ [(KindCancel, ''1'')] @ [(KindAdd, ''next''), (KindAdd, ''last'')])
      [\<lparr>td_id = 1, td_title = ''read'', td_state = ''pending''\<rparr>] [])))"
proof -
  let ?run = "\<lambda>cs. td_id ` set (ts_items (fst (todo_calls desk_cfg cs
      [\<lparr>td_id = 1, td_title = ''read'', td_state = ''pending''\<rparr>] [])))"
  have "1 \<in> ?run []" "1 \<notin> ?run ([] @ [(KindCancel, ''1'')])" by code_simp+
  then show ?thesis
    using todo_ids_never_reused [of "[\<lparr>td_id = 1, td_title = ''read'', td_state = ''pending''\<rparr>]" 1 "[]" "[(KindCancel, ''1'')]"
        "[(KindAdd, ''next''), (KindAdd, ''last'')]" desk_cfg "[]" 1]
    by (simp del: append.simps)
qed

theorem todo_tasks_well_formed_witness:
  "length (ts_items (fst (todo_calls desk_cfg [(KindAdd, ''next'')]
      [\<lparr>td_id = 1, td_title = ''read'', td_state = ''pending''\<rparr>] []))) \<le> max 100 (Suc 0)"
proof -
  have "rune_count ''read'' = 4" by code_simp
  then show ?thesis
    using todo_tasks_well_formed [of "[\<lparr>td_id = 1, td_title = ''read'', td_state = ''pending''\<rparr>]" desk_cfg "[(KindAdd, ''next'')]" "[]"]
    by simp
qed

text \<open>A change whose write failed is still in the store: the model is told it was not saved.\<close>

lemma failed_write_keeps_change:
  "(case Execute desk_cfg KindAdd ''pack'' desk_store [[], []] of (r, s, w) \<Rightarrow>
      (tr_is_error r, map td_title (ts_items s))) = (True, [''read'', ''pack''])"
  by code_simp

end
