(* ===== verification/GoalMode.thy ===== *)
theory GoalMode
  imports Messages Utf8
begin

text \<open>
  The words of goal mode (\<open>goal/goal.go\<close>) and the transcript its evaluator reads (the first half of
  \<open>goal/eval.go\<close>): the \<open>/goal\<close> command, the notices and the directive, elapsed times, the window of
  entries within a token budget, and the verdict read out of a model's reply. Times are nanoseconds;
  \<open>json.Unmarshal\<close> of a verdict is a parameter.
\<close>

section \<open>Commands and notices\<close>

record GoalState =
  gs_condition :: string
  gs_iterations :: int
  gs_lastReason :: string
  gs_reasonRun :: int
  gs_suspended :: bool
  gs_suspendWhy :: string

datatype goal_command = ShowGoal | SetGoal string | ClearGoal

definition MaxCondition :: nat where "MaxCondition = 4000"

definition goal_parse :: "string \<Rightarrow> string + goal_command" where
  "goal_parse arg =
     (let condition = trim_space arg; n = rune_count condition
      in if condition = [] then Inr ShowGoal
         else if condition = ''clear'' then Inr ClearGoal
         else if n > MaxCondition then
           Inl (''goal condition is limited to '' @ itoa (int MaxCondition) @ '' characters (got '' @ itoa (int n) @ '')'')
         else Inr (SetGoal condition))"

definition quote :: "string \<Rightarrow> string" where
  "quote s = [CHR 0x22] @ s @ [CHR 0x22]"

definition middot :: "string" where
  "middot = '' '' @ [CHR 0xC2, CHR 0xB7] @ '' ''"

definition NoBound :: "string" where
  "NoBound =
     ''No spend or time bound: it runs until the condition holds, or until you clear it.''"

definition SetNotice :: "string \<Rightarrow> string \<Rightarrow> string" where
  "SetNotice condition bound =
     ''goal set: '' @ quote condition @ [NL] @
     ''The turn will not end until this holds. /goal clear to stop, /goal to amend.'' @ [NL] @
     (if bound = [] then NoBound else bound)"

definition Briefing :: "string \<Rightarrow> string" where
  "Briefing condition =
     ''A goal condition is now active for this session: '' @
     condition @
     [NL, NL] @
     ''Treat the condition itself as your instruction. Start (or continue) working toward'' @
     [NL] @ ''it now '' @ [CHR 0xE2, CHR 0x80, CHR 0x94] @
     '' do not pause to ask the user what to do. When you try to end your turn the'' @ [NL] @
     ''condition is checked; if it does not hold you will be told why and asked to keep'' @ [NL] @
     ''going. It clears itself the moment it holds.''"

definition Directive :: "string \<Rightarrow> string \<Rightarrow> string" where
  "Directive condition reason =
     ''[goal not met] '' @
     reason @
     [NL, NL] @ ''The goal condition is still: '' @
     condition @
     [NL, NL] @ ''Keep working toward it. Do not stop to ask whether to continue '' @
     [CHR 0xE2, CHR 0x80, CHR 0x94] @ '' the condition'' @ [NL] @
     ''itself is the instruction. If you now believe the condition cannot be satisfied,'' @ [NL] @
     ''say exactly what you tried and why it cannot be done, and stop; do not stop silently.'' @
     [NL, NL] @
     ''If the user has since told you something that conflicts with this condition, do not'' @
     [NL] @
     ''try to satisfy both and do not guess which one they meant. Say which message conflicts'' @
     [NL] @ ''with which part of the condition, and stop.''"

text \<open>\<open>d.Round(time.Second)\<close>: half a second away from zero, the largest duration where that overflows.\<close>

abbreviation second :: int where "second \<equiv> 1000000000"

definition round_second :: "int \<Rightarrow> int" where
  "round_second d =
     (let r = d mod second
      in if r + r < second then d - r
         else if d + second - r < 2 ^ 63 then d + second - r else 2 ^ 63 - 1)"

definition goal_elapsed :: "int \<Rightarrow> string" where
  "goal_elapsed d0 =
     (let d = round_second (if d0 < 0 then 0 else d0);
          h = d div (3600 * second);
          m = d div (60 * second) mod 60;
          s = d div second mod 60
      in if h > 0 \<and> m > 0 then itoa h @ ''h'' @ itoa m @ ''m''
         else if h > 0 then itoa h @ ''h''
         else if m > 0 \<and> s > 0 then itoa m @ ''m'' @ itoa s @ ''s''
         else if m > 0 then itoa m @ ''m''
         else itoa s @ ''s'')"

definition with_spend :: "string \<Rightarrow> string \<Rightarrow> string" where
  "with_spend out spend = (if spend \<noteq> [] then out @ middot @ spend else out)"

definition BlockNotice :: "int \<Rightarrow> string \<Rightarrow> string \<Rightarrow> int \<Rightarrow> string" where
  "BlockNotice iterations reason spend elapsed =
     with_spend (''goal '' @ itoa iterations @ middot @ ''not met: '' @ reason) spend @ middot @ goal_elapsed elapsed"

definition MetNotice :: "GoalState \<Rightarrow> string \<Rightarrow> string \<Rightarrow> int \<Rightarrow> string" where
  "MetNotice s reason spend elapsed =
     with_spend (''goal met after '' @ itoa (gs_iterations s) @ '' iterations'') spend @ middot @ goal_elapsed elapsed @ [NL] @
     ''  '' @ quote (gs_condition s) @ [NL] @
     ''  '' @ [CHR 0xE2, CHR 0x86, CHR 0x92] @ '' '' @ reason"

definition FailedNotice :: "GoalState \<Rightarrow> string \<Rightarrow> string \<Rightarrow> int \<Rightarrow> string" where
  "FailedNotice s reason spend elapsed =
     with_spend (''goal failed after '' @ itoa (gs_iterations s) @ '' iterations'') spend @ middot @ goal_elapsed elapsed @ [NL] @
     ''  '' @ reason"

definition ClearedNotice :: "GoalState \<Rightarrow> string \<Rightarrow> int \<Rightarrow> string" where
  "ClearedNotice s spend elapsed =
     with_spend (''goal cleared after '' @ itoa (gs_iterations s) @ '' iterations'') spend @ middot @ goal_elapsed elapsed"

definition ShowNotice :: "GoalState option \<Rightarrow> string \<Rightarrow> int \<Rightarrow> string" where
  "ShowNotice st spend elapsed =
     (case st of
        None \<Rightarrow> ''no goal is set '' @ [CHR 0xE2, CHR 0x80, CHR 0x94] @
     '' try: /goal all tests pass and go vet is clean''
      | Some s \<Rightarrow>
          with_spend (''goal: '' @ quote (gs_condition s) @ [NL] @ ''  '' @ itoa (gs_iterations s) @ '' iterations'') spend @
          middot @ goal_elapsed elapsed @
          (if gs_suspended s then [NL] @ ''  suspended: '' @ gs_suspendWhy s else []) @
          [NL] @ ''  /goal <condition> to replace it, /goal clear to remove it.'')"

definition SuspendNotice :: "string \<Rightarrow> string" where
  "SuspendNotice why = ''goal suspended: '' @ why"

section \<open>The window\<close>

datatype EntryKind = EntryUser | EntryAssistant | EntryToolCall | EntryToolResult | EntrySubagent | EntryError

record Entry =
  en_kind :: EntryKind
  en_text :: string

definition message_entries :: "Message \<Rightarrow> Entry list" where
  "message_entries m =
     (case msg_role m of
        RoleUser \<Rightarrow> [\<lparr>en_kind = EntryUser, en_text = msg_content m\<rparr>]
      | RoleTool \<Rightarrow> [\<lparr>en_kind = if msg_is_error m then EntryError else EntryToolResult, en_text = msg_content m\<rparr>]
      | RoleAssistant \<Rightarrow>
          (if trim_space (msg_content m) \<noteq> [] then [\<lparr>en_kind = EntryAssistant, en_text = msg_content m\<rparr>] else []) @
          map (\<lambda>c. \<lparr>en_kind = EntryToolCall, en_text = tc_name c @ '' '' @ tc_args c\<rparr>) (msg_calls m)
      | _ \<Rightarrow> [])"

definition EntriesFromMessages :: "Message list \<Rightarrow> Entry list" where
  "EntriesFromMessages msgs = concat (map message_entries msgs)"

definition evalToolResultCap :: nat where "evalToolResultCap = 2000"
definition evalHead :: nat where "evalHead = 1200"
definition evalTail :: nat where "evalTail = 800"
definition EvalTokens :: int where "EvalTokens = 40000"

definition truncateMiddle :: "string \<Rightarrow> string" where
  "truncateMiddle s =
     (let r = runes s
      in if length r \<le> evalToolResultCap then s
         else encode_runes (take evalHead r) @
              [NL, CHR 0xE2, CHR 0x80, CHR 0xA6] @ ''['' @ itoa (int (length r - evalHead - evalTail)) @ '' runes elided]'' @ [CHR 0xE2, CHR 0x80, CHR 0xA6, NL] @
              encode_runes (drop (length r - evalTail) r))"

definition renderEntry :: "Entry \<Rightarrow> string option" where
  "renderEntry e =
     (if trim_space (en_text e) = [] then None
      else Some (case en_kind e of
          EntryUser \<Rightarrow> ''user: '' @ en_text e
        | EntryAssistant \<Rightarrow> ''assistant: '' @ en_text e
        | EntryToolCall \<Rightarrow> ''tool call: '' @ en_text e
        | EntryToolResult \<Rightarrow> ''tool result: '' @ truncateMiddle (en_text e)
        | EntrySubagent \<Rightarrow> ''subagent: '' @ truncateMiddle (en_text e)
        | EntryError \<Rightarrow> ''error: '' @ en_text e))"

definition estimateTokens :: "string \<Rightarrow> int" where
  "estimateTokens s = int (length s) div 4 + 1"

definition OmittedMarker :: string where
  "OmittedMarker = ''[earlier turns omitted]''"

text \<open>The loop over the rendered lines, newest first.\<close>

fun keep_newest :: "int \<Rightarrow> nat \<Rightarrow> string list \<Rightarrow> nat" where
  "keep_newest budget keep [] = keep"
| "keep_newest budget keep (l # ls) =
     (let budget = budget - estimateTokens l
      in if budget < 0 \<and> keep > 0 then keep else keep_newest budget (Suc keep) ls)"

definition RenderWindow :: "Entry list \<Rightarrow> int \<Rightarrow> string" where
  "RenderWindow entries maxTokens =
     (let rendered = List.map_filter renderEntry entries
      in if rendered = [] then ''(no transcript yet: no work has been recorded since the goal was set)''
         else let keep = keep_newest maxTokens 0 (rev rendered);
                  body = join_with [NL, NL] (drop (length rendered - keep) rendered)
              in if keep < length rendered then OmittedMarker @ [NL] @ body else body)"

section \<open>The verdict\<close>

definition EvalSystem :: string where
  "EvalSystem =
     ''You are evaluating a stopping condition for a coding agent.'' @ [NL, NL] @
     ''Below is a transcript of what the agent did. Judge, from the transcript alone,'' @ [NL] @
     ''whether the user'' @ [CHR 0x27] @
     ''s condition is satisfied. Do not assume work happened that the'' @ [NL] @
     ''transcript does not show. The agent'' @ [CHR 0x27] @
     ''s own claim that something is done is evidence,'' @ [NL] @ ''not proof '' @
     [CHR 0xE2, CHR 0x80, CHR 0x94] @ '' look for the tool result that demonstrates it.'' @
     [NL, NL] @ ''Reply with a single JSON object and nothing else:'' @ [NL, NL] @ ''  {'' @
     [CHR 0x22] @ ''met'' @ [CHR 0x22] @ '': true,  '' @ [CHR 0x22] @ ''impossible'' @ [CHR 0x22] @
     '': false, '' @ [CHR 0x22] @ ''reason'' @ [CHR 0x22] @ '': '' @ [CHR 0x22] @
     ''<quote the transcript evidence>'' @ [CHR 0x22] @ ''}'' @ [NL] @ ''  {'' @ [CHR 0x22] @
     ''met'' @ [CHR 0x22] @ '': false, '' @ [CHR 0x22] @ ''impossible'' @ [CHR 0x22] @
     '': false, '' @ [CHR 0x22] @ ''reason'' @ [CHR 0x22] @ '': '' @ [CHR 0x22] @
     ''<name exactly what is missing>'' @ [CHR 0x22] @ ''}'' @ [NL] @ ''  {'' @ [CHR 0x22] @
     ''met'' @ [CHR 0x22] @ '': false, '' @ [CHR 0x22] @ ''impossible'' @ [CHR 0x22] @
     '': true,  '' @ [CHR 0x22] @ ''reason'' @ [CHR 0x22] @ '': '' @ [CHR 0x22] @
     ''<why this can never be satisfied>'' @ [CHR 0x22] @ ''}'' @ [NL, NL, CHR 0x22] @ ''reason'' @
     [CHR 0x22] @
     '' is always required and is shown to the user verbatim, so write it for them:'' @ [NL] @
     ''one or two sentences, concrete, naming files and symbols where you can.'' @ [NL, NL] @
     ''Set '' @ [CHR 0x22] @ ''impossible'' @ [CHR 0x22] @
     '' only when the condition genuinely cannot be satisfied in this'' @ [NL] @ ''session '' @
     [CHR 0xE2, CHR 0x80, CHR 0x94] @
     '' it contradicts itself, it needs a resource that does not exist, or the'' @ [NL] @
     ''agent has tried every reasonable approach and demonstrated that it cannot be done.'' @
     [NL] @
     ''Slow progress is not impossible. No progress yet is not impossible. When in doubt,'' @
     [NL] @ ''set '' @ [CHR 0x22] @ ''met'' @ [CHR 0x22] @ '': false and leave '' @ [CHR 0x22] @
     ''impossible'' @ [CHR 0x22] @ '': false.''"

definition EvalUser :: "string \<Rightarrow> string \<Rightarrow> string" where
  "EvalUser condition window = ''Condition: '' @ condition @ [NL, NL] @ ''Transcript:'' @ [NL] @ window"

record Verdict =
  vd_met :: bool
  vd_impossible :: bool
  vd_reason :: string

definition index_byte :: "char \<Rightarrow> string \<Rightarrow> nat option" where
  "index_byte c s = (let n = length (takeWhile (\<lambda>x. x \<noteq> c) s) in if n < length s then Some n else None)"

fun last_index :: "string \<Rightarrow> string \<Rightarrow> nat option" where
  "last_index p [] = (if p = [] then Some 0 else None)"
| "last_index p (c # s) =
     (case last_index p s of
        Some k \<Rightarrow> Some (Suc k)
      | None \<Rightarrow> if has_prefix p (c # s) then Some 0 else None)"

definition fence :: string where
  "fence = [CHR 0x60, CHR 0x60, CHR 0x60]"

definition unfence :: "string \<Rightarrow> string" where
  "unfence s =
     (let t = trim_space s
      in if \<not> has_prefix fence t then t
         else let t = (case index_byte NL t of Some i \<Rightarrow> drop (Suc i) t | None \<Rightarrow> t)
              in case last_index fence t of Some i \<Rightarrow> take i t | None \<Rightarrow> t)"

type_synonym verdict_decoder = "string \<Rightarrow> go_error + Verdict"

definition ParseVerdict :: "verdict_decoder \<Rightarrow> string \<Rightarrow> go_error + Verdict" where
  "ParseVerdict dec s =
     (let body = trim_space (unfence s)
      in if body = [] then Inl (ErrorNew ''goal: the evaluator returned nothing'')
         else (case dec body of
                 Inl err \<Rightarrow> Inl (Wrapped (''goal: the evaluator'' @ [CHR 0x27] @ ''s reply is not a JSON object: '') err)
               | Inr v \<Rightarrow>
                   if trim_space (vd_reason v) = []
                   then Inl (ErrorNew (''goal: the evaluator'' @ [CHR 0x27] @ ''s verdict carries no reason''))
                   else Inr v))"

section \<open>What a window keeps\<close>

lemma keep_newest_keeps:
  "keep_newest b k ls = k + length (take (keep_newest b k ls - k) ls) \<and> k \<le> keep_newest b k ls"
proof (induction b k ls rule: keep_newest.induct)
  case (2 b k l ls)
  then show ?case by (auto simp: Let_def)
qed simp

lemma keep_newest_bound: "keep_newest b k ls \<le> k + length ls"
  by (induction b k ls rule: keep_newest.induct) (auto simp: Let_def)

abbreviation total_tokens :: "string list \<Rightarrow> int" where
  "total_tokens ls \<equiv> sum_list (map estimateTokens ls)"

lemma keep_newest_fits:
  "keep_newest b k ls = k + j \<Longrightarrow> 0 < k \<Longrightarrow>
    (j = 0 \<or> total_tokens (take j ls) \<le> b) \<and> (j < length ls \<longrightarrow> total_tokens (take (Suc j) ls) > b)"
proof (induction b k ls arbitrary: j rule: keep_newest.induct)
  case (1 b k)
  then show ?case by simp
next
  case (2 b k l ls)
  let ?b = "b - estimateTokens l"
  show ?case
  proof (cases "?b < 0")
    case True
    with 2 show ?thesis by (simp add: Let_def)
  next
    case False
    then have eq: "keep_newest ?b (Suc k) ls = k + j" using 2 by (simp add: Let_def)
    then obtain i where j: "j = Suc i"
      using keep_newest_keeps [of ?b "Suc k" ls] by (metis Suc_le_lessD add_le_cancel_left less_imp_Suc_add add_Suc_right not_less_eq_eq le_add1 le_antisym nat_less_le not0_implies_Suc add.right_neutral)
    then show ?thesis using 2(1) [OF refl, of i] False eq 2(3) by (auto simp: Let_def)
  qed
qed

lemma total_tokens_newest: "k \<le> length ls \<Longrightarrow> total_tokens (drop (length ls - k) ls) = total_tokens (take k (rev ls))"
  by (simp only: take_rev rev_map [symmetric] sum_list_rev)

lemma keep_newest_window:
  assumes "ls \<noteq> []"
  obtains k where "keep_newest b 0 (rev ls) = k" "1 \<le> k" "k \<le> length ls"
    "k = 1 \<or> total_tokens (drop (length ls - k) ls) \<le> b"
    "k < length ls \<Longrightarrow> b < total_tokens (drop (length ls - Suc k) ls)"
proof -
  obtain l rs where r: "rev ls = l # rs" using assms by (metis list.exhaust rev_is_Nil_conv)
  then have len: "length ls = Suc (length rs)" by (metis length_Cons length_rev)
  let ?b = "b - estimateTokens l"
  have eq: "keep_newest b 0 (rev ls) = keep_newest ?b 1 rs" by (simp add: r Let_def)
  obtain j where j: "keep_newest ?b 1 rs = 1 + j"
    using keep_newest_keeps [of ?b 1 rs] by (metis le_add_diff_inverse)
  then have "j \<le> length rs" using keep_newest_bound [of ?b 1 rs] by simp
  moreover have "j = 0 \<or> total_tokens (take j rs) \<le> ?b" "j < length rs \<longrightarrow> ?b < total_tokens (take (Suc j) rs)"
    using keep_newest_fits [OF j] by simp_all
  ultimately have j': "j \<le> length rs" "j = 0 \<or> total_tokens (take j rs) \<le> ?b"
    "j < length rs \<Longrightarrow> ?b < total_tokens (take (Suc j) rs)" by simp_all
  show thesis
  proof (rule that [of "Suc j"])
    show "keep_newest b 0 (rev ls) = Suc j" using j by (simp add: eq)
    show "Suc j = 1 \<or> total_tokens (drop (length ls - Suc j) ls) \<le> b"
      using total_tokens_newest [of "Suc j" ls] j' by (auto simp: r len)
    show "b < total_tokens (drop (length ls - Suc (Suc j)) ls)" if "Suc j < length ls"
      using total_tokens_newest [of "Suc (Suc j)" ls] j' that by (auto simp: r len)
  qed (use j' len in simp_all)
qed

text \<open>
  The evaluator's window is the newest part of what has been recorded, entry by entry and in order:
  always the newest entry, then as many older ones as the token budget holds, and a marker at its head
  exactly when something was left out.
\<close>
theorem render_window_newest:
  assumes "lines = List.map_filter renderEntry entries" "lines \<noteq> []"
  shows "\<exists>k. 1 \<le> k \<and> k \<le> length lines \<and>
    RenderWindow entries maxTokens =
      (if k < length lines then OmittedMarker @ [NL] else []) @ join_with [NL, NL] (drop (length lines - k) lines) \<and>
    (k = 1 \<or> (\<Sum>l\<leftarrow>drop (length lines - k) lines. estimateTokens l) \<le> maxTokens) \<and>
    (k < length lines \<longrightarrow> maxTokens < (\<Sum>l\<leftarrow>drop (length lines - Suc k) lines. estimateTokens l))"
proof -
  obtain k where k: "keep_newest maxTokens 0 (rev lines) = k" "1 \<le> k" "k \<le> length lines"
    "k = 1 \<or> total_tokens (drop (length lines - k) lines) \<le> maxTokens"
    "k < length lines \<Longrightarrow> maxTokens < total_tokens (drop (length lines - Suc k) lines)"
    using keep_newest_window [OF assms(2)] by metis
  then have "RenderWindow entries maxTokens =
      (if k < length lines then OmittedMarker @ [NL] else []) @ join_with [NL, NL] (drop (length lines - k) lines)"
    using assms by (simp add: RenderWindow_def Let_def)
  with k show ?thesis by blast
qed

theorem render_window_newest_witness:
  "\<exists>k. 1 \<le> k \<and> k \<le> 2 \<and>
    RenderWindow [\<lparr>en_kind = EntryUser, en_text = ''fix it''\<rparr>, \<lparr>en_kind = EntryToolCall, en_text = ''make''\<rparr>] 4 =
      (if k < 2 then OmittedMarker @ [NL] else [])
        @ join_with [NL, NL] (drop (2 - k) [''user: fix it'', ''tool call: make''])"
proof -
  have "[''user: fix it'', ''tool call: make''] = List.map_filter renderEntry
      [\<lparr>en_kind = EntryUser, en_text = ''fix it''\<rparr>, \<lparr>en_kind = EntryToolCall, en_text = ''make''\<rparr>]"
    by code_simp
  from render_window_newest [OF this, of 4]
  have "\<exists>k. 1 \<le> k \<and> k \<le> length [''user: fix it'', ''tool call: make''] \<and>
    RenderWindow [\<lparr>en_kind = EntryUser, en_text = ''fix it''\<rparr>, \<lparr>en_kind = EntryToolCall, en_text = ''make''\<rparr>] 4 =
      (if k < length [''user: fix it'', ''tool call: make''] then OmittedMarker @ [NL] else [])
        @ join_with [NL, NL] (drop (length [''user: fix it'', ''tool call: make''] - k) [''user: fix it'', ''tool call: make''])"
    by blast
  moreover have "length [''user: fix it'', ''tool call: make''] = 2" by simp
  ultimately show ?thesis by (simp only:)
qed

end
