(* ===== verification/GoalEval.thy ===== *)
theory GoalEval
  imports GoalMode MessageQueue
begin

text \<open>
  The evaluator of goal mode and its place in a run (\<open>goal/eval.go\<close> from \<open>Outcome\<close> on, \<open>goal/loop.go\<close>):
  whether a run may stop, what a blocked stop tells the model, and the failures that let it stop. The
  goal's state is passed explicitly; the window, the judge, the context's error and the host's report
  are functions of a world. A judge that returns neither a completion nor an error makes the code
  dereference a nil pointer: that outcome is \<open>None\<close>.
\<close>

section \<open>The evaluator\<close>

datatype Outcome = Permitted | Blocked | Met | Failed | Suspended

fun outcome_name :: "Outcome \<Rightarrow> string" where
  "outcome_name Permitted = ''permitted''"
| "outcome_name Blocked = ''blocked''"
| "outcome_name Met = ''met''"
| "outcome_name Failed = ''failed''"
| "outcome_name Suspended = ''suspended''"

definition repetitionLimit :: int where "repetitionLimit = 3"

record Verdicts =
  ve_outcome :: Outcome
  ve_reason :: string
  ve_directive :: string
  ve_completion :: "Completion option"

record 'w Evaluator =
  ge_ctxErr :: "'w \<Rightarrow> go_error option"
  ge_window :: "('w \<Rightarrow> (go_error + Entry list) \<times> 'w) option"
  ge_judge :: "(string \<Rightarrow> string \<Rightarrow> 'w \<Rightarrow> (Completion option \<times> go_error option) \<times> 'w) option"
  ge_decode :: verdict_decoder

abbreviation verdicts :: "Outcome \<Rightarrow> string \<Rightarrow> Completion option \<Rightarrow> Verdicts" where
  "verdicts out reason spent \<equiv> \<lparr>ve_outcome = out, ve_reason = reason, ve_directive = [], ve_completion = spent\<rparr>"

definition suspend :: "string \<Rightarrow> GoalState \<Rightarrow> Verdicts \<times> GoalState" where
  "suspend why st = (verdicts Suspended why None, st\<lparr>gs_suspended := True, gs_suspendWhy := why\<rparr>)"

definition err_v :: "go_error option \<Rightarrow> string" where
  "err_v e = (case e of None \<Rightarrow> ''<nil>'' | Some e \<Rightarrow> error_text e)"

definition ask_error :: "go_error option \<Rightarrow> go_error option \<Rightarrow> go_error" where
  "ask_error callErr parseErr =
     (if parseErr \<noteq> None \<and> callErr \<noteq> None then
        ErrorNew (''evaluator call failed ('' @ err_v callErr @ '') and its other answer was unparseable ('' @
          err_v parseErr @ '') '' @ [CHR 0xE2, CHR 0x80, CHR 0x94] @ '' /goal to retry'')
      else if parseErr \<noteq> None then ErrorNew ''evaluator returned unparseable output twice''
      else ErrorNew (''evaluator call failed ('' @ err_v callErr @ '') '' @ [CHR 0xE2, CHR 0x80, CHR 0x94] @ '' /goal to retry''))"

text \<open>The attempts that are left, with the last completion and the errors so far.\<close>

type_synonym asked = "(go_error + Verdict) \<times> Completion option"

primrec ask_loop :: "'w Evaluator \<Rightarrow> (string \<Rightarrow> string \<Rightarrow> 'w \<Rightarrow> (Completion option \<times> go_error option) \<times> 'w)
    \<Rightarrow> string \<Rightarrow> nat \<Rightarrow> Completion option \<Rightarrow> go_error option \<Rightarrow> go_error option \<Rightarrow> 'w \<Rightarrow> (asked \<times> 'w) option" where
  "ask_loop ev judge user 0 latest callErr parseErr w = Some ((Inl (ask_error callErr parseErr), latest), w)"
| "ask_loop ev judge user (Suc n) latest callErr parseErr w =
     (case judge EvalSystem user w of
        ((spent, err), w) \<Rightarrow>
          let latest = (case spent of None \<Rightarrow> latest | Some c \<Rightarrow> Some c)
          in case err of
               Some e \<Rightarrow>
                 if ge_ctxErr ev w \<noteq> None then Some ((Inl e, latest), w)
                 else ask_loop ev judge user n latest (Some e) parseErr w
             | None \<Rightarrow>
                 (case spent of
                    None \<Rightarrow> None
                  | Some c \<Rightarrow>
                      (case ParseVerdict (ge_decode ev) (msg_content (co_message c)) of
                         Inr v \<Rightarrow> Some ((Inr v, latest), w)
                       | Inl e \<Rightarrow> ask_loop ev judge user n latest callErr (Some e) w)))"

definition ask :: "'w Evaluator \<Rightarrow> (string \<Rightarrow> string \<Rightarrow> 'w \<Rightarrow> (Completion option \<times> go_error option) \<times> 'w)
    \<Rightarrow> GoalState \<Rightarrow> string \<Rightarrow> 'w \<Rightarrow> (asked \<times> 'w) option" where
  "ask ev judge st window w = ask_loop ev judge (EvalUser (gs_condition st) window) 2 None None None w"

text \<open>What a verdict makes of the stop, after the evaluation is counted.\<close>

definition decide :: "Verdict \<Rightarrow> Completion option \<Rightarrow> GoalState \<Rightarrow> Verdicts \<times> GoalState" where
  "decide v spent st0 =
     (let st = st0\<lparr>gs_iterations := gs_iterations st0 + 1\<rparr>
      in if vd_met v then (verdicts Met (vd_reason v) spent, st)
         else if vd_impossible v then (verdicts Failed (vd_reason v) spent, st)
         else let st = (if vd_reason v = gs_lastReason st then st\<lparr>gs_reasonRun := gs_reasonRun st + 1\<rparr>
                        else st\<lparr>gs_lastReason := vd_reason v, gs_reasonRun := 1\<rparr>)
              in if gs_reasonRun st \<ge> repetitionLimit then
                   (verdicts Failed (''the evaluator reported the same thing '' @ itoa (gs_reasonRun st) @
                      '' times running: '' @ vd_reason v) spent, st)
                 else (\<lparr>ve_outcome = Blocked, ve_reason = vd_reason v,
                        ve_directive = Directive (gs_condition st) (vd_reason v), ve_completion = spent\<rparr>, st))"

definition Evaluate :: "'w Evaluator \<Rightarrow> GoalState option \<Rightarrow> 'w \<Rightarrow> (Verdicts \<times> GoalState option \<times> 'w) option" where
  "Evaluate ev state w =
     (if ge_ctxErr ev w \<noteq> None then Some (verdicts Permitted ''the run was cancelled'' None, state, w)
      else (case state of
        None \<Rightarrow> Some (verdicts Permitted ''no goal is set'' None, state, w)
      | Some st \<Rightarrow>
          if gs_suspended st then Some (verdicts Permitted (gs_suspendWhy st) None, state, w)
          else (case (ge_window ev, ge_judge ev) of
            (Some readWindow, Some judge) \<Rightarrow>
              (case readWindow w of
                 (Inl err, w) \<Rightarrow>
                   (case suspend (''could not read the transcript to evaluate against ('' @ error_text err @ '') '' @ [CHR 0xE2, CHR 0x80, CHR 0x94] @ '' /goal to retry'') st of
                      (v, st) \<Rightarrow> Some (v, Some st, w))
               | (Inr entries, w) \<Rightarrow>
                   (case ask ev judge st (RenderWindow entries EvalTokens) w of
                      None \<Rightarrow> None
                    | Some ((Inl err, spent), w) \<Rightarrow>
                        if ge_ctxErr ev w \<noteq> None
                        then Some (verdicts Permitted ''the run was cancelled'' spent, state, w)
                        else (case suspend (error_text err) st of
                                (v, st) \<Rightarrow> Some (v\<lparr>ve_completion := spent\<rparr>, Some st, w))
                    | Some ((Inr verdict, spent), w) \<Rightarrow>
                        (case decide verdict spent st of (v, st) \<Rightarrow> Some (v, Some st, w))))
          | _ \<Rightarrow>
              (case suspend ''goal mode is not wired up: it has no transcript to read or no way to ask'' st of
                 (v, st) \<Rightarrow> Some (v, Some st, w)))))"

section \<open>The stop listener\<close>

definition DirectiveKind :: string where "DirectiveKind = ''goal_directive''"

record 'w StopListener =
  sl_evaluator :: "'w Evaluator option"
  sl_report :: "(Verdicts \<Rightarrow> 'w \<Rightarrow> 'w) option"
  sl_queue :: "QueuedMessage \<Rightarrow> 'w \<Rightarrow> 'w"

definition directive_message :: "string \<Rightarrow> Message" where
  "directive_message d = (empty_message RoleUser)\<lparr>msg_kind := DirectiveKind, msg_content := d\<rparr>"

definition listener_evaluate :: "'w StopListener \<Rightarrow> GoalState option \<Rightarrow> 'w \<Rightarrow> (GoalState option \<times> 'w) option" where
  "listener_evaluate l state w =
     (case sl_evaluator l of
        None \<Rightarrow> Some (state, w)
      | Some ev \<Rightarrow>
          (case Evaluate ev state w of
             None \<Rightarrow> None
           | Some (v, state, w) \<Rightarrow>
               let w = (case sl_report l of None \<Rightarrow> w | Some report \<Rightarrow> report v w)
               in if ve_outcome v \<noteq> Blocked then Some (state, w)
                  else Some (state, sl_queue l (SystemMessage (directive_message (ve_directive v))) w)))"

section \<open>How often the judge is asked\<close>

text \<open>\<open>n\<close> counts the judge's calls in a world where only the judge makes them.\<close>

definition counts_asks :: "'w Evaluator \<Rightarrow> ('w \<Rightarrow> nat) \<Rightarrow> bool" where
  "counts_asks ev n \<longleftrightarrow>
     (\<forall>judge. ge_judge ev = Some judge \<longrightarrow> (\<forall>sys usr w. n (snd (judge sys usr w)) = Suc (n w)))
     \<and> (\<forall>readWindow. ge_window ev = Some readWindow \<longrightarrow> (\<forall>w. n (snd (readWindow w)) = n w))"

lemma ask_loop_asks:
  assumes "ask_loop ev judge user k latest ce pe w = Some (r, w')" "\<And>sys usr w. n (snd (judge sys usr w)) = Suc (n w)"
  shows "n w' \<le> n w + k \<and> (0 < k \<longrightarrow> n w < n w')"
  using assms(1)
proof (induction k arbitrary: latest ce pe w)
  case (Suc k)
  obtain c e v where j: "judge EvalSystem user w = ((c, e), v)" by (metis surj_pair)
  then have nv: "n v = Suc (n w)" using assms(2) [of EvalSystem user w] by simp
  have step: "n w' \<le> n v + k" if "ask_loop ev judge user k l x y v = Some (r, w')" for l x y
    using Suc.IH [OF that] by simp
  have "n v \<le> n w'" if "ask_loop ev judge user k l x y v = Some (r, w')" for l x y
    using Suc.IH [OF that] that by (cases k) auto
  then have "w' = v \<or> (n w' \<le> n v + k \<and> n v \<le> n w')"
    using Suc.prems step by (auto simp: j Let_def split: option.splits if_splits sum.splits)
  with nv show ?case by auto
qed simp

text \<open>A failed ask leaves an error, an answered one a verdict with a reason.\<close>

lemma ask_loop_reason:
  "ask_loop ev judge user k latest ce pe w = Some ((Inr v, spent), w') \<Longrightarrow> trim_space (vd_reason v) \<noteq> []"
proof (induction k arbitrary: latest ce pe w)
  case (Suc k)
  obtain c e u where j: "judge EvalSystem user w = ((c, e), u)" by (metis surj_pair)
  have "trim_space (vd_reason x) \<noteq> []" if "ParseVerdict (ge_decode ev) t = Inr x" for t x
    using that by (auto simp: ParseVerdict_def Let_def split: if_splits sum.splits)
  with Suc show ?case by (auto simp: j Let_def split: option.splits if_splits sum.splits)
qed simp

lemma decide_cases:
  "decide v spent st = (d, st') \<Longrightarrow>
     (ve_outcome d = Met \<and> vd_met v) \<or> (ve_outcome d = Failed \<and> \<not> vd_met v)
     \<or> (ve_outcome d = Blocked \<and> \<not> vd_met v \<and> \<not> vd_impossible v \<and> ve_reason d = vd_reason v
        \<and> ve_directive d = Directive (gs_condition st) (vd_reason v))"
  by (auto simp: decide_def Let_def split: if_splits)

lemma Evaluate_outcomes:
  assumes "Evaluate ev (Some st) w = Some (d, st', w')"
  obtains (still) "ve_outcome d = Permitted" "st' = Some st"
  | (gave_up) why where "ve_outcome d = Suspended" "st' = Some (st\<lparr>gs_suspended := True, gs_suspendWhy := why\<rparr>)"
  | (decided) v spent where "ge_ctxErr ev w = None" "\<not> gs_suspended st" "trim_space (vd_reason v) \<noteq> []"
      "decide v spent st = (d, the st')" "st' \<noteq> None"
proof (cases "ge_ctxErr ev w \<noteq> None \<or> gs_suspended st")
  case True
  then have "ve_outcome d = Permitted" "st' = Some st"
    using assms by (auto simp: Evaluate_def split: if_splits)
  then show thesis by (rule still)
next
  case False
  show thesis
  proof (cases "ge_window ev = None \<or> ge_judge ev = None")
    case True
    then have "ve_outcome d = Suspended"
      "st' = Some (st\<lparr>gs_suspended := True, gs_suspendWhy := ''goal mode is not wired up: it has no transcript to read or no way to ask''\<rparr>)"
      using assms False unfolding Evaluate_def suspend_def by (auto split: option.splits)
    then show thesis by (rule gave_up)
  next
    case wired: False
    then obtain readWindow judge where rj: "ge_window ev = Some readWindow" "ge_judge ev = Some judge" by auto
    obtain r v where r: "readWindow w = (r, v)" by (cases "readWindow w")
    show thesis
    proof (cases r)
      case (Inl e)
      with assms False rj r show thesis
        by (auto simp: Evaluate_def suspend_def intro: gave_up)
    next
      case (Inr entries)
      with assms False rj r obtain a u where a: "ask ev judge st (RenderWindow entries EvalTokens) v = Some (a, u)"
        by (cases "ask ev judge st (RenderWindow entries EvalTokens) v") (auto simp: Evaluate_def)
      show thesis
      proof (cases "fst a")
        case (Inl e)
        with assms False rj r \<open>r = Inr entries\<close> a show thesis
          by (cases a; cases "ge_ctxErr ev u") (auto simp: Evaluate_def suspend_def intro: still gave_up)
      next
        case (Inr x)
        then obtain spent where ax: "a = (Inr x, spent)" by (cases a) simp
        obtain d1 s1 where d: "decide x spent st = (d1, s1)" by (cases "decide x spent st")
        then have "Evaluate ev (Some st) w = Some (d1, Some s1, u)"
          using False rj r \<open>r = Inr entries\<close> a ax by (simp add: Evaluate_def)
        then have "decide x spent st = (d, the st')" "st' \<noteq> None" using assms d by auto
        moreover have "trim_space (vd_reason x) \<noteq> []"
          using a ax ask_loop_reason unfolding ask_def by metis
        ultimately show thesis using False decided by blast
      qed
    qed
  qed
qed

text \<open>A judge that never returns nothing at all does not make the evaluation panic.\<close>

lemma ask_loop_returns:
  assumes "\<And>sys usr w. fst (judge sys usr w) \<noteq> (None, None)"
  shows "ask_loop ev judge user k latest ce pe w \<noteq> None"
proof (induction k arbitrary: latest ce pe w)
  case (Suc k)
  obtain c e u where j: "judge EvalSystem user w = ((c, e), u)" by (metis surj_pair)
  with assms [of EvalSystem user w] Suc show ?case
    by (auto simp: Let_def split: option.split sum.split)
qed simp

lemma Evaluate_asks:
  assumes "counts_asks ev n" "Evaluate ev state w = Some (d, state', w')"
  shows "n w' \<le> n w + 2 \<and> (ve_outcome d = Blocked \<longrightarrow> n w < n w')"
proof (cases "\<exists>st readWindow judge. state = Some st \<and> ge_ctxErr ev w = None \<and> \<not> gs_suspended st
    \<and> ge_window ev = Some readWindow \<and> ge_judge ev = Some judge \<and> is_Inr (fst (readWindow w))")
  case True
  then obtain st readWindow judge entries v where c: "state = Some st" "ge_ctxErr ev w = None" "\<not> gs_suspended st"
      "ge_window ev = Some readWindow" "ge_judge ev = Some judge" "readWindow w = (Inr entries, v)"
    by (metis is_Inr_def sum.case_eq_if sum.collapse(2) prod.collapse)
  then obtain a u where a: "ask ev judge st (RenderWindow entries EvalTokens) v = Some (a, u)"
    using assms(2) by (cases "ask ev judge st (RenderWindow entries EvalTokens) v") (auto simp: Evaluate_def)
  have asks: "n (snd (judge sys usr x)) = Suc (n x)" for sys usr x
    using assms(1) c(5) by (simp add: counts_asks_def)
  have "n u \<le> n v + 2 \<and> n v < n u" using ask_loop_asks [OF a [unfolded ask_def], of n] asks by simp
  moreover have "n v = n w" using assms(1) c(4,6) unfolding counts_asks_def by (metis snd_conv)
  moreover have "w' = u"
  proof -
    have "map_option (\<lambda>r. snd (snd r)) (Evaluate ev state w) = Some u"
      using c a by (simp add: Evaluate_def split: sum.split prod.split)
    then show ?thesis using assms(2) by simp
  qed
  ultimately show ?thesis by simp
next
  case False
  have "ve_outcome d \<noteq> Blocked \<and> n w' = n w"
  proof (cases "state = None \<or> ge_ctxErr ev w \<noteq> None \<or> gs_suspended (the state) \<or> ge_window ev = None \<or> ge_judge ev = None")
    case True
    with assms(2) show ?thesis unfolding Evaluate_def suspend_def by (auto split: if_splits option.splits)
  next
    case wired: False
    then obtain st readWindow judge where c: "state = Some st" "ge_window ev = Some readWindow" "ge_judge ev = Some judge" by auto
    with False wired have "\<not> is_Inr (fst (readWindow w))" by auto
    then obtain e v where "readWindow w = (Inl e, v)" by (metis is_Inr_simps(2) obj_sumE prod.collapse)
    moreover from this have "n v = n w" using assms(1) c(2) unfolding counts_asks_def by (metis snd_conv)
    ultimately show ?thesis using assms(2) c wired by (auto simp: Evaluate_def suspend_def)
  qed
  then show ?thesis by simp
qed

text \<open>
  A stop is decided within two calls of the judge. A cancelled run, a run without a goal and a
  suspended goal may stop at once, without a call and with nothing changed. A stop is blocked only on a
  judge's verdict that gives a reason, and the model is told that reason and the condition. An
  evaluation that could not be made suspends the goal, keeping it otherwise as it was.
\<close>
theorem goal_evaluation_policy:
  assumes "counts_asks ev n" "Evaluate ev state w = Some (d, state', w')"
  shows "n w' \<le> n w + 2
    \<and> (ge_ctxErr ev w \<noteq> None \<or> state = None \<or> gs_suspended (the state) \<longrightarrow>
        ve_outcome d = Permitted \<and> state' = state \<and> w' = w)
    \<and> (ve_outcome d = Blocked \<longrightarrow> n w < n w' \<and> trim_space (ve_reason d) \<noteq> []
        \<and> ve_directive d = Directive (gs_condition (the state)) (ve_reason d))
    \<and> (ve_outcome d = Suspended \<longrightarrow>
        (\<exists>why. state' = Some ((the state)\<lparr>gs_suspended := True, gs_suspendWhy := why\<rparr>)))"
proof (intro conjI impI)
  show "n w' \<le> n w + 2" using Evaluate_asks [OF assms] by simp
  show "ve_outcome d = Permitted" "state' = state" "w' = w"
    if "ge_ctxErr ev w \<noteq> None \<or> state = None \<or> gs_suspended (the state)"
    using that assms(2) by (auto simp: Evaluate_def split: if_splits option.splits)
  show "n w < n w'" if "ve_outcome d = Blocked" using Evaluate_asks [OF assms] that by simp
  have some: "\<exists>st. state = Some st" if "ve_outcome d \<noteq> Permitted"
    using that assms(2) by (auto simp: Evaluate_def split: if_splits option.splits)
  show "trim_space (ve_reason d) \<noteq> []" "ve_directive d = Directive (gs_condition (the state)) (ve_reason d)"
    if b: "ve_outcome d = Blocked"
  proof -
    obtain st where st: "state = Some st" using some b by auto
    show "trim_space (ve_reason d) \<noteq> []" "ve_directive d = Directive (gs_condition (the state)) (ve_reason d)"
      using Evaluate_outcomes [OF assms(2) [unfolded st]] b decide_cases st by (metis Outcome.distinct option.sel)+
  qed
  show "\<exists>why. state' = Some ((the state)\<lparr>gs_suspended := True, gs_suspendWhy := why\<rparr>)" if s: "ve_outcome d = Suspended"
  proof -
    obtain st where st: "state = Some st" using some s by auto
    then show ?thesis
      using Evaluate_outcomes [OF assms(2) [unfolded st]] s decide_cases by (metis Outcome.distinct option.sel)
  qed
qed

section \<open>A goal that keeps failing\<close>

text \<open>
  The evaluations of one goal: by whatever evaluator, with anything happening in between, and with the
  user arming a suspended goal again.
\<close>

inductive goal_run :: "GoalState \<Rightarrow> Verdicts list \<Rightarrow> GoalState \<times> 'w \<Rightarrow> bool" where
  set_goal: "goal_run st [] (st, w)"
| between: "goal_run st vs (st1, w) \<Longrightarrow> goal_run st vs (st1, w')"
| rearm: "goal_run st vs (st1, w) \<Longrightarrow> goal_run st vs (st1\<lparr>gs_suspended := False\<rparr>, w)"
| evaluated: "goal_run st vs (st1, w) \<Longrightarrow> Evaluate ev (Some st1) w = Some (v, Some st2, w')
    \<Longrightarrow> goal_run st (vs @ [v]) (st2, w')"

abbreviation block_reasons :: "Verdicts list \<Rightarrow> string list" where
  "block_reasons vs \<equiv> map ve_reason (filter (\<lambda>v. ve_outcome v = Blocked) vs)"

definition no_three :: "'a list \<Rightarrow> bool" where
  "no_three xs \<longleftrightarrow> (\<forall>as a bs. xs \<noteq> as @ [a, a, a] @ bs)"

definition repeats_known :: "string list \<Rightarrow> GoalState \<Rightarrow> bool" where
  "repeats_known rs st \<longleftrightarrow> 0 \<le> gs_reasonRun st
     \<and> (\<forall>as a. rs = as @ [a] \<longrightarrow> gs_lastReason st = a \<and> 1 \<le> gs_reasonRun st)
     \<and> (\<forall>as a. rs = as @ [a, a] \<longrightarrow> 2 \<le> gs_reasonRun st)"

lemma no_three_snoc:
  assumes "no_three rs" "\<And>as. rs \<noteq> as @ [r, r]"
  shows "no_three (rs @ [r])"
  unfolding no_three_def
proof (intro allI notI)
  fix as a bs assume eq: "rs @ [r] = as @ [a, a, a] @ bs"
  show False
  proof (cases bs rule: rev_cases)
    case Nil
    then have "rs @ [r] = (as @ [a, a]) @ [a]" using eq by simp
    then show False using assms(2) [of as] by (simp only: append1_eq_conv)
  next
    case (snoc bs' b)
    then have "rs @ [r] = (as @ [a, a, a] @ bs') @ [b]" using eq by simp
    then have "rs = as @ [a, a, a] @ bs'" by (simp only: append1_eq_conv)
    then show False using assms(1) unfolding no_three_def by blast
  qed
qed

lemma repeats_keep:
  "repeats_known rs st \<Longrightarrow> gs_reasonRun st' = gs_reasonRun st \<Longrightarrow> gs_lastReason st' = gs_lastReason st
    \<Longrightarrow> repeats_known rs st'"
  by (simp add: repeats_known_def)

text \<open>What a decision does to the counters, by its outcome.\<close>

lemma decide_blocked:
  assumes "decide v spent st = (d, st')" "ve_outcome d = Blocked"
  shows "gs_lastReason st' = ve_reason d
    \<and> gs_reasonRun st' = (if ve_reason d = gs_lastReason st then gs_reasonRun st + 1 else 1) \<and> gs_reasonRun st' < 3"
  using assms by (auto simp: decide_def Let_def repetitionLimit_def split: if_splits)

lemma decide_other:
  assumes "decide v spent st = (d, st')" "ve_outcome d \<noteq> Blocked" "0 \<le> gs_reasonRun st"
  shows "gs_lastReason st' = gs_lastReason st \<and> gs_reasonRun st \<le> gs_reasonRun st'"
  using assms by (auto simp: decide_def Let_def repetitionLimit_def split: if_splits)

lemma goal_run_repeats:
  "goal_run st vs sw \<Longrightarrow> 0 \<le> gs_reasonRun st \<Longrightarrow>
     no_three (block_reasons vs) \<and> repeats_known (block_reasons vs) (fst sw)"
proof (induction rule: goal_run.induct)
  case (set_goal st w)
  then show ?case by (simp add: no_three_def repeats_known_def)
next
  case (evaluated st vs st1 w ev v st2 w')
  let ?rs = "block_reasons vs"
  have ih: "no_three ?rs" "repeats_known ?rs st1" using evaluated by simp_all
  from evaluated(2) show ?case
  proof (cases rule: Evaluate_outcomes)
    case still
    with ih show ?thesis by simp
  next
    case (gave_up why)
    with ih show ?thesis by (auto intro: repeats_keep)
  next
    case (decided x spent)
    then have d: "decide x spent st1 = (v, st2)" by simp
    show ?thesis
    proof (cases "ve_outcome v = Blocked")
      case True
      note b = decide_blocked [OF d True]
      have ne: "?rs \<noteq> as @ [ve_reason v, ve_reason v]" for as
      proof
        assume eq: "?rs = as @ [ve_reason v, ve_reason v]"
        then have "?rs = (as @ [ve_reason v]) @ [ve_reason v]" by simp
        then have "gs_lastReason st1 = ve_reason v" using ih(2) unfolding repeats_known_def by blast
        moreover have "2 \<le> gs_reasonRun st1" using ih(2) eq unfolding repeats_known_def by blast
        ultimately show False using b by simp
      qed
      have "no_three (?rs @ [ve_reason v])" by (rule no_three_snoc [OF ih(1) ne])
      moreover have "repeats_known (?rs @ [ve_reason v]) st2"
        unfolding repeats_known_def
      proof (intro conjI allI impI)
        have pos: "0 \<le> gs_reasonRun st1" using ih(2) unfolding repeats_known_def by blast
        then show "0 \<le> gs_reasonRun st2" using b by simp
        show "gs_lastReason st2 = a" "1 \<le> gs_reasonRun st2" if "?rs @ [ve_reason v] = as @ [a]" for as a
          using that b pos by simp_all
        show "2 \<le> gs_reasonRun st2" if "?rs @ [ve_reason v] = as @ [a, a]" for as a
        proof -
          have "?rs @ [ve_reason v] = (as @ [a]) @ [a]" using that by simp
          then have "?rs = as @ [a]" "ve_reason v = a" by (simp_all only: append1_eq_conv)
          then have "gs_lastReason st1 = ve_reason v" "1 \<le> gs_reasonRun st1"
            using ih(2) unfolding repeats_known_def by blast+
          with b show ?thesis by simp
        qed
      qed
      ultimately show ?thesis using True by simp
    next
      case False
      have "0 \<le> gs_reasonRun st1" using ih(2) by (simp add: repeats_known_def)
      then have "repeats_known ?rs st2"
        using ih(2) decide_other [OF d False] unfolding repeats_known_def by fastforce
      with ih(1) False show ?thesis by simp
    qed
  qed
qed (auto intro: repeats_keep)

text \<open>
  C25. No goal holds a run up on one complaint: of all the stops blocked while a goal is active, no three
  in a row are blocked for the same reason, whatever else is evaluated in between.
\<close>
theorem goal_blocks_bounded:
  assumes "goal_run st vs sw" "0 \<le> gs_reasonRun st"
  shows "map ve_reason (filter (\<lambda>v. ve_outcome v = Blocked) vs) \<noteq> before @ [r, r, r] @ after"
  using goal_run_repeats [OF assms] by (simp add: no_three_def)

section \<open>Examples\<close>

definition plain_completion :: "string \<Rightarrow> Completion" where
  "plain_completion t =
     \<lparr>co_message = (empty_message RoleAssistant)\<lparr>msg_content := t\<rparr>, co_usage = zero_usage, co_reported = False,
      co_rawUsage = [], co_reasoning = None, co_cost = None, co_streamed = False, co_stop = [], co_model = [],
      co_routed = []\<rparr>"

text \<open>A judge that answers with the reason the world holds, and a window that is always readable.\<close>

definition stubborn :: "nat Evaluator" where
  "stubborn =
     \<lparr>ge_ctxErr = (\<lambda>_. None), ge_window = Some (\<lambda>w. (Inr [], w)),
      ge_judge = Some (\<lambda>_ _ w. ((Some (plain_completion ''no tests ran''), None), Suc w)),
      ge_decode = (\<lambda>t. Inr \<lparr>vd_met = False, vd_impossible = False, vd_reason = t\<rparr>)\<rparr>"

definition fresh_goal :: GoalState where
  "fresh_goal = \<lparr>gs_condition = ''tests pass'', gs_iterations = 0, gs_lastReason = [], gs_reasonRun = 0,
     gs_suspended = False, gs_suspendWhy = []\<rparr>"

definition stubborn_verdicts :: "nat \<Rightarrow> (Verdicts \<times> GoalState option \<times> nat) option" where
  "stubborn_verdicts k = (((\<lambda>r. Option.bind r (\<lambda>(_, st, w). Evaluate stubborn st w)) ^^ k)
     (Evaluate stubborn (Some fresh_goal) 0))"

lemma stubborn_first:
  "map_option (\<lambda>(v, st, w). (ve_outcome v, ve_reason v, w)) (stubborn_verdicts 0) = Some (Blocked, ''no tests ran'', 1)"
  "map_option (\<lambda>(v, st, w). (ve_outcome v, w)) (stubborn_verdicts 2) = Some (Failed, 3)"
  by code_simp+

lemma stubborn_blocks:
  obtains d st w where "Evaluate stubborn (Some fresh_goal) 0 = Some (d, Some st, w)" "ve_outcome d = Blocked"
    "ve_reason d = ''no tests ran''" "w = 1"
proof -
  have "map_option (\<lambda>(v, st, w). (ve_outcome v, ve_reason v, st \<noteq> None, w)) (Evaluate stubborn (Some fresh_goal) 0)
      = Some (Blocked, ''no tests ran'', True, 1)"
    by code_simp
  then show thesis using that by (auto simp: map_option_eq_Some)
qed

lemma stubborn_counts: "counts_asks stubborn (\<lambda>w. w)"
  by (simp add: counts_asks_def stubborn_def)

theorem goal_evaluation_policy_witness:
  "\<exists>d state' w'. Evaluate stubborn (Some fresh_goal) 0 = Some (d, state', w') \<and> ve_outcome d = Blocked \<and> w' \<le> 2
     \<and> ve_directive d = Directive ''tests pass'' ''no tests ran''"
proof -
  obtain d st w where e: "Evaluate stubborn (Some fresh_goal) 0 = Some (d, Some st, w)" "ve_outcome d = Blocked"
    "ve_reason d = ''no tests ran''" "w = 1"
    by (rule stubborn_blocks)
  have "gs_condition fresh_goal = ''tests pass''" by (simp add: fresh_goal_def)
  then show ?thesis using goal_evaluation_policy [OF stubborn_counts e(1)] e by (intro exI [of _ d] exI [of _ "Some st"] exI [of _ w]) simp
qed

theorem goal_blocks_bounded_witness:
  "\<exists>v st w. goal_run fresh_goal [v] (st, w :: nat) \<and> ve_outcome v = Blocked
     \<and> map ve_reason (filter (\<lambda>v. ve_outcome v = Blocked) [v]) \<noteq> [] @ [''no tests ran'', ''no tests ran'', ''no tests ran''] @ []"
proof -
  obtain d st w where e: "Evaluate stubborn (Some fresh_goal) 0 = Some (d, Some st, w)" "ve_outcome d = Blocked"
    by (rule stubborn_blocks)
  have "goal_run fresh_goal ([] @ [d]) (st, w)" by (rule evaluated [OF set_goal e(1)])
  then have run: "goal_run fresh_goal [d] (st, w)" by simp
  have "0 \<le> gs_reasonRun fresh_goal" by (simp add: fresh_goal_def)
  from goal_blocks_bounded [OF run this] run e(2) show ?thesis by blast
qed

end
