(* ===== verification/VfsRegistry.thy ===== *)
theory VfsRegistry
  imports GoString
begin

text \<open>
  The mounts of the virtual filesystem (\<open>vfs/provider.go\<close>): the canonical form of a path prefix, adding
  and removing a mount, the order the mounts are kept in, and the mount a path resolves to. A provider
  is an abstract value; \<open>strings.ToLower\<close> is a parameter. The lock makes each operation atomic.
\<close>

section \<open>Prefixes\<close>

abbreviation SLASH :: char where "SLASH \<equiv> CHR ''/''"

text \<open>\<open>strings.ReplaceAll(p, "//", "/")\<close>, and the loop that repeats it while there is something to replace.\<close>

fun halve_slashes :: "string \<Rightarrow> string" where
  "halve_slashes (a # b # r) = (if a = SLASH \<and> b = SLASH then SLASH # halve_slashes r else a # halve_slashes (b # r))"
| "halve_slashes r = r"

lemma halve_slashes_shorter: "contains_str ''//'' p \<Longrightarrow> length (halve_slashes p) < length p"
proof (induction p rule: halve_slashes.induct)
  case (1 a b r)
  have le: "length (halve_slashes s) \<le> length s" for s
    by (induction s rule: halve_slashes.induct) auto
  show ?case
  proof (cases "a = SLASH \<and> b = SLASH")
    case True
    then show ?thesis using le [of r] by simp
  next
    case False
    then have "contains_str ''//'' (b # r)" using 1(3) by (auto simp: has_prefix_def)
    with 1(2) False show ?thesis by auto
  qed
qed (auto simp: has_prefix_def)

function squash :: "string \<Rightarrow> string" where
  "squash p = (if contains_str ''//'' p then squash (halve_slashes p) else p)"
  by auto
termination
  by (relation "measure length") (auto simp: halve_slashes_shorter)

declare squash.simps [simp del]

definition normalizePrefix :: "string \<Rightarrow> string" where
  "normalizePrefix p =
     (let p = SLASH # trim_char SLASH (trim_space p)
      in if p = [SLASH] then [SLASH] else squash p)"

section \<open>The registry\<close>

record 'p mount =
  mt_prefix :: string
  mt_displayAs :: string
  mt_provider :: 'p

record 'p registry =
  rg_mounts :: "'p mount list"
  rg_byKey :: "string \<rightharpoonup> 'p mount"

definition newRegistry :: "'p registry" where
  "newRegistry = \<lparr>rg_mounts = [], rg_byKey = Map.empty\<rparr>"

definition mountDepth :: "string \<Rightarrow> nat" where
  "mountDepth pre = (if pre = [SLASH] then 0 else length (filter (\<lambda>c. c = SLASH) pre) + 1)"

text \<open>Whether the sort swaps a mount with the one before it.\<close>

definition goes_before :: "'p mount \<Rightarrow> 'p mount \<Rightarrow> bool" where
  "goes_before a b \<longleftrightarrow> mountDepth (mt_prefix a) > mountDepth (mt_prefix b)
     \<or> (mountDepth (mt_prefix a) = mountDepth (mt_prefix b) \<and> str_less (mt_prefix a) (mt_prefix b))"

primrec sift :: "nat \<Rightarrow> 'p mount list \<Rightarrow> 'p mount list" where
  "sift 0 ms = ms"
| "sift (Suc j) ms =
     (if goes_before (ms ! Suc j) (ms ! j)
      then sift j (ms[Suc j := ms ! j, j := ms ! Suc j]) else ms)"

definition registrySort :: "'p mount list \<Rightarrow> 'p mount list" where
  "registrySort ms = fold sift [1..<length ms] ms"

definition duplicate_mount :: "string \<Rightarrow> string" where
  "duplicate_mount key = ''vfs: a provider is already mounted at '' @ key @ ''; remove it first or choose a different path''"

text \<open>\<open>set_path\<close> injects the mount path into a provider that wants it.\<close>

definition reg_add :: "(string \<Rightarrow> string) \<Rightarrow> (string \<Rightarrow> 'p \<Rightarrow> 'p) \<Rightarrow> string \<Rightarrow> 'p \<Rightarrow> 'p registry
    \<Rightarrow> string option \<times> 'p registry" where
  "reg_add lower set_path pre provider r =
     (let normalized = normalizePrefix pre; key = lower normalized
      in if rg_byKey r key \<noteq> None then (Some (duplicate_mount key), r)
         else let m = \<lparr>mt_prefix = key, mt_displayAs = normalized, mt_provider = set_path normalized provider\<rparr>
              in (None, \<lparr>rg_mounts = registrySort (rg_mounts r @ [m]), rg_byKey = (rg_byKey r)(key \<mapsto> m)\<rparr>))"

fun drop_mount :: "string \<Rightarrow> 'p mount list \<Rightarrow> 'p mount list" where
  "drop_mount key [] = []"
| "drop_mount key (m # ms) = (if mt_prefix m = key then ms else m # drop_mount key ms)"

definition reg_remove :: "(string \<Rightarrow> string) \<Rightarrow> string \<Rightarrow> 'p registry \<Rightarrow> 'p registry" where
  "reg_remove lower pre r =
     (let key = lower (normalizePrefix pre)
      in if rg_byKey r key = None then r
         else \<lparr>rg_mounts = drop_mount key (rg_mounts r), rg_byKey = (rg_byKey r)(key := None)\<rparr>)"

definition covers :: "string \<Rightarrow> string \<Rightarrow> bool" where
  "covers pre p \<longleftrightarrow> p = pre \<or> has_prefix (pre @ [SLASH]) p"

fun first_cover :: "string \<Rightarrow> 'p mount list \<Rightarrow> 'p mount option" where
  "first_cover p [] = None"
| "first_cover p (m # ms) =
     (if mt_prefix m = [SLASH] then Some m
      else if covers (mt_prefix m) p then Some m
      else first_cover p ms)"

definition reg_resolve :: "(string \<Rightarrow> string) \<Rightarrow> string \<Rightarrow> 'p registry \<Rightarrow> 'p mount option" where
  "reg_resolve lower raw r = first_cover (lower (normalizePrefix raw)) (rg_mounts r)"

section \<open>The order of the mounts\<close>

lemma squash_clean: "\<not> contains_str ''//'' (squash p)"
  by (induction p rule: squash.induct) (simp add: squash.simps)

lemma goes_before_trans: "goes_before a b \<Longrightarrow> goes_before b c \<Longrightarrow> goes_before a c"
  unfolding goes_before_def by (auto intro: str_less_trans)

lemma goes_before_total: "mt_prefix a \<noteq> mt_prefix b \<Longrightarrow> goes_before a b \<or> goes_before b a"
  unfolding goes_before_def using str_less_total by (metis nat_neq_iff)

abbreviation in_order :: "'p mount list \<Rightarrow> bool" where
  "in_order ms \<equiv> sorted_wrt goes_before ms"

lemma mset_swap: "Suc j < length ms \<Longrightarrow> mset (ms[Suc j := ms ! j, j := ms ! Suc j]) = mset ms"
  using mset_swap [of j ms "Suc j"] by (simp add: list_update_swap)

lemma sift_sorts:
  "j < length ms \<Longrightarrow> in_order (take j ms) \<Longrightarrow> distinct (map mt_prefix ms) \<Longrightarrow>
     mset (sift j ms) = mset ms \<and> in_order (take (Suc j) (sift j ms)) \<and> drop (Suc j) (sift j ms) = drop (Suc j) ms"
proof (induction j arbitrary: ms)
  case 0
  then show ?case by (simp add: take_Suc_conv_app_nth)
next
  case (Suc j)
  let ?a = "ms ! j" and ?b = "ms ! Suc j"
  have before: "goes_before x ?a" if "x \<in> set (take j ms)" for x
    using Suc.prems(1,2) that by (simp add: take_Suc_conv_app_nth sorted_wrt_append)
  have sorted: "in_order (take j ms)"
    using Suc.prems(1,2) by (simp add: take_Suc_conv_app_nth sorted_wrt_append)
  show ?case
  proof (cases "goes_before ?b ?a")
    case True
    define ms' where "ms' = ms[Suc j := ?a, j := ?b]"
    have len: "length ms' = length ms" by (simp add: ms'_def)
    have take: "take j ms' = take j ms" "ms' ! j = ?b" using Suc.prems(1) by (simp_all add: ms'_def)
    have drop: "drop (Suc j) ms' = ?a # drop (Suc (Suc j)) ms"
      using Suc.prems(1) by (simp add: ms'_def drop_update_swap Cons_nth_drop_Suc [symmetric])
    have ms: "mset ms' = mset ms" using mset_swap Suc.prems(1) by (simp add: ms'_def)
    then have dist: "distinct (map mt_prefix ms')" using Suc.prems(3) by (metis mset_eq_imp_distinct_iff mset_map)
    have ih: "mset (sift j ms') = mset ms'" "in_order (take (Suc j) (sift j ms'))"
      "drop (Suc j) (sift j ms') = drop (Suc j) ms'"
      using Suc.IH [of ms'] Suc.prems(1) len take sorted dist by simp_all
    have "mset (take (Suc j) (sift j ms')) = mset (take (Suc j) ms')"
      using ih(1,3) by (metis add_right_cancel append_take_drop_id mset_append)
    then have "set (take (Suc j) (sift j ms')) = insert ?b (set (take j ms))"
      using take Suc.prems(1) len by (metis Suc_lessD set_mset_mset take_Suc_conv_app_nth list.set(2) set_append rotate1.simps(2) set_rotate1)
    moreover have "take (Suc (Suc j)) (sift j ms') = take (Suc j) (sift j ms') @ [?a]"
    proof -
      have "length (sift j ms') = length ms" using ih(1) len by (metis size_mset)
      then have "take (Suc (Suc j)) (sift j ms') = take (Suc j) (sift j ms') @ [sift j ms' ! Suc j]"
        using Suc.prems(1) by (simp add: take_Suc_conv_app_nth)
      moreover have "sift j ms' ! Suc j = ?a"
        using ih(3) drop \<open>length (sift j ms') = length ms\<close> Suc.prems(1) by (metis Cons_nth_drop_Suc list.inject)
      ultimately show ?thesis by simp
    qed
    ultimately have "in_order (take (Suc (Suc j)) (sift j ms'))"
      using ih(2) before True by (auto simp: sorted_wrt_append)
    moreover have "drop (Suc (Suc j)) (sift j ms') = drop (Suc (Suc j)) ms"
      using ih(3) drop by (metis drop_Suc list.sel(3) tl_drop)
    ultimately show ?thesis using True ih(1) ms by (simp flip: ms'_def)
  next
    case False
    have "mt_prefix ?a \<noteq> mt_prefix ?b"
      using Suc.prems by (metis Suc_lessD length_map lessI nat_neq_iff nth_eq_iff_index_eq nth_map)
    then have "goes_before ?a ?b" using False goes_before_total by blast
    then have "in_order (take (Suc (Suc j)) ms)"
      using Suc.prems(1,2) before by (auto simp: take_Suc_conv_app_nth sorted_wrt_append intro: goes_before_trans)
    then show ?thesis using False by simp
  qed
qed

lemma fold_sift:
  "k \<le> length ms \<Longrightarrow> 1 \<le> k \<Longrightarrow> distinct (map mt_prefix ms) \<Longrightarrow>
     mset (fold sift [1..<k] ms) = mset ms \<and> in_order (take k (fold sift [1..<k] ms))"
proof (induction k)
  case (Suc k)
  show ?case
  proof (cases "k = 0")
    case True
    with Suc.prems show ?thesis by (cases ms) auto
  next
    case False
    let ?r = "fold sift [1..<k] ms"
    have ih: "mset ?r = mset ms" "in_order (take k ?r)" using Suc False by simp_all
    then have "length ?r = length ms" "distinct (map mt_prefix ?r)"
      using Suc.prems(3) by (metis size_mset, metis mset_eq_imp_distinct_iff mset_map)
    then have "mset (sift k ?r) = mset ?r \<and> in_order (take (Suc k) (sift k ?r))"
      using sift_sorts [of k ?r] ih Suc.prems(1) by simp
    with ih False show ?thesis by simp
  qed
qed simp

lemma registrySort_sorts:
  assumes "distinct (map mt_prefix ms)"
  shows "mset (registrySort ms) = mset ms" "in_order (registrySort ms)"
proof -
  have "mset (registrySort ms) = mset ms \<and> in_order (registrySort ms)"
  proof (cases ms)
    case Nil
    then show ?thesis by (simp add: registrySort_def)
  next
    case (Cons m ns)
    then have "mset (registrySort ms) = mset ms \<and> in_order (take (length ms) (registrySort ms))"
      using fold_sift [of "length ms" ms] assms by (simp add: registrySort_def)
    moreover from this have "length (registrySort ms) = length ms" by (metis size_mset)
    ultimately show ?thesis by (metis take_all order_refl)
  qed
  then show "mset (registrySort ms) = mset ms" "in_order (registrySort ms)" by simp_all
qed

section \<open>The registry's invariant\<close>

definition reg_ok :: "'p registry \<Rightarrow> bool" where
  "reg_ok r \<longleftrightarrow> distinct (map mt_prefix (rg_mounts r)) \<and> in_order (rg_mounts r)
     \<and> (\<forall>k m. rg_byKey r k = Some m \<longleftrightarrow> m \<in> set (rg_mounts r) \<and> mt_prefix m = k)"

lemma reg_ok_new [simp]: "reg_ok newRegistry"
  by (simp add: reg_ok_def newRegistry_def)

lemma reg_ok_add:
  assumes "reg_ok r"
  shows "reg_ok (snd (reg_add lower set_path pre provider r))"
proof (cases "rg_byKey r (lower (normalizePrefix pre))")
  case None
  define m where "m = \<lparr>mt_prefix = lower (normalizePrefix pre), mt_displayAs = normalizePrefix pre,
    mt_provider = set_path (normalizePrefix pre) provider\<rparr>"
  have r: "snd (reg_add lower set_path pre provider r)
      = \<lparr>rg_mounts = registrySort (rg_mounts r @ [m]), rg_byKey = (rg_byKey r)(mt_prefix m \<mapsto> m)\<rparr>"
    using None by (simp add: reg_add_def Let_def m_def)
  have fresh: "mt_prefix m \<notin> mt_prefix ` set (rg_mounts r)"
  proof
    assume "mt_prefix m \<in> mt_prefix ` set (rg_mounts r)"
    then obtain x where "x \<in> set (rg_mounts r)" "mt_prefix x = mt_prefix m" by auto
    then have "rg_byKey r (mt_prefix m) = Some x" using assms unfolding reg_ok_def by blast
    then show False using None by (simp add: m_def)
  qed
  then have "distinct (map mt_prefix (rg_mounts r @ [m]))" using assms by (simp add: reg_ok_def)
  note sorted = registrySort_sorts [OF this]
  have "set (registrySort (rg_mounts r @ [m])) = insert m (set (rg_mounts r))"
    using sorted(1) by (metis Un_insert_right append_Nil2 list.simps(15) set_append set_mset_mset sup_bot_right)
  moreover have "distinct (map mt_prefix (registrySort (rg_mounts r @ [m])))"
    using sorted(1) \<open>distinct (map mt_prefix (rg_mounts r @ [m]))\<close> by (metis mset_eq_imp_distinct_iff mset_map)
  moreover have "\<forall>k x. rg_byKey r k = Some x \<longleftrightarrow> x \<in> set (rg_mounts r) \<and> mt_prefix x = k"
    using assms by (simp add: reg_ok_def)
  moreover have "\<forall>x\<in>set (rg_mounts r). mt_prefix x \<noteq> mt_prefix m" using fresh by (force simp: image_iff)
  ultimately show ?thesis using sorted(2) by (auto simp: r reg_ok_def)
qed (use assms in \<open>simp add: reg_add_def Let_def\<close>)

lemma drop_mount_eq:
  "distinct (map mt_prefix ms) \<Longrightarrow> drop_mount key ms = filter (\<lambda>m. mt_prefix m \<noteq> key) ms"
proof (induction ms)
  case (Cons m ms)
  show ?case
  proof (cases "mt_prefix m = key")
    case True
    then have "\<forall>x\<in>set ms. mt_prefix x \<noteq> key" using Cons.prems by (force simp: image_iff)
    then have "filter (\<lambda>m. mt_prefix m \<noteq> key) ms = ms" by (rule filter_True)
    with True show ?thesis by simp
  qed (use Cons in simp)
qed simp

lemma reg_ok_remove:
  assumes "reg_ok r"
  shows "reg_ok (reg_remove lower pre r)"
proof (cases "rg_byKey r (lower (normalizePrefix pre))")
  case (Some m)
  have "distinct (map mt_prefix (rg_mounts r))" using assms by (simp add: reg_ok_def)
  then have "rg_mounts (reg_remove lower pre r) = filter (\<lambda>m. mt_prefix m \<noteq> lower (normalizePrefix pre)) (rg_mounts r)"
    "rg_byKey (reg_remove lower pre r) = (rg_byKey r)(lower (normalizePrefix pre) := None)"
    using Some by (simp_all add: reg_remove_def Let_def drop_mount_eq)
  moreover have "\<forall>k x. rg_byKey r k = Some x \<longleftrightarrow> x \<in> set (rg_mounts r) \<and> mt_prefix x = k" "in_order (rg_mounts r)"
    using assms by (simp_all add: reg_ok_def)
  ultimately show ?thesis using \<open>distinct (map mt_prefix (rg_mounts r))\<close>
    unfolding reg_ok_def by (auto simp: distinct_map_filter intro: sorted_wrt_filter)
qed (use assms in \<open>simp add: reg_remove_def Let_def\<close>)

section \<open>The mount a path resolves to\<close>

definition serves :: "'p mount \<Rightarrow> string \<Rightarrow> bool" where
  "serves m p \<longleftrightarrow> mt_prefix m = [SLASH] \<or> covers (mt_prefix m) p"

lemma first_cover_eq: "first_cover p ms = find (\<lambda>m. serves m p) ms"
  by (induction ms) (auto simp: serves_def)

lemma covers_split: "covers pre p \<longleftrightarrow> p = pre \<or> (\<exists>t. p = pre @ SLASH # t)"
  by (auto simp: covers_def has_prefix_iff)

lemma covers_tail: "covers pre p \<Longrightarrow> \<exists>t. p = pre @ t \<and> (t = [] \<or> hd t = SLASH)"
  by (auto simp: covers_split intro: exI [of _ "SLASH # _"])

lemma covers_linear:
  assumes "covers a p" "covers b p" "mountDepth b \<le> mountDepth a" "a \<noteq> [SLASH]" "b \<noteq> [SLASH]"
  shows "b = a \<or> covers b a"
proof -
  obtain s t where s: "p = a @ s" "s = [] \<or> hd s = SLASH" and t: "p = b @ t" "t = [] \<or> hd t = SLASH"
    using covers_tail [OF assms(1)] covers_tail [OF assms(2)] by blast
  then consider us where "b = a @ us" "s = us @ t" | us where "a = b @ us" "t = us @ s"
    by (auto simp: append_eq_append_conv2)
  then show ?thesis
  proof cases
    case 1
    show ?thesis
    proof (cases us)
      case (Cons u us')
      then have "u = SLASH" using s(2) 1 by simp
      with Cons 1 assms(3-5) show ?thesis by (simp add: mountDepth_def)
    qed (use 1 in simp)
  next
    case 2
    show ?thesis
    proof (cases us)
      case (Cons u us')
      then have "u = SLASH" using t(2) 2 by simp
      with Cons 2 show ?thesis by (simp add: covers_split)
    qed (use 2 in simp)
  qed
qed

lemma find_in_order:
  assumes "in_order ms" "find P ms = Some m" "x \<in> set ms" "P x"
  shows "x = m \<or> goes_before m x"
  using assms by (induction ms) (auto split: if_splits)

lemma resolve_best:
  assumes "reg_ok r" "reg_resolve lower raw r = Some m" "x \<in> set (rg_mounts r)" "serves x (lower (normalizePrefix raw))"
  shows "x = m \<or> mt_prefix x = [SLASH] \<or> covers (mt_prefix x) (mt_prefix m)"
proof -
  let ?p = "lower (normalizePrefix raw)"
  have found: "find (\<lambda>m. serves m ?p) (rg_mounts r) = Some m"
    using assms(2) by (simp add: reg_resolve_def first_cover_eq)
  then have m: "serves m ?p" "m \<in> set (rg_mounts r)" by (auto simp: find_Some_iff)
  from find_in_order [OF _ found assms(3,4)] assms(1) consider "x = m" | "goes_before m x" by (auto simp: reg_ok_def)
  then show ?thesis
  proof cases
    case 2
    show ?thesis
    proof (cases "mt_prefix x = [SLASH]")
      case False
      then have "0 < mountDepth (mt_prefix x)" by (simp add: mountDepth_def)
      moreover have deep: "mountDepth (mt_prefix x) \<le> mountDepth (mt_prefix m)" using 2 by (auto simp: goes_before_def)
      ultimately have "mt_prefix m \<noteq> [SLASH]" by (auto simp: mountDepth_def)
      with False m(1) assms(4) have "covers (mt_prefix m) ?p" "covers (mt_prefix x) ?p" by (simp_all add: serves_def)
      from covers_linear [OF this deep \<open>mt_prefix m \<noteq> [SLASH]\<close> False] show ?thesis
        by (auto simp: covers_split)
    qed simp
  qed simp
qed

section \<open>Whatever is mounted and unmounted\<close>

datatype 'p mount_op = Mount string 'p | Unmount string

fun mount_step :: "(string \<Rightarrow> string) \<Rightarrow> (string \<Rightarrow> 'p \<Rightarrow> 'p) \<Rightarrow> 'p mount_op \<Rightarrow> 'p registry \<Rightarrow> 'p registry" where
  "mount_step lower set_path (Mount pre provider) r = snd (reg_add lower set_path pre provider r)"
| "mount_step lower set_path (Unmount pre) r = reg_remove lower pre r"

lemma reg_ok_ops: "reg_ok r \<Longrightarrow> reg_ok (fold (mount_step lower set_path) ops r)"
proof (induction ops arbitrary: r)
  case (Cons op ops)
  then show ?case by (cases op) (simp_all add: reg_ok_add reg_ok_remove)
qed simp

text \<open>
  C27. After any mounting and unmounting, a path resolves to a mount that serves it, and to the most
  specific one: every other mount that serves the path is an ancestor of it (or the root). A path
  resolves to nothing only when no mount serves it. The prefixes mounted are distinct, so the mount is
  unique.
\<close>
theorem resolve_most_specific:
  assumes "r = fold (mount_step lower set_path) ops newRegistry" "p = lower (normalizePrefix raw)"
  shows "distinct (map mt_prefix (rg_mounts r)) \<and>
    (case reg_resolve lower raw r of
       None \<Rightarrow> \<forall>x\<in>set (rg_mounts r). \<not> serves x p
     | Some m \<Rightarrow> m \<in> set (rg_mounts r) \<and> serves m p
         \<and> (\<forall>x\<in>set (rg_mounts r). serves x p \<longrightarrow> x = m \<or> mt_prefix x = ''/'' \<or> covers (mt_prefix x) (mt_prefix m)))"
proof -
  have ok: "reg_ok r" using assms(1) reg_ok_ops [OF reg_ok_new] by simp
  then have "distinct (map mt_prefix (rg_mounts r))" by (simp add: reg_ok_def)
  moreover have "reg_resolve lower raw r = find (\<lambda>m. serves m p) (rg_mounts r)"
    by (simp add: reg_resolve_def first_cover_eq assms(2))
  ultimately show ?thesis
    using resolve_best [OF ok, of lower raw] assms(2)
    by (auto simp: find_None_iff find_Some_iff split: option.splits)
qed

definition two_mounts :: "nat registry" where
  "two_mounts = fold (mount_step (\<lambda>s. s) (\<lambda>_ p. p)) [Mount ''/repos'' 1, Mount ''repos//work/'' 2, Mount ''/'' 3] newRegistry"

lemma two_mounts_resolve:
  "map (\<lambda>p. map_option mt_provider (reg_resolve (\<lambda>s. s) p two_mounts)) [''/repos/work/a.go'', ''/repos/workshop'', ''x'']
     = [Some 2, Some 1, Some 3]"
  by code_simp

theorem resolve_most_specific_witness:
  "distinct (map mt_prefix (rg_mounts two_mounts)) \<and> reg_resolve (\<lambda>s. s) ''/repos/work/a.go'' two_mounts \<noteq> None"
proof -
  have "reg_resolve (\<lambda>s. s) ''/repos/work/a.go'' two_mounts \<noteq> None" using two_mounts_resolve by auto
  then show ?thesis using resolve_most_specific [OF two_mounts_def refl, of "''/repos/work/a.go''"] by simp
qed

end
