(* ===== verification/VfsRender.thy ===== *)
theory VfsRender
  imports TextDiff Utf8 VfsRegistry
begin

text \<open>
  How the file tools read (\<open>vfs/files_render.go\<close>, the data of \<open>vfs/files.go\<close>, \<open>HumanSize\<close> of
  \<open>internal/loop/textdiff.go\<close>): listings, search results, the line window of a read, scopes and glob
  lists. \<open>strconv.Quote\<close> and \<open>path.Match\<close> are parameters. A window's bounds are 64-bit integers, so the
  sum of start and limit can wrap; the code's panic on a slice out of bounds is \<open>None\<close>.
\<close>

section \<open>The data\<close>

definition FindDefaultLimit :: int where "FindDefaultLimit = 20"
definition FindMaxLimit :: int where "FindMaxLimit = 100"
definition GrepDefaultLimit :: int where "GrepDefaultLimit = 30"
definition GrepMaxLimit :: int where "GrepMaxLimit = 100"
definition ListMaxEntries :: nat where "ListMaxEntries = 1000"

record DirEntry =
  de_name :: string
  de_dir :: bool
  de_size :: int
  de_note :: string
  de_kind :: string

record Listing =
  li_entries :: "DirEntry list"
  li_note :: string
  li_truncated :: bool

record VfsFile =
  vf_content :: string
  vf_note :: string
  vf_truncatedNote :: string

record GrepQuery =
  gq_pattern :: string
  gq_regexp :: bool
  gq_caseSensitive :: bool
  gq_globs :: "string list"
  gq_maxHits :: int

record GrepHit =
  gh_path :: string
  gh_line :: int
  gh_text :: string

record GrepResult =
  gr_hits :: "GrepHit list"
  gr_files :: int
  gr_truncated :: bool
  gr_note :: string

section \<open>Listings\<close>

text \<open>\<open>float64(n)/(1<<k)\<close> printed with one decimal: 53 bits, half to even, and the decimal rounded half to even.\<close>

definition float64_of :: "int \<Rightarrow> int" where
  "float64_of n = (let k = bit_length (nat n) - 53 in if k = 0 then n else round_half_even n (2 ^ k) * 2 ^ k)"

definition one_decimal :: "int \<Rightarrow> int \<Rightarrow> string" where
  "one_decimal n d = (let t = round_half_even (10 * float64_of n) d in itoa (t div 10) @ ''.'' @ itoa (t mod 10))"

definition HumanSize :: "int \<Rightarrow> string" where
  "HumanSize n =
     (if n \<ge> 2 ^ 20 then one_decimal n (2 ^ 20) @ '' MB''
      else if n \<ge> 2 ^ 10 then one_decimal n (2 ^ 10) @ '' KB''
      else itoa n @ '' B'')"

definition pad_right :: "nat \<Rightarrow> string \<Rightarrow> string" where
  "pad_right n s = s @ replicate (n - rune_count s) (CHR '' '')"

definition pad_left :: "nat \<Rightarrow> string \<Rightarrow> string" where
  "pad_left n s = replicate (n - rune_count s) (CHR '' '') @ s"

definition entry_less :: "DirEntry \<Rightarrow> DirEntry \<Rightarrow> bool" where
  "entry_less a b = (if de_dir a \<noteq> de_dir b then de_dir a else str_less (de_name a) (de_name b))"

text \<open>\<open>sort.SliceStable\<close>: an entry goes behind those it is not less than.\<close>

fun insert_entry :: "DirEntry \<Rightarrow> DirEntry list \<Rightarrow> DirEntry list" where
  "insert_entry e [] = [e]"
| "insert_entry e (x # xs) = (if entry_less x e then x # insert_entry e xs else e # x # xs)"

definition sort_entries :: "DirEntry list \<Rightarrow> DirEntry list" where
  "sort_entries es = foldr insert_entry es []"

definition entry_line :: "DirEntry \<Rightarrow> string" where
  "entry_line en =
     (let (kind, name) =
        (if de_kind en \<noteq> [] then (de_kind en, de_name en)
         else if de_dir en then (''dir'', de_name en @ ''/'')
         else (''file'', de_name en))
      in pad_right 5 kind @ '' '' @ name @
         (if \<not> de_dir en \<and> de_kind en = [] then '' ('' @ HumanSize (de_size en) @ '')'' else []) @
         (if de_note en \<noteq> [] then ''  '' @ de_note en else []) @ [NL])"

definition renderListing :: "string \<Rightarrow> Listing \<Rightarrow> string" where
  "renderListing place l =
     (let header = place @ (if li_note l \<noteq> [] then ''  ('' @ li_note l @ '')'' else [])
      in if li_entries l = [] then header @ [NL] @ ''(empty directory)''
         else let entries = sort_entries (li_entries l);
                  over = length entries > ListMaxEntries;
                  shown = (if over then take ListMaxEntries entries else entries)
              in trim_right NL (header @ [NL] @ concat (map entry_line shown) @
                   (if li_truncated l \<or> over
                    then ''(listing truncated; narrow the path or use find_files)'' else [])))"

section \<open>Search results\<close>

definition grepLiteralHint :: string where
  "grepLiteralHint =
     ''The pattern was matched as literal text and contains regular-expression syntax; set '' @
     [CHR 0x22] @ ''regexp'' @ [CHR 0x22] @ '': true to search it as a pattern.''"

definition looksLikeRegexp :: "string \<Rightarrow> bool" where
  "looksLikeRegexp pattern \<longleftrightarrow>
     (\<exists>s\<in>set [''|'', ''.*'', [CHR 0x5C, CHR ''d''], [CHR 0x5C, CHR ''w''], [CHR 0x5C, CHR ''s''],
        [CHR 0x5C, CHR ''b''], ''^'', ''$'', ''('', ''['']. contains_str s pattern)"

fun hit_lines :: "string \<Rightarrow> GrepHit list \<Rightarrow> string" where
  "hit_lines current [] = []"
| "hit_lines current (h # hs) =
     (if gh_path h \<noteq> current then [NL] @ gh_path h @ [NL] else []) @
     pad_left 7 (itoa (gh_line h)) @ '': '' @ gh_text h @ [NL] @ hit_lines (gh_path h) hs"

definition renderGrep :: "(string \<Rightarrow> string) \<Rightarrow> string \<Rightarrow> string \<Rightarrow> bool \<Rightarrow> string list \<Rightarrow> GrepResult \<Rightarrow> string" where
  "renderGrep quote place pattern regexp globs res =
     (let head = ''grep '' @ quote pattern @ '' ('' @ (if regexp then ''regexp'' else ''literal'') @ '') in '' @ place @
            (if globs \<noteq> [] then '' ('' @ join_with '', '' globs @ '')'' else []);
          note = (if gr_note res \<noteq> [] then [NL] @ gr_note res else [])
      in if gr_hits res = [] then
           head @ '': no matches.'' @ [NL] @
           ''Every line of every file in scope was searched, so the text is genuinely absent from it '' @
           [CHR 0xE2, CHR 0x80, CHR 0x94] @ '' this is a real negative, not a search that gave up.'' @
           (if \<not> regexp \<and> looksLikeRegexp pattern then [NL] @ grepLiteralHint else []) @ note
         else trim_right NL
           (head @ '': '' @ Plural (int (length (gr_hits res))) ''matching line'' ''matching lines'' @ '' in '' @
            Plural (gr_files res) ''file'' ''files'' @ [NL] @ hit_lines [] (gr_hits res) @
            (if gr_truncated res then
               [NL] @ ''(stopped at '' @ itoa (int (length (gr_hits res))) @ '' matching lines '' @ [CHR 0xE2, CHR 0x80, CHR 0x94] @ '' more exist. Narrow the path or '' @
               [CHR 0x22] @ ''glob'' @ [CHR 0x22] @ '', or raise '' @ [CHR 0x22] @ ''limit'' @ [CHR 0x22] @
               '' to at most '' @ itoa GrepMaxLimit @ ''.)''
             else []) @ note))"

section \<open>The line window of a read\<close>

definition content_lines :: "string \<Rightarrow> string list" where
  "content_lines content =
     (let lines = split_char NL content in if last lines = [] then butlast lines else lines)"

text \<open>The note of a window, and the window.\<close>

definition slice_note :: "int \<Rightarrow> int \<Rightarrow> int \<Rightarrow> string" where
  "slice_note start stop lines =
     ''(lines '' @ itoa (start + 1) @ ''-'' @ itoa stop @ '' of '' @ itoa lines @
       (if stop < lines then ''; '' @ itoa (lines - stop) @ '' more follow '' @ [CHR 0xE2, CHR 0x80, CHR 0x94] @ '' re-read with offset '' @ itoa (stop + 1) else []) @ '')''"

definition SliceLines :: "string \<Rightarrow> int \<Rightarrow> int \<Rightarrow> (string \<times> string) option" where
  "SliceLines content offset limit =
     (if offset \<le> 0 \<and> limit \<le> 0 then Some (content, [])
      else
        let lines = content_lines content;
            total = int (length lines);
            start = wrap64 (offset - 1);
            start = (if start < 0 then 0 else start)
        in if start \<ge> total then
             Some ([], ''(this file has '' @ itoa total @ '' lines; line '' @ itoa offset @ '' is past its end)'')
           else
             let stop = wrap64 (start + limit);
                 stop = (if limit > 0 \<and> stop < total then stop else total)
             in if stop < start then None
                else Some (join_with [NL] (take (nat (stop - start)) (drop (nat start) lines)), slice_note start stop total))"

section \<open>Paths and globs\<close>

definition path_base :: "string \<Rightarrow> string" where
  "path_base p =
     (if p = [] then ''.''
      else let q = trim_right SLASH p; b = rev (takeWhile (\<lambda>c. c \<noteq> SLASH) (rev q))
           in if b = [] then ''/'' else b)"

definition contains_any :: "string \<Rightarrow> string \<Rightarrow> bool" where
  "contains_any s chars \<longleftrightarrow> (\<exists>c\<in>set s. c \<in> set chars)"

text \<open>\<open>glob\<close> is \<open>path.Match\<close>: \<open>None\<close> for a malformed pattern.\<close>

definition MatchesPattern :: "(string \<Rightarrow> string) \<Rightarrow> (string \<Rightarrow> string \<Rightarrow> bool option) \<Rightarrow> string \<Rightarrow> string \<Rightarrow> bool" where
  "MatchesPattern lower glob p pattern =
     (if \<not> contains_any pattern ''*?['' then contains_str (lower pattern) (lower p)
      else if glob pattern (path_base p) = Some True then True
      else glob pattern p = Some True)"

definition WithinDir :: "string \<Rightarrow> string \<Rightarrow> string \<times> bool" where
  "WithinDir p dir =
     (if dir = [] then (p, True)
      else if \<not> has_prefix (dir @ ''/'') p then ([], False)
      else (drop (length dir + 1) p, True))"

definition WithinScope :: "string \<Rightarrow> string \<Rightarrow> string \<times> bool" where
  "WithinScope p scope = (if p = scope then (path_base p, True) else WithinDir p scope)"

definition SplitGlobs :: "string \<Rightarrow> string list" where
  "SplitGlobs s = filter (\<lambda>g. g \<noteq> []) (map trim_space (split_char (CHR '','') s))"

definition clampInt :: "int \<Rightarrow> int \<Rightarrow> int \<Rightarrow> int \<Rightarrow> int" where
  "clampInt v def lo hi = (let v = (if v \<le> 0 then def else v) in max lo (min v hi))"

section \<open>Windows cover a file\<close>

lemma content_lines_join: "content = join_with [NL] (content_lines content) \<or> content = join_with [NL] (content_lines content) @ [NL]"
proof -
  have "join_with [NL] (xs @ [[]]) = join_with [NL] xs @ [NL]" if "xs \<noteq> []" for xs
    using that by (induction "[NL]" xs rule: join_with.induct) auto
  moreover have "content_lines content = split_char NL content \<or> split_char NL content = content_lines content @ [[]]"
    unfolding content_lines_def Let_def by (metis append_butlast_last_id split_char_nonempty)
  moreover have "content = []" if "split_char NL content = [[]]" using that join_split [of NL content] by simp
  ultimately show ?thesis by (metis append_Nil join_split join_with.simps(1))
qed

lemma join_with_append:
  "xs \<noteq> [] \<Longrightarrow> ys \<noteq> [] \<Longrightarrow> join_with sep (xs @ ys) = join_with sep xs @ sep @ join_with sep ys"
proof (induction sep xs rule: join_with.induct)
  case (2 sep x)
  then show ?case by (cases ys) auto
qed auto

lemma join_with_concat:
  "\<forall>c\<in>set cs. c \<noteq> [] \<Longrightarrow> join_with sep (map (join_with sep) cs) = join_with sep (concat cs)"
proof (induction cs)
  case (Cons c cs)
  show ?case
  proof (cases cs)
    case (Cons d ds)
    then have "concat cs \<noteq> []" using Cons.prems \<open>\<forall>c\<in>set (c # cs). c \<noteq> []\<close> by simp
    then show ?thesis using Cons Cons.IH Cons.prems \<open>cs = d # ds\<close> by (simp add: join_with_append)
  qed simp
qed simp

lemma chunks_concat:
  "0 < L \<Longrightarrow> concat (map (\<lambda>i. take L (drop (i * L) xs)) [0..<n]) = take (n * L) xs"
  by (induction n) (simp_all add: take_add add.commute [of L])

lemma SliceLines_window:
  assumes "s < length (content_lines content)" "0 < L" "int s + int L < 2 ^ 63"
  shows "SliceLines content (int s + 1) (int L) =
    Some (join_with [NL] (take L (drop s (content_lines content))),
      slice_note (int s) (int (min (s + L) (length (content_lines content)))) (int (length (content_lines content))))"
proof -
  let ?ls = "content_lines content"
  have start: "wrap64 (int s) = int s" using assms(3) by (simp add: wrap64_id)
  have stop: "wrap64 (int s + int L) = int s + int L" using assms(3) by (simp add: wrap64_id)
  show ?thesis
  proof (cases "s + L < length ?ls")
    case True
    then have "min (s + L) (length ?ls) = s + L" by simp
    moreover have "int s + int L < int (length ?ls)" using True by linarith
    ultimately show ?thesis using assms by (simp add: SliceLines_def Let_def start stop)
  next
    case False
    then have "min (s + L) (length ?ls) = length ?ls" "take L (drop s ?ls) = drop s ?ls" by simp_all
    moreover have "\<not> int s + int L < int (length ?ls)" using False by linarith
    moreover have "nat (int (length ?ls) - int s) = length ?ls - s" by simp
    ultimately show ?thesis using assms by (simp add: SliceLines_def Let_def start stop)
  qed
qed

text \<open>The line range a note names and, when lines follow, how many and the offset to go on from.\<close>

definition note_says :: "string \<Rightarrow> int \<Rightarrow> int \<Rightarrow> int \<Rightarrow> (int \<times> int) option \<Rightarrow> bool" where
  "note_says t from_line to_line lines follow \<longleftrightarrow>
     t = ''(lines '' @ itoa from_line @ ''-'' @ itoa to_line @ '' of '' @ itoa lines
       @ (case follow of
            None \<Rightarrow> []
          | Some (more_lines, offset) \<Rightarrow>
              ''; '' @ itoa more_lines @ '' more follow '' @ [CHR 0xE2, CHR 0x80, CHR 0x94] @ '' re-read with offset '' @ itoa offset)
       @ '')''"

lemma slice_note_says:
  "note_says (slice_note a b lines) (a + 1) b lines (if b < lines then Some (lines - b, b + 1) else None)"
  by (simp add: note_says_def slice_note_def)

text \<open>
  C28. Reading a file window by window, each from the line after the last one shown, gives the whole
  file: every window holds the next \<open>L\<close> lines, its note names the first and the last of them counted from
  1, and, unless it is the last window, how many lines follow and the offset of the next window; and the
  windows joined are the file, but for a newline at its end.
\<close>
theorem slice_windows_cover:
  assumes "0 < L" "ls = content_lines content" "int (length ls) + int L < 2 ^ 63" "n = (length ls + L - 1) div L"
  shows "(\<forall>i<n. \<exists>t. SliceLines content (int (i * L) + 1) (int L) = Some (join_with [NL] (take L (drop (i * L) ls)), t)
      \<and> note_says t (int (i * L) + 1) (int (i * L) + int (length (take L (drop (i * L) ls)))) (int (length ls))
          (if Suc i < n then Some (int (length ls) - int (Suc i * L), int (Suc i * L) + 1) else None))
    \<and> (let whole = join_with [NL] (map (\<lambda>i. join_with [NL] (take L (drop (i * L) ls))) [0..<n])
       in content = whole \<or> content = whole @ [NL])"
proof -
  have inside: "i * L < length ls" if "i < n" for i
  proof -
    have "Suc i * L \<le> n * L" using that by (intro mult_right_mono) simp_all
    also have "n * L \<le> length ls + L - 1" unfolding assms(4) by (rule div_times_less_eq_dividend)
    finally show ?thesis using assms(1) by simp
  qed
  have cover: "length ls \<le> n * L"
  proof -
    have "length ls + L - 1 = n * L + (length ls + L - 1) mod L" unfolding assms(4) by simp
    moreover have "(length ls + L - 1) mod L < L" using assms(1) by simp
    ultimately show ?thesis by linarith
  qed
  have "join_with [NL] (map (\<lambda>i. join_with [NL] (take L (drop (i * L) ls))) [0..<n])
      = join_with [NL] (concat (map (\<lambda>i. take L (drop (i * L) ls)) [0..<n]))"
  proof -
    have "\<forall>c\<in>set (map (\<lambda>i. take L (drop (i * L) ls)) [0..<n]). c \<noteq> []"
      using inside assms(1) by (auto simp: not_le)
    from join_with_concat [OF this, of "[NL]"] show ?thesis by (simp add: comp_def)
  qed
  also have "\<dots> = join_with [NL] ls" by (simp only: chunks_concat [OF assms(1)] take_all [OF cover])
  finally have "let whole = join_with [NL] (map (\<lambda>i. join_with [NL] (take L (drop (i * L) ls))) [0..<n])
       in content = whole \<or> content = whole @ [NL]"
    using content_lines_join [of content] assms(2) by (simp add: Let_def)
  moreover have "SliceLines content (int (i * L) + 1) (int L) = Some (join_with [NL] (take L (drop (i * L) ls)),
      slice_note (int (i * L)) (int (min (i * L + L) (length ls))) (int (length ls)))" if "i < n" for i
    using SliceLines_window [of "i * L" content L] inside [OF that] assms(1-3) by (simp del: of_nat_mult)
  moreover have "note_says (slice_note (int (i * L)) (int (min (i * L + L) (length ls))) (int (length ls)))
      (int (i * L) + 1) (int (i * L) + int (length (take L (drop (i * L) ls)))) (int (length ls))
      (if Suc i < n then Some (int (length ls) - int (Suc i * L), int (Suc i * L) + 1) else None)" if "i < n" for i
  proof -
    have len: "int (min (i * L + L) (length ls)) = int (i * L) + int (length (take L (drop (i * L) ls)))"
      using inside [OF that] by (auto simp: min_def not_le simp del: of_nat_mult)
    show ?thesis
    proof (cases "Suc i < n")
      case True
      then have e: "int (min (i * L + L) (length ls)) = int (Suc i * L)" "int (Suc i * L) < int (length ls)"
        using inside [OF True] by (simp_all add: min_def add.commute del: of_nat_mult)
      show ?thesis
        using slice_note_says [of "int (i * L)" "int (Suc i * L)" "int (length ls)"]
        unfolding len [symmetric] e(1) if_P [OF True] if_P [OF e(2)] .
    next
      case False
      then have "n \<le> Suc i" by simp
      then have "n * L \<le> Suc i * L" by (rule mult_le_mono1)
      with cover have e: "int (min (i * L + L) (length ls)) = int (length ls)" by (simp add: min_def)
      have "\<not> int (length ls) < int (length ls)" by simp
      then show ?thesis
        using slice_note_says [of "int (i * L)" "int (length ls)" "int (length ls)"]
        unfolding len [symmetric] e if_not_P [OF False] by (simp only: if_False)
    qed
  qed
  ultimately show ?thesis by blast
qed

text \<open>A limit near the largest integer makes the end of the window wrap, and the slice panics.\<close>

lemma slice_lines_overflow: "SliceLines (''a'' @ [NL] @ ''b'') 2 (2 ^ 63 - 1) = None"
  by code_simp

theorem slice_windows_cover_witness:
  "\<exists>t. SliceLines (''a'' @ [NL] @ ''b'' @ [NL] @ ''c'' @ [NL]) 1 2 = Some (''a'' @ [NL] @ ''b'', t)
     \<and> note_says t 1 2 3 (Some (1, 3))"
proof -
  have ls: "[''a'', ''b'', ''c''] = content_lines (''a'' @ [NL] @ ''b'' @ [NL] @ ''c'' @ [NL])" by code_simp
  have "\<exists>t. SliceLines (''a'' @ [NL] @ ''b'' @ [NL] @ ''c'' @ [NL]) (int (0 * 2) + 1) (int 2)
        = Some (join_with [NL] (take 2 (drop (0 * 2) [''a'', ''b'', ''c''])), t)
      \<and> note_says t (int (0 * 2) + 1) (int (0 * 2) + int (length (take 2 (drop (0 * 2) [''a'', ''b'', ''c''])))) (int (length [''a'', ''b'', ''c'']))
          (if Suc 0 < 2 then Some (int (length [''a'', ''b'', ''c'']) - int (Suc 0 * 2), int (Suc 0 * 2) + 1) else None)"
    by (rule slice_windows_cover [OF _ ls, of 2 2, THEN conjunct1, rule_format]) simp_all
  then show ?thesis by simp
qed

end
