(* ===== verification/VfsTools.thy ===== *)
theory VfsTools
  imports VfsRender Tools
begin

text \<open>
  The file tools (\<open>vfs/files_tools.go\<close>, \<open>vfs/files.go\<close>, the adapters of \<open>vfs/provider.go\<close>): routing a
  path past the host's guard to its mount, the checks a change must pass, and the seven handlers. A
  provider is a record of functions over a world, with the optional interfaces a provider may implement
  as optional fields. Decoding arguments, \<open>strconv.Quote\<close>, \<open>strings.ToLower\<close> and \<open>path.Match\<close> are
  parameters. A panic (a provider that is no provider, a window out of bounds) is \<open>None\<close>.
\<close>

section \<open>Providers\<close>

record 'w writable_folder =
  wr_writable :: "string \<Rightarrow> 'w \<Rightarrow> bool \<times> string"
  wr_create :: "string \<Rightarrow> string \<Rightarrow> 'w \<Rightarrow> (go_error + string) \<times> 'w"
  wr_replace :: "string \<Rightarrow> string \<Rightarrow> string \<Rightarrow> 'w \<Rightarrow> (go_error + string) \<times> 'w"
  wr_remove :: "string \<Rightarrow> 'w \<Rightarrow> (go_error + string) \<times> 'w"
  wr_refuseCreate :: "(string \<Rightarrow> 'w \<Rightarrow> (go_error + string) \<times> 'w) option"

record 'w folder =
  fo_display :: "string \<Rightarrow> string"
  fo_list :: "string \<Rightarrow> 'w \<Rightarrow> (go_error + Listing) \<times> 'w"
  fo_read :: "string \<Rightarrow> 'w \<Rightarrow> (go_error + VfsFile) \<times> 'w"
  fo_find :: "string \<Rightarrow> string \<Rightarrow> int \<Rightarrow> 'w \<Rightarrow> (go_error + string list) \<times> 'w"
  fo_grep :: "string \<Rightarrow> GrepQuery \<Rightarrow> 'w \<Rightarrow> (go_error + GrepResult) \<times> 'w"
  fo_readOnlyReason :: "(string \<Rightarrow> string) option"
  fo_write :: "'w writable_folder option"

record 'w single_file =
  sf_read :: "string \<Rightarrow> 'w \<Rightarrow> (go_error + VfsFile) \<times> 'w"
  sf_display :: "string \<Rightarrow> string"

datatype 'w provider = FolderProvider "'w folder" | FileProvider "'w single_file" | OtherProvider

record vfs_text =
  vt_lower :: "string \<Rightarrow> string"
  vt_quote :: "string \<Rightarrow> string"
  vt_glob :: "string \<Rightarrow> string \<Rightarrow> bool option"

section \<open>A single file as a folder\<close>

text \<open>The loop over the lines, from line \<open>k\<close> on.\<close>

fun file_hits :: "vfs_text \<Rightarrow> string \<Rightarrow> GrepQuery \<Rightarrow> int \<Rightarrow> GrepHit list \<Rightarrow> string list \<Rightarrow> GrepHit list \<times> bool" where
  "file_hits vt p q k hits [] = (hits, False)"
| "file_hits vt p q k hits (line # ls) =
     (if \<not> contains_str (vt_lower vt (gq_pattern q)) (vt_lower vt line) then file_hits vt p q (k + 1) hits ls
      else if int (length hits) = gq_maxHits q then (hits, True)
      else file_hits vt p q (k + 1) (hits @ [\<lparr>gh_path = p, gh_line = k, gh_text = line\<rparr>]) ls)"

definition adapter_grep :: "vfs_text \<Rightarrow> 'w single_file \<Rightarrow> string \<Rightarrow> GrepQuery \<Rightarrow> 'w \<Rightarrow> (go_error + GrepResult) \<times> 'w" where
  "adapter_grep vt f p q w =
     (case sf_read f p w of
        (Inl err, w) \<Rightarrow> (Inl err, w)
      | (Inr file, w) \<Rightarrow>
          (case file_hits vt p q 1 [] (split_char NL (vf_content file)) of
             (hits, truncated) \<Rightarrow>
               (Inr \<lparr>gr_hits = hits, gr_files = int (length hits), gr_truncated = truncated, gr_note = []\<rparr>, w)))"

definition file_adapter :: "vfs_text \<Rightarrow> 'w single_file \<Rightarrow> 'w folder" where
  "file_adapter vt f =
     \<lparr>fo_display = sf_display f,
      fo_list = (\<lambda>p w. (Inr \<lparr>li_entries = [\<lparr>de_name = path_base p, de_dir = False, de_size = 0, de_note = [], de_kind = []\<rparr>],
                           li_note = [], li_truncated = False\<rparr>, w)),
      fo_read = sf_read f,
      fo_find = (\<lambda>p pattern _ w. (Inr (if MatchesPattern (vt_lower vt) (vt_glob vt) p pattern then [p] else []), w)),
      fo_grep = adapter_grep vt f,
      fo_readOnlyReason = None,
      fo_write = None\<rparr>"

definition asFolderProvider :: "vfs_text \<Rightarrow> 'w provider \<Rightarrow> 'w folder option" where
  "asFolderProvider vt p = (case p of
      FolderProvider f \<Rightarrow> Some f
    | FileProvider f \<Rightarrow> Some (file_adapter vt f)
    | OtherProvider \<Rightarrow> None)"

definition asWritableProvider :: "'w provider \<Rightarrow> 'w writable_folder option" where
  "asWritableProvider p = (case p of FolderProvider f \<Rightarrow> fo_write f | _ \<Rightarrow> None)"

section \<open>Routing\<close>

record 'w files =
  fl_registry :: "'w provider registry"
  fl_unavailable :: "(string \<Rightarrow> string) option"
  fl_guard :: "(string \<Rightarrow> bool \<times> string) option"
  fl_text :: vfs_text

definition mountUnavailable :: "'w files \<Rightarrow> string \<Rightarrow> string" where
  "mountUnavailable e path =
     (let s = (case fl_unavailable e of None \<Rightarrow> [] | Some f \<Rightarrow> f path)
      in if s \<noteq> [] then s else path @ '' is not available in this conversation.'')"

definition blocked :: "'w files \<Rightarrow> string \<Rightarrow> string option" where
  "blocked e path = (case fl_guard e of
      None \<Rightarrow> None
    | Some guard \<Rightarrow> (case guard path of (b, reason) \<Rightarrow> if b then Some reason else None))"

definition requires_path :: "string \<Rightarrow> string" where
  "requires_path tool = tool @ '' requires '' @ [CHR 0x22] @ ''path'' @ [CHR 0x22] @ ''.''"

text \<open>The mount a path is routed to, or the refusal.\<close>

definition route :: "'w files \<Rightarrow> string \<Rightarrow> string \<Rightarrow> ToolResult + 'w provider mount" where
  "route e tool raw =
     (if trim_space raw = [] then Inl (error_result (requires_path tool))
      else (case blocked e raw of
          Some reason \<Rightarrow> Inl (error_result reason)
        | None \<Rightarrow>
            (case reg_resolve (vt_lower (fl_text e)) raw (fl_registry e) of
               None \<Rightarrow> Inl (error_result (tool @ '': '' @ mountUnavailable e raw))
             | Some m \<Rightarrow> Inr m)))"

definition readOnlyReason :: "'w folder \<Rightarrow> string \<Rightarrow> string" where
  "readOnlyReason f p =
     (let s = (case fo_readOnlyReason f of None \<Rightarrow> [] | Some ex \<Rightarrow> ex p)
      in if s \<noteq> [] then s else fo_display f p @ '' is read-only.'')"

text \<open>
  \<open>resolve\<close> and \<open>writable\<close>, followed by what the handler does with the provider. A handler's outcome is
  a result and the world, or \<open>None\<close> for a panic.
\<close>

type_synonym 'w handled = "(ToolResult \<times> 'w) option"

definition resolve_then :: "'w files \<Rightarrow> string \<Rightarrow> string \<Rightarrow> ('w folder \<Rightarrow> 'w \<Rightarrow> 'w handled) \<Rightarrow> 'w \<Rightarrow> 'w handled" where
  "resolve_then e tool raw k w =
     (case route e tool raw of
        Inl fail \<Rightarrow> Some (fail, w)
      | Inr m \<Rightarrow> (case asFolderProvider (fl_text e) (mt_provider m) of None \<Rightarrow> None | Some f \<Rightarrow> k f w))"

definition writable_then :: "'w files \<Rightarrow> string \<Rightarrow> string \<Rightarrow> ('w writable_folder \<Rightarrow> 'w \<Rightarrow> 'w handled) \<Rightarrow> 'w \<Rightarrow> 'w handled" where
  "writable_then e tool raw k w =
     (case route e tool raw of
        Inl fail \<Rightarrow> Some (fail, w)
      | Inr m \<Rightarrow>
          (case asWritableProvider (mt_provider m) of
             None \<Rightarrow>
               (case asFolderProvider (fl_text e) (mt_provider m) of
                  None \<Rightarrow> None
                | Some fp \<Rightarrow> Some (error_result (tool @ '': '' @ readOnlyReason fp raw), w))
           | Some f \<Rightarrow>
               (case wr_writable f raw w of
                  (allowed, why) \<Rightarrow> if \<not> allowed then Some (error_result (tool @ '': '' @ why), w) else k f w)))"

section \<open>The handlers\<close>

record readArgs =
  ra_path :: string
  ra_offset :: int
  ra_limit :: int

record findArgs =
  fa_path :: string
  fa_pattern :: string
  fa_limit :: int

record grepArgs =
  ga_path :: string
  ga_pattern :: string
  ga_glob :: string
  ga_regexp :: bool
  ga_caseSensitive :: bool
  ga_limit :: int

record writeArgs =
  wa_path :: string
  wa_content :: string

record vfsEditArgs =
  ed_path :: string
  ed_oldText :: string
  ed_newText :: string

definition decoded :: "string \<Rightarrow> (string \<Rightarrow> string + 'a) \<Rightarrow> string \<Rightarrow> ('a \<Rightarrow> 'w \<Rightarrow> 'w handled) \<Rightarrow> 'w \<Rightarrow> 'w handled" where
  "decoded tool dec args k w =
     (case dec args of
        Inl err \<Rightarrow> Some (error_result (''invalid '' @ tool @ '' arguments: '' @ err), w)
      | Inr inp \<Rightarrow> k inp w)"

abbreviation ok_result :: "string \<Rightarrow> ToolResult" where
  "ok_result t \<equiv> \<lparr>tr_content = t, tr_parts = [], tr_is_error = False\<rparr>"

text \<open>What a provider's answer becomes: its error as the tool's, or the rendering of the value.\<close>

definition answered_by :: "string \<Rightarrow> (go_error + 'a) \<times> 'w \<Rightarrow> ('a \<Rightarrow> string option) \<Rightarrow> 'w handled" where
  "answered_by tool r render =
     (case r of
        (Inl err, w) \<Rightarrow> Some (error_result (tool @ '': '' @ error_text err), w)
      | (Inr x, w) \<Rightarrow> (case render x of None \<Rightarrow> None | Some t \<Rightarrow> Some (ok_result t, w)))"

definition listDir :: "'w files \<Rightarrow> (string \<Rightarrow> string + string) \<Rightarrow> string \<Rightarrow> 'w \<Rightarrow> 'w handled" where
  "listDir e dec args =
     decoded ''list_dir'' dec args (\<lambda>path.
     resolve_then e ''list_dir'' path (\<lambda>f w.
     answered_by ''list_dir'' (fo_list f path w) (\<lambda>l. Some (renderListing (fo_display f path) l))))"

definition read_header :: "string \<Rightarrow> VfsFile \<Rightarrow> string \<Rightarrow> string" where
  "read_header place file rangeNote =
     place @ (if vf_note file \<noteq> [] then ''  ('' @ vf_note file @ '')'' else []) @
     (if rangeNote \<noteq> [] then [NL] @ rangeNote else []) @
     (if vf_truncatedNote file \<noteq> [] then [NL] @ vf_truncatedNote file else [])"

definition readFile :: "'w files \<Rightarrow> (string \<Rightarrow> string + readArgs) \<Rightarrow> string \<Rightarrow> 'w \<Rightarrow> 'w handled" where
  "readFile e dec args =
     decoded ''read_file'' dec args (\<lambda>inp.
     resolve_then e ''read_file'' (ra_path inp) (\<lambda>f w.
     answered_by ''read_file'' (fo_read f (ra_path inp) w) (\<lambda>file.
       map_option (\<lambda>(body, rangeNote).
           read_header (fo_display f (ra_path inp)) file rangeNote @ [NL, NL] @ body)
         (SliceLines (vf_content file) (ra_offset inp) (ra_limit inp)))))"

definition find_text :: "(string \<Rightarrow> string) \<Rightarrow> string \<Rightarrow> string \<Rightarrow> int \<Rightarrow> string list \<Rightarrow> string" where
  "find_text quote place pattern limit hits =
     (if hits = [] then ''No file under '' @ place @ '' matches '' @ quote pattern @ ''.''
      else trim_right NL
        (itoa (int (length hits)) @ '' file(s) under '' @ place @ '' matching '' @ quote pattern @
         (if int (length hits) = limit
          then '' (first '' @ itoa limit @ ''; raise limit or narrow the pattern for more)'' else []) @
         '':'' @ [NL] @ concat (map (\<lambda>h. h @ [NL]) hits)))"

definition findFiles :: "'w files \<Rightarrow> (string \<Rightarrow> string + findArgs) \<Rightarrow> string \<Rightarrow> 'w \<Rightarrow> 'w handled" where
  "findFiles e dec args =
     decoded ''find_files'' dec args (\<lambda>inp w.
     let pattern = trim_space (fa_pattern inp)
     in if pattern = [] then Some (error_result (''find_files requires '' @ [CHR 0x22] @ ''pattern'' @ [CHR 0x22] @
     '': a filename glob (*.go) or a plain substring of the name or path.''), w)
        else resolve_then e ''find_files'' (fa_path inp) (\<lambda>f w.
          let limit = clampInt (fa_limit inp) FindDefaultLimit 1 FindMaxLimit
          in answered_by ''find_files'' (fo_find f (fa_path inp) pattern limit w) (\<lambda>hits.
               Some (find_text (vt_quote (fl_text e)) (fo_display f (fa_path inp)) pattern limit hits))) w)"

definition vfs_grep :: "'w files \<Rightarrow> (string \<Rightarrow> string + grepArgs) \<Rightarrow> string \<Rightarrow> 'w \<Rightarrow> 'w handled" where
  "vfs_grep e dec args =
     decoded ''grep'' dec args (\<lambda>inp w.
     let pattern = trim_space (ga_pattern inp)
     in if pattern = [] then Some (error_result (''grep requires '' @ [CHR 0x22] @ ''pattern'' @ [CHR 0x22] @ '': the text to find inside the files.''), w)
        else resolve_then e ''grep'' (ga_path inp) (\<lambda>f w.
          let limit = clampInt (ga_limit inp) GrepDefaultLimit 1 GrepMaxLimit;
              globs = SplitGlobs (ga_glob inp)
          in answered_by ''grep''
               (fo_grep f (ga_path inp) \<lparr>gq_pattern = pattern, gq_regexp = ga_regexp inp,
                  gq_caseSensitive = ga_caseSensitive inp, gq_globs = globs, gq_maxHits = limit\<rparr> w) (\<lambda>res.
               Some (renderGrep (vt_quote (fl_text e)) (fo_display f (ga_path inp)) pattern (ga_regexp inp) globs res))) w)"

definition writeFile :: "'w files \<Rightarrow> (string \<Rightarrow> string + writeArgs) \<Rightarrow> string \<Rightarrow> 'w \<Rightarrow> 'w handled" where
  "writeFile e dec args =
     decoded ''write_file'' dec args (\<lambda>inp.
     writable_then e ''write_file'' (wa_path inp) (\<lambda>f w.
     answered_by ''write_file'' (wr_create f (wa_path inp) (wa_content inp) w) Some))"

definition refuseWritePath :: "'w files \<Rightarrow> string \<Rightarrow> 'w \<Rightarrow> (ToolResult option \<times> 'w) option" where
  "refuseWritePath e path w =
     (case writable_then e ''write_file'' path (\<lambda>f w.
        (case wr_refuseCreate f of
           None \<Rightarrow> Some (zero_result, w)
         | Some refuse \<Rightarrow>
             (case refuse path w of
                (Inl err, w) \<Rightarrow> Some (zero_result, w)
              | (Inr reason, w) \<Rightarrow>
                  if reason = [] then Some (zero_result, w)
                  else Some (error_result (''write_file: '' @ reason), w)))) w of
        None \<Rightarrow> None
      | Some (r, w) \<Rightarrow> Some (if tr_is_error r then Some r else None, w))"

definition editFile :: "'w files \<Rightarrow> (string \<Rightarrow> string + vfsEditArgs) \<Rightarrow> string \<Rightarrow> 'w \<Rightarrow> 'w handled" where
  "editFile e dec args =
     decoded ''edit_file'' dec args (\<lambda>inp w.
     if ed_oldText inp = [] then Some (error_result (''edit_file requires '' @ [CHR 0x22] @ ''old_text'' @ [CHR 0x22] @
       '': the exact existing text to replace, occurring exactly once in the file. To add a '' @
       ''brand-new file use write_file.''), w)
     else writable_then e ''edit_file'' (ed_path inp) (\<lambda>f w.
       answered_by ''edit_file'' (wr_replace f (ed_path inp) (ed_oldText inp) (ed_newText inp) w) Some) w)"

definition deleteFile :: "'w files \<Rightarrow> (string \<Rightarrow> string + string) \<Rightarrow> string \<Rightarrow> 'w \<Rightarrow> 'w handled" where
  "deleteFile e dec args =
     decoded ''delete_file'' dec args (\<lambda>path.
     writable_then e ''delete_file'' path (\<lambda>f w.
     answered_by ''delete_file'' (wr_remove f path w) Some))"

section \<open>The toolset\<close>

definition listDirDescription :: string where
  "listDirDescription =
     ''Lists a directory.''"

definition readFileDescription :: string where
  "readFileDescription =
     ''Reads a file'' @ [CHR 0x27] @
     ''s contents. Binary files are reported as a placeholder, and long files are truncated. Give '' @
     [CHR 0x22] @ ''offset'' @ [CHR 0x22] @ '' and '' @ [CHR 0x22] @ ''limit'' @ [CHR 0x22] @
     '' to read a window of lines rather than the whole file '' @ [CHR 0xE2, CHR 0x80, CHR 0x94] @
     '' the line numbers grep returns go straight into '' @ [CHR 0x22] @ ''offset'' @ [CHR 0x22] @
     '', and reading a 200-line window around a hit costs a fraction of what the whole file does.''"

definition findFilesDescription :: string where
  "findFilesDescription =
     ''Finds files by NAME below a path, recursively '' @ [CHR 0xE2, CHR 0x80, CHR 0x94] @
     '' give a filename glob (*.go, test_*) or a plain substring as pattern. The path sets the '' @
     ''scope exactly as it does for grep: a directory, a subdirectory of one '' @
     [CHR 0xE2, CHR 0x80, CHR 0x94] @
     '' or a single file, which asks whether that one file matches. A path the mount does not '' @
     ''hold is an error, never an empty result: nothing was listed, so it is not an absence of '' @
     ''matching files. Searches names and paths only; to search what is INSIDE the files use grep.''"

definition grepDescription :: string where
  "grepDescription =
     ''Searches file CONTENTS below a path, recursively '' @ [CHR 0xE2, CHR 0x80, CHR 0x94] @
     '' the equivalent of grep -r. Works on every path the other file tools do, and the path '' @
     ''sets the scope: a directory, a subdirectory of one, or a single file. Matching is '' @
     ''literal and case-insensitive by default; set '' @ [CHR 0x22] @ ''regexp'' @ [CHR 0x22] @
     '' for a pattern in RE2 syntax (Go'' @ [CHR 0x27] @
     ''s regexp, no lookaround or backreferences) or '' @ [CHR 0x22] @ ''case_sensitive'' @
     [CHR 0x22] @ '' for an exact match, and narrow with '' @ [CHR 0x22] @ ''glob'' @ [CHR 0x22] @
     ''. Each hit is a path and a line number, ready for read_file and its '' @ [CHR 0x22] @
     ''offset'' @ [CHR 0x22] @
     ''. Because every line of every file in scope is read, NO MATCHES really does mean the '' @
     ''text is not there '' @ [CHR 0xE2, CHR 0x80, CHR 0x94] @
     '' and if coverage was partial the reply says so, so trust the stated scope.''"

definition writeFileDescription :: string where
  "writeFileDescription =
     ''Creates a NEW file. Fails when the path already exists '' @ [CHR 0xE2, CHR 0x80, CHR 0x94] @
     '' change an existing file with edit_file, never by rewriting it whole.''"

definition editFileDescription :: string where
  "editFileDescription =
     ''Changes part of an existing file: old_text must match the file'' @ [CHR 0x27] @
     ''s current content exactly and occur exactly once, so read the file first and include '' @
     ''enough surrounding context to be unique.''"

definition deleteFileDescription :: string where
  "deleteFileDescription =
     ''Deletes an existing file.''"

datatype file_tool = ListDir | ReadFile | FindFiles | GrepFiles | WriteFile | EditFile | DeleteFile

fun file_tool_name :: "file_tool \<Rightarrow> string" where
  "file_tool_name ListDir = ''list_dir''"
| "file_tool_name ReadFile = ''read_file''"
| "file_tool_name FindFiles = ''find_files''"
| "file_tool_name GrepFiles = ''grep''"
| "file_tool_name WriteFile = ''write_file''"
| "file_tool_name EditFile = ''edit_file''"
| "file_tool_name DeleteFile = ''delete_file''"

fun file_tool_description :: "file_tool \<Rightarrow> string" where
  "file_tool_description ListDir = listDirDescription"
| "file_tool_description ReadFile = readFileDescription"
| "file_tool_description FindFiles = findFilesDescription"
| "file_tool_description GrepFiles = grepDescription"
| "file_tool_description WriteFile = writeFileDescription"
| "file_tool_description EditFile = editFileDescription"
| "file_tool_description DeleteFile = deleteFileDescription"

definition changes_files :: "file_tool \<Rightarrow> bool" where
  "changes_files t \<longleftrightarrow> t = WriteFile \<or> t = EditFile \<or> t = DeleteFile"

definition sentence :: "string \<Rightarrow> string" where
  "sentence s = (let s = trim_space s in if s = [] then [] else CHR '' '' # s)"

record FileToolsConfig =
  fc_mountsBlurb :: string
  fc_notes :: "string \<Rightarrow> string"
  fc_schema :: "file_tool \<Rightarrow> string"

definition file_tool_decl :: "FileToolsConfig \<Rightarrow> file_tool \<Rightarrow> ToolDecl" where
  "file_tool_decl cfg t =
     \<lparr>decl_name = file_tool_name t,
      decl_description = file_tool_description t @ sentence (fc_mountsBlurb cfg) @ sentence (fc_notes cfg (file_tool_name t)),
      decl_schema = fc_schema cfg t, decl_readonly = \<not> changes_files t,
      decl_destructive = (if changes_files t then Some True else None),
      decl_idempotent = (t = WriteFile \<or> t = DeleteFile), decl_openWorld = Some False, decl_unvouched = False\<rparr>"

text \<open>The mounts of the configuration, in the order the map is walked; a nil provider is left out.\<close>

definition files_registry :: "(string \<Rightarrow> string) \<Rightarrow> (string \<times> 'w provider option) list \<Rightarrow> 'w provider registry" where
  "files_registry lower providers =
     fold (\<lambda>(pre, p) r. case p of
         None \<Rightarrow> r
       | Some p \<Rightarrow> if pre \<noteq> [] then snd (reg_add lower (\<lambda>_ p. p) pre p r) else r) providers newRegistry"

record vfs_decoders =
  vd_path :: "file_tool \<Rightarrow> string \<Rightarrow> string + string"
  vd_read :: "string \<Rightarrow> string + readArgs"
  vd_find :: "string \<Rightarrow> string + findArgs"
  vd_grep :: "string \<Rightarrow> string + grepArgs"
  vd_write :: "string \<Rightarrow> string + writeArgs"
  vd_edit :: "string \<Rightarrow> string + vfsEditArgs"

fun handle :: "'w files \<Rightarrow> vfs_decoders \<Rightarrow> file_tool \<Rightarrow> string \<Rightarrow> 'w \<Rightarrow> 'w handled" where
  "handle e d ListDir args = listDir e (vd_path d ListDir) args"
| "handle e d ReadFile args = readFile e (vd_read d) args"
| "handle e d FindFiles args = findFiles e (vd_find d) args"
| "handle e d GrepFiles args = vfs_grep e (vd_grep d) args"
| "handle e d WriteFile args = writeFile e (vd_write d) args"
| "handle e d EditFile args = editFile e (vd_edit d) args"
| "handle e d DeleteFile args = deleteFile e (vd_path d DeleteFile) args"

section \<open>Nothing is touched past a refusal\<close>

text \<open>The path a call names, when its arguments decode.\<close>

fun call_path :: "vfs_decoders \<Rightarrow> file_tool \<Rightarrow> string \<Rightarrow> string option" where
  "call_path d ListDir args = (case vd_path d ListDir args of Inl _ \<Rightarrow> None | Inr p \<Rightarrow> Some p)"
| "call_path d ReadFile args = (case vd_read d args of Inl _ \<Rightarrow> None | Inr a \<Rightarrow> Some (ra_path a))"
| "call_path d FindFiles args = (case vd_find d args of Inl _ \<Rightarrow> None | Inr a \<Rightarrow> Some (fa_path a))"
| "call_path d GrepFiles args = (case vd_grep d args of Inl _ \<Rightarrow> None | Inr a \<Rightarrow> Some (ga_path a))"
| "call_path d WriteFile args = (case vd_write d args of Inl _ \<Rightarrow> None | Inr a \<Rightarrow> Some (wa_path a))"
| "call_path d EditFile args = (case vd_edit d args of Inl _ \<Rightarrow> None | Inr a \<Rightarrow> Some (ed_path a))"
| "call_path d DeleteFile args = (case vd_path d DeleteFile args of Inl _ \<Rightarrow> None | Inr p \<Rightarrow> Some p)"

text \<open>
  An outcome that is a refusal without effect, unless the path passed every check: not blocked, served
  by a mount, and for a change a folder that accepts changes there.
\<close>

definition cleared :: "'w files \<Rightarrow> bool \<Rightarrow> string \<Rightarrow> 'w \<Rightarrow> bool" where
  "cleared e change path w \<longleftrightarrow> blocked e path = None \<and>
     (\<exists>m. reg_resolve (vt_lower (fl_text e)) path (fl_registry e) = Some m
        \<and> (change \<longrightarrow> (\<exists>f. asWritableProvider (mt_provider m) = Some f \<and> fst (wr_writable f path w))))"

definition refused_or :: "bool \<Rightarrow> 'w \<Rightarrow> 'w handled \<Rightarrow> bool" where
  "refused_or ok w out \<longleftrightarrow> ok \<or> (\<forall>r w'. out = Some (r, w') \<longrightarrow> tr_is_error r \<and> w' = w)"

lemma refused_error [simp]: "refused_or ok w (Some (error_result msg, w))"
  by (simp add: refused_or_def)

lemma refused_if: "(c \<Longrightarrow> refused_or ok w a) \<Longrightarrow> (\<not> c \<Longrightarrow> refused_or ok w b) \<Longrightarrow> refused_or ok w (if c then a else b)"
  by simp

lemma route_Inl: "route e tool raw = Inl fail \<Longrightarrow> tr_is_error fail"
  by (auto simp: route_def split: if_splits option.splits)

lemma route_Inr: "route e tool raw = Inr m \<Longrightarrow>
    blocked e raw = None \<and> reg_resolve (vt_lower (fl_text e)) raw (fl_registry e) = Some m"
  by (auto simp: route_def split: if_splits option.splits)

lemma refused_resolve: "refused_or (cleared e False path w) w (resolve_then e tool path k w)"
proof (cases "route e tool path")
  case (Inl fail)
  with route_Inl [OF this] show ?thesis by (simp add: resolve_then_def refused_or_def)
next
  case (Inr m)
  with route_Inr [OF this] show ?thesis by (simp add: cleared_def refused_or_def)
qed

lemma refused_writable: "refused_or (cleared e True path w) w (writable_then e tool path k w)"
proof (cases "route e tool path")
  case (Inl fail)
  with route_Inl [OF this] show ?thesis by (simp add: writable_then_def refused_or_def)
next
  case (Inr m)
  note r = route_Inr [OF this]
  show ?thesis
  proof (cases "asWritableProvider (mt_provider m)")
    case None
    with Inr show ?thesis by (auto simp: writable_then_def refused_or_def split: option.splits)
  next
    case (Some f)
    show ?thesis
    proof (cases "fst (wr_writable f path w)")
      case True
      with r Some show ?thesis by (simp add: cleared_def refused_or_def)
    next
      case False
      with Inr Some show ?thesis by (cases "wr_writable f path w") (simp add: writable_then_def)
    qed
  qed
qed

lemmas refused_rules = refused_error refused_if refused_resolve refused_writable

lemma handle_refused:
  "refused_or (\<exists>path. call_path d t args = Some path \<and> cleared e (changes_files t) path w) w (handle e d t args w)"
proof (cases t)
  case ListDir
  then show ?thesis
    by (cases "vd_path d ListDir args") (simp_all add: listDir_def decoded_def changes_files_def refused_resolve)
next
  case ReadFile
  then show ?thesis
    by (cases "vd_read d args") (simp_all add: readFile_def decoded_def changes_files_def refused_resolve)
next
  case FindFiles
  then show ?thesis
    by (cases "vd_find d args") (simp_all add: findFiles_def decoded_def changes_files_def Let_def refused_resolve)
next
  case GrepFiles
  then show ?thesis
    by (cases "vd_grep d args") (simp_all add: vfs_grep_def decoded_def changes_files_def Let_def refused_resolve)
next
  case WriteFile
  then show ?thesis
    by (cases "vd_write d args") (simp_all add: writeFile_def decoded_def changes_files_def refused_writable)
next
  case EditFile
  then show ?thesis
    by (cases "vd_edit d args") (simp_all add: editFile_def decoded_def changes_files_def refused_writable)
next
  case DeleteFile
  then show ?thesis
    by (cases "vd_path d DeleteFile args") (simp_all add: deleteFile_def decoded_def changes_files_def refused_writable)
qed

text \<open>
  C26. A file tool reaches a provider only past every check: when a call returns anything but an error,
  or changes anything, the host's guard let its path through, a mount serves it, and for a tool that
  changes files that mount accepts changes and allows this one. A path the guard blocks always gives an
  error and leaves the world as it was.
\<close>
theorem file_tools_guarded:
  assumes "handle e d t args w = Some (r, w')"
  shows "(w' \<noteq> w \<or> \<not> tr_is_error r \<longrightarrow>
      (\<exists>path m. call_path d t args = Some path \<and> blocked e path = None
        \<and> reg_resolve (vt_lower (fl_text e)) path (fl_registry e) = Some m
        \<and> (changes_files t \<longrightarrow> (\<exists>f. asWritableProvider (mt_provider m) = Some f \<and> fst (wr_writable f path w)))))
    \<and> (\<forall>path. call_path d t args = Some path \<and> blocked e path \<noteq> None \<longrightarrow> tr_is_error r \<and> w' = w)"
  using handle_refused [of d t args e w] assms unfolding refused_or_def cleared_def by fastforce

section \<open>An example\<close>

definition log_folder :: "(string list) folder" where
  "log_folder =
     \<lparr>fo_display = (\<lambda>p. p), fo_list = (\<lambda>p w. (Inl (ErrorNew ''no listing''), w)),
      fo_read = (\<lambda>p w. (Inr \<lparr>vf_content = p, vf_note = [], vf_truncatedNote = []\<rparr>, w)),
      fo_find = (\<lambda>p pat n w. (Inr [], w)), fo_grep = (\<lambda>p q w. (Inl (ErrorNew ''no grep''), w)),
      fo_readOnlyReason = None,
      fo_write = Some \<lparr>wr_writable = (\<lambda>p w. (p \<noteq> ''/docs/frozen'', ''frozen'')),
        wr_create = (\<lambda>p c w. (Inr ''created'', w @ [p])), wr_replace = (\<lambda>p a b w. (Inr ''changed'', w @ [p])),
        wr_remove = (\<lambda>p w. (Inr ''removed'', w @ [p])), wr_refuseCreate = None\<rparr>\<rparr>"

definition log_files :: "(string list) files" where
  "log_files =
     \<lparr>fl_registry = files_registry (\<lambda>s. s) [(''/docs'', Some (FolderProvider log_folder)), (''/x'', None)],
      fl_unavailable = None, fl_guard = Some (\<lambda>p. (p = ''/docs/secret'', ''not that one'')),
      fl_text = \<lparr>vt_lower = (\<lambda>s. s), vt_quote = (\<lambda>s. s), vt_glob = (\<lambda>_ _. None)\<rparr>\<rparr>"

definition plain_decoders :: vfs_decoders where
  "plain_decoders =
     \<lparr>vd_path = (\<lambda>_ a. Inr a), vd_read = (\<lambda>a. Inr \<lparr>ra_path = a, ra_offset = 0, ra_limit = 0\<rparr>),
      vd_find = (\<lambda>_. Inl ''bad''), vd_grep = (\<lambda>_. Inl ''bad''), vd_write = (\<lambda>_. Inl ''bad''), vd_edit = (\<lambda>_. Inl ''bad'')\<rparr>"

lemma log_handled:
  "handle log_files plain_decoders DeleteFile ''/docs/a'' [] = Some (ok_result ''removed'', [''/docs/a''])"
  "map_option fst (handle log_files plain_decoders DeleteFile ''/docs/secret'' []) = Some (error_result ''not that one'')"
  "map_option fst (handle log_files plain_decoders DeleteFile ''/docs/frozen'' []) = Some (error_result ''delete_file: frozen'')"
  by code_simp+

theorem file_tools_guarded_witness:
  "\<exists>m f. reg_resolve (\<lambda>s. s) ''/docs/a'' (fl_registry log_files) = Some m \<and> asWritableProvider (mt_provider m) = Some f
     \<and> fst (wr_writable f ''/docs/a'' [])"
proof -
  have "call_path plain_decoders DeleteFile ''/docs/a'' = Some ''/docs/a''" by (simp add: plain_decoders_def)
  moreover have "vt_lower (fl_text log_files) = (\<lambda>s. s)" by (simp add: log_files_def)
  ultimately show ?thesis
    using file_tools_guarded [OF log_handled(1)] by (auto simp: changes_files_def)
qed

section \<open>What the single-file adapter does with a query\<close>

lemma file_hits_flags:
  "file_hits vt p (q\<lparr>gq_regexp := b, gq_caseSensitive := c, gq_globs := g\<rparr>) k hits ls = file_hits vt p q k hits ls"
  by (induction vt p q k hits ls rule: file_hits.induct) simp_all

text \<open>A single file is searched for literal text whatever the query asks, and each hit counts as a file.\<close>

lemma adapter_ignores_flags:
  "adapter_grep vt f p (q\<lparr>gq_regexp := b, gq_caseSensitive := c, gq_globs := g\<rparr>) = adapter_grep vt f p q"
  by (simp add: fun_eq_iff adapter_grep_def file_hits_flags split: prod.split sum.split)

lemma adapter_counts_hits_as_files:
  "adapter_grep vt f p q w = (Inr res, w') \<Longrightarrow> gr_files res = int (length (gr_hits res))"
  by (auto simp: adapter_grep_def split: prod.splits sum.splits)

end
