(* ===== verification/SubagentContext.thy ===== *)
theory SubagentContext
  imports Tools Utf8
begin

text \<open>
  What a sub-agent is told and what its report becomes (\<open>subagent/subagent_context.go\<close>,
  \<open>subagent/subagent_leak.go\<close>): the transcript of the parent's messages, the selections a caller can
  share, the task message, previews, and the cut of a report at a leaked tool-call envelope.
\<close>

section \<open>Transcripts\<close>

definition maxSharedContextRunes :: int where "maxSharedContextRunes = 200000"

text \<open>\<open>strings.ToUpper\<close> of one byte: a byte that is no ASCII is not valid UTF-8 on its own.\<close>

definition upper_byte :: "char \<Rightarrow> string" where
  "upper_byte c =
     (if byte c \<ge> 128 then encode_rune RuneError
      else if 97 \<le> byte c \<and> byte c \<le> 122 then [char_of (byte c - 32)] else [c])"

fun transcriptLabel :: "Role \<Rightarrow> string" where
  "transcriptLabel RoleSystem = ''System''"
| "transcriptLabel RoleUser = ''User''"
| "transcriptLabel RoleAssistant = ''Assistant''"
| "transcriptLabel RoleTool = ''Tool result''"
| "transcriptLabel (RoleOther r) = (case r of [] \<Rightarrow> ''Message'' | c # t \<Rightarrow> upper_byte c @ t)"

definition transcript_call :: "ToolCall \<Rightarrow> string" where
  "transcript_call c =
     ''[requested tool '' @ tc_name c @
     (let a = trim_space (tc_args c) in if a \<noteq> [] then '' with '' @ a else []) @ '']'' @ [NL]"

definition transcript_message :: "Message \<Rightarrow> string" where
  "transcript_message m =
     transcriptLabel (msg_role m) @ '':'' @ [NL] @
     (let c = trim_space (msg_content m) in if c \<noteq> [] then c @ [NL] else []) @
     concat (map transcript_call (msg_calls m)) @ [NL]"

definition capRunesTail :: "string \<Rightarrow> int \<Rightarrow> string" where
  "capRunesTail s maxRunes =
     (let r = runes s
      in if maxRunes \<le> 0 then s
         else if int (length r) \<le> maxRunes then s
         else ''[... earlier shared context truncated ...]'' @ [NL, NL] @
           trim_space (encode_runes (drop (length r - nat maxRunes) r)))"

definition RenderTranscript :: "Message list \<Rightarrow> string" where
  "RenderTranscript msgs = capRunesTail (trim_space (concat (map transcript_message msgs))) maxSharedContextRunes"

section \<open>Selections\<close>

definition SelectLastN :: "'m list \<Rightarrow> int \<Rightarrow> 'm list" where
  "SelectLastN msgs n =
     (if n \<le> 0 \<or> msgs = [] then []
      else if n \<ge> int (length msgs) then msgs
      else drop (length msgs - nat n) msgs)"

definition choose_position :: "nat \<Rightarrow> int \<Rightarrow> nat set \<Rightarrow> nat set" where
  "choose_position len idx chosen =
     (if idx < 1 then chosen
      else let pos = int len - idx
           in if pos \<ge> 0 \<and> pos < int len then insert (nat pos) chosen else chosen)"

definition chosen_positions :: "nat \<Rightarrow> int list \<Rightarrow> nat set" where
  "chosen_positions len indices = fold (choose_position len) indices {}"

definition SelectByEndIndices :: "'m list \<Rightarrow> int list \<Rightarrow> 'm list" where
  "SelectByEndIndices msgs indices =
     (let chosen = chosen_positions (length msgs) indices
      in map snd (filter (\<lambda>(i, _). i \<in> chosen) (enumerate 0 msgs)))"

section \<open>Tasks and previews\<close>

definition composeSubagentTask :: "string \<Rightarrow> string \<Rightarrow> string" where
  "composeSubagentTask block prompt =
     (if trim_space block = [] then prompt
      else ''Context shared from the parent conversation (background only):'' @ [NL, NL] @ block @
        [NL, NL] @ ''----------------------------------------'' @ [NL, NL] @ ''Your task:'' @ [NL, NL] @ prompt)"

definition subagentPreviewMaxRunes :: nat where "subagentPreviewMaxRunes = 160"

text \<open>\<open>strings.Fields\<close>, with the word read so far.\<close>

function fields_from :: "string \<Rightarrow> string \<Rightarrow> string list" where
  "fields_from w [] = (if w = [] then [] else [w])"
| "fields_from w (c # s) =
     (case find (\<lambda>p. p \<noteq> [] \<and> has_prefix p (c # s)) space_seqs of
        Some p \<Rightarrow> (if w = [] then [] else [w]) @ fields_from [] (drop (length p) (c # s))
      | None \<Rightarrow> fields_from (w @ [c]) s)"
  by pat_completeness auto
termination
  by (relation "measure (\<lambda>(w, s). length s)") (auto simp: find_Some_iff)

definition subagentPreview :: "string \<Rightarrow> string" where
  "subagentPreview s0 =
     (let s = join_with '' '' (fields_from [] s0); r = runes s
      in if length r > subagentPreviewMaxRunes
         then encode_runes (take (subagentPreviewMaxRunes - 3) r) @ ''...'' else s)"

definition thinkingText :: "ThinkingBlock list \<Rightarrow> string" where
  "thinkingText blocks = join_with [NL] (filter (\<lambda>t. t \<noteq> []) (map tb_text blocks))"

section \<open>Leaked tool calls\<close>

definition leakedToolCallOpeners :: "string list" where
  "leakedToolCallOpeners =
     [''<|tool_calls|>'',
      ''<|tool_call|>'',
      ''<tool_call>'',
      ''<tool_calls>'',
      ''<|python_tag|>'',
      ''<function='',
      ''<'' @ [CHR 0xEF, CHR 0xBD, CHR 0x9C] @ ''tool'' @ [CHR 0xE2, CHR 0x96, CHR 0x81] @
     ''calls'' @ [CHR 0xE2, CHR 0x96, CHR 0x81] @ ''begin'' @ [CHR 0xEF, CHR 0xBD, CHR 0x9C] @ ''>'',
      ''<'' @ [CHR 0xEF, CHR 0xBD, CHR 0x9C, CHR 0xEF, CHR 0xBD, CHR 0x9C] @ ''DSML'' @
     [CHR 0xEF, CHR 0xBD, CHR 0x9C, CHR 0xEF, CHR 0xBD, CHR 0x9C] @ ''tool_calls>'',
      ''<'' @ [CHR 0xEF, CHR 0xBD, CHR 0x9C, CHR 0xEF, CHR 0xBD, CHR 0x9C] @ ''DSML'' @
     [CHR 0xEF, CHR 0xBD, CHR 0x9C, CHR 0xEF, CHR 0xBD, CHR 0x9C] @ ''invoke'']"

definition SubagentCutOffNote :: string where
  "SubagentCutOffNote =
     [NL, NL] @
     ''[cut short: the sub-agent tried to call another tool instead of answering, so everything '' @
     ''above is partial working notes, NOT its conclusions. Relaunch it with a narrower task if '' @
     ''you need the rest.]''"

definition SubagentNoReportText :: string where
  "SubagentNoReportText =
     ''the sub-agent produced no report: it ended by trying to call another tool instead of '' @
     ''answering. Relaunch it with a narrower task.''"

definition hasLeakedOpener :: "string \<Rightarrow> bool" where
  "hasLeakedOpener line \<longleftrightarrow> (\<exists>opener\<in>set leakedToolCallOpeners. has_prefix opener line)"

definition blank_left :: "string \<Rightarrow> string" where
  "blank_left = dropWhile (\<lambda>c. c \<in> {CHR '' '', CHR 0x09})"

text \<open>The offset of the first line that begins with an opener, lines starting at offset \<open>i\<close>.\<close>

fun leak_at :: "nat \<Rightarrow> string list \<Rightarrow> nat option" where
  "leak_at i [] = None"
| "leak_at i (l # ls) = (if hasLeakedOpener (blank_left l) then Some i else leak_at (i + length l + 1) ls)"

definition splitLeakedToolCalls :: "string \<Rightarrow> string \<times> bool" where
  "splitLeakedToolCalls s =
     (case leak_at 0 (split_char NL s) of
        None \<Rightarrow> (s, False)
      | Some k \<Rightarrow>
          (rev (dropWhile (\<lambda>c. c \<in> {CHR '' '', CHR 0x09, NL, CHR 0x0D}) (rev (take k s))), True))"

definition minReportRunes :: nat where "minReportRunes = 40"

definition subagentReport :: "string \<Rightarrow> ToolResult" where
  "subagentReport final =
     (let answer = trim_space final
      in case splitLeakedToolCalls answer of
           (clean, leaked) \<Rightarrow>
             if \<not> leaked then \<lparr>tr_content = answer, tr_parts = [], tr_is_error = False\<rparr>
             else let clean = trim_space clean
                  in if rune_count clean < minReportRunes then error_result SubagentNoReportText
                     else error_result (clean @ SubagentCutOffNote))"

section \<open>Facts\<close>

lemma SelectLastN_suffix: "\<exists>k. SelectLastN msgs n = drop k msgs"
  unfolding SelectLastN_def by (metis drop0 drop_all order_refl)

lemma choose_position_iff:
  "i \<in> choose_position len idx chosen \<longleftrightarrow> i \<in> chosen \<or> (i < len \<and> int (len - i) = idx)"
  unfolding choose_position_def Let_def by (cases "1 \<le> idx \<and> idx \<le> int len") auto

lemma chosen_positions_iff:
  "i \<in> chosen_positions len indices \<longleftrightarrow> i < len \<and> int (len - i) \<in> set indices"
proof -
  have "i \<in> fold (choose_position len) indices A \<longleftrightarrow> i \<in> A \<or> (i < len \<and> int (len - i) \<in> set indices)" for A
    by (induction indices arbitrary: A) (auto simp: choose_position_iff)
  then show ?thesis by (simp add: chosen_positions_def)
qed

lemma leak_at_None: "leak_at i ls = None \<longleftrightarrow> (\<forall>l\<in>set ls. \<not> hasLeakedOpener (blank_left l))"
  by (induction ls arbitrary: i) auto

text \<open>A report is passed on as an answer only when no line of it opens a tool-call envelope.\<close>

lemma subagentReport_answer:
  "\<not> tr_is_error (subagentReport final) \<longleftrightarrow>
     (\<forall>l\<in>set (split_char NL (trim_space final)). \<not> hasLeakedOpener (blank_left l))"
  by (auto simp: subagentReport_def splitLeakedToolCalls_def Let_def leak_at_None [symmetric, of _ 0] split: option.split)

end
