(* ===== verification/SubagentTool.thy ===== *)
theory SubagentTool
  imports SubagentContext SubagentRuns
begin

text \<open>
  The sub-agent tool (\<open>subagent/subagent.go\<close>, \<open>subagent/subagent_run.go\<close>): which tools a sub-agent may
  be granted, what of the parent's conversation it is shown, one run of it under its concurrency slot,
  and the asynchronous launch that reports through the registry of \<open>SubagentRuns\<close>. The nested session
  and the one-shot summary call are functions of a world, and so are the concurrency gate and the
  clock; any of the calls may panic. Decoding the arguments, \<open>strings.ToLower\<close>, \<open>strconv.Quote\<close> and the
  specialised JSON schema are parameters.
\<close>

section \<open>Configuration\<close>

datatype 'a outcome = Returned 'a | Panicked string

record subagentArgs =
  sg_description :: string
  sg_prompt :: string
  sg_shareContext :: string
  sg_contextMessageCount :: int
  sg_contextMessageIndices :: "int list"
  sg_customContext :: string
  sg_allowedTools :: "string list"

record 'w child_config =
  ch_callID :: string
  ch_tools :: "'w Tools"
  ch_unknown :: "string \<Rightarrow> string"
  ch_model :: string
  ch_system :: string

text \<open>
  The provider as the tool uses it. A failed one-shot call may carry a completion, a failed child run
  the usages of a result.
\<close>

record 'w sub_provider =
  sp_oneShot :: "string \<Rightarrow> string \<Rightarrow> string \<Rightarrow> 'w \<Rightarrow> ((go_error \<times> Completion option) + Completion) outcome \<times> 'w"
  sp_child :: "'w child_config \<Rightarrow> string \<Rightarrow> 'w \<Rightarrow> ((go_error \<times> Usage list) + (Usage list \<times> string)) outcome \<times> 'w"

record 'w SubagentConfig =
  sc_provider :: "'w sub_provider option"
  sc_model :: string
  sc_tools :: "'w Tools"
  sc_parentSystem :: string
  sc_parentMessages :: "Message list"
  sc_acquire :: "'w \<Rightarrow> go_error option \<times> 'w"
  sc_release :: "'w \<Rightarrow> 'w"
  sc_systemPrompt :: string
  sc_lower :: "string \<Rightarrow> string"
  sc_quote :: "string \<Rightarrow> string"
  sc_clock :: "'w \<Rightarrow> int"

definition SubagentToolName :: string where "SubagentToolName = ''run_subagent''"

definition DefaultSubagentSystemPrompt :: string where
  "DefaultSubagentSystemPrompt =
     ''You are a sub-agent launched by another assistant to carry out one focused, read-only '' @
     ''task. You cannot modify anything; you have only read-only tools (web and repository '' @
     ''access) to gather information. Work autonomously '' @ [CHR 0xE2, CHR 0x80, CHR 0x94] @
     '' you cannot ask follow-up questions, and you do not see the parent conversation, only '' @
     ''the task below. Use the available tools as needed, then return a single, self-contained '' @
     ''final report that directly answers the task: give the concrete findings the calling '' @
     ''assistant needs, not a narration of your process. Be concise and factual.''"

definition sub_system :: "'w SubagentConfig \<Rightarrow> string" where
  "sub_system cfg =
     (let system = trim_space (sc_systemPrompt cfg) in if system = [] then DefaultSubagentSystemPrompt else system)"

definition subagentToolDescription :: string where
  "subagentToolDescription =
     ''Launch a sub-agent: an autonomous helper that runs its own agentic loop in a separate, '' @
     ''throwaway context and reports back only its final answer. WHAT IT'' @ [CHR 0x27] @
     ''S FOR: offload a focused, self-contained, read-only task so all the intermediate work -- '' @
     ''many tool calls, large search results, long file dumps -- stays out of your context, and '' @
     ''only the distilled result comes back to you. This keeps your own context clean. '' @
     ''CAPABILITIES: the sub-agent runs on the same model. By DEFAULT it may use only read-only '' @
     ''tools and causes no side effect. It can use a NON-read-only (state-changing) tool only '' @
     ''if you explicitly grant that tool by name via '' @ [CHR 0x27] @ ''allowed_tools'' @
     [CHR 0x27] @
     '' (see below); otherwise it cannot write, edit, or change anything. FOCUS IT WITH '' @
     [CHR 0x27] @ ''allowed_tools'' @ [CHR 0x27] @
     '' (STRONGLY RECOMMENDED): by default the sub-agent may use EVERY read-only tool, and an '' @
     ''unfocused sub-agent tends to squander its limited turns wandering through irrelevant '' @
     ''tools -- most often defaulting to web searches even when the answer is in a repo or page '' @
     ''you already pointed it at. Pass '' @ [CHR 0x27] @ ''allowed_tools'' @ [CHR 0x27] @
     '' with the exact tool names (as they appear in your own tool list) the task actually '' @
     ''needs, and the sub-agent is offered ONLY those. Pin it to the smallest set that can do '' @
     ''the job; omit '' @ [CHR 0x27] @ ''allowed_tools'' @ [CHR 0x27] @
     '' only when the task genuinely needs the full read-only toolset. Naming a tool here is '' @
     ''ALSO the only way to grant a non-read-only tool. Restricting tools keeps the sub-agent '' @
     ''focused, faster, and cheaper. WHEN TO USE IT: multi-step research or exploration where '' @
     ''you mainly need the conclusion -- e.g. '' @ [CHR 0x27] @
     ''find where X is implemented across this repo and summarize how it works'' @ [CHR 0x27] @
     '', '' @ [CHR 0x27] @ ''read these pages and compare what they say about Y'' @ [CHR 0x27] @
     '', or any investigation that would otherwise flood your context with raw tool output. '' @
     ''WHEN NOT TO USE IT: a single quick lookup you can just do yourself in one tool call; a '' @
     ''state-changing task unless you deliberately grant the needed tool via '' @ [CHR 0x27] @
     ''allowed_tools'' @ [CHR 0x27] @
     '' (the sub-agent is read-only by default); or a task that depends on details from this '' @
     ''conversation (the sub-agent does NOT see it). HOW TO PROMPT IT: the sub-agent starts '' @
     ''fresh and cannot ask follow-up questions, so make '' @ [CHR 0x27] @ ''prompt'' @
     [CHR 0x27] @
     '' fully self-contained -- state exactly what to investigate and precisely what to report '' @
     ''back, in what form. SHARING CONTEXT: by default the sub-agent sees ONLY your prompt, not '' @
     ''this conversation. If it needs history, set '' @ [CHR 0x27] @ ''share_context'' @
     [CHR 0x27] @
     '' to share the full input context, the last N messages, specific recent messages, an '' @
     ''auto-generated summary, or your own custom text (see that parameter). Prefer a '' @
     ''self-contained prompt; widen the shared context only when the task truly depends on this '' @
     ''conversation. CONSTRAINTS: sub-agents run one at a time and this call blocks until the '' @
     ''sub-agent finishes; a sub-agent cannot launch further sub-agents.''"

section \<open>Tools a sub-agent may be granted\<close>

definition grantableTools :: "'w SubagentConfig \<Rightarrow> ToolDecl list" where
  "grantableTools cfg = filter (\<lambda>d. decl_name d \<noteq> SubagentToolName) (Decls (sc_tools cfg))"

definition has_suffix :: "string \<Rightarrow> string \<Rightarrow> bool" where
  "has_suffix suf s \<longleftrightarrow> has_prefix (rev suf) (rev s)"

text \<open>One requested name: what it adds to the chosen names and to the unknown ones.\<close>

definition resolve_request :: "string list \<Rightarrow> string \<Rightarrow> string set \<times> string list \<Rightarrow> string set \<times> string list" where
  "resolve_request available raw cu =
     (let req = trim_space raw; (chosen, unknown) = cu
      in if req = [] then cu
         else if req \<in> set available then (insert req chosen, unknown)
         else (case filter (\<lambda>adv. has_suffix (''__'' @ req) adv) available of
                 [h] \<Rightarrow> (insert h chosen, unknown)
               | _ \<Rightarrow> (chosen, unknown @ [req])))"

definition resolveAllowedTools :: "string list \<Rightarrow> string list \<Rightarrow> string + string list" where
  "resolveAllowedTools available requested =
     (if available = [] then
        Inl ''run_subagent: the sub-agent has no tools available, so allowed_tools cannot be applied -- omit it.''
      else case fold (resolve_request available) requested ({}, []) of
             (chosen, unknown) \<Rightarrow>
               if unknown \<noteq> [] then
                 Inl (''run_subagent: allowed_tools names no available tool: '' @ join_with '', '' unknown @
                   ''. Available tools: '' @ join_with '', '' available @
                   ''. Use these exact names, or omit allowed_tools to allow every read-only tool.'')
               else if chosen = {} then
                 Inl (''run_subagent: allowed_tools contained no usable tool names. Available tools: '' @
                   join_with '', '' available @ ''.'')
               else Inr (filter (\<lambda>n. n \<in> chosen) available))"

text \<open>The toolset of a run, and whether it was granted by name.\<close>

definition child_tools :: "'w SubagentConfig \<Rightarrow> string list \<Rightarrow> string + 'w Tools \<times> bool" where
  "child_tools cfg allowed =
     (if allowed = [] then Inr (ReadonlyTools (sc_tools cfg), False)
      else (case resolveAllowedTools (map decl_name (grantableTools cfg)) allowed of
              Inl terr \<Rightarrow> Inl terr
            | Inr keep \<Rightarrow> Inr (Subset (sc_tools cfg) keep, True)))"

definition unavailableTool :: "bool \<Rightarrow> string \<Rightarrow> string" where
  "unavailableTool granted name =
     (if granted then (''tool not in the sub-agent'' @ [CHR 0x27] @ ''s allowed set: '') @ name
      else ''tool not available to subagent (read-only tools only): '' @ name)"

definition tool_label :: "ToolDecl \<Rightarrow> string" where
  "tool_label d = decl_name d @ (if \<not> decl_readonly d then '' (modifies state)'' else [])"

definition allowedToolsDescription :: "ToolDecl list \<Rightarrow> string" where
  "allowedToolsDescription tools =
     ''Restrict the sub-agent to ONLY these tools, by their exact names. STRONGLY RECOMMENDED: '' @
     ''pin the sub-agent to just the tools its task needs so it stays focused and does not '' @
     ''waste its limited turns on irrelevant tools (e.g. running web searches when the answer '' @
     ''is in a repo or page you already gave it). By default the sub-agent gets only read-only '' @
     ''tools; naming a tool here is also how you grant a NON-read-only tool (flagged below) '' @
     ''when the task truly needs it. Omit to allow every read-only tool. Available tools: '' @
     join_with '', '' (map tool_label tools) @ ''.''"

text \<open>\<open>schema\<close> is the parameter schema specialised to the grantable tools.\<close>

definition sub_decl :: "(ToolDecl list \<Rightarrow> string) \<Rightarrow> 'w SubagentConfig \<Rightarrow> ToolDecl" where
  "sub_decl schema cfg =
     \<lparr>decl_name = SubagentToolName, decl_description = subagentToolDescription,
      decl_schema = schema (grantableTools cfg), decl_readonly = False, decl_destructive = None,
      decl_idempotent = False, decl_openWorld = None, decl_unvouched = False\<rparr>"

section \<open>Shared context\<close>

definition parentContext :: "'w SubagentConfig \<Rightarrow> Message list" where
  "parentContext cfg =
     (if sc_parentSystem cfg = [] then sc_parentMessages cfg
      else (empty_message RoleSystem)\<lparr>msg_content := sc_parentSystem cfg\<rparr> # sc_parentMessages cfg)"

definition contextSummarySystemPrompt :: string where
  "contextSummarySystemPrompt =
     ''You condense a conversation into a briefing for a sub-agent that will carry out a '' @
     ''related task. Capture the salient facts, decisions, constraints, and any specific '' @
     ''identifiers, names, or values the sub-agent will need to act correctly. Be faithful and '' @
     ''concise; omit pleasantries and meta-commentary. Output only the briefing.''"

definition generateContextSummary :: "'w sub_provider \<Rightarrow> string \<Rightarrow> Message list \<Rightarrow> 'w
    \<Rightarrow> (string \<times> Completion option \<times> go_error option) outcome \<times> 'w" where
  "generateContextSummary p model msgs w =
     (let transcript = RenderTranscript msgs
      in if trim_space transcript = [] then (Returned ([], None, None), w)
         else (case sp_oneShot p model contextSummarySystemPrompt
                      (''Conversation to brief the sub-agent on:'' @ [NL, NL] @ transcript) w of
                 (Panicked t, w) \<Rightarrow> (Panicked t, w)
               | (Returned (Inl (err, spent)), w) \<Rightarrow> (Returned ([], spent, Some err), w)
               | (Returned (Inr c), w) \<Rightarrow>
                   (Returned (trim_space (msg_content (co_message c)), Some c, None), w)))"

text \<open>The block, the briefing's completion and the misuse's text, empty when there is none.\<close>

definition buildContextBlock :: "'w SubagentConfig \<Rightarrow> 'w sub_provider \<Rightarrow> subagentArgs \<Rightarrow> 'w
    \<Rightarrow> (string \<times> Completion option \<times> string) outcome \<times> 'w" where
  "buildContextBlock cfg p inp w =
     (let mode = sc_lower cfg (trim_space (sg_shareContext inp))
      in if mode = [] \<or> mode = ''none'' then (Returned ([], None, []), w)
         else if mode = ''custom'' then
           (let c = trim_space (sg_customContext inp)
            in if c = [] then (Returned ([], None, ''share_context=custom requires custom_context text''), w)
               else (Returned (c, None, []), w))
         else if mode = ''full'' then (Returned (RenderTranscript (parentContext cfg), None, []), w)
         else if mode = ''last_n'' then
           (if sg_contextMessageCount inp \<le> 0 then
              (Returned ([], None, ''share_context=last_n requires context_message_count (a positive integer)''), w)
            else (Returned (RenderTranscript (SelectLastN (parentContext cfg) (sg_contextMessageCount inp)), None, []), w))
         else if mode = ''messages'' then
           (if sg_contextMessageIndices inp = [] then
              (Returned ([], None, ''share_context=messages requires context_message_indices (1 = the most recent message)''), w)
            else (Returned (RenderTranscript (SelectByEndIndices (parentContext cfg) (sg_contextMessageIndices inp)), None, []), w))
         else if mode = ''summary'' then
           (if parentContext cfg = [] then (Returned ([], None, []), w)
            else (case generateContextSummary p (sc_model cfg) (parentContext cfg) w of
                    (Panicked t, w) \<Rightarrow> (Panicked t, w)
                  | (Returned (summary, spent, err), w) \<Rightarrow>
                      (case err of
                         Some e \<Rightarrow> (Returned ([], spent, ''failed to summarize the parent conversation: '' @ error_text e), w)
                       | None \<Rightarrow> (Returned (summary, spent, []), w))))
         else (Returned ([], None, ''unknown share_context mode '' @ sc_quote cfg (sg_shareContext inp) @
                '' (want none, full, last_n, messages, summary, or custom)''), w))"

section \<open>One run\<close>

abbreviation failed_run :: "string \<Rightarrow> Usage list \<Rightarrow> (ToolResult \<times> Usage list) outcome" where
  "failed_run t spent \<equiv> Returned (error_result t, spent)"

definition run_child :: "'w SubagentConfig \<Rightarrow> 'w sub_provider \<Rightarrow> string \<Rightarrow> 'w Tools \<times> bool \<Rightarrow> Usage list \<Rightarrow> string \<Rightarrow> 'w
    \<Rightarrow> (ToolResult \<times> Usage list) outcome \<times> 'w" where
  "run_child cfg p callID tg spent task w =
     (case sp_child p \<lparr>ch_callID = callID, ch_tools = fst tg, ch_unknown = unavailableTool (snd tg),
                       ch_model = sc_model cfg, ch_system = sub_system cfg\<rparr> task w of
        (Panicked t, w) \<Rightarrow> (Panicked t, w)
      | (Returned (Inl (err, usages)), w) \<Rightarrow>
          (failed_run (''sub-agent failed: '' @ error_text err) (spent @ usages), w)
      | (Returned (Inr (usages, final)), w) \<Rightarrow> (Returned (subagentReport final, spent @ usages), w))"

definition runGated :: "'w SubagentConfig \<Rightarrow> string \<Rightarrow> subagentArgs \<Rightarrow> 'w \<Rightarrow> (ToolResult \<times> Usage list) outcome \<times> 'w" where
  "runGated cfg callID inp w =
     (case sc_provider cfg of
        None \<Rightarrow> (failed_run ''run_subagent is unavailable: no model is configured for the sub-agent'' [], w)
      | Some p \<Rightarrow>
          if sc_model cfg = [] then
            (failed_run ''run_subagent is unavailable: no model is configured for the sub-agent'' [], w)
          else if trim_space (sg_prompt inp) = [] then
            (failed_run ''run_subagent requires a non-empty prompt describing the task'' [], w)
          else (case child_tools cfg (sg_allowedTools inp) of
              Inl terr \<Rightarrow> (failed_run terr [], w)
            | Inr tg \<Rightarrow>
                (case buildContextBlock cfg p inp w of
                   (Panicked t, w) \<Rightarrow> (Panicked t, w)
                 | (Returned (block, brief, errMsg), w) \<Rightarrow>
                     let spent = (case brief of None \<Rightarrow> [] | Some c \<Rightarrow> [co_usage c])
                     in if errMsg \<noteq> [] then (failed_run errMsg spent, w)
                        else run_child cfg p callID tg spent (composeSubagentTask block (sg_prompt inp)) w)))"

definition sub_run_now :: "'w SubagentConfig \<Rightarrow> string \<Rightarrow> subagentArgs \<Rightarrow> 'w \<Rightarrow> ToolResult outcome \<times> 'w" where
  "sub_run_now cfg callID inp w =
     (case sc_acquire cfg w of
        (Some err, w) \<Rightarrow> (Returned (error_result (''run_subagent was cancelled before it could start: '' @ error_text err)), w)
      | (None, w) \<Rightarrow>
          (case runGated cfg callID inp w of
             (Panicked t, w) \<Rightarrow> (Panicked t, sc_release cfg w)
           | (Returned (r, _), w) \<Rightarrow> (Returned r, sc_release cfg w)))"

section \<open>The asynchronous launch\<close>

text \<open>
  What the goroutine of a launched sub-agent does: its calls on the registry, in order, and the world.
  On a return the report is recorded before the slot is released, on a panic after it.
\<close>

definition launched :: "'w SubagentConfig \<Rightarrow> string \<Rightarrow> subagentArgs \<Rightarrow> 'w \<Rightarrow> sub_op list \<times> 'w" where
  "launched cfg callID inp w =
     (case sc_acquire cfg w of
        (Some err, w) \<Rightarrow>
          ([OpComplete callID (''the sub-agent was cancelled while waiting for a free slot: '' @ error_text err) True []
              (sc_clock cfg w)], w)
      | (None, w) \<Rightarrow>
          (case runGated cfg callID inp w of
             (Panicked t, w) \<Rightarrow>
               let w = sc_release cfg w
               in ([OpMark callID, OpComplete callID (''the sub-agent crashed: '' @ t) True [] (sc_clock cfg w)], w)
           | (Returned (r, spent), w) \<Rightarrow>
               ([OpMark callID, OpComplete callID (tr_content r) (tr_is_error r) spent (sc_clock cfg w)],
                sc_release cfg w)))"

definition SubagentLaunchReceipt :: "string \<Rightarrow> string" where
  "SubagentLaunchReceipt description =
     (let what = trim_space description; what = (if what = [] then ''(no description given)'' else what)
      in ''Sub-agent launched: '' @ what @
         ''. It is running in the background and this call is already finished. Its report will be '' @
         ''delivered to you automatically as a new message in this conversation when it lands -- '' @
         ''there is nothing to poll and no way to wait for it here. Launch more sub-agents now if '' @
         ''other areas need covering, get on with work that does not depend on this one, or, if '' @
         ''nothing is left until the report arrives, say so in one short line and end your turn.'')"

text \<open>
  The tool itself: without a registry the run is the call, with one the call registers the run, starts
  its goroutine and answers with a receipt. \<open>dec\<close> decodes the arguments.
\<close>

definition sub_execute :: "'w SubagentConfig \<Rightarrow> (string \<Rightarrow> string + subagentArgs) \<Rightarrow> SubagentRuns option \<Rightarrow> string \<Rightarrow> string \<Rightarrow> 'w
    \<Rightarrow> (ToolResult outcome \<times> SubagentRuns option \<times> (string \<times> subagentArgs) option) \<times> 'w" where
  "sub_execute cfg dec runs callID args w =
     (case dec args of
        Inl err \<Rightarrow> ((Returned (error_result (''invalid run_subagent arguments: '' @ err)), runs, None), w)
      | Inr inp \<Rightarrow>
          (case runs of
             None \<Rightarrow> (case sub_run_now cfg callID inp w of (r, w) \<Rightarrow> ((r, None, None), w))
           | Some reg \<Rightarrow>
               let (i, reg) = (if callID = [] then nextID reg else (callID, reg));
                   reg = snd (Launch i (sg_description inp) (sg_prompt inp) (sc_clock cfg w) reg)
               in ((Returned \<lparr>tr_content = SubagentLaunchReceipt (sg_description inp), tr_parts = [], tr_is_error = False\<rparr>,
                    Some reg, Some (i, inp)), w)))"

section \<open>Telemetry\<close>

datatype activity_kind = ActTurn | ActToolCall | ActToolResult | ActText | ActThinking | ActTurnEnd

record SubagentActivity =
  ac_callID :: string
  ac_kind :: activity_kind
  ac_turn :: int
  ac_tool :: string
  ac_detail :: string
  ac_content :: string
  ac_isError :: bool
  ac_completion :: "Completion option"

definition blank_activity :: "string \<Rightarrow> activity_kind \<Rightarrow> SubagentActivity" where
  "blank_activity callID k = \<lparr>ac_callID = callID, ac_kind = k, ac_turn = 0, ac_tool = [], ac_detail = [],
     ac_content = [], ac_isError = False, ac_completion = None\<rparr>"

definition act_turn :: "string \<Rightarrow> int \<Rightarrow> SubagentActivity" where
  "act_turn callID turn = (blank_activity callID ActTurn)\<lparr>ac_turn := turn\<rparr>"

definition act_tool_call :: "string \<Rightarrow> ToolCall \<Rightarrow> SubagentActivity" where
  "act_tool_call callID call =
     (blank_activity callID ActToolCall)\<lparr>ac_tool := tc_name call, ac_detail := subagentPreview (tc_args call),
        ac_content := tc_args call\<rparr>"

definition act_tool_result :: "string \<Rightarrow> ToolCall \<Rightarrow> ToolResult \<Rightarrow> SubagentActivity" where
  "act_tool_result callID call r =
     (blank_activity callID ActToolResult)\<lparr>ac_tool := tc_name call, ac_detail := subagentPreview (tr_content r),
        ac_content := tr_content r, ac_isError := tr_is_error r\<rparr>"

definition act_turn_end :: "string \<Rightarrow> int \<Rightarrow> Completion option \<Rightarrow> SubagentActivity list" where
  "act_turn_end callID turn spent =
     (case spent of
        None \<Rightarrow> []
      | Some c \<Rightarrow>
          let think = thinkingText (msg_thinking (co_message c)); txt = msg_content (co_message c)
          in (if think \<noteq> [] then [(blank_activity callID ActThinking)\<lparr>ac_turn := turn, ac_detail := subagentPreview think,
                ac_content := think\<rparr>] else []) @
             (if trim_space txt \<noteq> [] then [(blank_activity callID ActText)\<lparr>ac_turn := turn, ac_detail := subagentPreview txt,
                ac_content := txt\<rparr>] else []) @
             [(blank_activity callID ActTurnEnd)\<lparr>ac_turn := turn, ac_completion := Some c\<rparr>])"

section \<open>What a sub-agent may use\<close>

text \<open>A requested name grants a tool: its exact name, or its bare name when exactly one tool has it.\<close>

definition grants :: "string list \<Rightarrow> string \<Rightarrow> string \<Rightarrow> bool" where
  "grants available raw n \<longleftrightarrow> trim_space raw \<noteq> [] \<and> n \<in> set available
     \<and> (n = trim_space raw \<or> filter (\<lambda>adv. has_suffix (''__'' @ trim_space raw) adv) available = [n])"

lemma resolve_request_grants:
  assumes "resolve_request available raw (c, u) = (c', u')" "n \<in> c'"
  shows "n \<in> c \<or> grants available raw n"
proof (cases "trim_space raw = [] \<or> trim_space raw \<in> set available")
  case True
  then show ?thesis using assms by (auto simp: resolve_request_def grants_def Let_def split: if_splits)
next
  case False
  show ?thesis
  proof (cases "\<exists>h. filter (\<lambda>adv. has_suffix (''__'' @ trim_space raw) adv) available = [h]")
    case True
    then obtain h where h: "filter (\<lambda>adv. has_suffix (''__'' @ trim_space raw) adv) available = [h]" by blast
    then have "h \<in> set available" by (metis filter_is_subset list.set_intros(1) subsetD)
    with h False assms show ?thesis by (auto simp: resolve_request_def grants_def Let_def)
  next
    case none: False
    then have "c' = c" using False assms by (auto simp: resolve_request_def Let_def split: list.splits)
    with assms(2) show ?thesis by simp
  qed
qed

lemma resolve_requests_grant:
  "fold (resolve_request available) reqs (c, u) = (c', u') \<Longrightarrow> n \<in> c' \<Longrightarrow> n \<in> c \<or> (\<exists>raw\<in>set reqs. grants available raw n)"
proof (induction reqs arbitrary: c u)
  case (Cons raw reqs)
  obtain c1 u1 where r: "resolve_request available raw (c, u) = (c1, u1)" by (cases "resolve_request available raw (c, u)")
  then have "n \<in> c1 \<or> (\<exists>x\<in>set reqs. grants available x n)" using Cons by simp
  then show ?case using resolve_request_grants [OF r] by auto
qed simp

lemma resolveAllowedTools_grants:
  assumes "resolveAllowedTools available requested = Inr keep" "n \<in> set keep"
  shows "\<exists>raw\<in>set requested. grants available raw n"
proof -
  obtain c u where f: "fold (resolve_request available) requested ({}, []) = (c, u)"
    by (cases "fold (resolve_request available) requested ({}, [])")
  then have "n \<in> c" using assms by (auto simp: resolveAllowedTools_def split: if_splits)
  with resolve_requests_grant [OF f] show ?thesis by auto
qed

text \<open>
  C29. A sub-agent is offered a tool only in one of two ways: no tools were named and the tool is
  read-only, or the caller named it, by its exact name or by a bare name that fits it alone. Naming
  tools never grants the sub-agent tool itself.
\<close>
theorem subagent_tools_granted:
  assumes "child_tools cfg allowed = Inr (tools, granted)" "Some t \<in> set tools"
  shows "(allowed = [] \<and> \<not> granted \<and> decl_readonly (t_decl t))
    \<or> (granted \<and> decl_name (t_decl t) \<noteq> ''run_subagent''
        \<and> (\<exists>raw\<in>set allowed. let req = trim_space raw; names = map decl_name (grantableTools cfg)
             in req \<noteq> [] \<and> (decl_name (t_decl t) = req
               \<or> filter (\<lambda>adv. has_suffix (''__'' @ req) adv) names = [decl_name (t_decl t)])))"
proof (cases "allowed = []")
  case True
  then show ?thesis using assms by (auto simp: child_tools_def ReadonlyTools_def)
next
  case False
  then obtain keep where keep: "resolveAllowedTools (map decl_name (grantableTools cfg)) allowed = Inr keep"
    "tools = Subset (sc_tools cfg) keep" "granted"
    using assms(1) by (auto simp: child_tools_def split: sum.splits)
  then have "decl_name (t_decl t) \<in> set keep" using assms(2) by (auto simp: Subset_def split: if_splits)
  from resolveAllowedTools_grants [OF keep(1) this] obtain raw where raw: "raw \<in> set allowed"
    "grants (map decl_name (grantableTools cfg)) raw (decl_name (t_decl t))" by blast
  then have "decl_name (t_decl t) \<noteq> ''run_subagent''"
    by (auto simp: grants_def grantableTools_def SubagentToolName_def)
  with raw keep(3) show ?thesis unfolding grants_def Let_def by blast
qed

section \<open>Every launch reports\<close>

text \<open>\<open>held\<close> counts the slots taken in a world where only the gate takes and returns them.\<close>

definition counts_slots :: "'w SubagentConfig \<Rightarrow> ('w \<Rightarrow> int) \<Rightarrow> bool" where
  "counts_slots cfg held \<longleftrightarrow>
     (\<forall>w. held (snd (sc_acquire cfg w)) = held w + (if fst (sc_acquire cfg w) = None then 1 else 0))
     \<and> (\<forall>w. held (sc_release cfg w) = held w - 1)
     \<and> (\<forall>p. sc_provider cfg = Some p \<longrightarrow>
          (\<forall>a b c w. held (snd (sp_oneShot p a b c w)) = held w) \<and> (\<forall>a b w. held (snd (sp_child p a b w)) = held w))"

lemma summary_slots:
  assumes "counts_slots cfg held" "sc_provider cfg = Some p"
  shows "held (snd (generateContextSummary p model msgs w)) = held w"
proof -
  have "held (snd (sp_oneShot p a b c w)) = held w" for a b c using assms by (simp add: counts_slots_def)
  then show ?thesis
    by (auto simp: generateContextSummary_def Let_def split: prod.split outcome.split sum.split)
      (metis snd_conv)+
qed

lemma block_slots:
  assumes "counts_slots cfg held" "sc_provider cfg = Some p"
  shows "held (snd (buildContextBlock cfg p inp w)) = held w"
proof -
  obtain out v where s: "generateContextSummary p (sc_model cfg) (parentContext cfg) w = (out, v)"
    by (cases "generateContextSummary p (sc_model cfg) (parentContext cfg) w")
  then have "held v = held w" using summary_slots [OF assms] by (metis snd_conv)
  with s show ?thesis
    by (auto simp: buildContextBlock_def Let_def split: outcome.split option.split)
qed

lemma child_slots:
  assumes "counts_slots cfg held" "sc_provider cfg = Some p"
  shows "held (snd (run_child cfg p callID tg spent task w)) = held w"
proof -
  have "held (snd (sp_child p a b w)) = held w" for a b using assms by (simp add: counts_slots_def)
  then show ?thesis
    by (auto simp: run_child_def split: prod.split outcome.split sum.split) (metis snd_conv)+
qed

lemma gated_slots:
  assumes "counts_slots cfg held"
  shows "held (snd (runGated cfg callID inp w)) = held w"
proof (cases "sc_provider cfg")
  case (Some p)
  obtain out v where b: "buildContextBlock cfg p inp w = (out, v)" by (cases "buildContextBlock cfg p inp w")
  then have "held v = held w" using block_slots [OF assms Some] by (metis snd_conv)
  with b Some child_slots [OF assms Some] show ?thesis
    by (auto simp: runGated_def Let_def split: outcome.split sum.split)
qed (simp add: runGated_def)

lemma launched_ops:
  obtains pre body e us now where "fst (launched cfg callID inp w) = pre @ [OpComplete callID body e us now]"
    "pre = [] \<or> pre = [OpMark callID]"
proof -
  obtain a v where a: "sc_acquire cfg w = (a, v)" by (cases "sc_acquire cfg w")
  obtain out u where g: "runGated cfg callID inp v = (out, u)" by (cases "runGated cfg callID inp v")
  show thesis
  proof (cases a)
    case None
    show thesis
    proof (cases out)
      case (Returned x)
      with None a g have "fst (launched cfg callID inp w) = [OpMark callID]
          @ [OpComplete callID (tr_content (fst x)) (tr_is_error (fst x)) (snd x) (sc_clock cfg u)]"
        by (cases x) (simp add: launched_def)
      then show thesis using that by blast
    next
      case (Panicked t)
      with None a g have "fst (launched cfg callID inp w) = [OpMark callID]
          @ [OpComplete callID (''the sub-agent crashed: '' @ t) True [] (sc_clock cfg (sc_release cfg u))]"
        by (simp add: launched_def Let_def)
      then show thesis using that by blast
    qed
  next
    case (Some err)
    with a show thesis by (intro that [of "[]"]) (auto simp: launched_def)
  qed
qed

text \<open>
  C30. A launched sub-agent reports exactly once, on every path: refused a slot, failed, answered or
  crashed. Its last act on the registry is the report; if it is still registered then, it is taken off
  the active runs and its report waits to be collected. And it gives back the slot it took.
\<close>
theorem launched_reports_once:
  assumes "counts_slots cfg held" "map_of (sr_active (fst (sub_run history))) callID \<noteq> None"
  shows "\<exists>pre body e us now. fst (launched cfg callID inp w) = pre @ [OpComplete callID body e us now]
      \<and> (\<forall>op\<in>set pre. op = OpMark callID)
      \<and> map_of (sr_active (fst (sub_run (history @ [OpComplete callID body e us now])))) callID = None
      \<and> (\<exists>rep. sr_ready (fst (sub_run (history @ [OpComplete callID body e us now]))) = sr_ready (fst (sub_run history)) @ [rep]
            \<and> rep_callID rep = callID \<and> rep_text rep = body \<and> rep_isError rep = e)
      \<and> held (snd (launched cfg callID inp w)) = held w"
proof -
  obtain pre body e us now where ops: "fst (launched cfg callID inp w) = pre @ [OpComplete callID body e us now]"
    "pre = [] \<or> pre = [OpMark callID]"
    by (rule launched_ops)
  obtain r l where rl: "sub_run history = (r, l)" by (cases "sub_run history")
  have run: "sub_run (history @ [op]) = sub_do op (r, l)" for op using rl by (simp add: sub_run_def)
  obtain x where x: "map_of (sr_active r) callID = Some x" using assms(2) rl by auto
  have "held (snd (launched cfg callID inp w)) = held w"
  proof -
    obtain a v where a: "sc_acquire cfg w = (a, v)" by (cases "sc_acquire cfg w")
    then have v: "held v = held w + (if a = None then 1 else 0)"
      using assms(1) unfolding counts_slots_def by (metis fst_conv snd_conv)
    obtain out u where g: "runGated cfg callID inp v = (out, u)" by (cases "runGated cfg callID inp v")
    then have "held u = held v" using gated_slots [OF assms(1)] by (metis snd_conv)
    moreover have "held (sc_release cfg u) = held u - 1" using assms(1) by (simp add: counts_slots_def)
    ultimately show ?thesis using a g v
      by (auto simp: launched_def Let_def split: option.split outcome.split)
  qed
  moreover have "map_of (sr_active (fst (sub_run (history @ [OpComplete callID body e us now])))) callID = None"
    by (simp add: run Complete_def complete_locked_def x poke_def Let_def delete_conv')
  moreover have "\<exists>rep. sr_ready (fst (sub_run (history @ [OpComplete callID body e us now]))) = sr_ready (fst (sub_run history)) @ [rep]
      \<and> rep_callID rep = callID \<and> rep_text rep = body \<and> rep_isError rep = e"
    by (simp add: run Complete_def complete_locked_def x poke_def Let_def rl)
  ultimately show ?thesis using ops by (intro exI [of _ pre] exI [of _ body] exI [of _ e] exI [of _ us] exI [of _ now]) auto
qed

section \<open>An example\<close>

definition desk_tool :: "string \<Rightarrow> bool \<Rightarrow> int Tool" where
  "desk_tool name ro =
     \<lparr>t_decl = \<lparr>decl_name = name, decl_description = [], decl_schema = [], decl_readonly = ro, decl_destructive = None,
        decl_idempotent = False, decl_openWorld = None, decl_unvouched = False\<rparr>,
      t_execute = (\<lambda>_ _ w. ((error_result ''not here'', None), w)), t_hooks = []\<rparr>"

definition crash_provider :: "int sub_provider" where
  "crash_provider = \<lparr>sp_oneShot = (\<lambda>_ _ _ w. (Panicked ''no summary'', w)), sp_child = (\<lambda>_ _ w. (Panicked ''boom'', w))\<rparr>"

definition team_cfg :: "int SubagentConfig" where
  "team_cfg =
     \<lparr>sc_provider = Some crash_provider, sc_model = ''m'',
      sc_tools = [Some (desk_tool ''fs__read'' True), Some (desk_tool ''fs__write'' False), Some (desk_tool ''run_subagent'' False)],
      sc_parentSystem = [], sc_parentMessages = [],
      sc_acquire = (\<lambda>w. (None, w + 1)), sc_release = (\<lambda>w. w - 1), sc_systemPrompt = [], sc_lower = (\<lambda>s. s),
      sc_quote = (\<lambda>s. s), sc_clock = (\<lambda>w. 0)\<rparr>"

lemma team_names: "map decl_name (grantableTools team_cfg) = [''fs__read'', ''fs__write'']"
  by (simp add: grantableTools_def team_cfg_def desk_tool_def Decls_def SubagentToolName_def)

lemma team_resolve: "resolveAllowedTools [''fs__read'', ''fs__write''] [''write''] = Inr [''fs__write'']"
  by code_simp

lemma team_tools: "child_tools team_cfg [''write''] = Inr ([Some (desk_tool ''fs__write'' False)], True)"
  unfolding child_tools_def team_names team_resolve
  by (simp add: Subset_def team_cfg_def desk_tool_def)

theorem subagent_tools_granted_witness:
  "filter (\<lambda>adv. has_suffix (''__'' @ trim_space ''write'') adv) (map decl_name (grantableTools team_cfg)) = [''fs__write'']"
proof -
  have "trim_space ''write'' = ''write''" by code_simp
  moreover have "decl_name (t_decl (desk_tool ''fs__write'' False)) = ''fs__write''" by (simp add: desk_tool_def)
  ultimately show ?thesis
    using subagent_tools_granted [OF team_tools, of "desk_tool ''fs__write'' False"] by (simp add: Let_def)
qed

lemma team_slots: "counts_slots team_cfg (\<lambda>w. w)"
  by (simp add: counts_slots_def team_cfg_def crash_provider_def)

theorem launched_reports_once_witness:
  "\<exists>pre body e us now. fst (launched team_cfg ''a'' \<lparr>sg_description = [], sg_prompt = ''look'', sg_shareContext = ''none'',
      sg_contextMessageCount = 0, sg_contextMessageIndices = [], sg_customContext = [], sg_allowedTools = []\<rparr> 0)
      = pre @ [OpComplete ''a'' body e us now]
    \<and> map_of (sr_active (fst (sub_run ([OpLaunch ''a'' [] ''look'' 0] @ [OpComplete ''a'' body e us now])))) ''a'' = None"
proof -
  have "map_of (sr_active (fst (sub_run [OpLaunch ''a'' [] ''look'' 0]))) ''a'' \<noteq> None"
    by (simp add: sub_run_def Launch_def NewSubagentRuns_def update_of_def)
  from launched_reports_once [OF team_slots this] show ?thesis by blast
qed

end
