(* ===== verification/Json.thy ===== *)
theory Json
  imports JsonText
begin

text \<open>
  JSON values and their text as \<open>encoding/json\<close> reads and writes them: the grammar of its scanner (the
  four white-space bytes, number literals kept as text, at most 10000 open brackets for
  \<open>json.Unmarshal\<close>), strings decoded as in \<open>Utf8\<close> and quoted as in \<open>JsonText\<close>. An object is the list
  of its members in order; a Go map is one whose keys are sorted and distinct, as \<open>json.Marshal\<close>
  writes it.
\<close>

section \<open>Values\<close>

datatype json =
    JNull
  | JBool bool
  | JNum string
  | JStr string
  | JArr "json list"
  | JObj "(string \<times> json) list"

type_synonym jobject = "(string \<times> json) list"

text \<open>A member of a Go map set: its place is by key, and an older member of the key is replaced.\<close>

fun jset :: "string \<Rightarrow> json \<Rightarrow> jobject \<Rightarrow> jobject" where
  "jset k v [] = [(k, v)]"
| "jset k v ((k', v') # m) =
     (if k = k' then (k, v) # m
      else if str_less k k' then (k, v) # (k', v') # m
      else (k', v') # jset k v m)"

definition jmap :: "(string \<times> json) list \<Rightarrow> jobject" where
  "jmap kvs = foldl (\<lambda>m (k, v). jset k v m) [] kvs"

lemma map_of_jset [simp]: "map_of (jset k v m) = (map_of m)(k \<mapsto> v)"
  by (induction k v m rule: jset.induct) (auto simp: fun_eq_iff)

lemma jset_not_Nil [simp]: "jset k v m \<noteq> []"
  by (induction k v m rule: jset.induct) auto

section \<open>Text\<close>

definition brace_open :: char where "brace_open = CHR 0x7B"
definition brace_close :: char where "brace_close = CHR 0x7D"
definition bracket_open :: char where "bracket_open = CHR 0x5B"
definition bracket_close :: char where "bracket_close = CHR 0x5D"
definition quote_char :: char where "quote_char = CHR 0x22"
definition comma :: char where "comma = CHR 0x2C"
definition colon :: char where "colon = CHR 0x3A"

fun json_text :: "json \<Rightarrow> string" where
  "json_text JNull = ''null''"
| "json_text (JBool b) = (if b then ''true'' else ''false'')"
| "json_text (JNum lit) = lit"
| "json_text (JStr s) = json_quote s"
| "json_text (JArr vs) = bracket_open # join_with [comma] (map json_text vs) @ [bracket_close]"
| "json_text (JObj ms) =
     brace_open # join_with [comma] (map (\<lambda>(k, v). json_quote k @ colon # json_text v) ms) @ [brace_close]"

section \<open>Reading\<close>

definition json_space :: "char \<Rightarrow> bool" where
  "json_space c \<longleftrightarrow> c = CHR 0x20 \<or> c = CHR 0x09 \<or> c = CHR 0x0D \<or> c = CHR 0x0A"

definition skip_ws :: "string \<Rightarrow> string" where
  "skip_ws s = dropWhile json_space s"

text \<open>The raw body of a string literal up to its closing quote, and the text after that.\<close>

fun lex_string :: "string \<Rightarrow> (string \<times> string) option" where
  "lex_string [] = None"
| "lex_string (c # s) =
     (if c = quote_char then Some ([], s)
      else if c = CHR 0x5C then
        (case s of [] \<Rightarrow> None | e # t \<Rightarrow> map_option (\<lambda>(b, r). (c # e # b, r)) (lex_string t))
      else map_option (\<lambda>(b, r). (c # b, r)) (lex_string s))"

definition lex_int :: "string \<Rightarrow> (string \<times> string) option" where
  "lex_int s =
     (case s of
        [] \<Rightarrow> None
      | c # r \<Rightarrow>
          if c = CHR ''0'' then Some ([c], r)
          else if is_digit c then Some (takeWhile is_digit s, dropWhile is_digit s)
          else None)"

definition lex_digits :: "string \<Rightarrow> (string \<times> string) option" where
  "lex_digits s = (if takeWhile is_digit s = [] then None else Some (takeWhile is_digit s, dropWhile is_digit s))"

definition lex_frac :: "string \<Rightarrow> (string \<times> string) option" where
  "lex_frac s =
     (case s of
        c # r \<Rightarrow> if c = CHR ''.'' then map_option (\<lambda>(d, r). (c # d, r)) (lex_digits r) else Some ([], s)
      | [] \<Rightarrow> Some ([], s))"

definition lex_exp :: "string \<Rightarrow> (string \<times> string) option" where
  "lex_exp s =
     (case s of
        c # r \<Rightarrow>
          if c = CHR ''e'' \<or> c = CHR ''E'' then
            (case r of
               g # r' \<Rightarrow>
                 if g = CHR ''+'' \<or> g = CHR ''-'' then map_option (\<lambda>(d, r). (c # g # d, r)) (lex_digits r')
                 else map_option (\<lambda>(d, r). (c # d, r)) (lex_digits r)
             | [] \<Rightarrow> None)
          else Some ([], s)
      | [] \<Rightarrow> Some ([], s))"

definition lex_then :: "(string \<Rightarrow> (string \<times> string) option) \<Rightarrow> (string \<Rightarrow> (string \<times> string) option)
    \<Rightarrow> string \<Rightarrow> (string \<times> string) option" where
  "lex_then f g s =
     (case f s of None \<Rightarrow> None
      | Some (a, r) \<Rightarrow> (case g r of None \<Rightarrow> None | Some (b, r) \<Rightarrow> Some (a @ b, r)))"

definition lex_sign :: "string \<Rightarrow> (string \<times> string) option" where
  "lex_sign s = (case s of c # r \<Rightarrow> if c = CHR ''-'' then Some ([c], r) else Some ([], s) | [] \<Rightarrow> Some ([], s))"

definition lex_number :: "string \<Rightarrow> (string \<times> string) option" where
  "lex_number = lex_then lex_sign (lex_then lex_int (lex_then lex_frac lex_exp))"

definition literal_after :: "string \<Rightarrow> json \<Rightarrow> string \<Rightarrow> (json \<times> string) option" where
  "literal_after w v s = (if has_prefix w s then Some (v, drop (length w) s) else None)"

definition starts_with :: "char \<Rightarrow> string \<Rightarrow> bool" where
  "starts_with c s = (case s of [] \<Rightarrow> False | x # _ \<Rightarrow> x = c)"

definition jscalar :: "string \<Rightarrow> (json \<times> string) option" where
  "jscalar s =
     (if starts_with quote_char s then
        (case lex_string (tl s) of
           None \<Rightarrow> None
         | Some (raw, r) \<Rightarrow> map_option (\<lambda>x. (JStr x, r)) (unescape raw))
      else if starts_with (CHR ''t'') s then literal_after ''true'' (JBool True) s
      else if starts_with (CHR ''f'') s then literal_after ''false'' (JBool False) s
      else if starts_with (CHR ''n'') s then literal_after ''null'' JNull s
      else map_option (\<lambda>(l, r). (JNum l, r)) (lex_number s))"

definition jkey :: "string \<Rightarrow> (string \<times> string) option" where
  "jkey s =
     (if starts_with quote_char s then
        (case lex_string (tl s) of
           None \<Rightarrow> None
         | Some (raw, r) \<Rightarrow>
             (case unescape raw of
                None \<Rightarrow> None
              | Some k \<Rightarrow> if starts_with colon (skip_ws r) then Some (k, tl (skip_ws r)) else None))
      else None)"

text \<open>A value, its elements and its members; \<open>d\<close> is how many brackets may still be opened.\<close>

fun jvalue :: "nat \<Rightarrow> nat \<Rightarrow> string \<Rightarrow> (json \<times> string) option"
and jelems :: "nat \<Rightarrow> nat \<Rightarrow> string \<Rightarrow> (json list \<times> string) option"
and jmembers :: "nat \<Rightarrow> nat \<Rightarrow> string \<Rightarrow> (jobject \<times> string) option" where
  "jvalue 0 d s = None"
| "jvalue (Suc n) d s =
     (let s = skip_ws s in
      if starts_with brace_open s then
        (if d = 0 then None
         else if starts_with brace_close (skip_ws (tl s)) then Some (JObj [], tl (skip_ws (tl s)))
         else map_option (\<lambda>(ms, r). (JObj ms, r)) (jmembers n (d - 1) (tl s)))
      else if starts_with bracket_open s then
        (if d = 0 then None
         else if starts_with bracket_close (skip_ws (tl s)) then Some (JArr [], tl (skip_ws (tl s)))
         else map_option (\<lambda>(vs, r). (JArr vs, r)) (jelems n (d - 1) (tl s)))
      else jscalar s)"
| "jelems 0 d s = None"
| "jelems (Suc n) d s =
     (case jvalue n d s of
        None \<Rightarrow> None
      | Some (v, r) \<Rightarrow>
          (let r = skip_ws r in
           if starts_with comma r then map_option (\<lambda>(vs, r). (v # vs, r)) (jelems n d (tl r))
           else if starts_with bracket_close r then Some ([v], tl r)
           else None))"
| "jmembers 0 d s = None"
| "jmembers (Suc n) d s =
     (case jkey (skip_ws s) of
        None \<Rightarrow> None
      | Some (k, r) \<Rightarrow>
          (case jvalue n d r of
             None \<Rightarrow> None
           | Some (v, r) \<Rightarrow>
               (let r = skip_ws r in
                if starts_with comma r then map_option (\<lambda>(ms, r). ((k, v) # ms, r)) (jmembers n d (tl r))
                else if starts_with brace_close r then Some ([(k, v)], tl r)
                else None)))"

declare jvalue.simps [simp del] jelems.simps [simp del] jmembers.simps [simp del]

definition json_fuel :: "string \<Rightarrow> nat" where "json_fuel s = 2 * length s + 2"

definition maxNestingDepth :: nat where "maxNestingDepth = 10000"

definition json_prefix :: "nat \<Rightarrow> string \<Rightarrow> (json \<times> string) option" where
  "json_prefix d s = jvalue (json_fuel s) d s"

definition json_parse :: "string \<Rightarrow> json option" where
  "json_parse s =
     (case json_prefix maxNestingDepth s of
        None \<Rightarrow> None
      | Some (v, r) \<Rightarrow> if skip_ws r = [] then Some v else None)"

definition json_Valid :: "string \<Rightarrow> bool" where
  "json_Valid s \<longleftrightarrow> json_parse s \<noteq> None"

section \<open>The fuel is enough\<close>

lemma skip_ws_length: "length (skip_ws s) \<le> length s"
  by (simp add: skip_ws_def length_dropWhile_le)

lemma starts_with_iff: "starts_with c s \<longleftrightarrow> (\<exists>r. s = c # r)"
  by (cases s) (auto simp: starts_with_def)

lemma starts_with_simps [simp]: "starts_with c [] = False" "starts_with c (x # r) = (x = c)"
  by (simp_all add: starts_with_def)

lemma starts_with_length: "starts_with c s \<Longrightarrow> 0 < length s"
  by (cases s) auto

lemma lex_string_length: "lex_string s = Some (b, r) \<Longrightarrow> length r < length s"
  by (induction s arbitrary: b r rule: lex_string.induct) (fastforce split: if_splits list.splits)+

text \<open>A lexer consumes a prefix, and goes on to the same end when the text does.\<close>

definition lexes :: "(string \<Rightarrow> (string \<times> string) option) \<Rightarrow> bool" where
  "lexes f \<longleftrightarrow> (\<forall>s a r. f s = Some (a, r) \<longrightarrow> s = a @ r)"

lemma lexes_then: "lexes f \<Longrightarrow> lexes g \<Longrightarrow> lexes (lex_then f g)"
  by (fastforce simp: lexes_def lex_then_def split: option.splits)

lemma lexes_parts: "lexes lex_sign" "lexes lex_int" "lexes lex_frac" "lexes lex_exp"
  by (auto simp: lexes_def lex_sign_def lex_int_def lex_frac_def lex_exp_def lex_digits_def split: list.splits if_splits)

lemma lexes_number: "lexes lex_number"
  unfolding lex_number_def by (intro lexes_then lexes_parts)

lemma lex_number_nonempty: "lex_number s = Some (a, r) \<Longrightarrow> a \<noteq> []"
  by (auto simp: lex_number_def lex_then_def lex_int_def split: option.splits prod.splits list.splits if_splits)

lemma jscalar_length: "jscalar s = Some (v, r) \<Longrightarrow> length r < length s"
proof -
  assume a: "jscalar s = Some (v, r)"
  have l: "length (drop (length w) s) < length s" if "has_prefix w s" "w \<noteq> []" for w
    using that by (cases s) (auto simp: has_prefix_def)
  have n: "length r < length s" if "lex_number s = Some (x, r)" for x
    using that lexes_number lex_number_nonempty [OF that] by (auto simp: lexes_def dest!: spec)
  show ?thesis
    using a l [of "''true''"] l [of "''false''"] l [of "''null''"] n lex_string_length [of "tl s"]
    by (cases s) (auto simp: jscalar_def literal_after_def less_Suc_eq split: if_splits option.splits prod.splits)
qed

lemma jkey_length:
  assumes "jkey s = Some (k, r)"
  shows "length r < length s"
proof -
  obtain raw q where q: "lex_string (tl s) = Some (raw, q)" "r = tl (skip_ws q)"
    using assms by (auto simp: jkey_def split: if_splits option.splits)
  then show ?thesis
    using lex_string_length [OF q(1)] skip_ws_length [of q] by (cases s) auto
qed

lemma json_lengths:
  "jvalue n d s = Some (v, r) \<Longrightarrow> length r < length s"
  "jelems n d s = Some (vs, r) \<Longrightarrow> length r < length s"
  "jmembers n d s = Some (ms, r) \<Longrightarrow> length r < length s"
proof (induction n d s and n d s and n d s arbitrary: v r and vs r and ms r rule: jvalue_jelems_jmembers.induct)
  case (2 n d s)
  let ?s = "skip_ws s" and ?t = "skip_ws (tl (skip_ws s))"
  have l: "length ?s \<le> length s" "length ?t \<le> length (tl ?s)" by (rule skip_ws_length)+
  show ?case
  proof (cases "starts_with brace_open ?s \<or> starts_with bracket_open ?s")
    case True
    then have p: "length (tl ?s) < length s" using l(1) by (cases ?s) auto
    consider "r = tl ?t" | ms where "starts_with brace_open ?s" "d \<noteq> 0" "\<not> starts_with brace_close ?t" "jmembers n (d - 1) (tl ?s) = Some (ms, r)"
      | vs where "\<not> starts_with brace_open ?s" "starts_with bracket_open ?s" "d \<noteq> 0" "\<not> starts_with bracket_close ?t" "jelems n (d - 1) (tl ?s) = Some (vs, r)"
      using True "2.prems" by (auto simp: jvalue.simps Let_def split: if_splits)
    then show ?thesis
    proof cases
      case 1
      then show ?thesis using p l(2) by simp
    next
      case 2
      then show ?thesis using "2.IH"(1) [OF refl] p by fastforce
    next
      case 3
      then show ?thesis using "2.IH"(2) [OF refl] p by fastforce
    qed
  next
    case False
    then show ?thesis using "2.prems" jscalar_length [of ?s v r] l(1) by (auto simp: jvalue.simps Let_def)
  qed
next
  case (4 n d s)
  obtain w q where w: "jvalue n d s = Some (w, q)" using "4.prems" by (cases "jvalue n d s") (auto simp: jelems.simps)
  have q: "length (tl (skip_ws q)) \<le> length q" using skip_ws_length [of q] by simp
  then show ?case
    using "4.prems" "4.IH"(1) [OF w] "4.IH"(2) [OF w]
    by (auto simp: jelems.simps w Let_def split: if_splits) (meson order.strict_trans order.strict_trans1 order.strict_trans2)+
next
  case (6 n d s)
  obtain k p where k: "jkey (skip_ws s) = Some (k, p)"
    using "6.prems" by (cases "jkey (skip_ws s)") (auto simp: jmembers.simps)
  obtain w q where w: "jvalue n d p = Some (w, q)"
    using "6.prems" k by (cases "jvalue n d p") (auto simp: jmembers.simps)
  have q: "length (tl (skip_ws q)) \<le> length q" "length p < length s"
    using skip_ws_length [of q] skip_ws_length [of s] jkey_length [OF k] by simp_all
  then show ?case
    using "6.prems" "6.IH"(1) [OF k refl w] "6.IH"(2) [OF k refl w]
    by (auto simp: jmembers.simps k w Let_def split: if_splits) (meson order.strict_trans order.strict_trans1 order.strict_trans2)+
qed (simp_all add: jvalue.simps jelems.simps jmembers.simps)

text \<open>More fuel than a text's length asks for changes nothing.\<close>

lemma json_fuel_same:
  "2 * length s < n \<Longrightarrow> 2 * length s < m \<Longrightarrow> jvalue n d s = jvalue m d s"
  "2 * length s + 1 < n \<Longrightarrow> 2 * length s + 1 < m \<Longrightarrow> jelems n d s = jelems m d s"
  "2 * length s + 1 < n \<Longrightarrow> 2 * length s + 1 < m \<Longrightarrow> jmembers n d s = jmembers m d s"
proof (induction n d s and n d s and n d s arbitrary: m and m and m rule: jvalue_jelems_jmembers.induct)
  case (2 n d s)
  let ?s = "skip_ws s"
  obtain m' where m: "m = Suc m'" using "2.prems" by (cases m) auto
  have l: "length ?s \<le> length s" by (rule skip_ws_length)
  have t: "2 * length (tl ?s) + 1 < n \<and> 2 * length (tl ?s) + 1 < m'" if "starts_with c ?s" for c
    using starts_with_length [OF that] l "2.prems" m by (cases ?s) auto
  have "jmembers n (d - 1) (tl ?s) = jmembers m' (d - 1) (tl ?s)"
    if "starts_with brace_open ?s" "d \<noteq> 0" "\<not> starts_with brace_close (skip_ws (tl ?s))"
    using "2.IH"(1) [OF refl] that t [OF that(1)] by blast
  moreover have "jelems n (d - 1) (tl ?s) = jelems m' (d - 1) (tl ?s)"
    if "\<not> starts_with brace_open ?s" "starts_with bracket_open ?s" "d \<noteq> 0" "\<not> starts_with bracket_close (skip_ws (tl ?s))"
    using "2.IH"(2) [OF refl] that t [OF that(2)] by blast
  ultimately show ?case unfolding m jvalue.simps Let_def by auto
next
  case (4 n d s)
  obtain m' where m: "m = Suc m'" using "4.prems" by (cases m) auto
  have v: "jvalue n d s = jvalue m' d s" using "4.IH"(1) [of m'] "4.prems" m by simp
  show ?case
  proof (cases "jvalue n d s")
    case None
    then show ?thesis using v unfolding m jelems.simps by simp
  next
    case (Some w)
    obtain x q where w: "w = (x, q)" by (cases w)
    have "length (tl (skip_ws q)) < length s"
      using skip_ws_length [of q] json_lengths(1) [OF Some [unfolded w]] by simp
    then have "jelems n d (tl (skip_ws q)) = jelems m' d (tl (skip_ws q))" if "starts_with comma (skip_ws q)"
      using "4.IH"(2) [OF Some w [symmetric] refl that, of m'] "4.prems" m by simp
    then show ?thesis using Some v unfolding m jelems.simps by (simp add: w Let_def)
  qed
next
  case (6 n d s)
  obtain m' where m: "m = Suc m'" using "6.prems" by (cases m) auto
  show ?case
  proof (cases "jkey (skip_ws s)")
    case None
    then show ?thesis unfolding m jmembers.simps by simp
  next
    case (Some kp)
    obtain k p where kp: "kp = (k, p)" by (cases kp)
    have p: "length p < length s" using jkey_length [OF Some [unfolded kp]] skip_ws_length [of s] by simp
    have v: "jvalue n d p = jvalue m' d p" using "6.IH"(1) [OF Some kp [symmetric], of m'] "6.prems" m p by simp
    show ?thesis
    proof (cases "jvalue n d p")
      case None
      then show ?thesis using Some kp v unfolding m jmembers.simps by simp
    next
      case (Some w)
      obtain x q where w: "w = (x, q)" by (cases w)
      have "length (tl (skip_ws q)) < length s"
        using skip_ws_length [of q] json_lengths(1) [OF Some [unfolded w]] p by simp
      then have "jmembers n d (tl (skip_ws q)) = jmembers m' d (tl (skip_ws q))" if "starts_with comma (skip_ws q)"
        using "6.IH"(2) [OF \<open>jkey (skip_ws s) = Some kp\<close> kp [symmetric] Some w [symmetric] refl that, of m'] "6.prems" m by simp
      then show ?thesis using Some \<open>jkey (skip_ws s) = Some kp\<close> kp v unfolding m jmembers.simps by (simp add: w Let_def)
    qed
  qed
qed simp_all

section \<open>Reading back what was written\<close>

definition passes :: "string \<Rightarrow> bool" where
  "passes x \<longleftrightarrow> (\<forall>t. lex_string (x @ t) = map_option (\<lambda>(b, r). (x @ b, r)) (lex_string t))"

lemma passes_append: "passes x \<Longrightarrow> passes y \<Longrightarrow> passes (x @ y)"
  by (simp add: passes_def option.map_comp comp_def case_prod_unfold)

lemma passes_plain: "\<forall>c\<in>set x. c \<noteq> quote_char \<and> c \<noteq> CHR 0x5C \<Longrightarrow> passes x"
  by (induction x) (auto simp: passes_def option.map_comp comp_def case_prod_unfold option.map_ident)

lemma passes_escape: "passes [CHR 0x5C, c]"
  by (simp add: passes_def quote_char_def)

lemma passes_u_escape: "passes (u_escape r)"
proof -
  have h: "hex_digit n \<noteq> quote_char \<and> hex_digit n \<noteq> CHR 0x5C" if "n < 16" for n
  proof -
    have "n \<in> set [0..<16]" using that by simp
    moreover have "\<forall>n\<in>set [0..<16]. hex_digit n \<noteq> quote_char \<and> hex_digit n \<noteq> CHR 0x5C" by code_simp
    ultimately show ?thesis by blast
  qed
  have "u_escape r = [CHR 0x5C, CHR ''u''] @ drop 2 (u_escape r)" by (simp add: u_escape_def)
  moreover have "passes (drop 2 (u_escape r))" by (rule passes_plain) (auto simp: u_escape_def h)
  ultimately show ?thesis using passes_append [OF passes_escape] by metis
qed

lemma passes_quote_byte: "byte c < 128 \<Longrightarrow> passes (quote_byte c)"
proof -
  have "passes [c]" if "c \<noteq> quote_char" "c \<noteq> CHR 0x5C" using that by (intro passes_plain) auto
  then show ?thesis using passes_escape passes_u_escape by (auto simp: quote_byte_def quote_char_def)
qed

lemma decode_rune_high:
  assumes "decode_rune s = (r, n)" "\<not> byte (hd s) < 128" "\<not> (r = RuneError \<and> n = 1)" "s \<noteq> []"
  shows "\<forall>c\<in>set (take n s). \<not> byte c < 128"
proof -
  obtain c t where s: "s = c # t" using assms(4) by (cases s) auto
  have high: "\<not> byte x < 128" if "in_range lo hi x" "128 \<le> lo" for lo hi x using that by (auto simp: in_range_def)
  obtain m lo hi where m: "lead_info c = Some (m, lo, hi)"
    using assms s by (cases "lead_info c") (auto simp: decode_rune_def)
  then have lo: "128 \<le> lo" by (auto simp: lead_info_def Let_def split: if_splits)
  show ?thesis
    using assms s m high [OF _ lo] high [of 128 191]
    by (auto simp: decode_rune_def split: list.splits if_splits)
qed

lemma passes_quote_rune:
  assumes "s \<noteq> []"
  shows "passes (quote_rune s)"
proof -
  obtain r n where d: "decode_rune s = (r, n)" by (cases "decode_rune s")
  have "passes (take n s)" if "\<not> byte (hd s) < 128" "\<not> (r = RuneError \<and> n = 1)"
    using decode_rune_high [OF d that assms] by (intro passes_plain) (auto simp: quote_char_def)
  then show ?thesis by (auto simp: quote_rune_def d passes_u_escape passes_quote_byte)
qed

lemma passes_quote_body: "passes (quote_body s)"
  by (induction s rule: quote_body.induct)
    (auto simp: quote_body.simps(2) passes_append passes_quote_rune passes_plain)

lemma lex_quoted: "lex_string (quote_body s @ quote_char # t) = Some (quote_body s, t)"
  using passes_quote_body [of s] by (simp add: passes_def)

lemma json_quote_shape: "json_quote s = quote_char # quote_body s @ [quote_char]"
  by (simp add: json_quote_def quote_char_def)

definition valid_utf8 :: "string \<Rightarrow> bool" where
  "valid_utf8 s \<longleftrightarrow> encode_runes (runes s) = s"

lemma unescape_quote: "valid_utf8 s \<Longrightarrow> unescape (quote_body s) = Some s"
  using unescape_quote_body [of s "[]"] by (simp add: valid_utf8_def)

lemma jscalar_quote: "valid_utf8 s \<Longrightarrow> jscalar (json_quote s @ t) = Some (JStr s, t)"
  by (simp add: jscalar_def json_quote_shape lex_quoted unescape_quote)

lemma jkey_quote: "valid_utf8 s \<Longrightarrow> jkey (json_quote s @ colon # t) = Some (s, t)"
  by (simp add: jkey_def json_quote_shape lex_quoted unescape_quote skip_ws_def json_space_def colon_def)

text \<open>A number literal ends where no number goes on.\<close>

definition ends_number :: "string \<Rightarrow> bool" where
  "ends_number t \<longleftrightarrow> (case t of [] \<Rightarrow> True
     | c # _ \<Rightarrow> \<not> is_digit c \<and> c \<notin> {CHR ''.'', CHR ''e'', CHR ''E'', CHR ''+'', CHR ''-''})"

definition goes_on :: "(string \<Rightarrow> (string \<times> string) option) \<Rightarrow> bool" where
  "goes_on f \<longleftrightarrow> (\<forall>s a r t. f s = Some (a, r) \<longrightarrow> ends_number t \<longrightarrow> f (s @ t) = Some (a, r @ t))"

lemma goes_on_then: "goes_on f \<Longrightarrow> goes_on g \<Longrightarrow> goes_on (lex_then f g)"
  unfolding goes_on_def lex_then_def by (fastforce split: option.splits)

lemma digits_append:
  "ends_number t \<Longrightarrow> takeWhile is_digit (s @ t) = takeWhile is_digit s \<and> dropWhile is_digit (s @ t) = dropWhile is_digit s @ t"
  by (induction s) (auto simp: ends_number_def split: list.splits)

lemma goes_on_digits: "goes_on lex_digits"
  by (auto simp: goes_on_def lex_digits_def digits_append)

lemma goes_onD: "goes_on f \<Longrightarrow> f s = Some (a, r) \<Longrightarrow> ends_number t \<Longrightarrow> f (s @ t) = Some (a, r @ t)"
  by (auto simp: goes_on_def)

lemma goes_on_int: "goes_on lex_int"
  using digits_append by (fastforce simp: goes_on_def lex_int_def split: list.splits if_splits)

lemma ends_number_simps [simp]:
  "ends_number []" "ends_number (c # t) \<longleftrightarrow> \<not> is_digit c \<and> c \<notin> {CHR ''.'', CHR ''e'', CHR ''E'', CHR ''+'', CHR ''-''}"
  by (simp_all add: ends_number_def)

lemma goes_on_optional:
  assumes "\<And>t. ends_number t \<Longrightarrow> f t = Some ([], t)" "f [] = Some ([], [])"
    "\<And>c s a r t. f (c # s) = Some (a, r) \<Longrightarrow> ends_number t \<Longrightarrow> f (c # s @ t) = Some (a, r @ t)"
  shows "goes_on f"
  unfolding goes_on_def
proof (intro allI impI)
  fix s a r t assume "f s = Some (a, r)" "ends_number t"
  then show "f (s @ t) = Some (a, r @ t)" using assms by (cases s) auto
qed

lemma goes_on_sign: "goes_on lex_sign"
  by (rule goes_on_optional) (auto simp: lex_sign_def split: list.splits if_splits)

lemma goes_on_frac: "goes_on lex_frac"
  by (rule goes_on_optional)
    (auto simp: lex_frac_def goes_onD [OF goes_on_digits] split: list.splits if_splits)

lemma goes_on_exp: "goes_on lex_exp"
proof (rule goes_on_optional)
  show "lex_exp t = Some ([], t)" if "ends_number t" for t
    using that by (auto simp: lex_exp_def split: list.splits)
  show "lex_exp [] = Some ([], [])" by (simp add: lex_exp_def)
  fix c s a r t assume a: "lex_exp (c # s) = Some (a, r)" and t: "ends_number t"
  note D = goes_onD [OF goes_on_digits _ t]
  show "lex_exp (c # s @ t) = Some (a, r @ t)"
  proof (cases s)
    case Nil
    then show ?thesis using a t by (auto simp: lex_exp_def split: if_splits list.splits)
  next
    case (Cons g s')
    then show ?thesis using a D [of s'] D [of "g # s'"] by (auto simp: lex_exp_def split: if_splits)
  qed
qed

lemma goes_on_number: "goes_on lex_number"
  unfolding lex_number_def by (intro goes_on_then goes_on_sign goes_on_int goes_on_frac goes_on_exp)

text \<open>Values whose literals are literals, whose strings are UTF-8 and which nest no deeper than \<open>d\<close>.\<close>

fun json_ok :: "nat \<Rightarrow> json \<Rightarrow> bool" where
  "json_ok d JNull = True"
| "json_ok d (JBool b) = True"
| "json_ok d (JNum lit) = (lex_number lit = Some (lit, []))"
| "json_ok d (JStr s) = valid_utf8 s"
| "json_ok d (JArr vs) = (d \<noteq> 0 \<and> list_all (json_ok (d - 1)) vs)"
| "json_ok d (JObj ms) = (d \<noteq> 0 \<and> list_all (\<lambda>(k, v). valid_utf8 k \<and> json_ok (d - 1) v) ms)"

lemma lex_number_head: "lex_number (c # s) = Some (a, r) \<Longrightarrow> c = CHR ''-'' \<or> is_digit c"
  by (auto simp: lex_number_def lex_then_def lex_sign_def lex_int_def is_digit_def split: option.splits if_splits)

definition text_head :: "char \<Rightarrow> bool" where
  "text_head c \<longleftrightarrow> \<not> json_space c \<and> c \<noteq> bracket_close \<and> c \<noteq> brace_close"

lemma digit_head: "c = CHR ''-'' \<or> is_digit c \<Longrightarrow>
    text_head c \<and> c \<noteq> brace_open \<and> c \<noteq> bracket_open \<and> c \<noteq> quote_char \<and> c \<notin> {CHR ''t'', CHR ''f'', CHR ''n''}"
  by (auto simp: text_head_def json_space_def is_digit_def brace_open_def brace_close_def bracket_open_def
      bracket_close_def quote_char_def)

lemma json_text_head:
  assumes "json_ok d v"
  obtains c r where "json_text v = c # r" "text_head c"
proof (cases v)
  case (JNum lit)
  then show ?thesis using assms that digit_head lex_number_nonempty [of lit lit "[]"] lex_number_head
    by (cases lit) auto
next
  case (JBool b)
  then show ?thesis using that
    by (cases b) (auto simp: text_head_def json_space_def brace_close_def bracket_close_def)
qed (use that in \<open>auto simp: text_head_def json_space_def json_quote_shape brace_open_def brace_close_def
    bracket_open_def bracket_close_def quote_char_def split: if_splits\<close>)

lemma text_head_ws [simp]: "text_head c \<Longrightarrow> skip_ws (c # r) = c # r"
  by (simp add: text_head_def skip_ws_def)

lemma punctuation_ws [simp]:
  "skip_ws (comma # r) = comma # r" "skip_ws (bracket_close # r) = bracket_close # r"
  "skip_ws (brace_close # r) = brace_close # r" "skip_ws (bracket_open # r) = bracket_open # r"
  "skip_ws (brace_open # r) = brace_open # r" "skip_ws (quote_char # r) = quote_char # r"
  by (simp_all add: skip_ws_def json_space_def comma_def bracket_close_def brace_close_def bracket_open_def
      brace_open_def quote_char_def)

lemma punctuation [simp]:
  "bracket_close \<noteq> comma" "brace_close \<noteq> comma" "bracket_open \<noteq> brace_open" "quote_char \<noteq> brace_close"
  "ends_number (comma # r)" "ends_number (bracket_close # r)" "ends_number (brace_close # r)"
  by (simp_all add: comma_def bracket_close_def brace_close_def bracket_open_def brace_open_def quote_char_def is_digit_def)

lemma jscalar_text:
  assumes "json_ok d v" "ends_number t" "\<forall>vs. v \<noteq> JArr vs" "\<forall>ms. v \<noteq> JObj ms"
  shows "jscalar (json_text v @ t) = Some (v, t)
    \<and> \<not> starts_with brace_open (json_text v @ t) \<and> \<not> starts_with bracket_open (json_text v @ t)"
proof (cases v)
  case (JStr s)
  then show ?thesis using assms jscalar_quote
    by (auto simp: json_quote_shape quote_char_def brace_open_def bracket_open_def)
next
  case (JNum lit)
  obtain c r where lit: "lit = c # r" using assms JNum lex_number_nonempty by (cases lit) auto
  then have "c = CHR ''-'' \<or> is_digit c" using assms JNum lex_number_head by auto
  note c = digit_head [OF this]
  have "lex_number (lit @ t) = Some (lit, t)" using goes_onD [OF goes_on_number _ assms(2)] assms(1) JNum by fastforce
  then show ?thesis using c lit JNum by (simp add: jscalar_def)
qed (use assms in \<open>auto simp: jscalar_def literal_after_def has_prefix_def quote_char_def brace_open_def bracket_open_def\<close>)

declare ends_number_simps(2) [simp del]

lemma jvalue_scalar:
  assumes "json_ok d v" "ends_number t" "2 * length (json_text v) < n" "\<forall>vs. v \<noteq> JArr vs" "\<forall>ms. v \<noteq> JObj ms"
  shows "jvalue n d (json_text v @ t) = Some (v, t)"
proof -
  obtain m where n: "n = Suc m" using assms(3) by (cases n) auto
  obtain c r where "json_text v = c # r" "text_head c" using json_text_head [OF assms(1)] by blast
  then have "skip_ws (json_text v @ t) = json_text v @ t" by simp
  then show ?thesis using jscalar_text [OF assms(1,2,4,5)] n by (simp add: jvalue.simps)
qed

lemma jelems_text:
  assumes "\<And>v n d t. v \<in> set vs \<Longrightarrow> json_ok d v \<Longrightarrow> ends_number t \<Longrightarrow> 2 * length (json_text v) < n \<Longrightarrow>
    jvalue n d (json_text v @ t) = Some (v, t)"
    "list_all (json_ok d) vs" "vs \<noteq> []" "2 * length (join_with [comma] (map json_text vs)) + 1 < n"
  shows "jelems n d (join_with [comma] (map json_text vs) @ bracket_close # t) = Some (vs, t)"
  using assms
proof (induction vs arbitrary: n)
  case (Cons v vs)
  obtain m where n: "n = Suc m" using Cons.prems(4) by (cases n) auto
  show ?case
  proof (cases vs)
    case Nil
    have "jvalue m d (json_text v @ bracket_close # t) = Some (v, bracket_close # t)"
      using Cons.prems(1) [of v d "bracket_close # t" m] Cons.prems n Nil by simp
    then show ?thesis using n Nil by (simp add: jelems.simps)
  next
    case (Cons w ws)
    let ?rest = "join_with [comma] (map json_text vs)"
    have "jvalue m d (json_text v @ comma # ?rest @ bracket_close # t) = Some (v, comma # ?rest @ bracket_close # t)"
      using Cons.prems n Cons by simp
    moreover have "jelems m d (?rest @ bracket_close # t) = Some (vs, t)"
      using Cons.IH [of m] Cons.prems n Cons by simp
    ultimately show ?thesis using n Cons by (simp add: jelems.simps)
  qed
qed simp

lemma jmembers_text:
  assumes "\<And>k v n d t. (k, v) \<in> set ms \<Longrightarrow> json_ok d v \<Longrightarrow> ends_number t \<Longrightarrow> 2 * length (json_text v) < n \<Longrightarrow>
    jvalue n d (json_text v @ t) = Some (v, t)"
    "list_all (\<lambda>(k, v). valid_utf8 k \<and> json_ok d v) ms" "ms \<noteq> []"
    "2 * length (join_with [comma] (map (\<lambda>(k, v). json_quote k @ colon # json_text v) ms)) + 1 < n"
  shows "jmembers n d (join_with [comma] (map (\<lambda>(k, v). json_quote k @ colon # json_text v) ms) @ brace_close # t) = Some (ms, t)"
  using assms
proof (induction ms arbitrary: n)
  case (Cons kv ms)
  obtain k v where kv: "kv = (k, v)" by (cases kv)
  obtain m where n: "n = Suc m" using Cons.prems(4) by (cases n) auto
  have k: "valid_utf8 k" "skip_ws (json_quote k @ r) = json_quote k @ r" for r
    using Cons.prems(2) kv by (auto simp: json_quote_shape)
  show ?case
  proof (cases ms)
    case Nil
    have "jvalue m d (json_text v @ brace_close # t) = Some (v, brace_close # t)"
      using Cons.prems(1) [of k v d "brace_close # t" m] Cons.prems n Nil kv by simp
    then show ?thesis using n Nil kv k by (simp add: jmembers.simps jkey_quote)
  next
    case (Cons w ws)
    let ?rest = "join_with [comma] (map (\<lambda>(k, v). json_quote k @ colon # json_text v) ms)"
    have "jvalue m d (json_text v @ comma # ?rest @ brace_close # t) = Some (v, comma # ?rest @ brace_close # t)"
      using Cons.prems(1) [of k v d "comma # ?rest @ brace_close # t" m] Cons.prems n Cons kv by simp
    moreover have "jmembers m d (?rest @ brace_close # t) = Some (ms, t)"
    proof (rule Cons.IH)
      show "jvalue n d (json_text v @ t) = Some (v, t)"
        if "(k, v) \<in> set ms" "json_ok d v" "ends_number t" "2 * length (json_text v) < n" for k v n d t
        using Cons.prems(1) [of k v d t n] that by simp
    qed (use Cons.prems(2,4) n Cons kv in simp_all)
    ultimately show ?thesis using n Cons kv k by (simp add: jmembers.simps jkey_quote)
  qed
qed simp

lemma joined_members_head:
  "ms \<noteq> [] \<Longrightarrow> \<exists>r. join_with [comma] (map (\<lambda>(k, v). json_quote k @ colon # json_text v) ms) @ t = quote_char # r"
  by (cases ms rule: list.exhaust; cases "tl ms") (auto simp: json_quote_shape)

lemma joined_elems_head:
  assumes "vs \<noteq> []" "list_all (json_ok d) vs"
  shows "\<exists>c r. join_with [comma] (map json_text vs) @ t = c # r \<and> text_head c"
proof -
  obtain v ws where vs: "vs = v # ws" using assms(1) by (cases vs) auto
  obtain c r where "json_text v = c # r" "text_head c" using json_text_head [of d v] assms(2) vs by auto
  then show ?thesis using vs by (cases ws) auto
qed

lemma jvalue_text:
  "json_ok d v \<Longrightarrow> ends_number t \<Longrightarrow> 2 * length (json_text v) < n \<Longrightarrow> jvalue n d (json_text v @ t) = Some (v, t)"
proof (induction v arbitrary: d t n)
  case (JArr vs)
  obtain m where n: "n = Suc m" using JArr.prems(3) by (cases n) auto
  show ?case
  proof (cases "vs = []")
    case True
    then show ?thesis using JArr.prems n by (simp add: jvalue.simps)
  next
    case False
    have ok: "list_all (json_ok (d - 1)) vs" "d \<noteq> 0" using JArr.prems by simp_all
    have "jelems m (d - 1) (join_with [comma] (map json_text vs) @ bracket_close # t) = Some (vs, t)"
      by (rule jelems_text [OF _ ok(1) False]) (use JArr n in simp_all)
    moreover obtain c r where "join_with [comma] (map json_text vs) @ bracket_close # t = c # r" "text_head c"
      using joined_elems_head [OF False ok(1)] by blast
    ultimately show ?thesis using n ok(2) by (simp add: jvalue.simps text_head_def)
  qed
next
  case (JObj ms)
  obtain m where n: "n = Suc m" using JObj.prems(3) by (cases n) auto
  show ?case
  proof (cases "ms = []")
    case True
    then show ?thesis using JObj.prems n by (simp add: jvalue.simps)
  next
    case False
    have ok: "list_all (\<lambda>(k, v). valid_utf8 k \<and> json_ok (d - 1) v) ms" "d \<noteq> 0" using JObj.prems by simp_all
    have "jmembers m (d - 1) (join_with [comma] (map (\<lambda>(k, v). json_quote k @ colon # json_text v) ms) @ brace_close # t) = Some (ms, t)"
      by (rule jmembers_text [OF _ ok(1) False]) (use JObj n in \<open>fastforce+\<close>)
    moreover obtain r where "join_with [comma] (map (\<lambda>(k, v). json_quote k @ colon # json_text v) ms) @ brace_close # t = quote_char # r"
      using joined_members_head [OF False] by blast
    ultimately show ?thesis using n ok(2) by (simp add: jvalue.simps)
  qed
qed (rule jvalue_scalar; simp)+

theorem json_reads_back: "json_ok maxNestingDepth v \<Longrightarrow> json_parse (json_text v) = Some v"
  using jvalue_text [of maxNestingDepth v "[]" "json_fuel (json_text v)"]
  by (simp add: json_parse_def json_prefix_def json_fuel_def skip_ws_def)

section \<open>What is read is a value\<close>

lemma valid_encode_rune: "encode_rune (if valid_rune r then r else RuneError) = encode_rune r"
  by (simp add: encode_rune_def valid_RuneError)

lemma valid_utf8_encode: "valid_utf8 (encode_rune r @ t) = valid_utf8 t"
  by (auto simp: valid_utf8_def runes_encode_rune encode_runes_def valid_encode_rune)

lemma valid_utf8_ascii: "byte c < 128 \<Longrightarrow> valid_utf8 (c # t) = valid_utf8 t"
  using valid_utf8_encode [of "byte c" t] by simp

lemma simple_escape_ascii: "simple_escape e = Some x \<Longrightarrow> byte x < 128"
  by (auto simp: simple_escape_def split: if_splits)

lemma unescape_valid: "unescape s = Some x \<Longrightarrow> valid_utf8 x"
proof (induction s arbitrary: x rule: unescape.induct)
  case 1
  then show ?case by (simp add: valid_utf8_def encode_runes_def)
next
  case (2 c s)
  show ?case
    using "2.prems" "2.IH" simple_escape_ascii
    by (auto simp: unescape.simps(2) [of c s] valid_utf8_encode valid_utf8_ascii split: if_splits list.splits option.splits)
qed

text \<open>Cutting the text a lexer leaves over changes nothing.\<close>

definition cuts :: "(string \<Rightarrow> (string \<times> string) option) \<Rightarrow> bool" where
  "cuts f \<longleftrightarrow> (\<forall>a b c. f (a @ b @ c) = Some (a, b @ c) \<longrightarrow> f (a @ b) = Some (a, b))"

lemma cuts_then:
  assumes "cuts f" "cuts g" "lexes f" "lexes g"
  shows "cuts (lex_then f g)"
  unfolding cuts_def
proof (intro allI impI)
  fix a b c assume h: "lex_then f g (a @ b @ c) = Some (a, b @ c)"
  obtain a1 r1 a2 where f: "f (a @ b @ c) = Some (a1, r1)" and g: "g r1 = Some (a2, b @ c)" and a: "a = a1 @ a2"
    using h by (auto simp: lex_then_def split: option.splits)
  have r1: "r1 = a2 @ b @ c" using assms(4) g by (auto simp: lexes_def)
  have "f (a1 @ (a2 @ b)) = Some (a1, a2 @ b)"
    using assms(1) f r1 a unfolding cuts_def by (metis append_assoc)
  moreover have "g (a2 @ b) = Some (a2, b)" using assms(2) g r1 by (auto simp: cuts_def)
  ultimately show "lex_then f g (a @ b) = Some (a, b)" using a by (simp add: lex_then_def)
qed

lemma digits_cut:
  "takeWhile is_digit (a @ b @ c) = a \<Longrightarrow> takeWhile is_digit (a @ b) = a"
  "takeWhile is_digit (a @ b @ c) = a \<Longrightarrow> dropWhile is_digit (a @ b) = b"
proof -
  assume h: "takeWhile is_digit (a @ b @ c) = a"
  have a: "\<forall>x\<in>set a. is_digit x" using h set_takeWhileD by metis
  then have "takeWhile is_digit (b @ c) = []" using h by simp
  then have "takeWhile is_digit b = []" by (cases b) (auto split: if_splits)
  then show "takeWhile is_digit (a @ b) = a" "dropWhile is_digit (a @ b) = b"
    using a by (auto simp: dropWhile_eq_self_iff takeWhile_eq_Nil_iff)
qed

lemma cuts_digits: "cuts lex_digits"
  using digits_cut by (fastforce simp: cuts_def lex_digits_def split: if_splits)

lemma cutsD: "cuts f \<Longrightarrow> f (a @ b @ c) = Some (a, b @ c) \<Longrightarrow> f (a @ b) = Some (a, b)"
  unfolding cuts_def by blast

lemma cuts_sign: "cuts lex_sign"
  unfolding cuts_def
proof (intro allI impI)
  fix a b c assume h: "lex_sign (a @ b @ c) = Some (a, b @ c)"
  show "lex_sign (a @ b) = Some (a, b)"
  proof (cases a)
    case Nil
    then show ?thesis using h by (cases b) (auto simp: lex_sign_def split: if_splits)
  next
    case (Cons x a')
    then show ?thesis using h by (auto simp: lex_sign_def split: if_splits)
  qed
qed

lemma cuts_int: "cuts lex_int"
  unfolding cuts_def
proof (intro allI impI)
  fix a b c assume h: "lex_int (a @ b @ c) = Some (a, b @ c)"
  then obtain x a' where a: "a = x # a'"
    by (cases a) (auto simp: lex_int_def split: list.splits if_splits)
  show "lex_int (a @ b) = Some (a, b)"
    using h digits_cut [of a b c] a by (auto simp: lex_int_def split: if_splits)
qed

lemma cuts_frac: "cuts lex_frac"
  unfolding cuts_def
proof (intro allI impI)
  fix a b c assume h: "lex_frac (a @ b @ c) = Some (a, b @ c)"
  show "lex_frac (a @ b) = Some (a, b)"
  proof (cases a)
    case Nil
    then show ?thesis using h by (cases b) (auto simp: lex_frac_def split: if_splits)
  next
    case (Cons x a')
    then have "x = CHR ''.''" "lex_digits (a' @ b @ c) = Some (a', b @ c)"
      using h by (auto simp: lex_frac_def split: if_splits)
    then show ?thesis using cutsD [OF cuts_digits] Cons by (simp add: lex_frac_def)
  qed
qed

lemma cuts_exp: "cuts lex_exp"
  unfolding cuts_def
proof (intro allI impI)
  fix a b c assume h: "lex_exp (a @ b @ c) = Some (a, b @ c)"
  show "lex_exp (a @ b) = Some (a, b)"
  proof (cases a)
    case Nil
    then show ?thesis using h
      by (cases b) (auto simp: lex_exp_def split: if_splits list.splits)
  next
    case (Cons x a')
    then have x: "x = CHR ''e'' \<or> x = CHR ''E''" using h by (auto simp: lex_exp_def split: if_splits)
    then obtain g a'' where a': "a' = g # a''"
      using h Cons by (cases a') (auto simp: lex_exp_def lex_digits_def split: list.splits if_splits)
    show ?thesis
      using h x Cons a' cutsD [OF cuts_digits, of a'' b c] cutsD [OF cuts_digits, of "g # a''" b c]
      by (auto simp: lex_exp_def split: if_splits)
  qed
qed

lemma lex_number_ok: "lex_number s = Some (lit, r) \<Longrightarrow> lex_number lit = Some (lit, [])"
proof -
  assume h: "lex_number s = Some (lit, r)"
  have "cuts lex_number" unfolding lex_number_def
    by (intro cuts_then lexes_then lexes_parts cuts_sign cuts_int cuts_frac cuts_exp)
  moreover have "s = lit @ r" using lexes_number h by (simp add: lexes_def)
  ultimately show ?thesis using h cutsD [of lex_number lit "[]" r] by simp
qed

lemma jscalar_ok: "jscalar s = Some (v, r) \<Longrightarrow> json_ok d v"
  by (auto simp: jscalar_def literal_after_def unescape_valid lex_number_ok split: if_splits option.splits)

lemma jkey_ok: "jkey s = Some (k, r) \<Longrightarrow> valid_utf8 k"
  by (auto simp: jkey_def unescape_valid split: if_splits option.splits)

lemma jvalue_ok:
  "jvalue n d s = Some (v, r) \<Longrightarrow> json_ok d v"
  "jelems n d s = Some (vs, r) \<Longrightarrow> list_all (json_ok d) vs"
  "jmembers n d s = Some (ms, r) \<Longrightarrow> list_all (\<lambda>(k, v). valid_utf8 k \<and> json_ok d v) ms"
proof (induction n d s and n d s and n d s arbitrary: v r and vs r and ms r rule: jvalue_jelems_jmembers.induct)
  case (2 n d s)
  let ?s = "skip_ws s"
  consider "v = JObj [] \<and> d \<noteq> 0" | "v = JArr [] \<and> d \<noteq> 0"
    | ms where "starts_with brace_open ?s" "d \<noteq> 0" "\<not> starts_with brace_close (skip_ws (tl ?s))" "v = JObj ms" "jmembers n (d - 1) (tl ?s) = Some (ms, r)"
    | vs where "\<not> starts_with brace_open ?s" "starts_with bracket_open ?s" "d \<noteq> 0" "\<not> starts_with bracket_close (skip_ws (tl ?s))" "v = JArr vs" "jelems n (d - 1) (tl ?s) = Some (vs, r)"
    | "jscalar ?s = Some (v, r)"
    using "2.prems" by (auto simp: jvalue.simps Let_def split: if_splits)
  then show ?case
  proof cases
    case 3
    then show ?thesis using "2.IH"(1) [OF refl] by simp
  next
    case 4
    then show ?thesis using "2.IH"(2) [OF refl] by simp
  qed (auto simp: jscalar_ok)
next
  case (4 n d s)
  obtain w q where w: "jvalue n d s = Some (w, q)" using "4.prems" by (cases "jvalue n d s") (auto simp: jelems.simps)
  show ?case
    using "4.prems" "4.IH"(1) [OF w] "4.IH"(2) [OF w refl refl]
    by (auto simp: jelems.simps w Let_def split: if_splits)
next
  case (6 n d s)
  obtain k p where k: "jkey (skip_ws s) = Some (k, p)"
    using "6.prems" by (cases "jkey (skip_ws s)") (auto simp: jmembers.simps)
  obtain w q where w: "jvalue n d p = Some (w, q)"
    using "6.prems" k by (cases "jvalue n d p") (auto simp: jmembers.simps)
  show ?case
    using "6.prems" "6.IH"(1) [OF k refl w] "6.IH"(2) [OF k refl w refl refl] jkey_ok [OF k]
    by (auto simp: jmembers.simps k w Let_def split: if_splits)
qed (simp_all add: jvalue.simps jelems.simps jmembers.simps)

lemma join_length: "x \<in> set xs \<Longrightarrow> length x \<le> length (join_with sep xs)"
  by (induction sep xs rule: join_with.induct) auto

text \<open>The text of a value is at least as long as the value is deep.\<close>

lemma json_ok_length: "json_ok d v \<Longrightarrow> length (json_text v) \<le> d' \<Longrightarrow> json_ok d' v"
proof (induction v arbitrary: d d')
  case (JArr vs)
  have "json_ok (d' - 1) v" if v: "v \<in> set vs" for v
  proof -
    have "length (json_text v) \<le> length (join_with [comma] (map json_text vs))" using v by (intro join_length) simp
    then have "length (json_text v) \<le> d' - 1" using JArr.prems by simp
    then show ?thesis using JArr.IH [OF v, of "d - 1"] JArr.prems v by (simp add: list_all_iff)
  qed
  then show ?case using JArr.prems by (auto simp: list_all_iff)
next
  case (JObj ms)
  have "json_ok (d' - 1) v" if m: "(k, v) \<in> set ms" for k v
  proof -
    have "json_quote k @ colon # json_text v \<in> set (map (\<lambda>(k, v). json_quote k @ colon # json_text v) ms)"
      using m by force
    from join_length [OF this, of "[comma]"] have "length (json_text v) \<le> d' - 1" using JObj.prems(2) by simp
    then show ?thesis using JObj.IH [OF m] JObj.prems(1) m by (fastforce simp: list_all_iff)
  qed
  then show ?case using JObj.prems by (auto simp: list_all_iff)
qed simp_all

end
