(* ===== verification/Param.thy ===== *)
theory Param
  imports Json GoError
begin

text \<open>
  The parameter tree (\<open>core/param.go\<close>): a JSON value kept as named, typed nodes whose scalars are the
  literal text, read with the token interface of \<open>json.Decoder\<close> (which has no nesting limit) and
  written back member for member.
\<close>

section \<open>The tree\<close>

definition ParamString :: string where "ParamString = ''string''"
definition ParamNumber :: string where "ParamNumber = ''number''"
definition ParamBoolean :: string where "ParamBoolean = ''boolean''"
definition ParamNull :: string where "ParamNull = ''null''"
definition ParamObject :: string where "ParamObject = ''object''"
definition ParamArray :: string where "ParamArray = ''array''"

lemmas param_types = ParamString_def ParamNumber_def ParamBoolean_def ParamNull_def ParamObject_def ParamArray_def

datatype Param = Param (p_name: string) (p_type: string) (p_value: string) (p_children: "Param list")

definition boolText :: "bool \<Rightarrow> string" where
  "boolText v = (if v then ''true'' else ''false'')"

text \<open>\<open>decodeParamFrom\<close>, \<open>decodeObject\<close>, \<open>decodeArray\<close>: a node for each value, items unnamed.\<close>

fun decodeParam :: "string \<Rightarrow> json \<Rightarrow> Param" where
  "decodeParam name (JStr s) = Param name ParamString s []"
| "decodeParam name (JNum lit) = Param name ParamNumber lit []"
| "decodeParam name (JBool b) = Param name ParamBoolean (boolText b) []"
| "decodeParam name JNull = Param name ParamNull [] []"
| "decodeParam name (JObj ms) = Param name ParamObject [] (map (\<lambda>(k, v). decodeParam k v) ms)"
| "decodeParam name (JArr vs) = Param name ParamArray [] (map (decodeParam []) vs)"

datatype param_error = BadJSON string | TrailingData string | NotAnObject string

text \<open>Whether \<open>Decoder.Token\<close> finds one more token after a top-level value.\<close>

definition more_token :: "string \<Rightarrow> bool" where
  "more_token s \<longleftrightarrow>
     (let s = skip_ws s
      in starts_with bracket_open s \<or> starts_with brace_open s \<or> jscalar s \<noteq> None)"

definition ParamFromJSON :: "string \<Rightarrow> string \<Rightarrow> param_error + Param" where
  "ParamFromJSON name raw =
     (case json_prefix (length raw) raw of
        None \<Rightarrow> Inl (BadJSON name)
      | Some (v, r) \<Rightarrow> if more_token r then Inl (TrailingData name) else Inr (decodeParam name v))"

definition ParamsFromJSONObject :: "string \<Rightarrow> param_error + Param list" where
  "ParamsFromJSONObject raw =
     (if trim_space raw = [] then Inr []
      else (case ParamFromJSON [] raw of
              Inl e \<Rightarrow> Inl e
            | Inr p \<Rightarrow> if p_type p \<noteq> ParamObject then Inl (NotAnObject (p_type p)) else Inr (p_children p)))"

text \<open>A literal that decodes to itself: a string in the text never does.\<close>

definition validNumberLiteral :: "string \<Rightarrow> bool" where
  "validNumberLiteral s \<longleftrightarrow>
     s \<noteq> [] \<and> (case json_prefix (length s) s of
                 Some (JNum lit, r) \<Rightarrow> \<not> more_token r \<and> lit = s
               | _ \<Rightarrow> False)"

text \<open>\<open>writeJSON\<close>, \<open>None\<close> for its errors.\<close>

fun writeJSON :: "Param \<Rightarrow> string option" where
  "writeJSON (Param name ty val cs) =
     (if ty = ParamObject then
        map_option (\<lambda>ts. brace_open # join_with [comma] ts @ [brace_close])
          (those (map (\<lambda>c. map_option (\<lambda>t. json_quote (p_name c) @ colon # t) (writeJSON c)) cs))
      else if ty = ParamArray then
        map_option (\<lambda>ts. bracket_open # join_with [comma] ts @ [bracket_close]) (those (map writeJSON cs))
      else if ty = ParamString then Some (json_quote val)
      else if ty = ParamNumber then (if validNumberLiteral val then Some val else None)
      else if ty = ParamBoolean then (if val = ''true'' \<or> val = ''false'' then Some val else None)
      else if ty = ParamNull then Some ''null''
      else None)"

declare writeJSON.simps [simp del]

definition ParamJSON :: "Param \<Rightarrow> string option" where "ParamJSON p = writeJSON p"

definition ParamsJSON :: "Param list \<Rightarrow> string option" where
  "ParamsJSON ps = ParamJSON (Param [] ParamObject [] ps)"

section \<open>Facts\<close>

lemma number_literal: "lex_number lit = Some (lit, []) \<Longrightarrow> validNumberLiteral lit"
proof -
  assume l: "lex_number lit = Some (lit, [])"
  have "jvalue (json_fuel lit) (length lit) (json_text (JNum lit) @ []) = Some (JNum lit, [])"
    by (rule jvalue_text) (simp_all add: l json_fuel_def)
  moreover have "lit \<noteq> []" using lex_number_nonempty [OF l] .
  moreover have "jscalar [] = None" by (simp add: jscalar_def lex_number_def lex_then_def lex_sign_def lex_int_def)
  ultimately show ?thesis by (simp add: validNumberLiteral_def json_prefix_def more_token_def skip_ws_def)
qed

lemma those_map_Some: "\<forall>x\<in>set xs. f x = Some (g x) \<Longrightarrow> those (map f xs) = Some (map g xs)"
  by (induction xs) auto

lemma decodeParam_name [simp]: "p_name (decodeParam k v) = k"
  by (cases v) auto

lemma writeJSON_decoded: "json_ok d v \<Longrightarrow> writeJSON (decodeParam name v) = Some (json_text v)"
proof (induction v arbitrary: d name)
  case (JArr vs)
  have "those (map (\<lambda>v. writeJSON (decodeParam [] v)) vs) = Some (map json_text vs)"
    using JArr by (intro those_map_Some) (auto simp: list_all_iff)
  then show ?case by (simp add: writeJSON.simps param_types comp_def)
next
  case (JObj ms)
  have "those (map (\<lambda>m. map_option (\<lambda>t. json_quote (fst m) @ colon # t) (writeJSON (decodeParam (fst m) (snd m)))) ms)
      = Some (map (\<lambda>m. json_quote (fst m) @ colon # json_text (snd m)) ms)"
    using JObj by (intro those_map_Some) (fastforce simp: list_all_iff)
  then show ?case by (simp add: writeJSON.simps param_types comp_def case_prod_unfold)
qed (simp_all add: writeJSON.simps param_types boolText_def number_literal)

lemma no_more_token [simp]: "\<not> more_token []"
  by (simp add: more_token_def skip_ws_def jscalar_def lex_number_def lex_then_def lex_sign_def lex_int_def)

section \<open>Properties\<close>

text \<open>
  C39. A JSON value read into a parameter tree is written back as JSON that reads as the same tree: names,
  member order, scalar literals and nesting all survive, whatever text the tree was read from.
\<close>

theorem param_roundtrip:
  assumes "ParamFromJSON name raw = Inr p"
  shows "\<exists>txt. ParamJSON p = Some txt \<and> ParamFromJSON name txt = Inr p"
proof -
  obtain v r where v: "json_prefix (length raw) raw = Some (v, r)" "p = decodeParam name v"
    using assms by (auto simp: ParamFromJSON_def split: option.splits if_splits)
  then have ok: "json_ok (length raw) v" using jvalue_ok(1) by (auto simp: json_prefix_def)
  have "jvalue (json_fuel (json_text v)) (length (json_text v)) (json_text v @ []) = Some (v, [])"
    using json_ok_length [OF ok] by (intro jvalue_text) (simp_all add: json_fuel_def)
  then have "ParamFromJSON name (json_text v) = Inr p" using v(2) by (simp add: ParamFromJSON_def json_prefix_def)
  then show ?thesis using writeJSON_decoded [OF ok] v(2) by (simp add: ParamJSON_def)
qed

definition dq :: "string \<Rightarrow> string" where "dq s = CHR 0x22 # s @ [CHR 0x22]"

definition sample_param :: string where
  "sample_param = ''{ '' @ dq ''b'' @ '' : [1, -2.50e+3, true ,null], '' @ dq ''a'' @ '':{}, '' @ dq ''b'' @ '':'' @ dq (''x'' @ [CHR 0x5C, CHR ''n'']) @ ''}''"

theorem param_roundtrip_witness:
  "\<exists>p. ParamFromJSON ''m'' sample_param = Inr p \<and> (\<exists>txt. ParamJSON p = Some txt \<and> ParamFromJSON ''m'' txt = Inr p)"
proof -
  have "ParamFromJSON ''m'' sample_param = Inr (Param ''m'' ParamObject []
      [Param ''b'' ParamArray [] [Param [] ParamNumber ''1'' [], Param [] ParamNumber ''-2.50e+3'' [],
         Param [] ParamBoolean ''true'' [], Param [] ParamNull [] []],
       Param ''a'' ParamObject [] [], Param ''b'' ParamString (''x'' @ [NL]) []])"
    by code_simp
  from param_roundtrip [OF this] this show ?thesis by blast
qed

text \<open>
  The check for trailing data asks whether another token can be read, so text that is no token (a stray
  closing bracket, a comma, a word) after the value is accepted.
\<close>

theorem trailing_junk_accepted:
  "ParamFromJSON ''m'' ''1 }'' = Inr (Param ''m'' ParamNumber ''1'' [])
   \<and> ParamFromJSON ''m'' ''1 2'' = Inl (TrailingData ''m'')"
  by code_simp

end
