(* ===== verification/Regex.thy ===== *)
theory Regex
  imports Utf8
begin

text \<open>
  The part of Go's \<open>regexp\<close> the program's patterns use: a pattern maps a text to the ways it matches a
  prefix of it, in order of preference, each with the captured groups and the text left over. Matching
  goes rune by rune, an invalid byte being one rune, and \<open>(?i)\<close> folds as Unicode does: the Kelvin sign
  is a k and the long s an s.
\<close>

type_synonym rx = "string \<Rightarrow> (string list \<times> string) list"

definition rx_rune :: "(nat \<Rightarrow> bool) \<Rightarrow> rx" where
  "rx_rune p s =
     (if s = [] then []
      else (let (r, n) = decode_rune s in if p r then [([], drop n s)] else []))"

definition rx_empty :: rx where "rx_empty s = [([], s)]"

definition rx_seq :: "rx \<Rightarrow> rx \<Rightarrow> rx" where
  "rx_seq a b s = concat (map (\<lambda>(c, r). map (\<lambda>(c', r'). (c @ c', r')) (b r)) (a s))"

definition rx_alt :: "rx \<Rightarrow> rx \<Rightarrow> rx" where "rx_alt a b s = a s @ b s"

definition rx_opt :: "rx \<Rightarrow> rx" where "rx_opt a = rx_alt a rx_empty"

primrec rx_upto :: "nat \<Rightarrow> rx \<Rightarrow> rx" where
  "rx_upto 0 a = rx_empty"
| "rx_upto (Suc n) a = rx_opt (rx_seq a (rx_upto n a))"

text \<open>As often as the text has bytes: every pattern repeated here consumes one.\<close>

definition rx_star :: "rx \<Rightarrow> rx" where "rx_star a s = rx_upto (length s) a s"

definition rx_plus :: "rx \<Rightarrow> rx" where "rx_plus a = rx_seq a (rx_star a)"

definition rx_group :: "rx \<Rightarrow> rx" where
  "rx_group a s = map (\<lambda>(c, r). (take (length s - length r) s # c, r)) (a s)"

definition fold_rune :: "nat \<Rightarrow> nat" where
  "fold_rune r =
     (if 65 \<le> r \<and> r \<le> 90 then r + 32 else if r = 8490 then 107 else if r = 383 then 115 else r)"

definition rx_text :: "string \<Rightarrow> rx" where
  "rx_text w = foldr (\<lambda>c. rx_seq (rx_rune (\<lambda>r. fold_rune r = fold_rune (byte c)))) w rx_empty"

definition rx_any :: rx where "rx_any = rx_rune (\<lambda>r. r \<noteq> 10)"

definition rx_space :: rx where "rx_space = rx_rune (\<lambda>r. r \<in> {9, 10, 12, 13, 32})"

definition rx_digit :: rx where "rx_digit = rx_rune (\<lambda>r. 48 \<le> r \<and> r \<le> 57)"

text \<open>The groups of the leftmost match.\<close>

definition rx_first :: "rx \<Rightarrow> string \<Rightarrow> string list option" where
  "rx_first re s = (case re s of [] \<Rightarrow> None | m # _ \<Rightarrow> Some (fst m))"

function rx_find :: "rx \<Rightarrow> string \<Rightarrow> string list option" where
  "rx_find re [] = rx_first re []"
| "rx_find re (c # s) =
     (case rx_first re (c # s) of
        Some g \<Rightarrow> Some g
      | None \<Rightarrow> rx_find re (drop (snd (decode_rune (c # s))) (c # s)))"
  by pat_completeness auto
termination
  by (relation "measure (length \<circ> snd)") (auto simp: decode_rune_shrinks)

declare rx_find.simps(2) [simp del]

definition rx_match :: "rx \<Rightarrow> string \<Rightarrow> bool" where
  "rx_match re s \<longleftrightarrow> rx_find re s \<noteq> None"

end
