(* ===== verification/Sse.thy ===== *)
theory Sse
  imports Regex GoError
begin

text \<open>
  What a provider's HTTP response is read through (\<open>core/sse.go\<close>, \<open>core/errors.go\<close>): server-sent
  events line by line with the limit of \<open>bufio.Scanner\<close>, the error a non-2xx response becomes, and a
  bounded read. A body is the bytes it gives and the error it ends with, none at its end.
\<close>

record body =
  bd_bytes :: string
  bd_err :: "go_error option"

section \<open>Events\<close>

text \<open>
  The lines a scanner with a buffer of at most \<open>maxLine\<close> bytes gives: a line that fills the buffer ends
  the scan, the text after the last newline is a line when there is any, and one carriage return before
  a newline goes.
\<close>

definition maxLine :: nat where "maxLine = 8 * 1024 * 1024"

definition drop_cr :: "string \<Rightarrow> string" where
  "drop_cr l = (if l \<noteq> [] \<and> last l = CHR 0x0D then butlast l else l)"

definition raw_lines :: "string \<Rightarrow> string list" where
  "raw_lines s = (let ls = split_char NL s in if last ls = [] then butlast ls else ls)"

definition scan_lines :: "string \<Rightarrow> string list" where
  "scan_lines s = map drop_cr (takeWhile (\<lambda>l. length l < maxLine) (raw_lines s))"

definition errTooLong :: go_error where "errTooLong = ErrorNew ''bufio.Scanner: token too long''"

definition scan_err :: "body \<Rightarrow> go_error option" where
  "scan_err b = (if \<exists>l\<in>set (raw_lines (bd_bytes b)). maxLine \<le> length l then Some errTooLong else bd_err b)"

definition data_prefix :: string where "data_prefix = ''data:''"
definition done_mark :: string where "done_mark = ''[DONE]''"

definition sse_data :: "string \<Rightarrow> string option" where
  "sse_data l =
     (if has_prefix data_prefix l then
        (let d = trim_space (drop (length data_prefix) l) in if d = [] then None else Some d)
      else None)"

text \<open>\<open>scanSSE\<close>: the payloads in order until the end mark, the handler's first error ending the scan.\<close>

primrec sse_lines :: "(string \<Rightarrow> 's \<Rightarrow> go_error option \<times> 's) \<Rightarrow> go_error option \<Rightarrow> string list \<Rightarrow> 's \<Rightarrow> go_error option \<times> 's" where
  "sse_lines on e [] st = (map_option (Wrapped ''read stream: '') e, st)"
| "sse_lines on e (l # ls) st =
     (case sse_data l of
        None \<Rightarrow> sse_lines on e ls st
      | Some d \<Rightarrow>
          if d = done_mark then (None, st)
          else (case on d st of
                  (Some err, st) \<Rightarrow> (Some err, st)
                | (None, st) \<Rightarrow> sse_lines on e ls st))"

definition scanSSE :: "body \<Rightarrow> (string \<Rightarrow> 's \<Rightarrow> go_error option \<times> 's) \<Rightarrow> 's \<Rightarrow> go_error option \<times> 's" where
  "scanSSE b on st = sse_lines on (scan_err b) (scan_lines (bd_bytes b)) st"

section \<open>Errors and bounded reads\<close>

text \<open>\<open>prompt (is )?too long|context (length|window)|maximum context|too many tokens|exceeds?.{0,20}(context|token)\<close>\<close>

definition contextOverflowRe :: rx where
  "contextOverflowRe =
     rx_alt (rx_seq (rx_text ''prompt '') (rx_seq (rx_opt (rx_text ''is '')) (rx_text ''too long'')))
    (rx_alt (rx_seq (rx_text ''context '') (rx_alt (rx_text ''length'') (rx_text ''window'')))
    (rx_alt (rx_text ''maximum context'')
    (rx_alt (rx_text ''too many tokens'')
            (rx_seq (rx_text ''exceed'') (rx_seq (rx_opt (rx_text ''s''))
              (rx_seq (rx_upto 20 rx_any) (rx_alt (rx_text ''context'') (rx_text ''token''))))))))"

record response =
  rs_code :: int
  rs_status :: string
  rs_ctype :: string
  rs_body :: body

definition StatusBadRequest :: int where "StatusBadRequest = 400"

definition readAPIError :: "response \<Rightarrow> go_error" where
  "readAPIError resp =
     (let msg = trim_space (take (4 * 1024) (bd_bytes (rs_body resp)));
          msg = (if msg = [] then rs_status resp else msg)
      in APIError (rs_code resp) msg (rs_code resp = StatusBadRequest \<and> rx_match contextOverflowRe msg))"

text \<open>\<open>utf8.Valid\<close>: no byte that decodes alone to U+FFFD, which no ASCII byte does.\<close>

function utf8_Valid :: "string \<Rightarrow> bool" where
  "utf8_Valid [] = True"
| "utf8_Valid (c # s) =
     (if byte c < 128 then utf8_Valid s
      else if decode_rune (c # s) = (RuneError, 1) then False
      else utf8_Valid (drop (snd (decode_rune (c # s))) (c # s)))"
  by pat_completeness auto
termination
  by (relation "measure length") (auto simp: decode_rune_shrinks)

declare utf8_Valid.simps(2) [simp del]

primrec trim_invalid :: "nat \<Rightarrow> string \<Rightarrow> string" where
  "trim_invalid 0 s = s"
| "trim_invalid (Suc n) s = (if s \<noteq> [] \<and> \<not> utf8_Valid s then trim_invalid n (butlast s) else s)"

definition readCapped :: "body \<Rightarrow> nat \<Rightarrow> go_error + string \<times> bool" where
  "readCapped b cap =
     (let got = take (cap + 1) (bd_bytes b) in
      case (if length (bd_bytes b) \<le> cap then bd_err b else None) of
        Some e \<Rightarrow> Inl e
      | None \<Rightarrow>
          if length got \<le> cap then Inr (got, False)
          else Inr (trim_invalid 3 (take cap got), True))"

section \<open>Facts\<close>

lemma sse_lines_inv:
  assumes "\<And>d st. P st \<Longrightarrow> P (snd (on d st))" "P st"
  shows "P (snd (sse_lines on e ls st))"
  using assms(2)
proof (induction ls arbitrary: st)
  case (Cons l ls)
  show ?case
    using Cons.prems Cons.IH assms(1)
    by (auto split: option.splits prod.splits) (metis snd_conv)+
qed simp

lemma scanSSE_inv:
  "(\<And>d st. P st \<Longrightarrow> P (snd (on d st))) \<Longrightarrow> P st \<Longrightarrow> P (snd (scanSSE b on st))"
  unfolding scanSSE_def by (rule sse_lines_inv)

end
