(* ===== verification/DecoderSink.thy ===== *)
theory DecoderSink
  imports Sse SessionTree
begin

text \<open>
  What a provider's decoder and its \<open>CallSink\<close> share (\<open>core/callsink.go\<close>, \<open>core/streamcall.go\<close>). A
  decoder is run against a sink it only hears an error from; the sink is a function from the events it
  has been given to that error. The nodes a decoder starts are shared with the sink, so their contents
  are what the events have made of them.
\<close>

type_synonym sink_log = "sink_event list"
type_synonym sink_answer = "sink_log \<Rightarrow> go_error option"

text \<open>\<open>Collector\<close> and the session's sink treat a node alike: one event, over the bodies by order of start.\<close>

definition upd_body :: "nat \<Rightarrow> (node_body \<Rightarrow> node_body) \<Rightarrow> node_body list \<Rightarrow> node_body list" where
  "upd_body i f bs = (if i < length bs then bs[i := f (bs ! i)] else bs)"

definition append_body :: "field_id \<Rightarrow> string \<Rightarrow> node_body \<Rightarrow> node_body" where
  "append_body f d b = (if field_of b f then map_stream (ss_append d) b else b)"

definition finish_body :: "node_body \<Rightarrow> node_body" where
  "finish_body b = map_stream (\<lambda>s. if ss_done s then s else FinishStreamed s) b"

fun play :: "node_body list \<Rightarrow> sink_event \<Rightarrow> node_body list" where
  "play bs (EvStart b) = bs @ [begun_body b]"
| "play bs (EvDelta i f d) = upd_body i (append_body f d) bs"
| "play bs (EvFill i fl) = upd_body i (fill_body fl) bs"
| "play bs (EvDone i) = upd_body i finish_body bs"
| "play bs (EvRetry a) = map (map_stream ss_restart) bs"
| "play bs _ = bs"

definition bodies :: "sink_log \<Rightarrow> node_body list" where
  "bodies out = foldl play [] out"

lemma bodies_simps [simp]: "bodies [] = []" "bodies (out @ [e]) = play (bodies out) e"
  by (simp_all add: bodies_def)

lemma length_upd_body [simp]: "length (upd_body i f bs) = length bs"
  by (simp add: upd_body_def)

lemma nth_upd_body: "j < length bs \<Longrightarrow> upd_body i f bs ! j = (if i = j then f (bs ! j) else bs ! j)"
  by (auto simp: upd_body_def)

text \<open>
  A decoder's own message: the nodes it lists, each finished on what streamed without being announced.
\<close>

definition message_of :: "sink_log \<Rightarrow> nat list \<Rightarrow> Message" where
  "message_of out is = MessageFromNodes (map (\<lambda>i. new_node (finish_body (bodies out ! i))) is)"

section \<open>A call that arrived whole\<close>

text \<open>The nodes of an assistant message, which are complete when they start.\<close>

fun whole_begun :: "node_body \<Rightarrow> begun option" where
  "whole_begun (AssistantNode s) = Some (WholeText (ss_current s))"
| "whole_begun (ThinkingNode s t) = Some (WholeThinking (ss_current s) t)"
| "whole_begun (ToolCallNode i name args) = Some (WholeCall i name (ss_current args))"
| "whole_begun (RawBlockNode ty json d) = Some (BeginRaw ty json d)"
| "whole_begun _ = None"

definition turn_events :: "Message \<Rightarrow> Dialect \<Rightarrow> sink_log" where
  "turn_events m d = map EvStart (List.map_filter (\<lambda>n. whole_begun (n_body n)) (NodesFromMessage 0 m d))"

text \<open>\<open>completionIntoSink\<close>; the timings of a plain response are none.\<close>

definition completionIntoSink :: "go_error + CoreCompletion \<Rightarrow> sink_answer \<Rightarrow> Dialect
    \<Rightarrow> (CoreCompletion option \<times> go_error option) \<times> sink_log" where
  "completionIntoSink parsed err d =
     (case parsed of
        Inl e \<Rightarrow> ((None, Some e), [])
      | Inr c \<Rightarrow>
          (let out = turn_events (cc_message c) d @ map EvUsage (cc_usages c)
           in ((Some c, err out), out)))"

end
