(* ===== verification/AnthropicStream.thy ===== *)
theory AnthropicStream
  imports DecoderSink Json
begin

text \<open>
  The Messages API's stream (\<open>core/anthropic_stream.go\<close>): events decoded into nodes, one per content
  block, and into a completion. \<open>json.Unmarshal\<close> into the event struct is the parameter \<open>decode\<close>
  (\<open>None\<close> where it fails), and \<open>raw\<close> is the verbatim content block of a payload. A node is named by the
  order it was started in, as in the sink's events.
\<close>

section \<open>The wire\<close>

record anUsage =
  au_input :: int
  au_output :: "int option"
  au_cacheRead :: "int option"
  au_cacheCreation :: "int option"

record anMessageStart =
  ms_usage :: "anUsage option"
  ms_model :: string

record anContentBlock =
  cb_type :: string
  cb_id :: string
  cb_name :: string
  cb_text :: string
  cb_thinking :: string
  cb_signature :: string
  cb_data :: string

record anDelta =
  ad_type :: string
  ad_text :: string
  ad_thinking :: string
  ad_signature :: string
  ad_partial :: string
  ad_stop :: string

record anEvent =
  ev_type :: string
  ev_index :: int
  ev_message :: "anMessageStart option"
  ev_block :: "anContentBlock option"
  ev_delta :: "anDelta option"
  ev_usage :: "anUsage option"
  ev_error :: "string option"

record an_json =
  aj_decode :: "string \<Rightarrow> anEvent option"
  aj_raw :: "string \<Rightarrow> string"

definition anthropicErrorStatus :: "string \<Rightarrow> int" where
  "anthropicErrorStatus errType =
     (if errType = ''invalid_request_error'' then 400
      else if errType = ''authentication_error'' then 401
      else if errType = ''permission_error'' \<or> errType = ''billing_error'' then 403
      else if errType = ''not_found_error'' then 404
      else if errType = ''request_too_large'' then 413
      else if errType = ''rate_limit_error'' then 429
      else if errType = ''api_error'' then 500
      else if errType = ''overloaded_error'' then 529
      else 500)"

section \<open>The decoder\<close>

record anStream =
  an_out :: sink_log
  an_blocks :: "int \<rightharpoonup> nat"
  an_nodes :: "nat list"
  an_stop :: string
  an_input :: int
  an_output :: int
  an_cacheRead :: "int option"
  an_cacheWrite :: "int option"
  an_haveUsage :: bool
  an_model :: string
  an_sawData :: bool

definition newANStream :: anStream where
  "newANStream = \<lparr>an_out = [], an_blocks = Map.empty, an_nodes = [], an_stop = [], an_input = 0, an_output = 0,
     an_cacheRead = None, an_cacheWrite = None, an_haveUsage = False, an_model = [], an_sawData = False\<rparr>"

definition an_tell :: "sink_event \<Rightarrow> anStream \<Rightarrow> anStream" where
  "an_tell e st = st\<lparr>an_out := an_out st @ [e]\<rparr>"

definition an_body :: "anStream \<Rightarrow> nat \<Rightarrow> node_body" where
  "an_body st n = bodies (an_out st) ! n"

definition an_start :: "int \<Rightarrow> begun \<Rightarrow> anStream \<Rightarrow> anStream" where
  "an_start index b st =
     (let n = length (bodies (an_out st))
      in an_tell (EvStart b) (st\<lparr>an_blocks := (an_blocks st)(index \<mapsto> n), an_nodes := an_nodes st @ [n]\<rparr>))"

definition blockFor :: "int \<Rightarrow> begun \<Rightarrow> anStream \<Rightarrow> nat \<times> anStream" where
  "blockFor index b st =
     (case an_blocks st index of
        Some n \<Rightarrow> (n, st)
      | None \<Rightarrow> (length (bodies (an_out st)), an_start index b st))"

definition anthropic_thinking :: "string \<Rightarrow> thinking_data" where
  "anthropic_thinking signature =
     \<lparr>th_signature = NewEncryptedReasoning signature, th_encrypted = None, th_redacted = None, th_itemID = [],
      th_details = [], th_raw = False, th_dialect = DialectAnthropic\<rparr>"

definition anthropic_redacted :: "string \<Rightarrow> thinking_data" where
  "anthropic_redacted data = (anthropic_thinking [])\<lparr>th_redacted := NewEncryptedReasoning data\<rparr>"

definition an_done_open :: "int \<Rightarrow> anStream \<Rightarrow> anStream" where
  "an_done_open index st =
     (case an_blocks st index of
        None \<Rightarrow> st
      | Some n \<Rightarrow> if node_final (an_body st n) then st else an_tell (EvDone n) st)"

definition startBlock :: "(string \<Rightarrow> string) \<Rightarrow> int \<Rightarrow> anContentBlock \<Rightarrow> string \<Rightarrow> anStream \<Rightarrow> anStream" where
  "startBlock raw index cb data st =
     (let st = an_done_open index st;
          n = length (bodies (an_out st))
      in if cb_type cb = ''text'' then
           (let st = an_start index BeginText st
            in if cb_text cb \<noteq> [] then an_tell (EvDelta n FieldText (cb_text cb)) st else st)
         else if cb_type cb = ''tool_use'' then an_start index (BeginCall (cb_id cb) (cb_name cb)) st
         else if cb_type cb = ''thinking'' then
           (let st = an_start index (BeginThinking (anthropic_thinking (cb_signature cb))) st
            in if cb_thinking cb \<noteq> [] then an_tell (EvDelta n FieldText (cb_thinking cb)) st else st)
         else if cb_type cb = ''redacted_thinking'' then
           an_start index (WholeThinking [] (anthropic_redacted (cb_data cb))) st
         else an_start index (BeginRaw (cb_type cb) (raw data) DialectAnthropic) st)"

definition anDelta_do :: "int \<Rightarrow> anDelta \<Rightarrow> anStream \<Rightarrow> anStream" where
  "anDelta_do index d st =
     (if ad_type d = ''text_delta'' then
        (let (n, st) = blockFor index BeginText st in an_tell (EvDelta n FieldText (ad_text d)) st)
      else if ad_type d = ''thinking_delta'' then
        (let (n, st) = blockFor index (BeginThinking (anthropic_thinking [])) st
         in an_tell (EvDelta n FieldText (ad_thinking d)) st)
      else if ad_type d = ''signature_delta'' then
        (case an_blocks st index of
           None \<Rightarrow> st
         | Some n \<Rightarrow>
             (case an_body st n of
                ThinkingNode s t \<Rightarrow>
                  if ad_signature d \<noteq> []
                  then an_tell (EvFill n (FillThinking (t\<lparr>th_signature := NewEncryptedReasoning (ad_signature d)\<rparr>))) st
                  else st
              | _ \<Rightarrow> st))
      else if ad_type d = ''input_json_delta'' then
        (case an_blocks st index of
           None \<Rightarrow> st
         | Some n \<Rightarrow>
             (case an_body st n of
                ToolCallNode _ _ _ \<Rightarrow> an_tell (EvDelta n FieldArguments (ad_partial d)) st
              | _ \<Rightarrow> st))
      else st)"

definition an_currentUsage :: "anStream \<Rightarrow> Usage" where
  "an_currentUsage st =
     (let read = (case an_cacheRead st of Some r \<Rightarrow> r | None \<Rightarrow> 0);
          write = (case an_cacheWrite st of Some w \<Rightarrow> w | None \<Rightarrow> 0);
          prompt = an_input st + read + write
      in zero_usage\<lparr>u_prompt := prompt, u_completion := an_output st, u_cacheRead := an_cacheRead st,
           u_cacheWrite := an_cacheWrite st, u_total := prompt + an_output st\<rparr>)"

definition an_error :: "anEvent \<Rightarrow> string \<Rightarrow> go_error" where
  "an_error msg data =
     (let status = anthropicErrorStatus (case ev_error msg of Some t \<Rightarrow> t | None \<Rightarrow> [])
      in APIError status data (status = StatusBadRequest \<and> rx_match contextOverflowRe data))"

definition an_saw :: "anStream \<Rightarrow> anStream" where "an_saw st = st\<lparr>an_sawData := True\<rparr>"

text \<open>One event; the sink's error is read after it where the code asks for it.\<close>

definition an_message_start :: "anEvent \<Rightarrow> anStream \<Rightarrow> bool \<times> anStream" where
  "an_message_start msg st =
     (case ev_message msg of
        None \<Rightarrow> (False, st)
      | Some m \<Rightarrow>
          (let st = (if ms_model m \<noteq> [] then st\<lparr>an_model := ms_model m\<rparr> else st)
           in case ms_usage m of
                None \<Rightarrow> (False, st)
              | Some u \<Rightarrow>
                  (let st = st\<lparr>an_haveUsage := True, an_input := au_input u, an_cacheRead := au_cacheRead u,
                                an_cacheWrite := au_cacheCreation u,
                                an_output := (case au_output u of Some o' \<Rightarrow> o' | None \<Rightarrow> an_output st)\<rparr>
                   in (True, an_tell (EvUsage (an_currentUsage st)) st))))"

definition an_message_delta :: "anEvent \<Rightarrow> anStream \<Rightarrow> bool \<times> anStream" where
  "an_message_delta msg st =
     (let st = (case ev_delta msg of
                  Some d \<Rightarrow> if ad_stop d \<noteq> [] then st\<lparr>an_stop := ad_stop d\<rparr> else st
                | None \<Rightarrow> st)
      in case ev_usage msg of
           None \<Rightarrow> (False, st)
         | Some u \<Rightarrow>
             (case au_output u of
                None \<Rightarrow> (False, st)
              | Some o' \<Rightarrow>
                  (let st = st\<lparr>an_haveUsage := True, an_output := o'\<rparr>
                   in (True, an_tell (EvUsage (an_currentUsage st)) st))))"

definition an_event :: "an_json \<Rightarrow> string \<Rightarrow> anEvent \<Rightarrow> anStream \<Rightarrow> bool \<times> anStream" where
  "an_event js data msg st =
     (if ev_type msg = ''message_start'' then an_message_start msg (an_saw st)
      else if ev_type msg = ''content_block_start'' then
        (case ev_block msg of
           None \<Rightarrow> (False, an_saw st)
         | Some cb \<Rightarrow> (True, startBlock (aj_raw js) (ev_index msg) cb data (an_saw st)))
      else if ev_type msg = ''content_block_delta'' then
        (case ev_delta msg of
           None \<Rightarrow> (False, an_saw st)
         | Some d \<Rightarrow> (True, anDelta_do (ev_index msg) d (an_saw st)))
      else if ev_type msg = ''content_block_stop'' then (True, an_done_open (ev_index msg) (an_saw st))
      else if ev_type msg = ''message_delta'' then an_message_delta msg (an_saw st)
      else if ev_type msg = ''message_stop'' then (False, an_saw st)
      else (False, st))"

definition an_onData :: "an_json \<Rightarrow> sink_answer \<Rightarrow> string \<Rightarrow> anStream \<Rightarrow> go_error option \<times> anStream" where
  "an_onData js err data st =
     (case aj_decode js data of
        None \<Rightarrow> (None, st)
      | Some msg \<Rightarrow>
          if ev_type msg = ''error'' then (Some (an_error msg data), st)
          else (let (asks, st) = an_event js data msg st in (if asks then err (an_out st) else None, st)))"

section \<open>The completion\<close>

definition jint :: "int \<Rightarrow> json" where "jint i = JNum (itoa i)"

definition anRawUsageJSON :: "int \<Rightarrow> int \<Rightarrow> int option \<Rightarrow> int option \<Rightarrow> string" where
  "anRawUsageJSON input output read write =
     (let m = jmap [(''input_tokens'', jint input), (''output_tokens'', jint output)];
          m = (case read of Some r \<Rightarrow> jset ''cache_read_input_tokens'' (jint r) m | None \<Rightarrow> m);
          m = (case write of Some w \<Rightarrow> jset ''cache_creation_input_tokens'' (jint w) m | None \<Rightarrow> m)
      in json_text (JObj m))"

definition an_completion :: "anStream \<Rightarrow> CoreCompletion" where
  "an_completion st =
     (let haveCall = (\<exists>n\<in>set (an_nodes st). is_call_node (an_body st n));
          stop = (if an_stop st = [] then (if haveCall then StopToolUse else StopEndTurn) else an_stop st)
      in \<lparr>cc_message = message_of (an_out st) (an_nodes st),
          cc_usages = (if an_haveUsage st
             then [(an_currentUsage st)\<lparr>u_raw := anRawUsageJSON (an_input st) (an_output st) (an_cacheRead st) (an_cacheWrite st)\<rparr>]
             else []),
          cc_streamed = True, cc_stop = stop, cc_model = an_model st, cc_routed = []\<rparr>)"

text \<open>The end of \<open>Stream\<close> on an event stream.\<close>

definition an_streamed :: "an_json \<Rightarrow> sink_answer \<Rightarrow> body \<Rightarrow> (CoreCompletion option \<times> go_error option) \<times> sink_log" where
  "an_streamed js err b =
     (case scanSSE b (an_onData js err) newANStream of
        (Some e, st) \<Rightarrow>
          ((if an_sawData st then Some (an_completion st) else None, Some (Wrapped ''anthropic: '' e)), an_out st)
      | (None, st) \<Rightarrow> ((Some (an_completion st), err (an_out st)), an_out st))"

end
