(* ===== verification/AnthropicProps.thy ===== *)
theory AnthropicProps
  imports AnthropicStream
begin

text \<open>
  What the Messages API decoder guarantees: a turn comes out as the parts the server sent, however their
  text was cut into deltas, and a call that fails without a completion has told the sink nothing.
\<close>

section \<open>A turn as its blocks\<close>

text \<open>A content block as the server streams it: what it announces, and the deltas of its text.\<close>

datatype block =
    TextBlock "string list"
  | ThinkingStream "string list" string
  | CallStream string string "string list"
  | RedactedStream string

fun block_parts :: "block \<Rightarrow> Part list" where
  "block_parts (TextBlock ds) = (if concat ds = [] then [] else [TextPart (concat ds)])"
| "block_parts (ThinkingStream ds sig) = [ThinkingPart (concat ds) sig [] False]"
| "block_parts (CallStream i name ds) = [ToolCallPart i name (toolArgs (concat ds))]"
| "block_parts (RedactedStream d) = (if d = [] then [ThinkingPart [] [] [] False] else [RedactedThinkingPart d])"

definition plain_event :: "string \<Rightarrow> int \<Rightarrow> anEvent" where
  "plain_event ty i = \<lparr>ev_type = ty, ev_index = i, ev_message = None, ev_block = None, ev_delta = None,
     ev_usage = None, ev_error = None\<rparr>"

definition plain_block :: "string \<Rightarrow> anContentBlock" where
  "plain_block ty = \<lparr>cb_type = ty, cb_id = [], cb_name = [], cb_text = [], cb_thinking = [], cb_signature = [], cb_data = []\<rparr>"

definition plain_delta :: "string \<Rightarrow> anDelta" where
  "plain_delta ty = \<lparr>ad_type = ty, ad_text = [], ad_thinking = [], ad_signature = [], ad_partial = [], ad_stop = []\<rparr>"

definition start_event :: "int \<Rightarrow> anContentBlock \<Rightarrow> anEvent" where
  "start_event i cb = (plain_event ''content_block_start'' i)\<lparr>ev_block := Some cb\<rparr>"

definition delta_event :: "int \<Rightarrow> anDelta \<Rightarrow> anEvent" where
  "delta_event i d = (plain_event ''content_block_delta'' i)\<lparr>ev_delta := Some d\<rparr>"

definition stop_event :: "int \<Rightarrow> anEvent" where "stop_event i = plain_event ''content_block_stop'' i"

fun block_start :: "block \<Rightarrow> anContentBlock" where
  "block_start (TextBlock ds) = plain_block ''text''"
| "block_start (ThinkingStream ds sig) = plain_block ''thinking''"
| "block_start (CallStream i name ds) = (plain_block ''tool_use'')\<lparr>cb_id := i, cb_name := name\<rparr>"
| "block_start (RedactedStream d) = (plain_block ''redacted_thinking'')\<lparr>cb_data := d\<rparr>"

fun block_deltas :: "block \<Rightarrow> anDelta list" where
  "block_deltas (TextBlock ds) = map (\<lambda>d. (plain_delta ''text_delta'')\<lparr>ad_text := d\<rparr>) ds"
| "block_deltas (ThinkingStream ds sig) =
     map (\<lambda>d. (plain_delta ''thinking_delta'')\<lparr>ad_thinking := d\<rparr>) ds
     @ [(plain_delta ''signature_delta'')\<lparr>ad_signature := sig\<rparr>]"
| "block_deltas (CallStream i name ds) = map (\<lambda>d. (plain_delta ''input_json_delta'')\<lparr>ad_partial := d\<rparr>) ds"
| "block_deltas (RedactedStream d) = []"

definition block_events :: "int \<Rightarrow> block \<Rightarrow> anEvent list" where
  "block_events i b = start_event i (block_start b) # map (delta_event i) (block_deltas b) @ [stop_event i]"

primrec blocks_events :: "int \<Rightarrow> block list \<Rightarrow> anEvent list" where
  "blocks_events i [] = []"
| "blocks_events i (b # bs) = block_events i b @ blocks_events (i + 1) bs"

definition turn_start :: "string \<Rightarrow> anUsage \<Rightarrow> anEvent" where
  "turn_start model u = (plain_event ''message_start'' 0)\<lparr>ev_message := Some \<lparr>ms_usage = Some u, ms_model = model\<rparr>\<rparr>"

definition turn_end :: "string \<Rightarrow> int \<Rightarrow> anEvent" where
  "turn_end stop n = (plain_event ''message_delta'' 0)\<lparr>ev_delta := Some ((plain_delta [])\<lparr>ad_stop := stop\<rparr>),
     ev_usage := Some \<lparr>au_input = 0, au_output = Some n, au_cacheRead = None, au_cacheCreation = None\<rparr>\<rparr>"

text \<open>The events of a whole turn: its usage and model first, the stop reason and the output tokens last.\<close>

definition turn_script :: "string \<Rightarrow> anUsage \<Rightarrow> block list \<Rightarrow> string \<Rightarrow> int \<Rightarrow> anEvent list" where
  "turn_script model u bs stop n =
     turn_start model u # blocks_events 0 bs @ [turn_end stop n, plain_event ''message_stop'' 0]"

lemmas script_defs = turn_start_def turn_end_def start_event_def delta_event_def stop_event_def
  plain_event_def plain_block_def plain_delta_def

section \<open>Running a script\<close>

definition an_play :: "an_json \<Rightarrow> anEvent list \<Rightarrow> anStream \<Rightarrow> anStream" where
  "an_play js evs st = foldl (\<lambda>st ev. snd (an_event js [] ev st)) st evs"

lemma an_play_simps [simp]:
  "an_play js [] st = st" "an_play js (e # es) st = an_play js es (snd (an_event js [] e st))"
  "an_play js (es @ fs) st = an_play js fs (an_play js es st)"
  by (simp_all add: an_play_def)

lemma upd_body_last [simp]: "upd_body (length bs) f (bs @ [b]) = bs @ [f b]"
  by (simp add: upd_body_def)

lemma nth_last [simp]: "(bs @ [b]) ! length bs = b"
  by simp

lemma an_tell_simps [simp]:
  "an_out (an_tell e st) = an_out st @ [e]" "an_blocks (an_tell e st) = an_blocks st" "an_nodes (an_tell e st) = an_nodes st"
  "an_stop (an_tell e st) = an_stop st" "an_input (an_tell e st) = an_input st" "an_output (an_tell e st) = an_output st"
  "an_cacheRead (an_tell e st) = an_cacheRead st" "an_cacheWrite (an_tell e st) = an_cacheWrite st"
  "an_haveUsage (an_tell e st) = an_haveUsage st" "an_model (an_tell e st) = an_model st" "an_sawData (an_tell e st) = an_sawData st"
  by (simp_all add: an_tell_def)

text \<open>The bookkeeping a block's events leave alone.\<close>

definition same_counts :: "anStream \<Rightarrow> anStream \<Rightarrow> bool" where
  "same_counts st st' \<longleftrightarrow> an_stop st' = an_stop st \<and> an_input st' = an_input st \<and> an_output st' = an_output st
     \<and> an_cacheRead st' = an_cacheRead st \<and> an_cacheWrite st' = an_cacheWrite st \<and> an_haveUsage st' = an_haveUsage st
     \<and> an_model st' = an_model st"

text \<open>A block begun as the last node, with the body it has so far.\<close>

definition growing :: "int \<Rightarrow> anStream \<Rightarrow> node_body \<Rightarrow> anStream \<Rightarrow> bool" where
  "growing i st b st' \<longleftrightarrow> bodies (an_out st') = bodies (an_out st) @ [b]
     \<and> an_blocks st' = (an_blocks st)(i \<mapsto> length (bodies (an_out st)))
     \<and> an_nodes st' = an_nodes st @ [length (bodies (an_out st))] \<and> same_counts st st' \<and> an_sawData st'"

lemma growing_start:
  assumes "an_blocks st i = None" "bd = begun_body (case b of TextBlock _ \<Rightarrow> BeginText
      | ThinkingStream _ _ \<Rightarrow> BeginThinking (anthropic_thinking [])
      | CallStream c name _ \<Rightarrow> BeginCall c name
      | RedactedStream d \<Rightarrow> WholeThinking [] (anthropic_redacted d))"
  shows "growing i st bd (snd (an_event js [] (start_event i (block_start b)) st))"
  using assms
  by (cases b) (simp_all add: growing_def same_counts_def an_event_def script_defs startBlock_def an_done_open_def
      an_start_def an_saw_def Let_def)

definition delta_body :: "anDelta \<Rightarrow> node_body \<Rightarrow> node_body" where
  "delta_body d b =
     (case b of
        AssistantNode s \<Rightarrow> AssistantNode (ss_append (ad_text d) s)
      | ThinkingNode s t \<Rightarrow>
          if ad_type d = ''thinking_delta'' then ThinkingNode (ss_append (ad_thinking d) s) t
          else if ad_signature d \<noteq> [] then ThinkingNode s (t\<lparr>th_signature := NewEncryptedReasoning (ad_signature d)\<rparr>)
          else ThinkingNode s t
      | ToolCallNode c name s \<Rightarrow> ToolCallNode c name (ss_append (ad_partial d) s)
      | _ \<Rightarrow> b)"

fun delta_fits :: "node_body \<Rightarrow> anDelta \<Rightarrow> bool" where
  "delta_fits (AssistantNode s) d = (ad_type d = ''text_delta'')"
| "delta_fits (ThinkingNode s t) d = (ad_type d = ''thinking_delta'' \<or> ad_type d = ''signature_delta'')"
| "delta_fits (ToolCallNode c name s) d = (ad_type d = ''input_json_delta'')"
| "delta_fits _ d = False"

lemma growing_delta:
  assumes "growing i st b st'" "delta_fits b d"
  shows "growing i st (delta_body d b) (snd (an_event js [] (delta_event i d) st'))"
  using assms
  by (cases "(b, d)" rule: delta_fits.cases)
    (auto simp: growing_def same_counts_def an_event_def script_defs anDelta_do_def blockFor_def an_saw_def
      an_body_def delta_body_def append_body_def field_of_def)

lemma delta_fits_body [simp]: "delta_fits (delta_body d' b) d = delta_fits b d"
  by (cases b) (auto simp: delta_body_def)

lemma growing_deltas:
  "growing i st b st' \<Longrightarrow> \<forall>d\<in>set ds. delta_fits b d \<Longrightarrow>
   growing i st (foldl (\<lambda>b d. delta_body d b) b ds) (an_play js (map (delta_event i) ds) st')"
proof (induction ds arbitrary: b st')
  case (Cons d ds)
  then show ?case using growing_delta [of i st b st' d js] by simp
qed simp

lemma growing_stop:
  assumes "growing i st b st'"
  shows "growing i st (finish_body b) (snd (an_event js [] (stop_event i) st'))"
proof -
  have "finish_body b = b" if "node_final b" using that by (cases b) (auto simp: finish_body_def)
  then show ?thesis using assms
    by (auto simp: growing_def same_counts_def an_event_def script_defs an_done_open_def an_saw_def an_body_def)
qed

lemma current_appends: "ss_current (foldl (\<lambda>s d. ss_append d s) s ds) = ss_current s @ concat ds"
  by (induction ds arbitrary: s) simp_all

lemma current_finished [simp]: "ss_current (if ss_done s then s else FinishStreamed s) = ss_current s"
  by simp

lemma text_deltas:
  "foldl (\<lambda>b d. delta_body d b) (AssistantNode s) (map (\<lambda>d. (plain_delta ''text_delta'')\<lparr>ad_text := d\<rparr>) ds)
     = AssistantNode (foldl (\<lambda>s d. ss_append d s) s ds)"
  "foldl (\<lambda>b d. delta_body d b) (ThinkingNode s t) (map (\<lambda>d. (plain_delta ''thinking_delta'')\<lparr>ad_thinking := d\<rparr>) ds)
     = ThinkingNode (foldl (\<lambda>s d. ss_append d s) s ds) t"
  "foldl (\<lambda>b d. delta_body d b) (ToolCallNode c name s) (map (\<lambda>d. (plain_delta ''input_json_delta'')\<lparr>ad_partial := d\<rparr>) ds)
     = ToolCallNode c name (foldl (\<lambda>s d. ss_append d s) s ds)"
  by (induction ds arbitrary: s) (simp_all add: delta_body_def plain_delta_def)

fun calls_tool :: "block \<Rightarrow> bool" where
  "calls_tool (CallStream i name ds) = True" | "calls_tool _ = False"

text \<open>The body a block leaves, before its end is announced.\<close>

definition block_body :: "block \<Rightarrow> node_body" where
  "block_body b = foldl (\<lambda>x d. delta_body d x) (begun_body (case b of
      TextBlock _ \<Rightarrow> BeginText
    | ThinkingStream _ _ \<Rightarrow> BeginThinking (anthropic_thinking [])
    | CallStream c name _ \<Rightarrow> BeginCall c name
    | RedactedStream d \<Rightarrow> WholeThinking [] (anthropic_redacted d))) (block_deltas b)"

definition parts_of_bodies :: "node_body list \<Rightarrow> Part list" where
  "parts_of_bodies bs = List.map_filter (\<lambda>b. partOf (finish_body b)) bs"

lemma parts_of_bodies_simps [simp]:
  "parts_of_bodies [] = []" "parts_of_bodies (bs @ cs) = parts_of_bodies bs @ parts_of_bodies cs"
  by (simp_all add: parts_of_bodies_def map_filter_def)

lemma finish_finished [simp]: "finish_body (finish_body b) = finish_body b"
  by (cases b) (simp_all add: finish_body_def)

lemma finish_simps [simp]:
  "finish_body (AssistantNode s) = AssistantNode (if ss_done s then s else FinishStreamed s)"
  "finish_body (ThinkingNode s t) = ThinkingNode (if ss_done s then s else FinishStreamed s) t"
  "finish_body (ToolCallNode i name s) = ToolCallNode i name (if ss_done s then s else FinishStreamed s)"
  by (simp_all add: finish_body_def)

lemma block_body_cases:
  "block_body (TextBlock ds) = AssistantNode (foldl (\<lambda>s d. ss_append d s) NewStreamString ds)"
  "block_body (ThinkingStream ds sig) = ThinkingNode (foldl (\<lambda>s d. ss_append d s) NewStreamString ds) (anthropic_thinking sig)"
  "block_body (CallStream i name ds) = ToolCallNode i name (foldl (\<lambda>s d. ss_append d s) NewStreamString ds)"
  "block_body (RedactedStream d) = ThinkingNode (FinishedString []) (anthropic_redacted d)"
  by (simp_all add: block_body_def text_deltas)
    (simp add: delta_body_def plain_delta_def anthropic_thinking_def NewEncryptedReasoning_def)

lemma block_body_parts: "parts_of_bodies [finish_body (block_body b)] = block_parts b"
proof (cases b)
  case (RedactedStream d)
  then show ?thesis
    by (simp add: block_body_cases parts_of_bodies_def map_filter_def anthropic_redacted_def anthropic_thinking_def
        NewEncryptedReasoning_def thinkingBlob_def)
next
  case (ThinkingStream ds sig)
  then show ?thesis
    by (simp add: block_body_cases parts_of_bodies_def map_filter_def anthropic_thinking_def NewEncryptedReasoning_def
        thinkingBlob_def current_appends)
qed (simp_all add: block_body_cases parts_of_bodies_def map_filter_def current_appends)

lemma block_body_call: "is_call_node (finish_body (block_body b)) = calls_tool b"
  by (cases b) (simp_all add: block_body_cases)

lemma block_deltas_fit: "\<forall>d\<in>set (block_deltas b). delta_fits (begun_body (case b of
      TextBlock _ \<Rightarrow> BeginText
    | ThinkingStream _ _ \<Rightarrow> BeginThinking (anthropic_thinking [])
    | CallStream c name _ \<Rightarrow> BeginCall c name
    | RedactedStream d \<Rightarrow> WholeThinking [] (anthropic_redacted d))) d"
  by (cases b) (auto simp: plain_delta_def)

lemma block_grows:
  assumes "an_blocks st i = None"
  shows "growing i st (finish_body (block_body b)) (an_play js (block_events i b) st)"
proof -
  note s = growing_start [OF assms refl, of b js]
  from growing_stop [OF growing_deltas [OF s block_deltas_fit]]
  show ?thesis by (simp add: block_events_def block_body_def)
qed

lemma blocks_grow:
  assumes "\<forall>j\<ge>i. an_blocks st j = None"
  shows "let st' = an_play js (blocks_events i bs) st; new = map (\<lambda>b. finish_body (block_body b)) bs
     in bodies (an_out st') = bodies (an_out st) @ new
        \<and> an_nodes st' = an_nodes st @ [length (bodies (an_out st))..<length (bodies (an_out st)) + length bs]
        \<and> same_counts st st'"
  using assms
proof (induction bs arbitrary: i st)
  case (Cons b bs)
  have "an_blocks st i = None" using Cons.prems by simp
  from block_grows [OF this, of b js]
  have g: "growing i st (finish_body (block_body b)) (an_play js (block_events i b) st)" (is "growing i st ?b ?st") .
  then have none: "\<forall>j\<ge>i + 1. an_blocks ?st j = None" using Cons.prems by (simp add: growing_def)
  let ?fin = "an_play js (blocks_events (i + 1) bs) ?st"
  have e: "bodies (an_out ?fin) = bodies (an_out ?st) @ map (\<lambda>b. finish_body (block_body b)) bs"
    "an_nodes ?fin = an_nodes ?st @ [length (bodies (an_out ?st))..<length (bodies (an_out ?st)) + length bs]"
    "same_counts ?st ?fin"
    using Cons.IH [OF none] by (simp_all only: Let_def)
  have f: "bodies (an_out ?st) = bodies (an_out st) @ [?b]" "an_nodes ?st = an_nodes st @ [length (bodies (an_out st))]"
    "same_counts st ?st"
    using g by (simp_all add: growing_def)
  have "same_counts st ?fin" using e(3) f(3) by (simp add: same_counts_def)
  moreover have "[length (bodies (an_out st))..<length (bodies (an_out st)) + length (b # bs)]
      = length (bodies (an_out st)) # [length (bodies (an_out ?st))..<length (bodies (an_out ?st)) + length bs]"
    using f(1) by (simp add: upt_conv_Cons del: upt_Suc)
  ultimately show ?case using e(1,2) f(1,2) by (simp add: Let_def del: upt_Suc)
qed (simp add: same_counts_def)

section \<open>Through the event stream\<close>

primrec payload_list :: "string list \<Rightarrow> string list" where
  "payload_list [] = []"
| "payload_list (l # ls) =
     (case sse_data l of
        None \<Rightarrow> payload_list ls
      | Some d \<Rightarrow> if d = done_mark then [] else d # payload_list ls)"

definition payloads :: "body \<Rightarrow> string list" where
  "payloads b = payload_list (scan_lines (bd_bytes b))"

definition data_free :: "an_json \<Rightarrow> anEvent \<Rightarrow> bool" where
  "data_free js ev \<longleftrightarrow> ev_type ev \<noteq> ''error'' \<and> (\<forall>data st. an_event js data ev st = an_event js [] ev st)"

lemma onData_play:
  assumes "data_free js ev" "aj_decode js d = Some ev" "\<And>out. err out = None"
  shows "an_onData js err d st = (None, snd (an_event js [] ev st))"
proof -
  have "an_event js d ev st = an_event js [] ev st" "ev_type ev \<noteq> ''error''"
    using assms(1) unfolding data_free_def by blast+
  then show ?thesis using assms(2,3) by (simp add: an_onData_def case_prod_unfold Let_def)
qed

lemma sse_play:
  assumes "\<And>out. err out = None"
  shows "\<forall>ev\<in>set evs. data_free js ev \<Longrightarrow> map (aj_decode js) (payload_list ls) = map Some evs \<Longrightarrow>
    sse_lines (an_onData js err) None ls st = (None, an_play js evs st)"
proof (induction ls arbitrary: evs st)
  case (Cons l ls)
  show ?case
  proof (cases "sse_data l")
    case None
    then show ?thesis using Cons by simp
  next
    case (Some d)
    show ?thesis
    proof (cases "d = done_mark")
      case True
      then show ?thesis using Some Cons.prems by simp
    next
      case False
      then obtain ev es where e: "evs = ev # es" "aj_decode js d = Some ev"
        using Cons.prems Some by (cases evs) auto
      then have "an_onData js err d st = (None, snd (an_event js [] ev st))"
        using Cons.prems(1) assms by (intro onData_play) simp_all
      then show ?thesis using Cons Some False e by simp
    qed
  qed
qed simp

lemma block_data_free:
  "data_free js (delta_event i d)" "data_free js (stop_event i)" "data_free js (start_event i (block_start b))"
  by (simp_all add: data_free_def an_event_def delta_event_def stop_event_def start_event_def plain_event_def)
    (cases b; simp add: startBlock_def plain_block_def)

lemma blocks_data_free: "ev \<in> set (blocks_events i bs) \<Longrightarrow> data_free js ev"
  by (induction bs arbitrary: i) (auto simp: block_events_def block_data_free)

lemma script_data_free: "ev \<in> set (turn_script model u bs stop n) \<Longrightarrow> data_free js ev"
proof -
  have "data_free js (turn_start model u)" "data_free js (turn_end stop n)" "data_free js (plain_event ''message_stop'' 0)"
    by (simp_all add: data_free_def an_event_def turn_start_def turn_end_def plain_event_def)
  then show "ev \<in> set (turn_script model u bs stop n) \<Longrightarrow> data_free js ev"
    using blocks_data_free by (auto simp: turn_script_def)
qed

definition script_usage :: "anUsage \<Rightarrow> int \<Rightarrow> Usage" where
  "script_usage u n =
     (let read = (case au_cacheRead u of Some r \<Rightarrow> r | None \<Rightarrow> 0);
          write = (case au_cacheCreation u of Some w \<Rightarrow> w | None \<Rightarrow> 0)
      in zero_usage\<lparr>u_prompt := au_input u + read + write, u_completion := n, u_total := au_input u + read + write + n,
           u_cacheRead := au_cacheRead u, u_cacheWrite := au_cacheCreation u,
           u_raw := anRawUsageJSON (au_input u) n (au_cacheRead u) (au_cacheCreation u)\<rparr>)"

definition script_stop :: "string \<Rightarrow> block list \<Rightarrow> string" where
  "script_stop stop bs =
     (if stop \<noteq> [] then stop else if \<exists>b\<in>set bs. calls_tool b then StopToolUse else StopEndTurn)"

text \<open>The state after a whole script.\<close>

lemma script_played:
  fixes st0 :: anStream
  assumes "st0 = newANStream"
  shows "let st = an_play js (turn_script model u bs stop n) st0
     in bodies (an_out st) = map (\<lambda>b. finish_body (block_body b)) bs \<and> an_nodes st = [0..<length bs] \<and> an_stop st = stop
        \<and> an_model st = model \<and> an_haveUsage st \<and> an_input st = au_input u \<and> an_output st = n
        \<and> an_cacheRead st = au_cacheRead u \<and> an_cacheWrite st = au_cacheCreation u \<and> an_sawData st"
proof -
  let ?s1 = "snd (an_event js [] (turn_start model u) newANStream)"
  have s1: "bodies (an_out ?s1) = []" "an_nodes ?s1 = []" "an_stop ?s1 = []" "an_model ?s1 = model" "an_haveUsage ?s1"
    "an_input ?s1 = au_input u" "an_cacheRead ?s1 = au_cacheRead u" "an_cacheWrite ?s1 = au_cacheCreation u"
    "an_blocks ?s1 = Map.empty"
    by (auto simp: an_event_def turn_start_def plain_event_def an_message_start_def an_saw_def newANStream_def bodies_def Let_def)
  let ?s2 = "an_play js (blocks_events 0 bs) ?s1"
  have "\<forall>j\<ge>0. an_blocks ?s1 j = None" using s1(9) by simp
  from blocks_grow [OF this, of js bs]
  have s2: "bodies (an_out ?s2) = map (\<lambda>b. finish_body (block_body b)) bs" "an_nodes ?s2 = [0..<length bs]" "same_counts ?s1 ?s2"
    by (simp_all add: Let_def s1)
  let ?s3 = "snd (an_event js [] (turn_end stop n) ?s2)"
  have s3: "bodies (an_out ?s3) = bodies (an_out ?s2)" "an_nodes ?s3 = an_nodes ?s2" "an_stop ?s3 = (if stop = [] then an_stop ?s2 else stop)"
    "an_model ?s3 = an_model ?s2" "an_haveUsage ?s3" "an_input ?s3 = an_input ?s2" "an_output ?s3 = n"
    "an_cacheRead ?s3 = an_cacheRead ?s2" "an_cacheWrite ?s3 = an_cacheWrite ?s2"
    by (simp_all add: an_event_def turn_end_def plain_event_def plain_delta_def an_message_delta_def an_saw_def Let_def)
  have "snd (an_event js [] (plain_event ''message_stop'' 0) ?s3) = an_saw ?s3"
    by (simp add: an_event_def plain_event_def)
  then have "an_play js (turn_script model u bs stop n) st0 = an_saw ?s3" by (simp add: turn_script_def assms)
  then show ?thesis using s1 s2 s3 by (simp add: Let_def same_counts_def an_saw_def)
qed

section \<open>Properties\<close>

text \<open>
  C31. However the server cuts a turn's text, thinking and call arguments into deltas, the completion
  holds the parts the server sent, in order, with the model, the stop reason and the usage it reported:
  the prompt counts its cached tokens, and the total is the sum.
\<close>

theorem anthropic_turn_decoded:
  assumes "scan_err b = None"
    and "map (aj_decode js) (payloads b) = map Some (turn_script model u bs stop n)"
    and "\<And>out. err out = None"
  shows "\<exists>c. fst (an_streamed js err b) = (Some c, None) \<and> msg_parts (cc_message c) = concat (map block_parts bs)
    \<and> cc_model c = model \<and> cc_stop c = script_stop stop bs \<and> cc_usages c = [script_usage u n]"
proof -
  let ?st = "an_play js (turn_script model u bs stop n) newANStream"
  have s: "scanSSE b (an_onData js err) newANStream = (None, ?st)"
    unfolding scanSSE_def assms(1) using script_data_free assms(2,3)
    by (intro sse_play) (auto simp: payloads_def)
  note st = script_played [OF refl, of js model u bs stop n, unfolded Let_def]
  have b: "an_body ?st i = finish_body (block_body (bs ! i))" if "i < length bs" for i
    using st that by (simp add: an_body_def)
  have "map (\<lambda>i. new_node (finish_body (bodies (an_out ?st) ! i))) [0..<length bs]
      = map (\<lambda>x. new_node (finish_body (finish_body (block_body x)))) bs"
    using st by (intro nth_equalityI) simp_all
  then have "msg_parts (cc_message (an_completion ?st)) = parts_of_bodies (map (\<lambda>x. finish_body (block_body x)) bs)"
    using st by (simp add: an_completion_def message_of_def MessageFromNodes_def parts_of_bodies_def map_filter_def
        new_node_def comp_def filter_map)
  also have "\<dots> = concat (map block_parts bs)"
  proof (induction bs)
    case (Cons x xs)
    have "parts_of_bodies (map (\<lambda>x. finish_body (block_body x)) (x # xs))
        = parts_of_bodies ([finish_body (block_body x)] @ map (\<lambda>x. finish_body (block_body x)) xs)" by simp
    then show ?case using Cons by (simp only: parts_of_bodies_simps block_body_parts list.map concat.simps)
  qed simp
  finally have parts: "msg_parts (cc_message (an_completion ?st)) = concat (map block_parts bs)" .
  have "(\<exists>i\<in>set (an_nodes ?st). is_call_node (an_body ?st i)) = (\<exists>i<length bs. calls_tool (bs ! i))"
    using st b by (auto simp: block_body_call)
  also have "\<dots> = (\<exists>x\<in>set bs. calls_tool x)" by (metis in_set_conv_nth)
  finally have "(\<exists>i\<in>set (an_nodes ?st). is_call_node (an_body ?st i)) = (\<exists>x\<in>set bs. calls_tool x)" .
  then have "cc_stop (an_completion ?st) = script_stop stop bs" using st by (simp add: an_completion_def script_stop_def)
  moreover have "cc_usages (an_completion ?st) = [script_usage u n]" "cc_model (an_completion ?st) = model"
    using st by (simp_all add: an_completion_def an_currentUsage_def script_usage_def zero_usage_def Let_def)
  moreover have "fst (an_streamed js err b) = (Some (an_completion ?st), None)"
    using s assms(3) by (simp add: an_streamed_def)
  ultimately show ?thesis using parts by blast
qed

lemma saw_saw [simp]: "an_sawData (an_saw st)"
  by (simp add: an_saw_def)

lemma done_open_saw [simp]: "an_sawData (an_done_open i st) = an_sawData st"
  by (simp add: an_done_open_def split: option.splits)

lemma start_saw [simp]: "an_sawData (an_start i b st) = an_sawData st"
  by (simp add: an_start_def Let_def)

lemma startBlock_saw [simp]: "an_sawData (startBlock raw i cb d st) = an_sawData st"
  by (simp add: startBlock_def Let_def)

lemma blockFor_saw [simp]: "an_sawData (snd (blockFor i b st)) = an_sawData st"
  by (simp add: blockFor_def split: option.splits)

lemma delta_saw [simp]: "an_sawData (anDelta_do i d st) = an_sawData st"
  by (simp add: anDelta_do_def case_prod_unfold Let_def split: option.split node_body.split)

lemma message_saw [simp]:
  "an_sawData (snd (an_message_start msg st)) = an_sawData st" "an_sawData (snd (an_message_delta msg st)) = an_sawData st"
  by (auto simp: an_message_start_def an_message_delta_def Let_def split: option.splits)

lemma event_saw: "an_sawData (snd (an_event js d msg st)) \<or> snd (an_event js d msg st) = st"
  by (simp add: an_event_def split: option.split)

text \<open>A response that streams a word in two deltas and a call, each event as a payload of one letter.\<close>

definition shown_blocks :: "block list" where
  "shown_blocks = [TextBlock [''He'', ''y''], CallStream ''c1'' ''read'' [''{'', ''}'']]"

definition shown_usage :: anUsage where
  "shown_usage = \<lparr>au_input = 7, au_output = Some 1, au_cacheRead = Some 3, au_cacheCreation = None\<rparr>"

definition shown_script :: "anEvent list" where
  "shown_script = turn_script ''m'' shown_usage shown_blocks [] 5"

definition shown_json :: an_json where
  "shown_json = \<lparr>aj_decode = map_of (zip (map (\<lambda>c. [c]) ''abcdefghijk'') shown_script), aj_raw = id\<rparr>"

definition shown_body :: body where
  "shown_body = \<lparr>bd_bytes = concat (map (\<lambda>c. ''data: '' @ [c, NL]) ''abcdefghijk''), bd_err = None\<rparr>"

lemma shown_lines: "raw_lines (bd_bytes shown_body) = map (\<lambda>c. ''data: '' @ [c]) ''abcdefghijk''"
  unfolding shown_body_def by code_simp

lemma shown_payloads: "payloads shown_body = map (\<lambda>c. [c]) ''abcdefghijk''"
proof -
  have "scan_lines (bd_bytes shown_body) = map (\<lambda>c. ''data: '' @ [c]) ''abcdefghijk''"
    by (simp add: scan_lines_def shown_lines drop_cr_def maxLine_def)
  moreover have "payload_list (map (\<lambda>c. ''data: '' @ [c]) ''abcdefghijk'') = map (\<lambda>c. [c]) ''abcdefghijk''"
    by code_simp
  ultimately show ?thesis by (simp add: payloads_def)
qed

lemma lookup_zip: "distinct ks \<Longrightarrow> length ks = length vs \<Longrightarrow> map (map_of (zip ks vs)) ks = map Some vs"
  by (rule nth_equalityI) (simp_all add: map_of_zip_nth)

lemma shown_decodes: "map (aj_decode shown_json) (payloads shown_body) = map Some shown_script"
proof -
  have "length shown_script = 11"
    by (simp add: shown_script_def turn_script_def shown_blocks_def block_events_def)
  then have "map (map_of (zip (map (\<lambda>c. [c]) ''abcdefghijk'') shown_script)) (map (\<lambda>c. [c]) ''abcdefghijk'') = map Some shown_script"
    by (intro lookup_zip) simp_all
  then show ?thesis by (simp only: shown_payloads shown_json_def an_json.simps)
qed

theorem anthropic_turn_decoded_witness:
  "\<exists>c. fst (an_streamed shown_json (\<lambda>_. None) shown_body) = (Some c, None)
     \<and> msg_parts (cc_message c) = [TextPart ''Hey'', ToolCallPart ''c1'' ''read'' ''{}'']
     \<and> cc_stop c = StopToolUse \<and> map u_prompt (cc_usages c) = [10] \<and> map u_total (cc_usages c) = [15]"
proof -
  have "scan_err shown_body = None"
    by (simp add: scan_err_def shown_lines maxLine_def) (simp add: shown_body_def)
  from anthropic_turn_decoded [OF this shown_decodes [unfolded shown_script_def], where err = "\<lambda>_. None"]
  obtain c where c: "fst (an_streamed shown_json (\<lambda>_. None) shown_body) = (Some c, None)"
      "msg_parts (cc_message c) = concat (map block_parts shown_blocks)" "cc_stop c = script_stop [] shown_blocks"
      "cc_usages c = [script_usage shown_usage 5]" by blast
  moreover have "concat (map block_parts shown_blocks) = [TextPart ''Hey'', ToolCallPart ''c1'' ''read'' ''{}'']"
    by code_simp
  moreover have "script_stop [] shown_blocks = StopToolUse" by (simp add: script_stop_def shown_blocks_def)
  moreover have "u_prompt (script_usage shown_usage 5) = 10" "u_total (script_usage shown_usage 5) = 15"
    by (simp_all add: script_usage_def shown_usage_def zero_usage_def Let_def)
  ultimately show ?thesis by auto
qed

section \<open>Silence before the first event\<close>

text \<open>A stream that fails without a completion has told the sink nothing.\<close>

lemma an_streamed_silent:
  "fst (fst (an_streamed js err b)) = None \<Longrightarrow> snd (an_streamed js err b) = []"
proof -
  let ?P = "\<lambda>st. an_sawData st \<or> an_out st = []"
  have "?P (snd (an_onData js err d st))" if "?P st" for d st
  proof (cases "aj_decode js d")
    case (Some msg)
    show ?thesis using that Some event_saw [of js d msg st] by (auto simp: an_onData_def split: prod.splits)
  qed (simp add: that an_onData_def)
  moreover have "?P newANStream" by (simp add: newANStream_def)
  ultimately have "?P (snd (scanSSE b (an_onData js err) newANStream))" by (rule scanSSE_inv)
  then show "fst (fst (an_streamed js err b)) = None \<Longrightarrow> snd (an_streamed js err b) = []"
    by (auto simp: an_streamed_def split: prod.splits option.splits if_splits)
qed

end
