(* ===== verification/DecoderSession.thy ===== *)
theory DecoderSession
  imports SessionProps AnthropicProps
begin

text \<open>
  A decoder streaming into a session: the nodes the session's sink holds are the ones the decoder
  described, so the completion a call returns and the nodes its turn left in the tree are one message.
\<close>

section \<open>The sink's nodes follow the events\<close>

definition node_bodies :: "'w sink \<Rightarrow> node_body list" where
  "node_bodies k = map (\<lambda>a. n_body (s_node (sk_session k) a)) (sk_nodes k)"

definition nodes_fit :: "'w sink \<Rightarrow> bool" where
  "nodes_fit k \<longleftrightarrow> distinct (sk_nodes k) \<and> (\<forall>a\<in>set (sk_nodes k). a < s_size (sk_session k))"

lemma node_bodies_frame [simp]:
  "node_bodies (k\<lparr>sk_world := w\<rparr>) = node_bodies k" "node_bodies (k\<lparr>sk_err := e\<rparr>) = node_bodies k"
  "node_bodies (k\<lparr>sk_scans := sc\<rparr>) = node_bodies k" "node_bodies (k\<lparr>sk_refused := r\<rparr>) = node_bodies k"
  "node_bodies (keep_err e k) = node_bodies k" "node_bodies (sink_emit on ev k) = node_bodies k"
  "node_bodies (k\<lparr>sk_session := upd_call rec f (sk_session k)\<rparr>) = node_bodies k"
  by (simp_all add: node_bodies_def keep_err_def sink_emit_def split: option.splits prod.splits)

lemma sk_nodes_frame [simp]:
  "sk_nodes (keep_err e k) = sk_nodes k" "sk_nodes (sink_emit on ev k) = sk_nodes k" "sk_nodes (on_sink_node a f k) = sk_nodes k"
  "sk_session (keep_err e k) = sk_session k" "sk_session (sink_emit on ev k) = sk_session k"
  by (simp_all add: keep_err_def sink_emit_def on_sink_node_def split: option.splits prod.splits)

lemma on_node_simps [simp]:
  "s_size (sk_session (on_sink_node a f k)) = s_size (sk_session k)"
  "b < s_size (sk_session k) \<Longrightarrow> s_node (sk_session (on_sink_node a f k)) b
     = (if b = a then f (s_node (sk_session k) b) else s_node (sk_session k) b)"
  by (simp_all add: on_sink_node_def s_node_update)

lemma restart_node_body: "n_body (RestartNode n) = map_stream ss_restart (n_body n)"
  by (simp add: RestartNode_def)

lemma watch_frame [simp]: "node_bodies (watchArgs hooks a d k) = node_bodies k" "sk_nodes (watchArgs hooks a d k) = sk_nodes k"
  by (simp_all add: watchArgs_def Let_def split: option.split node_body.split prod.split)

lemma node_bodies_update:
  assumes "nodes_fit k" "i < length (sk_nodes k)" "\<And>n. n_body (f n) = g (n_body n)"
  shows "node_bodies (on_sink_node (sk_nodes k ! i) f k) = upd_body i g (node_bodies k)"
proof (rule nth_equalityI)
  fix j assume "j < length (node_bodies (on_sink_node (sk_nodes k ! i) f k))"
  then have j: "j < length (sk_nodes k)" by (simp add: node_bodies_def)
  then have "sk_nodes k ! j = sk_nodes k ! i \<longleftrightarrow> j = i"
    using assms(1,2) by (auto simp: nodes_fit_def nth_eq_iff_index_eq)
  moreover have "sk_nodes k ! j < s_size (sk_session k)" using assms(1) j by (auto simp: nodes_fit_def)
  ultimately show "node_bodies (on_sink_node (sk_nodes k ! i) f k) ! j = upd_body i g (node_bodies k) ! j"
    using j assms(2,3) by (auto simp: node_bodies_def upd_body_def on_sink_node_def s_node_update)
qed (simp add: node_bodies_def)

lemma restart_bodies:
  "\<forall>a\<in>set ns. a < s_size (sk_session k) \<Longrightarrow> distinct ns \<Longrightarrow> b < s_size (sk_session k) \<Longrightarrow>
   n_body (s_node (sk_session (foldl (\<lambda>k n. on_sink_node n RestartNode k) k ns)) b)
     = (if b \<in> set ns then map_stream ss_restart (n_body (s_node (sk_session k) b)) else n_body (s_node (sk_session k) b))
   \<and> sk_nodes (foldl (\<lambda>k n. on_sink_node n RestartNode k) k ns) = sk_nodes k"
proof (induction ns arbitrary: k)
  case (Cons a ns)
  show ?case using Cons.IH [of "on_sink_node a RestartNode k"] Cons.prems by (auto simp: restart_node_body)
qed simp

lemma retry_bodies:
  assumes "nodes_fit k"
  shows "node_bodies (sink_retry on a k) = map (map_stream ss_restart) (node_bodies k) \<and> sk_nodes (sink_retry on a k) = sk_nodes k"
proof -
  note r = restart_bodies [of "sk_nodes k" "k\<lparr>sk_scans := Map.empty\<rparr>"]
  have n: "sk_nodes (sink_retry on a k) = sk_nodes k"
    using r assms by (cases "sk_nodes k") (auto simp: sink_retry_def nodes_fit_def)
  moreover have "n_body (s_node (sk_session (sink_retry on a k)) b) = map_stream ss_restart (n_body (s_node (sk_session k) b))"
    if "b \<in> set (sk_nodes k)" for b
    using r [of b] assms that by (simp add: sink_retry_def nodes_fit_def)
  ultimately show ?thesis by (auto simp: node_bodies_def)
qed

lemma start_bodies:
  assumes k: "sink_inv s0 rec k" and fit: "nodes_fit k"
  shows "wp (sink_start newid rec firstID (new_node (begun_body b)))
    (\<lambda>_ k'. node_bodies k' = node_bodies k @ [begun_body b] \<and> nodes_fit k') (\<lambda>_ _. True) k"
proof -
  let ?n = "new_node (begun_body b)"
  let ?m = "let n = SetCallOf (Some rec) ?n in
    if sk_nodes k = [] \<and> firstID \<noteq> [] \<and> tree_node (s_tree (sk_session k)) firstID = None then SetID firstID n else n"
  let ?s = "sk_session k"
  note K = sink_invD [OF k]
  have body: "n_body ?m = begun_body b" by (simp add: SetCallOf_def SetID_def new_node_def Let_def)
  have "answers (begun_body b) = None" by (cases b) auto
  then have fr: "fresh_node ?s ?m" using K(8) body by (auto simp: fresh_node_def SetCallOf_def SetID_def new_node_def Let_def)
  have "wp (s_add newid ?m)
     (\<lambda>a s. let k' = k\<lparr>sk_session := s, sk_nodes := sk_nodes k @ [a]\<rparr>
       in node_bodies k' = node_bodies k @ [begun_body b] \<and> nodes_fit k') (\<lambda>_ _. True) ?s"
  proof (rule wp_mono [OF s_add_added [OF K(2) fr]])
    fix a s' assume a: "added ?s ?m a s'"
    note A = addedD [OF a]
    have old: "\<forall>x\<in>set (sk_nodes k). n_body (s_node s' x) = n_body (s_node ?s x)"
      using added_old(1) [OF a] fit by (auto simp: nodes_fit_def)
    have "a \<notin> set (sk_nodes k)" using A(4) fit by (auto simp: nodes_fit_def)
    then show "let k' = k\<lparr>sk_session := s', sk_nodes := sk_nodes k @ [a]\<rparr>
       in node_bodies k' = node_bodies k @ [begun_body b] \<and> nodes_fit k'"
      using old A(4,5,6) body fit by (auto simp: node_bodies_def nodes_fit_def Let_def)
  qed simp
  then show ?thesis by (simp add: sink_start_def sink_session_def wp_on_part Let_def)
qed

lemma started_bodies:
  assumes "nodes_fit k" "length (node_bodies k) = length (sk_nodes k)"
    "\<And>a. i < length (sk_nodes k) \<Longrightarrow> a = sk_nodes k ! i \<Longrightarrow> node_bodies (f k a) = upd_body i g (node_bodies k) \<and> sk_nodes (f k a) = sk_nodes k"
  shows "node_bodies (started i f k) = upd_body i g (node_bodies k) \<and> sk_nodes (started i f k) = sk_nodes k"
  using assms by (auto simp: started_def upd_body_def)

lemma append_field_body: "n_body (AppendField f d n) = append_body f d (n_body n)"
  by (simp add: AppendField_def append_body_def)

lemma finish_node_body: "n_body (FinishNode n) = finish_body (n_body n)"
  by (simp add: FinishNode_def finish_body_def)

lemma delta_bodies:
  "node_bodies (sink_delta on hooks a f d k) = node_bodies (on_sink_node a (AppendField f d) k)
   \<and> sk_nodes (sink_delta on hooks a f d k) = sk_nodes k"
  by (auto simp: sink_delta_def Let_def split: node_body.split)

lemma done_bodies:
  "node_bodies (sink_done on a k) = node_bodies (on_sink_node a FinishNode k) \<and> sk_nodes (sink_done on a k) = sk_nodes k"
  by (auto simp: sink_done_def Let_def split: option.split)

lemma step_bodies:
  assumes k: "sink_inv s0 rec k" and fit: "nodes_fit k" and ev: "\<forall>b. ev \<noteq> EvStart b"
  shows "wp (sink_do newid on hooks rec firstID ev)
    (\<lambda>_ k'. node_bodies k' = play (node_bodies k) ev \<and> sk_nodes k' = sk_nodes k) (\<lambda>_ _. True) k"
proof -
  have len: "length (node_bodies k) = length (sk_nodes k)" by (simp add: node_bodies_def)
  show ?thesis
  proof (cases ev)
    case (EvDelta i f d)
    then show ?thesis
      using started_bodies [OF fit len, of i "\<lambda>k a. sink_delta on hooks a f d k" "append_body f d"]
        node_bodies_update [OF fit, of i "AppendField f d" "append_body f d"] delta_bodies [of on hooks _ f d]
      by (simp add: sink_do_def append_field_body)
  next
    case (EvFill i fl)
    then show ?thesis
      using started_bodies [OF fit len, of i "\<lambda>k a. on_sink_node a (\<lambda>n. n\<lparr>n_body := fill_body fl (n_body n)\<rparr>) k" "fill_body fl"]
        node_bodies_update [OF fit, of i "\<lambda>n. n\<lparr>n_body := fill_body fl (n_body n)\<rparr>" "fill_body fl"]
      by (simp add: sink_do_def)
  next
    case (EvDone i)
    then show ?thesis
      using started_bodies [OF fit len, of i "\<lambda>k a. sink_done on a k" "finish_body"]
        node_bodies_update [OF fit, of i FinishNode finish_body] done_bodies [of on]
      by (simp add: sink_do_def finish_node_body)
  next
    case (EvRetry a)
    then show ?thesis using retry_bodies [OF fit] by (simp add: sink_do_def)
  next
    case (EvStart b)
    with ev show ?thesis by simp
  next
    case (EvHost se)
    then show ?thesis by (simp add: sink_do_def case_prod_unfold Let_def)
  qed (simp_all add: sink_do_def)
qed

definition follows :: "session \<Rightarrow> nat \<Rightarrow> sink_log \<Rightarrow> 'w sink \<Rightarrow> bool" where
  "follows s0 rec out k \<longleftrightarrow> sink_inv s0 rec k \<and> nodes_fit k \<and> node_bodies k = bodies out"

lemma follows_step:
  assumes "follows s0 rec out k"
  shows "wp (sink_do newid on hooks rec firstID ev) (\<lambda>_ k'. follows s0 rec (out @ [ev]) k') (\<lambda>_ _. True) k"
proof -
  have k: "sink_inv s0 rec k" "nodes_fit k" "node_bodies k = bodies out" using assms by (simp_all add: follows_def)
  note inv = keepsD [OF sink_do_keeps k(1), of newid on hooks firstID ev]
  show ?thesis
  proof (cases "\<exists>b. ev = EvStart b")
    case True
    then obtain b where "ev = EvStart b" by blast
    then have "wp (sink_do newid on hooks rec firstID ev)
        (\<lambda>_ k'. node_bodies k' = node_bodies k @ [begun_body b] \<and> nodes_fit k') (\<lambda>_ _. True) k"
      using start_bodies [OF k(1,2)] by (simp add: sink_do_def)
    from wp_conj [OF inv this] show ?thesis
      by (rule wp_mono) (use k \<open>ev = EvStart b\<close> in \<open>simp_all add: follows_def\<close>)
  next
    case False
    with step_bodies [OF k(1,2)] have "wp (sink_do newid on hooks rec firstID ev)
        (\<lambda>_ k'. node_bodies k' = play (node_bodies k) ev \<and> sk_nodes k' = sk_nodes k) (\<lambda>_ _. True) k" by blast
    from wp_conj [OF inv this] show ?thesis
      by (rule wp_mono) (use k in \<open>auto simp: follows_def nodes_fit_def dest: sink_invD(5)\<close>)
  qed
qed

lemma follows_all:
  "follows s0 rec out k \<Longrightarrow>
   wp (for_each evs (sink_do newid on hooks rec firstID)) (\<lambda>_ k'. follows s0 rec (out @ evs) k') (\<lambda>_ _. True) k"
proof (induction evs arbitrary: out k)
  case (Cons ev evs)
  have "wp (for_each evs (sink_do newid on hooks rec firstID)) (\<lambda>_ k'. follows s0 rec (out @ ev # evs) k') (\<lambda>_ _. True) k'"
    if "follows s0 rec (out @ [ev]) k'" for k'
    using Cons.IH [OF that] by simp
  then show ?case
    by (auto intro!: wp_mono [OF follows_step [OF Cons.prems]] elim: wp_mono)
qed simp

section \<open>The decoder lists its nodes in the order it started them\<close>

definition in_order :: "anStream \<Rightarrow> bool" where
  "in_order st \<longleftrightarrow> an_nodes st = [0..<length (bodies (an_out st))]"

lemma in_order_tell [simp]: "\<forall>b. e \<noteq> EvStart b \<Longrightarrow> in_order (an_tell e st) = in_order st"
  by (cases e) (simp_all add: in_order_def)

lemma in_order_start [simp]: "in_order st \<Longrightarrow> in_order (an_start i b st)"
  by (simp add: in_order_def an_start_def Let_def)

lemma in_order_done [simp]: "in_order st \<Longrightarrow> in_order (an_done_open i st)"
  by (simp add: an_done_open_def split: option.split)

lemma in_order_saw [simp]: "in_order (an_saw st) = in_order st"
  by (simp add: in_order_def an_saw_def)

lemma in_order_block [simp]: "in_order st \<Longrightarrow> in_order (startBlock raw i cb d st)"
  by (simp add: startBlock_def Let_def)

lemma in_order_for [simp]: "in_order st \<Longrightarrow> in_order (snd (blockFor i b st))"
  by (simp add: blockFor_def split: option.split)

lemma in_order_delta [simp]: "in_order st \<Longrightarrow> in_order (anDelta_do i d st)"
  by (simp add: anDelta_do_def case_prod_unfold Let_def split: option.split node_body.split)

lemma in_order_message [simp]:
  "in_order st \<Longrightarrow> in_order (snd (an_message_start msg st))" "in_order st \<Longrightarrow> in_order (snd (an_message_delta msg st))"
  by (auto simp: an_message_start_def an_message_delta_def in_order_def Let_def split: option.split)

lemma in_order_event: "in_order st \<Longrightarrow> in_order (snd (an_event js d msg st))"
  by (simp add: an_event_def split: option.split)

lemma in_order_stream: "in_order (snd (scanSSE b (an_onData js err) newANStream))"
proof (rule scanSSE_inv)
  show "in_order (snd (an_onData js err d st))" if "in_order st" for d st
    using in_order_event [OF that, of js d] that
    by (auto simp: an_onData_def case_prod_unfold Let_def split: option.split)
qed (simp add: in_order_def newANStream_def bodies_def)

section \<open>Properties\<close>

text \<open>
  C34. The completion a Messages API call returns and the nodes its events leave in the session are the
  same message: replaying the events on the sink of a new model call, each node then finished as the
  call's end finishes it, gives the completion's parts, also when the stream broke half way.
\<close>

theorem session_keeps_completion:
  assumes "session_wf s" "fst (fst (an_streamed js err b)) = Some c"
    and "for_each (snd (an_streamed js err b)) (sink_do newid on hooks (length (s_calls s)) firstID) (call_sink s turn w) = (Inr xs, k)"
  shows "MessageFromNodes (map (\<lambda>a. FinishNode (s_node (sk_session k) a)) (sk_nodes k)) = cc_message c"
proof -
  let ?st = "snd (scanSSE b (an_onData js err) newANStream)"
  have out: "snd (an_streamed js err b) = an_out ?st" and c: "c = an_completion ?st"
    using assms(2) by (auto simp: an_streamed_def split: prod.splits option.splits if_splits)
  have "follows s (length (s_calls s)) [] (call_sink s turn w)"
    using call_sink_inv [OF assms(1)] by (simp add: follows_def call_sink_def nodes_fit_def node_bodies_def bodies_def)
  from wpD [OF follows_all [OF this] assms(3)] have nb: "node_bodies k = bodies (an_out ?st)"
    by (simp add: out follows_def)
  have "map (\<lambda>i. new_node (finish_body (bodies (an_out ?st) ! i))) [0..<length (bodies (an_out ?st))]
      = map (\<lambda>x. new_node (finish_body x)) (bodies (an_out ?st))"
    by (intro nth_equalityI) simp_all
  then have "cc_message c = MessageFromNodes (map (\<lambda>x. new_node (finish_body x)) (node_bodies k))"
    using in_order_stream [of b js err] nb by (simp add: c an_completion_def message_of_def in_order_def)
  also have "\<dots> = MessageFromNodes (map (\<lambda>a. FinishNode (s_node (sk_session k) a)) (sk_nodes k))"
    by (simp add: MessageFromNodes_def node_bodies_def map_filter_def comp_def filter_map new_node_def finish_node_body)
  finally show ?thesis by simp
qed

text \<open>The first three events of a turn, after which the connection is lost.\<close>

definition lost_body :: body where
  "lost_body = \<lparr>bd_bytes = concat (map (\<lambda>c. ''data: '' @ [c, NL]) ''abc''), bd_err = Some (ErrorNew ''reset'')\<rparr>"

lemma lost_lines: "raw_lines (bd_bytes lost_body) = map (\<lambda>c. ''data: '' @ [c]) ''abc''"
  unfolding lost_body_def by code_simp

definition lost_log :: sink_log where
  "lost_log = [EvUsage (zero_usage\<lparr>u_prompt := 10, u_completion := 1, u_cacheRead := Some 3, u_total := 11\<rparr>),
     EvStart BeginText, EvDelta 0 FieldText ''He'']"

lemma lost_state:
  "let st = snd (scanSSE lost_body (an_onData shown_json (\<lambda>_. None)) newANStream) in an_out st = lost_log \<and> an_sawData st"
proof -
  have "scan_lines (bd_bytes lost_body) = map (\<lambda>c. ''data: '' @ [c]) ''abc''"
    by (simp add: scan_lines_def lost_lines drop_cr_def maxLine_def)
  moreover have "let st = snd (sse_lines (an_onData shown_json (\<lambda>_. None)) None (map (\<lambda>c. ''data: '' @ [c]) ''abc'') newANStream)
     in an_out st = lost_log \<and> an_sawData st"
    by code_simp
  moreover have "snd (sse_lines on e ls st) = snd (sse_lines on None ls st)" for on :: "string \<Rightarrow> anStream \<Rightarrow> go_error option \<times> anStream" and e ls st
    by (induction ls arbitrary: st) (auto split: option.split prod.split)
  ultimately show ?thesis unfolding scanSSE_def by metis
qed

theorem session_keeps_completion_witness:
  "\<exists>c (k :: unit sink). fst (fst (an_streamed shown_json (\<lambda>_. None) lost_body)) = Some c
     \<and> length (sk_nodes k) = 1
     \<and> MessageFromNodes (map (\<lambda>a. FinishNode (s_node (sk_session k) a)) (sk_nodes k)) = cc_message c"
proof -
  let ?st = "snd (scanSSE lost_body (an_onData shown_json (\<lambda>_. None)) newANStream)"
  obtain e st where run: "scanSSE lost_body (an_onData shown_json (\<lambda>_. None)) newANStream = (e, st)" by fastforce
  have log: "snd (an_streamed shown_json (\<lambda>_. None) lost_body) = lost_log"
    and c: "fst (fst (an_streamed shown_json (\<lambda>_. None) lost_body)) = Some (an_completion st)"
    using lost_state run by (cases e; simp add: an_streamed_def Let_def)+
  let ?run = "for_each lost_log (sink_do (\<lambda>_. ''n'') (\<lambda>_ w. (None, w)) None (length (s_calls (newSession DialectAuto))) [])
    (call_sink (newSession DialectAuto) 0 ())"
  have "(case ?run of (Inl _, _) \<Rightarrow> False | (Inr _, k) \<Rightarrow> length (sk_nodes k) = 1)" by code_simp
  then obtain xs k where k: "?run = (Inr xs, k)" "length (sk_nodes k) = 1" by (cases ?run; cases "fst ?run") auto
  from session_keeps_completion [OF newSession_wf c k(1) [folded log]] c k(2) show ?thesis by blast
qed

end
