(* ===== verification/ProviderBase.thy ===== *)
theory ProviderBase
  imports DecoderSink Json "HOL-Library.AList"
begin

text \<open>
  What the four dialects share: the request (\<open>core/provider.go\<close>), images (\<open>core/image.go\<close>), arguments
  replayed to a model, and the exchange over HTTP. A parameter value is a JSON value, and a request body
  is the JSON value its text denotes; a tool's schema is text, so one that is not JSON fails the
  encoding, with the text \<open>json.Marshal\<close> gives as a parameter. The transport is a parameter.
\<close>

section \<open>Requests\<close>

record core_request =
  q_model :: string
  q_system :: string
  q_messages :: "Message list"
  q_tools :: "ToolDecl list"
  q_maxTokens :: int
  q_extra :: jobject
  q_dialectExtra :: "(Dialect \<times> jobject) list"
  q_cacheKey :: string

definition jset_all :: "jobject \<Rightarrow> jobject \<Rightarrow> jobject" where
  "jset_all kvs m = foldl (\<lambda>m (k, v). jset k v m) m kvs"

definition ParamsFor :: "core_request \<Rightarrow> Dialect \<Rightarrow> jobject" where
  "ParamsFor r d =
     (let own = (case map_of (q_dialectExtra r) d of Some o' \<Rightarrow> o' | None \<Rightarrow> [])
      in if own = [] then q_extra r else jset_all own (jmap (q_extra r)))"

lemma map_of_jmap [simp]: "map_of (jmap kvs) = map_of (rev kvs)"
proof -
  have "map_of (foldl (\<lambda>m (k, v). jset k v m) m kvs) = map_of m ++ map_of (rev kvs)" for m
    by (induction kvs arbitrary: m) (auto simp: map_add_def fun_eq_iff split: option.split)
  then show ?thesis by (simp add: jmap_def)
qed

text \<open>The passthrough parameters, the reserved ones dropped.\<close>

definition passed_params :: "string list \<Rightarrow> jobject \<Rightarrow> jobject" where
  "passed_params reserved ps = jmap (filter (\<lambda>(k, v). k \<notin> set reserved) ps)"

definition dialect_name :: "Dialect \<Rightarrow> string" where
  "dialect_name d =
     (case d of
        DialectAuto \<Rightarrow> []
      | DialectOpenAI \<Rightarrow> ''openai''
      | DialectAnthropic \<Rightarrow> ''anthropic''
      | DialectResponses \<Rightarrow> ''responses''
      | DialectCompletions \<Rightarrow> ''completions'')"

definition role_name :: "Role \<Rightarrow> string" where
  "role_name r =
     (case r of
        RoleSystem \<Rightarrow> ''system'' | RoleUser \<Rightarrow> ''user'' | RoleAssistant \<Rightarrow> ''assistant'' | RoleTool \<Rightarrow> ''tool''
      | RoleOther s \<Rightarrow> s)"

section \<open>Images\<close>

definition dataURI :: "string \<Rightarrow> string \<Rightarrow> string" where
  "dataURI media data = ''data:'' @ media @ '';base64,'' @ data"

definition inline_image :: "string \<Rightarrow> string \<Rightarrow> bool" where
  "inline_image media data \<longleftrightarrow> data \<noteq> [] \<and> media \<noteq> []"

definition Unsupported :: "Dialect \<Rightarrow> string \<Rightarrow> string \<Rightarrow> go_error" where
  "Unsupported d what why = UnsupportedError (dialect_name d) what why"

definition imageRef :: "Dialect \<Rightarrow> string \<Rightarrow> string \<Rightarrow> string \<Rightarrow> go_error + string" where
  "imageRef d media data src =
     (if src \<noteq> [] then Inr src
      else if inline_image media data then Inr (dataURI media data)
      else if data \<noteq> [] then Inl (Unsupported d ''an image with no media type''
        (''inline bytes need one to be sent, and guessing it would announce the image as something it may not be''))
      else Inl (Unsupported d ''an empty image'' ''it carries neither a source nor any bytes''))"

fun is_image :: "Part \<Rightarrow> bool" where
  "is_image (ImagePart _ _ _) = True" | "is_image _ = False"

definition hasImage :: "Message \<Rightarrow> bool" where
  "hasImage m \<longleftrightarrow> (\<exists>p\<in>set (EffectiveParts m). is_image p)"

text \<open>The blocks of a message's parts: empty text makes none, an image may fail, the rest is passed over.\<close>

fun part_blocks :: "(string \<Rightarrow> 'b) \<Rightarrow> (string \<Rightarrow> string \<Rightarrow> string \<Rightarrow> go_error + 'b) \<Rightarrow> Part list \<Rightarrow> go_error + 'b list" where
  "part_blocks txt img [] = Inr []"
| "part_blocks txt img (TextPart t # ps) =
     bind_sum (part_blocks txt img ps) (\<lambda>bs. Inr (if t \<noteq> [] then txt t # bs else bs))"
| "part_blocks txt img (ImagePart media data src # ps) =
     bind_sum (img media data src) (\<lambda>b. bind_sum (part_blocks txt img ps) (\<lambda>bs. Inr (b # bs)))"
| "part_blocks txt img (_ # ps) = part_blocks txt img ps"

lemma part_blocks_image:
  "part_blocks tx img ps = Inr bs \<Longrightarrow> p \<in> set ps \<Longrightarrow> is_image p \<Longrightarrow> bs \<noteq> []"
proof (induction tx img ps arbitrary: bs rule: part_blocks.induct)
  case (2 tx img t ps)
  then show ?case by (cases "part_blocks tx img ps") (auto split: if_splits)
next
  case (3 tx img media data src ps)
  then show ?case by (cases "img media data src"; cases "part_blocks tx img ps") auto
qed auto

section \<open>Tool calls sent back\<close>

definition replayToolArgs :: "string \<Rightarrow> string" where
  "replayToolArgs args = (if json_Valid (toolArgs args) then toolArgs args else ''{}'')"

lemma json_Valid_empty_object: "json_Valid ''{}''"
  using json_reads_back [of "JObj []"] by (simp add: json_Valid_def maxNestingDepth_def brace_open_def brace_close_def)

lemma replayToolArgs_valid: "json_Valid (replayToolArgs args)"
  using json_Valid_empty_object by (simp add: replayToolArgs_def)

section \<open>The exchange\<close>

record wire_request =
  wr_url :: string
  wr_headers :: "(string \<times> string) list"
  wr_body :: json

record 'w transport =
  tp_do :: "wire_request \<Rightarrow> 'w \<Rightarrow> (go_error + response) \<times> 'w"
  tp_bad_url :: "string \<Rightarrow> string option"
  tp_schema_error :: "string \<Rightarrow> string"

text \<open>A tool's schema inside a body.\<close>

definition schema_json :: "'w transport \<Rightarrow> string \<Rightarrow> ToolDecl \<Rightarrow> go_error + json" where
  "schema_json tp what t =
     (case json_parse (decl_effective_schema t) of
        Some v \<Rightarrow> Inr v
      | None \<Rightarrow> Inl (RequestError (what @ tp_schema_error tp (decl_effective_schema t))))"

fun sum_map :: "('a \<Rightarrow> 'e + 'b) \<Rightarrow> 'a list \<Rightarrow> 'e + 'b list" where
  "sum_map f [] = Inr []"
| "sum_map f (x # xs) = bind_sum (f x) (\<lambda>y. bind_sum (sum_map f xs) (\<lambda>ys. Inr (y # ys)))"

definition event_stream_type :: string where "event_stream_type = ''text/event-stream''"

text \<open>\<open>Header.Set\<close>: a header's name is written in its canonical form, unless it is no token.\<close>

definition upper :: "char \<Rightarrow> char" where
  "upper c = (if 97 \<le> byte c \<and> byte c \<le> 122 then char_of (byte c - 32) else c)"

definition lower :: "char \<Rightarrow> char" where
  "lower c = (if 65 \<le> byte c \<and> byte c \<le> 90 then char_of (byte c + 32) else c)"

definition token_char :: "char \<Rightarrow> bool" where
  "token_char c \<longleftrightarrow> is_digit c \<or> (97 \<le> byte (lower c) \<and> byte (lower c) \<le> 122)
     \<or> byte c \<in> {33, 35, 36, 37, 38, 39, 42, 43, 45, 46, 94, 95, 96, 124, 126}"

fun canonical :: "bool \<Rightarrow> string \<Rightarrow> string" where
  "canonical start [] = []"
| "canonical start (c # s) = (if start then upper c else lower c) # canonical (c = CHR ''-'') s"

definition header_name :: "string \<Rightarrow> string" where
  "header_name k = (if list_all token_char k then canonical True k else k)"

definition set_headers :: "(string \<times> string) list \<Rightarrow> (string \<times> string) list \<Rightarrow> (string \<times> string) list" where
  "set_headers kvs hs = foldl (\<lambda>hs (k, v). AList.update (header_name k) v hs) hs kvs"

text \<open>
  From the built body to the parsed answer: the request, its failures, a non-2xx answer, a plain JSON
  answer, and an event stream. Where a body is read whole its read error is a permanent failure.
\<close>

definition exchange :: "'w transport \<Rightarrow> string \<Rightarrow> string \<Rightarrow> (string \<times> string) list \<Rightarrow> json
    \<Rightarrow> (string \<Rightarrow> (CoreCompletion option \<times> go_error option) \<times> sink_log)
    \<Rightarrow> (body \<Rightarrow> (CoreCompletion option \<times> go_error option) \<times> sink_log)
    \<Rightarrow> 'w \<Rightarrow> ((CoreCompletion option \<times> go_error option) \<times> sink_log) \<times> 'w" where
  "exchange tp name url headers bod plain streamed w =
     (case tp_bad_url tp url of
        Some why \<Rightarrow> (((None, Some (RequestError (name @ '': build request: '' @ why))), []), w)
      | None \<Rightarrow>
          (case tp_do tp \<lparr>wr_url = url, wr_headers = headers, wr_body = bod\<rparr> w of
             (Inl e, w) \<Rightarrow> (((None, Some (Wrapped (name @ '': '') e)), []), w)
           | (Inr resp, w) \<Rightarrow>
               if rs_code resp div 100 \<noteq> 2 then (((None, Some (readAPIError resp)), []), w)
               else if \<not> contains_str event_stream_type (rs_ctype resp) then
                 (case bd_err (rs_body resp) of
                    Some e \<Rightarrow> (((None, Some (RequestError (name @ '': read non-streaming response: '' @ error_text e))), []), w)
                  | None \<Rightarrow> (plain (bd_bytes (rs_body resp)), w))
               else (streamed (rs_body resp), w)))"

text \<open>Whatever the exchange does, a call without a completion has told the sink nothing.\<close>

lemma exchange_silent:
  assumes "\<And>t. fst (fst (plain t)) = None \<Longrightarrow> snd (plain t) = []" "\<And>b. fst (fst (streamed b)) = None \<Longrightarrow> snd (streamed b) = []"
  shows "fst (fst (fst (exchange tp name url headers bod plain streamed w))) = None \<Longrightarrow>
    snd (fst (exchange tp name url headers bod plain streamed w)) = []"
  using assms by (auto simp: exchange_def split: option.splits prod.splits sum.splits if_splits)

lemma whole_silent: "fst (fst (completionIntoSink p err d)) = None \<Longrightarrow> snd (completionIntoSink p err d) = []"
  by (simp add: completionIntoSink_def Let_def split: sum.splits)

end
