(* ===== verification/ParamStrip.thy ===== *)
theory ParamStrip
  imports ProviderBase
begin

text \<open>
  Recovery from a rejected parameter (\<open>core/paramstrip.go\<close>): the parameter an error names is dropped
  and the call is sent once more, and every later call goes without it. \<open>low\<close> is \<open>strings.ToLower\<close>;
  the middleware's lock makes each use of its memory atomic. A map is ranged over in list order, which
  stands for any order.
\<close>

section \<open>The parameter an error names\<close>

definition name_stop :: "nat \<Rightarrow> bool" where
  "name_stop r \<longleftrightarrow> r \<in> {34, 39, 96, 9, 10, 12, 13, 32, 44, 46, 59, 58, 41}"

text \<open>White space, an opening quote if there is one, and the name up to a delimiter.\<close>

definition rx_param :: rx where
  "rx_param = rx_seq (rx_plus rx_space) (rx_seq (rx_opt (rx_rune (\<lambda>r. r \<in> {34, 39, 96})))
     (rx_group (rx_plus (rx_rune (\<lambda>r. \<not> name_stop r)))))"

definition rejectParamPatterns :: "rx list" where
  "rejectParamPatterns =
     [rx_seq (rx_text ''does not support parameter'') rx_param,
      rx_seq (rx_text ''unsupported parameter'') (rx_seq (rx_opt (rx_text '':'')) rx_param),
      rx_seq (rx_text ''unknown field'') rx_param,
      rx_seq (rx_text ''unrecognized request argument'') (rx_seq (rx_opt (rx_text '':'')) rx_param)]"

definition trim_set :: "char set \<Rightarrow> string \<Rightarrow> string" where
  "trim_set cs s = rev (dropWhile (\<lambda>c. c \<in> cs) (rev (dropWhile (\<lambda>c. c \<in> cs) s)))"

definition trimParamName :: "string \<Rightarrow> string" where
  "trimParamName s = trim_set {CHR '' '', CHR 0x09, CHR 0x22, CHR 0x27, CHR 0x60, CHR ''.'', CHR '','', CHR '':'', CHR '';'', CHR '')''} s"

fun first_name :: "rx list \<Rightarrow> string \<Rightarrow> string option" where
  "first_name [] s = None"
| "first_name (re # res) s =
     (case rx_find re s of
        Some (g # _) \<Rightarrow> if trimParamName g \<noteq> [] then Some (trimParamName g) else first_name res s
      | _ \<Rightarrow> first_name res s)"

definition rejectedParamName :: "string \<Rightarrow> string option" where
  "rejectedParamName errBody = first_name rejectParamPatterns errBody"

definition normalizeParamName :: "(string \<Rightarrow> string) \<Rightarrow> string \<Rightarrow> string" where
  "normalizeParamName low name = filter (\<lambda>c. c \<noteq> CHR ''_'') (low name)"

definition matchRejectedKey :: "(string \<Rightarrow> string) \<Rightarrow> jobject \<Rightarrow> string \<Rightarrow> string option" where
  "matchRejectedKey low extra errStr =
     (case rejectedParamName errStr of
        None \<Rightarrow> None
      | Some name \<Rightarrow> find (\<lambda>k. normalizeParamName low k = normalizeParamName low name) (map fst extra))"

section \<open>The middleware\<close>

type_synonym outcome = "CoreCompletion option \<times> go_error option"
type_synonym 'w sender = "core_request \<Rightarrow> 'w \<Rightarrow> outcome \<times> 'w"

definition withoutStripped :: "(string \<Rightarrow> string) \<Rightarrow> string set \<Rightarrow> jobject \<Rightarrow> jobject" where
  "withoutStripped low stripped extra = filter (\<lambda>(k, v). normalizeParamName low k \<notin> stripped) extra"

text \<open>Whether a failed attempt may be sent again: it failed for good and nothing came of it.\<close>

definition no_second_try :: "outcome \<Rightarrow> bool" where
  "no_second_try r \<longleftrightarrow> snd r = None \<or> err_is (snd r) Canceled \<or> fst r \<noteq> None"

definition paramStripper_do :: "(string \<Rightarrow> string) \<Rightarrow> (go_error \<Rightarrow> 'w \<Rightarrow> 'w) \<Rightarrow> 'w sender \<Rightarrow> core_request
    \<Rightarrow> string set \<Rightarrow> 'w \<Rightarrow> outcome \<times> string set \<times> 'w" where
  "paramStripper_do low tell send req stripped w =
     (let req = req\<lparr>q_extra := withoutStripped low stripped (q_extra req)\<rparr>;
          (r, w) = send req w
      in if no_second_try r then (r, stripped, w)
         else (case snd r of
             None \<Rightarrow> (r, stripped, w)
           | Some e \<Rightarrow>
               (case matchRejectedKey low (q_extra req) (error_text e) of
                  None \<Rightarrow> (r, stripped, w)
                | Some key \<Rightarrow>
                    (let stripped = insert (normalizeParamName low key) stripped;
                         req = req\<lparr>q_extra := filter (\<lambda>(k, v). k \<noteq> key) (q_extra req)\<rparr>;
                         (r, w) = send req (tell e w)
                     in (r, stripped, w)))))"

section \<open>Properties\<close>

text \<open>A sender that keeps the requests it is given.\<close>

definition logged :: "'w sender \<Rightarrow> (core_request list \<times> 'w) sender" where
  "logged send req lw = (let (r, w) = send req (snd lw) in (r, (fst lw @ [req], w)))"

text \<open>Parameter names compare without case and underscores.\<close>

definition plain_name :: "(string \<Rightarrow> string) \<Rightarrow> string \<Rightarrow> string" where
  "plain_name low name = filter (\<lambda>c. c \<noteq> CHR ''_'') (low name)"

text \<open>
  The name an error gives: the first of the wordings that is in the text and is followed by one, less the
  quotes and punctuation around it.
\<close>

definition named_after :: "string \<Rightarrow> rx \<Rightarrow> string" where
  "named_after t re =
     (case rx_find re t of
        Some (g # _) \<Rightarrow> (let around = {CHR '' '', CHR 0x09, CHR 0x22, CHR 0x27, CHR 0x60, CHR ''.'', CHR '','', CHR '':'', CHR '';'', CHR '')''}
                          in rev (dropWhile (\<lambda>c. c \<in> around) (rev (dropWhile (\<lambda>c. c \<in> around) g))))
      | _ \<Rightarrow> [])"

definition error_names :: "string \<Rightarrow> string \<Rightarrow> bool" where
  "error_names t name \<longleftrightarrow> (\<exists>others. filter (\<lambda>n. n \<noteq> []) (map (named_after t) rejectParamPatterns) = name # others)"

lemma rejectedParamName_iff: "rejectedParamName t = Some name \<longleftrightarrow> error_names t name"
proof -
  have one: "named_after t re = (case rx_find re t of Some (g # _) \<Rightarrow> trimParamName g | _ \<Rightarrow> [])" for re
    by (simp add: named_after_def trimParamName_def trim_set_def Let_def split: option.split list.split)
  have "first_name res t = Some name \<longleftrightarrow> (\<exists>others. filter (\<lambda>n. n \<noteq> []) (map (named_after t) res) = name # others)" for res
    by (induction res) (auto simp: one split: option.splits list.splits)
  then show ?thesis by (simp add: rejectedParamName_def error_names_def)
qed

text \<open>An outcome whose error names the parameter \<open>k\<close>, of those in \<open>extra\<close>, as what the endpoint rejects.\<close>

definition rejects_param :: "(string \<Rightarrow> string) \<Rightarrow> jobject \<Rightarrow> outcome \<Rightarrow> go_error \<Rightarrow> string \<Rightarrow> bool" where
  "rejects_param low extra out e k \<longleftrightarrow>
     out = (None, Some e) \<and> \<not> err_is (Some e) Canceled \<and> k \<in> set (map fst extra)
     \<and> (\<exists>name. error_names (error_text e) name \<and> plain_name low k = plain_name low name)"

lemma matchRejectedKey_cases:
  "matchRejectedKey low extra t = Some k \<Longrightarrow> k \<in> set (map fst extra)
     \<and> (\<exists>name. error_names t name \<and> plain_name low k = plain_name low name)"
  "matchRejectedKey low extra t = None \<Longrightarrow> error_names t name \<Longrightarrow> k \<in> set (map fst extra)
     \<Longrightarrow> plain_name low k \<noteq> plain_name low name"
  by (auto simp: matchRejectedKey_def find_Some_iff find_None_iff plain_name_def normalizeParamName_def
      rejectedParamName_iff [symmetric] split: option.splits)

text \<open>
  C37. What is sent when a parameter is rejected. The first attempt is the caller's request without the
  extra parameters rejected before. It is sent again exactly when it failed, was not cancelled, brought no
  completion, and its error names one of the extra parameters that were sent, whatever its case and
  underscores: then without that parameter and otherwise unchanged, the parameter is remembered, and the
  caller gets the second outcome. Otherwise the caller gets the first, and nothing new is remembered.
  Parameters meant for one dialect only (\<open>DialectExtra\<close>) are sent as they are.
\<close>

theorem param_strip_sends:
  assumes "paramStripper_do low (\<lambda>e (sent, w). (sent, tell e w)) (logged send) req stripped (sent, w) = (r, stripped', (sent', w'))"
  defines "r1 \<equiv> req\<lparr>q_extra := filter (\<lambda>(k, v). plain_name low k \<notin> stripped) (q_extra req)\<rparr>"
  shows "(\<exists>e k. let r2 = r1\<lparr>q_extra := filter (\<lambda>(k', v). k' \<noteq> k) (q_extra r1)\<rparr>
      in rejects_param low (q_extra r1) (fst (send r1 w)) e k \<and> sent' = sent @ [r1, r2]
         \<and> stripped' = insert (plain_name low k) stripped \<and> (r, w') = send r2 (tell e (snd (send r1 w))))
    \<or> (\<nexists>e k. rejects_param low (q_extra r1) (fst (send r1 w)) e k)
        \<and> sent' = sent @ [r1] \<and> stripped' = stripped \<and> (r, w') = send r1 w"
proof -
  have r1: "r1 = req\<lparr>q_extra := withoutStripped low stripped (q_extra req)\<rparr>"
    by (simp add: r1_def withoutStripped_def plain_name_def normalizeParamName_def)
  obtain o1 w1 where s1: "send r1 w = (o1, w1)" by (cases "send r1 w")
  then have l1: "logged send r1 (sent, w) = (o1, (sent @ [r1], w1))" by (simp add: logged_def)
  note run = assms(1) [unfolded paramStripper_do_def r1 [symmetric] Let_def l1 prod.case]
  show ?thesis
  proof (cases "no_second_try o1 \<or> matchRejectedKey low (q_extra r1) (error_text (the (snd o1))) = None")
    case True
    then have "(r, stripped', (sent', w')) = (o1, stripped, (sent @ [r1], w1))"
      using run by (auto simp: no_second_try_def split: if_splits option.splits)
    moreover have "\<not> rejects_param low (q_extra r1) o1 e k" for e k
    proof
      assume rej: "rejects_param low (q_extra r1) o1 e k"
      then obtain name where "error_names (error_text e) name" "plain_name low k = plain_name low name"
        "k \<in> set (map fst (q_extra r1))" by (auto simp: rejects_param_def)
      moreover have "matchRejectedKey low (q_extra r1) (error_text e) = None"
        using True rej by (auto simp: rejects_param_def no_second_try_def)
      ultimately show False using matchRejectedKey_cases(2) by blast
    qed
    ultimately show ?thesis using s1 by simp
  next
    case False
    then obtain e k where e: "o1 = (None, Some e)" "\<not> err_is (Some e) Canceled"
      "matchRejectedKey low (q_extra r1) (error_text e) = Some k"
      by (cases o1) (auto simp: no_second_try_def)
    let ?r2 = "r1\<lparr>q_extra := filter (\<lambda>(k', v). k' \<noteq> k) (q_extra r1)\<rparr>"
    obtain o2 w2 where s2: "send ?r2 (tell e w1) = (o2, w2)" by (cases "send ?r2 (tell e w1)")
    then have "logged send ?r2 (sent @ [r1], tell e w1) = (o2, (sent @ [r1, ?r2], w2))" by (simp add: logged_def)
    then have "(r, stripped', (sent', w')) = (o2, insert (plain_name low k) stripped, (sent @ [r1, ?r2], w2))"
      using run e by (simp add: no_second_try_def plain_name_def normalizeParamName_def)
    moreover have "rejects_param low (q_extra r1) o1 e k"
      using e matchRejectedKey_cases(1) [OF e(3)] by (simp add: rejects_param_def)
    ultimately show ?thesis using s1 s2 by (intro disjI1 exI [of _ e] exI [of _ k]) (simp add: Let_def)
  qed
qed

text \<open>
  A rejected parameter that is also set for the dialect is dropped from \<open>Extra\<close>, and goes out all the same.
\<close>

lemma dialect_params_survive:
  assumes "map_of (q_dialectExtra req) d = Some [(k, v)]"
  shows "map_of (ParamsFor (req\<lparr>q_extra := filter (\<lambda>(k', v). k' \<noteq> k) (q_extra req)\<rparr>) d) k = Some v"
  using assms by (simp add: ParamsFor_def jset_all_def)

lemmas rx_defs = rx_param_def rx_plus_def rx_star_def rx_opt_def rx_alt_def rx_group_def name_stop_def rx_space_def
  rx_text_def rx_seq_def rx_empty_def rx_rune_def decode_rune_def fold_rune_def rx_first_def

lemma names_seed: "rejectedParamName ''does not support parameter seed'' = Some ''seed''"
proof -
  have p: "rx_param '' seed'' = [([''seed''], []), ([''see''], ''d''), ([''se''], ''ed''), ([''s''], ''eed'')]"
    by (simp add: rx_defs eval_nat_numeral)
  have t: "rx_text ''does not support parameter'' ''does not support parameter seed'' = [([], '' seed'')]"
    by (simp add: rx_text_def rx_seq_def rx_empty_def rx_rune_def decode_rune_def fold_rune_def)
  have "rx_find (rx_seq (rx_text ''does not support parameter'') rx_param) ''does not support parameter seed'' = Some [''seed'']"
    by (simp only: rx_find.simps(2) rx_first_def) (simp add: rx_seq_def t p)
  then show ?thesis by (simp add: rejectedParamName_def rejectParamPatterns_def trimParamName_def trim_set_def)
qed

text \<open>A server that refuses the parameter \<open>seed\<close> and accepts everything else.\<close>

definition seedless :: "unit sender" where
  "seedless req w =
     (if ''seed'' \<in> set (map fst (q_extra req))
      then ((None, Some (ErrorNew ''does not support parameter seed'')), w)
      else ((Some \<lparr>cc_message = NewMessage RoleAssistant [TextPart ''hi''], cc_usages = [], cc_streamed = True, cc_stop = ''end_turn'',
               cc_model = ''m'', cc_routed = []\<rparr>, None), w))"

definition seeded_request :: core_request where
  "seeded_request = \<lparr>q_model = ''m'', q_system = [], q_messages = [], q_tools = [], q_maxTokens = 1,
     q_extra = [(''seed'', JNum ''7''), (''top_p'', JNum ''1'')], q_dialectExtra = [], q_cacheKey = []\<rparr>"

theorem param_strip_sends_witness:
  "\<exists>r2. fst (snd (snd (paramStripper_do id (\<lambda>e (sent, w). (sent, w)) (logged seedless) seeded_request {} ([], ())))) = [seeded_request, r2]
     \<and> map fst (q_extra r2) = [''top_p'']"
proof -
  let ?run = "paramStripper_do id (\<lambda>e (sent, w). (sent, (\<lambda>e w. w) e w)) (logged seedless) seeded_request {} ([], ())"
  obtain r st' sent' w' where run: "?run = (r, st', (sent', w'))" by (cases ?run) auto
  have r1: "seeded_request\<lparr>q_extra := filter (\<lambda>(k, v). plain_name id k \<notin> {}) (q_extra seeded_request)\<rparr> = seeded_request"
    by (simp add: seeded_request_def)
  have first: "fst (seedless seeded_request ()) = (None, Some (ErrorNew ''does not support parameter seed''))"
    by (simp add: seedless_def seeded_request_def)
  have rej: "rejects_param id (q_extra seeded_request) (fst (seedless seeded_request ())) e k
      \<longleftrightarrow> e = ErrorNew ''does not support parameter seed'' \<and> k = ''seed''" for e k
    unfolding first
    by (auto simp: rejects_param_def seeded_request_def rejectedParamName_iff [symmetric] names_seed plain_name_def err_is_def error_is_def)
  from param_strip_sends [OF run, unfolded r1 rej]
  have "sent' = [seeded_request, seeded_request\<lparr>q_extra := filter (\<lambda>(k', v). k' \<noteq> ''seed'') (q_extra seeded_request)\<rparr>]"
    by (auto simp: Let_def)
  then show ?thesis using run by (simp add: seeded_request_def)
qed

end
