(* ===== verification/OpenAIStream.thy ===== *)
theory OpenAIStream
  imports DecoderSink Json
begin

text \<open>
  The chat-completions stream (\<open>core/openai_stream.go\<close>, \<open>core/openai_routing.go\<close>): chunks decoded
  into one node per part and into a completion. \<open>json.Unmarshal\<close> into the chunk struct is the parameter
  \<open>decode\<close> (\<open>None\<close> where it fails) and \<open>raw\<close> is the verbatim usage object of a payload; timings and
  prefill progress are opaque. A node is named by the order it was started in.
\<close>

section \<open>The wire\<close>

record oaReasoningDetail =
  od_type :: string
  od_text :: string
  od_summary :: string
  od_data :: string
  od_signature :: "string option"
  od_id :: string
  od_format :: string
  od_index :: int

record oaToolCall =
  oc_index :: int
  oc_id :: string
  oc_name :: string
  oc_args :: string

record oaDelta =
  oa_content :: string
  oa_reasoning_content :: string
  oa_reasoning :: string
  oa_reasoning_details :: "oaReasoningDetail list"
  oa_tool_calls :: "oaToolCall list"

record oaChoice =
  ch_delta :: oaDelta
  ch_finish :: string

record oaUsage =
  ou_prompt :: int
  ou_completion :: int
  ou_total :: int
  ou_promptDetails :: "int option option"
  ou_completionDetail :: "int option option"
  ou_cacheHit :: "int option"
  ou_cacheRead :: "int option"
  ou_cost :: "rat option"
  ou_estimated :: "rat option"

text \<open>The gateway's routing: provider and model, when it sent them.\<close>

type_synonym oaExtraFields = "(string \<times> string) option option"

record oaChunk =
  ck_choices :: "oaChoice list"
  ck_usage :: "oaUsage option"
  ck_model :: string
  ck_extra :: oaExtraFields
  ck_timings :: "string option"
  ck_progress :: "string option"

record oa_json =
  oj_decode :: "string \<Rightarrow> oaChunk option"
  oj_usage :: "string \<Rightarrow> string"

definition delta_reasoning :: "oaDelta \<Rightarrow> string" where
  "delta_reasoning d = (if oa_reasoning_content d \<noteq> [] then oa_reasoning_content d else oa_reasoning d)"

definition reasoningTokens :: "oaUsage \<Rightarrow> int option" where
  "reasoningTokens u = (case ou_completionDetail u of None \<Rightarrow> None | Some r \<Rightarrow> r)"

definition costUsd :: "oaUsage \<Rightarrow> rat option" where
  "costUsd u = (case ou_cost u of Some c \<Rightarrow> Some c | None \<Rightarrow> ou_estimated u)"

text \<open>The largest cache figure of the three dialects.\<close>

definition larger :: "int option \<Rightarrow> int option \<Rightarrow> int option" where
  "larger read p =
     (case p of
        None \<Rightarrow> read
      | Some v \<Rightarrow> (case read of None \<Rightarrow> Some v | Some r \<Rightarrow> if v > r then Some v else Some r))"

definition oa_toUsage :: "oaUsage \<Rightarrow> Usage" where
  "oa_toUsage u =
     (let read = larger None (ou_cacheHit u);
          read = (case ou_promptDetails u of None \<Rightarrow> read | Some c \<Rightarrow> larger read c);
          read = larger read (ou_cacheRead u)
      in zero_usage\<lparr>u_prompt := ou_prompt u, u_completion := ou_completion u, u_total := ou_total u,
           u_cacheRead := read, u_cacheWrite := (if read \<noteq> None then Some 0 else None)\<rparr>)"

definition routed :: "oaExtraFields \<Rightarrow> string" where
  "routed f =
     (case f of
        Some (Some (provider, model)) \<Rightarrow>
          if model = [] then [] else if provider = [] then model else provider @ ''/'' @ model
      | _ \<Rightarrow> [])"

section \<open>Reasoning details\<close>

record detailAccumulator =
  da_byIndex :: "int \<rightharpoonup> oaReasoningDetail"
  da_order :: "int list"

definition newReasoningDetailAccumulator :: detailAccumulator where
  "newReasoningDetailAccumulator = \<lparr>da_byIndex = Map.empty, da_order = []\<rparr>"

definition blank_detail :: "int \<Rightarrow> oaReasoningDetail" where
  "blank_detail i = \<lparr>od_type = [], od_text = [], od_summary = [], od_data = [], od_signature = None, od_id = [],
     od_format = [], od_index = i\<rparr>"

definition merge_detail :: "oaReasoningDetail \<Rightarrow> oaReasoningDetail \<Rightarrow> oaReasoningDetail" where
  "merge_detail rd d =
     rd\<lparr>od_type := (if od_type d \<noteq> [] then od_type d else od_type rd),
        od_id := (if od_id d \<noteq> [] then od_id d else od_id rd),
        od_format := (if od_format d \<noteq> [] then od_format d else od_format rd),
        od_signature := (if od_signature d \<noteq> None then od_signature d else od_signature rd),
        od_text := od_text rd @ od_text d, od_summary := od_summary rd @ od_summary d, od_data := od_data rd @ od_data d\<rparr>"

definition add_detail :: "oaReasoningDetail \<Rightarrow> detailAccumulator \<Rightarrow> detailAccumulator" where
  "add_detail d a =
     (case da_byIndex a (od_index d) of
        Some rd \<Rightarrow> a\<lparr>da_byIndex := (da_byIndex a)(od_index d \<mapsto> merge_detail rd d)\<rparr>
      | None \<Rightarrow> a\<lparr>da_byIndex := (da_byIndex a)(od_index d \<mapsto> merge_detail (blank_detail (od_index d)) d),
                 da_order := da_order a @ [od_index d]\<rparr>)"

definition add_details :: "oaReasoningDetail list \<Rightarrow> detailAccumulator \<Rightarrow> detailAccumulator" where
  "add_details ds a = foldl (\<lambda>a d. add_detail d a) a ds"

definition details_finish :: "detailAccumulator \<Rightarrow> oaReasoningDetail list" where
  "details_finish a = map (\<lambda>i. the (da_byIndex a i)) (da_order a)"

text \<open>\<open>oaReasoningDetailsJSON\<close>: the array as \<open>json.Marshal\<close> writes it, empty fields left out.\<close>

definition opt_member :: "string \<Rightarrow> string \<Rightarrow> (string \<times> json) list" where
  "opt_member k s = (if s = [] then [] else [(k, JStr s)])"

definition detail_json :: "oaReasoningDetail \<Rightarrow> json" where
  "detail_json d =
     JObj ((''type'', JStr (od_type d)) # opt_member ''text'' (od_text d) @ opt_member ''summary'' (od_summary d)
       @ opt_member ''data'' (od_data d) @ (case od_signature d of None \<Rightarrow> [] | Some s \<Rightarrow> [(''signature'', JStr s)])
       @ opt_member ''id'' (od_id d) @ opt_member ''format'' (od_format d)
       @ (if od_index d = 0 then [] else [(''index'', JNum (itoa (od_index d)))]))"

definition oaReasoningDetailsJSON :: "oaReasoningDetail list \<Rightarrow> string" where
  "oaReasoningDetailsJSON ds = (if ds = [] then [] else json_text (JArr (map detail_json ds)))"

section \<open>The decoder\<close>

record oaStream =
  os_out :: sink_log
  os_think :: "nat option"
  os_text :: "nat option"
  os_calls :: "(int \<times> nat) list"
  os_nodes :: "nat list"
  os_announced :: "nat list"
  os_details :: detailAccumulator
  os_finish :: string
  os_usages :: "Usage list"
  os_timings :: "string list"
  os_model :: string
  os_routed :: string
  os_sawData :: bool

definition newOAStream :: oaStream where
  "newOAStream = \<lparr>os_out = [], os_think = None, os_text = None, os_calls = [], os_nodes = [], os_announced = [],
     os_details = newReasoningDetailAccumulator, os_finish = [], os_usages = [], os_timings = [], os_model = [],
     os_routed = [], os_sawData = False\<rparr>"

definition os_tell :: "sink_event \<Rightarrow> oaStream \<Rightarrow> oaStream" where
  "os_tell e st = st\<lparr>os_out := os_out st @ [e]\<rparr>"

definition os_body :: "oaStream \<Rightarrow> nat \<Rightarrow> node_body" where
  "os_body st n = bodies (os_out st) ! n"

definition os_next :: "oaStream \<Rightarrow> nat" where "os_next st = length (bodies (os_out st))"

definition os_start :: "begun \<Rightarrow> oaStream \<Rightarrow> oaStream" where
  "os_start b st = os_tell (EvStart b) (st\<lparr>os_nodes := os_nodes st @ [os_next st]\<rparr>)"

definition os_done :: "nat \<Rightarrow> oaStream \<Rightarrow> oaStream" where
  "os_done n st =
     (if n \<in> set (os_announced st) then st
      else os_tell (EvDone n) (st\<lparr>os_announced := os_announced st @ [n]\<rparr>))"

definition closeReasoning :: "oaStream \<Rightarrow> oaStream" where
  "closeReasoning st =
     (case os_think st of
        None \<Rightarrow> st
      | Some n \<Rightarrow> if node_final (os_body st n) then st else os_done n st)"

definition announceRemaining :: "oaStream \<Rightarrow> oaStream" where
  "announceRemaining st = foldl (\<lambda>st n. os_done n st) st (os_nodes st)"

definition openai_thinking :: thinking_data where
  "openai_thinking = \<lparr>th_signature = None, th_encrypted = None, th_redacted = None, th_itemID = [], th_details = [],
     th_raw = False, th_dialect = DialectOpenAI\<rparr>"

definition set_details :: "string \<Rightarrow> nat \<Rightarrow> oaStream \<Rightarrow> oaStream" where
  "set_details details n st =
     (case os_body st n of
        ThinkingNode s t \<Rightarrow> os_tell (EvFill n (FillThinking (t\<lparr>th_details := details\<rparr>))) st
      | _ \<Rightarrow> st)"

text \<open>The part of \<open>finishNodes\<close> the sink sees; every node then ends on what streamed (\<open>message_of\<close>).\<close>

definition finishNodes :: "oaStream \<Rightarrow> oaStream" where
  "finishNodes st =
     (let details = oaReasoningDetailsJSON (details_finish (os_details st))
      in if details = [] then st
         else (case os_think st of
                 Some n \<Rightarrow> set_details details n st
               | None \<Rightarrow>
                   (let n = os_next st
                    in set_details details n
                         (os_tell (EvStart (BeginThinking openai_thinking))
                           (st\<lparr>os_think := Some n, os_nodes := n # os_nodes st\<rparr>)))))"

text \<open>One fragment of a tool call.\<close>

definition fill_call :: "nat \<Rightarrow> oaToolCall \<Rightarrow> oaStream \<Rightarrow> oaStream" where
  "fill_call n d st =
     (case os_body st n of
        ToolCallNode i name args \<Rightarrow>
          if oc_id d = [] \<and> oc_name d = [] then st
          else os_tell (EvFill n (FillCall (if oc_id d \<noteq> [] then oc_id d else i) (if oc_name d \<noteq> [] then oc_name d else name))) st
      | _ \<Rightarrow> st)"

definition addToolCall :: "oaToolCall \<Rightarrow> oaStream \<Rightarrow> oaStream" where
  "addToolCall d st =
     (let (n, st) = (case map_of (os_calls st) (oc_index d) of
                       Some n \<Rightarrow> (n, st)
                     | None \<Rightarrow> (os_next st, os_start (BeginCall (oc_id d) (oc_name d))
                         (st\<lparr>os_calls := (oc_index d, os_next st) # os_calls st\<rparr>)));
          st = fill_call n d st
      in if oc_args d \<noteq> [] then os_tell (EvDelta n FieldArguments (oc_args d)) st else st)"

definition addToolCalls :: "oaToolCall list \<Rightarrow> oaStream \<Rightarrow> oaStream" where
  "addToolCalls ds st = foldl (\<lambda>st d. addToolCall d st) st ds"

definition os_saw :: "oaStream \<Rightarrow> oaStream" where "os_saw st = st\<lparr>os_sawData := True\<rparr>"

definition add_content :: "string \<Rightarrow> oaStream \<Rightarrow> oaStream" where
  "add_content s st =
     (let st = closeReasoning (os_saw st);
          (n, st) = (case os_text st of
                       Some n \<Rightarrow> (n, st)
                     | None \<Rightarrow> (os_next st, os_start BeginText (st\<lparr>os_text := Some (os_next st)\<rparr>)))
      in os_tell (EvDelta n FieldText s) st)"

definition add_reasoning :: "string \<Rightarrow> oaStream \<Rightarrow> oaStream" where
  "add_reasoning s st =
     (let st = os_saw st;
          (n, st) = (case os_think st of
                       Some n \<Rightarrow> if node_final (os_body st n)
                                 then (os_next st, os_start (BeginThinking openai_thinking) (st\<lparr>os_think := Some (os_next st)\<rparr>))
                                 else (n, st)
                     | None \<Rightarrow> (os_next st, os_start (BeginThinking openai_thinking) (st\<lparr>os_think := Some (os_next st)\<rparr>)))
      in os_tell (EvDelta n FieldText s) st)"

text \<open>A step of a choice, and the sink's error read after it; the first error ends the chunk.\<close>

definition asking :: "sink_answer \<Rightarrow> bool \<Rightarrow> (oaStream \<Rightarrow> oaStream) \<Rightarrow> go_error option \<times> oaStream \<Rightarrow> go_error option \<times> oaStream" where
  "asking err applies f r =
     (case r of
        (Some e, st) \<Rightarrow> (Some e, st)
      | (None, st) \<Rightarrow> if applies then (err (os_out (f st)), f st) else (None, st))"

definition quietly :: "(oaStream \<Rightarrow> oaStream) \<Rightarrow> go_error option \<times> oaStream \<Rightarrow> go_error option \<times> oaStream" where
  "quietly f r = (case r of (Some e, st) \<Rightarrow> (Some e, st) | (None, st) \<Rightarrow> (None, f st))"

definition oa_choice :: "sink_answer \<Rightarrow> oaChoice \<Rightarrow> go_error option \<times> oaStream \<Rightarrow> go_error option \<times> oaStream" where
  "oa_choice err ch r =
     (let d = ch_delta ch;
          r = asking err (oa_content d \<noteq> []) (add_content (oa_content d)) r;
          r = asking err (delta_reasoning d \<noteq> []) (add_reasoning (delta_reasoning d)) r;
          r = asking err (oa_tool_calls d \<noteq> []) (\<lambda>st. addToolCalls (oa_tool_calls d) (os_saw st)) r;
          r = quietly (\<lambda>st. if oa_reasoning_details d \<noteq> []
                then (os_saw st)\<lparr>os_details := add_details (oa_reasoning_details d) (os_details st)\<rparr> else st) r
      in quietly (\<lambda>st. if ch_finish ch \<noteq> [] then (os_saw st)\<lparr>os_finish := ch_finish ch\<rparr> else st) r)"

definition oa_report_usage :: "oa_json \<Rightarrow> string \<Rightarrow> oaUsage \<Rightarrow> oaStream \<Rightarrow> oaStream" where
  "oa_report_usage js data cu st =
     (let u = (oa_toUsage cu)\<lparr>u_raw := oj_usage js data, u_reasoning := reasoningTokens cu, u_cost := costUsd cu\<rparr>
      in os_tell (EvUsage u) ((os_saw st)\<lparr>os_usages := os_usages st @ [u]\<rparr>))"

definition oa_note :: "oaChunk \<Rightarrow> oaStream \<Rightarrow> oaStream" where
  "oa_note ck st =
     (let st = (if ck_model ck \<noteq> [] then st\<lparr>os_model := ck_model ck\<rparr> else st)
      in if routed (ck_extra ck) \<noteq> [] then st\<lparr>os_routed := routed (ck_extra ck)\<rparr> else st)"

definition oa_onData :: "oa_json \<Rightarrow> sink_answer \<Rightarrow> string \<Rightarrow> oaStream \<Rightarrow> go_error option \<times> oaStream" where
  "oa_onData js err data st =
     (case oj_decode js data of
        None \<Rightarrow> (None, st)
      | Some ck \<Rightarrow>
          (let st = oa_note ck st
           in case ck_progress ck of
                Some p \<Rightarrow> (let st = os_tell (EvProgress p) (os_saw st) in (err (os_out st), st))
              | None \<Rightarrow>
                  (let r = (None, st);
                       r = (case ck_usage ck of None \<Rightarrow> r | Some cu \<Rightarrow> asking err True (oa_report_usage js data cu) r);
                       r = (case ck_timings ck of
                              None \<Rightarrow> r
                            | Some t \<Rightarrow> asking err True (\<lambda>st. os_tell (EvTimings t) ((os_saw st)\<lparr>os_timings := os_timings st @ [t]\<rparr>)) r)
                   in foldl (\<lambda>r ch. oa_choice err ch r) r (ck_choices ck))))"

section \<open>The completion\<close>

definition StopMaxTokens :: string where "StopMaxTokens = ''max_tokens''"

definition normalizeStopReason :: "string \<Rightarrow> string" where
  "normalizeStopReason reason =
     (if reason = ''stop'' then StopEndTurn
      else if reason = ''tool_calls'' then StopToolUse
      else if reason = ''length'' then StopMaxTokens
      else reason)"

definition oa_completion :: "oaStream \<Rightarrow> CoreCompletion \<times> oaStream" where
  "oa_completion st =
     (let st = finishNodes st;
          finish = (if os_finish st = [] \<and> os_calls st \<noteq> [] then ''tool_calls'' else os_finish st);
          finish = (if finish = [] then ''stop'' else finish)
      in (\<lparr>cc_message = message_of (os_out st) (os_nodes st), cc_usages = os_usages st, cc_streamed = True,
           cc_stop = normalizeStopReason finish, cc_model = os_model st, cc_routed = os_routed st\<rparr>, st))"

text \<open>The end of \<open>complete\<close> on an event stream.\<close>

definition oa_streamed :: "oa_json \<Rightarrow> sink_answer \<Rightarrow> body \<Rightarrow> (CoreCompletion option \<times> go_error option) \<times> sink_log" where
  "oa_streamed js err b =
     (case scanSSE b (oa_onData js err) newOAStream of
        (Some e, st) \<Rightarrow>
          if os_sawData st
          then (let (c, st) = oa_completion st in ((Some c, Some (Wrapped ''openai: '' e)), os_out st))
          else ((None, Some (Wrapped ''openai: '' e)), os_out st)
      | (None, st) \<Rightarrow>
          (let (c, st) = oa_completion st; st = announceRemaining st
           in ((Some c, err (os_out st)), os_out st)))"

end
