(* ===== verification/OpenAIWire.thy ===== *)
theory OpenAIWire
  imports ParamStrip OpenAIStream
begin

text \<open>
  The chat-completions provider (\<open>core/openai.go\<close>, \<open>core/openai_wire.go\<close>, \<open>core/openai_nonstream.go\<close>):
  the transcript as wire messages, the request body, a plain JSON answer, and the call with the two
  rejections it recovers from or explains. A message is written as the struct's \<open>MarshalJSON\<close> does.
  Decoding the reasoning details a block keeps is the parameter \<open>details\<close>.
\<close>

section \<open>The transcript\<close>

record oaMessage =
  om_role :: string
  om_content :: string
  om_blocks :: "jobject list"
  om_calls :: "oaToolCall list"
  om_callID :: string
  om_reasoning :: string
  om_details :: "oaReasoningDetail list"

definition tool_call_json :: "oaToolCall \<Rightarrow> json" where
  "tool_call_json c =
     JObj ((if oc_index c = 0 then [] else [(''index'', JNum (itoa (oc_index c)))]) @ opt_member ''id'' (oc_id c)
       @ [(''type'', JStr ''function''), (''function'', JObj (opt_member ''name'' (oc_name c) @ [(''arguments'', JStr (oc_args c))]))])"

definition oa_marshal :: "oaMessage \<Rightarrow> json" where
  "oa_marshal m =
     JObj ((''role'', JStr (om_role m))
       # (if om_role m = ''assistant'' \<and> om_content m = [] \<and> om_calls m \<noteq> [] then []
          else [(''content'', if om_blocks m \<noteq> [] then JArr (map JObj (om_blocks m)) else JStr (om_content m))])
       @ opt_member ''reasoning_content'' (om_reasoning m) @ opt_member ''reasoning'' (om_reasoning m)
       @ (if om_details m = [] then [] else [(''reasoning_details'', JArr (map detail_json (om_details m)))])
       @ (if om_calls m = [] then [] else [(''tool_calls'', JArr (map tool_call_json (om_calls m)))])
       @ opt_member ''tool_call_id'' (om_callID m))"

definition oa_text_block :: "string \<Rightarrow> jobject" where
  "oa_text_block t = jmap [(''type'', JStr ''text''), (''text'', JStr t)]"

definition oa_image_block :: "string \<Rightarrow> string \<Rightarrow> string \<Rightarrow> go_error + jobject" where
  "oa_image_block media data src =
     bind_sum (imageRef DialectOpenAI media data src) (\<lambda>ref.
       Inr (jmap [(''type'', JStr ''image_url''), (''image_url'', JObj [(''url'', JStr ref)])]))"

definition oaContentBlocks :: "Message \<Rightarrow> go_error + jobject list" where
  "oaContentBlocks m =
     (if \<not> hasImage m then Inr [] else part_blocks oa_text_block oa_image_block (EffectiveParts m))"

definition reasoningText :: "Message \<Rightarrow> string" where
  "reasoningText m = concat (map tb_text (msg_thinking m))"

text \<open>
  The details of the first block whose signature decodes as an array of them: \<open>None\<close> is the nil slice,
  which a signature of \<open>null\<close> decodes to and a message without such a block has; a decode that fails is
  the outer \<open>None\<close> of \<open>details\<close>.
\<close>

type_synonym details_decoder = "string \<Rightarrow> oaReasoningDetail list option option"

primrec first_details :: "details_decoder \<Rightarrow> ThinkingBlock list \<Rightarrow> oaReasoningDetail list option" where
  "first_details details [] = None"
| "first_details details (tb # tbs) =
     (if tb_signature tb = [] then first_details details tbs
      else (case details (tb_signature tb) of None \<Rightarrow> first_details details tbs | Some ds \<Rightarrow> ds))"

definition oaReplayReasoningDetails :: "details_decoder \<Rightarrow> Message \<Rightarrow> oaReasoningDetail list option" where
  "oaReplayReasoningDetails details m = first_details details (msg_thinking m)"

definition oa_call :: "ToolCall \<Rightarrow> oaToolCall" where
  "oa_call tc = \<lparr>oc_index = 0, oc_id = tc_id tc, oc_name = tc_name tc, oc_args = replayToolArgs (tc_args tc)\<rparr>"

definition oa_wire_message :: "details_decoder \<Rightarrow> Message \<Rightarrow> go_error + oaMessage" where
  "oa_wire_message details m =
     bind_sum (oaContentBlocks m) (\<lambda>blocks.
       Inr \<lparr>om_role = role_name (msg_role m), om_content = msg_content m, om_blocks = blocks,
            om_calls = map oa_call (msg_calls m), om_callID = msg_call_id m,
            om_reasoning = (if msg_role m = RoleAssistant then reasoningText m else []),
            om_details = (if msg_role m = RoleAssistant then case_option [] id (oaReplayReasoningDetails details m) else [])\<rparr>)"

definition system_message :: "string \<Rightarrow> oaMessage" where
  "system_message system = \<lparr>om_role = role_name RoleSystem, om_content = system, om_blocks = [], om_calls = [], om_callID = [],
     om_reasoning = [], om_details = []\<rparr>"

definition oaWireMessages :: "details_decoder \<Rightarrow> string \<Rightarrow> Message list \<Rightarrow> go_error + oaMessage list" where
  "oaWireMessages details system msgs =
     bind_sum (sum_map (oa_wire_message details) msgs) (\<lambda>out.
       Inr (if system \<noteq> [] then system_message system # out else out))"

definition oa_cacheEphemeral :: json where "oa_cacheEphemeral = JObj [(''type'', JStr ''ephemeral'')]"

definition oaWithMarkedContent :: "oaMessage \<Rightarrow> oaMessage" where
  "oaWithMarkedContent m =
     (if om_blocks m \<noteq> [] then
        m\<lparr>om_blocks := butlast (om_blocks m) @ [jset ''cache_control'' oa_cacheEphemeral (last (om_blocks m))]\<rparr>
      else if om_content m \<noteq> [] then
        m\<lparr>om_blocks := [jset ''cache_control'' oa_cacheEphemeral (oa_text_block (om_content m))]\<rparr>
      else m)"

definition oaMarkPromptCache :: "oaMessage list \<Rightarrow> oaMessage list" where
  "oaMarkPromptCache msgs =
     (if msgs = [] then []
      else (let ms = butlast msgs @ [oaWithMarkedContent (last msgs)]
            in if om_role (hd ms) = ''system'' then oaWithMarkedContent (hd ms) # tl ms else ms))"

section \<open>The request\<close>

record openaiProvider =
  op_baseURL :: string
  op_apiKey :: string
  op_userAgent :: string
  op_selfHosted :: bool
  op_promptCache :: bool
  op_headers :: "(string \<times> string) list"

definition oaReserved :: "string list" where
  "oaReserved = [''messages'', ''model'', ''stream'', ''tools'']"

text \<open>\<open>oaTool\<close> and \<open>oaToolFunction\<close>: an empty description is left out.\<close>

definition oa_tool :: "'w transport \<Rightarrow> ToolDecl \<Rightarrow> go_error + json" where
  "oa_tool tp t =
     bind_sum (schema_json tp ''openai: marshal request: '' t) (\<lambda>schema.
       Inr (JObj [(''type'', JStr ''function''),
         (''function'', JObj ((''name'', JStr (decl_name t)) # opt_member ''description'' (decl_description t)
           @ [(''parameters'', schema)]))]))"

definition oa_buildBody :: "'w transport \<Rightarrow> details_decoder \<Rightarrow> openaiProvider \<Rightarrow> core_request
    \<Rightarrow> bool \<Rightarrow> go_error + json" where
  "oa_buildBody tp details o' req includeDefault =
     (let b = jset ''model'' (JStr (q_model req)) (passed_params oaReserved (ParamsFor req DialectOpenAI))
      in bind_sum (oaWireMessages details (q_system req) (q_messages req)) (\<lambda>msgs.
         let msgs = (if op_promptCache o' then oaMarkPromptCache msgs else msgs);
             b = jset ''stream'' (JBool True) (jset ''messages'' (JArr (map oa_marshal msgs)) b)
         in bind_sum (sum_map (oa_tool tp) (q_tools req)) (\<lambda>ts.
            let b = (if q_tools req \<noteq> [] then jset ''tools'' (JArr ts) b else b);
                b = (if q_maxTokens req > 0 then jset ''max_tokens'' (JNum (itoa (q_maxTokens req))) b else b);
                b = (if map_of b ''stream_options'' = None \<and> includeDefault
                     then jset ''stream_options'' (JObj [(''include_usage'', JBool True)]) b else b);
                b = (if q_cacheKey req \<noteq> [] then jset ''prompt_cache_key'' (JStr (q_cacheKey req)) b else b);
                b = (if op_selfHosted o' then jset ''cache_prompt'' (JBool True) b else b)
            in Inr (JObj b))))"

section \<open>A plain answer\<close>

record oaNonStreamMessage =
  nm_content :: "string option"
  nm_reasoning_content :: string
  nm_reasoning :: string
  nm_details :: "oaReasoningDetail list"
  nm_calls :: "oaToolCall list"

text \<open>The answer; its usage object is kept as text and decoded on its own.\<close>

record oaNonStream =
  on_choices :: "(oaNonStreamMessage \<times> string) list"
  on_usage :: string
  on_model :: string
  on_extra :: oaExtraFields

definition message_reasoning :: "oaNonStreamMessage \<Rightarrow> string" where
  "message_reasoning m = (if nm_reasoning_content m \<noteq> [] then nm_reasoning_content m else nm_reasoning m)"

definition oaAssistantMessage :: "string \<Rightarrow> string \<Rightarrow> string \<Rightarrow> ToolCall list \<Rightarrow> Message" where
  "oaAssistantMessage reasoning details content calls =
     SyncViews ((empty_message RoleAssistant)\<lparr>msg_parts :=
       (if reasoning \<noteq> [] \<or> details \<noteq> [] then [ThinkingPart reasoning details [] False] else [])
       @ (if content \<noteq> [] then [TextPart content] else [])
       @ map (\<lambda>c. ToolCallPart (tc_id c) (tc_name c) (tc_args c)) calls\<rparr>)"

definition oa_parseNonStream :: "(string \<Rightarrow> string + oaNonStream) \<Rightarrow> (string \<Rightarrow> oaUsage option) \<Rightarrow> string \<Rightarrow> go_error + CoreCompletion" where
  "oa_parseNonStream decode decode_usage data =
     (case decode data of
        Inl why \<Rightarrow> Inl (RequestError (''openai: decode non-streaming response: '' @ why))
      | Inr resp \<Rightarrow>
          (case on_choices resp of
             [] \<Rightarrow> Inl (RequestError ''openai: non-streaming response carries no choices'')
           | (msg, finish) # _ \<Rightarrow>
               (let content = (case nm_content msg of Some c \<Rightarrow> c | None \<Rightarrow> []);
                    calls = map (\<lambda>tc. \<lparr>tc_id = oc_id tc, tc_name = oc_name tc, tc_args = toolArgs (oc_args tc)\<rparr>) (nm_calls msg);
                    m = oaAssistantMessage (message_reasoning msg) (oaReasoningDetailsJSON (nm_details msg)) content calls;
                    stop = normalizeStopReason finish
                in Inr \<lparr>cc_message = m,
                     cc_usages = (if on_usage resp = [] then []
                       else (case decode_usage (on_usage resp) of
                               None \<Rightarrow> []
                             | Some u \<Rightarrow> [(oa_toUsage u)\<lparr>u_raw := on_usage resp, u_reasoning := reasoningTokens u, u_cost := costUsd u\<rparr>])),
                     cc_streamed = False,
                     cc_stop = (if stop \<noteq> [] then stop else if msg_calls m \<noteq> [] then StopToolUse else StopEndTurn),
                     cc_model = on_model resp, cc_routed = routed (on_extra resp)\<rparr>)))"

section \<open>The call\<close>

record oa_decoders =
  ox_stream :: oa_json
  ox_details :: details_decoder
  ox_plain :: "string \<Rightarrow> string + oaNonStream"
  ox_usage :: "string \<Rightarrow> oaUsage option"
  ox_lower :: "string \<Rightarrow> string"

definition oa_headers :: "openaiProvider \<Rightarrow> (string \<times> string) list" where
  "oa_headers o' =
     set_headers
       ([(''Content-Type'', ''application/json''), (''Accept'', event_stream_type)]
        @ (if op_apiKey o' \<noteq> [] then [(''Authorization'', ''Bearer '' @ op_apiKey o')] else [])
        @ (if op_userAgent o' \<noteq> [] then [(''User-Agent'', op_userAgent o')] else [])
        @ op_headers o') []"

definition oa_complete :: "'w transport \<Rightarrow> oa_decoders \<Rightarrow> openaiProvider \<Rightarrow> sink_answer \<Rightarrow> core_request \<Rightarrow> bool \<Rightarrow> 'w
    \<Rightarrow> (outcome \<times> sink_log) \<times> 'w" where
  "oa_complete tp ox o' err req includeDefault w =
     (case oa_buildBody tp (ox_details ox) o' req includeDefault of
        Inl e \<Rightarrow> (((None, Some e), []), w)
      | Inr bod \<Rightarrow>
          exchange tp ''openai'' (trim_right (CHR ''/'') (op_baseURL o') @ ''/chat/completions'') (oa_headers o') bod
            (\<lambda>data. completionIntoSink (oa_parseNonStream (ox_plain ox) (ox_usage ox) data) err DialectOpenAI)
            (oa_streamed (ox_stream ox) err) w)"

definition ErrReasoningRefused :: go_error where
  "ErrReasoningRefused = ErrorNew (''openai: the endpoint rejected the replayed reasoning; ''
     @ ''use an endpoint that accepts reasoning_content or reasoning on assistant messages'')"

definition carriesReasoning :: "details_decoder \<Rightarrow> Message list \<Rightarrow> bool" where
  "carriesReasoning details msgs \<longleftrightarrow>
     (\<exists>m\<in>set msgs. msg_role m = RoleAssistant \<and> (reasoningText m \<noteq> [] \<or> oaReplayReasoningDetails details m \<noteq> None))"

definition has_suffix :: "string \<Rightarrow> string \<Rightarrow> bool" where
  "has_suffix p s \<longleftrightarrow> length p \<le> length s \<and> drop (length s - length p) s = p"

definition refusesReasoning :: "(string \<Rightarrow> string) \<Rightarrow> go_error \<Rightarrow> bool" where
  "refusesReasoning low err =
     (case error_as is_api err of
        Some (APIError st bod ov) \<Rightarrow>
          if (st \<noteq> 400 \<and> st \<noteq> 422) \<or> ov then False
          else if contains_str ''reasoning_content'' (low bod) \<or> contains_str ''reasoning_details'' (low bod) then True
          else (case rejectedParamName bod of
                  None \<Rightarrow> False
                | Some name \<Rightarrow> has_suffix ''reasoning'' (normalizeParamName low name))
      | _ \<Rightarrow> False)"

definition shouldRetryWithoutStreamOptions :: "core_request \<Rightarrow> go_error \<Rightarrow> bool" where
  "shouldRetryWithoutStreamOptions req err =
     (case error_as is_api err of
        Some (APIError st bod ov) \<Rightarrow>
          st = 400 \<and> \<not> ov \<and> rejectedParamName bod = None \<and> map_of (ParamsFor req DialectOpenAI) ''stream_options'' = None
      | _ \<Rightarrow> False)"

text \<open>A second attempt writes into the same sink, after whatever the first one told it.\<close>

definition oa_completeOnce :: "'w transport \<Rightarrow> oa_decoders \<Rightarrow> openaiProvider \<Rightarrow> sink_answer \<Rightarrow> core_request \<Rightarrow> 'w
    \<Rightarrow> (outcome \<times> sink_log) \<times> 'w" where
  "oa_completeOnce tp ox o' err req w =
     (let ((r, out), w) = oa_complete tp ox o' err req True w
      in case r of
           (None, Some e) \<Rightarrow>
             if refusesReasoning (ox_lower ox) e \<or> \<not> shouldRetryWithoutStreamOptions req e then ((r, out), w)
             else (let ((r, out'), w) = oa_complete tp ox o' (\<lambda>o2. err (out @ o2)) req False w in ((r, out @ out'), w))
         | _ \<Rightarrow> ((r, out), w))"

definition oa_Stream :: "'w transport \<Rightarrow> oa_decoders \<Rightarrow> openaiProvider \<Rightarrow> sink_answer \<Rightarrow> core_request \<Rightarrow> 'w
    \<Rightarrow> (outcome \<times> sink_log) \<times> 'w" where
  "oa_Stream tp ox o' err req w =
     (let ((r, out), w) = oa_completeOnce tp ox o' err req w
      in case r of
           (None, Some e) \<Rightarrow>
             if carriesReasoning (ox_details ox) (q_messages req) \<and> refusesReasoning (ox_lower ox) e
             then (((None, Some (Explained ErrReasoningRefused e)), out), w)
             else ((r, out), w)
         | _ \<Rightarrow> ((r, out), w))"

section \<open>Properties\<close>

text \<open>
  What a message becomes. A part is shown by a block: a text by its text, an image by its reference, the
  URL it came with or its bytes as a data URI. Of the parts, the empty texts and what is neither text nor
  image have no block.
\<close>

fun part_shown :: "Part \<Rightarrow> bool" where
  "part_shown (TextPart t) = (t \<noteq> [])" | "part_shown (ImagePart _ _ _) = True" | "part_shown _ = False"

fun shows_part :: "jobject \<Rightarrow> Part \<Rightarrow> bool" where
  "shows_part b (TextPart t) = (map_of b ''type'' = Some (JStr ''text'') \<and> map_of b ''text'' = Some (JStr t))"
| "shows_part b (ImagePart media data src) =
     (map_of b ''type'' = Some (JStr ''image_url'')
      \<and> map_of b ''image_url'' = Some (JObj [(''url'', JStr (if src \<noteq> [] then src else ''data:'' @ media @ '';base64,'' @ data))]))"
| "shows_part b p = False"

text \<open>Arguments go out as the model wrote them when they are JSON, else as an empty object.\<close>

definition sent_args :: "string \<Rightarrow> string" where
  "sent_args args = (if trim_space args \<noteq> [] \<and> json_parse args \<noteq> None then args else ''{}'')"

definition wire_image :: "details_decoder \<Rightarrow> Message \<Rightarrow> oaMessage \<Rightarrow> bool" where
  "wire_image details m wm \<longleftrightarrow>
     om_role wm = role_name (msg_role m) \<and> om_content wm = msg_content m \<and> om_callID wm = msg_call_id m
     \<and> map (\<lambda>c. (oc_id c, oc_name c, oc_args c)) (om_calls wm) = map (\<lambda>c. (tc_id c, tc_name c, sent_args (tc_args c))) (msg_calls m)
     \<and> (if \<exists>p\<in>set (msg_parts m). is_image p
        then list_all2 shows_part (om_blocks wm) (filter part_shown (msg_parts m)) else om_blocks wm = [])
     \<and> om_reasoning wm = (if msg_role m = RoleAssistant then concat (map tb_text (msg_thinking m)) else [])
     \<and> om_details wm =
         (if msg_role m \<noteq> RoleAssistant then []
          else (case find (\<lambda>tb. tb_signature tb \<noteq> [] \<and> details (tb_signature tb) \<noteq> None) (msg_thinking m) of
                  None \<Rightarrow> []
                | Some tb \<Rightarrow> (case details (tb_signature tb) of Some (Some ds) \<Rightarrow> ds | _ \<Rightarrow> [])))"

lemma blocks_show:
  "part_blocks oa_text_block oa_image_block ps = Inr bs \<Longrightarrow> list_all2 shows_part bs (filter part_shown ps)"
proof (induction oa_text_block oa_image_block ps arbitrary: bs rule: part_blocks.induct)
  case (2 t ps)
  then show ?case
    by (cases "part_blocks oa_text_block oa_image_block ps") (auto simp: oa_text_block_def split: if_splits)
next
  case (3 media data src ps)
  have "oa_image_block media data src = Inr b \<Longrightarrow> shows_part b (ImagePart media data src)" for b
    by (auto simp: oa_image_block_def imageRef_def dataURI_def split: if_splits)
  with 3 show ?case
    by (cases "oa_image_block media data src"; cases "part_blocks oa_text_block oa_image_block ps") auto
qed auto

lemma parts_of_images: "hasImage m \<longleftrightarrow> (\<exists>p\<in>set (msg_parts m). is_image p)" "hasImage m \<Longrightarrow> EffectiveParts m = msg_parts m"
proof -
  have "\<not> is_image (thinking_part tb)" for tb by (simp add: thinking_part_def)
  then show "hasImage m \<longleftrightarrow> (\<exists>p\<in>set (msg_parts m). is_image p)" "hasImage m \<Longrightarrow> EffectiveParts m = msg_parts m"
    by (auto simp: hasImage_def EffectiveParts_def split: if_splits)
qed

lemma details_found:
  "case_option [] id (first_details details tbs)
   = (case find (\<lambda>tb. tb_signature tb \<noteq> [] \<and> details (tb_signature tb) \<noteq> None) tbs of
        None \<Rightarrow> [] | Some tb \<Rightarrow> (case details (tb_signature tb) of Some (Some ds) \<Rightarrow> ds | _ \<Rightarrow> []))"
  by (induction tbs) (auto split: option.split)

lemma replay_sent: "replayToolArgs args = sent_args args"
  using json_Valid_empty_object by (auto simp: replayToolArgs_def toolArgs_def sent_args_def json_Valid_def)

lemma wire_message_image:
  assumes "oa_wire_message details m = Inr wm"
  shows "wire_image details m wm"
proof -
  obtain bs where bs: "oaContentBlocks m = Inr bs" using assms by (cases "oaContentBlocks m") (auto simp: oa_wire_message_def)
  have "if \<exists>p\<in>set (msg_parts m). is_image p then list_all2 shows_part bs (filter part_shown (msg_parts m)) else bs = []"
    using bs parts_of_images [of m] blocks_show [of "msg_parts m" bs] by (auto simp: oaContentBlocks_def split: if_splits)
  then show ?thesis using assms bs
    by (cases "\<exists>p\<in>set (msg_parts m). is_image p")
      (auto simp: wire_image_def oa_wire_message_def oa_call_def replay_sent reasoningText_def oaReplayReasoningDetails_def details_found)
qed

lemma sum_map_images: "sum_map f xs = Inr ys \<Longrightarrow> list_all2 (\<lambda>x y. f x = Inr y) xs ys"
proof (induction xs arbitrary: ys)
  case (Cons x xs)
  then show ?case by (cases "f x"; cases "sum_map f xs") auto
qed simp


definition wire_conversation :: "Message list" where
  "wire_conversation =
     [NewMessage RoleUser [TextPart ''look'', ImagePart ''image/png'' ''AA'' []],
      NewMessage RoleAssistant [ThinkingPart ''hm'' [] [] False, ToolCallPart ''a'' ''read'' ''{bad'', ToolCallPart ''b'' ''list'' ''{}''],
      (empty_message RoleTool)\<lparr>msg_call_id := ''a'', msg_content := ''no''\<rparr>]"


end
