(* ===== verification/OpenAIProps.thy ===== *)
theory OpenAIProps
  imports AnthropicProps OpenAIWire
begin

text \<open>
  What the chat-completions decoder guarantees: the completion holds the text, the reasoning and the tool
  calls the chunks carried, however they were interleaved and cut, also when the stream broke half way.
\<close>

section \<open>What the nodes hold\<close>

datatype shape_kind = TextKind | ThinkKind | CallKind | OtherKind

fun shape :: "node_body \<Rightarrow> shape_kind" where
  "shape (AssistantNode s) = TextKind"
| "shape (ThinkingNode s t) = (if th_redacted t = None then ThinkKind else OtherKind)"
| "shape (ToolCallNode i n s) = CallKind"
| "shape _ = OtherKind"

fun body_text :: "node_body \<Rightarrow> string" where
  "body_text (AssistantNode s) = ss_current s" | "body_text _ = []"

fun body_thought :: "node_body \<Rightarrow> string" where
  "body_thought (ThinkingNode s t) = (if th_redacted t = None then ss_current s else [])" | "body_thought _ = []"

fun body_call :: "node_body \<Rightarrow> ToolCall" where
  "body_call (ToolCallNode i name s) = \<lparr>tc_id = i, tc_name = name, tc_args = ss_current s\<rparr>"
| "body_call _ = \<lparr>tc_id = [], tc_name = [], tc_args = []\<rparr>"

abbreviation nodes_of :: "oaStream \<Rightarrow> node_body list" where "nodes_of st \<equiv> bodies (os_out st)"

definition texts :: "oaStream \<Rightarrow> string" where "texts st = concat (map body_text (nodes_of st))"
definition thoughts :: "oaStream \<Rightarrow> string" where "thoughts st = concat (map body_thought (nodes_of st))"

definition calls_of :: "oaStream \<Rightarrow> (int \<times> ToolCall) list" where
  "calls_of st = map (\<lambda>(i, n). (i, body_call (nodes_of st ! n))) (rev (os_calls st))"

text \<open>The decoder's pointers into its nodes: one text node, the last thinking node, every call node.\<close>

definition pointers_fit :: "shape_kind list \<Rightarrow> oaStream \<Rightarrow> bool" where
  "pointers_fit ks st \<longleftrightarrow>
     os_nodes st = [0..<length ks]
     \<and> (\<forall>n. os_text st = Some n \<longleftrightarrow> n < length ks \<and> ks ! n = TextKind)
     \<and> (case os_think st of
          None \<Rightarrow> ThinkKind \<notin> set ks
        | Some n \<Rightarrow> n < length ks \<and> ks ! n = ThinkKind \<and> (\<forall>j>n. j < length ks \<longrightarrow> ks ! j \<noteq> ThinkKind))
     \<and> map snd (rev (os_calls st)) = filter (\<lambda>j. ks ! j = CallKind) [0..<length ks]
     \<and> distinct (map fst (os_calls st))"

definition pointers_ok :: "oaStream \<Rightarrow> bool" where
  "pointers_ok st \<longleftrightarrow> pointers_fit (map shape (nodes_of st)) st"

lemma shape_cases:
  "shape b = TextKind \<Longrightarrow> \<exists>s. b = AssistantNode s"
  "shape b = ThinkKind \<Longrightarrow> \<exists>s t. b = ThinkingNode s t \<and> th_redacted t = None"
  "shape b = CallKind \<Longrightarrow> \<exists>i name s. b = ToolCallNode i name s"
  by (cases b; simp split: if_splits)+

lemma plain_thinking [simp]: "th_redacted openai_thinking = None"
  by (simp add: openai_thinking_def)

text \<open>The events that start no node and do not replace a node's reasoning data.\<close>

definition in_place :: "sink_event \<Rightarrow> bool" where
  "in_place e \<longleftrightarrow> (\<forall>b. e \<noteq> EvStart b) \<and> (\<forall>i t. e \<noteq> EvFill i (FillThinking t))"

lemma shape_simps [simp]:
  "shape (append_body f d b) = shape b" "shape (finish_body b) = shape b" "shape (map_stream g b) = shape b"
  by (cases b; simp add: append_body_def finish_body_def)+

lemma shape_fill: "\<forall>t. fl \<noteq> FillThinking t \<Longrightarrow> shape (fill_body fl b) = shape b"
  by (cases fl; cases b) simp_all

lemma map_upd_body: "(\<And>b. k (f b) = k b) \<Longrightarrow> map k (upd_body i f bs) = map k bs"
  by (simp add: upd_body_def map_update list_update_same_conv)

lemma play_shapes: "in_place e \<Longrightarrow> map shape (play bs e) = map shape bs"
  by (cases e) (simp_all add: map_upd_body in_place_def shape_fill)

lemma os_tell_simps [simp]:
  "os_out (os_tell e st) = os_out st @ [e]" "os_nodes (os_tell e st) = os_nodes st" "os_text (os_tell e st) = os_text st"
  "os_think (os_tell e st) = os_think st" "os_calls (os_tell e st) = os_calls st" "os_finish (os_tell e st) = os_finish st"
  "os_usages (os_tell e st) = os_usages st" "os_model (os_tell e st) = os_model st" "os_details (os_tell e st) = os_details st"
  by (simp_all add: os_tell_def)

lemma pointers_tell: "in_place e \<Longrightarrow> pointers_ok (os_tell e st) = pointers_ok st"
  by (simp add: pointers_ok_def play_shapes pointers_fit_def)

lemma os_start_simps [simp]:
  "os_out (os_start b st) = os_out st @ [EvStart b]" "os_nodes (os_start b st) = os_nodes st @ [os_next st]"
  "os_text (os_start b st) = os_text st" "os_think (os_start b st) = os_think st" "os_calls (os_start b st) = os_calls st"
  "os_finish (os_start b st) = os_finish st" "os_usages (os_start b st) = os_usages st" "os_model (os_start b st) = os_model st"
  "os_details (os_start b st) = os_details st"
  by (simp_all add: os_start_def)

lemma calls_in_range:
  assumes "pointers_ok st" "(i, n) \<in> set (os_calls st)"
  shows "n < length (nodes_of st) \<and> shape (nodes_of st ! n) = CallKind"
proof -
  have "n \<in> set (map snd (rev (os_calls st)))" using assms(2) by (auto intro: rev_image_eqI)
  moreover have "map snd (rev (os_calls st))
      = filter (\<lambda>j. map shape (nodes_of st) ! j = CallKind) [0..<length (map shape (nodes_of st))]"
    using assms(1) unfolding pointers_ok_def pointers_fit_def by blast
  ultimately have "n \<in> set (filter (\<lambda>j. map shape (nodes_of st) ! j = CallKind) [0..<length (map shape (nodes_of st))])"
    by simp
  then show ?thesis by auto
qed

lemma filter_upt_append:
  "filter (\<lambda>j. (ks @ [k]) ! j = x) [0..<Suc (length ks)]
     = filter (\<lambda>j. ks ! j = x) [0..<length ks] @ (if k = x then [length ks] else [])"
proof -
  have "filter (\<lambda>j. (ks @ [k]) ! j = x) [0..<length ks] = filter (\<lambda>j. ks ! j = x) [0..<length ks]"
    by (rule filter_cong) (simp_all add: nth_append)
  then show ?thesis by simp
qed

lemma pointers_fit_start:
  assumes "pointers_fit ks st" "n = length ks"
  shows "os_text st = None \<Longrightarrow> pointers_fit (ks @ [TextKind]) (st\<lparr>os_text := Some n, os_nodes := os_nodes st @ [n]\<rparr>)"
    and "pointers_fit (ks @ [ThinkKind]) (st\<lparr>os_think := Some n, os_nodes := os_nodes st @ [n]\<rparr>)"
    and "i \<notin> fst ` set (os_calls st) \<Longrightarrow>
      pointers_fit (ks @ [CallKind]) (st\<lparr>os_calls := (i, n) # os_calls st, os_nodes := os_nodes st @ [n]\<rparr>)"
proof -
  have ok: "os_nodes st = [0..<length ks]"
    "\<And>n. os_text st = Some n \<longleftrightarrow> n < length ks \<and> ks ! n = TextKind"
    "case os_think st of None \<Rightarrow> ThinkKind \<notin> set ks
       | Some n \<Rightarrow> n < length ks \<and> ks ! n = ThinkKind \<and> (\<forall>j>n. j < length ks \<longrightarrow> ks ! j \<noteq> ThinkKind)"
    "map snd (rev (os_calls st)) = filter (\<lambda>j. ks ! j = CallKind) [0..<length ks]" "distinct (map fst (os_calls st))"
    using assms by (auto simp: pointers_fit_def)
  have f: "filter (\<lambda>j. (ks @ [k]) ! j = CallKind) [0..<length (ks @ [k])]
     = map snd (rev (os_calls st)) @ (if k = CallKind then [length ks] else [])" for k
    using filter_upt_append [of ks k CallKind] ok(4) by simp
  have nodes: "os_nodes st @ [n] = [0..<length (ks @ [k])]" for k
    using ok(1) assms(2) by simp
  show "pointers_fit (ks @ [TextKind]) (st\<lparr>os_text := Some n, os_nodes := os_nodes st @ [n]\<rparr>)" if "os_text st = None"
    unfolding pointers_fit_def f using nodes ok that assms(2)
    by (auto simp: nth_append less_Suc_eq split: option.splits)
  show "pointers_fit (ks @ [ThinkKind]) (st\<lparr>os_think := Some n, os_nodes := os_nodes st @ [n]\<rparr>)"
    unfolding pointers_fit_def f using nodes ok assms(2)
    by (auto simp: nth_append less_Suc_eq)
  show "pointers_fit (ks @ [CallKind]) (st\<lparr>os_calls := (i, n) # os_calls st, os_nodes := os_nodes st @ [n]\<rparr>)"
    if "i \<notin> fst ` set (os_calls st)"
    unfolding pointers_fit_def f using nodes ok that assms(2)
    by (auto simp: nth_append less_Suc_eq split: option.splits)
qed

lemma os_saw_simps [simp]:
  "os_out (os_saw st) = os_out st" "os_nodes (os_saw st) = os_nodes st" "os_text (os_saw st) = os_text st"
  "os_think (os_saw st) = os_think st" "os_calls (os_saw st) = os_calls st" "os_finish (os_saw st) = os_finish st"
  "os_usages (os_saw st) = os_usages st" "os_model (os_saw st) = os_model st" "os_details (os_saw st) = os_details st"
  by (simp_all add: os_saw_def)

section \<open>How the contents grow\<close>

lemma concat_grown:
  assumes "n < length bs" "\<forall>j. n < j \<and> j < length bs \<longrightarrow> f (bs ! j) = []" "f b = f (bs ! n) @ x"
  shows "concat (map f (bs[n := b])) = concat (map f bs) @ x"
proof -
  have "concat (map f (drop (Suc n) bs)) = []"
    using assms(2) by (auto simp: in_set_conv_nth)
  then have "concat (map f bs) = concat (map f (take n bs)) @ f (bs ! n)"
    using assms(1) by (subst id_take_nth_drop [OF assms(1)]) simp
  then show ?thesis using assms(1,3) \<open>concat (map f (drop (Suc n) bs)) = []\<close> by (simp add: upd_conv_take_nth_drop)
qed

lemma concat_same: "n < length bs \<Longrightarrow> f b = f (bs ! n) \<Longrightarrow> concat (map f (bs[n := b])) = concat (map f bs)"
  by (metis list_update_id map_update)

lemma distinct_snd: "distinct (map snd xs) \<Longrightarrow> (a, n) \<in> set xs \<Longrightarrow> (b, n) \<in> set xs \<Longrightarrow> a = b"
  by (induction xs) force+

lemma calls_distinct:
  assumes "pointers_ok st"
  shows "distinct (map snd (os_calls st))" "distinct (map fst (os_calls st))"
proof -
  have "distinct (map snd (rev (os_calls st)))" using assms by (simp add: pointers_ok_def pointers_fit_def)
  then show "distinct (map snd (os_calls st))" by (simp flip: rev_map)
  show "distinct (map fst (os_calls st))" using assms by (simp add: pointers_ok_def pointers_fit_def)
qed

text \<open>What a step adds to the text, the reasoning and the calls.\<close>

definition adds :: "oaStream \<Rightarrow> string \<Rightarrow> string \<Rightarrow> (int \<times> ToolCall) list \<Rightarrow> oaStream \<Rightarrow> bool" where
  "adds st t r cs st' \<longleftrightarrow> pointers_ok st' \<and> texts st' = texts st @ t \<and> thoughts st' = thoughts st @ r \<and> calls_of st' = cs"

lemma called_tell:
  assumes "pointers_ok st" "n < length (nodes_of st)" "nodes_of st' = (nodes_of st)[n := b]" "os_calls st' = os_calls st"
    "body_call b = body_call (nodes_of st ! n)"
  shows "calls_of st' = calls_of st"
  using assms by (auto simp: calls_of_def nth_list_update)

lemma delta_adds:
  assumes "pointers_ok st" "n < length (nodes_of st)"
  shows "shape (nodes_of st ! n) = TextKind \<Longrightarrow> adds st s [] (calls_of st) (os_tell (EvDelta n FieldText s) st)"
    and "shape (nodes_of st ! n) = ThinkKind \<Longrightarrow> os_think st = Some n \<Longrightarrow> adds st [] s (calls_of st) (os_tell (EvDelta n FieldText s) st)"
    and "(i, n) \<in> set (os_calls st) \<Longrightarrow>
      adds st [] [] (map (\<lambda>(j, c). (j, if j = i then c\<lparr>tc_args := tc_args c @ s\<rparr> else c)) (calls_of st))
        (os_tell (EvDelta n FieldArguments s) st)"
proof -
  let ?bs = "nodes_of st"
  have last_text: "shape (?bs ! n) = TextKind \<Longrightarrow> \<forall>j. n < j \<and> j < length ?bs \<longrightarrow> body_text (?bs ! j) = []"
  proof (intro allI impI)
    fix j assume t: "shape (?bs ! n) = TextKind" and j: "n < j \<and> j < length ?bs"
    have "shape (?bs ! j) \<noteq> TextKind"
    proof
      assume "shape (?bs ! j) = TextKind"
      then have "os_text st = Some j" "os_text st = Some n"
        using assms t j by (auto simp: pointers_ok_def pointers_fit_def)
      with j show False by simp
    qed
    then show "body_text (?bs ! j) = []" by (cases "?bs ! j") simp_all
  qed
  show "adds st s [] (calls_of st) (os_tell (EvDelta n FieldText s) st)" if k: "shape (?bs ! n) = TextKind"
  proof -
    obtain z where z: "?bs ! n = AssistantNode z" using shape_cases(1) [OF k] by blast
    have bs: "nodes_of (os_tell (EvDelta n FieldText s) st) = ?bs[n := AssistantNode (ss_append s z)]"
      using assms z by (simp add: upd_body_def append_body_def field_of_def)
    show ?thesis using assms pointers_tell [of "EvDelta n FieldText s" st] called_tell [OF assms bs] z
      concat_grown [OF assms(2) last_text [OF k], of "AssistantNode (ss_append s z)" s]
      by (simp add: in_place_def adds_def texts_def thoughts_def bs concat_same del: os_tell_simps(1))
  qed
  show "adds st [] s (calls_of st) (os_tell (EvDelta n FieldText s) st)" if k: "shape (?bs ! n) = ThinkKind" and p: "os_think st = Some n"
  proof -
    obtain z t where z: "?bs ! n = ThinkingNode z t" and plain: "th_redacted t = None" using shape_cases(2) [OF k] by blast
    have bs: "nodes_of (os_tell (EvDelta n FieldText s) st) = ?bs[n := ThinkingNode (ss_append s z) t]"
      using assms z by (simp add: upd_body_def append_body_def field_of_def)
    have l: "\<forall>j. n < j \<and> j < length ?bs \<longrightarrow> body_thought (?bs ! j) = []"
    proof (intro allI impI)
      fix j assume "n < j \<and> j < length ?bs"
      then have "shape (?bs ! j) \<noteq> ThinkKind" using assms p by (auto simp: pointers_ok_def pointers_fit_def)
      then show "body_thought (?bs ! j) = []" by (cases "?bs ! j") (auto split: if_splits)
    qed
    show ?thesis using assms pointers_tell [of "EvDelta n FieldText s" st] called_tell [OF assms bs] z
      concat_grown [OF assms(2) l, of "ThinkingNode (ss_append s z) t" s] plain
      by (simp add: in_place_def adds_def texts_def thoughts_def bs concat_same del: os_tell_simps(1))
  qed
  show "adds st [] [] (map (\<lambda>(j, c). (j, if j = i then c\<lparr>tc_args := tc_args c @ s\<rparr> else c)) (calls_of st))
        (os_tell (EvDelta n FieldArguments s) st)" if c: "(i, n) \<in> set (os_calls st)"
  proof -
    have "shape (?bs ! n) = CallKind" using calls_in_range [OF assms(1) c] by simp
    then obtain ci name z where z: "?bs ! n = ToolCallNode ci name z" using shape_cases(3) by blast
    have bs: "nodes_of (os_tell (EvDelta n FieldArguments s) st) = ?bs[n := ToolCallNode ci name (ss_append s z)]"
      using assms z by (simp add: upd_body_def append_body_def field_of_def)
    have one: "j = i \<longleftrightarrow> m = n" if "(j, m) \<in> set (os_calls st)" for j m
      using that c calls_distinct [OF assms(1)] distinct_snd eq_key_imp_eq_value by metis
    have "calls_of (os_tell (EvDelta n FieldArguments s) st)
        = map (\<lambda>(j, c). (j, if j = i then c\<lparr>tc_args := tc_args c @ s\<rparr> else c)) (calls_of st)"
      using z assms(2) one by (auto simp: calls_of_def bs nth_list_update simp del: os_tell_simps(1))
    then show ?thesis using assms pointers_tell [of "EvDelta n FieldArguments s" st] z
      by (simp add: in_place_def adds_def texts_def thoughts_def bs concat_same del: os_tell_simps(1))
  qed
qed

lemma adds_trans: "adds st t r cs st1 \<Longrightarrow> adds st1 t' r' cs' st2 \<Longrightarrow> adds st (t @ t') (r @ r') cs' st2"
  by (simp add: adds_def)

lemma adds_refl: "pointers_ok st \<Longrightarrow> adds st [] [] (calls_of st) st"
  by (simp add: adds_def)

lemma adds_ok: "adds st t r cs st' \<Longrightarrow> pointers_ok st'" "adds st t r cs st' \<Longrightarrow> calls_of st' = cs"
  by (simp_all add: adds_def)

text \<open>Steps that only touch what the decoder keeps for itself.\<close>

lemma adds_frame:
  assumes "adds st t r cs st1" "os_out st2 = os_out st1" "os_nodes st2 = os_nodes st1" "os_text st2 = os_text st1"
    "os_think st2 = os_think st1" "os_calls st2 = os_calls st1"
  shows "adds st t r cs st2"
  using assms by (simp add: adds_def pointers_ok_def pointers_fit_def texts_def thoughts_def calls_of_def)

lemma adds_saw [simp]: "pointers_ok st \<Longrightarrow> pointers_ok (os_saw st)" "texts (os_saw st) = texts st"
  "thoughts (os_saw st) = thoughts st" "calls_of (os_saw st) = calls_of st"
  by (simp_all add: pointers_ok_def pointers_fit_def texts_def thoughts_def calls_of_def)

lemma tell_same:
  assumes "pointers_ok st" "in_place e"
    and v: "map body_text (play (nodes_of st) e) = map body_text (nodes_of st)"
      "map body_thought (play (nodes_of st) e) = map body_thought (nodes_of st)"
      "map body_call (play (nodes_of st) e) = map body_call (nodes_of st)"
  shows "adds st [] [] (calls_of st) (os_tell e st)"
proof -
  have "body_call (play (nodes_of st) e ! n) = body_call (nodes_of st ! n)" if "(i, n) \<in> set (os_calls st)" for i n
    using v(3) calls_in_range [OF assms(1) that] by (metis length_map nth_map)
  then have "calls_of (os_tell e st) = calls_of st" by (auto simp: calls_of_def)
  then show ?thesis
    using assms(1) pointers_tell [OF assms(2)] v by (simp add: in_place_def adds_def texts_def thoughts_def)
qed

lemma view_done [simp]: "body_text (finish_body b) = body_text b" "body_thought (finish_body b) = body_thought b"
  "body_call (finish_body b) = body_call b"
  by (cases b; simp add: finish_body_def)+

lemma done_adds: "pointers_ok st \<Longrightarrow> adds st [] [] (calls_of st) (os_done n st)"
proof -
  assume p: "pointers_ok st"
  let ?st = "st\<lparr>os_announced := os_announced st @ [n]\<rparr>"
  have "adds st [] [] (calls_of st) ?st" by (rule adds_frame [OF adds_refl [OF p]]) simp_all
  moreover have "adds ?st [] [] (calls_of ?st) (os_tell (EvDone n) ?st)"
    by (rule tell_same) (use calculation in \<open>simp_all add: adds_ok map_upd_body in_place_def\<close>)
  ultimately have "adds st [] [] (calls_of st) (os_tell (EvDone n) ?st)" using adds_trans by (force simp: adds_ok)
  with p show ?thesis by (simp add: os_done_def adds_refl)
qed

lemma close_adds: "pointers_ok st \<Longrightarrow> adds st [] [] (calls_of st) (closeReasoning st)"
  by (simp add: closeReasoning_def done_adds adds_refl split: option.split)

lemma start_adds:
  assumes "pointers_ok st"
  shows "os_text st = None \<Longrightarrow> adds st [] [] (calls_of st) (os_start BeginText (st\<lparr>os_text := Some (os_next st)\<rparr>))"
    and "adds st [] [] (calls_of st) (os_start (BeginThinking openai_thinking) (st\<lparr>os_think := Some (os_next st)\<rparr>))"
    and "i \<notin> fst ` set (os_calls st) \<Longrightarrow> adds st [] [] (calls_of st @ [(i, \<lparr>tc_id = c, tc_name = name, tc_args = []\<rparr>)])
      (os_start (BeginCall c name) (st\<lparr>os_calls := (i, os_next st) # os_calls st\<rparr>))"
proof -
  have fit: "pointers_fit (map shape (nodes_of st)) st" using assms by (simp add: pointers_ok_def)
  note P = pointers_fit_start [OF fit, of "os_next st"]
  have old: "map (\<lambda>(i, n). (i, body_call ((nodes_of st @ [b]) ! n))) (rev (os_calls st)) = calls_of st" for b
    using calls_in_range [OF assms] by (auto simp: calls_of_def nth_append)
  have frame: "pointers_fit ks (os_start b st') = pointers_fit ks (st'\<lparr>os_nodes := os_nodes st' @ [os_next st']\<rparr>)" for ks b st'
    by (simp add: pointers_fit_def)
  have nxt: "os_next (st\<lparr>os_text := x\<rparr>) = os_next st" "os_next (st\<lparr>os_think := x\<rparr>) = os_next st"
    "os_next (st\<lparr>os_calls := y\<rparr>) = os_next st" for x y by (simp_all add: os_next_def)
  show "os_text st = None \<Longrightarrow> adds st [] [] (calls_of st) (os_start BeginText (st\<lparr>os_text := Some (os_next st)\<rparr>))"
    using P(1) old by (simp add: adds_def pointers_ok_def frame nxt texts_def thoughts_def os_next_def)
      (simp add: calls_of_def)
  show "adds st [] [] (calls_of st) (os_start (BeginThinking openai_thinking) (st\<lparr>os_think := Some (os_next st)\<rparr>))"
    using P(2) old by (simp add: adds_def pointers_ok_def frame nxt texts_def thoughts_def os_next_def)
      (simp add: calls_of_def)
  show "i \<notin> fst ` set (os_calls st) \<Longrightarrow> adds st [] [] (calls_of st @ [(i, \<lparr>tc_id = c, tc_name = name, tc_args = []\<rparr>)])
      (os_start (BeginCall c name) (st\<lparr>os_calls := (i, os_next st) # os_calls st\<rparr>))"
    using P(3) old by (simp add: adds_def pointers_ok_def frame nxt texts_def thoughts_def os_next_def)
      (simp add: calls_of_def)
qed

section \<open>Fragments of calls\<close>

definition extend_call :: "oaToolCall \<Rightarrow> ToolCall \<Rightarrow> ToolCall" where
  "extend_call d c = \<lparr>tc_id = (if oc_id d \<noteq> [] then oc_id d else tc_id c),
     tc_name = (if oc_name d \<noteq> [] then oc_name d else tc_name c), tc_args = tc_args c @ oc_args d\<rparr>"

definition on_call :: "int \<Rightarrow> (ToolCall \<Rightarrow> ToolCall) \<Rightarrow> (int \<times> ToolCall) list \<Rightarrow> (int \<times> ToolCall) list" where
  "on_call i f cs = map (\<lambda>(j, c). (j, if j = i then f c else c)) cs"

definition merge_call :: "oaToolCall \<Rightarrow> (int \<times> ToolCall) list \<Rightarrow> (int \<times> ToolCall) list" where
  "merge_call d cs = on_call (oc_index d) (extend_call d)
     (if oc_index d \<in> fst ` set cs then cs
      else cs @ [(oc_index d, \<lparr>tc_id = oc_id d, tc_name = oc_name d, tc_args = []\<rparr>)])"

lemma call_eta [simp]: "\<lparr>tc_id = tc_id c, tc_name = tc_name c, tc_args = tc_args c\<rparr> = (c :: ToolCall)"
  by simp

lemma on_call_on_call [simp]: "on_call i f (on_call i g cs) = on_call i (\<lambda>c. f (g c)) cs"
  by (auto simp: on_call_def)

lemma on_call_id [simp]: "on_call i (\<lambda>c. c) cs = cs"
  by (induction cs) (auto simp: on_call_def)

lemma fst_called: "fst ` set (calls_of st) = fst ` set (os_calls st)"
  by (force simp: calls_of_def)

lemma fill_adds:
  assumes "pointers_ok st" "(i, n) \<in> set (os_calls st)"
  shows "adds st [] [] (on_call i (\<lambda>c. \<lparr>tc_id = (if oc_id d \<noteq> [] then oc_id d else tc_id c),
     tc_name = (if oc_name d \<noteq> [] then oc_name d else tc_name c), tc_args = tc_args c\<rparr>) (calls_of st)) (fill_call n d st)"
    (is "adds st [] [] (on_call i ?f _) _")
proof -
  let ?bs = "nodes_of st"
  have r: "n < length ?bs" "shape (?bs ! n) = CallKind" using calls_in_range [OF assms] by simp_all
  from shape_cases(3) [OF r(2)] obtain ci name z where z: "?bs ! n = ToolCallNode ci name z" by blast
  show ?thesis
  proof (cases "oc_id d = [] \<and> oc_name d = []")
    case True
    then show ?thesis using z adds_refl [OF assms(1)] by (simp add: fill_call_def os_body_def)
  next
    case False
    let ?b = "ToolCallNode (if oc_id d \<noteq> [] then oc_id d else ci) (if oc_name d \<noteq> [] then oc_name d else name) z"
    let ?e = "EvFill n (FillCall (if oc_id d \<noteq> [] then oc_id d else ci) (if oc_name d \<noteq> [] then oc_name d else name))"
    have st': "fill_call n d st = os_tell ?e st"
      unfolding fill_call_def os_body_def z using False by (simp only: node_body.case if_False)
    have bs: "nodes_of (os_tell ?e st) = ?bs[n := ?b]" using r z by (simp add: upd_body_def)
    have one: "j = i \<longleftrightarrow> m = n" if "(j, m) \<in> set (os_calls st)" for j m
      using that assms(2) calls_distinct [OF assms(1)] distinct_snd eq_key_imp_eq_value by metis
    have "calls_of (os_tell ?e st) = on_call i ?f (calls_of st)"
      using z r one by (auto simp: calls_of_def on_call_def bs nth_list_update simp del: os_tell_simps(1))
    then show ?thesis using assms(1) pointers_tell [of ?e st] z r unfolding st'
      by (simp add: in_place_def adds_def texts_def thoughts_def bs concat_same del: os_tell_simps(1))
  qed
qed

lemma fill_calls [simp]: "os_calls (fill_call n d st) = os_calls st"
  by (simp add: fill_call_def split: node_body.split)

lemma tool_call_adds:
  assumes "pointers_ok st"
  shows "adds st [] [] (merge_call d (calls_of st)) (addToolCall d st)"
proof -
  let ?i = "oc_index d"
  let ?cs = "if ?i \<in> fst ` set (calls_of st) then calls_of st
     else calls_of st @ [(?i, \<lparr>tc_id = oc_id d, tc_name = oc_name d, tc_args = []\<rparr>)]"
  obtain n st1 where f: "(n, st1) = (case map_of (os_calls st) ?i of
      Some n \<Rightarrow> (n, st)
    | None \<Rightarrow> (os_next st, os_start (BeginCall (oc_id d) (oc_name d)) (st\<lparr>os_calls := (?i, os_next st) # os_calls st\<rparr>)))"
    by (metis prod.exhaust)
  have one: "adds st [] [] ?cs st1" "(?i, n) \<in> set (os_calls st1)"
  proof -
    consider n' where "map_of (os_calls st) ?i = Some n'" | "map_of (os_calls st) ?i = None" by fastforce
    then have "adds st [] [] ?cs st1 \<and> (?i, n) \<in> set (os_calls st1)"
    proof cases
      case (1 n')
      then have "?i \<in> fst ` set (calls_of st)" unfolding fst_called by (metis map_of_eq_None_iff option.distinct(1))
      with 1 f show ?thesis using adds_refl [OF assms] map_of_SomeD [OF 1] by simp
    next
      case 2
      then have "?i \<notin> fst ` set (os_calls st)" by (simp add: map_of_eq_None_iff)
      with 2 f show ?thesis using start_adds(3) [OF assms, of ?i "oc_id d" "oc_name d"] by (simp add: fst_called)
    qed
    then show "adds st [] [] ?cs st1" "(?i, n) \<in> set (os_calls st1)" by simp_all
  qed
  note p1 = adds_ok [OF one(1)]
  let ?st2 = "fill_call n d st1"
  note two = fill_adds [OF p1(1) one(2), of d, unfolded p1(2)]
  note p2 = adds_ok [OF two]
  let ?st3 = "if oc_args d \<noteq> [] then os_tell (EvDelta n FieldArguments (oc_args d)) ?st2 else ?st2"
  have "addToolCall d st = ?st3" unfolding addToolCall_def Let_def f [symmetric] by simp
  moreover have "adds ?st2 [] [] (on_call ?i (\<lambda>c. c\<lparr>tc_args := tc_args c @ oc_args d\<rparr>) (calls_of ?st2)) ?st3"
  proof (cases "oc_args d = []")
    case False
    have "(?i, n) \<in> set (os_calls ?st2)" using one(2) by simp
    from delta_adds(3) [OF p2(1) _ this] False calls_in_range [OF p2(1) this] show ?thesis by (simp add: on_call_def)
  qed (use adds_refl [OF p2(1)] in simp)
  ultimately have "adds st [] [] (on_call ?i (\<lambda>c. c\<lparr>tc_args := tc_args c @ oc_args d\<rparr>) (calls_of ?st2)) (addToolCall d st)"
    using adds_trans [OF adds_trans [OF one(1) two]] by simp
  then show ?thesis by (simp add: p2(2) merge_call_def extend_call_def [abs_def])
qed

definition merge_calls :: "oaToolCall list \<Rightarrow> (int \<times> ToolCall) list \<Rightarrow> (int \<times> ToolCall) list" where
  "merge_calls ds cs = foldl (\<lambda>cs d. merge_call d cs) cs ds"

lemma merge_calls_simps [simp]:
  "merge_calls [] cs = cs" "merge_calls (ds @ es) cs = merge_calls es (merge_calls ds cs)"
  by (simp_all add: merge_calls_def)

lemma tool_calls_add: "pointers_ok st \<Longrightarrow> adds st [] [] (merge_calls ds (calls_of st)) (addToolCalls ds st)"
proof (induction ds arbitrary: st)
  case (Cons d ds)
  note one = tool_call_adds [OF Cons.prems, of d]
  from adds_trans [OF one Cons.IH [OF adds_ok(1) [OF one]]] adds_ok(2) [OF one] show ?case
    by (simp add: merge_calls_def addToolCalls_def)
qed (simp add: addToolCalls_def adds_refl)

section \<open>A chunk\<close>

lemma pointed:
  assumes "pointers_ok st"
  shows "os_text st = Some n \<Longrightarrow> n < length (nodes_of st) \<and> shape (nodes_of st ! n) = TextKind"
    and "os_think st = Some n \<Longrightarrow> n < length (nodes_of st) \<and> shape (nodes_of st ! n) = ThinkKind"
proof -
  have fit: "pointers_fit (map shape (nodes_of st)) st" using assms by (simp add: pointers_ok_def)
  show "n < length (nodes_of st) \<and> shape (nodes_of st ! n) = TextKind" if "os_text st = Some n"
  proof -
    have "n < length (map shape (nodes_of st)) \<and> map shape (nodes_of st) ! n = TextKind"
      using fit that unfolding pointers_fit_def by blast
    then show ?thesis by auto
  qed
  show "n < length (nodes_of st) \<and> shape (nodes_of st ! n) = ThinkKind" if "os_think st = Some n"
    using fit that unfolding pointers_fit_def by auto
qed

lemma content_adds:
  assumes "pointers_ok st"
  shows "adds st s [] (calls_of st) (add_content s st)"
proof -
  let ?st0 = "closeReasoning (os_saw st)"
  have zero: "adds st [] [] (calls_of st) ?st0"
    using close_adds [OF adds_saw(1) [OF assms]] by (simp add: adds_def)
  note p0 = adds_ok [OF zero]
  show ?thesis
  proof (cases "os_text ?st0")
    case None
    let ?st1 = "os_start BeginText (?st0\<lparr>os_text := Some (os_next ?st0)\<rparr>)"
    note one = start_adds(1) [OF p0(1) None]
    have "nodes_of ?st1 = nodes_of ?st0 @ [AssistantNode NewStreamString]" by simp
    then have "adds ?st1 s [] (calls_of ?st1) (os_tell (EvDelta (os_next ?st0) FieldText s) ?st1)"
      by (intro delta_adds(1) adds_ok(1) [OF one]) (simp_all add: os_next_def)
    from adds_trans [OF adds_trans [OF zero one] this] show ?thesis
      using None adds_ok(2) [OF one] p0(2) by (simp add: add_content_def Let_def)
  next
    case (Some n)
    then have "n < length (nodes_of ?st0)" "shape (nodes_of ?st0 ! n) = TextKind"
      using pointed(1) [OF p0(1)] by blast+
    from adds_trans [OF zero delta_adds(1) [OF p0(1) this]] show ?thesis
      using Some p0(2) by (simp add: add_content_def Let_def)
  qed
qed

lemma reasoning_adds:
  assumes "pointers_ok st"
  shows "adds st [] s (calls_of st) (add_reasoning s st)"
proof -
  let ?st0 = "os_saw st"
  have zero: "adds st [] [] (calls_of st) ?st0" using assms by (simp add: adds_def)
  note p0 = adds_ok [OF zero]
  let ?st1 = "os_start (BeginThinking openai_thinking) (?st0\<lparr>os_think := Some (os_next ?st0)\<rparr>)"
  note one = start_adds(2) [OF p0(1)]
  have "nodes_of ?st1 = nodes_of ?st0 @ [ThinkingNode NewStreamString openai_thinking]" by simp
  then have "adds ?st1 [] s (calls_of ?st1) (os_tell (EvDelta (os_next ?st0) FieldText s) ?st1)"
    by (intro delta_adds(2) adds_ok(1) [OF one]) (simp_all add: os_next_def)
  from adds_trans [OF adds_trans [OF zero one] this]
  have new: "adds st [] s (calls_of st) (os_tell (EvDelta (os_next ?st0) FieldText s) ?st1)"
    using adds_ok(2) [OF one] p0(2) by simp
  show ?thesis
  proof (cases "os_think ?st0")
    case None
    then show ?thesis using new by (simp add: add_reasoning_def Let_def)
  next
    case (Some n)
    then have n: "n < length (nodes_of ?st0)" "shape (nodes_of ?st0 ! n) = ThinkKind"
      using pointed(2) [OF p0(1)] by blast+
    from adds_trans [OF zero delta_adds(2) [OF p0(1) n Some]]
    show ?thesis using Some new p0(2) by (simp add: add_reasoning_def Let_def)
  qed
qed

text \<open>The pieces a chunk carries; one with a prefill progress carries none.\<close>

definition chunk_deltas :: "oaChunk \<Rightarrow> oaDelta list" where
  "chunk_deltas ck = (if ck_progress ck = None then map ch_delta (ck_choices ck) else [])"

abbreviation all_text :: "oaDelta list \<Rightarrow> string" where "all_text ds \<equiv> concat (map oa_content ds)"
abbreviation all_reasoning :: "oaDelta list \<Rightarrow> string" where "all_reasoning ds \<equiv> concat (map delta_reasoning ds)"
abbreviation all_calls :: "oaDelta list \<Rightarrow> oaToolCall list" where "all_calls ds \<equiv> concat (map oa_tool_calls ds)"

lemma choice_adds:
  assumes "\<forall>out. err out = None" "pointers_ok st"
  shows "\<exists>st'. oa_choice err ch (None, st) = (None, st')
    \<and> adds st (oa_content (ch_delta ch)) (delta_reasoning (ch_delta ch)) (merge_calls (oa_tool_calls (ch_delta ch)) (calls_of st)) st'"
proof -
  let ?d = "ch_delta ch"
  let ?st1 = "if oa_content ?d \<noteq> [] then add_content (oa_content ?d) st else st"
  have one: "adds st (oa_content ?d) [] (calls_of st) ?st1"
    using content_adds [OF assms(2)] adds_refl [OF assms(2)] by simp
  note p1 = adds_ok [OF one]
  let ?st2 = "if delta_reasoning ?d \<noteq> [] then add_reasoning (delta_reasoning ?d) ?st1 else ?st1"
  have two: "adds ?st1 [] (delta_reasoning ?d) (calls_of ?st1) ?st2"
    by (cases "delta_reasoning ?d = []") (simp_all add: reasoning_adds [OF p1(1)] adds_refl [OF p1(1)])
  note p2 = adds_ok [OF two]
  let ?st3 = "if oa_tool_calls ?d \<noteq> [] then addToolCalls (oa_tool_calls ?d) (os_saw ?st2) else ?st2"
  have three: "adds ?st2 [] [] (merge_calls (oa_tool_calls ?d) (calls_of ?st2)) ?st3"
    using tool_calls_add [OF adds_saw(1) [OF p2(1)], of "oa_tool_calls ?d"] adds_refl [OF p2(1)] by (simp add: adds_def)
  let ?st4 = "if oa_reasoning_details ?d \<noteq> []
    then (os_saw ?st3)\<lparr>os_details := add_details (oa_reasoning_details ?d) (os_details ?st3)\<rparr> else ?st3"
  let ?st5 = "if ch_finish ch \<noteq> [] then (os_saw ?st4)\<lparr>os_finish := ch_finish ch\<rparr> else ?st4"
  have ask: "asking err b f (None, s) = (None, if b then f s else s)" for b f s
    using assms(1) by (simp add: asking_def)
  have quiet: "quietly f (None, s) = (None, f s)" for f s by (simp add: quietly_def)
  have run: "oa_choice err ch (None, st) = (None, ?st5)"
    unfolding oa_choice_def Let_def ask quiet by simp
  have "adds st (oa_content ?d) (delta_reasoning ?d) (merge_calls (oa_tool_calls ?d) (calls_of st)) ?st3"
    using adds_trans [OF adds_trans [OF one two] three] p1(2) p2(2) by simp
  then have "adds st (oa_content ?d) (delta_reasoning ?d) (merge_calls (oa_tool_calls ?d) (calls_of st)) ?st5"
    by (rule adds_frame) (simp_all add: os_saw_def)
  with run show ?thesis by blast
qed

lemma choices_add:
  assumes "\<forall>out. err out = None"
  shows "pointers_ok st \<Longrightarrow> \<exists>st'. foldl (\<lambda>r ch. oa_choice err ch r) (None, st) chs = (None, st')
    \<and> adds st (all_text (map ch_delta chs)) (all_reasoning (map ch_delta chs)) (merge_calls (all_calls (map ch_delta chs)) (calls_of st)) st'"
proof (induction chs arbitrary: st)
  case (Cons ch chs)
  obtain st1 where one: "oa_choice err ch (None, st) = (None, st1)"
      "adds st (oa_content (ch_delta ch)) (delta_reasoning (ch_delta ch)) (merge_calls (oa_tool_calls (ch_delta ch)) (calls_of st)) st1"
    using choice_adds [OF assms Cons.prems] by blast
  note p1 = adds_ok [OF one(2)]
  obtain st2 where two: "foldl (\<lambda>r ch. oa_choice err ch r) (None, st1) chs = (None, st2)"
      "adds st1 (all_text (map ch_delta chs)) (all_reasoning (map ch_delta chs)) (merge_calls (all_calls (map ch_delta chs)) (calls_of st1)) st2"
    using Cons.IH [OF p1(1)] by blast
  then show ?case using one(1) adds_trans [OF one(2) two(2)] p1(2) by simp
qed (simp add: adds_refl)

lemma onData_adds:
  assumes e: "\<forall>out. err out = None" and p: "pointers_ok st"
  shows "\<exists>st'. oa_onData js err d st = (None, st')
    \<and> (let ds = (case oj_decode js d of None \<Rightarrow> [] | Some ck \<Rightarrow> chunk_deltas ck)
       in adds st (all_text ds) (all_reasoning ds) (merge_calls (all_calls ds) (calls_of st)) st')"
proof (cases "oj_decode js d")
  case None
  then show ?thesis using adds_refl [OF p] by (simp add: oa_onData_def)
next
  case (Some ck)
  have z: "adds st [] [] (calls_of st) (oa_note ck st)"
    by (rule adds_frame [OF adds_refl [OF p]]) (simp_all add: oa_note_def Let_def)
  have tell: "adds st [] [] (calls_of st) (os_tell ev st2)"
    if a: "adds st [] [] (calls_of st) st1" and fr: "os_out st2 = os_out st1" "os_nodes st2 = os_nodes st1" "os_text st2 = os_text st1"
      "os_think st2 = os_think st1" "os_calls st2 = os_calls st1" and ev: "ev \<in> {EvUsage u, EvTimings t, EvProgress q}" for ev st1 st2 u t q
  proof -
    note b = adds_frame [OF a fr]
    have "adds st2 [] [] (calls_of st2) (os_tell ev st2)"
      by (rule tell_same [OF adds_ok(1) [OF b]]) (use ev in \<open>auto simp: in_place_def\<close>)
    from adds_trans [OF b this] adds_ok(2) [OF b] show ?thesis by simp
  qed
  show ?thesis
  proof (cases "ck_progress ck")
    case (Some q)
    then show ?thesis using \<open>oj_decode js d = Some ck\<close> e tell [OF z, of "os_saw (oa_note ck st)" "EvProgress q" _ _ q]
      by (simp add: oa_onData_def chunk_deltas_def Let_def)
  next
    case None
    let ?st1 = "case ck_usage ck of None \<Rightarrow> oa_note ck st | Some cu \<Rightarrow> oa_report_usage js d cu (oa_note ck st)"
    have one: "adds st [] [] (calls_of st) ?st1"
      using z by (auto simp: oa_report_usage_def Let_def split: option.split intro: tell [OF z])
    let ?st2 = "case ck_timings ck of None \<Rightarrow> ?st1
      | Some t \<Rightarrow> os_tell (EvTimings t) ((os_saw ?st1)\<lparr>os_timings := os_timings ?st1 @ [t]\<rparr>)"
    have two: "adds st [] [] (calls_of st) ?st2"
    proof (cases "ck_timings ck")
      case (Some t)
      then show ?thesis using tell [OF one, of "(os_saw ?st1)\<lparr>os_timings := os_timings ?st1 @ [t]\<rparr>" "EvTimings t" _ t] by simp
    qed (use one in simp)
    note p2 = adds_ok [OF two]
    obtain st' where st': "foldl (\<lambda>r ch. oa_choice err ch r) (None, ?st2) (ck_choices ck) = (None, st')"
        "adds ?st2 (all_text (map ch_delta (ck_choices ck))) (all_reasoning (map ch_delta (ck_choices ck)))
          (merge_calls (all_calls (map ch_delta (ck_choices ck))) (calls_of ?st2)) st'"
      using choices_add [OF e p2(1)] by blast
    have "oa_onData js err d st = (None, st')"
      using Some None e st'(1) by (auto simp: oa_onData_def Let_def asking_def split: option.splits)
    then show ?thesis using adds_trans [OF two st'(2)] p2(2) Some None by (simp add: chunk_deltas_def)
  qed
qed

fun is_thinking_part :: "Part \<Rightarrow> bool" where
  "is_thinking_part (ThinkingPart _ _ _ _) = True" | "is_thinking_part _ = False"

section \<open>A whole stream\<close>

definition payload_deltas :: "oa_json \<Rightarrow> string \<Rightarrow> oaDelta list" where
  "payload_deltas js d = (case oj_decode js d of None \<Rightarrow> [] | Some ck \<Rightarrow> chunk_deltas ck)"

definition stream_deltas :: "oa_json \<Rightarrow> body \<Rightarrow> oaDelta list" where
  "stream_deltas js b = concat (map (payload_deltas js) (payloads b))"

lemma lines_add:
  assumes "\<forall>out. err out = None"
  shows "pointers_ok st \<Longrightarrow> let ds = concat (map (payload_deltas js) (payload_list ls)) in
    adds st (all_text ds) (all_reasoning ds) (merge_calls (all_calls ds) (calls_of st)) (snd (sse_lines (oa_onData js err) e ls st))"
proof (induction ls arbitrary: st)
  case (Cons l ls)
  show ?case
  proof (cases "sse_data l")
    case None
    then show ?thesis using Cons by simp
  next
    case (Some d)
    show ?thesis
    proof (cases "d = done_mark")
      case True
      then show ?thesis using Some adds_refl [OF Cons.prems] by simp
    next
      case False
      obtain st1 where one: "oa_onData js err d st = (None, st1)"
          "adds st (all_text (payload_deltas js d)) (all_reasoning (payload_deltas js d)) (merge_calls (all_calls (payload_deltas js d)) (calls_of st)) st1"
        using onData_adds [OF assms Cons.prems, of js d] unfolding payload_deltas_def Let_def by blast
      note p1 = adds_ok [OF one(2)]
      from adds_trans [OF one(2) Cons.IH [OF p1(1), unfolded Let_def]] p1(2) show ?thesis
        using Some False one(1) by simp
    qed
  qed
qed (simp add: adds_refl)

lemma new_pointers: "pointers_ok newOAStream" "texts newOAStream = []" "thoughts newOAStream = []" "calls_of newOAStream = []"
  by (simp_all add: pointers_ok_def pointers_fit_def newOAStream_def texts_def thoughts_def calls_of_def)

text \<open>The message the nodes make.\<close>

definition bodies_message :: "node_body list \<Rightarrow> Message" where
  "bodies_message bs = MessageFromNodes (map (\<lambda>b. new_node (finish_body b)) bs)"

definition final_call :: "ToolCall \<Rightarrow> ToolCall" where
  "final_call c = c\<lparr>tc_args := toolArgs (tc_args c)\<rparr>"

lemma new_node_body [simp]: "n_body (new_node b) = b" by (simp add: new_node_def)

lemma bodies_parts:
  "List.map_filter (\<lambda>n. partOf (n_body n)) (map (\<lambda>b. new_node (finish_body b)) bs) = List.map_filter (\<lambda>b. partOf (finish_body b)) bs"
  by (induction bs) (simp_all add: map_filter_simps split: option.split)

lemma views_of_bodies:
  "concat (map text_of_part (List.map_filter (\<lambda>b. partOf (finish_body b)) bs)) = concat (map body_text bs)"
  "concat (map tb_text (concat (map thinking_of_part (List.map_filter (\<lambda>b. partOf (finish_body b)) bs)))) = concat (map body_thought bs)"
  "concat (map call_of_part (List.map_filter (\<lambda>b. partOf (finish_body b)) bs))
     = map (\<lambda>b. final_call (body_call b)) (filter (\<lambda>b. shape b = CallKind) bs)"
proof (induction bs)
  case (Cons b bs)
  { case 1 then show ?case using Cons(1) by (cases b) (auto simp: map_filter_simps finish_body_def split: option.split) }
  { case 2 then show ?case using Cons(2) by (cases b) (auto simp: map_filter_simps finish_body_def split: option.split) }
  { case 3 then show ?case using Cons(3) by (cases b) (auto simp: map_filter_simps finish_body_def final_call_def split: option.split) }
qed (simp_all add: map_filter_simps)

lemma bodies_message_views:
  "msg_content (bodies_message bs) = concat (map body_text bs)"
  "reasoningText (bodies_message bs) = concat (map body_thought bs)"
  "msg_calls (bodies_message bs) = map (\<lambda>b. final_call (body_call b)) (filter (\<lambda>b. shape b = CallKind) bs)"
  unfolding views_of_bodies [symmetric] bodies_message_def MessageFromNodes_def bodies_parts reasoningText_def
  by (simp_all add: NewMessage_def SyncViews_def empty_message_def)

lemma nodes_message: "message_of out [0..<length (bodies out)] = bodies_message (bodies out)"
proof -
  have "map (\<lambda>i. new_node (finish_body (bodies out ! i))) [0..<length (bodies out)]
      = map (\<lambda>b. new_node (finish_body b)) (map (\<lambda>i. bodies out ! i) [0..<length (bodies out)])" by simp
  then show ?thesis by (simp only: message_of_def bodies_message_def map_nth)
qed

lemma called_bodies:
  assumes "pointers_ok st"
  shows "map (\<lambda>b. final_call (body_call b)) (filter (\<lambda>b. shape b = CallKind) (nodes_of st)) = map (\<lambda>(i, c). final_call c) (calls_of st)"
proof -
  let ?bs = "nodes_of st"
  have "filter (\<lambda>b. shape b = CallKind) ?bs = filter (\<lambda>b. shape b = CallKind) (map (\<lambda>i. ?bs ! i) [0..<length ?bs])"
    by (simp only: map_nth)
  also have "\<dots> = map (\<lambda>i. ?bs ! i) (filter (\<lambda>i. shape (?bs ! i) = CallKind) [0..<length ?bs])"
    by (simp add: filter_map comp_def)
  also have "filter (\<lambda>i. shape (?bs ! i) = CallKind) [0..<length ?bs]
      = filter (\<lambda>j. map shape ?bs ! j = CallKind) [0..<length (map shape ?bs)]"
    by (rule filter_cong) simp_all
  also have "\<dots> = map snd (rev (os_calls st))"
    using assms unfolding pointers_ok_def pointers_fit_def by (simp only: simp_thms)
  finally show ?thesis by (simp add: calls_of_def case_prod_unfold)
qed

lemma filter_update: "n < length bs \<Longrightarrow> \<not> P (bs ! n) \<Longrightarrow> \<not> P b \<Longrightarrow> filter P (bs[n := b]) = filter P bs"
  by (induction bs arbitrary: n) (auto split: nat.splits)

lemma completion_views:
  assumes "pointers_ok st"
  shows "let m = cc_message (fst (oa_completion st)) in
    msg_content m = texts st \<and> reasoningText m = thoughts st \<and> msg_calls m = map (\<lambda>(i, c). final_call c) (calls_of st)"
proof -
  let ?bs = "nodes_of st" and ?details = "oaReasoningDetailsJSON (details_finish (os_details st))"
  have nodes: "os_nodes st = [0..<length ?bs]" using assms by (simp add: pointers_ok_def pointers_fit_def)
  have m: "cc_message (fst (oa_completion st)) = message_of (os_out (finishNodes st)) (os_nodes (finishNodes st))"
    by (simp add: oa_completion_def Let_def)
  have views: "\<exists>bs. cc_message (fst (oa_completion st)) = bodies_message bs \<and> concat (map body_text bs) = texts st
      \<and> concat (map body_thought bs) = thoughts st
      \<and> map (\<lambda>b. final_call (body_call b)) (filter (\<lambda>b. shape b = CallKind) bs)
        = map (\<lambda>b. final_call (body_call b)) (filter (\<lambda>b. shape b = CallKind) ?bs)"
  proof (cases "?details = []")
    case True
    then show ?thesis using nodes m nodes_message [of "os_out st"]
      by (intro exI [of _ ?bs]) (simp add: finishNodes_def texts_def thoughts_def)
  next
    case details: False
    show ?thesis
    proof (cases "os_think st")
      case (Some n)
      then have n: "n < length ?bs" "shape (?bs ! n) = ThinkKind" using pointed(2) [OF assms] by blast+
      from shape_cases(2) [OF n(2)] obtain z t where z: "?bs ! n = ThinkingNode z t" "th_redacted t = None" by blast
      let ?b = "ThinkingNode z (t\<lparr>th_details := ?details\<rparr>)"
      have fin: "finishNodes st = os_tell (EvFill n (FillThinking (t\<lparr>th_details := ?details\<rparr>))) st"
        using details Some z by (simp add: finishNodes_def set_details_def os_body_def Let_def)
      have bs: "nodes_of (finishNodes st) = ?bs[n := ?b]" using z n by (simp add: fin upd_body_def)
      have "message_of (os_out (finishNodes st)) (os_nodes (finishNodes st)) = bodies_message (?bs[n := ?b])"
        using nodes_message [of "os_out (finishNodes st)"] nodes n unfolding bs by (simp add: fin)
      moreover have "map (\<lambda>b. final_call (body_call b)) (filter (\<lambda>b. shape b = CallKind) (?bs[n := ?b]))
          = map (\<lambda>b. final_call (body_call b)) (filter (\<lambda>b. shape b = CallKind) ?bs)"
        using z filter_update [OF n(1), of "\<lambda>b. shape b = CallKind" ?b] by simp
      ultimately show ?thesis using m z n
        by (intro exI [of _ "?bs[n := ?b]"]) (simp add: texts_def thoughts_def concat_same)
    next
      case None
      let ?t = "openai_thinking\<lparr>th_details := ?details\<rparr>"
      let ?n = "length ?bs"
      have fin: "os_out (finishNodes st) = os_out st @ [EvStart (BeginThinking openai_thinking), EvFill ?n (FillThinking ?t)]"
        "os_nodes (finishNodes st) = ?n # os_nodes st"
        using details None by (simp_all add: finishNodes_def set_details_def os_body_def os_next_def Let_def)
      have bs: "nodes_of (finishNodes st) = ?bs @ [ThinkingNode NewStreamString ?t]"
        unfolding fin(1) using bodies_simps(2) [of "os_out st @ [EvStart (BeginThinking openai_thinking)]"]
        by (simp add: upd_body_def)
      have "map (\<lambda>i. new_node (finish_body (nodes_of (finishNodes st) ! i))) (?n # os_nodes st)
          = map (\<lambda>b. new_node (finish_body b)) (ThinkingNode NewStreamString ?t # ?bs)"
      proof -
        have "map (\<lambda>i. nodes_of (finishNodes st) ! i) [0..<?n] = ?bs"
          unfolding bs by (intro nth_equalityI) (simp_all add: nth_append)
        then have "map (\<lambda>i. new_node (finish_body (nodes_of (finishNodes st) ! i))) [0..<?n] = map (\<lambda>b. new_node (finish_body b)) ?bs"
          by (metis (mono_tags, lifting) map_map comp_apply map_cong)
        then show ?thesis by (simp add: bs nodes)
      qed
      then have "message_of (os_out (finishNodes st)) (os_nodes (finishNodes st))
          = bodies_message (ThinkingNode NewStreamString ?t # ?bs)"
        unfolding message_of_def bodies_message_def fin(2) by (simp only:)
      then show ?thesis using m
        by (intro exI [of _ "ThinkingNode NewStreamString ?t # ?bs"]) (simp add: texts_def thoughts_def)
    qed
  qed
  then show ?thesis using bodies_message_views called_bodies [OF assms] by (auto simp: Let_def)
qed

section \<open>What the fragments of a call make\<close>

definition first_seen :: "'a list \<Rightarrow> 'a list" where "first_seen xs = rev (remdups (rev xs))"

definition last_given :: "string list \<Rightarrow> string" where
  "last_given xs = (case filter (\<lambda>s. s \<noteq> []) (rev xs) of [] \<Rightarrow> [] | s # _ \<Rightarrow> s)"

definition whole_call :: "oaToolCall list \<Rightarrow> ToolCall" where
  "whole_call fs = \<lparr>tc_id = last_given (map oc_id fs), tc_name = last_given (map oc_name fs), tc_args = concat (map oc_args fs)\<rparr>"

lemma first_seen_simps [simp]:
  "first_seen [] = []" "first_seen (xs @ [x]) = (if x \<in> set xs then first_seen xs else first_seen xs @ [x])"
  "set (first_seen xs) = set xs"
  by (auto simp: first_seen_def)

lemma last_given_simps [simp]: "last_given [] = []" "last_given (xs @ [x]) = (if x \<noteq> [] then x else last_given xs)"
  by (simp_all add: last_given_def)

lemma whole_call_snoc: "whole_call (fs @ [d]) = extend_call d (whole_call fs)"
  by (simp add: whole_call_def extend_call_def)

lemma merged_whole:
  "merge_calls ds [] = map (\<lambda>i. (i, whole_call (filter (\<lambda>d. oc_index d = i) ds))) (first_seen (map oc_index ds))"
proof (induction ds rule: rev_induct)
  case (snoc d ds)
  let ?i = "oc_index d" and ?of = "\<lambda>i. filter (\<lambda>d. oc_index d = i) ds"
  let ?cs = "map (\<lambda>i. (i, whole_call (?of i))) (first_seen (map oc_index ds))"
  have seen: "?i \<in> fst ` set ?cs \<longleftrightarrow> ?i \<in> set (map oc_index ds)" by (force simp: image_iff)
  have "merge_calls (ds @ [d]) [] = merge_call d ?cs" by (simp add: snoc) (simp add: merge_calls_def)
  also have "\<dots> = map (\<lambda>i. (i, whole_call (filter (\<lambda>d. oc_index d = i) (ds @ [d])))) (first_seen (map oc_index (ds @ [d])))"
  proof (cases "?i \<in> set (map oc_index ds)")
    case True
    then show ?thesis unfolding merge_call_def seen
      by (auto simp: on_call_def whole_call_snoc)
  next
    case False
    then have others: "\<forall>x\<in>set ds. oc_index x \<noteq> ?i" by (metis image_eqI set_map)
    then have none: "?of ?i = []" by (simp add: filter_empty_conv)
    have "on_call ?i f ?cs = ?cs" for f using others by (auto simp: on_call_def)
    moreover have "extend_call d \<lparr>tc_id = oc_id d, tc_name = oc_name d, tc_args = []\<rparr> = whole_call [d]"
      by (simp add: whole_call_def extend_call_def last_given_def)
    ultimately show ?thesis unfolding merge_call_def seen using False none
      by (auto simp: on_call_def)
  qed
  finally show ?case .
qed simp

section \<open>Usage reports and the last words\<close>

definition payload_usages :: "oa_json \<Rightarrow> string \<Rightarrow> Usage list" where
  "payload_usages js d =
     (case oj_decode js d of
        None \<Rightarrow> []
      | Some ck \<Rightarrow>
          (case (ck_progress ck, ck_usage ck) of
             (None, Some cu) \<Rightarrow>
               [(oa_toUsage cu)\<lparr>u_raw := oj_usage js d, u_reasoning := reasoningTokens cu, u_cost := costUsd cu\<rparr>]
           | _ \<Rightarrow> []))"

lemma usages_kept [simp]:
  "os_usages (os_done n st) = os_usages st" "os_usages (closeReasoning st) = os_usages st"
  "os_usages (fill_call n d st) = os_usages st" "os_usages (addToolCall d st) = os_usages st"
  "os_usages (add_content s st) = os_usages st" "os_usages (add_reasoning s st) = os_usages st"
  by (simp_all add: os_done_def closeReasoning_def fill_call_def addToolCall_def add_content_def add_reasoning_def Let_def
      split: option.split node_body.split prod.split)

lemma usages_calls [simp]: "os_usages (addToolCalls ds st) = os_usages st"
  by (induction ds arbitrary: st) (simp_all add: addToolCalls_def)

lemma usages_choices: "\<forall>out. err out = None \<Longrightarrow>
   \<exists>st'. foldl (\<lambda>r ch. oa_choice err ch r) (None, st) chs = (None, st') \<and> os_usages st' = os_usages st"
proof (induction chs arbitrary: st)
  case (Cons ch chs)
  have "\<exists>st'. oa_choice err ch (None, st) = (None, st') \<and> os_usages st' = os_usages st"
    using Cons.prems by (simp add: oa_choice_def asking_def quietly_def Let_def)
  then obtain st1 where "oa_choice err ch (None, st) = (None, st1)" "os_usages st1 = os_usages st" by blast
  then show ?case using Cons.IH [OF Cons.prems, of st1] by simp
qed simp

lemma usages_onData:
  assumes "\<forall>out. err out = None"
  shows "os_usages (snd (oa_onData js err d st)) = os_usages st @ payload_usages js d"
proof (cases "oj_decode js d")
  case (Some ck)
  have n: "os_usages (oa_note ck st) = os_usages st" by (simp add: oa_note_def Let_def)
  show ?thesis
  proof (cases "ck_progress ck")
    case None
    have r: "os_usages (snd (foldl (\<lambda>r ch. oa_choice err ch r) (None, st0) chs)) = os_usages st0" for st0 chs
      using usages_choices [OF assms, of st0 chs] by auto
    have u: "os_usages (oa_report_usage js d cu st0)
        = os_usages st0 @ [(oa_toUsage cu)\<lparr>u_raw := oj_usage js d, u_reasoning := reasoningTokens cu, u_cost := costUsd cu\<rparr>]" for cu st0
      by (simp add: oa_report_usage_def Let_def)
    show ?thesis using Some None n assms
      by (cases "ck_usage ck"; cases "ck_timings ck") (simp_all add: oa_onData_def payload_usages_def asking_def Let_def r u)
  qed (use Some n in \<open>simp add: oa_onData_def payload_usages_def Let_def split: option.split\<close>)
qed (simp add: oa_onData_def payload_usages_def)

lemma onData_none: "\<forall>out. err out = None \<Longrightarrow> pointers_ok st \<Longrightarrow> fst (oa_onData js err d st) = None"
  using onData_adds [of err st js d] by auto

lemma usages_lines:
  assumes "\<forall>out. err out = None"
  shows "pointers_ok st \<Longrightarrow> os_usages (snd (sse_lines (oa_onData js err) e ls st))
     = os_usages st @ concat (map (payload_usages js) (payload_list ls))"
proof (induction ls arbitrary: st)
  case (Cons l ls)
  show ?case
  proof (cases "sse_data l")
    case (Some d)
    obtain st1 where one: "oa_onData js err d st = (None, st1)" "pointers_ok st1"
      using onData_adds [OF assms Cons.prems, of js d] by (auto simp: Let_def adds_def)
    then show ?thesis using Some Cons.IH [of st1] usages_onData [OF assms, of js d st] by simp
  qed (use Cons in simp)
qed simp

lemma usages_finish: "cc_usages (fst (oa_completion st)) = os_usages st"
proof -
  have "os_usages (finishNodes st) = os_usages st"
    by (simp add: finishNodes_def set_details_def Let_def split: option.split node_body.split)
  then show ?thesis by (simp add: oa_completion_def Let_def)
qed

section \<open>The chat-completions decoder tells nothing before it has seen data\<close>

definition told_seen :: "oaStream \<Rightarrow> bool" where
  "told_seen st \<longleftrightarrow> os_sawData st \<or> os_out st = []"

lemma seen_kept [simp]:
  "os_sawData (os_tell e st) = os_sawData st" "os_sawData (os_start b st) = os_sawData st"
  "os_sawData (os_done n st) = os_sawData st" "os_sawData (closeReasoning st) = os_sawData st"
  "os_sawData (fill_call n d st) = os_sawData st" "os_sawData (addToolCall d st) = os_sawData st"
  "os_sawData (os_saw st) = True"
  by (simp_all add: os_tell_def os_start_def os_done_def closeReasoning_def fill_call_def addToolCall_def os_saw_def
      Let_def split: option.split node_body.split prod.split)

lemma seen_calls [simp]: "os_sawData (addToolCalls ds st) = os_sawData st"
  by (induction ds arbitrary: st) (simp_all add: addToolCalls_def)

lemma seen_parts [simp]: "os_sawData (add_content s st)" "os_sawData (add_reasoning s st)"
  by (auto simp: add_content_def add_reasoning_def Let_def split: option.split)

lemma asking_seen: "told_seen (snd r) \<Longrightarrow> (\<And>st. os_sawData (f st)) \<Longrightarrow> told_seen (snd (asking err a f r))"
  by (cases r; cases "fst r") (auto simp: asking_def told_seen_def)

lemma quietly_seen: "told_seen (snd r) \<Longrightarrow> (\<And>st. told_seen st \<Longrightarrow> told_seen (f st)) \<Longrightarrow> told_seen (snd (quietly f r))"
  by (cases r; cases "fst r") (auto simp: quietly_def)

lemma choice_seen: "told_seen (snd r) \<Longrightarrow> told_seen (snd (oa_choice err ch r))"
  unfolding oa_choice_def Let_def
  by (intro quietly_seen asking_seen) (auto simp: told_seen_def os_saw_def)

lemma choices_seen: "told_seen (snd r) \<Longrightarrow> told_seen (snd (foldl (\<lambda>r ch. oa_choice err ch r) r chs))"
  by (induction chs arbitrary: r) (simp_all add: choice_seen)

lemma onData_seen: "told_seen st \<Longrightarrow> told_seen (snd (oa_onData js err d st))"
proof (cases "oj_decode js d")
  case (Some ck)
  assume st: "told_seen st"
  have noted: "told_seen (oa_note ck st)" using st by (simp add: oa_note_def told_seen_def Let_def)
  show ?thesis
  proof (cases "ck_progress ck")
    case None
    let ?r = "case ck_usage ck of None \<Rightarrow> (None, oa_note ck st)
      | Some cu \<Rightarrow> asking err True (oa_report_usage js d cu) (None, oa_note ck st)"
    have u: "told_seen (snd ?r)"
      using noted by (auto split: option.split intro!: asking_seen simp: oa_report_usage_def Let_def)
    have "told_seen (snd (case ck_timings ck of None \<Rightarrow> ?r
      | Some t \<Rightarrow> asking err True (\<lambda>st. os_tell (EvTimings t) ((os_saw st)\<lparr>os_timings := os_timings st @ [t]\<rparr>)) ?r))"
      using u by (cases "ck_timings ck") (auto intro!: asking_seen simp: os_saw_def)
    then show ?thesis using Some None by (simp add: oa_onData_def Let_def choices_seen)
  qed (use Some in \<open>simp add: oa_onData_def Let_def told_seen_def\<close>)
qed (simp add: oa_onData_def)

lemma oa_streamed_silent: "fst (fst (oa_streamed js err b)) = None \<Longrightarrow> snd (oa_streamed js err b) = []"
proof -
  have "told_seen (snd (scanSSE b (oa_onData js err) newOAStream))"
    by (rule scanSSE_inv [where P = told_seen]) (simp_all add: onData_seen, simp add: told_seen_def newOAStream_def)
  then show "fst (fst (oa_streamed js err b)) = None \<Longrightarrow> snd (oa_streamed js err b) = []"
    by (auto simp: oa_streamed_def told_seen_def Let_def split: prod.splits option.splits if_splits)
qed

lemma seen_completes:
  assumes "os_sawData (snd (scanSSE b (oa_onData js err) newOAStream))"
  shows "\<exists>c. fst (fst (oa_streamed js err b)) = Some c"
proof -
  obtain e st where run: "scanSSE b (oa_onData js err) newOAStream = (e, st)" by fastforce
  obtain c st' where "oa_completion st = (c, st')" by fastforce
  with assms run show ?thesis by (cases e) (simp_all add: oa_streamed_def Let_def)
qed

section \<open>Properties\<close>

text \<open>
  C32. However a server splits an answer into chunks, and wherever the stream breaks, the completion the
  caller gets holds all of it: the text and the reasoning in order, one call per index in the order the
  indices appeared, its arguments the fragments joined and its id and name the last ones given, and every
  usage report once. A chunk that carries a prefill progress contributes nothing else.
\<close>

theorem openai_turn_decoded:
  assumes "\<And>out. err out = None" and "fst (fst (oa_streamed js err b)) = Some c"
  shows "let ds = stream_deltas js b; m = cc_message c; fs = all_calls ds in
    msg_content m = all_text ds \<and> reasoningText m = all_reasoning ds
    \<and> msg_calls m = map (\<lambda>i. final_call (whole_call (filter (\<lambda>d. oc_index d = i) fs))) (first_seen (map oc_index fs))
    \<and> cc_usages c = concat (map (payload_usages js) (payloads b))"
proof -
  have e: "\<forall>out. err out = None" using assms(1) by simp
  let ?st = "snd (scanSSE b (oa_onData js err) newOAStream)" and ?ds = "stream_deltas js b"
  have c: "c = fst (oa_completion ?st)"
    using assms(2) by (auto simp: oa_streamed_def Let_def split: prod.splits option.splits if_splits)
  have a: "adds newOAStream (all_text ?ds) (all_reasoning ?ds) (merge_calls (all_calls ?ds) []) ?st"
    using lines_add [OF e new_pointers(1), of js "scan_lines (bd_bytes b)" "scan_err b"] new_pointers(4)
    by (simp add: scanSSE_def stream_deltas_def payloads_def Let_def)
  have views: "texts ?st = all_text ?ds" "thoughts ?st = all_reasoning ?ds" "calls_of ?st = merge_calls (all_calls ?ds) []"
    using a new_pointers by (simp_all add: adds_def)
  have "cc_usages c = concat (map (payload_usages js) (payloads b))"
    using usages_lines [OF e new_pointers(1), of js "scan_err b" "scan_lines (bd_bytes b)"]
    by (simp add: c usages_finish scanSSE_def payloads_def newOAStream_def)
  moreover have "msg_calls (cc_message c)
      = map (\<lambda>i. final_call (whole_call (filter (\<lambda>d. oc_index d = i) (all_calls ?ds)))) (first_seen (map oc_index (all_calls ?ds)))"
    using completion_views [OF adds_ok(1) [OF a]] unfolding views(3) merged_whole c by (simp add: Let_def)
  ultimately show ?thesis
    using completion_views [OF adds_ok(1) [OF a]] views by (simp add: c Let_def)
qed

text \<open>A stream of three chunks that breaks: reasoning, then text beside the fragments of two calls.\<close>

definition quiet_delta :: oaDelta where
  "quiet_delta = \<lparr>oa_content = [], oa_reasoning_content = [], oa_reasoning = [], oa_reasoning_details = [], oa_tool_calls = []\<rparr>"

definition quiet_chunk :: "oaDelta \<Rightarrow> oaChunk" where
  "quiet_chunk d = \<lparr>ck_choices = [\<lparr>ch_delta = d, ch_finish = []\<rparr>], ck_usage = None, ck_model = [], ck_extra = None,
     ck_timings = None, ck_progress = None\<rparr>"

definition cut_chunks :: "oaChunk list" where
  "cut_chunks = map quiet_chunk
     [quiet_delta\<lparr>oa_reasoning := ''hm''\<rparr>,
      quiet_delta\<lparr>oa_content := ''He'', oa_tool_calls := [\<lparr>oc_index = 0, oc_id = ''c1'', oc_name = ''read'', oc_args = ''{''\<rparr>]\<rparr>,
      quiet_delta\<lparr>oa_content := ''y'', oa_tool_calls := [\<lparr>oc_index = 1, oc_id = ''c2'', oc_name = ''list'', oc_args = []\<rparr>,
        \<lparr>oc_index = 0, oc_id = [], oc_name = [], oc_args = ''}''\<rparr>]\<rparr>]"

definition cut_json :: oa_json where
  "cut_json = \<lparr>oj_decode = map_of (zip [''a'', ''b'', ''c''] cut_chunks), oj_usage = id\<rparr>"

definition cut_body :: body where
  "cut_body = \<lparr>bd_bytes = concat (map (\<lambda>c. ''data: '' @ [c, NL]) ''abc''), bd_err = Some (ErrorNew ''reset'')\<rparr>"

lemma cut_payloads: "payloads cut_body = [''a'', ''b'', ''c'']"
proof -
  have "raw_lines (bd_bytes cut_body) = map (\<lambda>c. ''data: '' @ [c]) ''abc''"
    unfolding cut_body_def by code_simp
  then have "scan_lines (bd_bytes cut_body) = map (\<lambda>c. ''data: '' @ [c]) ''abc''"
    by (simp add: scan_lines_def drop_cr_def maxLine_def)
  moreover have "payload_list (map (\<lambda>c. ''data: '' @ [c]) ''abc'') = [''a'', ''b'', ''c'']" by code_simp
  ultimately show ?thesis by (simp add: payloads_def)
qed

theorem openai_turn_decoded_witness:
  "\<exists>c. fst (fst (oa_streamed cut_json (\<lambda>_. None) cut_body)) = Some c \<and> msg_content (cc_message c) = ''Hey''
     \<and> reasoningText (cc_message c) = ''hm''
     \<and> msg_calls (cc_message c) = [\<lparr>tc_id = ''c1'', tc_name = ''read'', tc_args = ''{}''\<rparr>, \<lparr>tc_id = ''c2'', tc_name = ''list'', tc_args = ''{}''\<rparr>]"
proof -
  have ds: "stream_deltas cut_json cut_body = map (\<lambda>ck. ch_delta (hd (ck_choices ck))) cut_chunks"
    by (simp add: stream_deltas_def cut_payloads payload_deltas_def chunk_deltas_def cut_json_def cut_chunks_def quiet_chunk_def)
  have texts: "all_text (stream_deltas cut_json cut_body) = ''Hey''" "all_reasoning (stream_deltas cut_json cut_body) = ''hm''"
    by (simp_all add: ds cut_chunks_def quiet_chunk_def quiet_delta_def delta_reasoning_def)
  let ?st = "snd (scanSSE cut_body (oa_onData cut_json (\<lambda>_. None)) newOAStream)"
  have "texts ?st = ''Hey''"
    using lines_add [of "\<lambda>_. None", OF _ new_pointers(1), of cut_json "scan_lines (bd_bytes cut_body)" "scan_err cut_body"] texts(1)
    by (simp add: scanSSE_def stream_deltas_def payloads_def Let_def adds_def new_pointers)
  then have "os_out ?st \<noteq> []" by (auto simp: texts_def)
  moreover have "told_seen ?st"
    by (rule scanSSE_inv [where P = told_seen]) (simp_all add: onData_seen, simp add: told_seen_def newOAStream_def)
  ultimately have "os_sawData ?st" by (simp add: told_seen_def)
  then obtain c where c: "fst (fst (oa_streamed cut_json (\<lambda>_. None) cut_body)) = Some c"
    using seen_completes by blast
  have calls: "all_calls (stream_deltas cut_json cut_body)
      = [\<lparr>oc_index = 0, oc_id = ''c1'', oc_name = ''read'', oc_args = ''{''\<rparr>,
         \<lparr>oc_index = 1, oc_id = ''c2'', oc_name = ''list'', oc_args = []\<rparr>, \<lparr>oc_index = 0, oc_id = [], oc_name = [], oc_args = ''}''\<rparr>]"
    by (simp add: ds cut_chunks_def quiet_chunk_def quiet_delta_def)
  have v: "map (\<lambda>i. final_call (whole_call (filter (\<lambda>d. oc_index d = i)
        [\<lparr>oc_index = 0, oc_id = ''c1'', oc_name = ''read'', oc_args = ''{''\<rparr>,
         \<lparr>oc_index = 1, oc_id = ''c2'', oc_name = ''list'', oc_args = []\<rparr>, \<lparr>oc_index = 0, oc_id = [], oc_name = [], oc_args = ''}''\<rparr>])))
        (first_seen [0, 1, 0])
      = [\<lparr>tc_id = ''c1'', tc_name = ''read'', tc_args = ''{}''\<rparr>, \<lparr>tc_id = ''c2'', tc_name = ''list'', tc_args = ''{}''\<rparr>]"
    by code_simp
  show ?thesis using c v openai_turn_decoded [OF _ c, unfolded Let_def calls texts] by simp
qed

text \<open>
  Reasoning details without any reasoning text: the completion has the reasoning before the text, while
  the session, which only hears of the node at the end, has it after.
\<close>

lemma late_reasoning_first:
  "let st = (add_content ''hi'' newOAStream)\<lparr>os_details := add_details [(blank_detail 0)\<lparr>od_type := ''t''\<rparr>] newReasoningDetailAccumulator\<rparr>;
       (c, st') = oa_completion st
   in map shape (nodes_of st') = [TextKind, ThinkKind] \<and> map is_thinking_part (msg_parts (cc_message c)) = [True, False]"
  by code_simp

end
