(* ===== verification/AnthropicWire.thy ===== *)
theory AnthropicWire
  imports ProviderBase AnthropicStream
begin

text \<open>
  The Messages API provider (\<open>core/anthropic.go\<close>, \<open>core/anthropic_wire.go\<close>, \<open>core/anthropic_nonstream.go\<close>):
  the transcript as wire messages, the request body, a plain JSON answer, and the call. A message's
  content is its text or its blocks, a block a Go map. Arguments are decoded into Go values, whose
  numbers are float64: \<open>num\<close> is the literal one is written back as, \<open>None\<close> when it is out of range.
\<close>

section \<open>The transcript\<close>

datatype an_content = AnText string | AnBlocks "jobject list"

record an_message =
  am_role :: string
  am_content :: an_content

fun go_value :: "(string \<Rightarrow> string option) \<Rightarrow> json \<Rightarrow> json option" where
  "go_value num (JNum l) = map_option JNum (num l)"
| "go_value num (JArr vs) = map_option JArr (those (map (go_value num) vs))"
| "go_value num (JObj ms) = map_option (\<lambda>kvs. JObj (jmap kvs)) (those (map (\<lambda>(k, v). map_option (Pair k) (go_value num v)) ms))"
| "go_value num v = Some v"

definition parseToolInput :: "(string \<Rightarrow> string option) \<Rightarrow> string \<Rightarrow> jobject" where
  "parseToolInput num args =
     (let s = trim_space args in
      if s = [] then []
      else (case json_parse s of
              None \<Rightarrow> []
            | Some v \<Rightarrow> (case go_value num v of Some (JObj ms) \<Rightarrow> ms | _ \<Rightarrow> [])))"

definition tool_result_block :: "Message \<Rightarrow> jobject" where
  "tool_result_block t = jmap [(''type'', JStr ''tool_result''), (''tool_use_id'', JStr (msg_call_id t)),
     (''is_error'', JBool (msg_is_error t)), (''content'', JStr (msg_content t))]"

definition thinking_blocks :: "ThinkingBlock \<Rightarrow> jobject list" where
  "thinking_blocks tb =
     (if tb_redacted tb \<noteq> [] then [jmap [(''type'', JStr ''redacted_thinking''), (''data'', JStr (tb_redacted tb))]]
      else if tb_signature tb = [] then []
      else [jmap [(''type'', JStr ''thinking''), (''thinking'', JStr (tb_text tb)), (''signature'', JStr (tb_signature tb))]])"

definition tool_use_block :: "(string \<Rightarrow> string option) \<Rightarrow> ToolCall \<Rightarrow> jobject" where
  "tool_use_block num tc = jmap [(''type'', JStr ''tool_use''), (''id'', JStr (tc_id tc)), (''name'', JStr (tc_name tc)),
     (''input'', JObj (parseToolInput num (tc_args tc)))]"

definition text_block :: "string \<Rightarrow> jobject" where
  "text_block t = jmap [(''type'', JStr ''text''), (''text'', JStr t)]"

text \<open>Empty for a turn with nothing replayable, which is dropped.\<close>

definition anAssistantContent :: "(string \<Rightarrow> string option) \<Rightarrow> Message \<Rightarrow> jobject list" where
  "anAssistantContent num m =
     concat (map thinking_blocks (msg_thinking m))
     @ (if msg_content m \<noteq> [] then [text_block (msg_content m)] else [])
     @ map (tool_use_block num) (msg_calls m)"

definition anImageSource :: "string \<Rightarrow> string \<Rightarrow> string \<Rightarrow> go_error + jobject" where
  "anImageSource media data src =
     (if src \<noteq> [] then Inr (jmap [(''type'', JStr ''url''), (''url'', JStr src)])
      else if inline_image media data
      then Inr (jmap [(''type'', JStr ''base64''), (''media_type'', JStr media), (''data'', JStr data)])
      else (case imageRef DialectAnthropic media data src of
              Inl e \<Rightarrow> Inl e
            | Inr _ \<Rightarrow> Inl (Unsupported DialectAnthropic ''this image'' ''it carries neither a source nor any bytes'')))"

definition anUserContent :: "Message \<Rightarrow> go_error + an_content" where
  "anUserContent m =
     (if \<not> hasImage m then Inr (AnText (msg_content m))
      else bind_sum (part_blocks text_block
             (\<lambda>media data src. bind_sum (anImageSource media data src)
                (\<lambda>s. Inr (jmap [(''type'', JStr ''image''), (''source'', JObj s)])))
             (EffectiveParts m)) (\<lambda>bs. Inr (AnBlocks bs)))"

function anWireMessages :: "(string \<Rightarrow> string option) \<Rightarrow> Message list \<Rightarrow> go_error + an_message list" where
  "anWireMessages num [] = Inr []"
| "anWireMessages num (m # ms) =
     (if msg_role m = RoleTool then
        (let run = takeWhile (\<lambda>t. msg_role t = RoleTool) (m # ms) in
         bind_sum (anWireMessages num (dropWhile (\<lambda>t. msg_role t = RoleTool) ms))
           (\<lambda>out. Inr (\<lparr>am_role = ''user'', am_content = AnBlocks (map tool_result_block run)\<rparr> # out)))
      else if msg_role m = RoleAssistant then
        (let content = anAssistantContent num m in
         if content = [] then anWireMessages num ms
         else bind_sum (anWireMessages num ms)
                (\<lambda>out. Inr (\<lparr>am_role = ''assistant'', am_content = AnBlocks content\<rparr> # out)))
      else bind_sum (anUserContent m) (\<lambda>content.
             bind_sum (anWireMessages num ms) (\<lambda>out. Inr (\<lparr>am_role = ''user'', am_content = content\<rparr> # out))))"
  by pat_completeness auto
termination
  by (relation "measure (length \<circ> snd)") (auto simp: le_imp_less_Suc length_dropWhile_le)

definition cacheEphemeral :: json where "cacheEphemeral = JObj [(''type'', JStr ''ephemeral'')]"

definition mark_block :: "jobject \<Rightarrow> jobject" where "mark_block b = jset ''cache_control'' cacheEphemeral b"

definition mark_last :: "jobject list \<Rightarrow> jobject list" where
  "mark_last bs = (if bs = [] then [] else butlast bs @ [mark_block (last bs)])"

definition mark_message :: "an_message \<Rightarrow> an_message" where
  "mark_message m =
     (case am_content m of
        AnText c \<Rightarrow> if c = [] then m else m\<lparr>am_content := AnBlocks [mark_block (text_block c)]\<rparr>
      | AnBlocks bs \<Rightarrow> m\<lparr>am_content := AnBlocks (mark_last bs)\<rparr>)"

definition markTranscriptTail :: "an_message list \<Rightarrow> an_message list" where
  "markTranscriptTail ms = (if ms = [] then [] else butlast ms @ [mark_message (last ms)])"

definition an_message_json :: "an_message \<Rightarrow> json" where
  "an_message_json m = JObj (jmap [(''role'', JStr (am_role m)),
     (''content'', case am_content m of AnText t \<Rightarrow> JStr t | AnBlocks bs \<Rightarrow> JArr (map JObj bs))])"

section \<open>The request\<close>

record anthropicProvider =
  ap_baseURL :: string
  ap_apiKey :: string
  ap_version :: string
  ap_userAgent :: string
  ap_disableCaching :: bool
  ap_headers :: "(string \<times> string) list"

definition defaultAnthropicVersion :: string where "defaultAnthropicVersion = ''2023-06-01''"

definition anReserved :: "string list" where
  "anReserved = [''model'', ''max_tokens'', ''stream'', ''system'', ''messages'', ''tools'']"

definition an_system :: "anthropicProvider \<Rightarrow> string \<Rightarrow> json" where
  "an_system a system =
     JArr [JObj (if ap_disableCaching a then text_block system else mark_block (text_block system))]"

definition an_tool :: "'w transport \<Rightarrow> ToolDecl \<Rightarrow> go_error + json" where
  "an_tool tp t =
     bind_sum (schema_json tp ''anthropic: marshal request: '' t) (\<lambda>schema.
       Inr (JObj (jmap [(''name'', JStr (decl_name t)), (''description'', JStr (decl_description t)), (''input_schema'', schema)])))"

definition an_buildBody :: "'w transport \<Rightarrow> (string \<Rightarrow> string option) \<Rightarrow> anthropicProvider \<Rightarrow> core_request \<Rightarrow> go_error + json" where
  "an_buildBody tp num a req =
     (let b = passed_params anReserved (ParamsFor req DialectAnthropic);
          b = jset ''model'' (JStr (q_model req)) b;
          b = jset ''max_tokens'' (jint (q_maxTokens req)) b;
          b = jset ''stream'' (JBool True) b;
          b = (if q_system req \<noteq> [] then jset ''system'' (an_system a (q_system req)) b else b)
      in bind_sum (anWireMessages num (q_messages req)) (\<lambda>msgs.
           let msgs = (if ap_disableCaching a then msgs else markTranscriptTail msgs);
               b = jset ''messages'' (JArr (map an_message_json msgs)) b
           in if q_tools req = [] then Inr (JObj b)
              else bind_sum (sum_map (an_tool tp) (q_tools req)) (\<lambda>ts. Inr (JObj (jset ''tools'' (JArr ts) b)))))"

section \<open>A plain answer\<close>

record anNonStreamBlock =
  nb_type :: string
  nb_text :: string
  nb_thinking :: string
  nb_signature :: string
  nb_id :: string
  nb_name :: string
  nb_input :: string
  nb_data :: string

record anNonStream =
  ns_content :: "anNonStreamBlock list"
  ns_stop :: string
  ns_usage :: "anUsage option"
  ns_model :: string

definition intOrZero :: "int option \<Rightarrow> int" where
  "intOrZero p = (case p of None \<Rightarrow> 0 | Some v \<Rightarrow> v)"

definition an_toUsage :: "anUsage \<Rightarrow> Usage" where
  "an_toUsage u =
     (let read = intOrZero (au_cacheRead u); write = intOrZero (au_cacheCreation u);
          prompt = au_input u + read + write
      in zero_usage\<lparr>u_prompt := prompt, u_completion := intOrZero (au_output u), u_cacheRead := au_cacheRead u,
           u_cacheWrite := au_cacheCreation u, u_total := prompt + intOrZero (au_output u)\<rparr>)"

definition nonstream_parts :: "anNonStreamBlock \<Rightarrow> Part list" where
  "nonstream_parts b =
     (if nb_type b = ''text'' then [TextPart (nb_text b)]
      else if nb_type b = ''thinking'' then [ThinkingPart (nb_thinking b) (nb_signature b) [] False]
      else if nb_type b = ''redacted_thinking'' then [RedactedThinkingPart (nb_data b)]
      else if nb_type b = ''tool_use'' then [ToolCallPart (nb_id b) (nb_name b) (toolArgs (nb_input b))]
      else [])"

text \<open>Decoding the answer is a parameter: its text of complaint, or the struct.\<close>

definition parseAnthropicNonStream :: "(string \<Rightarrow> string + anNonStream) \<Rightarrow> string \<Rightarrow> go_error + CoreCompletion" where
  "parseAnthropicNonStream decode data =
     (case decode data of
        Inl why \<Rightarrow> Inl (RequestError (''anthropic: decode non-streaming response: '' @ why))
      | Inr resp \<Rightarrow>
          (let m = SyncViews ((empty_message RoleAssistant)\<lparr>msg_parts := concat (map nonstream_parts (ns_content resp))\<rparr>)
           in Inr \<lparr>cc_message = m,
                cc_usages = (case ns_usage resp of
                    None \<Rightarrow> []
                  | Some u \<Rightarrow> [(an_toUsage u)\<lparr>u_raw := anRawUsageJSON (au_input u) (intOrZero (au_output u)) (au_cacheRead u) (au_cacheCreation u)\<rparr>]),
                cc_streamed = False,
                cc_stop = (if ns_stop resp \<noteq> [] then ns_stop resp else if msg_calls m \<noteq> [] then StopToolUse else StopEndTurn),
                cc_model = ns_model resp, cc_routed = []\<rparr>))"

section \<open>The call\<close>

definition an_headers :: "anthropicProvider \<Rightarrow> (string \<times> string) list" where
  "an_headers a =
     set_headers
       ([(''Content-Type'', ''application/json''), (''Accept'', event_stream_type),
         (''anthropic-version'', if ap_version a = [] then defaultAnthropicVersion else ap_version a)]
        @ (if ap_apiKey a \<noteq> [] then [(''x-api-key'', ap_apiKey a)] else [])
        @ (if ap_userAgent a \<noteq> [] then [(''User-Agent'', ap_userAgent a)] else [])
        @ ap_headers a) []"

definition an_Stream :: "'w transport \<Rightarrow> (string \<Rightarrow> string option) \<Rightarrow> an_json \<Rightarrow> (string \<Rightarrow> string + anNonStream)
    \<Rightarrow> anthropicProvider \<Rightarrow> sink_answer \<Rightarrow> core_request \<Rightarrow> 'w
    \<Rightarrow> ((CoreCompletion option \<times> go_error option) \<times> sink_log) \<times> 'w" where
  "an_Stream tp num js decode a err req w =
     (if q_maxTokens req \<le> 0 then
        (((None, Some (RequestError (''anthropic: Request.MaxTokens must be positive (the Messages API requires max_tokens)''))), []), w)
      else (case an_buildBody tp num a req of
              Inl e \<Rightarrow> (((None, Some e), []), w)
            | Inr bod \<Rightarrow>
                exchange tp ''anthropic'' (trim_right (CHR ''/'') (ap_baseURL a) @ ''/v1/messages'') (an_headers a) bod
                  (\<lambda>data. completionIntoSink (parseAnthropicNonStream decode data) err DialectAnthropic)
                  (an_streamed js err) w))"

section \<open>What the wire carries\<close>

definition am_blocks :: "an_message \<Rightarrow> jobject list" where
  "am_blocks m = (case am_content m of AnText _ \<Rightarrow> [] | AnBlocks bs \<Rightarrow> bs)"

definition block_type :: "jobject \<Rightarrow> string \<Rightarrow> bool" where
  "block_type b ty \<longleftrightarrow> map_of b ''type'' = Some (JStr ty)"

lemma block_types [simp]:
  "block_type (tool_result_block t) ty \<longleftrightarrow> ty = ''tool_result''" "block_type (text_block x) ty \<longleftrightarrow> ty = ''text''"
  "block_type (tool_use_block num tc) ty \<longleftrightarrow> ty = ''tool_use''"
  by (auto simp: block_type_def tool_result_block_def text_block_def tool_use_block_def)

lemma anUserContent_types:
  assumes "anUserContent m = Inr (AnBlocks bs)" "b \<in> set bs"
  shows "block_type b ''text'' \<or> block_type b ''image''"
proof -
  let ?img = "\<lambda>media data src. bind_sum (anImageSource media data src)
      (\<lambda>s. Inr (jmap [(''type'', JStr ''image''), (''source'', JObj s)]))"
  have img: "?img media data src = Inr x \<Longrightarrow> block_type x ''image''" for media data src x
    by (cases "anImageSource media data src") (auto simp: block_type_def)
  have "part_blocks text_block ?img ps = Inr bs \<Longrightarrow> b \<in> set bs \<Longrightarrow> block_type b ''text'' \<or> block_type b ''image''" for ps
  proof (induction text_block ?img ps arbitrary: bs rule: part_blocks.induct)
    case (2 t ps)
    then show ?case by (cases "part_blocks text_block ?img ps") (auto split: if_splits)
  next
    case (3 media data src ps)
    then show ?case using img
      by (cases "?img media data src"; cases "part_blocks text_block ?img ps") auto
  qed auto
  then show ?thesis using assms by (cases "part_blocks text_block ?img (EffectiveParts m)") (auto simp: anUserContent_def split: if_splits)
qed

lemma takeWhile_roles: "t \<in> set (takeWhile P xs) \<Longrightarrow> t \<in> set xs \<and> P t"
  by (meson set_takeWhileD)

text \<open>Induction over the messages of a transcript as the wire folds them.\<close>

lemma wire_cases:
  assumes "anWireMessages num (m # ms) = Inr wire"
  obtains run rest out where "run = takeWhile (\<lambda>t. msg_role t = RoleTool) (m # ms)"
      "rest = dropWhile (\<lambda>t. msg_role t = RoleTool) ms" "msg_role m = RoleTool" "anWireMessages num rest = Inr out"
      "wire = \<lparr>am_role = ''user'', am_content = AnBlocks (map tool_result_block run)\<rparr> # out"
  | "msg_role m = RoleAssistant" "anAssistantContent num m = []" "anWireMessages num ms = Inr wire"
  | out where "msg_role m = RoleAssistant" "anAssistantContent num m \<noteq> []" "anWireMessages num ms = Inr out"
      "wire = \<lparr>am_role = ''assistant'', am_content = AnBlocks (anAssistantContent num m)\<rparr> # out"
  | out content where "msg_role m \<noteq> RoleTool" "msg_role m \<noteq> RoleAssistant" "anUserContent m = Inr content"
      "anWireMessages num ms = Inr out" "wire = \<lparr>am_role = ''user'', am_content = content\<rparr> # out"
  using assms
  by (cases "anWireMessages num ms"; cases "anWireMessages num (dropWhile (\<lambda>t. msg_role t = RoleTool) ms)"; cases "anUserContent m")
    (auto simp: Let_def split: if_splits)

text \<open>A thinking block on the wire is one of the transcript's, with its signature.\<close>

lemma wire_signature:
  "anWireMessages num msgs = Inr wire \<Longrightarrow> am \<in> set wire \<Longrightarrow> b \<in> set (am_blocks am) \<Longrightarrow> block_type b ''thinking'' \<Longrightarrow>
   \<exists>m\<in>set msgs. \<exists>tb\<in>set (msg_thinking m). map_of b ''signature'' = Some (JStr (tb_signature tb))"
proof (induction num msgs arbitrary: wire rule: anWireMessages.induct)
  case (2 num m ms)
  show ?case
  proof (cases rule: wire_cases [OF "2.prems"(1)])
    case (1 run rest out)
    then have "am \<in> set out" using "2.prems"(2-4) by (auto simp: am_blocks_def)
    then have "\<exists>m'\<in>set rest. \<exists>tb\<in>set (msg_thinking m'). map_of b ''signature'' = Some (JStr (tb_signature tb))"
      using "2.IH"(1) [OF \<open>msg_role m = RoleTool\<close> refl] 1 "2.prems"(3,4) by auto
    moreover have "set rest \<subseteq> set ms" using 1(2) set_dropWhileD by (metis subsetI)
    ultimately show ?thesis by auto
  next
    case 2
    then show ?thesis using "2.IH"(2) "2.prems" by auto
  next
    case (3 out)
    show ?thesis
    proof (cases "am \<in> set out")
      case True
      then show ?thesis using "2.IH"(3) 3 "2.prems"(3,4) by auto
    next
      case False
      then have "b \<in> set (anAssistantContent num m)" using 3 "2.prems"(2,3) by (auto simp: am_blocks_def)
      then obtain tb where "tb \<in> set (msg_thinking m)" "b \<in> set (thinking_blocks tb)"
        using "2.prems"(4) by (auto simp: anAssistantContent_def split: if_splits)
      then show ?thesis using "2.prems"(4) by (auto simp: thinking_blocks_def block_type_def split: if_splits)
    qed
  next
    case (4 out content)
    show ?thesis
    proof (cases "am \<in> set out")
      case True
      then show ?thesis using "2.IH"(4) 4 "2.prems"(3,4) by auto
    next
      case False
      then obtain bs where "content = AnBlocks bs" "b \<in> set bs"
        using 4 "2.prems"(2,3) by (cases content) (auto simp: am_blocks_def)
      then show ?thesis using anUserContent_types [of m bs b] 4 "2.prems"(4) by (auto simp: block_type_def)
    qed
  qed
qed simp

section \<open>Properties\<close>

definition blocks_of_type :: "string \<Rightarrow> an_message list \<Rightarrow> jobject list" where
  "blocks_of_type ty wire = concat (map (\<lambda>m. filter (\<lambda>b. block_type b ty) (am_blocks m)) wire)"

lemma blocks_of_type_simps [simp]:
  "blocks_of_type ty [] = []"
  "blocks_of_type ty (m # ms) = filter (\<lambda>b. block_type b ty) (am_blocks m) @ blocks_of_type ty ms"
  by (simp_all add: blocks_of_type_def)

lemma assistant_blocks:
  "filter (\<lambda>b. block_type b ''tool_use'') (anAssistantContent num m) = map (tool_use_block num) (msg_calls m)"
  "filter (\<lambda>b. block_type b ''tool_result'') (anAssistantContent num m) = []"
proof -
  have t: "\<not> block_type b ''tool_use'' \<and> \<not> block_type b ''tool_result''" if "b \<in> set (thinking_blocks tb)" for b tb
    using that by (auto simp: thinking_blocks_def block_type_def split: if_splits)
  have "filter (\<lambda>b. block_type b ''tool_use'') (concat (map thinking_blocks tbs)) = []"
    "filter (\<lambda>b. block_type b ''tool_result'') (concat (map thinking_blocks tbs)) = []" for tbs
    using t by (auto simp: filter_empty_conv)
  then show "filter (\<lambda>b. block_type b ''tool_use'') (anAssistantContent num m) = map (tool_use_block num) (msg_calls m)"
    "filter (\<lambda>b. block_type b ''tool_result'') (anAssistantContent num m) = []"
    by (simp_all add: anAssistantContent_def filter_map comp_def)
qed

lemma user_content_blocks:
  assumes "anUserContent m = Inr content"
  shows "content \<noteq> AnBlocks []"
    "ty \<in> {''tool_use'', ''tool_result''} \<Longrightarrow> filter (\<lambda>b. block_type b ty) (am_blocks \<lparr>am_role = r, am_content = content\<rparr>) = []"
proof -
  show "content \<noteq> AnBlocks []"
  proof (cases "hasImage m")
    case True
    then obtain p where p: "p \<in> set (EffectiveParts m)" "is_image p" by (auto simp: hasImage_def)
    let ?pb = "part_blocks text_block (\<lambda>media data src. bind_sum (anImageSource media data src)
        (\<lambda>s. Inr (jmap [(''type'', JStr ''image''), (''source'', JObj s)]))) (EffectiveParts m)"
    obtain bs where "?pb = Inr bs" "content = AnBlocks bs"
      using assms True by (cases ?pb) (auto simp: anUserContent_def)
    then show ?thesis using part_blocks_image [OF _ p] by auto
  qed (use assms in \<open>auto simp: anUserContent_def\<close>)
  show "filter (\<lambda>b. block_type b ty) (am_blocks \<lparr>am_role = r, am_content = content\<rparr>) = []"
    if "ty \<in> {''tool_use'', ''tool_result''}"
  proof (cases content)
    case (AnBlocks bs)
    have "\<not> block_type b ty" if "b \<in> set bs" for b
      using anUserContent_types [of m bs b] assms AnBlocks that \<open>ty \<in> _\<close> by (auto simp: block_type_def)
    then show ?thesis using AnBlocks by (auto simp: am_blocks_def filter_empty_conv)
  qed (simp add: am_blocks_def)
qed

lemma results_run: "filter (\<lambda>b. block_type b ''tool_result'') (map tool_result_block ts) = map tool_result_block ts"
  "filter (\<lambda>b. block_type b ''tool_use'') (map tool_result_block ts) = []"
  by (induction ts) auto

lemma filter_run:
  "filter P xs = takeWhile P xs @ filter P (dropWhile P xs)"
  "(\<And>x. P x \<Longrightarrow> \<not> Q x) \<Longrightarrow> filter Q xs = filter Q (dropWhile P xs)"
  by (induction xs) auto

lemma wire_tool_blocks:
  assumes "anWireMessages num msgs = Inr wire"
  shows "blocks_of_type ''tool_result'' wire = map tool_result_block (filter (\<lambda>m. msg_role m = RoleTool) msgs)
    \<and> blocks_of_type ''tool_use'' wire
        = map (tool_use_block num) (concat (map msg_calls (filter (\<lambda>m. msg_role m = RoleAssistant) msgs)))
    \<and> (\<forall>m\<in>set wire. am_content m \<noteq> AnBlocks [])"
  using assms
proof (induction num msgs arbitrary: wire rule: anWireMessages.induct)
  case (2 num m ms)
  show ?case
  proof (cases rule: wire_cases [OF "2.prems"(1)])
    case (1 run rest out)
    have "filter (\<lambda>m. msg_role m = RoleTool) (m # ms) = run @ filter (\<lambda>m. msg_role m = RoleTool) rest"
      using 1 filter_run(1) [of "\<lambda>m. msg_role m = RoleTool" "m # ms"] by simp
    moreover have "filter (\<lambda>m. msg_role m = RoleAssistant) (m # ms) = filter (\<lambda>m. msg_role m = RoleAssistant) rest"
      using 1 filter_run(2) [of "\<lambda>m. msg_role m = RoleTool" "\<lambda>m. msg_role m = RoleAssistant" ms] by simp
    moreover have "run \<noteq> []" using 1 by simp
    ultimately show ?thesis
      using "2.IH"(1) [OF 1(3) refl] 1 by (simp add: am_blocks_def results_run)
  next
    case 2
    then have "msg_calls m = []" by (simp add: anAssistantContent_def)
    then show ?thesis using "2.IH"(2) 2 by simp
  next
    case (3 out)
    then show ?thesis using "2.IH"(3) by (simp add: am_blocks_def assistant_blocks)
  next
    case (4 out content)
    then show ?thesis using "2.IH"(4) [OF 4(1,2)] user_content_blocks [OF 4(3)] by (cases "msg_role m") simp_all
  qed
qed simp

lemma wire_roles:
  assumes "anWireMessages num msgs = Inr wire" "am \<in> set wire" "b \<in> set (am_blocks am)"
  shows "(block_type b ''tool_result'' \<longrightarrow> am_role am = ''user'') \<and> (block_type b ''tool_use'' \<longrightarrow> am_role am = ''assistant'')"
  using assms
proof (induction num msgs arbitrary: wire rule: anWireMessages.induct)
  case (2 num m ms)
  have a: "\<not> block_type b ''tool_result''" if "b \<in> set (anAssistantContent num m)"
    using that assistant_blocks(2) [of num m] by (auto simp: filter_empty_conv)
  have u: "\<not> block_type b ''tool_use''" if "anUserContent m = Inr content" "b \<in> set (am_blocks \<lparr>am_role = r, am_content = content\<rparr>)" for content r
    using user_content_blocks(2) [OF that(1), of "''tool_use''" r] that(2) by (auto simp: filter_empty_conv)
  show ?case
    using "2.prems"
  proof (cases rule: wire_cases [OF "2.prems"(1)])
    case (1 run rest out)
    then show ?thesis using "2.IH"(1) [OF 1(3) refl, of out] "2.prems"(2,3) by (auto simp: am_blocks_def)
  next
    case 2
    then show ?thesis using "2.IH"(2) "2.prems" by simp
  next
    case (3 out)
    then show ?thesis using "2.IH"(3) a "2.prems"(2,3) by (auto simp: am_blocks_def)
  next
    case (4 out content)
    then show ?thesis using "2.IH"(4) [OF 4(1,2)] u "2.prems"(2,3) by fastforce
  qed
qed simp

text \<open>
  The wire read back. A result block shows a tool message when it names its call and carries its error flag
  and its text; a call block shows a call when it has its id, its name and, as input, the object its
  arguments denote, the empty one when they denote none.
\<close>

definition shows_result :: "jobject \<Rightarrow> Message \<Rightarrow> bool" where
  "shows_result b t \<longleftrightarrow>
     map_of b ''tool_use_id'' = Some (JStr (msg_call_id t)) \<and> map_of b ''is_error'' = Some (JBool (msg_is_error t))
     \<and> map_of b ''content'' = Some (JStr (msg_content t))"

definition denotes :: "(string \<Rightarrow> string option) \<Rightarrow> string \<Rightarrow> jobject \<Rightarrow> bool" where
  "denotes num args ms \<longleftrightarrow> (\<exists>v. json_parse (trim_space args) = Some v \<and> go_value num v = Some (JObj ms))"

definition shows_call :: "(string \<Rightarrow> string option) \<Rightarrow> jobject \<Rightarrow> ToolCall \<Rightarrow> bool" where
  "shows_call num b tc \<longleftrightarrow>
     map_of b ''id'' = Some (JStr (tc_id tc)) \<and> map_of b ''name'' = Some (JStr (tc_name tc))
     \<and> (\<exists>ms. map_of b ''input'' = Some (JObj ms)
          \<and> (denotes num (tc_args tc) ms \<or> ms = [] \<and> \<not> (\<exists>ms'. denotes num (tc_args tc) ms')))"

lemma json_parse_Nil: "json_parse [] = None"
  by code_simp

lemma tool_blocks_show: "shows_result (tool_result_block t) t" "shows_call num (tool_use_block num tc) tc"
  by (auto simp: shows_result_def tool_result_block_def shows_call_def tool_use_block_def parseToolInput_def denotes_def
      json_parse_Nil Let_def split: option.split json.split)

text \<open>
  C35. The request carries the whole exchange with the tools: every call of every assistant message, with
  its id, its name and the object its arguments denote, in an assistant message, and every tool message
  as a result with the id of its call, its error flag and its text, in a user message, each once and in
  transcript order; and no message goes out with an empty list of blocks, which the API would refuse.
\<close>

theorem anthropic_wire_complete:
  assumes "anWireMessages num msgs = Inr wire"
  shows "list_all2 shows_result (blocks_of_type ''tool_result'' wire) (filter (\<lambda>m. msg_role m = RoleTool) msgs)
    \<and> list_all2 (shows_call num) (blocks_of_type ''tool_use'' wire)
        (concat (map msg_calls (filter (\<lambda>m. msg_role m = RoleAssistant) msgs)))
    \<and> (\<forall>m\<in>set wire. am_content m \<noteq> AnBlocks []
        \<and> (\<forall>b\<in>set (am_blocks m). (block_type b ''tool_result'' \<longrightarrow> am_role m = ''user'')
             \<and> (block_type b ''tool_use'' \<longrightarrow> am_role m = ''assistant'')))"
  using wire_tool_blocks [OF assms] wire_roles [OF assms]
  by (auto simp: list_all2_map1 tool_blocks_show list_all2_same)

definition wire_transcript :: "Message list" where
  "wire_transcript =
     [NewMessage RoleUser [TextPart ''go''],
      NewMessage RoleAssistant [ThinkingPart ''hm'' [] [] False, ToolCallPart ''a'' ''read'' ''{}'', ToolCallPart ''b'' ''list'' []],
      (empty_message RoleTool)\<lparr>msg_call_id := ''a'', msg_content := ''text''\<rparr>,
      (empty_message RoleTool)\<lparr>msg_call_id := ''b'', msg_content := ''no'', msg_is_error := True\<rparr>,
      NewMessage RoleAssistant [ThinkingPart ''unsigned'' [] [] False]]"

theorem anthropic_wire_complete_witness:
  "\<exists>wire. anWireMessages Some wire_transcript = Inr wire \<and> length wire = 3
     \<and> length (blocks_of_type ''tool_result'' wire) = 2
     \<and> map (\<lambda>b. map_of b ''id'') (blocks_of_type ''tool_use'' wire) = [Some (JStr ''a''), Some (JStr ''b'')]"
proof -
  have "\<exists>wire. anWireMessages Some wire_transcript = Inr wire \<and> length wire = 3"
    by (simp add: wire_transcript_def NewMessage_def SyncViews_def empty_message_def anAssistantContent_def
        anUserContent_def hasImage_def EffectiveParts_def thinking_blocks_def)
  then obtain wire where w: "anWireMessages Some wire_transcript = Inr wire" "length wire = 3" by blast
  have t: "length (filter (\<lambda>m. msg_role m = RoleTool) wire_transcript) = 2"
    "map tc_id (concat (map msg_calls (filter (\<lambda>m. msg_role m = RoleAssistant) wire_transcript))) = [''a'', ''b'']"
    by (simp_all add: wire_transcript_def NewMessage_def SyncViews_def empty_message_def)
  note all = anthropic_wire_complete [OF w(1)]
  have "map (\<lambda>b. map_of b ''id'') bs = map (\<lambda>i. Some (JStr i)) (map tc_id cs)" if "list_all2 (shows_call Some) bs cs" for bs cs
    using that by (induction rule: list_all2_induct) (auto simp: shows_call_def)
  from this [OF conjunct1 [OF conjunct2 [OF all]]]
  have "map (\<lambda>b. map_of b ''id'') (blocks_of_type ''tool_use'' wire) = [Some (JStr ''a''), Some (JStr ''b'')]"
    unfolding t(2) by simp
  moreover have "length (blocks_of_type ''tool_result'' wire) = 2" using all t(1) by (auto dest: list_all2_lengthD)
  ultimately show ?thesis using w by auto
qed

end
