(* ===== verification/ResponsesStream.thy ===== *)
theory ResponsesStream
  imports OpenAIStream "HOL-Library.AList"
begin

text \<open>
  The Responses API's stream (\<open>core/responses_stream.go\<close>, the wire types of \<open>core/responses.go\<close> and
  \<open>core/responses_wire.go\<close>): events decoded into one node per output item and into a completion.
  \<open>json.Unmarshal\<close> into the event struct is the parameter \<open>decode\<close>, and \<open>usage\<close> is the verbatim usage
  object of a payload. A node is named by the order it was started in.
\<close>

section \<open>The wire\<close>

definition respItemMessage :: string where "respItemMessage = ''message''"
definition respItemFuncCall :: string where "respItemFuncCall = ''function_call''"
definition respItemFuncOutput :: string where "respItemFuncOutput = ''function_call_output''"
definition respItemReasoning :: string where "respItemReasoning = ''reasoning''"
definition respTextInput :: string where "respTextInput = ''input_text''"
definition respTextOutput :: string where "respTextOutput = ''output_text''"
definition respTextSummary :: string where "respTextSummary = ''summary_text''"
definition respTextReasoning :: string where "respTextReasoning = ''reasoning_text''"
definition respImageInput :: string where "respImageInput = ''input_image''"

lemmas item_types = respItemMessage_def respItemFuncCall_def respItemFuncOutput_def respItemReasoning_def

record respContent =
  rc_type :: string
  rc_text :: string
  rc_image :: string

record respItem =
  ri_type :: string
  ri_id :: string
  ri_role :: string
  ri_content :: "respContent list"
  ri_callID :: string
  ri_name :: string
  ri_args :: string
  ri_output :: string
  ri_summary :: "respContent list option"
  ri_encrypted :: string

definition item_reasoningText :: "respItem \<Rightarrow> string \<times> bool" where
  "item_reasoningText it =
     (let s = (case ri_summary it of None \<Rightarrow> [] | Some ss \<Rightarrow> concat (map rc_text ss))
      in if s \<noteq> [] then (s, False)
         else (let t = concat (map rc_text (filter (\<lambda>c. rc_type c = respTextReasoning) (ri_content it))) in (t, t \<noteq> [])))"

record respUsage =
  ru_input :: int
  ru_output :: int
  ru_total :: int
  ru_inputDetails :: "int option option"
  ru_outputDetails :: "int option option"

definition resp_toUsage :: "respUsage \<Rightarrow> Usage" where
  "resp_toUsage u =
     (let cached = (case ru_inputDetails u of None \<Rightarrow> None | Some c \<Rightarrow> c)
      in zero_usage\<lparr>u_prompt := ru_input u, u_completion := ru_output u, u_total := ru_total u,
           u_cacheRead := cached, u_cacheWrite := (if cached \<noteq> None then Some 0 else None)\<rparr>)"

definition resp_reasoningTokens :: "respUsage \<Rightarrow> int option" where
  "resp_reasoningTokens u = (case ru_outputDetails u of None \<Rightarrow> None | Some r \<Rightarrow> r)"

record respEventError =
  ee_message :: string
  ee_code :: string

text \<open>The Response object; \<open>rr_incomplete\<close> is the reason of its incomplete_details.\<close>

record respResponse =
  rr_status :: string
  rr_output :: "respItem list"
  rr_usage :: "respUsage option"
  rr_incomplete :: "string option"
  rr_error :: "respEventError option"

record respEvent =
  re_type :: string
  re_delta :: string
  re_itemID :: string
  re_item :: "respItem option"
  re_response :: "respResponse option"
  re_error :: "respEventError option"

record resp_json =
  rj_decode :: "string \<Rightarrow> respEvent option"
  rj_usage :: "string \<Rightarrow> string"

section \<open>Outcomes\<close>

definition respStopFromShape :: "bool \<Rightarrow> string" where
  "respStopFromShape hasCalls = (if hasCalls then StopToolUse else StopEndTurn)"

definition respStopReason :: "respResponse \<Rightarrow> bool \<Rightarrow> string" where
  "respStopReason r hasCalls =
     (case rr_incomplete r of
        Some reason \<Rightarrow>
          if reason = ''max_output_tokens'' then StopMaxTokens
          else if reason \<noteq> [] then reason
          else respStopFromShape hasCalls
      | None \<Rightarrow> respStopFromShape hasCalls)"

definition respEventFailure :: "respEventError option \<Rightarrow> go_error" where
  "respEventFailure e =
     (case e of
        None \<Rightarrow> RequestError ''responses: the stream reported an error with no detail''
      | Some e \<Rightarrow>
          (let msg = (if ee_message e = [] then ''the stream reported an error with no message'' else ee_message e);
               msg = (if ee_code e \<noteq> [] then msg @ '' ('' @ ee_code e @ '')'' else msg)
           in RequestError (''responses: '' @ msg)))"

definition respFailure :: "respResponse option \<Rightarrow> go_error" where
  "respFailure r =
     (case r of
        Some resp \<Rightarrow>
          if rr_error resp \<noteq> None then respEventFailure (rr_error resp)
          else RequestError ''responses: the response failed with no reason given''
      | None \<Rightarrow> RequestError ''responses: the response failed with no reason given'')"

section \<open>The decoder\<close>

record respStream =
  rt_out :: sink_log
  rt_byItem :: "(string \<times> nat) list"
  rt_nodes :: "nat list"
  rt_usages :: "Usage list"
  rt_haveCall :: bool
  rt_stop :: string
  rt_failure :: "go_error option"
  rt_sawData :: bool

definition newRespStream :: respStream where
  "newRespStream = \<lparr>rt_out = [], rt_byItem = [], rt_nodes = [], rt_usages = [], rt_haveCall = False, rt_stop = [],
     rt_failure = None, rt_sawData = False\<rparr>"

definition rt_tell :: "sink_event \<Rightarrow> respStream \<Rightarrow> respStream" where
  "rt_tell e st = st\<lparr>rt_out := rt_out st @ [e]\<rparr>"

definition rt_body :: "respStream \<Rightarrow> nat \<Rightarrow> node_body" where
  "rt_body st n = bodies (rt_out st) ! n"

definition rt_next :: "respStream \<Rightarrow> nat" where "rt_next st = length (bodies (rt_out st))"

definition rt_key :: "string \<Rightarrow> nat \<Rightarrow> respStream \<Rightarrow> respStream" where
  "rt_key itemID n st = (if itemID \<noteq> [] then st\<lparr>rt_byItem := AList.update itemID n (rt_byItem st)\<rparr> else st)"

definition rt_start :: "string \<Rightarrow> begun \<Rightarrow> respStream \<Rightarrow> nat \<times> respStream" where
  "rt_start itemID b st =
     (let n = rt_next st; st = rt_key itemID n st
      in (n, rt_tell (EvStart b) (st\<lparr>rt_nodes := rt_nodes st @ [n]\<rparr>)))"

definition respKindMatches :: "node_body \<Rightarrow> string \<Rightarrow> bool" where
  "respKindMatches b k =
     (if k = respItemReasoning then (case b of ThinkingNode _ _ \<Rightarrow> True | _ \<Rightarrow> False)
      else if k = respItemFuncCall then (case b of ToolCallNode _ _ _ \<Rightarrow> True | _ \<Rightarrow> False)
      else (case b of AssistantNode _ \<Rightarrow> True | _ \<Rightarrow> False))"

definition responses_thinking :: "string \<Rightarrow> thinking_data" where
  "responses_thinking itemID = \<lparr>th_signature = None, th_encrypted = None, th_redacted = None, th_itemID = itemID,
     th_details = [], th_raw = False, th_dialect = DialectResponses\<rparr>"

definition makeNode :: "string \<Rightarrow> respItem option \<Rightarrow> string \<Rightarrow> respStream \<Rightarrow> nat \<times> respStream" where
  "makeNode itemID item k st =
     (if k = respItemReasoning then rt_start itemID (BeginThinking (responses_thinking itemID)) st
      else if k = respItemFuncCall then
        rt_start itemID (case item of None \<Rightarrow> BeginCall [] [] | Some it \<Rightarrow> BeginCall (ri_callID it) (ri_name it))
          (st\<lparr>rt_haveCall := True\<rparr>)
      else rt_start itemID BeginText st)"

definition keyed :: "respStream \<Rightarrow> nat \<Rightarrow> bool" where
  "keyed st n \<longleftrightarrow> n \<in> snd ` set (rt_byItem st)"

text \<open>A change of a node's reasoning data, made without telling the sink.\<close>

definition on_thinking :: "nat \<Rightarrow> (thinking_data \<Rightarrow> thinking_data) \<Rightarrow> respStream \<Rightarrow> respStream" where
  "on_thinking n f st =
     (case rt_body st n of ThinkingNode _ t \<Rightarrow> rt_tell (EvFill n (FillThinking (f t))) st | _ \<Rightarrow> st)"

definition adoptable :: "respStream \<Rightarrow> string \<Rightarrow> string \<Rightarrow> nat \<Rightarrow> bool" where
  "adoptable st itemID k n \<longleftrightarrow>
     \<not> node_final (rt_body st n) \<and> respKindMatches (rt_body st n) k \<and> (itemID = [] \<or> \<not> keyed st n)"

definition adopt_or_make :: "string \<Rightarrow> respItem option \<Rightarrow> string \<Rightarrow> respStream \<Rightarrow> nat \<times> respStream" where
  "adopt_or_make itemID item k st =
     (case find (adoptable st itemID k) (rev (rt_nodes st)) of
        Some n \<Rightarrow>
          (n, if itemID \<noteq> [] then on_thinking n (\<lambda>t. t\<lparr>th_itemID := itemID\<rparr>) (rt_key itemID n st) else st)
      | None \<Rightarrow> makeNode itemID item k st)"

definition nodeFor :: "string \<Rightarrow> respItem option \<Rightarrow> string \<Rightarrow> respStream \<Rightarrow> nat \<times> respStream" where
  "nodeFor itemID item k st =
     (case (if itemID \<noteq> [] then map_of (rt_byItem st) itemID else None) of
        Some n \<Rightarrow> if respKindMatches (rt_body st n) k then (n, st) else adopt_or_make itemID item k st
      | None \<Rightarrow> adopt_or_make itemID item k st)"

definition rt_saw :: "respStream \<Rightarrow> respStream" where "rt_saw st = st\<lparr>rt_sawData := True\<rparr>"

definition resp_delta :: "string \<Rightarrow> field_id \<Rightarrow> respEvent \<Rightarrow> respStream \<Rightarrow> respStream" where
  "resp_delta k f e st =
     (let (n, st) = nodeFor (re_itemID e) None k (rt_saw st);
          st = (if re_type e = ''response.reasoning_text.delta'' then on_thinking n (\<lambda>t. t\<lparr>th_raw := True\<rparr>) st else st)
      in rt_tell (EvDelta n f (re_delta e)) st)"

section \<open>The end of an item and of the response\<close>

definition stream_text :: "node_body \<Rightarrow> string" where
  "stream_text b = (case stream_field b of None \<Rightarrow> [] | Some s \<Rightarrow> ss_current s)"

text \<open>A field ended on a value, unless there is no value and something streamed.\<close>

definition finish_text :: "nat \<Rightarrow> string \<Rightarrow> respStream \<Rightarrow> respStream" where
  "finish_text n v st =
     (if v \<noteq> [] \<or> stream_text (rt_body st n) = [] then rt_tell (EvFill n (FillFinish v)) st else st)"

definition finishItem :: "respItem \<Rightarrow> respStream \<Rightarrow> respStream" where
  "finishItem item st =
     (if ri_type item = respItemMessage then
        (let (n, st) = nodeFor (ri_id item) (Some item) respItemMessage st
         in rt_tell (EvDone n) (finish_text n (concat (map rc_text (ri_content item))) st))
      else if ri_type item = respItemFuncCall then
        (let (n, st) = nodeFor (ri_id item) (Some item) respItemFuncCall st;
             st = rt_tell (EvFill n (FillCall (ri_callID item) (ri_name item))) st
         in rt_tell (EvDone n) (rt_tell (EvFill n (FillFinish (ri_args item))) st))
      else if ri_type item = respItemReasoning then
        (let (n, st) = nodeFor (ri_id item) (Some item) respItemReasoning st;
             (final, raw) = item_reasoningText item;
             st = finish_text n final st;
             st = on_thinking n (\<lambda>t. t\<lparr>th_raw := (if final \<noteq> [] then raw else th_raw t),
                    th_encrypted := NewEncryptedReasoning (ri_encrypted item)\<rparr>) st
         in rt_tell (EvDone n) st)
      else st)"

definition finishResponse :: "resp_json \<Rightarrow> string \<Rightarrow> respResponse \<Rightarrow> respStream \<Rightarrow> bool \<times> respStream" where
  "finishResponse js data r st =
     (let st = st\<lparr>rt_stop := respStopReason r (rt_haveCall st)\<rparr>
      in case rr_usage r of
           None \<Rightarrow> (False, st)
         | Some ru \<Rightarrow>
             (let u = (resp_toUsage ru)\<lparr>u_raw := rj_usage js data, u_reasoning := resp_reasoningTokens ru\<rparr>
              in (True, rt_tell (EvUsage u) (st\<lparr>rt_usages := rt_usages st @ [u]\<rparr>))))"

text \<open>One event, and whether the sink's error is read after it.\<close>

definition resp_event :: "resp_json \<Rightarrow> string \<Rightarrow> respEvent \<Rightarrow> respStream \<Rightarrow> bool \<times> respStream" where
  "resp_event js data e st =
     (if re_type e = ''response.output_item.added'' then
        (case re_item e of
           None \<Rightarrow> (False, st)
         | Some it \<Rightarrow>
             (True, if ri_type it \<in> {respItemMessage, respItemReasoning, respItemFuncCall}
                    then snd (makeNode (ri_id it) (Some it) (ri_type it) (rt_saw st)) else rt_saw st))
      else if re_type e = ''response.output_text.delta'' then
        (if re_delta e = [] then (False, st) else (True, resp_delta respItemMessage FieldText e st))
      else if re_type e = ''response.reasoning_summary_text.delta'' \<or> re_type e = ''response.reasoning_text.delta'' then
        (if re_delta e = [] then (False, st) else (True, resp_delta respItemReasoning FieldText e st))
      else if re_type e = ''response.function_call_arguments.delta'' then
        (if re_delta e = [] then (False, st) else (True, resp_delta respItemFuncCall FieldArguments e st))
      else if re_type e = ''response.output_item.done'' then
        (case re_item e of None \<Rightarrow> (False, st) | Some it \<Rightarrow> (True, finishItem it (rt_saw st)))
      else if re_type e = ''response.completed'' \<or> re_type e = ''response.incomplete'' then
        (case re_response e of None \<Rightarrow> (False, st) | Some r \<Rightarrow> finishResponse js data r (rt_saw st))
      else if re_type e = ''response.failed'' then (False, st\<lparr>rt_failure := Some (respFailure (re_response e))\<rparr>)
      else if re_type e = ''error'' then (False, st\<lparr>rt_failure := Some (respEventFailure (re_error e))\<rparr>)
      else (False, st))"

definition resp_onData :: "resp_json \<Rightarrow> sink_answer \<Rightarrow> string \<Rightarrow> respStream \<Rightarrow> go_error option \<times> respStream" where
  "resp_onData js err data st =
     (case rj_decode js data of
        None \<Rightarrow> (None, st)
      | Some e \<Rightarrow> (let (asks, st) = resp_event js data e st in (if asks then err (rt_out st) else None, st)))"

section \<open>The completion\<close>

definition resp_completion :: "respStream \<Rightarrow> CoreCompletion" where
  "resp_completion st =
     \<lparr>cc_message = message_of (rt_out st) (rt_nodes st), cc_usages = rt_usages st, cc_streamed = True,
      cc_stop = (if rt_stop st = [] then respStopFromShape (rt_haveCall st) else rt_stop st), cc_model = [], cc_routed = []\<rparr>"

text \<open>The end of \<open>Stream\<close> on an event stream: a reported failure is read when the stream ended well.\<close>

definition resp_streamed :: "resp_json \<Rightarrow> sink_answer \<Rightarrow> body \<Rightarrow> (CoreCompletion option \<times> go_error option) \<times> sink_log" where
  "resp_streamed js err b =
     (let (e, st) = scanSSE b (resp_onData js err) newRespStream;
          partial = (if rt_sawData st then Some (resp_completion st) else None)
      in case e of
           Some e \<Rightarrow> ((partial, Some (Wrapped ''responses: '' e)), rt_out st)
         | None \<Rightarrow>
             (case rt_failure st of
                Some f \<Rightarrow> ((partial, Some f), rt_out st)
              | None \<Rightarrow> ((Some (resp_completion st), None), rt_out st)))"

end
