(* ===== verification/ResponsesWire.thy ===== *)
theory ResponsesWire
  imports ProviderBase ResponsesStream
begin

text \<open>
  The Responses API provider (\<open>core/responses.go\<close>, \<open>core/responses_wire.go\<close>): the transcript as input
  items, the request body, a plain JSON answer and the call. Reasoning goes back as the item it came
  from. Decoding a plain answer is the parameter \<open>plain\<close>, with the verbatim usage object beside it.
\<close>

section \<open>The transcript\<close>

definition respIncludeEncryptedReasoning :: string where
  "respIncludeEncryptedReasoning = ''reasoning.encrypted_content''"

definition blank_item :: "string \<Rightarrow> respItem" where
  "blank_item ty = \<lparr>ri_type = ty, ri_id = [], ri_role = [], ri_content = [], ri_callID = [], ri_name = [], ri_args = [],
     ri_output = [], ri_summary = None, ri_encrypted = []\<rparr>"

definition resp_text :: "string \<Rightarrow> string \<Rightarrow> respContent" where
  "resp_text ty t = \<lparr>rc_type = ty, rc_text = t, rc_image = []\<rparr>"

definition resp_image :: "string \<Rightarrow> string \<Rightarrow> string \<Rightarrow> go_error + respContent" where
  "resp_image media data src =
     bind_sum (imageRef DialectResponses media data src) (\<lambda>ref. Inr \<lparr>rc_type = respImageInput, rc_text = [], rc_image = ref\<rparr>)"

definition respInputContent :: "Message \<Rightarrow> go_error + respContent list" where
  "respInputContent m =
     (if \<not> hasImage m then Inr [resp_text respTextInput (msg_content m)]
      else part_blocks (resp_text respTextInput) resp_image (EffectiveParts m))"

definition respReasoningItem :: "ThinkingBlock \<Rightarrow> respItem option" where
  "respReasoningItem tb =
     (if tb_signature tb = [] \<and> \<not> (tb_raw tb \<and> tb_text tb \<noteq> []) then None
      else (let it = (blank_item respItemReasoning)\<lparr>ri_id := tb_id tb, ri_encrypted := tb_signature tb\<rparr>
            in Some (if tb_text tb = [] then it
                     else if tb_raw tb then it\<lparr>ri_summary := Some [], ri_content := [resp_text respTextReasoning (tb_text tb)]\<rparr>
                     else it\<lparr>ri_summary := Some [resp_text respTextSummary (tb_text tb)]\<rparr>)))"

definition message_item :: "string \<Rightarrow> respContent list \<Rightarrow> respItem" where
  "message_item role content = (blank_item respItemMessage)\<lparr>ri_role := role, ri_content := content\<rparr>"

definition call_item :: "ToolCall \<Rightarrow> respItem" where
  "call_item tc = (blank_item respItemFuncCall)\<lparr>ri_callID := tc_id tc, ri_name := tc_name tc, ri_args := replayToolArgs (tc_args tc)\<rparr>"

definition message_items :: "Message \<Rightarrow> go_error + respItem list" where
  "message_items m =
     (if msg_role m = RoleTool then
        Inr [(blank_item respItemFuncOutput)\<lparr>ri_callID := msg_call_id m, ri_output := msg_content m\<rparr>]
      else if msg_role m = RoleAssistant then
        Inr (List.map_filter respReasoningItem (msg_thinking m)
          @ (if msg_content m \<noteq> [] then [message_item (role_name RoleAssistant) [resp_text respTextOutput (msg_content m)]] else [])
          @ map call_item (msg_calls m))
      else bind_sum (respInputContent m) (\<lambda>content. Inr [message_item (role_name (msg_role m)) content]))"

definition respInputItems :: "Message list \<Rightarrow> go_error + respItem list" where
  "respInputItems msgs = bind_sum (sum_map message_items msgs) (\<lambda>iss. Inr (concat iss))"

text \<open>The items as \<open>json.Marshal\<close> writes the struct; a summary that is there but empty is an empty array.\<close>

definition resp_content_json :: "respContent \<Rightarrow> json" where
  "resp_content_json c =
     JObj ((''type'', JStr (rc_type c)) # opt_member ''text'' (rc_text c) @ opt_member ''image_url'' (rc_image c))"

definition resp_item_json :: "respItem \<Rightarrow> json" where
  "resp_item_json it =
     JObj ((''type'', JStr (ri_type it)) # opt_member ''id'' (ri_id it) @ opt_member ''role'' (ri_role it)
       @ (if ri_content it = [] then [] else [(''content'', JArr (map resp_content_json (ri_content it)))])
       @ opt_member ''call_id'' (ri_callID it) @ opt_member ''name'' (ri_name it) @ opt_member ''arguments'' (ri_args it)
       @ opt_member ''output'' (ri_output it)
       @ (case ri_summary it of None \<Rightarrow> [] | Some ss \<Rightarrow> [(''summary'', JArr (map resp_content_json ss))])
       @ opt_member ''encrypted_content'' (ri_encrypted it))"

section \<open>The request\<close>

record responsesProvider =
  vp_baseURL :: string
  vp_apiKey :: string
  vp_userAgent :: string
  vp_store :: bool
  vp_headers :: "(string \<times> string) list"

definition respReserved :: "string list" where
  "respReserved = [''input'', ''instructions'', ''model'', ''stream'', ''tools'']"

definition resp_tool :: "'w transport \<Rightarrow> ToolDecl \<Rightarrow> go_error + json" where
  "resp_tool tp t =
     bind_sum (schema_json tp ''responses: marshal request: '' t) (\<lambda>schema.
       Inr (JObj ([(''type'', JStr ''function''), (''name'', JStr (decl_name t))]
         @ opt_member ''description'' (decl_description t) @ [(''parameters'', schema)])))"

definition resp_buildBody :: "'w transport \<Rightarrow> responsesProvider \<Rightarrow> core_request \<Rightarrow> go_error + json" where
  "resp_buildBody tp v req =
     (let b = jset ''model'' (JStr (q_model req)) (passed_params respReserved (ParamsFor req DialectResponses));
          b = (if q_system req \<noteq> [] then jset ''instructions'' (JStr (q_system req)) b else b)
      in bind_sum (respInputItems (q_messages req)) (\<lambda>input.
         let b = jset ''input'' (JArr (map resp_item_json input)) b;
             b = jset ''store'' (JBool (vp_store v)) (jset ''stream'' (JBool True) b);
             b = (if map_of b ''include'' = None then jset ''include'' (JArr [JStr respIncludeEncryptedReasoning]) b else b)
         in bind_sum (sum_map (resp_tool tp) (q_tools req)) (\<lambda>ts.
            let b = (if q_tools req \<noteq> [] then jset ''tools'' (JArr ts) b else b);
                b = (if q_maxTokens req > 0 then jset ''max_output_tokens'' (JNum (itoa (q_maxTokens req))) b else b);
                b = (if q_cacheKey req \<noteq> [] then jset ''prompt_cache_key'' (JStr (q_cacheKey req)) b else b)
            in Inr (JObj b))))"

section \<open>A plain answer\<close>

definition respThinkingBlock :: "respItem \<Rightarrow> ThinkingBlock" where
  "respThinkingBlock it =
     (let (t, raw) = item_reasoningText it
      in \<lparr>tb_text = t, tb_signature = ri_encrypted it, tb_id = ri_id it, tb_redacted = [], tb_raw = raw\<rparr>)"

definition item_parts :: "respItem \<Rightarrow> Part list" where
  "item_parts it =
     (if ri_type it = respItemMessage then
        map (\<lambda>c. TextPart (rc_text c)) (filter (\<lambda>c. rc_type c = respTextOutput) (ri_content it))
      else if ri_type it = respItemFuncCall then [ToolCallPart (ri_callID it) (ri_name it) (toolArgs (ri_args it))]
      else if ri_type it = respItemReasoning then
        (let tb = respThinkingBlock it in [ThinkingPart (tb_text tb) (tb_signature tb) (tb_id tb) (tb_raw tb)])
      else [])"

definition parseResponsesObject :: "(string \<Rightarrow> string + respResponse \<times> string) \<Rightarrow> string \<Rightarrow> go_error + CoreCompletion" where
  "parseResponsesObject plain data =
     (case plain data of
        Inl why \<Rightarrow> Inl (RequestError (''responses: decode non-streaming response: '' @ why))
      | Inr (r, raw) \<Rightarrow>
          if rr_status r = ''failed'' then Inl (respFailure (Some r))
          else
            (let m = SyncViews ((empty_message RoleAssistant)\<lparr>msg_parts := concat (map item_parts (rr_output r))\<rparr>)
             in Inr \<lparr>cc_message = m,
                  cc_usages = (case rr_usage r of
                     None \<Rightarrow> []
                   | Some u \<Rightarrow> [(resp_toUsage u)\<lparr>u_reasoning := resp_reasoningTokens u, u_raw := raw\<rparr>]),
                  cc_streamed = False,
                  cc_stop = respStopReason r (\<exists>it\<in>set (rr_output r). ri_type it = respItemFuncCall),
                  cc_model = [], cc_routed = []\<rparr>))"

section \<open>The call\<close>

definition resp_headers :: "responsesProvider \<Rightarrow> (string \<times> string) list" where
  "resp_headers v =
     set_headers
       ([(''Content-Type'', ''application/json''), (''Accept'', event_stream_type)]
        @ (if vp_apiKey v \<noteq> [] then [(''Authorization'', ''Bearer '' @ vp_apiKey v)] else [])
        @ (if vp_userAgent v \<noteq> [] then [(''User-Agent'', vp_userAgent v)] else [])
        @ vp_headers v) []"

definition resp_Stream :: "'w transport \<Rightarrow> resp_json \<Rightarrow> (string \<Rightarrow> string + respResponse \<times> string) \<Rightarrow> responsesProvider
    \<Rightarrow> sink_answer \<Rightarrow> core_request \<Rightarrow> 'w \<Rightarrow> ((CoreCompletion option \<times> go_error option) \<times> sink_log) \<times> 'w" where
  "resp_Stream tp js plain v err req w =
     (case resp_buildBody tp v req of
        Inl e \<Rightarrow> (((None, Some e), []), w)
      | Inr bod \<Rightarrow>
          exchange tp ''responses'' (trim_right (CHR ''/'') (vp_baseURL v) @ ''/responses'') (resp_headers v) bod
            (\<lambda>data. completionIntoSink (parseResponsesObject plain data) err DialectResponses)
            (resp_streamed js err) w)"

section \<open>Silence before the first event\<close>

definition rt_told :: "respStream \<Rightarrow> bool" where
  "rt_told st \<longleftrightarrow> rt_sawData st \<or> rt_out st = []"

lemma rt_saw_kept [simp]:
  "rt_sawData (rt_tell e st) = rt_sawData st" "rt_sawData (rt_key i n st) = rt_sawData st"
  "rt_sawData (snd (rt_start i b st)) = rt_sawData st" "rt_sawData (on_thinking n f st) = rt_sawData st"
  "rt_sawData (snd (makeNode i it k st)) = rt_sawData st" "rt_sawData (finish_text n v st) = rt_sawData st"
  "rt_sawData (rt_saw st)"
  by (simp_all add: rt_tell_def rt_key_def rt_start_def on_thinking_def makeNode_def finish_text_def rt_saw_def Let_def
      split: node_body.split)

lemma rt_saw_node [simp]: "rt_sawData (snd (nodeFor i it k st)) = rt_sawData st"
  by (auto simp: nodeFor_def adopt_or_make_def split: option.split)

lemma rt_saw_item [simp]: "rt_sawData (finishItem it st) = rt_sawData st" "rt_sawData (resp_delta k f e st)"
  by (simp_all add: finishItem_def resp_delta_def case_prod_unfold Let_def)

lemma resp_event_told: "rt_told st \<Longrightarrow> rt_told (snd (resp_event js d e st))"
  by (auto simp: resp_event_def rt_told_def finishResponse_def Let_def split: option.split)

lemma resp_streamed_silent: "fst (fst (resp_streamed js err b)) = None \<Longrightarrow> snd (resp_streamed js err b) = []"
proof -
  have "rt_told (snd (resp_onData js err d st))" if "rt_told st" for d st
    using resp_event_told [OF that, of js d] that
    by (auto simp: resp_onData_def case_prod_unfold Let_def split: option.split)
  then have "rt_told (snd (scanSSE b (resp_onData js err) newRespStream))"
    by (rule scanSSE_inv [where P = rt_told]) (simp_all add: rt_told_def newRespStream_def)
  then show "fst (fst (resp_streamed js err b)) = None \<Longrightarrow> snd (resp_streamed js err b) = []"
    by (auto simp: resp_streamed_def rt_told_def case_prod_unfold Let_def split: option.splits if_splits)
qed

lemma resp_Stream_silent:
  "fst (fst (fst (resp_Stream tp js plain v err req w))) = None \<Longrightarrow> snd (fst (resp_Stream tp js plain v err req w)) = []"
  by (auto simp: resp_Stream_def intro: exchange_silent [OF whole_silent resp_streamed_silent] split: sum.splits)

section \<open>Reasoning sent back\<close>

text \<open>
  A reasoning item read from a response goes back as the item it was, wherever its text stood; one with
  neither an encrypted payload nor its own text is prose about the reasoning, and is left out.
\<close>

lemma reasoning_item_replayed:
  assumes "ri_type it = respItemReasoning"
  shows "case respReasoningItem (respThinkingBlock it) of
      None \<Rightarrow> ri_encrypted it = [] \<and> \<not> snd (item_reasoningText it)
    | Some it' \<Rightarrow> ri_type it' = ri_type it \<and> ri_id it' = ri_id it \<and> ri_encrypted it' = ri_encrypted it
        \<and> item_reasoningText it' = item_reasoningText it"
proof -
  obtain t raw where t: "item_reasoningText it = (t, raw)" by fastforce
  then have "raw \<Longrightarrow> t \<noteq> []" "t = [] \<Longrightarrow> \<not> raw"
    by (auto simp: item_reasoningText_def Let_def split: if_splits)
  then show ?thesis using assms t
    by (auto simp: respReasoningItem_def respThinkingBlock_def blank_item_def item_reasoningText_def resp_text_def Let_def
        split: if_splits)
qed

end
