(* ===== verification/ProviderProps.thy ===== *)
theory ProviderProps
  imports OpenAIProps AnthropicWire ResponsesWire
begin

text \<open>
  What the three streaming providers promise whoever re-sends a call: a call that failed without a
  completion left nothing behind in the sink.
\<close>

section \<open>The providers\<close>

lemma an_Stream_silent:
  "fst (fst (fst (an_Stream tp num js decode a err req w))) = None \<Longrightarrow> snd (fst (an_Stream tp num js decode a err req w)) = []"
  by (auto simp: an_Stream_def intro: exchange_silent [OF whole_silent an_streamed_silent] split: sum.splits if_splits)

lemma oa_complete_silent:
  "fst (fst (fst (oa_complete tp ox o' err req d w))) = None \<Longrightarrow> snd (fst (oa_complete tp ox o' err req d w)) = []"
  by (auto simp: oa_complete_def intro: exchange_silent [OF whole_silent oa_streamed_silent] split: sum.splits)

lemma oa_completeOnce_silent:
  assumes "fst (fst (fst (oa_completeOnce tp ox o' err req w))) = None"
  shows "snd (fst (oa_completeOnce tp ox o' err req w)) = []"
proof -
  obtain c e out w1 where one: "oa_complete tp ox o' err req True w = (((c, e), out), w1)"
    by (metis prod.collapse)
  obtain r out' w2 where two: "oa_complete tp ox o' (\<lambda>o2. err (out @ o2)) req False w1 = ((r, out'), w2)"
    by (metis prod.collapse)
  note s = oa_complete_silent [of tp ox o' err req True w] oa_complete_silent [of tp ox o' "\<lambda>o2. err (out @ o2)" req False w1]
    oa_complete_silent [of tp ox o' err req False w1]
  show ?thesis using assms s unfolding oa_completeOnce_def one two
    by (cases c; cases e) (auto simp: one two split: if_splits)
qed

lemma oa_Stream_silent:
  "fst (fst (fst (oa_Stream tp ox o' err req w))) = None \<Longrightarrow> snd (fst (oa_Stream tp ox o' err req w)) = []"
  using oa_completeOnce_silent [of tp ox o' err req w]
  by (auto simp: oa_Stream_def Let_def split: prod.splits option.splits if_splits)

section \<open>Properties\<close>

text \<open>
  C33. A call that fails without a completion has told the sink nothing, on any of the three dialects,
  whichever way it failed and also after the second attempt the chat-completions provider makes on its own: no node was
  started, no delta and no usage reported. So whoever re-sends such a call never repeats output a host
  has seen.
\<close>

theorem untold_failures:
  "(fst (fst (fst (an_Stream tp num js decode a err req w))) = None \<longrightarrow> snd (fst (an_Stream tp num js decode a err req w)) = [])
   \<and> (fst (fst (fst (oa_Stream tp ox o' err req w))) = None \<longrightarrow> snd (fst (oa_Stream tp ox o' err req w)) = [])
   \<and> (fst (fst (fst (resp_Stream tp rj plain v err req w))) = None \<longrightarrow> snd (fst (resp_Stream tp rj plain v err req w)) = [])"
  by (intro conjI impI an_Stream_silent oa_Stream_silent resp_Stream_silent)

text \<open>A server that closes the connection.\<close>

definition closed_transport :: "unit transport" where
  "closed_transport = \<lparr>tp_do = (\<lambda>r w. (Inl (ErrorNew ''EOF''), w)), tp_bad_url = (\<lambda>_. None), tp_schema_error = id\<rparr>"

definition plain_request :: core_request where
  "plain_request = \<lparr>q_model = ''m'', q_system = [], q_messages = [], q_tools = [], q_maxTokens = 8, q_extra = [],
     q_dialectExtra = [], q_cacheKey = []\<rparr>"

definition plain_anthropic :: anthropicProvider where
  "plain_anthropic = \<lparr>ap_baseURL = ''u'', ap_apiKey = [], ap_version = [], ap_userAgent = [], ap_disableCaching = True, ap_headers = []\<rparr>"

definition plain_openai :: openaiProvider where
  "plain_openai = \<lparr>op_baseURL = ''u'', op_apiKey = [], op_userAgent = [], op_selfHosted = False, op_promptCache = False, op_headers = []\<rparr>"

definition plain_responses :: responsesProvider where
  "plain_responses = \<lparr>vp_baseURL = ''u'', vp_apiKey = [], vp_userAgent = [], vp_store = False, vp_headers = []\<rparr>"

definition deaf_responses :: resp_json where
  "deaf_responses = \<lparr>rj_decode = (\<lambda>_. None), rj_usage = id\<rparr>"

definition deaf :: oa_decoders where
  "deaf = \<lparr>ox_stream = \<lparr>oj_decode = (\<lambda>_. None), oj_usage = id\<rparr>, ox_details = (\<lambda>_. None), ox_plain = (\<lambda>_. Inl []),
     ox_usage = (\<lambda>_. None), ox_lower = id\<rparr>"

theorem untold_failures_witness:
  "fst (fst (fst (an_Stream closed_transport Some shown_json (\<lambda>_. Inl []) plain_anthropic (\<lambda>_. None) plain_request ()))) = None
   \<and> snd (fst (an_Stream closed_transport Some shown_json (\<lambda>_. Inl []) plain_anthropic (\<lambda>_. None) plain_request ())) = []
   \<and> fst (fst (fst (oa_Stream closed_transport deaf plain_openai (\<lambda>_. None) plain_request ()))) = None
   \<and> snd (fst (oa_Stream closed_transport deaf plain_openai (\<lambda>_. None) plain_request ())) = []
   \<and> fst (fst (fst (resp_Stream closed_transport deaf_responses (\<lambda>_. Inl []) plain_responses (\<lambda>_. None) plain_request ()))) = None
   \<and> snd (fst (resp_Stream closed_transport deaf_responses (\<lambda>_. Inl []) plain_responses (\<lambda>_. None) plain_request ())) = []"
proof -
  have x: "fst (exchange closed_transport name url hs bod pl stm ()) = ((None, Some (Wrapped (name @ '': '') (ErrorNew ''EOF''))), [])"
    for name url hs bod pl stm
    by (simp add: exchange_def closed_transport_def)
  have a: "fst (fst (fst (an_Stream closed_transport Some shown_json (\<lambda>_. Inl []) plain_anthropic (\<lambda>_. None) plain_request ()))) = None"
    by (simp add: an_Stream_def plain_request_def x split: sum.split)
  have "fst (fst (oa_complete closed_transport deaf plain_openai err plain_request d ())) = (None, Some (Wrapped ''openai: '' (ErrorNew ''EOF'')))" for err d
    by (simp add: oa_complete_def oa_buildBody_def oaWireMessages_def plain_request_def x Let_def)
  moreover have "error_as is_api (Wrapped ''openai: '' (ErrorNew ''EOF'')) = None" by (simp add: error_as_def)
  ultimately have "fst (fst (oa_Stream closed_transport deaf plain_openai (\<lambda>_. None) plain_request ()))
      = (None, Some (Wrapped ''openai: '' (ErrorNew ''EOF'')))"
    by (simp add: oa_Stream_def oa_completeOnce_def case_prod_unfold Let_def refusesReasoning_def shouldRetryWithoutStreamOptions_def split: option.split)
  moreover have "fst (fst (fst (resp_Stream closed_transport deaf_responses (\<lambda>_. Inl []) plain_responses (\<lambda>_. None) plain_request ()))) = None"
    by (simp add: resp_Stream_def plain_request_def x split: sum.split)
  ultimately show ?thesis using a untold_failures [of closed_transport Some shown_json] by simp
qed

end
