(* ===== verification/ThinkingRepair.thy ===== *)
theory ThinkingRepair
  imports ParamStrip AnthropicWire
begin

text \<open>
  Recovery from a rejected thinking signature (\<open>core/thinkingrepair.go\<close>): the signature an error points
  at is read off the wire form of the transcript, forgotten from it, and the call is sent once more.
\<close>

section \<open>The rejected signature\<close>

text \<open>\<open>messages\.(\d+)\.content\.(\d+):\s*Invalid `signature` in `thinking` block\<close>, case folded.\<close>

definition invalidThinkingSigPattern :: rx where
  "invalidThinkingSigPattern =
     rx_seq (rx_text ''messages.'') (rx_seq (rx_group (rx_plus rx_digit)) (rx_seq (rx_text ''.content.'')
       (rx_seq (rx_group (rx_plus rx_digit)) (rx_seq (rx_text '':'') (rx_seq (rx_star rx_space)
         (rx_text (''Invalid '' @ [CHR 0x60] @ ''signature'' @ [CHR 0x60] @ '' in '' @ [CHR 0x60] @ ''thinking'' @ [CHR 0x60] @ '' block'')))))))"

definition MaxInt :: nat where "MaxInt = 2 ^ 63 - 1"

definition Atoi_digits :: "string \<Rightarrow> nat option" where
  "Atoi_digits s = (if read_digits s \<le> MaxInt then Some (read_digits s) else None)"

definition thinking_signature :: "jobject \<Rightarrow> string option" where
  "thinking_signature b =
     (if \<not> block_type b ''thinking'' then None
      else (case map_of b ''signature'' of Some (JStr sig) \<Rightarrow> if sig = [] then None else Some sig | _ \<Rightarrow> None))"

definition findRejectedSignature :: "(string \<Rightarrow> string option) \<Rightarrow> Message list \<Rightarrow> string \<Rightarrow> string option" where
  "findRejectedSignature num msgs errStr =
     (case rx_find invalidThinkingSigPattern errStr of
        Some [mi, ci] \<Rightarrow>
          (case (Atoi_digits mi, Atoi_digits ci) of
             (Some msgIdx, Some cIdx) \<Rightarrow>
               (case anWireMessages num msgs of
                  Inl _ \<Rightarrow> None
                | Inr wire \<Rightarrow>
                    if length wire \<le> msgIdx then None
                    else if length (am_blocks (wire ! msgIdx)) \<le> cIdx then None
                    else thinking_signature (am_blocks (wire ! msgIdx) ! cIdx))
           | _ \<Rightarrow> None)
      | _ \<Rightarrow> None)"

section \<open>The middleware\<close>

definition isBad :: "string set \<Rightarrow> ThinkingBlock \<Rightarrow> bool" where
  "isBad bad tb \<longleftrightarrow> tb_signature tb \<noteq> [] \<and> tb_signature tb \<in> bad"

definition anyBad :: "string set \<Rightarrow> Message list \<Rightarrow> bool" where
  "anyBad bad msgs \<longleftrightarrow> (\<exists>m\<in>set msgs. \<exists>tb\<in>set (msg_thinking m). isBad bad tb)"

definition clear_bad :: "string set \<Rightarrow> ThinkingBlock \<Rightarrow> ThinkingBlock" where
  "clear_bad bad tb = (if isBad bad tb then tb\<lparr>tb_signature := []\<rparr> else tb)"

definition withoutBadSignatures :: "string set \<Rightarrow> Message list \<Rightarrow> Message list" where
  "withoutBadSignatures bad msgs =
     (if \<not> anyBad bad msgs then msgs
      else map (\<lambda>m. m\<lparr>msg_thinking := map (clear_bad bad) (msg_thinking m)\<rparr>) msgs)"

definition signatureRepair_do :: "(string \<Rightarrow> string option) \<Rightarrow> (go_error \<Rightarrow> 'w \<Rightarrow> 'w) \<Rightarrow> 'w sender \<Rightarrow> core_request
    \<Rightarrow> string set \<Rightarrow> 'w \<Rightarrow> outcome \<times> string set \<times> 'w" where
  "signatureRepair_do num tell send req bad w =
     (let req = req\<lparr>q_messages := withoutBadSignatures bad (q_messages req)\<rparr>;
          (r, w) = send req w
      in if no_second_try r then (r, bad, w)
         else (case snd r of
             None \<Rightarrow> (r, bad, w)
           | Some e \<Rightarrow>
               (case findRejectedSignature num (q_messages req) (error_text e) of
                  None \<Rightarrow> (r, bad, w)
                | Some sig \<Rightarrow>
                    (let bad = insert sig bad;
                         req = req\<lparr>q_messages := withoutBadSignatures bad (q_messages req)\<rparr>;
                         (r, w) = send req (tell e w)
                     in (r, bad, w)))))"

section \<open>Properties\<close>

text \<open>
  The transcript without some signatures: each is emptied where it stands, and nothing else changes.
\<close>

definition emptied :: "string set \<Rightarrow> Message list \<Rightarrow> Message list" where
  "emptied sigs msgs =
     map (\<lambda>m. m\<lparr>msg_thinking := map (\<lambda>tb. if tb_signature tb \<in> sigs then tb\<lparr>tb_signature := []\<rparr> else tb) (msg_thinking m)\<rparr>) msgs"

lemma withoutBad_emptied: "withoutBadSignatures bad msgs = emptied bad msgs"
proof -
  have c: "clear_bad bad tb = (if tb_signature tb \<in> bad then tb\<lparr>tb_signature := []\<rparr> else tb)" for tb
    by (auto simp: clear_bad_def isBad_def)
  show ?thesis
  proof (cases "anyBad bad msgs")
    case True
    then show ?thesis by (simp add: withoutBadSignatures_def emptied_def c)
  next
    case False
    have e: "tb_signature tb = [] \<Longrightarrow> tb\<lparr>tb_signature := []\<rparr> = tb" for tb :: ThinkingBlock
      by (cases tb) simp
    from False have "(if tb_signature tb \<in> bad then tb\<lparr>tb_signature := []\<rparr> else tb) = tb"
      if "m \<in> set msgs" "tb \<in> set (msg_thinking m)" for m tb
      using that by (auto simp: anyBad_def isBad_def intro: e)
    then have "m\<lparr>msg_thinking := map (\<lambda>tb. if tb_signature tb \<in> bad then tb\<lparr>tb_signature := []\<rparr> else tb) (msg_thinking m)\<rparr> = m"
      if "m \<in> set msgs" for m
      using that by (simp add: map_idI)
    then show ?thesis using False by (simp add: withoutBadSignatures_def emptied_def map_idI)
  qed
qed

text \<open>
  An error text that points at the signature \<open>sig\<close>: it matches the complaint, whose two numbers are the
  position of a message on the wire and of a block in it, and that block is a thinking block with the
  signature.
\<close>

definition points_at :: "(string \<Rightarrow> string option) \<Rightarrow> Message list \<Rightarrow> string \<Rightarrow> string \<Rightarrow> bool" where
  "points_at num msgs err sig \<longleftrightarrow>
     (\<exists>mi ci wire. rx_find invalidThinkingSigPattern err = Some [mi, ci]
        \<and> read_digits mi < 2 ^ 63 \<and> read_digits ci < 2 ^ 63 \<and> anWireMessages num msgs = Inr wire
        \<and> read_digits mi < length wire \<and> read_digits ci < length (am_blocks (wire ! read_digits mi))
        \<and> (let b = am_blocks (wire ! read_digits mi) ! read_digits ci
           in map_of b ''type'' = Some (JStr ''thinking'') \<and> map_of b ''signature'' = Some (JStr sig) \<and> sig \<noteq> []))"

lemma findRejected_points: "findRejectedSignature num msgs err = Some sig \<longleftrightarrow> points_at num msgs err sig"
proof -
  have a: "Atoi_digits s = (if read_digits s < 2 ^ 63 then Some (read_digits s) else None)" for s
    by (simp add: Atoi_digits_def MaxInt_def less_eq_Suc_le)
  have t: "thinking_signature b = Some sig \<longleftrightarrow> map_of b ''type'' = Some (JStr ''thinking'') \<and> map_of b ''signature'' = Some (JStr sig) \<and> sig \<noteq> []" for b
    by (auto simp: thinking_signature_def block_type_def split: option.splits json.splits)
  show ?thesis
    by (auto simp: findRejectedSignature_def points_at_def a t Let_def not_le split: option.splits list.splits sum.splits if_splits)
qed

definition rejects_signature :: "(string \<Rightarrow> string option) \<Rightarrow> Message list \<Rightarrow> outcome \<Rightarrow> go_error \<Rightarrow> string \<Rightarrow> bool" where
  "rejects_signature num msgs out e sig \<longleftrightarrow>
     out = (None, Some e) \<and> \<not> err_is (Some e) Canceled \<and> points_at num msgs (error_text e) sig"

text \<open>
  C38. What is sent when a thinking signature is rejected. The first attempt is the caller's request with
  the signatures known to be bad emptied. It is sent again exactly when it failed, was not cancelled,
  brought no completion, and its error points, by its two numbers, at a thinking block of what was sent:
  then with that block's signature emptied as well, wherever it stands, and otherwise unchanged, the
  signature is remembered, and the caller gets the second outcome. Otherwise the caller gets the first, and
  nothing new is remembered.
\<close>

theorem signature_repair_sends:
  assumes "signatureRepair_do num (\<lambda>e (sent, w). (sent, tell e w)) (logged send) req bad (sent, w) = (r, bad', (sent', w'))"
  defines "r1 \<equiv> req\<lparr>q_messages := emptied bad (q_messages req)\<rparr>"
  shows "(\<exists>e sig. let r2 = r1\<lparr>q_messages := emptied (insert sig bad) (q_messages r1)\<rparr>
      in rejects_signature num (q_messages r1) (fst (send r1 w)) e sig \<and> sent' = sent @ [r1, r2]
         \<and> bad' = insert sig bad \<and> (r, w') = send r2 (tell e (snd (send r1 w))))
    \<or> (\<nexists>e sig. rejects_signature num (q_messages r1) (fst (send r1 w)) e sig)
        \<and> sent' = sent @ [r1] \<and> bad' = bad \<and> (r, w') = send r1 w"
proof -
  obtain o1 w1 where s1: "send r1 w = (o1, w1)" by (cases "send r1 w")
  then have l1: "logged send r1 (sent, w) = (o1, (sent @ [r1], w1))" by (simp add: logged_def)
  note run = assms(1) [unfolded signatureRepair_do_def withoutBad_emptied r1_def [symmetric] Let_def l1 prod.case]
  show ?thesis
  proof (cases "no_second_try o1 \<or> findRejectedSignature num (q_messages r1) (error_text (the (snd o1))) = None")
    case True
    then have "(r, bad', (sent', w')) = (o1, bad, (sent @ [r1], w1))"
      using run by (auto simp: no_second_try_def split: if_splits option.splits)
    moreover have "\<not> rejects_signature num (q_messages r1) o1 e sig" for e sig
      using True by (auto simp: rejects_signature_def no_second_try_def findRejected_points [symmetric])
    ultimately show ?thesis using s1 by simp
  next
    case False
    then obtain e sig where e: "o1 = (None, Some e)" "\<not> err_is (Some e) Canceled"
      "findRejectedSignature num (q_messages r1) (error_text e) = Some sig"
      by (cases o1) (auto simp: no_second_try_def)
    let ?r2 = "r1\<lparr>q_messages := emptied (insert sig bad) (q_messages r1)\<rparr>"
    obtain o2 w2 where s2: "send ?r2 (tell e w1) = (o2, w2)" by (cases "send ?r2 (tell e w1)")
    then have l2: "logged send ?r2 (sent @ [r1], tell e w1) = (o2, (sent @ [r1, ?r2], w2))" by (simp add: logged_def)
    have "(o2, insert sig bad, (sent @ [r1, ?r2], w2)) = (r, bad', (sent', w'))"
      using run by (simp only: e no_second_try_def l2 fst_conv snd_conv option.case option.sel prod.case if_False simp_thms option.distinct)
    then have "r = o2" "bad' = insert sig bad" "sent' = sent @ [r1, ?r2]" "w' = w2" by blast+
    moreover have "rejects_signature num (q_messages r1) o1 e sig"
      using e by (simp add: rejects_signature_def findRejected_points)
    ultimately show ?thesis using s1 s2 by (intro disjI1 exI [of _ e] exI [of _ sig]) (simp add: Let_def)
  qed
qed

definition sig_words :: string where
  "sig_words = ''Invalid '' @ [CHR 0x60] @ ''signature'' @ [CHR 0x60] @ '' in '' @ [CHR 0x60] @ ''thinking'' @ [CHR 0x60] @ '' block''"

definition sig_complaint :: string where
  "sig_complaint = ''messages.0.content.1: '' @ sig_words"

lemmas rx_more = rx_plus_def rx_star_def rx_opt_def rx_alt_def rx_group_def rx_space_def rx_digit_def
  rx_text_def rx_seq_def rx_empty_def rx_rune_def decode_rune_def fold_rune_def

lemma complaint_groups: "rx_find invalidThinkingSigPattern sig_complaint = Some [''0'', ''1'']"
proof -
  have len: "length sig_words = 39" by (simp add: sig_words_def)
  have p: "invalidThinkingSigPattern = rx_seq (rx_text ''messages.'') (rx_seq (rx_group (rx_plus rx_digit)) (rx_seq (rx_text ''.content.'')
       (rx_seq (rx_group (rx_plus rx_digit)) (rx_seq (rx_text '':'') (rx_seq (rx_star rx_space) (rx_text sig_words))))))"
    by (simp add: invalidThinkingSigPattern_def sig_words_def)
  have a: "rx_text ''messages.'' sig_complaint = [([], ''0.content.1: '' @ sig_words)]"
    by (simp add: rx_text_def rx_seq_def rx_empty_def rx_rune_def decode_rune_def fold_rune_def sig_complaint_def)
  have b: "rx_group (rx_plus rx_digit) (''0.content.1: '' @ sig_words) = [([''0''], ''.content.1: '' @ sig_words)]"
    by (simp add: rx_more len eval_nat_numeral)
  have c: "rx_text ''.content.'' (''.content.1: '' @ sig_words) = [([], ''1: '' @ sig_words)]"
    by (simp add: rx_text_def rx_seq_def rx_empty_def rx_rune_def decode_rune_def fold_rune_def)
  have d: "rx_group (rx_plus rx_digit) (''1: '' @ sig_words) = [([''1''], '': '' @ sig_words)]"
    by (simp add: rx_more len eval_nat_numeral)
  have e: "rx_text '':'' ('': '' @ sig_words) = [([], '' '' @ sig_words)]"
    by (simp add: rx_text_def rx_seq_def rx_empty_def rx_rune_def decode_rune_def fold_rune_def)
  have s1: "rx_space sig_words = []" "rx_space ('' '' @ sig_words) = [([], sig_words)]"
    by (simp_all add: rx_space_def rx_rune_def decode_rune_def sig_words_def)
  have s2: "rx_upto (Suc n) rx_space sig_words = [([], sig_words)]" for n
    by (simp add: rx_opt_def rx_alt_def rx_seq_def rx_empty_def s1)
  have "rx_upto (Suc (Suc n)) rx_space ('' '' @ sig_words) = [([], sig_words), ([], '' '' @ sig_words)]" for n
    using s2 [of n] s1(2) by (simp add: rx_opt_def rx_alt_def rx_seq_def rx_empty_def del: append.simps)
  from this [of 38] have f: "rx_star rx_space ('' '' @ sig_words) = [([], sig_words), ([], '' '' @ sig_words)]"
    by (simp add: rx_star_def len eval_nat_numeral)
  have g: "rx_text sig_words sig_words = [([], [])]"
    by (simp add: rx_text_def rx_seq_def rx_empty_def rx_rune_def decode_rune_def fold_rune_def sig_words_def)
  have h: "rx_text sig_words ('' '' @ sig_words) = []"
    by (simp add: rx_text_def rx_seq_def rx_empty_def rx_rune_def decode_rune_def fold_rune_def sig_words_def)
  have m: "invalidThinkingSigPattern sig_complaint = [([''0'', ''1''], [])]"
    unfolding p by (simp only: rx_seq_def a b c d e f g h list.map concat.simps prod.case append_Nil append_Nil2) simp
  obtain x r where x: "sig_complaint = x # r" by (cases sig_complaint) (simp_all add: sig_complaint_def)
  show ?thesis using m unfolding x by (simp add: rx_find.simps(2) rx_first_def)
qed

definition bad_turn :: Message where
  "bad_turn = NewMessage RoleAssistant [ThinkingPart ''x'' ''s1'' [] False, ThinkingPart ''y'' ''s2'' [] False]"

definition signed_request :: core_request where
  "signed_request = \<lparr>q_model = ''m'', q_system = [], q_messages = [bad_turn], q_tools = [], q_maxTokens = 1,
     q_extra = [], q_dialectExtra = [], q_cacheKey = []\<rparr>"

text \<open>A server that refuses every request.\<close>

definition refusing :: "unit sender" where
  "refusing req w = ((None, Some (ErrorNew sig_complaint)), w)"

lemma finds_s2: "findRejectedSignature num [bad_turn] sig_complaint = Some ''s2''"
proof -
  let ?b1 = "jmap [(''type'', JStr ''thinking''), (''thinking'', JStr ''x''), (''signature'', JStr ''s1'')]"
  let ?b2 = "jmap [(''type'', JStr ''thinking''), (''thinking'', JStr ''y''), (''signature'', JStr ''s2'')]"
  have "anAssistantContent num bad_turn = [?b1, ?b2]"
    by (simp add: anAssistantContent_def bad_turn_def thinking_blocks_def)
  then have "anWireMessages num [bad_turn] = Inr [\<lparr>am_role = ''assistant'', am_content = AnBlocks [?b1, ?b2]\<rparr>]"
    by (simp add: bad_turn_def [THEN arg_cong, of msg_role, simplified] bad_turn_def)
  moreover have "thinking_signature ?b2 = Some ''s2''" by (simp add: thinking_signature_def block_type_def)
  moreover have "Atoi_digits ''0'' = Some 0" "Atoi_digits ''1'' = Some 1"
    by (simp_all add: Atoi_digits_def read_digits_def digit_val_def MaxInt_def)
  ultimately show ?thesis by (simp add: findRejectedSignature_def complaint_groups am_blocks_def)
qed

theorem signature_repair_sends_witness:
  "\<exists>r2. fst (snd (snd (signatureRepair_do Some (\<lambda>e (sent, w). (sent, w)) (logged refusing) signed_request {} ([], ())))) = [signed_request, r2]
     \<and> concat (map (\<lambda>m. map tb_signature (msg_thinking m)) (q_messages r2)) = [''s1'', []]"
proof -
  let ?run = "signatureRepair_do Some (\<lambda>e (sent, w). (sent, (\<lambda>e w. w) e w)) (logged refusing) signed_request {} ([], ())"
  obtain r bad' sent' w' where run: "?run = (r, bad', (sent', w'))" by (cases ?run) auto
  have r1: "signed_request\<lparr>q_messages := emptied {} (q_messages signed_request)\<rparr> = signed_request"
    by (simp add: signed_request_def emptied_def)
  have m: "q_messages signed_request = [bad_turn]" by (simp add: signed_request_def)
  have rej: "rejects_signature Some (q_messages signed_request) (fst (refusing signed_request ())) e sig
      \<longleftrightarrow> e = ErrorNew sig_complaint \<and> sig = ''s2''" for e sig
    unfolding rejects_signature_def findRejected_points [symmetric] m
    by (auto simp: refusing_def finds_s2 err_is_def error_is_def)
  from signature_repair_sends [OF run, unfolded r1 rej]
  have "sent' = [signed_request, signed_request\<lparr>q_messages := emptied {''s2''} (q_messages signed_request)\<rparr>]"
    by (auto simp: Let_def)
  moreover have "concat (map (\<lambda>m. map tb_signature (msg_thinking m)) (emptied {''s2''} [bad_turn])) = [''s1'', []]"
    by (simp add: emptied_def bad_turn_def)
  ultimately show ?thesis using run by (simp add: m)
qed

end
