(* ===== verification/ResponsesProps.thy ===== *)
theory ResponsesProps
  imports ResponsesWire AnthropicProps
begin

text \<open>
  What the Responses decoder guarantees: streaming an answer item by item, however its text was cut into
  deltas, gives the completion the same answer would have given as one JSON object.
\<close>

section \<open>An answer as its items\<close>

definition plain_resp_event :: "string \<Rightarrow> respEvent" where
  "plain_resp_event ty = \<lparr>re_type = ty, re_delta = [], re_itemID = [], re_item = None, re_response = None, re_error = None\<rparr>"

definition added_event :: "respItem \<Rightarrow> respEvent" where
  "added_event stub = (plain_resp_event ''response.output_item.added'')\<lparr>re_item := Some stub\<rparr>"

definition done_event :: "respItem \<Rightarrow> respEvent" where
  "done_event it = (plain_resp_event ''response.output_item.done'')\<lparr>re_item := Some it\<rparr>"

text \<open>A delta of an item; for reasoning it is of the thinking itself or of its summary.\<close>

definition item_delta :: "respItem \<Rightarrow> bool \<times> string \<Rightarrow> respEvent" where
  "item_delta it d =
     (plain_resp_event
        (if ri_type it = respItemMessage then ''response.output_text.delta''
         else if ri_type it = respItemFuncCall then ''response.function_call_arguments.delta''
         else if fst d then ''response.reasoning_text.delta'' else ''response.reasoning_summary_text.delta''))
     \<lparr>re_delta := snd d, re_itemID := ri_id it\<rparr>"

text \<open>What is announced of an item, its deltas, and the item itself.\<close>

type_synonym item_stream = "respItem \<times> (bool \<times> string) list \<times> respItem"

definition item_text :: "respItem \<Rightarrow> string" where
  "item_text it =
     (if ri_type it = respItemReasoning then fst (item_reasoningText it) else concat (map rc_text (ri_content it)))"

definition item_streams :: "item_stream \<Rightarrow> bool" where
  "item_streams x \<longleftrightarrow>
     (let (stub, ds, it) = x in
      ri_type stub = ri_type it \<and> ri_id stub = ri_id it \<and> ri_id it \<noteq> []
      \<and> ri_type it \<in> {respItemMessage, respItemFuncCall, respItemReasoning}
      \<and> (ri_type it = respItemMessage \<longrightarrow> (\<forall>c\<in>set (ri_content it). rc_type c = respTextOutput))
      \<and> (ri_type it = respItemFuncCall \<or> item_text it \<noteq> [] \<or> ds = []))"

definition item_events :: "item_stream \<Rightarrow> respEvent list" where
  "item_events x = (let (stub, ds, it) = x in added_event stub # map (item_delta it) ds @ [done_event it])"

definition rt_play :: "resp_json \<Rightarrow> respEvent list \<Rightarrow> respStream \<Rightarrow> respStream" where
  "rt_play js evs st = foldl (\<lambda>st e. snd (resp_event js [] e st)) st evs"

lemma rt_play_simps [simp]:
  "rt_play js [] st = st" "rt_play js (e # es) st = rt_play js es (snd (resp_event js [] e st))"
  "rt_play js (es @ fs) st = rt_play js fs (rt_play js es st)"
  by (simp_all add: rt_play_def)

lemmas resp_event_defs = resp_event_def added_event_def done_event_def item_delta_def plain_resp_event_def

section \<open>One item\<close>

fun open_body :: "respItem \<Rightarrow> string \<Rightarrow> bool \<Rightarrow> node_body \<Rightarrow> bool" where
  "open_body it t raw (AssistantNode s) = (ri_type it = respItemMessage \<and> ss_current s = t)"
| "open_body it t raw (ToolCallNode c n s) = (ri_type it = respItemFuncCall)"
| "open_body it t raw (ThinkingNode s th) =
     (ri_type it = respItemReasoning \<and> ss_current s = t \<and> th = (responses_thinking (ri_id it))\<lparr>th_raw := raw\<rparr>)"
| "open_body it t raw _ = False"

fun done_body :: "respItem \<Rightarrow> node_body \<Rightarrow> bool" where
  "done_body it (AssistantNode s) = (ri_type it = respItemMessage \<and> ss_current s = item_text it)"
| "done_body it (ToolCallNode c n s) =
     (ri_type it = respItemFuncCall \<and> c = ri_callID it \<and> n = ri_name it \<and> ss_current s = ri_args it)"
| "done_body it (ThinkingNode s th) =
     (ri_type it = respItemReasoning \<and> ss_current s = item_text it
      \<and> th = (responses_thinking (ri_id it))\<lparr>th_raw := snd (item_reasoningText it), th_encrypted := NewEncryptedReasoning (ri_encrypted it)\<rparr>)"
| "done_body it _ = False"

definition same_ends :: "respStream \<Rightarrow> respStream \<Rightarrow> bool" where
  "same_ends st st' \<longleftrightarrow> rt_usages st' = rt_usages st \<and> rt_stop st' = rt_stop st \<and> rt_failure st' = rt_failure st"

definition item_grows :: "respItem \<Rightarrow> respStream \<Rightarrow> node_body \<Rightarrow> respStream \<Rightarrow> bool" where
  "item_grows it st b st' \<longleftrightarrow> bodies (rt_out st') = bodies (rt_out st) @ [b]
     \<and> rt_byItem st' = AList.update (ri_id it) (rt_next st) (rt_byItem st) \<and> rt_nodes st' = rt_nodes st @ [rt_next st]
     \<and> rt_haveCall st' = (rt_haveCall st \<or> ri_type it = respItemFuncCall) \<and> same_ends st st'"

lemma rt_tell_simps [simp]:
  "rt_out (rt_tell e st) = rt_out st @ [e]" "rt_byItem (rt_tell e st) = rt_byItem st" "rt_nodes (rt_tell e st) = rt_nodes st"
  "rt_haveCall (rt_tell e st) = rt_haveCall st" "rt_usages (rt_tell e st) = rt_usages st" "rt_stop (rt_tell e st) = rt_stop st"
  "rt_failure (rt_tell e st) = rt_failure st"
  "rt_out (rt_saw st) = rt_out st" "rt_byItem (rt_saw st) = rt_byItem st" "rt_nodes (rt_saw st) = rt_nodes st"
  "rt_haveCall (rt_saw st) = rt_haveCall st" "rt_usages (rt_saw st) = rt_usages st" "rt_stop (rt_saw st) = rt_stop st"
  "rt_failure (rt_saw st) = rt_failure st"
  by (simp_all add: rt_tell_def rt_saw_def)

lemma open_fits: "open_body it t raw b \<Longrightarrow> respKindMatches b (ri_type it)"
  by (cases b) (auto simp: respKindMatches_def item_types)

lemma grows_found:
  assumes "item_grows it st b st'" "open_body it t raw b" "ri_id it \<noteq> []"
  shows "nodeFor (ri_id it) i (ri_type it) st' = (rt_next st, st')" "rt_body st' (rt_next st) = b"
proof -
  show b: "rt_body st' (rt_next st) = b" using assms(1) by (simp add: rt_body_def rt_next_def item_grows_def)
  have "map_of (rt_byItem st') (ri_id it) = Some (rt_next st)"
    using assms(1) by (simp add: item_grows_def update_conv')
  then show "nodeFor (ri_id it) i (ri_type it) st' = (rt_next st, st')"
    using open_fits [OF assms(2)] b assms(3) by (simp add: nodeFor_def)
qed

text \<open>An event on the newest node replaces its body.\<close>

lemma grows_tell:
  assumes "item_grows it st b st'" "play (bodies (rt_out st) @ [b]) e = bodies (rt_out st) @ [b']"
  shows "item_grows it st b' (rt_tell e st')"
  using assms by (simp add: item_grows_def same_ends_def)

lemma added_grows:
  assumes "item_streams (stub, ds, it)"
  shows "\<exists>b. item_grows it st b (snd (resp_event js [] (added_event stub) st)) \<and> open_body it [] False b"
proof -
  have s: "ri_type stub = ri_type it" "ri_id stub = ri_id it" "ri_id it \<noteq> []"
    "ri_type it \<in> {respItemMessage, respItemFuncCall, respItemReasoning}"
    using assms by (auto simp: item_streams_def)
  have started: "item_grows it st (begun_body bg) (snd (rt_start (ri_id it) bg (st1\<lparr>rt_haveCall := hc\<rparr>)))"
    if "rt_out st1 = rt_out st" "rt_byItem st1 = rt_byItem st" "rt_nodes st1 = rt_nodes st"
      "hc = (rt_haveCall st \<or> ri_type it = respItemFuncCall)" "same_ends st st1" for bg st1 hc
    using that s(3) by (simp add: item_grows_def rt_start_def rt_key_def rt_next_def same_ends_def Let_def)
  have fr: "same_ends st (rt_saw st)" by (simp add: same_ends_def)
  have id: "(rt_saw st)\<lparr>rt_haveCall := rt_haveCall st\<rparr> = rt_saw st" by (simp add: rt_saw_def)
  have ev: "snd (resp_event js [] (added_event stub) st) = snd (makeNode (ri_id it) (Some stub) (ri_type it) (rt_saw st))"
    using s by (auto simp: resp_event_defs)
  consider "ri_type it = respItemMessage" | "ri_type it = respItemFuncCall" | "ri_type it = respItemReasoning"
    using s(4) by auto
  then show ?thesis
  proof cases
    case 1
    then show ?thesis unfolding ev using started [of "rt_saw st" "rt_haveCall st" BeginText] fr id
      by (intro exI [of _ "AssistantNode NewStreamString"]) (simp add: makeNode_def item_types)
  next
    case 2
    then show ?thesis unfolding ev using started [of "rt_saw st" True "BeginCall (ri_callID stub) (ri_name stub)"] fr
      by (intro exI [of _ "ToolCallNode (ri_callID stub) (ri_name stub) NewStreamString"]) (simp add: makeNode_def item_types)
  next
    case 3
    then show ?thesis unfolding ev using started [of "rt_saw st" "rt_haveCall st" "BeginThinking (responses_thinking (ri_id it))"] fr id
      by (intro exI [of _ "ThinkingNode NewStreamString (responses_thinking (ri_id it))"])
        (simp add: makeNode_def item_types responses_thinking_def)
  qed
qed

lemma grows_saw: "item_grows it st b st' \<Longrightarrow> item_grows it st b (rt_saw st')"
  by (simp add: item_grows_def same_ends_def)

lemma play_last:
  "play (bs @ [b]) (EvDelta (length bs) f d) = bs @ [append_body f d b]"
  "play (bs @ [b]) (EvFill (length bs) fl) = bs @ [fill_body fl b]"
  "play (bs @ [b]) (EvDone (length bs)) = bs @ [finish_body b]"
  by simp_all

lemma delta_grows:
  assumes g: "item_grows it st b st'" and b: "open_body it t raw b" and id: "ri_id it \<noteq> []"
  shows "\<exists>b' raw'. item_grows it st b' (snd (resp_event js [] (item_delta it (r, d)) st')) \<and> open_body it (t @ d) raw' b'"
proof (cases "d = []")
  case True
  then have "snd (resp_event js [] (item_delta it (r, d)) st') = st'" by (simp add: resp_event_defs)
  then show ?thesis using g b True by auto
next
  case False
  let ?s = "rt_saw st'" and ?n = "rt_next st"
  note g0 = grows_saw [OF g]
  note found = grows_found [OF g0 b id]
  have n: "?n = length (bodies (rt_out st))" by (simp add: rt_next_def)
  show ?thesis
  proof (cases b)
    case (AssistantNode z)
    then have k: "ri_type it = respItemMessage" "ss_current z = t" using b by simp_all
    have "snd (resp_event js [] (item_delta it (r, d)) st') = rt_tell (EvDelta ?n FieldText d) ?s"
      using False k found(1) by (simp add: resp_event_defs resp_delta_def)
    moreover have "item_grows it st (AssistantNode (ss_append d z)) (rt_tell (EvDelta ?n FieldText d) ?s)"
      using g0 unfolding AssistantNode by (rule grows_tell) (simp add: n append_body_def field_of_def)
    ultimately show ?thesis using k by (intro exI [of _ "AssistantNode (ss_append d z)"]) simp
  next
    case (ToolCallNode c nm z)
    then have k: "ri_type it = respItemFuncCall" using b by simp
    have "snd (resp_event js [] (item_delta it (r, d)) st') = rt_tell (EvDelta ?n FieldArguments d) ?s"
      using False k found(1) by (simp add: resp_event_defs resp_delta_def item_types)
    moreover have "item_grows it st (ToolCallNode c nm (ss_append d z)) (rt_tell (EvDelta ?n FieldArguments d) ?s)"
      using g0 unfolding ToolCallNode by (rule grows_tell) (simp add: n append_body_def field_of_def)
    ultimately show ?thesis using k by (intro exI [of _ "ToolCallNode c nm (ss_append d z)"]) simp
  next
    case (ThinkingNode z th)
    then have k: "ri_type it = respItemReasoning" "ss_current z = t" "th = (responses_thinking (ri_id it))\<lparr>th_raw := raw\<rparr>"
      using b by simp_all
    let ?th = "if r then th\<lparr>th_raw := True\<rparr> else th"
    let ?s1 = "if r then rt_tell (EvFill ?n (FillThinking ?th)) ?s else ?s"
    have one: "item_grows it st (ThinkingNode z ?th) ?s1"
      using g0 grows_tell [OF g0 [unfolded ThinkingNode], of "EvFill ?n (FillThinking (th\<lparr>th_raw := True\<rparr>))" "ThinkingNode z (th\<lparr>th_raw := True\<rparr>)"]
      unfolding ThinkingNode by (simp add: n)
    have "snd (resp_event js [] (item_delta it (r, d)) st') = rt_tell (EvDelta ?n FieldText d) ?s1"
      using False k(1) found ThinkingNode by (simp add: resp_event_defs resp_delta_def item_types on_thinking_def)
    moreover have "item_grows it st (ThinkingNode (ss_append d z) ?th) (rt_tell (EvDelta ?n FieldText d) ?s1)"
      using one by (rule grows_tell) (simp add: n append_body_def field_of_def)
    ultimately show ?thesis using k
      by (intro exI [of _ "ThinkingNode (ss_append d z) ?th"] exI [of _ "r \<or> raw"]) simp
  qed (use b in simp_all)
qed

lemma deltas_grow:
  "item_grows it st b st' \<Longrightarrow> open_body it t raw b \<Longrightarrow> ri_id it \<noteq> [] \<Longrightarrow>
   \<exists>b' raw'. item_grows it st b' (rt_play js (map (item_delta it) ds) st') \<and> open_body it (t @ concat (map snd ds)) raw' b'
     \<and> (ds = [] \<longrightarrow> raw' = raw)"
proof (induction ds arbitrary: b t raw st')
  case (Cons d ds)
  obtain b1 raw1 where one: "item_grows it st b1 (snd (resp_event js [] (item_delta it d) st'))" "open_body it (t @ snd d) raw1 b1"
    using delta_grows [OF Cons.prems, of js "fst d" "snd d"] by auto
  show ?case using Cons.IH [OF one Cons.prems(3)] by auto
qed auto

lemma done_grows:
  assumes x: "item_streams (stub, ds, it)" and g: "item_grows it st b st'" and b: "open_body it (concat (map snd ds)) raw b"
    and r: "ds = [] \<Longrightarrow> \<not> raw"
  shows "\<exists>b'. item_grows it st b' (snd (resp_event js [] (done_event it) st')) \<and> done_body it b'"
proof -
  have id: "ri_id it \<noteq> []" and words: "ri_type it = respItemFuncCall \<or> item_text it \<noteq> [] \<or> ds = []"
    using x by (auto simp: item_streams_def)
  let ?s = "rt_saw st'" and ?n = "rt_next st"
  note g0 = grows_saw [OF g]
  note found = grows_found [OF g0 b id]
  have n: "?n = length (bodies (rt_out st))" by (simp add: rt_next_def)
  have ev: "snd (resp_event js [] (done_event it) st') = finishItem it ?s" by (simp add: resp_event_defs)
  show ?thesis
  proof (cases b)
    case (AssistantNode z)
    then have k: "ri_type it = respItemMessage" "ss_current z = concat (map snd ds)" using b by simp_all
    then have t: "item_text it = concat (map rc_text (ri_content it))" "item_text it \<noteq> [] \<or> ds = []"
      using words by (auto simp: item_text_def item_types)
    have "finish_text ?n (item_text it) ?s = rt_tell (EvFill ?n (FillFinish (item_text it))) ?s"
      using t(2) found(2) AssistantNode k(2) by (auto simp: finish_text_def stream_text_def)
    then have "finishItem it ?s = rt_tell (EvDone ?n) (rt_tell (EvFill ?n (FillFinish (item_text it))) ?s)"
      using k(1) found(1) t(1) by (simp add: finishItem_def)
    moreover have "item_grows it st (AssistantNode (ss_finish (item_text it) z)) (rt_tell (EvFill ?n (FillFinish (item_text it))) ?s)"
      using g0 unfolding AssistantNode by (rule grows_tell) (simp add: n)
    then have "item_grows it st (finish_body (AssistantNode (ss_finish (item_text it) z)))
        (rt_tell (EvDone ?n) (rt_tell (EvFill ?n (FillFinish (item_text it))) ?s))"
      by (rule grows_tell) (simp add: n del: finish_simps)
    ultimately show ?thesis unfolding ev using k(1)
      by (intro exI [of _ "finish_body (AssistantNode (ss_finish (item_text it) z))"]) simp
  next
    case (ToolCallNode c nm z)
    then have k: "ri_type it = respItemFuncCall" using b by simp
    let ?s1 = "rt_tell (EvFill ?n (FillCall (ri_callID it) (ri_name it))) ?s"
    let ?s2 = "rt_tell (EvFill ?n (FillFinish (ri_args it))) ?s1"
    have "finishItem it ?s = rt_tell (EvDone ?n) ?s2"
      using k found(1) by (simp add: finishItem_def item_types)
    moreover have "item_grows it st (ToolCallNode (ri_callID it) (ri_name it) z) ?s1"
      using g0 unfolding ToolCallNode by (rule grows_tell) (simp add: n)
    then have "item_grows it st (ToolCallNode (ri_callID it) (ri_name it) (ss_finish (ri_args it) z)) ?s2"
      by (rule grows_tell) (simp add: n)
    then have "item_grows it st (finish_body (ToolCallNode (ri_callID it) (ri_name it) (ss_finish (ri_args it) z))) (rt_tell (EvDone ?n) ?s2)"
      by (rule grows_tell) (simp add: n del: finish_simps)
    ultimately show ?thesis unfolding ev using k
      by (intro exI [of _ "finish_body (ToolCallNode (ri_callID it) (ri_name it) (ss_finish (ri_args it) z))"]) simp
  next
    case (ThinkingNode z th)
    then have k: "ri_type it = respItemReasoning" "ss_current z = concat (map snd ds)"
        "th = (responses_thinking (ri_id it))\<lparr>th_raw := raw\<rparr>"
      using b by simp_all
    then have t: "item_text it = fst (item_reasoningText it)" "item_text it \<noteq> [] \<or> ds = []"
      using words by (auto simp: item_text_def item_types)
    let ?v = "item_text it" and ?raw = "snd (item_reasoningText it)"
    have raws: "?v = [] \<Longrightarrow> \<not> ?raw \<and> \<not> raw"
      using t r by (auto simp: item_reasoningText_def Let_def)
    let ?s1 = "rt_tell (EvFill ?n (FillFinish ?v)) ?s"
    let ?th = "th\<lparr>th_raw := (if ?v \<noteq> [] then ?raw else th_raw th), th_encrypted := NewEncryptedReasoning (ri_encrypted it)\<rparr>"
    let ?s2 = "rt_tell (EvFill ?n (FillThinking ?th)) ?s1"
    have one: "item_grows it st (ThinkingNode (ss_finish ?v z) th) ?s1"
      using g0 unfolding ThinkingNode by (rule grows_tell) (simp add: n)
    have "finish_text ?n ?v ?s = ?s1"
      using t(2) found(2) ThinkingNode k(2) by (auto simp: finish_text_def stream_text_def)
    moreover have "rt_body ?s1 ?n = ThinkingNode (ss_finish ?v z) th"
      using one by (simp add: rt_body_def rt_next_def item_grows_def)
    ultimately have "finishItem it ?s = rt_tell (EvDone ?n) ?s2"
      using k(1) found(1) t(1) by (simp add: finishItem_def item_types on_thinking_def case_prod_unfold Let_def)
    moreover have "item_grows it st (ThinkingNode (ss_finish ?v z) ?th) ?s2"
      using one by (rule grows_tell) (simp add: n)
    then have "item_grows it st (finish_body (ThinkingNode (ss_finish ?v z) ?th)) (rt_tell (EvDone ?n) ?s2)"
      by (rule grows_tell) (simp add: n del: finish_simps)
    ultimately show ?thesis unfolding ev using k raws
      by (intro exI [of _ "finish_body (ThinkingNode (ss_finish ?v z) ?th)"]) (auto simp: responses_thinking_def)
  qed (use b in simp_all)
qed

lemma item_grows_all:
  assumes "item_streams x"
  shows "\<exists>b. item_grows (snd (snd x)) st b (rt_play js (item_events x) st) \<and> done_body (snd (snd x)) b"
proof -
  obtain stub ds it where x: "x = (stub, ds, it)" by (cases x) auto
  note s = assms [unfolded x]
  obtain b0 where b0: "item_grows it st b0 (snd (resp_event js [] (added_event stub) st))" "open_body it [] False b0"
    using added_grows [OF s] by blast
  have "ri_id it \<noteq> []" using s by (simp add: item_streams_def)
  from deltas_grow [OF b0 this, of js ds] obtain b1 raw where
    "item_grows it st b1 (rt_play js (map (item_delta it) ds) (snd (resp_event js [] (added_event stub) st)))"
    "open_body it (concat (map snd ds)) raw b1" "ds = [] \<longrightarrow> \<not> raw" by auto
  from done_grows [OF s this(1,2)] this(3) show ?thesis by (auto simp: x item_events_def)
qed

section \<open>All items\<close>

abbreviation whole_item :: "item_stream \<Rightarrow> respItem" where "whole_item x \<equiv> snd (snd x)"

definition is_call_item :: "respItem \<Rightarrow> bool" where "is_call_item it \<longleftrightarrow> ri_type it = respItemFuncCall"

lemma items_grow:
  "\<forall>x\<in>set xs. item_streams x \<Longrightarrow>
   \<exists>bs. let st' = rt_play js (concat (map item_events xs)) st in
     bodies (rt_out st') = bodies (rt_out st) @ bs \<and> list_all2 (\<lambda>x b. done_body (whole_item x) b) xs bs
     \<and> rt_nodes st' = rt_nodes st @ [rt_next st..<rt_next st + length bs]
     \<and> rt_haveCall st' = (rt_haveCall st \<or> (\<exists>x\<in>set xs. is_call_item (whole_item x))) \<and> same_ends st st'"
proof (induction xs arbitrary: st)
  case (Cons x xs)
  then have "item_streams x" by simp
  from item_grows_all [OF this, of st js] obtain b where
    one: "item_grows (whole_item x) st b (rt_play js (item_events x) st)" "done_body (whole_item x) b" by blast
  let ?st1 = "rt_play js (item_events x) st"
  from Cons.IH [of ?st1] Cons.prems obtain bs where
    bs: "let st' = rt_play js (concat (map item_events xs)) ?st1 in
     bodies (rt_out st') = bodies (rt_out ?st1) @ bs \<and> list_all2 (\<lambda>x b. done_body (whole_item x) b) xs bs
     \<and> rt_nodes st' = rt_nodes ?st1 @ [rt_next ?st1..<rt_next ?st1 + length bs]
     \<and> rt_haveCall st' = (rt_haveCall ?st1 \<or> (\<exists>x\<in>set xs. is_call_item (whole_item x))) \<and> same_ends ?st1 st'" by auto
  have st1: "bodies (rt_out ?st1) = bodies (rt_out st) @ [b]" "rt_nodes ?st1 = rt_nodes st @ [rt_next st]"
    "rt_next ?st1 = Suc (rt_next st)" "rt_haveCall ?st1 = (rt_haveCall st \<or> is_call_item (whole_item x))" "same_ends st ?st1"
    using one(1) by (simp_all add: item_grows_def rt_next_def is_call_item_def)
  have "rt_next st # [Suc (rt_next st)..<Suc (rt_next st) + length bs] = [rt_next st..<rt_next st + length (b # bs)]"
    by (simp add: upt_conv_Cons del: upt_Suc)
  then show ?case using one(2) bs st1 by (intro exI [of _ "b # bs"]) (auto simp: Let_def same_ends_def simp del: upt_Suc)
qed (simp add: same_ends_def Let_def)

text \<open>The parts a finished item leaves: empty text leaves none.\<close>

definition left_parts :: "respItem \<Rightarrow> Part list" where
  "left_parts it =
     (if ri_type it = respItemMessage then (if item_text it = [] then [] else [TextPart (item_text it)]) else item_parts it)"

lemma done_body_part: "done_body it b \<Longrightarrow> List.map_filter (\<lambda>b. partOf (finish_body b)) [b] = left_parts it"
  by (cases b)
    (auto simp: left_parts_def item_parts_def item_types respThinkingBlock_def map_filter_simps responses_thinking_def
      thinkingBlob_def NewEncryptedReasoning_def item_text_def case_prod_unfold Let_def)

lemma left_all:
  "list_all2 (\<lambda>x b. done_body (whole_item x) b) xs bs \<Longrightarrow>
   List.map_filter (\<lambda>b. partOf (finish_body b)) bs = concat (map (\<lambda>x. left_parts (whole_item x)) xs)"
proof (induction rule: list_all2_induct)
  case (Cons x xs b bs)
  have "List.map_filter (\<lambda>b. partOf (finish_body b)) (b # bs)
      = List.map_filter (\<lambda>b. partOf (finish_body b)) [b] @ List.map_filter (\<lambda>b. partOf (finish_body b)) bs"
    by (simp add: map_filter_simps split: option.split)
  then show ?case using done_body_part [OF Cons(1)] Cons(3) by simp
qed (simp add: map_filter_simps)

text \<open>What is read off the parts of the stream and off those of the plain answer is the same.\<close>

lemma left_views:
  assumes "item_streams x"
  shows "concat (map text_of_part (left_parts (whole_item x))) = concat (map text_of_part (item_parts (whole_item x)))"
    "concat (map thinking_of_part (left_parts (whole_item x))) = concat (map thinking_of_part (item_parts (whole_item x)))"
    "concat (map call_of_part (left_parts (whole_item x))) = concat (map call_of_part (item_parts (whole_item x)))"
proof -
  let ?it = "whole_item x"
  have "filter (\<lambda>c. rc_type c = respTextOutput) (ri_content ?it) = ri_content ?it" if "ri_type ?it = respItemMessage"
    using assms that by (auto simp: item_streams_def filter_id_conv split: prod.splits)
  moreover have "concat (map (\<lambda>c. text_of_part (TextPart (rc_text c))) cs) = concat (map rc_text cs)"
    "concat (map (\<lambda>c. thinking_of_part (TextPart (rc_text c))) cs) = []"
    "concat (map (\<lambda>c. call_of_part (TextPart (rc_text c))) cs) = []" for cs
    by (induction cs) simp_all
  ultimately show "concat (map text_of_part (left_parts ?it)) = concat (map text_of_part (item_parts ?it))"
    "concat (map thinking_of_part (left_parts ?it)) = concat (map thinking_of_part (item_parts ?it))"
    "concat (map call_of_part (left_parts ?it)) = concat (map call_of_part (item_parts ?it))"
    by (auto simp: left_parts_def item_parts_def item_text_def item_types comp_def)
qed

lemma views_of_items:
  assumes "\<forall>x\<in>set xs. item_streams x"
  shows "concat (map text_of_part (concat (map (\<lambda>x. left_parts (whole_item x)) xs))) = concat (map text_of_part (concat (map (\<lambda>x. item_parts (whole_item x)) xs)))"
    "concat (map thinking_of_part (concat (map (\<lambda>x. left_parts (whole_item x)) xs))) = concat (map thinking_of_part (concat (map (\<lambda>x. item_parts (whole_item x)) xs)))"
    "concat (map call_of_part (concat (map (\<lambda>x. left_parts (whole_item x)) xs))) = concat (map call_of_part (concat (map (\<lambda>x. item_parts (whole_item x)) xs)))"
  using assms by (induction xs) (simp_all add: left_views)

section \<open>Through the event stream\<close>

lemma lines_fold:
  assumes "\<And>out. err out = None"
  shows "sse_lines (resp_onData js err) None ls st
     = (None, foldl (\<lambda>st d. snd (resp_onData js err d st)) st (payload_list ls))"
proof (induction ls arbitrary: st)
  case (Cons l ls)
  have "fst (resp_onData js err d st) = None" for d
    using assms by (simp add: resp_onData_def case_prod_unfold Let_def split: option.split)
  then show ?case using Cons by (auto split: option.split prod.split) (metis fst_conv option.distinct(1))+
qed simp

lemma item_data_free: "e \<in> set (item_events x) \<Longrightarrow> resp_event js d e st = resp_event js [] e st"
  by (auto simp: item_events_def resp_event_defs split: prod.splits option.splits)

lemma items_fold:
  assumes "map (rj_decode js) ps = map Some evs" "\<forall>e\<in>set evs. \<exists>x. e \<in> set (item_events x)"
  shows "foldl (\<lambda>st d. snd (resp_onData js err d st)) st ps = rt_play js evs st"
  using assms
proof (induction ps arbitrary: evs st)
  case (Cons p ps)
  then obtain e es where e: "evs = e # es" "rj_decode js p = Some e" by (cases evs) auto
  with Cons.prems have "snd (resp_onData js err p st) = snd (resp_event js [] e st)"
    using item_data_free [of e _ js p st] by (auto simp: resp_onData_def case_prod_unfold Let_def)
  then show ?case using Cons e by simp
qed simp

definition completed_event :: "respResponse \<Rightarrow> respEvent" where
  "completed_event r = (plain_resp_event ''response.completed'')\<lparr>re_response := Some r\<rparr>"

section \<open>Properties\<close>

text \<open>
  C40. Streaming and not streaming agree: a Responses answer sent item by item, each announced, cut into
  deltas and closed, gives a completion with the text, the reasoning blocks, the calls, the stop reason
  and the usage figures that the same answer gives when it arrives as one JSON object.
\<close>

theorem responses_stream_as_plain:
  assumes "scan_err b = None" "\<And>out. err out = None" "\<forall>x\<in>set xs. item_streams x"
    and "map (rj_decode js) (payloads b) = map Some (concat (map item_events xs) @ [completed_event r])"
    and "rr_output r = map whole_item xs" "rr_status r \<noteq> ''failed''" "plain data = Inr (r, raw)"
  shows "\<exists>c cp. fst (resp_streamed js err b) = (Some c, None) \<and> parseResponsesObject plain data = Inr cp
    \<and> msg_content (cc_message c) = msg_content (cc_message cp) \<and> msg_thinking (cc_message c) = msg_thinking (cc_message cp)
    \<and> msg_calls (cc_message c) = msg_calls (cc_message cp) \<and> cc_stop c = cc_stop cp
    \<and> map (\<lambda>u. u\<lparr>u_raw := []\<rparr>) (cc_usages c) = map (\<lambda>u. u\<lparr>u_raw := []\<rparr>) (cc_usages cp)"
proof -
  let ?st = "rt_play js (concat (map item_events xs)) newRespStream"
  obtain bs where st: "bodies (rt_out ?st) = bs" "list_all2 (\<lambda>x b. done_body (whole_item x) b) xs bs"
      "rt_nodes ?st = [0..<length bs]" "rt_haveCall ?st = (\<exists>x\<in>set xs. is_call_item (whole_item x))"
      "rt_usages ?st = []" "rt_failure ?st = None"
    using items_grow [OF assms(3), of js newRespStream] by (auto simp: newRespStream_def rt_next_def same_ends_def Let_def)
  obtain ps d where ps: "payloads b = ps @ [d]" "map (rj_decode js) ps = map Some (concat (map item_events xs))"
      "rj_decode js d = Some (completed_event r)"
    using assms(4) by (cases "payloads b" rule: rev_cases) auto
  let ?fin = "snd (resp_event js d (completed_event r) ?st)"
  have "scanSSE b (resp_onData js err) newRespStream = (None, foldl (\<lambda>st d. snd (resp_onData js err d st)) newRespStream (payloads b))"
    using lines_fold [OF assms(2)] by (simp add: scanSSE_def assms(1) payloads_def)
  moreover have "foldl (\<lambda>st d. snd (resp_onData js err d st)) newRespStream ps = ?st"
    using ps(2) by (rule items_fold) auto
  ultimately have run: "scanSSE b (resp_onData js err) newRespStream = (None, ?fin)"
    using ps(1,3) by (simp add: resp_onData_def case_prod_unfold Let_def)
  have fin: "bodies (rt_out ?fin) = bs" "rt_nodes ?fin = [0..<length bs]" "rt_failure ?fin = None"
    "rt_stop ?fin = respStopReason r (rt_haveCall ?st)"
    "rt_usages ?fin = (case rr_usage r of None \<Rightarrow> []
       | Some ru \<Rightarrow> [(resp_toUsage ru)\<lparr>u_raw := rj_usage js d, u_reasoning := resp_reasoningTokens ru\<rparr>])"
    using st by (simp_all add: resp_event_def completed_event_def plain_resp_event_def finishResponse_def rt_saw_def rt_tell_def
        Let_def split: option.split)
  let ?c = "resp_completion ?fin"
  have stop: "respStopReason r h \<noteq> []" for h
    by (simp add: respStopReason_def respStopFromShape_def StopToolUse_def StopEndTurn_def StopMaxTokens_def split: option.split)
  have parts: "List.map_filter (\<lambda>n. partOf (n_body n)) (map (\<lambda>i. new_node (finish_body (bodies (rt_out ?fin) ! i))) [0..<length bs])
      = concat (map (\<lambda>x. left_parts (whole_item x)) xs)"
  proof -
    have "map (\<lambda>i. new_node (finish_body (bodies (rt_out ?fin) ! i))) [0..<length bs] = map (\<lambda>b. new_node (finish_body b)) bs"
      unfolding fin(1) by (intro nth_equalityI) simp_all
    then show ?thesis using left_all [OF st(2)]
      by (simp add: map_filter_map [of partOf n_body] comp_def new_node_def) (simp add: List.map_filter_def comp_def filter_map)
  qed
  let ?ip = "concat (map (\<lambda>x. item_parts (whole_item x)) xs)"
  have m: "cc_message ?c = NewMessage RoleAssistant (concat (map (\<lambda>x. left_parts (whole_item x)) xs))"
    by (simp add: resp_completion_def message_of_def MessageFromNodes_def fin(2) parts)
  have calls: "rt_haveCall ?st = (\<exists>it\<in>set (rr_output r). ri_type it = respItemFuncCall)"
    unfolding st(4) assms(5) by (auto simp: is_call_item_def)
  have "parseResponsesObject plain data = Inr \<lparr>cc_message = NewMessage RoleAssistant ?ip,
      cc_usages = (case rr_usage r of None \<Rightarrow> []
        | Some u \<Rightarrow> [(resp_toUsage u)\<lparr>u_reasoning := resp_reasoningTokens u, u_raw := raw\<rparr>]),
      cc_streamed = False, cc_stop = respStopReason r (rt_haveCall ?st), cc_model = [], cc_routed = []\<rparr>"
    unfolding calls using assms(5-7) by (simp add: parseResponsesObject_def NewMessage_def comp_def)
  moreover have "fst (resp_streamed js err b) = (Some ?c, None)"
    using run fin(3) by (simp add: resp_streamed_def)
  moreover have "cc_stop ?c = respStopReason r (rt_haveCall ?st)" "cc_usages ?c = rt_usages ?fin"
    using stop fin(4) by (simp_all add: resp_completion_def)
  ultimately show ?thesis using m views_of_items [OF assms(3)] fin(5)
    by (auto split: option.split)
qed

text \<open>An answer that thinks, speaks and calls a tool, each event a payload of one letter.\<close>

definition item_head :: "respItem \<Rightarrow> respItem" where
  "item_head it = (blank_item (ri_type it))\<lparr>ri_id := ri_id it\<rparr>"

definition spoken_items :: "item_stream list" where
  "spoken_items =
     (let th = (blank_item respItemReasoning)\<lparr>ri_id := ''r'', ri_summary := Some [resp_text respTextSummary ''hm''], ri_encrypted := ''e''\<rparr>;
          ms = (blank_item respItemMessage)\<lparr>ri_id := ''m'', ri_content := [resp_text respTextOutput ''Hey'']\<rparr>;
          ca = (blank_item respItemFuncCall)\<lparr>ri_id := ''f'', ri_callID := ''c1'', ri_name := ''read'', ri_args := ''{}''\<rparr>
      in [(item_head th, [(False, ''h'')], th), (item_head ms, [(False, ''He''), (False, ''y'')], ms), (item_head ca, [(False, ''{'')], ca)])"

definition spoken_response :: respResponse where
  "spoken_response = \<lparr>rr_status = ''completed'', rr_output = map whole_item spoken_items, rr_usage = None, rr_incomplete = None, rr_error = None\<rparr>"

definition spoken_script :: "respEvent list" where
  "spoken_script = concat (map item_events spoken_items) @ [completed_event spoken_response]"

definition spoken_json :: resp_json where
  "spoken_json = \<lparr>rj_decode = map_of (zip (map (\<lambda>c. [c]) ''abcdefghijk'') spoken_script), rj_usage = id\<rparr>"

lemma spoken_decodes: "map (rj_decode spoken_json) (payloads shown_body) = map Some spoken_script"
proof -
  have "length spoken_script = 11"
    by (simp add: spoken_script_def spoken_items_def item_events_def Let_def)
  then have "map (map_of (zip (map (\<lambda>c. [c]) ''abcdefghijk'') spoken_script)) (map (\<lambda>c. [c]) ''abcdefghijk'') = map Some spoken_script"
    by (intro lookup_zip) simp_all
  then show ?thesis by (simp only: shown_payloads spoken_json_def resp_json.simps)
qed

theorem responses_stream_as_plain_witness:
  "\<exists>c. fst (resp_streamed spoken_json (\<lambda>_. None) shown_body) = (Some c, None) \<and> msg_content (cc_message c) = ''Hey''
     \<and> map tb_text (msg_thinking (cc_message c)) = [''hm''] \<and> map tc_name (msg_calls (cc_message c)) = [''read''] \<and> cc_stop c = StopToolUse"
proof -
  have ok: "\<forall>x\<in>set spoken_items. item_streams x"
    by (simp add: spoken_items_def item_streams_def item_head_def blank_item_def resp_text_def item_types item_text_def
        item_reasoningText_def Let_def respTextOutput_def)
  have e: "scan_err shown_body = None"
    by (simp add: scan_err_def shown_lines maxLine_def) (simp add: shown_body_def)
  have d: "map (rj_decode spoken_json) (payloads shown_body)
      = map Some (concat (map item_events spoken_items) @ [completed_event spoken_response])"
    using spoken_decodes by (simp add: spoken_script_def)
  have r: "rr_output spoken_response = map whole_item spoken_items" "rr_status spoken_response \<noteq> ''failed''"
    by (simp_all add: spoken_response_def)
  obtain c cp where c: "fst (resp_streamed spoken_json (\<lambda>_. None) shown_body) = (Some c, None)"
      "parseResponsesObject (\<lambda>_. Inr (spoken_response, [])) [] = Inr cp"
      "msg_content (cc_message c) = msg_content (cc_message cp)" "msg_thinking (cc_message c) = msg_thinking (cc_message cp)"
      "msg_calls (cc_message c) = msg_calls (cc_message cp)" "cc_stop c = cc_stop cp"
    using responses_stream_as_plain [OF e _ ok d r, where err = "\<lambda>_. None" and plain = "\<lambda>_. Inr (spoken_response, [])" and data = "[]" and raw = "[]"]
    by auto
  moreover have "case parseResponsesObject (\<lambda>_. Inr (spoken_response, [])) [] of Inl _ \<Rightarrow> False
     | Inr cp \<Rightarrow> msg_content (cc_message cp) = ''Hey'' \<and> map tb_text (msg_thinking (cc_message cp)) = [''hm'']
         \<and> map tc_name (msg_calls (cc_message cp)) = [''read''] \<and> cc_stop cp = StopToolUse"
    by code_simp
  ultimately show ?thesis by auto
qed

end
