(* ===== verification/ResourceWatch.thy ===== *)
theory ResourceWatch
  imports Resources VfsRender Sse "HOL-Library.AList"
begin

text \<open>
  Watching resources (\<open>resources/resource_watch.go\<close>, \<open>resources/resource_record.go\<close>): a pass lists and
  reads every source, compares with the stored snapshots and records each difference. The sources and
  the store are records of functions over a world. \<open>strconv.Quote\<close> and the hex SHA-256 of a byte string
  are parameters, and so are the order in which concurrent reads reach a source and the order in which
  Go walks a map. \<open>sort.Slice\<close> is modelled as a stable sort; it only orders entries of equal keys
  otherwise.
\<close>

section \<open>Data\<close>

definition ResourceModified :: string where "ResourceModified = ''modified''"
definition ResourceRemoved :: string where "ResourceRemoved = ''removed''"

definition DefaultResourceMax :: int where "DefaultResourceMax = 64"
definition DefaultResourceMaxBytes :: int where "DefaultResourceMaxBytes = 256 * 1024"

record Resource =
  rs_uri :: string
  rs_name :: string
  rs_title :: string
  rs_mime :: string

definition resource_label :: "Resource \<Rightarrow> string" where
  "resource_label r =
     (if trim_space (rs_title r) \<noteq> [] then rs_title r
      else if trim_space (rs_name r) \<noteq> [] then rs_name r
      else rs_uri r)"

record ResourceContent =
  ct_text :: string
  ct_blob :: string
  ct_mime :: string

record 'w ResourceSource =
  so_id :: string
  so_name :: string
  so_list :: "int \<Rightarrow> 'w \<Rightarrow> (go_error + Resource list \<times> bool) \<times> 'w"
  so_read :: "string \<Rightarrow> 'w \<Rightarrow> (go_error + ResourceContent list) \<times> 'w"

record ResourceSnapshot =
  sn_source :: string
  sn_uri :: string
  sn_label :: string
  sn_mime :: string
  sn_hash :: string
  sn_content :: string
  sn_bytes :: int
  sn_binary :: bool
  sn_truncated :: bool

record ResourceChangeRecord =
  cr_source :: string
  cr_sourceName :: string
  cr_uri :: string
  cr_label :: string
  cr_mime :: string
  cr_kind :: string
  cr_before :: string
  cr_after :: string
  cr_beforeHash :: string
  cr_afterHash :: string
  cr_beforeBytes :: int
  cr_afterBytes :: int
  cr_binary :: bool
  cr_truncated :: bool

record 'w ResourceSnapshots =
  st_list :: "'w \<Rightarrow> (go_error + ResourceSnapshot list) \<times> 'w"
  st_put :: "ResourceSnapshot \<Rightarrow> 'w \<Rightarrow> go_error option \<times> 'w"
  st_delete :: "string \<Rightarrow> string \<Rightarrow> 'w \<Rightarrow> go_error option \<times> 'w"
  st_record :: "ResourceChangeRecord \<Rightarrow> 'w \<Rightarrow> (go_error + string) \<times> 'w"

record 'w ResourceWatchConfig =
  wc_sources :: "'w ResourceSource option list"
  wc_snapshots :: "'w ResourceSnapshots option"
  wc_maxResources :: int
  wc_maxBytes :: int

record 'w resourceWatcher =
  rw_sources :: "'w ResourceSource list"
  rw_snapshots :: "'w ResourceSnapshots"
  rw_maxResources :: int
  rw_maxBytes :: int

definition NewResourceWatcher :: "'w ResourceWatchConfig \<Rightarrow> 'w resourceWatcher option" where
  "NewResourceWatcher cfg =
     (let sources = List.map_filter id (wc_sources cfg) in
      case wc_snapshots cfg of
        None \<Rightarrow> None
      | Some store \<Rightarrow>
          if sources = [] then None
          else Some \<lparr>rw_sources = sources, rw_snapshots = store,
                 rw_maxResources = (if wc_maxResources cfg \<le> 0 then DefaultResourceMax else wc_maxResources cfg),
                 rw_maxBytes = (if wc_maxBytes cfg \<le> 0 then DefaultResourceMaxBytes else wc_maxBytes cfg)\<rparr>)"

record watch_env =
  we_quote :: "string \<Rightarrow> string"
  we_sha :: "string \<Rightarrow> string"
  we_reads :: "Resource list \<Rightarrow> Resource list"
  we_walk :: "ResourceSnapshot list \<Rightarrow> ResourceSnapshot list"

section \<open>What a read gives\<close>

record watch_capture =
  cp_source :: string
  cp_sourceName :: string
  cp_uri :: string
  cp_label :: string
  cp_mime :: string
  cp_content :: string
  cp_hash :: string
  cp_bytes :: int
  cp_binary :: bool
  cp_truncated :: bool

record watch_warning =
  wn_source :: string
  wn_text :: string

definition snapshotKey :: "string \<Rightarrow> string \<Rightarrow> string" where
  "snapshotKey src uri = src @ [CHR 0x00] @ uri"

definition approxBlobBytes :: "string \<Rightarrow> int" where
  "approxBlobBytes b64 = int (length (trim_right (CHR ''='') b64)) * 3 div 4"

definition capText :: "string \<Rightarrow> int \<Rightarrow> string \<times> bool" where
  "capText s cap = (if int (length s) \<le> cap then (s, False) else (trim_invalid 3 (take (nat cap) s), True))"

text \<open>The loop over the blocks; the hashed bytes and the text are built beside the capture.\<close>

fun capture_part :: "ResourceContent \<Rightarrow> watch_capture \<times> string \<times> string \<Rightarrow> watch_capture \<times> string \<times> string" where
  "capture_part part (c, hashed, txt) =
     (let c = (if ct_mime part \<noteq> [] \<and> cp_mime c = [] then c\<lparr>cp_mime := ct_mime part\<rparr> else c)
      in if ct_blob part \<noteq> [] then
           (c\<lparr>cp_binary := True, cp_bytes := cp_bytes c + approxBlobBytes (ct_blob part)\<rparr>, hashed @ ct_blob part, txt)
         else
           (c\<lparr>cp_bytes := cp_bytes c + int (length (ct_text part))\<rparr>, hashed @ ct_text part,
            (if txt \<noteq> [] then txt @ [NL] else txt) @ ct_text part))"

definition capture :: "watch_env \<Rightarrow> 'w resourceWatcher \<Rightarrow> 'w ResourceSource \<Rightarrow> Resource \<Rightarrow> ResourceContent list \<Rightarrow> watch_capture" where
  "capture env rw src res contents =
     (let c = \<lparr>cp_source = so_id src, cp_sourceName = so_name src, cp_uri = rs_uri res, cp_label = resource_label res,
            cp_mime = rs_mime res, cp_content = [], cp_hash = [], cp_bytes = 0, cp_binary = False, cp_truncated = False\<rparr>;
          (c, hashed, txt) = fold capture_part contents (c, [], []);
          c = c\<lparr>cp_hash := we_sha env hashed\<rparr>
      in if cp_binary c then c
         else (let (content, cut_off) = capText txt (rw_maxBytes rw) in c\<lparr>cp_content := content, cp_truncated := cut_off\<rparr>))"

section \<open>Reading every source\<close>

definition unlisted_text :: "watch_env \<Rightarrow> string \<Rightarrow> go_error \<Rightarrow> string" where
  "unlisted_text env name e =
     ''server '' @ we_quote env name @ '' could not be listed ('' @ error_text e @ ''), so its resources were not checked''"

definition cut_text :: "watch_env \<Rightarrow> string \<Rightarrow> int \<Rightarrow> string" where
  "cut_text env name n =
     ''server '' @ we_quote env name @ '' advertises more than '' @ itoa n @ '' resources; only the first '' @ itoa n
       @ '' are watched and the rest are unmonitored''"

definition unread_text :: "watch_env \<Rightarrow> string \<Rightarrow> string \<Rightarrow> go_error \<Rightarrow> string" where
  "unread_text env name uri e =
     ''resource '' @ uri @ '' on server '' @ we_quote env name @ '' could not be read ('' @ error_text e
       @ ''), so its state is unknown''"

type_synonym reads = "watch_capture list \<times> watch_warning list"

definition read_one :: "watch_env \<Rightarrow> 'w resourceWatcher \<Rightarrow> 'w ResourceSource \<Rightarrow> Resource \<Rightarrow> reads \<times> 'w \<Rightarrow> reads \<times> 'w" where
  "read_one env rw src res acc =
     (let ((cs, ws), w) = acc; (r, w) = so_read src (rs_uri res) w
      in case r of
           Inl e \<Rightarrow> ((cs, ws @ [\<lparr>wn_source = so_id src, wn_text = unread_text env (so_name src) (rs_uri res) e\<rparr>]), w)
         | Inr contents \<Rightarrow> ((cs @ [capture env rw src res contents], ws), w))"

definition read_source :: "watch_env \<Rightarrow> 'w resourceWatcher \<Rightarrow> 'w ResourceSource \<Rightarrow> reads \<times> 'w \<Rightarrow> reads \<times> 'w" where
  "read_source env rw src acc =
     (let ((cs, ws), w) = acc; (r, w) = so_list src (rw_maxResources rw) w
      in case r of
           Inl e \<Rightarrow> ((cs, ws @ [\<lparr>wn_source = so_id src, wn_text = unlisted_text env (so_name src) e\<rparr>]), w)
         | Inr (rs, more_there) \<Rightarrow>
             fold (read_one env rw src) (we_reads env rs)
               ((cs, if more_there
                     then ws @ [\<lparr>wn_source = so_id src, wn_text = cut_text env (so_name src) (rw_maxResources rw)\<rparr>] else ws), w))"

fun put_in_order :: "('a \<Rightarrow> 'a \<Rightarrow> bool) \<Rightarrow> 'a \<Rightarrow> 'a list \<Rightarrow> 'a list" where
  "put_in_order lt x [] = [x]"
| "put_in_order lt x (y # ys) = (if lt y x then y # put_in_order lt x ys else x # y # ys)"

definition sort_slice :: "('a \<Rightarrow> 'a \<Rightarrow> bool) \<Rightarrow> 'a list \<Rightarrow> 'a list" where
  "sort_slice lt xs = foldr (put_in_order lt) xs []"

definition capture_less :: "watch_capture \<Rightarrow> watch_capture \<Rightarrow> bool" where
  "capture_less a b =
     (if cp_source a \<noteq> cp_source b then str_less (cp_source a) (cp_source b) else str_less (cp_uri a) (cp_uri b))"

definition readAll :: "watch_env \<Rightarrow> 'w resourceWatcher \<Rightarrow> 'w \<Rightarrow> reads \<times> 'w" where
  "readAll env rw w =
     (let ((cs, ws), w) = fold (read_source env rw) (rw_sources rw) (([], []), w) in ((sort_slice capture_less cs, ws), w))"

section \<open>Recording a difference\<close>

definition summarizeResourceChange :: "string \<Rightarrow> string \<Rightarrow> string \<Rightarrow> int \<Rightarrow> int \<Rightarrow> bool \<Rightarrow> string" where
  "summarizeResourceChange kind before after beforeBytes afterBytes binary =
     (if binary then
        (if kind = ResourceAdded then ''binary, '' @ HumanSize afterBytes
         else ''binary, '' @ HumanSize beforeBytes @ '' -> '' @ HumanSize afterBytes @ '' (content not captured)'')
      else if kind = ResourceAdded then HumanSize afterBytes @ '', '' @ Plural (int (CountLines after)) ''line'' ''lines''
      else (let (added, removed) = CountLineChanges before after
            in HumanSize beforeBytes @ '' -> '' @ HumanSize afterBytes @ '', +'' @ itoa (int added) @ '' -'' @ itoa (int removed) @ '' lines''))"

definition captureNote :: "bool \<Rightarrow> bool \<Rightarrow> int \<Rightarrow> string" where
  "captureNote binary truncated maxBytes =
     (if binary then ''binary content is watched by hash and size only; the diff reports that it changed, not how''
      else if truncated then
        ''the captured content was cut at '' @ HumanSize maxBytes @ '', so the diff covers only the first ''
          @ HumanSize maxBytes @ '' of this resource''
      else [])"

definition capture_record :: "string \<Rightarrow> watch_capture \<Rightarrow> ResourceSnapshot option \<Rightarrow> ResourceChangeRecord" where
  "capture_record kind c before =
     \<lparr>cr_source = cp_source c, cr_sourceName = cp_sourceName c, cr_uri = cp_uri c, cr_label = cp_label c,
      cr_mime = cp_mime c, cr_kind = kind,
      cr_before = (case before of None \<Rightarrow> [] | Some b \<Rightarrow> sn_content b), cr_after = cp_content c,
      cr_beforeHash = (case before of None \<Rightarrow> [] | Some b \<Rightarrow> sn_hash b), cr_afterHash = cp_hash c,
      cr_beforeBytes = (case before of None \<Rightarrow> 0 | Some b \<Rightarrow> sn_bytes b), cr_afterBytes = cp_bytes c,
      cr_binary = cp_binary c,
      cr_truncated = (cp_truncated c \<or> (case before of None \<Rightarrow> False | Some b \<Rightarrow> sn_truncated b))\<rparr>"

definition capture_snapshot :: "watch_capture \<Rightarrow> ResourceSnapshot" where
  "capture_snapshot c =
     \<lparr>sn_source = cp_source c, sn_uri = cp_uri c, sn_label = cp_label c, sn_mime = cp_mime c, sn_hash = cp_hash c,
      sn_content = cp_content c, sn_bytes = cp_bytes c, sn_binary = cp_binary c, sn_truncated = cp_truncated c\<rparr>"

definition record_change :: "'w resourceWatcher \<Rightarrow> string \<Rightarrow> watch_capture \<Rightarrow> ResourceSnapshot option \<Rightarrow> 'w
    \<Rightarrow> (go_error + ResourceChange) \<times> 'w" where
  "record_change rw kind c before w =
     (let rec = capture_record kind c before; (r, w) = st_record (rw_snapshots rw) rec w
      in case r of
           Inl e \<Rightarrow> (Inl (Wrapped ''recording a resource change: '' e), w)
         | Inr cid \<Rightarrow>
             (let (err, w) = st_put (rw_snapshots rw) (capture_snapshot c) w
              in case err of
                   Some e \<Rightarrow> (Inl (Wrapped ''updating a watched resource: '' e), w)
                 | None \<Rightarrow>
                     (Inr \<lparr>rc_id = cid, rc_server = cp_sourceName c, rc_uri = cp_uri c, rc_label = cp_label c, rc_kind = kind,
                        rc_summary = summarizeResourceChange kind (cr_before rec) (cp_content c) (cr_beforeBytes rec) (cp_bytes c) (cp_binary c),
                        rc_note = captureNote (cp_binary c) (cp_truncated c) (rw_maxBytes rw)\<rparr>, w)))"

definition sourceName :: "'w resourceWatcher \<Rightarrow> string \<Rightarrow> string" where
  "sourceName rw i = (case find (\<lambda>s. so_id s = i) (rw_sources rw) of Some s \<Rightarrow> so_name s | None \<Rightarrow> i)"

definition removal_record :: "string \<Rightarrow> ResourceSnapshot \<Rightarrow> ResourceChangeRecord" where
  "removal_record name before =
     \<lparr>cr_source = sn_source before, cr_sourceName = name, cr_uri = sn_uri before, cr_label = sn_label before,
      cr_mime = sn_mime before, cr_kind = ResourceRemoved, cr_before = sn_content before, cr_after = [],
      cr_beforeHash = sn_hash before, cr_afterHash = [], cr_beforeBytes = sn_bytes before, cr_afterBytes = 0,
      cr_binary = sn_binary before, cr_truncated = sn_truncated before\<rparr>"

definition recordRemoval :: "'w resourceWatcher \<Rightarrow> ResourceSnapshot \<Rightarrow> 'w \<Rightarrow> (go_error + ResourceChange) \<times> 'w" where
  "recordRemoval rw before w =
     (let name = sourceName rw (sn_source before);
          (r, w) = st_record (rw_snapshots rw) (removal_record name before) w
      in case r of
           Inl e \<Rightarrow> (Inl (Wrapped ''recording a resource removal: '' e), w)
         | Inr cid \<Rightarrow>
             (let (err, w) = st_delete (rw_snapshots rw) (sn_source before) (sn_uri before) w
              in case err of
                   Some e \<Rightarrow> (Inl (Wrapped ''dropping a watched resource: '' e), w)
                 | None \<Rightarrow>
                     (Inr \<lparr>rc_id = cid, rc_server = name, rc_uri = sn_uri before, rc_label = sn_label before,
                        rc_kind = ResourceRemoved,
                        rc_summary = ''no longer advertised (was '' @ HumanSize (sn_bytes before) @ '')'', rc_note = []\<rparr>, w)))"

section \<open>A pass\<close>

text \<open>The warnings not delivered by the last pass, in order, and the ones to remember.\<close>

definition newWarnings :: "string set \<Rightarrow> watch_warning list \<Rightarrow> string list \<times> string set" where
  "newWarnings warned ws =
     (sort_slice str_less (filter (\<lambda>t. t \<notin> warned) (map wn_text ws)), set (map wn_text ws))"

definition sourceFailed :: "string \<Rightarrow> watch_warning list \<Rightarrow> bool" where
  "sourceFailed i ws = list_ex (\<lambda>x. wn_source x = i) ws"

definition capture_key :: "watch_capture \<Rightarrow> string" where
  "capture_key c = snapshotKey (cp_source c) (cp_uri c)"

definition snap_key :: "ResourceSnapshot \<Rightarrow> string" where
  "snap_key s = snapshotKey (sn_source s) (sn_uri s)"

definition by_key :: "ResourceSnapshot list \<Rightarrow> (string \<times> ResourceSnapshot) list" where
  "by_key = foldl (\<lambda>m s. AList.update (snap_key s) s m) []"

definition changed_since :: "(string \<times> ResourceSnapshot) list \<Rightarrow> watch_capture \<Rightarrow> bool" where
  "changed_since prev c =
     (case map_of prev (capture_key c) of None \<Rightarrow> True | Some before \<Rightarrow> sn_hash before \<noteq> cp_hash c)"

definition change_kind :: "(string \<times> ResourceSnapshot) list \<Rightarrow> watch_capture \<Rightarrow> string" where
  "change_kind prev c = (if map_of prev (capture_key c) = None then ResourceAdded else ResourceModified)"

type_synonym 'w recorded = "(ResourceChange list \<times> go_error option) \<times> 'w"

primrec record_captures :: "'w resourceWatcher \<Rightarrow> (string \<times> ResourceSnapshot) list \<Rightarrow> watch_capture list
    \<Rightarrow> ResourceChange list \<Rightarrow> 'w \<Rightarrow> 'w recorded" where
  "record_captures rw prev [] chs w = ((chs, None), w)"
| "record_captures rw prev (c # cs) chs w =
     (if \<not> changed_since prev c then record_captures rw prev cs chs w
      else (let (r, w) = record_change rw (change_kind prev c) c (map_of prev (capture_key c)) w
            in case r of
                 Inl e \<Rightarrow> ((chs, Some e), w)
               | Inr ch \<Rightarrow> record_captures rw prev cs (chs @ [ch]) w))"

definition still_there :: "watch_capture list \<Rightarrow> watch_warning list \<Rightarrow> ResourceSnapshot \<Rightarrow> bool" where
  "still_there cs ws s \<longleftrightarrow> snap_key s \<in> set (map capture_key cs) \<or> sourceFailed (sn_source s) ws"

primrec record_removals :: "'w resourceWatcher \<Rightarrow> watch_capture list \<Rightarrow> watch_warning list \<Rightarrow> ResourceSnapshot list
    \<Rightarrow> ResourceChange list \<Rightarrow> 'w \<Rightarrow> 'w recorded" where
  "record_removals rw cs ws [] chs w = ((chs, None), w)"
| "record_removals rw cs ws (s # ss) chs w =
     (if still_there cs ws s then record_removals rw cs ws ss chs w
      else (let (r, w) = recordRemoval rw s w
            in case r of
                 Inl e \<Rightarrow> ((chs, Some e), w)
               | Inr ch \<Rightarrow> record_removals rw cs ws ss (chs @ [ch]) w))"

definition change_less :: "ResourceChange \<Rightarrow> ResourceChange \<Rightarrow> bool" where
  "change_less a b =
     (if rc_server a \<noteq> rc_server b then str_less (rc_server a) (rc_server b) else str_less (rc_uri a) (rc_uri b))"

definition Poll :: "watch_env \<Rightarrow> 'w resourceWatcher \<Rightarrow> string set \<Rightarrow> 'w
    \<Rightarrow> ((ResourcePoll \<times> go_error option) \<times> string set) \<times> 'w" where
  "Poll env rw warned w =
     (let (r, w) = st_list (rw_snapshots rw) w
      in case r of
           Inl e \<Rightarrow> (((\<lparr>rp_changes = [], rp_warnings = [], rp_baseline = False\<rparr>, Some (Wrapped ''reading watched resources: '' e)), warned), w)
         | Inr stored \<Rightarrow>
             (let prev = by_key stored;
                  ((cs, ws), w) = readAll env rw w;
                  (fresh, warned) = newWarnings warned ws;
                  poll = (\<lambda>chs. \<lparr>rp_changes = chs, rp_warnings = fresh, rp_baseline = (stored = [])\<rparr>);
                  ((chs, err), w) = record_captures rw prev cs [] w
              in case err of
                   Some e \<Rightarrow> (((poll chs, Some e), warned), w)
                 | None \<Rightarrow>
                     (let ((chs, err), w) = record_removals rw cs ws (we_walk env (map snd prev)) chs w
                      in case err of
                           Some e \<Rightarrow> (((poll chs, Some e), warned), w)
                         | None \<Rightarrow> (((poll (sort_slice change_less chs), None), warned), w))))"

end
