(* ===== verification/ResourceDiff.thy ===== *)
theory ResourceDiff
  imports ResourceWatch Tools
begin

text \<open>
  The tool that shows a recorded change (\<open>resources/resource_diff.go\<close>). The host's change log is a
  record of functions over a world; decoding arguments, \<open>strconv.Quote\<close> and the embedded schema are
  parameters.
\<close>

definition ResourceDiffToolName :: string where "ResourceDiffToolName = ''mcp_resource_diff''"

definition resourceDiffDescription :: string where
  "resourceDiffDescription =
     ''Shows exactly what changed in a watched MCP resource. ''
     @ ''The host re-reads this conversation'' @ [CHR 0x27] @ ''s MCP resources between turns and announces each change with a change_id; ''
     @ ''pass one here to get the unified diff of that specific change, exactly as the host captured it. ''
     @ ''An id keeps resolving to the same before/after for the whole conversation, no matter how many times the ''
     @ ''resource has changed since, so there is no need to fetch a diff before you need it. ''
     @ ''For a resource that was just added, this returns its contents.''"

definition resourceDiffRecentLimit :: int where "resourceDiffRecentLimit = 20"

record resourceDiffArgs =
  da_changeID :: string
  da_full :: bool

definition ErrNoResourceChange :: go_error where
  "ErrNoResourceChange = ErrorNew ''agentic: no such resource change''"

record StoredResourceChange = ResourceChangeRecord +
  sc_id :: string
  sc_capturedAt :: string

record 'w ResourceChanges =
  gc_get :: "string \<Rightarrow> 'w \<Rightarrow> (go_error + StoredResourceChange) \<times> 'w"
  gc_recent :: "int \<Rightarrow> 'w \<Rightarrow> (go_error + StoredResourceChange list) \<times> 'w"

definition resource_diff_decl :: "string \<Rightarrow> ToolDecl" where
  "resource_diff_decl schema =
     \<lparr>decl_name = ResourceDiffToolName, decl_description = resourceDiffDescription, decl_schema = schema,
      decl_readonly = True, decl_destructive = None, decl_idempotent = False, decl_openWorld = None, decl_unvouched = False\<rparr>"

definition contentOrEmpty :: "string \<Rightarrow> string" where
  "contentOrEmpty s = (if s = [] then ''(the resource is empty)'' else s)"

definition shortHash :: "string \<Rightarrow> string" where
  "shortHash h = (if h = [] then ''(none)'' else if length h > 12 then take 12 h else h)"

section \<open>The answer\<close>

definition change_head :: "(string \<Rightarrow> string) \<Rightarrow> StoredResourceChange \<Rightarrow> string" where
  "change_head quote c =
     cr_kind c @ '': '' @ cr_uri c
     @ (if cr_label c \<noteq> [] \<and> cr_label c \<noteq> cr_uri c then '' ('' @ cr_label c @ '')'' else [])
     @ (if cr_sourceName c \<noteq> [] then '' on server '' @ quote (cr_sourceName c) else [])
     @ (if cr_mime c \<noteq> [] then [NL] @ ''media type: '' @ cr_mime c else [])
     @ (if sc_capturedAt c \<noteq> [] then [NL] @ ''captured at: '' @ sc_capturedAt c else [])"

definition binary_body :: "StoredResourceChange \<Rightarrow> string" where
  "binary_body c =
     [NL, NL] @ ''This resource is binary, so its content is watched by hash and size only.''
     @ [NL] @ ''size: '' @ HumanSize (cr_beforeBytes c) @ '' -> '' @ HumanSize (cr_afterBytes c)
     @ [NL] @ ''sha256: '' @ shortHash (cr_beforeHash c) @ '' -> '' @ shortHash (cr_afterHash c)
     @ [NL, NL] @ ''What changed inside it is not recoverable from here. Read it with the server''
     @ [CHR 0x27] @ ''s own tools if the contents matter.''"

definition truncated_note :: string where
  "truncated_note =
     [NL, NL] @ ''NOTE: the captured content was cut at the host'' @ [CHR 0x27] @ ''s per-resource cap, so''
     @ '' everything below covers only the beginning of this resource. A change past the cut''
     @ '' is not visible here and was not detected as a change either.''"

definition same_text_note :: string where
  "same_text_note =
     [NL, NL] @ ''The resource'' @ [CHR 0x27] @ ''s hash changed but the captured text is identical''
     @ '' (a whitespace-only edit, or a change past the capture cut).''"

definition change_body :: "StoredResourceChange \<Rightarrow> bool \<Rightarrow> string" where
  "change_body c full =
     (if full then
        [NL, NL] @ ''Full captured content ('' @ HumanSize (cr_afterBytes c) @ ''):'' @ [NL, NL] @ contentOrEmpty (cr_after c)
      else if cr_kind c = ResourceAdded then
        [NL, NL] @ ''This resource is newly available. Its contents ('' @ HumanSize (cr_afterBytes c) @ ''):'' @ [NL, NL]
          @ contentOrEmpty (cr_after c)
      else if cr_kind c = ResourceRemoved then
        [NL, NL] @ ''This resource is no longer advertised by its server. Its last known contents (''
          @ HumanSize (cr_beforeBytes c) @ ''):'' @ [NL, NL] @ contentOrEmpty (cr_before c)
      else
        (let diff = unifiedDiff (''before/'' @ cr_uri c) (''after/'' @ cr_uri c) (cr_before c) (cr_after c)
         in if diff = [] then same_text_note
            else [NL, NL] @ ''size: '' @ HumanSize (cr_beforeBytes c) @ '' -> '' @ HumanSize (cr_afterBytes c) @ [NL, NL] @ diff))"

definition RenderResourceChange :: "(string \<Rightarrow> string) \<Rightarrow> StoredResourceChange \<Rightarrow> bool \<Rightarrow> string" where
  "RenderResourceChange quote c full =
     change_head quote c
     @ (if cr_binary c then binary_body c
        else (if cr_truncated c then truncated_note else []) @ change_body c full)"

section \<open>The tool\<close>

definition recentIDs :: "(string \<Rightarrow> string) \<Rightarrow> 'w ResourceChanges \<Rightarrow> 'w \<Rightarrow> string \<times> 'w" where
  "recentIDs quote g w =
     (let (r, w) = gc_recent g resourceDiffRecentLimit w
      in (case r of
            Inl e \<Rightarrow> ''The recent change ids could not be listed: '' @ error_text e
          | Inr rows \<Rightarrow>
              if rows = [] then ''No resource changes have been recorded in this conversation yet.''
              else ''The most recent recorded changes are:''
                @ concat (map (\<lambda>r. [NL] @ ''- '' @ sc_id r @ ''  '' @ cr_kind r @ '' '' @ cr_uri r
                    @ (if cr_sourceName r \<noteq> [] then '' (server '' @ quote (cr_sourceName r) @ '')'' else [])) rows), w))"

definition resource_diff_execute :: "(string \<Rightarrow> string) \<Rightarrow> (string \<Rightarrow> go_error + resourceDiffArgs) \<Rightarrow> 'w ResourceChanges
    \<Rightarrow> string \<Rightarrow> 'w \<Rightarrow> (ToolResult \<times> go_error option) \<times> 'w" where
  "resource_diff_execute quote decode g raw w =
     (case (if raw = [] then Inr \<lparr>da_changeID = [], da_full = False\<rparr> else decode raw) of
        Inl e \<Rightarrow> ((error_result (''could not parse arguments: '' @ error_text e), None), w)
      | Inr args \<Rightarrow>
          (let i = trim_space (da_changeID args) in
           if i = [] then (let (recent, w) = recentIDs quote g w in ((error_result (''change_id is required. '' @ recent), None), w))
           else
             (let (r, w) = gc_get g i w
              in case r of
                   Inr c \<Rightarrow> ((zero_result\<lparr>tr_content := RenderResourceChange quote c (da_full args)\<rparr>, None), w)
                 | Inl e \<Rightarrow>
                     if error_is e ErrNoResourceChange then
                       (let (recent, w) = recentIDs quote g w
                        in ((error_result (''no resource change with id '' @ quote i @ '' in this conversation. '' @ recent), None), w))
                     else ((error_result (''could not read the change: '' @ error_text e), None), w))))"

section \<open>Two answers that mislead\<close>

text \<open>
  Asked for the full content of a removed resource, the tool says that it is empty: the removal keeps the
  last known content as the one before, and \<open>full\<close> shows the one after.
\<close>

lemma full_of_removed:
  assumes "c = removal_record name before" "\<not> sn_binary before" "\<not> sn_truncated before"
  shows "RenderResourceChange quote (ResourceChangeRecord.extend c (StoredResourceChange.fields i t)) True
    = change_head quote (ResourceChangeRecord.extend c (StoredResourceChange.fields i t))
      @ [NL, NL] @ ''Full captured content ('' @ HumanSize 0 @ ''):'' @ [NL, NL] @ ''(the resource is empty)''"
  using assms
  by (simp add: RenderResourceChange_def change_body_def contentOrEmpty_def removal_record_def
      ResourceChangeRecord.defs StoredResourceChange.defs)

end
