(* ===== verification/ResourceProps.thy ===== *)
theory ResourceProps
  imports ResourceDiff
begin

text \<open>
  What a watch pass guarantees: it reports exactly the differences between what was stored and what it
  read, and a pass over unchanged sources after it reports nothing.
\<close>

section \<open>The host's side\<close>

text \<open>
  What the two interfaces document. \<open>view\<close> is what the store holds by key and \<open>held\<close> is what the sources
  publish; \<open>L\<close> and \<open>R\<close> are the listing and the contents of a source. A read leaves both alone, and a
  store that reports no error did what it was asked.
\<close>

definition sources_steady :: "'w resourceWatcher \<Rightarrow> ('w \<Rightarrow> string \<Rightarrow> ResourceSnapshot option) \<Rightarrow> ('w \<Rightarrow> 'h)
    \<Rightarrow> ('h \<Rightarrow> string \<Rightarrow> go_error + Resource list \<times> bool)
    \<Rightarrow> ('h \<Rightarrow> string \<Rightarrow> string \<Rightarrow> go_error + ResourceContent list) \<Rightarrow> bool" where
  "sources_steady rw view held L R \<longleftrightarrow>
     (\<forall>s\<in>set (rw_sources rw). \<forall>w.
        fst (so_list s (rw_maxResources rw) w) = L (held w) (so_id s)
        \<and> view (snd (so_list s (rw_maxResources rw) w)) = view w \<and> held (snd (so_list s (rw_maxResources rw) w)) = held w
        \<and> (\<forall>u. fst (so_read s u w) = R (held w) (so_id s) u
             \<and> view (snd (so_read s u w)) = view w \<and> held (snd (so_read s u w)) = held w))"

definition store_keeps :: "'w ResourceSnapshots \<Rightarrow> ('w \<Rightarrow> string \<Rightarrow> ResourceSnapshot option) \<Rightarrow> ('w \<Rightarrow> 'h) \<Rightarrow> bool" where
  "store_keeps st view held \<longleftrightarrow>
     (\<forall>w. (\<forall>l. fst (st_list st w) = Inr l \<longrightarrow> map_of (by_key l) = view w)
        \<and> view (snd (st_list st w)) = view w \<and> held (snd (st_list st w)) = held w
        \<and> (\<forall>s. (fst (st_put st s w) = None \<longrightarrow> view (snd (st_put st s w)) = (view w)(snap_key s \<mapsto> s))
             \<and> held (snd (st_put st s w)) = held w)
        \<and> (\<forall>i u. (fst (st_delete st i u w) = None \<longrightarrow> view (snd (st_delete st i u w)) = (view w)(snapshotKey i u := None))
             \<and> held (snd (st_delete st i u w)) = held w)
        \<and> (\<forall>r. view (snd (st_record st r w)) = view w \<and> held (snd (st_record st r w)) = held w))"

definition env_fair :: "watch_env \<Rightarrow> bool" where
  "env_fair env \<longleftrightarrow> (\<forall>l. mset (we_reads env l) = mset l) \<and> (\<forall>l. mset (we_walk env l) = mset l)"

definition ids_plain :: "'w resourceWatcher \<Rightarrow> bool" where
  "ids_plain rw \<longleftrightarrow> (\<forall>s\<in>set (rw_sources rw). CHR 0x00 \<notin> set (so_id s))"

section \<open>What a pass reads\<close>

type_synonym listing_of = "string \<Rightarrow> go_error + Resource list \<times> bool"
type_synonym contents_of = "string \<Rightarrow> string \<Rightarrow> go_error + ResourceContent list"

definition captures_of :: "watch_env \<Rightarrow> 'w resourceWatcher \<Rightarrow> contents_of \<Rightarrow> 'w ResourceSource \<Rightarrow> Resource \<Rightarrow> watch_capture list" where
  "captures_of env rw Rh s r = (case Rh (so_id s) (rs_uri r) of Inl _ \<Rightarrow> [] | Inr ct \<Rightarrow> [capture env rw s r ct])"

definition unread_of :: "watch_env \<Rightarrow> contents_of \<Rightarrow> 'w ResourceSource \<Rightarrow> Resource \<Rightarrow> watch_warning list" where
  "unread_of env Rh s r =
     (case Rh (so_id s) (rs_uri r) of
        Inl e \<Rightarrow> [\<lparr>wn_source = so_id s, wn_text = unread_text env (so_name s) (rs_uri r) e\<rparr>] | Inr _ \<Rightarrow> [])"

definition source_captures :: "watch_env \<Rightarrow> 'w resourceWatcher \<Rightarrow> listing_of \<Rightarrow> contents_of \<Rightarrow> 'w ResourceSource \<Rightarrow> watch_capture list" where
  "source_captures env rw Lh Rh s =
     (case Lh (so_id s) of Inl _ \<Rightarrow> [] | Inr (rs, c) \<Rightarrow> concat (map (captures_of env rw Rh s) (we_reads env rs)))"

definition source_warnings :: "watch_env \<Rightarrow> 'w resourceWatcher \<Rightarrow> listing_of \<Rightarrow> contents_of \<Rightarrow> 'w ResourceSource \<Rightarrow> watch_warning list" where
  "source_warnings env rw Lh Rh s =
     (case Lh (so_id s) of
        Inl e \<Rightarrow> [\<lparr>wn_source = so_id s, wn_text = unlisted_text env (so_name s) e\<rparr>]
      | Inr (rs, c) \<Rightarrow>
          (if c then [\<lparr>wn_source = so_id s, wn_text = cut_text env (so_name s) (rw_maxResources rw)\<rparr>] else [])
          @ concat (map (unread_of env Rh s) (we_reads env rs)))"

definition all_captures :: "watch_env \<Rightarrow> 'w resourceWatcher \<Rightarrow> listing_of \<Rightarrow> contents_of \<Rightarrow> watch_capture list" where
  "all_captures env rw Lh Rh = sort_slice capture_less (concat (map (source_captures env rw Lh Rh) (rw_sources rw)))"

definition all_warnings :: "watch_env \<Rightarrow> 'w resourceWatcher \<Rightarrow> listing_of \<Rightarrow> contents_of \<Rightarrow> watch_warning list" where
  "all_warnings env rw Lh Rh = concat (map (source_warnings env rw Lh Rh) (rw_sources rw))"

lemma put_in_order_mset [simp]: "mset (put_in_order lt x xs) = add_mset x (mset xs)"
  by (induction xs) auto

lemma sort_slice_mset [simp]: "mset (sort_slice lt xs) = mset xs"
  by (induction xs) (auto simp: sort_slice_def)

lemma sort_slice_set [simp]: "set (sort_slice lt xs) = set xs"
  by (metis set_mset_mset sort_slice_mset)

lemma sort_slice_Nil [simp]: "sort_slice lt [] = []"
  by (simp add: sort_slice_def)

lemma fold_read_one:
  assumes "sources_steady rw view held L R" "s \<in> set (rw_sources rw)"
  shows "\<exists>w'. fold (read_one env rw s) rs ((cs, ws), w)
      = ((cs @ concat (map (captures_of env rw (R (held w)) s) rs), ws @ concat (map (unread_of env (R (held w)) s) rs)), w')
    \<and> view w' = view w \<and> held w' = held w"
proof (induction rs arbitrary: cs ws w)
  case (Cons r rs)
  obtain x w1 where x: "so_read s (rs_uri r) w = (x, w1)" by fastforce
  with assms have w1: "x = R (held w) (so_id s) (rs_uri r)" "view w1 = view w" "held w1 = held w"
    unfolding sources_steady_def by (metis fst_conv snd_conv)+
  have "read_one env rw s r ((cs, ws), w)
      = ((cs @ captures_of env rw (R (held w)) s r, ws @ unread_of env (R (held w)) s r), w1)"
    using w1(1) x by (simp add: read_one_def captures_of_def unread_of_def split: sum.split)
  then show ?case using Cons [of "cs @ captures_of env rw (R (held w)) s r" "ws @ unread_of env (R (held w)) s r" w1] w1 by simp
qed simp

lemma fold_read_source:
  assumes "sources_steady rw view held L R" "set ss \<subseteq> set (rw_sources rw)"
  shows "\<exists>w'. fold (read_source env rw) ss ((cs, ws), w)
      = ((cs @ concat (map (source_captures env rw (L (held w)) (R (held w))) ss),
          ws @ concat (map (source_warnings env rw (L (held w)) (R (held w))) ss)), w')
    \<and> view w' = view w \<and> held w' = held w"
  using assms(2)
proof (induction ss arbitrary: cs ws w)
  case (Cons s ss)
  let ?c = "source_captures env rw (L (held w)) (R (held w)) s" and ?w = "source_warnings env rw (L (held w)) (R (held w)) s"
  obtain x w1 where x: "so_list s (rw_maxResources rw) w = (x, w1)" by fastforce
  with assms(1) Cons.prems have w1: "x = L (held w) (so_id s)" "view w1 = view w" "held w1 = held w"
    unfolding sources_steady_def by (metis fst_conv snd_conv list.set_intros(1) subsetD)+
  have "\<exists>w2. read_source env rw s ((cs, ws), w) = ((cs @ ?c, ws @ ?w), w2) \<and> view w2 = view w \<and> held w2 = held w"
  proof (cases x)
    case (Inl e)
    then show ?thesis using x w1 by (simp add: read_source_def source_captures_def source_warnings_def)
  next
    case (Inr p)
    obtain rs c where p: "p = (rs, c)" by fastforce
    let ?ws = "if c then ws @ [\<lparr>wn_source = so_id s, wn_text = cut_text env (so_name s) (rw_maxResources rw)\<rparr>] else ws"
    from fold_read_one [OF assms(1), of s env "we_reads env rs" cs ?ws w1] Cons.prems Inr p x w1
    show ?thesis by (auto simp: read_source_def source_captures_def source_warnings_def)
  qed
  then obtain w2 where w2: "read_source env rw s ((cs, ws), w) = ((cs @ ?c, ws @ ?w), w2)" "view w2 = view w" "held w2 = held w"
    by blast
  then show ?case using Cons.IH [of "cs @ ?c" "ws @ ?w" w2] Cons.prems by simp
qed simp

lemma readAll_steady:
  assumes "sources_steady rw view held L R"
  shows "\<exists>w'. readAll env rw w = ((all_captures env rw (L (held w)) (R (held w)), all_warnings env rw (L (held w)) (R (held w))), w')
    \<and> view w' = view w \<and> held w' = held w"
  using fold_read_source [OF assms, of "rw_sources rw" env "[]" "[]" w]
  by (auto simp: readAll_def all_captures_def all_warnings_def)

section \<open>What a pass records\<close>

text \<open>A change as the model is told of it: its kind, its server and its address.\<close>

definition told :: "ResourceChange \<Rightarrow> string \<times> string \<times> string" where
  "told ch = (rc_kind ch, rc_server ch, rc_uri ch)"

definition told_capture :: "(string \<times> ResourceSnapshot) list \<Rightarrow> watch_capture \<Rightarrow> string \<times> string \<times> string" where
  "told_capture prev c = (change_kind prev c, cp_sourceName c, cp_uri c)"

definition told_removal :: "'w resourceWatcher \<Rightarrow> ResourceSnapshot \<Rightarrow> string \<times> string \<times> string" where
  "told_removal rw s = (ResourceRemoved, sourceName rw (sn_source s), sn_uri s)"

definition stored :: "(string \<Rightarrow> ResourceSnapshot option) \<Rightarrow> watch_capture list \<Rightarrow> string \<Rightarrow> ResourceSnapshot option" where
  "stored v cs = foldl (\<lambda>v c. v(capture_key c \<mapsto> capture_snapshot c)) v cs"

definition dropped :: "(string \<Rightarrow> ResourceSnapshot option) \<Rightarrow> ResourceSnapshot list \<Rightarrow> string \<Rightarrow> ResourceSnapshot option" where
  "dropped v ss = foldl (\<lambda>v s. v(snap_key s := None)) v ss"

lemma snap_key_capture [simp]: "snap_key (capture_snapshot c) = capture_key c"
  by (simp add: snap_key_def capture_key_def capture_snapshot_def)

lemma record_change_told:
  assumes "store_keeps (rw_snapshots rw) view held" "record_change rw kind c before w = (Inr ch, w')"
  shows "told ch = (kind, cp_sourceName c, cp_uri c)" "view w' = (view w)(capture_key c \<mapsto> capture_snapshot c)"
    "held w' = held w"
proof -
  let ?st = "rw_snapshots rw"
  obtain r w1 where r: "st_record ?st (capture_record kind c before) w = (r, w1)" by fastforce
  obtain e w2 where e: "st_put ?st (capture_snapshot c) w1 = (e, w2)" by fastforce
  have k: "view w1 = view w" "held w1 = held w" "held w2 = held w1"
    "e = None \<Longrightarrow> view w2 = (view w1)(snap_key (capture_snapshot c) \<mapsto> capture_snapshot c)"
    using assms(1) r e unfolding store_keeps_def by (metis fst_conv snd_conv)+
  show "told ch = (kind, cp_sourceName c, cp_uri c)" "view w' = (view w)(capture_key c \<mapsto> capture_snapshot c)" "held w' = held w"
    using assms(2) r e k by (auto simp: record_change_def told_def Let_def split: sum.splits option.splits)
qed

lemma recordRemoval_told:
  assumes "store_keeps (rw_snapshots rw) view held" "recordRemoval rw s w = (Inr ch, w')"
  shows "told ch = told_removal rw s" "view w' = (view w)(snap_key s := None)" "held w' = held w"
proof -
  let ?st = "rw_snapshots rw"
  obtain r w1 where r: "st_record ?st (removal_record (sourceName rw (sn_source s)) s) w = (r, w1)" by fastforce
  obtain e w2 where e: "st_delete ?st (sn_source s) (sn_uri s) w1 = (e, w2)" by fastforce
  have k: "view w1 = view w" "held w1 = held w" "held w2 = held w1"
    "e = None \<Longrightarrow> view w2 = (view w1)(snapshotKey (sn_source s) (sn_uri s) := None)"
    using assms(1) r e unfolding store_keeps_def by (metis fst_conv snd_conv)+
  show "told ch = told_removal rw s" "view w' = (view w)(snap_key s := None)" "held w' = held w"
    using assms(2) r e k by (auto simp: recordRemoval_def told_def told_removal_def snap_key_def Let_def split: sum.splits option.splits)
qed

lemma record_captures_told:
  assumes "store_keeps (rw_snapshots rw) view held" "record_captures rw prev cs chs w = ((chs', None), w')"
  shows "map told chs' = map told chs @ map (told_capture prev) (filter (changed_since prev) cs)
    \<and> view w' = stored (view w) (filter (changed_since prev) cs) \<and> held w' = held w"
  using assms(2)
proof (induction cs arbitrary: chs w)
  case (Cons c cs)
  show ?case
  proof (cases "changed_since prev c")
    case True
    obtain r w1 where r: "record_change rw (change_kind prev c) c (map_of prev (capture_key c)) w = (r, w1)" by fastforce
    with Cons.prems True obtain ch where ch: "r = Inr ch" "record_captures rw prev cs (chs @ [ch]) w1 = ((chs', None), w')"
      by (auto split: sum.splits)
    from Cons.IH [OF ch(2)] record_change_told [OF assms(1)] r ch(1) True show ?thesis
      by (auto simp: told_capture_def stored_def)
  qed (use Cons in simp)
qed (simp add: stored_def)

lemma record_removals_told:
  assumes "store_keeps (rw_snapshots rw) view held" "record_removals rw cs ws ss chs w = ((chs', None), w')"
  shows "map told chs' = map told chs @ map (told_removal rw) (filter (\<lambda>s. \<not> still_there cs ws s) ss)
    \<and> view w' = dropped (view w) (filter (\<lambda>s. \<not> still_there cs ws s) ss) \<and> held w' = held w"
  using assms(2)
proof (induction ss arbitrary: chs w)
  case (Cons s ss)
  show ?case
  proof (cases "still_there cs ws s")
    case False
    obtain r w1 where r: "recordRemoval rw s w = (r, w1)" by fastforce
    with Cons.prems False obtain ch where ch: "r = Inr ch" "record_removals rw cs ws ss (chs @ [ch]) w1 = ((chs', None), w')"
      by (auto split: sum.splits)
    from Cons.IH [OF ch(2)] recordRemoval_told [OF assms(1)] r ch(1) False show ?thesis
      by (auto simp: dropped_def)
  qed (use Cons in simp)
qed (simp add: dropped_def)

section \<open>A pass that reported no error\<close>

lemma by_key_keyed: "x \<in> set (by_key ss) \<Longrightarrow> snap_key (snd x) = fst x" and by_key_distinct: "distinct (map fst (by_key ss))"
proof -
  have "(\<forall>x\<in>set (foldl (\<lambda>m s. AList.update (snap_key s) s m) m ss). snap_key (snd x) = fst x)
      \<and> distinct (map fst (foldl (\<lambda>m s. AList.update (snap_key s) s m) m ss))"
    if "\<forall>x\<in>set m. snap_key (snd x) = fst x" "distinct (map fst m)" for m
    using that
  proof (induction ss arbitrary: m)
    case (Cons s ss)
    have "\<forall>x\<in>set (AList.update (snap_key s) s m). snap_key (snd x) = fst x"
    proof
      fix x assume "x \<in> set (AList.update (snap_key s) s m)"
      moreover have "distinct (map fst (AList.update (snap_key s) s m))" using Cons.prems by (simp add: distinct_update)
      ultimately have "map_of (AList.update (snap_key s) s m) (fst x) = Some (snd x)" by simp
      then show "snap_key (snd x) = fst x"
        using Cons.prems by (auto simp: update_conv' split: if_splits dest: map_of_SomeD)
    qed
    then show ?case using Cons.IH [of "AList.update (snap_key s) s m"] Cons.prems by (simp add: distinct_update)
  qed simp
  from this [of "[]"] show "x \<in> set (by_key ss) \<Longrightarrow> snap_key (snd x) = fst x" "distinct (map fst (by_key ss))"
    by (auto simp: by_key_def)
qed

lemma by_key_empty: "by_key ss = [] \<longleftrightarrow> ss = []"
proof -
  have "foldl (\<lambda>m s. AList.update (snap_key s) s m) m ss \<noteq> []" if "m \<noteq> []" for m
    using that
  proof (induction ss arbitrary: m)
    case (Cons s ss)
    have "AList.update (snap_key s) s m \<noteq> []" by (cases m) auto
    then show ?case using Cons.IH by simp
  qed simp
  from this [of "[(snap_key (hd ss), hd ss)]"] this [of "AList.update (snap_key (hd ss)) (hd ss) []"]
  show ?thesis by (cases ss) (simp_all add: by_key_def)
qed

lemma Poll_told:
  assumes "sources_steady rw view held L R" "store_keeps (rw_snapshots rw) view held"
    and "Poll env rw warned w = (((p, None), warned'), w')"
  defines "cs \<equiv> all_captures env rw (L (held w)) (R (held w))" and "ws \<equiv> all_warnings env rw (L (held w)) (R (held w))"
  shows "\<exists>ss. map_of (by_key ss) = view w \<and> (rp_baseline p \<longleftrightarrow> ss = [])
    \<and> mset (map told (rp_changes p)) = mset (map (told_capture (by_key ss)) (filter (changed_since (by_key ss)) cs))
        + mset (map (told_removal rw) (filter (\<lambda>s. \<not> still_there cs ws s) (we_walk env (map snd (by_key ss)))))
    \<and> view w' = dropped (stored (view w) (filter (changed_since (by_key ss)) cs))
        (filter (\<lambda>s. \<not> still_there cs ws s) (we_walk env (map snd (by_key ss))))
    \<and> held w' = held w \<and> warned' = set (map wn_text ws)
    \<and> rp_warnings p = sort_slice str_less (filter (\<lambda>t. t \<notin> warned) (map wn_text ws))"
proof -
  obtain r w1 where r: "st_list (rw_snapshots rw) w = (r, w1)" by fastforce
  with assms(3) obtain ss where ss: "r = Inr ss" by (cases r) (auto simp: Poll_def)
  have w1: "map_of (by_key ss) = view w" "view w1 = view w" "held w1 = held w"
    using assms(2) r ss unfolding store_keeps_def by (metis fst_conv snd_conv)+
  obtain w2 where w2: "readAll env rw w1 = ((cs, ws), w2)" "view w2 = view w1" "held w2 = held w1"
    using readAll_steady [OF assms(1), of env w1] w1(3) by (auto simp: cs_def ws_def)
  obtain chs e w3 where c: "record_captures rw (by_key ss) cs [] w2 = ((chs, e), w3)" by (metis prod.collapse)
  with assms(3) r ss w2 have e: "e = None" by (cases e) (auto simp: Poll_def newWarnings_def Let_def)
  obtain chs' e' w4 where d: "record_removals rw cs ws (we_walk env (map snd (by_key ss))) chs w3 = ((chs', e'), w4)"
    by (metis prod.collapse)
  with assms(3) r ss w2 c e have e': "e' = None" by (cases e') (auto simp: Poll_def newWarnings_def Let_def)
  note told = record_captures_told [OF assms(2) c [unfolded e]] record_removals_told [OF assms(2) d [unfolded e']]
  have p: "p = \<lparr>rp_changes = sort_slice change_less chs', rp_warnings = sort_slice str_less (filter (\<lambda>t. t \<notin> warned) (map wn_text ws)),
      rp_baseline = (ss = [])\<rparr>" "warned' = set (map wn_text ws)" "w' = w4"
    using assms(3) r ss w2 c e d e' by (auto simp: Poll_def newWarnings_def Let_def)
  have "mset (map told (sort_slice change_less chs')) = mset (map told chs')" by (simp only: mset_map sort_slice_mset)
  moreover have "mset (map told chs') = mset (map (told_capture (by_key ss)) (filter (changed_since (by_key ss)) cs))
        + mset (map (told_removal rw) (filter (\<lambda>s. \<not> still_there cs ws s) (we_walk env (map snd (by_key ss)))))"
    using told by (metis append_Nil list.map(1) mset_append)
  ultimately show ?thesis using told w1 w2 p by (intro exI [of _ ss]) simp
qed

section \<open>What a capture is\<close>

definition part_bytes :: "ResourceContent \<Rightarrow> string" where
  "part_bytes p = (if ct_blob p \<noteq> [] then ct_blob p else ct_text p)"

lemma fold_capture_part:
  "fold capture_part ps (c, h, t) = (c', h', t') \<Longrightarrow>
     cp_source c' = cp_source c \<and> cp_sourceName c' = cp_sourceName c \<and> cp_uri c' = cp_uri c \<and> h' = h @ concat (map part_bytes ps)"
proof (induction ps arbitrary: c h t)
  case (Cons p ps)
  obtain c1 h1 t1 where one: "capture_part p (c, h, t) = (c1, h1, t1)" by (metis prod_cases3)
  then have "cp_source c1 = cp_source c" "cp_sourceName c1 = cp_sourceName c" "cp_uri c1 = cp_uri c" "h1 = h @ part_bytes p"
    by (auto simp: part_bytes_def Let_def split: if_splits)
  with Cons.IH [of c1 h1 t1] Cons.prems one show ?case by simp
qed simp

lemma capture_parts:
  "cp_source (capture env rw s r ct) = so_id s" "cp_sourceName (capture env rw s r ct) = so_name s"
  "cp_uri (capture env rw s r ct) = rs_uri r" "cp_hash (capture env rw s r ct) = we_sha env (concat (map part_bytes ct))"
proof -
  let ?c = "\<lparr>cp_source = so_id s, cp_sourceName = so_name s, cp_uri = rs_uri r, cp_label = resource_label r,
      cp_mime = rs_mime r, cp_content = [], cp_hash = [], cp_bytes = 0, cp_binary = False, cp_truncated = False\<rparr>"
  obtain c h t where f: "fold capture_part ct (?c, [], []) = (c, h, t)" by (metis prod_cases3)
  from fold_capture_part [OF f] f
  show "cp_source (capture env rw s r ct) = so_id s" "cp_sourceName (capture env rw s r ct) = so_name s"
    "cp_uri (capture env rw s r ct) = rs_uri r" "cp_hash (capture env rw s r ct) = we_sha env (concat (map part_bytes ct))"
    by (auto simp: capture_def Let_def split: prod.split)
qed

lemma capture_env: "capture (env\<lparr>we_reads := f, we_walk := g\<rparr>) rw s r ct = capture env rw s r ct"
  by (simp add: capture_def)

lemma fair_sets: "env_fair env \<Longrightarrow> set (we_reads env l) = set l" "env_fair env \<Longrightarrow> set (we_walk env ss) = set ss"
  unfolding env_fair_def by (metis set_mset_mset)+

lemma captures_of_set: "c \<in> set (captures_of env rw Rh s r) \<longleftrightarrow> (\<exists>ct. Rh (so_id s) (rs_uri r) = Inr ct \<and> c = capture env rw s r ct)"
  by (cases "Rh (so_id s) (rs_uri r)") (auto simp: captures_of_def)

lemma source_captures_set:
  assumes "env_fair env"
  shows "c \<in> set (source_captures env rw Lh Rh s) \<longleftrightarrow>
    (\<exists>rs cut_off. Lh (so_id s) = Inr (rs, cut_off) \<and>
      (\<exists>r\<in>set rs. \<exists>ct. Rh (so_id s) (rs_uri r) = Inr ct \<and> c = capture env rw s r ct))"
  by (cases "Lh (so_id s)") (auto simp: source_captures_def captures_of_set fair_sets [OF assms])

lemma all_captures_set:
  assumes "env_fair env"
  shows "c \<in> set (all_captures env rw Lh Rh) \<longleftrightarrow>
    (\<exists>s\<in>set (rw_sources rw). \<exists>rs cut_off. Lh (so_id s) = Inr (rs, cut_off) \<and>
      (\<exists>r\<in>set rs. \<exists>ct. Rh (so_id s) (rs_uri r) = Inr ct \<and> c = capture env rw s r ct))"
  by (simp add: all_captures_def source_captures_set [OF assms])

lemma unread_of_set:
  "x \<in> set (unread_of env Rh s r) \<longleftrightarrow>
     (\<exists>e. Rh (so_id s) (rs_uri r) = Inl e \<and> x = \<lparr>wn_source = so_id s, wn_text = unread_text env (so_name s) (rs_uri r) e\<rparr>)"
  by (cases "Rh (so_id s) (rs_uri r)") (auto simp: unread_of_def)

lemma source_warnings_set:
  assumes "env_fair env" "env_fair env'" "we_quote env' = we_quote env"
  shows "set (source_warnings env' rw Lh Rh s) = set (source_warnings env rw Lh Rh s)"
proof -
  have u: "unlisted_text env' = unlisted_text env" "cut_text env' = cut_text env" "unread_text env' = unread_text env"
    using assms(3) by (simp_all add: unlisted_text_def cut_text_def unread_text_def fun_eq_iff)
  show ?thesis
    by (cases "Lh (so_id s)") (auto simp: source_warnings_def unread_of_set fair_sets [OF assms(1)] fair_sets [OF assms(2)] u)
qed

lemma all_warnings_same:
  assumes "env_fair env" "env_fair env'" "we_quote env' = we_quote env"
  shows "set (all_warnings env' rw Lh Rh) = set (all_warnings env rw Lh Rh)"
  using source_warnings_set [OF assms, of rw Lh Rh] by (simp add: all_warnings_def)

lemma all_captures_same:
  assumes "env_fair env" "env_fair env'" "we_sha env' = we_sha env"
  shows "set (all_captures env' rw Lh Rh) = set (all_captures env rw Lh Rh)"
proof -
  have "capture env' rw s r ct = capture env rw s r ct" for s r ct using assms(3) by (simp add: capture_def)
  then show ?thesis unfolding set_eq_iff all_captures_set [OF assms(1)] all_captures_set [OF assms(2)] by simp
qed

lemma split_at_first: "xs @ x # ys = xs' @ x # ys' \<Longrightarrow> x \<notin> set xs \<Longrightarrow> x \<notin> set xs' \<Longrightarrow> xs = xs' \<and> ys = ys'"
proof (induction xs arbitrary: xs')
  case Nil
  then show ?case by (cases xs') auto
next
  case (Cons a xs)
  then show ?case by (cases xs') auto
qed

text \<open>The key of a capture says what its hash is.\<close>

lemma capture_hash_by_key:
  assumes "env_fair env" "ids_plain rw" "c \<in> set (all_captures env rw Lh Rh)" "d \<in> set (all_captures env rw Lh Rh)"
    "capture_key c = capture_key d"
  shows "cp_hash c = cp_hash d"
proof -
  from assms(3) obtain s r ct where c: "s \<in> set (rw_sources rw)" "Rh (so_id s) (rs_uri r) = Inr ct" "c = capture env rw s r ct"
    unfolding all_captures_set [OF assms(1)] by blast
  from assms(4) obtain s' r' ct' where d: "s' \<in> set (rw_sources rw)" "Rh (so_id s') (rs_uri r') = Inr ct'" "d = capture env rw s' r' ct'"
    unfolding all_captures_set [OF assms(1)] by blast
  have "so_id s @ CHR 0x00 # rs_uri r = so_id s' @ CHR 0x00 # rs_uri r'"
    using assms(5) c d by (simp add: capture_key_def snapshotKey_def capture_parts)
  moreover have "CHR 0x00 \<notin> set (so_id s)" "CHR 0x00 \<notin> set (so_id s')"
    using assms(2) c d by (auto simp: ids_plain_def)
  ultimately have "so_id s = so_id s'" "rs_uri r = rs_uri r'"
    by (auto dest: split_at_first)
  then show ?thesis using c d by (simp add: capture_parts)
qed

lemma stored_in:
  "k \<in> capture_key ` set cs \<Longrightarrow> \<exists>c\<in>set cs. capture_key c = k \<and> stored v cs k = Some (capture_snapshot c)"
  by (induction cs rule: rev_induct) (auto simp: stored_def)

lemma stored_out: "k \<notin> capture_key ` set cs \<Longrightarrow> stored v cs k = v k"
  by (induction cs rule: rev_induct) (auto simp: stored_def)

lemma dropped_at: "dropped v ss k = (if k \<in> snap_key ` set ss then None else v k)"
  by (induction ss rule: rev_induct) (auto simp: dropped_def)

text \<open>
  The hash runs over the blocks of a read with nothing between them, so text that moves from one block to
  the next is not seen as a change, though the text captured for it differs.
\<close>

lemma moved_text_same_hash:
  "cp_hash (capture env rw s r [\<lparr>ct_text = ''ab'', ct_blob = [], ct_mime = []\<rparr>])
     = cp_hash (capture env rw s r [\<lparr>ct_text = ''a'', ct_blob = [], ct_mime = []\<rparr>, \<lparr>ct_text = ''b'', ct_blob = [], ct_mime = []\<rparr>])"
  "3 \<le> rw_maxBytes rw \<Longrightarrow>
   cp_content (capture env rw s r [\<lparr>ct_text = ''ab'', ct_blob = [], ct_mime = []\<rparr>])
     \<noteq> cp_content (capture env rw s r [\<lparr>ct_text = ''a'', ct_blob = [], ct_mime = []\<rparr>, \<lparr>ct_text = ''b'', ct_blob = [], ct_mime = []\<rparr>])"
  by (simp add: capture_parts part_bytes_def) (simp add: capture_def capText_def)

section \<open>Two passes\<close>

text \<open>
  A pass over sources that have not changed since the pass before it reports no change and no warning,
  whatever order the reads came in and whatever else the host kept in between.
\<close>

theorem second_pass_quiet:
  assumes "sources_steady rw view held L R" "store_keeps (rw_snapshots rw) view held" "ids_plain rw"
    and "env_fair env" "env_fair env'" "we_sha env' = we_sha env" "we_quote env' = we_quote env"
    and "Poll env rw warned w = (((p, None), warned'), w')"
    and "view w1 = view w'" "held w1 = held w'" "Poll env' rw warned' w1 = (((p', None), warned''), w2)"
  shows "rp_changes p' = [] \<and> rp_warnings p' = []"
proof -
  let ?Lh = "L (held w)" and ?Rh = "R (held w)"
  let ?cs = "all_captures env rw ?Lh ?Rh" and ?ws = "all_warnings env rw ?Lh ?Rh"
  let ?cs' = "all_captures env' rw ?Lh ?Rh" and ?ws' = "all_warnings env' rw ?Lh ?Rh"
  note cs = all_captures_same [OF assms(4) assms(5) assms(6), of rw ?Lh ?Rh]
  note ws = all_warnings_same [OF assms(4) assms(5) assms(7), of rw ?Lh ?Rh]
  from Poll_told [OF assms(1,2,8)] obtain ss where ss: "map_of (by_key ss) = view w" "held w' = held w" "warned' = set (map wn_text ?ws)"
    "view w' = dropped (stored (view w) (filter (changed_since (by_key ss)) ?cs))
        (filter (\<lambda>s. \<not> still_there ?cs ?ws s) (we_walk env (map snd (by_key ss))))" by blast
  from Poll_told [OF assms(1,2,11)] assms(9,10) ss(2) obtain ts where ts: "map_of (by_key ts) = view w'"
    "mset (map told (rp_changes p')) = mset (map (told_capture (by_key ts)) (filter (changed_since (by_key ts)) ?cs'))
        + mset (map (told_removal rw) (filter (\<lambda>s. \<not> still_there ?cs' ?ws' s) (we_walk env' (map snd (by_key ts)))))"
    "rp_warnings p' = sort_slice str_less (filter (\<lambda>t. t \<notin> warned') (map wn_text ?ws'))" by auto
  have still: "still_there ?cs' ?ws' s = still_there ?cs ?ws s" for s
    using cs ws by (simp add: still_there_def sourceFailed_def list_ex_iff)
  have kept: "\<not> changed_since (by_key ts) c" if "c \<in> set ?cs" for c
  proof -
    have "snap_key s \<noteq> capture_key c" if "\<not> still_there ?cs ?ws s" for s
      using that \<open>c \<in> set ?cs\<close> by (force simp: still_there_def)
    then have v: "view w' (capture_key c) = stored (view w) (filter (changed_since (by_key ss)) ?cs) (capture_key c)"
      unfolding ss(4) dropped_at by (force simp: image_iff)
    show ?thesis
    proof (cases "capture_key c \<in> capture_key ` set (filter (changed_since (by_key ss)) ?cs)")
      case True
      from stored_in [OF this, of "view w"] obtain d where d: "d \<in> set ?cs" "capture_key d = capture_key c"
        "view w' (capture_key c) = Some (capture_snapshot d)" unfolding v by auto
      moreover have "cp_hash d = cp_hash c" using capture_hash_by_key [OF assms(4) assms(3) d(1) that d(2)] .
      ultimately show ?thesis by (simp add: changed_since_def ts(1) capture_snapshot_def)
    next
      case False
      then have "\<not> changed_since (by_key ss) c" using that by auto
      moreover have "view w' (capture_key c) = view w (capture_key c)" using stored_out [OF False] v by simp
      ultimately show ?thesis by (simp add: changed_since_def ts(1) ss(1))
    qed
  qed
  have there: "still_there ?cs ?ws s" if "s \<in> set (map snd (by_key ts))" for s
  proof (rule ccontr)
    assume gone: "\<not> still_there ?cs ?ws s"
    from that obtain k where "(k, s) \<in> set (by_key ts)" by auto
    with by_key_keyed [of "(k, s)" ts] by_key_distinct [of ts] have "map_of (by_key ts) (snap_key s) = Some s" by auto
    then have s: "view w' (snap_key s) = Some s" by (simp add: ts(1))
    have out: "snap_key s \<notin> capture_key ` set (filter (changed_since (by_key ss)) ?cs)"
      using gone by (auto simp: still_there_def)
    from s have "view w (snap_key s) = Some s" using stored_out [OF out] by (auto simp: ss(4) dropped_at split: if_splits)
    then have "(snap_key s, s) \<in> set (by_key ss)" by (simp add: ss(1) [symmetric] map_of_SomeD)
    then have "s \<in> set (filter (\<lambda>s. \<not> still_there ?cs ?ws s) (we_walk env (map snd (by_key ss))))"
      using gone by (force simp: fair_sets [OF assms(4)])
    then have "view w' (snap_key s) = None" by (auto simp: ss(4) dropped_at)
    then show False using s by simp
  qed
  have "filter (changed_since (by_key ts)) ?cs' = []" using kept cs by (auto simp: filter_empty_conv)
  moreover have "filter (\<lambda>s. \<not> still_there ?cs' ?ws' s) (we_walk env' (map snd (by_key ts))) = []"
    using there still by (auto simp: filter_empty_conv fair_sets [OF assms(5)])
  moreover have "filter (\<lambda>t. t \<notin> warned') (map wn_text ?ws') = []"
    using ws ss(3) by (auto simp: filter_empty_conv)
  ultimately show ?thesis using ts(2,3) by simp
qed

section \<open>A store in memory\<close>

text \<open>A host that keeps its snapshots in a list and its resources in a value meets what is asked of it.\<close>

record 'h memory_host =
  mh_snaps :: "ResourceSnapshot list"
  mh_log :: "ResourceChangeRecord list"
  mh_held :: 'h

definition memory_store :: "'h memory_host ResourceSnapshots" where
  "memory_store =
     \<lparr>st_list = (\<lambda>w. (Inr (mh_snaps w), w)),
      st_put = (\<lambda>s w. (None, w\<lparr>mh_snaps := mh_snaps w @ [s]\<rparr>)),
      st_delete = (\<lambda>i u w. (None, w\<lparr>mh_snaps := filter (\<lambda>s. snap_key s \<noteq> snapshotKey i u) (mh_snaps w)\<rparr>)),
      st_record = (\<lambda>r w. (Inr (itoa (int (length (mh_log w)))), w\<lparr>mh_log := mh_log w @ [r]\<rparr>))\<rparr>"

definition memory_source :: "string \<Rightarrow> ('h \<Rightarrow> (string \<times> string) list) \<Rightarrow> 'h memory_host ResourceSource" where
  "memory_source i docs =
     \<lparr>so_id = i, so_name = i,
      so_list = (\<lambda>n w. (Inr (map (\<lambda>(u, t). \<lparr>rs_uri = u, rs_name = u, rs_title = u, rs_mime = []\<rparr>) (docs (mh_held w)), False), w)),
      so_read = (\<lambda>u w. (case map_of (docs (mh_held w)) u of
                         None \<Rightarrow> Inl (ErrorNew ''no such resource'')
                       | Some t \<Rightarrow> Inr [\<lparr>ct_text = t, ct_blob = [], ct_mime = []\<rparr>], w))\<rparr>"

lemma by_key_Nil [simp]: "by_key [] = []"
  by (simp add: by_key_def)

lemma map_of_by_key_snoc [simp]: "map_of (by_key (ss @ [s])) = (map_of (by_key ss))(snap_key s \<mapsto> s)"
  by (simp add: by_key_def update_conv')

lemma map_of_by_key_filter:
  "map_of (by_key (filter (\<lambda>s. snap_key s \<noteq> k) ss)) = (map_of (by_key ss))(k := None)"
  by (induction ss rule: rev_induct) (auto simp: fun_eq_iff)

lemma memory_store_keeps: "store_keeps memory_store (\<lambda>w. map_of (by_key (mh_snaps w))) mh_held"
  by (simp add: store_keeps_def memory_store_def map_of_by_key_filter)

lemma memory_source_steady:
  "rw_sources rw = [memory_source i docs] \<Longrightarrow>
   sources_steady rw (\<lambda>w. map_of (by_key (mh_snaps w))) mh_held
     (\<lambda>h i'. fst (so_list (memory_source i docs) 0 \<lparr>mh_snaps = [], mh_log = [], mh_held = h\<rparr>))
     (\<lambda>h i' u. fst (so_read (memory_source i docs) u \<lparr>mh_snaps = [], mh_log = [], mh_held = h\<rparr>))"
  by (simp add: sources_steady_def memory_source_def)

end
