(* ===== verification/Spec2Isabelle.thy ===== *)
theory Spec2Isabelle
  imports TextDiff Utf8 ArgScan Retry RateLimit OutputDedup MessageQueue StreamString
    SessionProps Elapsed Resources SubagentRuns Compaction ContextWindow RunTheorems TodoList GoalEval VfsTools SubagentTool Param DecoderSession ProviderProps ThinkingRepair ResponsesProps ResourceProps
begin

text \<open>
  A verification library for the agentic loop: a Go library that calls a language model in turns. A run
  (\<open>internal/loop\<close>) sends the conversation to a provider, streams the answer into a conversation tree
  (\<open>core\<close>), has its tool calls approved, executed and answered, and goes on until the model answers
  without a call, a limit is met, the context window is full or the host stops it. Around it stand the
  providers that speak three wire dialects, the middleware that re-sends and repairs calls (\<open>extras\<close>,
  \<open>core/paramstrip.go\<close>, \<open>core/thinkingrepair.go\<close>), and the tools the library brings: a task list, a virtual
  filesystem, sub-agents, watched resources, and goal mode.
\<close>

section \<open>Parts of the program and their theories\<close>

text \<open>
  Ground. \<open>Prelude\<close> holds the collections of facts and the shared lemmas; Go's \<open>string\<close> is a list of bytes
  here. \<open>GoString\<close> has the functions of \<open>strings\<close> the code uses, \<open>Utf8\<close> runes and \<open>TruncateRunes\<close>
  (\<open>internal/loop/truncate.go\<close>), \<open>Regex\<close> the part of \<open>regexp\<close> the code's patterns need, \<open>JsonText\<close> and
  \<open>Json\<close> what \<open>encoding/json\<close> writes and reads, \<open>GoError\<close> error values with \<open>errors.Is\<close> and \<open>errors.As\<close>
  (\<open>core/errors.go\<close>, \<open>core/errorkind.go\<close>), and \<open>Prog\<close> statements that return, or leave early with an exit,
  with a weakest precondition for each.

  Conversation. \<open>Messages\<close> (\<open>core/message.go\<close>, \<open>core/usage.go\<close>, \<open>client/completion.go\<close>), \<open>StreamString\<close>
  (\<open>core/streamstring.go\<close>), \<open>ConvTree\<close> (\<open>core/tree.go\<close>, \<open>core/node.go\<close>), \<open>Convert\<close> (\<open>core/convert.go\<close>) and
  \<open>SessionTree\<close> (\<open>internal/loop/session.go\<close>, \<open>arghook.go\<close>): the tree of nodes, messages as a view of a path
  in it, and the sink through which one call writes its turn. \<open>SessionProps\<close> holds what those operations
  keep. \<open>StateCheck\<close> (\<open>statecheck.go\<close>, \<open>session_statecheck.go\<close>) is the check that nothing written is lost.

  The run. \<open>RunHost\<close> is the configuration with the host's callbacks and the run's state; \<open>RunSteps\<close> its
  calls, window and compaction steps, inbox and queue; \<open>RunBatch\<close> a tool batch with its barriers and
  goroutines; \<open>RunLoop\<close> the loop itself (\<open>runOn\<close> of \<open>run_loop.go\<close>). \<open>RunProps\<close>, \<open>RunAnswers\<close> and \<open>RunBounds\<close>
  walk each step once inside locales, which are interpreted for each invariant; \<open>RunTheorems\<close> states what a
  run promises. They rest on \<open>MessageQueue\<close>, \<open>SubagentRuns\<close>, \<open>OutputDedup\<close>, \<open>Elapsed\<close>, \<open>Resources\<close>,
  \<open>Tools\<close>, \<open>Compaction\<close> and \<open>ContextWindow\<close>, each a file of \<open>internal/loop\<close>, and \<open>ArgScan\<close> reads a call's
  arguments while they stream (\<open>argscan.go\<close>).

  Providers. \<open>Sse\<close> reads a response (\<open>core/sse.go\<close>), \<open>DecoderSink\<close> is the sink of a decoder, \<open>ProviderBase\<close>
  the request. Each dialect has a stream decoder, a wire form with the call around them, and properties:
  \<open>AnthropicStream\<close>, \<open>AnthropicWire\<close>, \<open>AnthropicProps\<close>; \<open>OpenAIStream\<close>, \<open>OpenAIWire\<close>, \<open>OpenAIProps\<close>;
  \<open>ResponsesStream\<close>, \<open>ResponsesWire\<close>, \<open>ResponsesProps\<close>. \<open>DecoderSession\<close> joins a decoder to the session's
  sink, \<open>ProviderProps\<close> speaks of all three. \<open>Retry\<close>, \<open>RateLimit\<close>, \<open>ParamStrip\<close> and \<open>ThinkingRepair\<close> are
  the middleware, \<open>Param\<close> the tree of extra parameters (\<open>core/param.go\<close>).

  Tools. \<open>TextDiff\<close> (\<open>textdiff.go\<close>), \<open>TodoList\<close> with \<open>Minting\<close> (\<open>todo\<close>), \<open>VfsRegistry\<close>, \<open>VfsRender\<close> and
  \<open>VfsTools\<close> (\<open>vfs\<close>), \<open>SubagentContext\<close> and \<open>SubagentTool\<close> (\<open>subagent\<close>), \<open>ResourceWatch\<close>, \<open>ResourceDiff\<close>
  and \<open>ResourceProps\<close> (\<open>resources\<close>), \<open>GoalMode\<close> and \<open>GoalEval\<close> (\<open>goal\<close>).
\<close>

section \<open>How code becomes definitions\<close>

text \<open>
  A struct is a record, a tagged interface a datatype, a method a function from the old state to the result
  and the new state. The host, a tool, a provider or a store is a record of functions over a world of any
  type, so a theorem holds whatever they do; what a theorem needs of them is one of its hypotheses, and its
  witness runs it on a concrete one. An error is a value: \<open>go_error option\<close> beside a result, or a sum. A
  \<open>return\<close> from the middle of \<open>runOn\<close> is an exit of \<open>Prog\<close>, and its deferred calls are \<open>deferred\<close>.
  Operations under a lock are atomic; where goroutines meet, the order is a parameter (the read-only calls
  of a batch, the concurrent reads of resources) or a step relation (the wake-up of a collector).

  Not under \<open>src\<close>, or not modelled inside: \<open>strings.ToLower\<close>, \<open>strconv.Quote\<close>, \<open>path.Match\<close>, SHA-256, the
  clock, \<open>json.Unmarshal\<close> into structs, schemas by reflection, the transport. They are arguments of the
  definitions that use them.

  Widths. Words of 32 bits are kept in the diff engine's cells, 64 bits in the retry delay, \<open>wrap64\<close> in
  the line windows, and the float64 arithmetic of thresholds and sizes is rounded as the code does it.
  Counters and sums that a real run cannot bring near \<open>2 ^ 63\<close> are unbounded: turns, attempts, token
  totals (\<open>an_currentUsage\<close> and its kin), sizes, and the evaluator's \<open>gs_iterations\<close> and \<open>gs_reasonRun\<close>,
  which wrap in Go only for a restored value near the largest int. Dollar costs are left out.

  Fuel. \<open>json_parse\<close> has two units for each byte and two more, which \<open>json_fuel_same\<close> shows to be enough,
  and the reader's own depth limit of 10000. A repetition in \<open>Regex\<close> is bounded by the length of the text,
  beyond which it can only match nothing. \<open>take_loop\<close> has the length read under the lock and one more.
  \<open>compactToFit\<close> takes rounds as an argument: for providers that refuse no transcript whose split is
  right after its first message, as many as there are messages and one more are enough; for others no
  number may be (\<open>compactToFit_diverges\<close>). \<open>runOn\<close> takes rounds as well, two
  for each turn and two more are enough (\<open>RunTheorems\<close>); running out is the exit \<open>StillGoing\<close>, which no
  theorem counts as a return. The loops of a run that wait on the host (inbox, sub-agents, compaction) are
  given \<open>h_rounds\<close>, and end in the same exit.
\<close>

section \<open>What is shown\<close>

text \<open>
  A run (\<open>RunTheorems\<close>): every call it made is answered, the conversation only grows, model calls and
  rounds are bounded, a batch's results are those of its calls in order, a repeated batch ends it, and its
  queue is closed at the end. \<open>Tools\<close>, \<open>OutputDedup\<close>: nothing runs unapproved, and what is collapsed was
  shown before. \<open>MessageQueue\<close>, \<open>SubagentRuns\<close>: nothing accepted is lost or delivered twice, and no
  collector waits on a report that is there. \<open>ConvTree\<close>, \<open>Convert\<close>, \<open>StreamString\<close>, \<open>StateCheck\<close>: the tree
  keeps its conversations, messages survive the round trip, and the check of lost values is exact.

  Decoders: however a turn is cut, the completion is the one the server sent, the same as its plain form,
  and the same as the nodes left in the session; a failed call told the sink nothing. Wire forms: read
  back, a request holds the transcript. \<open>Retry\<close>, \<open>ParamStrip\<close>, \<open>ThinkingRepair\<close>, \<open>RateLimit\<close>: the exact
  sequence of requests and what the caller gets. \<open>ArgScan\<close>, \<open>Json\<close>, \<open>Param\<close>: scanning and round trips.

  Tools: a diff patches and is minimal; task list operations refine an abstract plan; a path resolves to
  its most specific mount and nothing is written past a guard; windows cover a file; a sub-agent gets only
  what it was granted and reports once; goal mode blocks no more than twice for one reason; a second pass
  over unchanged resources reports nothing (\<open>second_pass_quiet\<close>).

  Where the code does otherwise than it says, a lemma shows it on the definitions:
  \<open>compactToFit_diverges\<close>, \<open>rate_limit_exceeds_cap\<close>, \<open>failed_write_keeps_change\<close>, \<open>slice_lines_overflow\<close>,
  \<open>adapter_counts_hits_as_files\<close>, \<open>adapter_ignores_flags\<close>, \<open>trailing_junk_accepted\<close>,
  \<open>late_reasoning_first\<close>, \<open>transient_callback_iff\<close>, \<open>dialect_params_survive\<close>, \<open>full_of_removed\<close>,
  \<open>moved_text_same_hash\<close>.
\<close>

section \<open>What is not modelled\<close>

text \<open>
  The XML document format and the servers that speak it, file-backed blobs and session stores, the command
  line, model lists and the price catalogue, the GitHub tools, the search index in SQLite and web fetching:
  I/O and rendering around a database, a parser or a service that is not here. The session API of futures
  around \<open>runOn\<close>, the semaphore of the sub-agents and schema inference by reflection are glue whose effect
  is a parameter. Notifications that cannot change a run (\<open>OnNode\<close> and the like) are left out of it.
\<close>

end
